(* ===== verification/Prelude.thy ===== *)
theory Prelude
  imports Main "HOL-Library.Word" "HOL-Library.Monad_Syntax"
begin

text \<open>
  Shared vocabulary of the development: the C integer types the assembler is written
  with, shifts whose count is undefined behaviour in C outside the width of the operand,
  and the word facts every component uses.
\<close>

unbundle bit_operations_syntax

section \<open>C integer types\<close>

type_synonym u8 = "8 word"
type_synonym u16 = "16 word"
type_synonym u32 = "32 word"
type_synonym u64 = "64 word"

text \<open>Facts that turn a word operation into arithmetic on the unsigned value.\<close>

named_theorems uint_simps

declare uint_word_ariths [uint_simps]
declare take_bit_eq_mod [uint_simps]
declare drop_bit_eq_div [uint_simps]
declare push_bit_eq_mult [uint_simps]

section \<open>C shifts\<close>

text \<open>
  A shift whose count is negative or not smaller than the width of the operand is undefined
  in C. The three shifts below return \<open>None\<close> there, so that a caller which does not check
  its count has the undefined case as a branch of its own.
\<close>

definition c_shl :: "'a::len word \<Rightarrow> int \<Rightarrow> 'a word option" where
  "c_shl v n = (if 0 \<le> n \<and> n < int LENGTH('a) then Some (push_bit (nat n) v) else None)"

definition c_shr :: "'a::len word \<Rightarrow> int \<Rightarrow> 'a word option" where
  "c_shr v n = (if 0 \<le> n \<and> n < int LENGTH('a) then Some (drop_bit (nat n) v) else None)"

definition c_sar :: "'a::len word \<Rightarrow> int \<Rightarrow> 'a word option" where
  "c_sar v n = (if 0 \<le> n \<and> n < int LENGTH('a) then Some (signed_drop_bit (nat n) v) else None)"

lemma c_shl_Some [simp]:
  "0 \<le> n \<Longrightarrow> n < int LENGTH('a) \<Longrightarrow> c_shl (v :: 'a::len word) n = Some (push_bit (nat n) v)"
  by (simp add: c_shl_def)

lemma c_shr_Some [simp]:
  "0 \<le> n \<Longrightarrow> n < int LENGTH('a) \<Longrightarrow> c_shr (v :: 'a::len word) n = Some (drop_bit (nat n) v)"
  by (simp add: c_shr_def)

lemma c_sar_Some [simp]:
  "0 \<le> n \<Longrightarrow> n < int LENGTH('a) \<Longrightarrow> c_sar (v :: 'a::len word) n = Some (signed_drop_bit (nat n) v)"
  by (simp add: c_sar_def)

section \<open>Word facts\<close>

lemma uint_add_if:
  "uint (a + b) = (if uint a + uint b < 2 ^ LENGTH('a) then uint a + uint b
                   else uint a + uint b - 2 ^ LENGTH('a))" for a b :: "'a::len word"
  by (simp add: uint_plus_if')

lemma uint_sub_if:
  "uint (a - b) = (if uint b \<le> uint a then uint a - uint b
                   else uint a - uint b + 2 ^ LENGTH('a))" for a b :: "'a::len word"
  by (simp add: uint_sub_if')

lemma uint_neg_if:
  "uint (- a) = (if a = 0 then 0 else 2 ^ LENGTH('a) - uint a)" for a :: "'a::len word"
proof (cases "a = 0")
  case False
  then have "0 < uint a" by (metis uint_0_iff uint_ge_0 order_le_less)
  then show ?thesis using uint_sub_if [of 0 a] False by simp
qed simp

lemma int_div_less: "(a::int) < c * b \<Longrightarrow> 0 < b \<Longrightarrow> a div b < c"
proof (rule ccontr)
  assume ab: "a < c * b" "0 < b" and "\<not> a div b < c"
  then have "b * c \<le> b * (a div b)" by (intro mult_left_mono) auto
  moreover have "b * (a div b) \<le> a"
    using mult_div_mod_eq [of b a] pos_mod_sign [OF ab(2), of a] by linarith
  ultimately show False using ab(1) by (simp add: mult.commute)
qed

lemma uint_drop_bit_div: "uint (drop_bit n x) = uint x div 2 ^ n" for x :: "'a::len word"
proof -
  have "uint (drop_bit n x) = drop_bit n (uint x)"
    by (rule bit_eqI) (auto simp: bit_simps dest: bit_imp_le_length)
  then show ?thesis by (simp add: drop_bit_eq_div)
qed

lemma uint_push_bit: "uint (push_bit n x) = (uint x * 2 ^ n) mod 2 ^ LENGTH('a)" for x :: "'a::len word"
proof -
  have "push_bit n x = x * word_of_int (2 ^ n)" by (simp add: push_bit_eq_mult)
  then show ?thesis by (simp only: uint_word_ariths uint_word_of_int mod_mult_right_eq)
qed

lemma bit_uint_odd: "bit a n \<longleftrightarrow> odd (uint a div 2 ^ n)" for a :: "'a::len word"
proof -
  have "bit a n = bit (uint a) n" by (simp add: bit_uint_iff) (metis bit_imp_le_length)
  then show ?thesis by (simp add: bit_iff_odd)
qed

lemma msb_uint:
  "bit a (LENGTH('a) - Suc 0) \<longleftrightarrow> 2 ^ (LENGTH('a) - Suc 0) \<le> uint a" for a :: "'a::len word"
proof -
  have "uint a < 2 * 2 ^ (LENGTH('a) - Suc 0)"
    using uint_lt2p [of a] by (simp flip: power_Suc)
  then have "uint a div 2 ^ (LENGTH('a) - Suc 0) < 2"
    by (rule int_div_less) simp
  moreover have "0 \<le> uint a div 2 ^ (LENGTH('a) - Suc 0)"
    by (simp add: pos_imp_zdiv_nonneg_iff)
  moreover have "0 < uint a div 2 ^ (LENGTH('a) - Suc 0) \<longleftrightarrow> 2 ^ (LENGTH('a) - Suc 0) \<le> uint a"
    by (simp add: pos_imp_zdiv_pos_iff)
  moreover have "odd q \<longleftrightarrow> 0 < q" if "0 \<le> q" "q < 2" for q :: int
    using that by presburger
  ultimately show ?thesis
    by (simp add: bit_uint_odd)
qed

lemma sint_uint_if:
  "sint a = (if bit a (LENGTH('a) - Suc 0) then uint a - 2 ^ LENGTH('a) else uint a)"
  for a :: "'a::len word"
  by (simp add: sint_uint signed_take_bit_eq_take_bit_minus bit_uint_iff take_bit_eq_mod)

lemma uint_word_cat:
  assumes "LENGTH('a) + LENGTH('b) \<le> LENGTH('c)"
  shows "uint (word_cat (a::'a::len word) (b::'b::len word) :: 'c::len word)
         = uint a * 2 ^ LENGTH('b) + uint b"
proof -
  have a: "uint a + 1 \<le> 2 ^ LENGTH('a)" and b: "uint b < 2 ^ LENGTH('b)"
    using uint_lt2p [of a] uint_lt2p [of b] by linarith+
  have "uint a * 2 ^ LENGTH('b) + uint b < (uint a + 1) * 2 ^ LENGTH('b)"
    using b by (simp add: algebra_simps)
  also have "\<dots> \<le> 2 ^ LENGTH('a) * 2 ^ LENGTH('b)"
    using a by (rule mult_right_mono) simp
  also have "\<dots> \<le> 2 ^ LENGTH('c)"
    using assms by (simp flip: power_add)
  finally have "(uint a * 2 ^ LENGTH('b) + uint b) mod 2 ^ LENGTH('c) = uint a * 2 ^ LENGTH('b) + uint b"
    by simp
  then show ?thesis
    unfolding word_cat_eq' uint_word_of_int concat_bit_eq
    by (simp add: take_bit_eq_mod push_bit_eq_mult add.commute)
qed

lemma uint_ucast_small:
  "uint x < 2 ^ LENGTH('b) \<Longrightarrow> uint (ucast (x :: 'a::len word) :: 'b::len word) = uint x"
  by (simp add: unsigned_ucast_eq take_bit_int_eq_self)

lemma uint_ucast_up:
  assumes "LENGTH('a) \<le> LENGTH('b)"
  shows "uint (ucast (x :: 'a::len word) :: 'b::len word) = uint x"
proof (rule uint_ucast_small)
  have "uint x < 2 ^ LENGTH('a)" by (rule uint_lt2p)
  also have "\<dots> \<le> 2 ^ LENGTH('b)" using assms by simp
  finally show "uint x < 2 ^ LENGTH('b)" .
qed

section \<open>Lists updated by index\<close>

lemma nth_upd: "xs[i := x] ! j = (if i = j \<and> j < length xs then x else xs ! j)"
  by (cases "i < length xs") (auto simp: nth_list_update list_update_beyond)

lemma map_upd_same: "f x = f (xs ! i) \<Longrightarrow> map f (xs[i := x]) = map f xs"
  by (cases "i < length xs") (simp_all add: map_update list_update_same_conv list_update_beyond)

section \<open>Ending early\<close>

text \<open>
  How an operation may end without a result: an internal error (\<open>ierror(0)\<close>), a fatal
  \<open>general_error\<close> of the given number, undefined behaviour of C, or a recursion that does not
  come to an end within the bound of the model. \<open>Fatal_output\<close> is a fatal \<open>output_error\<close>.
\<close>

datatype stop = Ierror | Fatal_error nat | Fatal_output nat | Undefined | Runaway

abbreviation bind_stop :: "stop + 'a \<Rightarrow> ('a \<Rightarrow> stop + 'b) \<Rightarrow> stop + 'b" where
  "bind_stop m f \<equiv> (case m of Inl e \<Rightarrow> Inl e | Inr x \<Rightarrow> f x)"

end
