(* ===== verification/Errors.thy ===== *)
theory Errors
  imports Prelude
begin

text \<open>
  \<open>src/error.c\<close>: the four tables of diagnostics (the 6502 back end and the oldstyle syntax
  for the target-specific ones), the routine \<open>error\<close> that every report goes through, with its
  suppression of repetitions, its counters and the two ways it ends the program, and the
  routines that disable or modify diagnostics. The text it prints is not modelled: the numbers
  printed are collected in \<open>shown\<close>.
\<close>

section \<open>Tables\<close>

definition ERROR :: u32 where "ERROR = 1"
definition WARNING :: u32 where "WARNING = 2"
definition FATAL :: u32 where "FATAL = 16"
definition MESSAGE :: u32 where "MESSAGE = 32"
definition DISABLED :: u32 where "DISABLED = 64"

lemmas flag_defs = ERROR_def WARNING_def FATAL_def MESSAGE_def DISABLED_def

text \<open>The flags of each message, as the sums of 1 ERROR, 2 WARNING, 16 FATAL, 32 MESSAGE, 256 NOLINE.\<close>

definition general_err_out :: "u32 list" where
  "general_err_out =
    [1, 1, 1, 1, 17, 2, 2, 273, 1, 1, 273, 257, 17, 273, 257,
     273, 273, 273, 17, 1, 17, 2, 257, 258, 1, 17, 17, 1, 258, 273,
     1, 2, 17, 257, 1, 2, 1, 17, 1, 2, 2, 1, 1, 17, 1,
     1, 1, 1, 1, 1, 2, 2, 2, 257, 2, 17, 17, 2, 1, 1,
     1, 258, 2, 1, 1, 17, 1, 1, 1, 1, 1, 1, 1, 1, 1,
     1, 1, 1, 257, 17, 258, 257, 1, 2, 2, 2, 258, 2, 2]"

definition syntax_err_out :: "u32 list" where
  "syntax_err_out =
    [1, 1, 2, 2, 2, 1, 2, 2, 1, 2, 1, 1, 1, 1, 1,
     1, 1, 1, 1, 1, 2, 2, 2, 2, 2]"

definition cpu_err_out :: "u32 list" where
  "cpu_err_out =
    [1, 2, 2, 1, 1, 2, 1, 1, 1, 1, 1, 1, 1, 1, 1,
     1, 2]"

definition output_err_out :: "u32 list" where
  "output_err_out =
    [273, 257, 273, 257, 1, 1, 257, 273, 1, 258, 258, 257, 1, 2, 258,
     273, 258, 257, 258, 257, 258, 257, 2, 273, 258, 257, 257]"

datatype errtab = General | Syntax | Cpu | Output

definition first_error :: "errtab \<Rightarrow> int" where
  "first_error t = (case t of General \<Rightarrow> 1 | Syntax \<Rightarrow> 1001 | Cpu \<Rightarrow> 2001 | Output \<Rightarrow> 3001)"

definition initial_tables :: "errtab \<Rightarrow> u32 list" where
  "initial_tables t = (case t of General \<Rightarrow> general_err_out | Syntax \<Rightarrow> syntax_err_out
                                | Cpu \<Rightarrow> cpu_err_out | Output \<Rightarrow> output_err_out)"

section \<open>Reporting\<close>

text \<open>\<open>cur_src\<close> is the current source and its line; the \<open>last_err\<close> fields are the statics of \<open>error\<close>.\<close>

record err_state =
  tables :: "errtab \<Rightarrow> u32 list"
  errors :: int
  warnings :: int
  max_errors :: int
  no_warn :: bool
  nostdout :: bool
  cur_src :: "(nat \<times> int) option"
  last_err_source :: "nat option"
  last_err_no :: int
  last_err_line :: int
  cur_listing :: "int option"
  shown :: "int list"

definition has :: "u32 \<Rightarrow> u32 \<Rightarrow> bool" where
  "has flags f \<longleftrightarrow> flags AND f \<noteq> 0"

definition repeated :: "int \<Rightarrow> err_state \<Rightarrow> bool" where
  "repeated no s \<longleftrightarrow> (case (cur_src s, last_err_source s) of
      (Some (src, line), Some lsrc) \<Rightarrow> src = lsrc \<and> line = last_err_line s \<and> no = last_err_no s
    | _ \<Rightarrow> False)"

definition remember :: "int \<Rightarrow> err_state \<Rightarrow> err_state" where
  "remember no s = (case cur_src s of
      None \<Rightarrow> s
    | Some (src, line) \<Rightarrow> s\<lparr>last_err_source := Some src, last_err_line := line, last_err_no := no\<rparr>)"

definition count :: "u32 \<Rightarrow> int \<Rightarrow> err_state \<Rightarrow> err_state" where
  "count flags no s =
     (let s = (if has flags ERROR then
                 s\<lparr>errors := errors s + 1, cur_listing := map_option (\<lambda>_. no) (cur_listing s)\<rparr>
               else if has flags WARNING then s\<lparr>warnings := warnings s + 1\<rparr> else s)
      in s\<lparr>shown := shown s @ [no]\<rparr>)"

text \<open>The outcome \<open>Left\<close> is a call of \<open>leave\<close>, which does not return.\<close>

datatype outcome = Returned | Left

definition error_report :: "errtab \<Rightarrow> nat \<Rightarrow> err_state \<Rightarrow> err_state \<times> outcome" where
  "error_report t n s =
     (let flags = tables s t ! n; no = int n + first_error t
      in if has flags DISABLED \<or> (has flags WARNING \<and> no_warn s) then (s, Returned)
         else if has flags MESSAGE \<and> \<not> has flags (WARNING OR ERROR OR FATAL) then
           (if nostdout s then (s, Returned) else (count flags no (remember no s), Returned))
         else if repeated no s then (s, Returned)
         else
           (let s = count flags no (remember no s)
            in if has flags FATAL then (s, Left)
               else if has flags ERROR \<and> max_errors s \<noteq> 0 \<and> max_errors s \<le> errors s then (s, Left)
               else (s, Returned)))"

text \<open>
  \<open>output_atom_error\<close>: the source and the line of the atom replace the current ones for one
  report. The line is a field of the source: when the atom comes from the current source, it
  keeps the line of the atom.
\<close>

definition back_to :: "(nat \<times> int) option \<Rightarrow> (nat \<times> int) option \<Rightarrow> (nat \<times> int) option" where
  "back_to old asrc = (case (old, asrc) of
      (Some (src, l), Some (src', l')) \<Rightarrow> Some (src, if src' = src then l' else l)
    | _ \<Rightarrow> old)"

definition output_atom_error :: "nat \<Rightarrow> (nat \<times> int) option \<Rightarrow> err_state \<Rightarrow> err_state \<times> outcome" where
  "output_atom_error n asrc s =
     (let (s', r) = error_report Output n (s\<lparr>cur_src := asrc\<rparr>)
      in case r of Returned \<Rightarrow> (s'\<lparr>cur_src := back_to (cur_src s) asrc\<rparr>, Returned) | Left \<Rightarrow> (s', Left))"

text \<open>The routines for the four classes of diagnostics.\<close>

definition report_general :: "nat \<Rightarrow> err_state \<Rightarrow> err_state \<times> outcome" where
  "report_general n = error_report General n"

definition syntax_error :: "nat \<Rightarrow> err_state \<Rightarrow> err_state \<times> outcome" where
  "syntax_error n = error_report Syntax n"

definition cpu_error :: "nat \<Rightarrow> err_state \<Rightarrow> err_state \<times> outcome" where
  "cpu_error n = error_report Cpu n"

definition output_error :: "nat \<Rightarrow> err_state \<Rightarrow> err_state \<times> outcome" where
  "output_error n = error_report Output n"

section \<open>Changing the tables\<close>

definition set_flags :: "errtab \<Rightarrow> nat \<Rightarrow> u32 \<Rightarrow> err_state \<Rightarrow> err_state" where
  "set_flags t n f s = s\<lparr>tables := (tables s)(t := (tables s t)[n := f])\<rparr>"

text \<open>The variable argument list of the \<open>modify\<close> routines ends at the first 0.\<close>

fun modify_errors :: "errtab \<Rightarrow> u32 \<Rightarrow> nat list \<Rightarrow> err_state \<Rightarrow> err_state" where
  "modify_errors t flags [] s = s"
| "modify_errors t flags (n # ns) s = (if n = 0 then s else modify_errors t flags ns (set_flags t n flags s))"

definition modify_gen_err :: "u32 \<Rightarrow> nat list \<Rightarrow> err_state \<Rightarrow> err_state" where
  "modify_gen_err = modify_errors General"

definition modify_syntax_err :: "u32 \<Rightarrow> nat list \<Rightarrow> err_state \<Rightarrow> err_state" where
  "modify_syntax_err = modify_errors Syntax"

definition modify_cpu_err :: "u32 \<Rightarrow> nat list \<Rightarrow> err_state \<Rightarrow> err_state" where
  "modify_cpu_err = modify_errors Cpu"

definition disable :: "u32 \<Rightarrow> errtab \<Rightarrow> int \<Rightarrow> err_state \<Rightarrow> err_state \<times> outcome" where
  "disable type t errnum s =
     (let n = errnum - first_error t
      in if 0 \<le> n \<and> n < int (length (tables s t)) \<and> has (tables s t ! nat n) type
         then (set_flags t (nat n) (tables s t ! nat n OR DISABLED) s, Returned)
         else error_report General 33 s)"

definition disable_type :: "u32 \<Rightarrow> int \<Rightarrow> err_state \<Rightarrow> err_state \<times> outcome" where
  "disable_type type n s =
     (if first_error Output \<le> n then disable type Output n s
      else if first_error Cpu \<le> n then disable type Cpu n s
      else if first_error Syntax \<le> n then disable type Syntax n s
      else if first_error General \<le> n then disable type General n s
      else (s, Returned))"

definition disable_message :: "int \<Rightarrow> err_state \<Rightarrow> err_state \<times> outcome" where
  "disable_message n s = disable_type MESSAGE n s"

definition disable_warning :: "int \<Rightarrow> err_state \<Rightarrow> err_state \<times> outcome" where
  "disable_warning n s = disable_type WARNING n s"

text \<open>
  \<open>leave\<close>: with an output file open, \<open>errors\<close> decides whether it is removed; the exit status
  is a failure when an error was counted, or a warning with \<open>fail_on_warning\<close>.
\<close>

definition leave_removes_output :: "err_state \<Rightarrow> bool \<Rightarrow> bool \<Rightarrow> bool" where
  "leave_removes_output s has_outfile has_outname \<longleftrightarrow> has_outfile \<and> errors s \<noteq> 0 \<and> has_outname"

definition leave_fails :: "err_state \<Rightarrow> bool \<Rightarrow> bool" where
  "leave_fails s fail_on_warning \<longleftrightarrow> errors s \<noteq> 0 \<or> (fail_on_warning \<and> warnings s \<noteq> 0)"

section \<open>What every run keeps\<close>

text \<open>An error is neither a warning nor a message nor disabled, and every fatal diagnostic is an error.\<close>

definition entry_ok :: "u32 \<Rightarrow> bool" where
  "entry_ok f \<longleftrightarrow> (has f FATAL \<longrightarrow> has f ERROR)
     \<and> (has f ERROR \<longrightarrow> \<not> has f WARNING \<and> \<not> has f MESSAGE \<and> \<not> has f DISABLED)"

definition tables_ok :: "(errtab \<Rightarrow> u32 list) \<Rightarrow> bool" where
  "tables_ok T \<longleftrightarrow> (\<forall>t. list_all entry_ok (T t))"

lemma initial_tables_ok: "tables_ok initial_tables"
proof -
  have "list_all entry_ok general_err_out" by code_simp
  moreover have "list_all entry_ok syntax_err_out" by code_simp
  moreover have "list_all entry_ok cpu_err_out" by code_simp
  moreover have "list_all entry_ok output_err_out" by code_simp
  ultimately show ?thesis
    by (simp add: tables_ok_def initial_tables_def split: errtab.split)
qed

lemma has_or: "has (f OR g) k \<longleftrightarrow> has f k \<or> has g k"
  by (simp add: has_def and.commute [of _ k] bit.conj_disj_distrib or_eq_0_iff)

lemma has_flag:
  "has FATAL ERROR = False" "has DISABLED ERROR = False" "has DISABLED FATAL = False"
  "has DISABLED WARNING = False" "has DISABLED MESSAGE = False"
  by (simp_all add: has_def flag_defs)

lemma entry_ok_disable: "entry_ok f \<Longrightarrow> has f WARNING \<or> has f MESSAGE \<Longrightarrow> entry_ok (f OR DISABLED)"
  by (auto simp: entry_ok_def has_or has_flag)

lemma count_simps [simp]:
  "tables (count f no s) = tables s" "max_errors (count f no s) = max_errors s"
  "no_warn (count f no s) = no_warn s" "cur_src (count f no s) = cur_src s"
  "errors (count f no s) = errors s + (if has f ERROR then 1 else 0)"
  "warnings (count f no s) = warnings s + (if has f ERROR then 0 else if has f WARNING then 1 else 0)"
  "shown (count f no s) = shown s @ [no]"
  "last_err_source (count f no s) = last_err_source s"
  "last_err_no (count f no s) = last_err_no s"
  "last_err_line (count f no s) = last_err_line s"
  by (simp_all add: count_def Let_def)

lemma remember_simps [simp]:
  "tables (remember no s) = tables s" "max_errors (remember no s) = max_errors s"
  "no_warn (remember no s) = no_warn s" "cur_src (remember no s) = cur_src s"
  "errors (remember no s) = errors s" "warnings (remember no s) = warnings s"
  "shown (remember no s) = shown s"
  by (simp_all add: remember_def split: option.split prod.split)

lemma repeated_remember: "cur_src s \<noteq> None \<Longrightarrow> repeated no (count f no (remember no s))"
  by (auto simp: repeated_def remember_def)

text \<open>The counters after a report, and when it does not return.\<close>

lemma error_report_cases:
  assumes "error_report t n s = (s', r)"
  obtains (Quiet) "s' = s" "r = Returned"
    | (Shown) f where "f = tables s t ! n" "s' = count f (int n + first_error t) (remember (int n + first_error t) s)"
        "r = Left \<longrightarrow> has f FATAL \<or> (has f ERROR \<and> max_errors s \<noteq> 0 \<and> max_errors s \<le> errors s')"
        "r = Returned \<longrightarrow> \<not> (has f ERROR \<and> max_errors s \<noteq> 0 \<and> max_errors s \<le> errors s')"
proof -
  let ?f = "tables s t ! n"
  have E: "has ?f (WARNING OR ERROR OR FATAL) \<longleftrightarrow> has ?f WARNING \<or> has ?f ERROR \<or> has ?f FATAL"
    by (simp add: has_def bit.conj_disj_distrib or_eq_0_iff)
  show ?thesis
  proof (cases "s' = s \<and> r = Returned")
    case True
    then show ?thesis using Quiet by blast
  next
    case False
    then show ?thesis
      using assms E by (intro Shown [of ?f]) (auto simp: error_report_def Let_def split: if_splits)
  qed
qed

text \<open>A run: reports, moves to another source line, and the command line options that disable diagnostics.\<close>

datatype err_event = Report errtab nat | Report_atom nat "(nat \<times> int) option" | At "(nat \<times> int) option" | Disable_warning int | Disable_message int

definition err_event_ok :: "err_event \<Rightarrow> err_state \<Rightarrow> bool" where
  "err_event_ok e s = (case e of
      Report t n \<Rightarrow> n < length (tables s t)
    | Report_atom n a \<Rightarrow> n < length (tables s Output)
    | _ \<Rightarrow> True)"

definition err_step :: "err_event \<Rightarrow> err_state \<Rightarrow> err_state \<times> outcome" where
  "err_step e s = (case e of
      Report t n \<Rightarrow> error_report t n s
    | Report_atom n a \<Rightarrow> output_atom_error n a s
    | At src \<Rightarrow> (s\<lparr>cur_src := src\<rparr>, Returned)
    | Disable_warning n \<Rightarrow> disable_warning n s
    | Disable_message n \<Rightarrow> disable_message n s)"

inductive err_reach :: "err_state \<Rightarrow> err_state \<Rightarrow> outcome \<Rightarrow> bool" for s0 where
  start: "err_reach s0 s0 Returned"
| step: "err_reach s0 s Returned \<Longrightarrow> err_event_ok e s \<Longrightarrow> err_step e s = (s', r) \<Longrightarrow> err_reach s0 s' r"

definition err_init :: "err_state \<Rightarrow> bool" where
  "err_init s \<longleftrightarrow> tables s = initial_tables \<and> errors s = 0 \<and> warnings s = 0 \<and> 0 \<le> max_errors s \<and> shown s = []"

definition err_inv :: "err_state \<Rightarrow> outcome \<Rightarrow> bool" where
  "err_inv s r \<longleftrightarrow> tables_ok (tables s) \<and> map length (map (tables s) [General, Syntax, Cpu, Output]) = [89, 25, 17, 27]
     \<and> 0 \<le> errors s \<and> 0 \<le> warnings s \<and> 0 \<le> max_errors s
     \<and> (r = Returned \<longrightarrow> max_errors s = 0 \<or> errors s < max_errors s)
     \<and> (r = Left \<longrightarrow> 0 < errors s)
     \<and> errors s + warnings s \<le> int (length (shown s))"

lemma tables_ok_nth: "tables_ok T \<Longrightarrow> n < length (T t) \<Longrightarrow> entry_ok (T t ! n)"
  by (simp add: tables_ok_def list_all_length)

lemma error_report_inv:
  assumes inv: "err_inv s Returned" and n: "n < length (tables s t)"
    and eq: "error_report t n s = (s', r)"
  shows "err_inv s' r"
  using eq
proof (cases rule: error_report_cases)
  case Quiet
  then show ?thesis using inv by simp
next
  case (Shown f)
  have "entry_ok f" using inv n Shown(1) by (simp add: err_inv_def tables_ok_nth)
  then show ?thesis using inv Shown
    by (cases r) (auto simp: err_inv_def entry_ok_def)
qed

lemma err_inv_cur_src [simp]: "err_inv (s\<lparr>cur_src := x\<rparr>) r = err_inv s r"
  by (simp add: err_inv_def)

lemma output_atom_error_inv:
  assumes inv: "err_inv s Returned" and n: "n < length (tables s Output)"
    and eq: "output_atom_error n a s = (s', r)"
  shows "err_inv s' r"
proof -
  obtain s1 where s1: "error_report Output n (s\<lparr>cur_src := a\<rparr>) = (s1, r)"
    and s': "s' = (case r of Returned \<Rightarrow> s1\<lparr>cur_src := back_to (cur_src s) a\<rparr> | Left \<Rightarrow> s1)"
    using eq by (auto simp: output_atom_error_def split: prod.splits outcome.splits)
  have "err_inv s1 r" using inv n s1 by (intro error_report_inv [OF _ _ s1]) simp_all
  then show ?thesis by (cases r) (simp_all add: s')
qed

lemma length_tables_General: "err_inv s r \<Longrightarrow> length (tables s General) = 89"
  by (simp add: err_inv_def)

lemma set_disabled_inv:
  assumes inv: "err_inv s Returned" and n: "n < length (tables s t)"
    and f: "has (tables s t ! n) WARNING \<or> has (tables s t ! n) MESSAGE"
  shows "err_inv (set_flags t n (tables s t ! n OR DISABLED) s) Returned"
proof -
  have "tables_ok (tables s)" using inv by (simp add: err_inv_def)
  then have "entry_ok (tables s t ! n)" using n by (rule tables_ok_nth)
  then have "entry_ok (tables s t ! n OR DISABLED)" using f by (rule entry_ok_disable)
  then have "tables_ok ((tables s)(t := (tables s t)[n := tables s t ! n OR DISABLED]))"
    using inv unfolding err_inv_def tables_ok_def list_all_iff
    by (auto dest: set_update_subset_insert [THEN subsetD])
  then show ?thesis
    using inv by (cases t) (simp_all add: err_inv_def set_flags_def)
qed

lemma disable_inv:
  assumes inv: "err_inv s Returned" and ty: "type = WARNING \<or> type = MESSAGE"
    and eq: "disable_type type n s = (s', r)"
  shows "err_inv s' r"
proof -
  have d: "err_inv s' r" if "disable type t n s = (s', r)" for t
  proof (cases "0 \<le> n - first_error t \<and> n - first_error t < int (length (tables s t))
      \<and> has (tables s t ! nat (n - first_error t)) type")
    case True
    then have "err_inv (set_flags t (nat (n - first_error t))
        (tables s t ! nat (n - first_error t) OR DISABLED) s) Returned"
      using ty by (intro set_disabled_inv [OF inv]) auto
    with that True show ?thesis by (auto simp: disable_def Let_def)
  next
    case False
    then have "error_report General 33 s = (s', r)" using that by (auto simp: disable_def Let_def)
    then show ?thesis using inv by (intro error_report_inv [OF inv]) (auto simp: length_tables_General)
  qed
  show ?thesis using eq inv by (auto simp: disable_type_def split: if_splits intro: d)
qed

lemma err_init_inv: "err_init s \<Longrightarrow> err_inv s Returned"
  using initial_tables_ok
  by (auto simp: err_init_def err_inv_def initial_tables_def general_err_out_def syntax_err_out_def
      cpu_err_out_def output_err_out_def)

lemma err_step_inv:
  "err_inv s Returned \<Longrightarrow> err_event_ok e s \<Longrightarrow> err_step e s = (s', r) \<Longrightarrow> err_inv s' r"
  by (cases e) (auto simp: err_step_def err_event_ok_def disable_warning_def disable_message_def
      elim: error_report_inv output_atom_error_inv disable_inv)

lemma err_reach_inv: "err_reach s0 s r \<Longrightarrow> err_init s0 \<Longrightarrow> err_inv s r"
  by (induction rule: err_reach.induct) (auto intro: err_init_inv err_step_inv)

lemma error_reported_once:
  assumes "error_report t n s = (s', Returned)" and "cur_src s \<noteq> None" and "has (tables s t ! n) ERROR"
  shows "error_report t n s' = (s', Returned)"
  using assms(1)
proof (cases rule: error_report_cases)
  case (Shown f)
  then have "repeated (int n + first_error t) s'" "tables s' = tables s"
    using assms(2) repeated_remember by auto
  then show ?thesis using assms(3)
    by (auto simp: error_report_def Let_def has_def bit.conj_disj_distrib or_eq_0_iff)
qed (use assms in simp)

text \<open>
  C33. Whatever is reported and disabled, in any order: as long as the program runs it has
  counted fewer errors than the limit \<open>max_errors\<close> (if there is one), every error and every
  warning counted was shown, and when a report ends the program, \<open>leave\<close> exits with the
  status of a failure and removes the output file that is open.
\<close>

theorem error_limit:
  assumes "err_reach s0 s r" and "err_init s0"
  shows "0 \<le> errors s \<and> 0 \<le> warnings s \<and> errors s + warnings s \<le> int (length (shown s))
    \<and> (r = Returned \<longrightarrow> max_errors s = 0 \<or> errors s < max_errors s)
    \<and> (r = Left \<longrightarrow> leave_fails s w \<and> leave_removes_output s True True)"
  using err_reach_inv [OF assms] by (auto simp: err_inv_def leave_fails_def leave_removes_output_def)

definition err_start :: err_state where
  "err_start = \<lparr>tables = initial_tables, errors = 0, warnings = 0, max_errors = 1, no_warn = False, nostdout = False,
     cur_src = Some (1, 7), last_err_source = None, last_err_no = 0, last_err_line = 0, cur_listing = None, shown = []\<rparr>"

lemma error_limit_witness:
  "\<exists>s. error_report General 0 err_start = (s, Left) \<and> errors s = 1 \<and> leave_fails s False"
proof -
  obtain s r where s: "error_report General 0 err_start = (s, r)" by fastforce
  have l: "r = Left \<and> errors s = 1" using s
    by (auto simp: error_report_def err_start_def initial_tables_def general_err_out_def has_def flag_defs
        repeated_def count_def remember_def Let_def)
  have "err_reach err_start s r"
    by (rule err_reach.step [OF err_reach.start, of "Report General 0"])
      (use s in \<open>simp_all add: err_event_ok_def err_step_def err_start_def initial_tables_def general_err_out_def\<close>)
  moreover have "err_init err_start" by (simp add: err_init_def err_start_def)
  ultimately have "r = Left \<longrightarrow> leave_fails s False" using error_limit by blast
  then show ?thesis using s l by auto
qed

text \<open>
  C34. An error that was just reported for a source line is not reported or counted again for
  that line, as when the line is assembled in several passes.
\<close>

theorem same_error_once:
  assumes "error_report t n s = (s', Returned)" and "cur_src s \<noteq> None" and "has (tables s t ! n) ERROR"
  shows "error_report t n s' = (s', Returned)"
  by (rule error_reported_once [OF assms])

lemma same_error_once_witness:
  "let s = fst (error_report General 0 (err_start\<lparr>max_errors := 0\<rparr>))
   in shown s = [1] \<and> error_report General 0 s = (s, Returned)"
proof -
  let ?s0 = "err_start\<lparr>max_errors := 0\<rparr>"
  have s: "error_report General 0 ?s0 = (fst (error_report General 0 ?s0), Returned)"
    and sh: "shown (fst (error_report General 0 ?s0)) = [1]"
    by (simp_all add: error_report_def err_start_def initial_tables_def general_err_out_def has_def flag_defs
        repeated_def count_def remember_def first_error_def)
  have "cur_src ?s0 \<noteq> None" "has (tables ?s0 General ! 0) ERROR"
    by (simp_all add: err_start_def initial_tables_def general_err_out_def has_def flag_defs)
  from same_error_once [OF s this] sh show ?thesis by simp
qed

end
