(* ===== verification/Symtab.thy ===== *)
theory Symtab
  imports Prelude
begin

text \<open>
  \<open>src/symtab.c\<close>: the chained hash tables that hold mnemonics, directives, macros and symbols,
  with and without regard to case. A C string is the list of its characters before the
  terminator. The interface its clients rely on is the locale \<open>name_table\<close>; the tables are an
  instance of it for either setting of \<open>nocase\<close>.
\<close>

section \<open>C strings\<close>

definition tolower_c :: "char \<Rightarrow> char" where
  "tolower_c c = (if 65 \<le> (of_char c :: nat) \<and> (of_char c :: nat) \<le> 90
                  then char_of ((of_char c :: nat) + 32) else c)"

fun stricmp_eq :: "string \<Rightarrow> string \<Rightarrow> bool" where
  "stricmp_eq [] [] = True"
| "stricmp_eq (a # as) (b # bs) = (tolower_c a = tolower_c b \<and> stricmp_eq as bs)"
| "stricmp_eq _ _ = False"

text \<open>Equality of the first \<open>n\<close> characters, as \<open>strncmp\<close> and \<open>strnicmp\<close> decide it.\<close>

fun strncmp_eq :: "string \<Rightarrow> string \<Rightarrow> nat \<Rightarrow> bool" where
  "strncmp_eq _ _ 0 = True"
| "strncmp_eq [] [] (Suc n) = True"
| "strncmp_eq (a # as) (b # bs) (Suc n) = (a = b \<and> strncmp_eq as bs n)"
| "strncmp_eq _ _ (Suc n) = False"

fun strnicmp_eq :: "string \<Rightarrow> string \<Rightarrow> nat \<Rightarrow> bool" where
  "strnicmp_eq _ _ 0 = True"
| "strnicmp_eq [] [] (Suc n) = True"
| "strnicmp_eq (a # as) (b # bs) (Suc n) = (tolower_c a = tolower_c b \<and> strnicmp_eq as bs n)"
| "strnicmp_eq _ _ (Suc n) = False"

lemma stricmp_eq_map: "stricmp_eq a b \<longleftrightarrow> map tolower_c a = map tolower_c b"
  by (induction a b rule: stricmp_eq.induct) auto

lemma strncmp_eq_take: "strncmp_eq a b n \<longleftrightarrow> take n a = take n b"
  by (induction a b n rule: strncmp_eq.induct) auto

lemma strnicmp_eq_take: "strnicmp_eq a b n \<longleftrightarrow> map tolower_c (take n a) = map tolower_c (take n b)"
  by (induction a b n rule: strnicmp_eq.induct) auto

section \<open>Hash functions\<close>

definition hash_step :: "u64 \<Rightarrow> char \<Rightarrow> u64" where
  "hash_step h c = (push_bit 5 h + h) + of_char c"

fun hashcode_loop :: "u64 \<Rightarrow> string \<Rightarrow> u64" where
  "hashcode_loop h [] = h"
| "hashcode_loop h (c # cs) = hashcode_loop (hash_step h c) cs"

definition hashcode :: "string \<Rightarrow> u64" where
  "hashcode name = hashcode_loop 5381 name"

fun hashcodelen_loop :: "u64 \<Rightarrow> string \<Rightarrow> nat \<Rightarrow> u64" where
  "hashcodelen_loop h name 0 = h"
| "hashcodelen_loop h (c # cs) (Suc len) = hashcodelen_loop (hash_step h c) cs len"
| "hashcodelen_loop h [] (Suc len) = h"

definition hashcodelen :: "string \<Rightarrow> nat \<Rightarrow> u64" where
  "hashcodelen name len = hashcodelen_loop 5381 name len"

fun hashcode_nc_loop :: "u64 \<Rightarrow> string \<Rightarrow> u64" where
  "hashcode_nc_loop h [] = h"
| "hashcode_nc_loop h (c # cs) = hashcode_nc_loop (hash_step h (tolower_c c)) cs"

definition hashcode_nc :: "string \<Rightarrow> u64" where
  "hashcode_nc name = hashcode_nc_loop 5381 name"

fun hashcodelen_nc_loop :: "u64 \<Rightarrow> string \<Rightarrow> nat \<Rightarrow> u64" where
  "hashcodelen_nc_loop h name 0 = h"
| "hashcodelen_nc_loop h (c # cs) (Suc len) = hashcodelen_nc_loop (hash_step h (tolower_c c)) cs len"
| "hashcodelen_nc_loop h [] (Suc len) = h"

definition hashcodelen_nc :: "string \<Rightarrow> nat \<Rightarrow> u64" where
  "hashcodelen_nc name len = hashcodelen_nc_loop 5381 name len"

lemma hashcode_nc_loop_lower: "hashcode_nc_loop h s = hashcode_loop h (map tolower_c s)"
  by (induction h s rule: hashcode_nc_loop.induct) simp_all

lemma hashcode_nc_lower: "hashcode_nc s = hashcode (map tolower_c s)"
  by (simp add: hashcode_nc_def hashcode_def hashcode_nc_loop_lower)

lemma hashcodelen_take: "hashcodelen s n = hashcode (take n s)"
proof -
  have "hashcodelen_loop h s n = hashcode_loop h (take n s)" for h
    by (induction h s n rule: hashcodelen_loop.induct) simp_all
  then show ?thesis by (simp add: hashcodelen_def hashcode_def)
qed

lemma hashcodelen_nc_take: "hashcodelen_nc s n = hashcode_nc (take n s)"
proof -
  have "hashcodelen_nc_loop h s n = hashcode_nc_loop h (take n s)" for h
    by (induction h s n rule: hashcodelen_nc_loop.induct) simp_all
  then show ?thesis by (simp add: hashcodelen_nc_def hashcode_nc_def)
qed

section \<open>Tables\<close>

text \<open>A bucket is the list of its entries in the order of the chain; \<open>ht_size\<close> is its field \<open>size\<close>.\<close>

record 'd hashtable =
  entries :: "(string \<times> 'd) list list"
  ht_size :: nat
  collisions :: int

definition new_hashtable :: "nat \<Rightarrow> 'd hashtable" where
  "new_hashtable sz = \<lparr>entries = replicate sz [], ht_size = sz, collisions = 0\<rparr>"

definition bucket_index :: "'d hashtable \<Rightarrow> bool \<Rightarrow> string \<Rightarrow> nat" where
  "bucket_index ht no_case name =
     (if no_case then unat (hashcode_nc name) mod ht_size ht else unat (hashcode name) mod ht_size ht)"

definition add_hashentry :: "bool \<Rightarrow> 'd hashtable \<Rightarrow> string \<Rightarrow> 'd \<Rightarrow> bool \<Rightarrow> 'd hashtable" where
  "add_hashentry debug ht name data no_case =
     (let i = bucket_index ht no_case name;
          ht = (if debug \<and> entries ht ! i \<noteq> [] then ht\<lparr>collisions := collisions ht + 1\<rparr> else ht)
      in ht\<lparr>entries := (entries ht)[i := (name, data) # entries ht ! i]\<rparr>)"

text \<open>Removal from one chain; \<open>None\<close> when no entry has the name.\<close>

fun rem_chain :: "string \<Rightarrow> bool \<Rightarrow> (string \<times> 'd) list \<Rightarrow> (string \<times> 'd) list option" where
  "rem_chain name no_case [] = None"
| "rem_chain name no_case ((n, d) # ps) =
     (if name = n \<or> (no_case \<and> stricmp_eq name n) then Some ps
      else map_option ((#) (n, d)) (rem_chain name no_case ps))"

text \<open>\<open>None\<close> is the internal error of the code.\<close>

definition rem_hashentry :: "'d hashtable \<Rightarrow> string \<Rightarrow> bool \<Rightarrow> 'd hashtable option" where
  "rem_hashentry ht name no_case =
     (let i = bucket_index ht no_case name
      in map_option (\<lambda>ps. ht\<lparr>entries := (entries ht)[i := ps]\<rparr>) (rem_chain name no_case (entries ht ! i)))"

text \<open>The walk along a chain, with the number of entries passed by.\<close>

fun find_chain :: "(string \<Rightarrow> bool) \<Rightarrow> (string \<times> 'd) list \<Rightarrow> int \<times> 'd option" where
  "find_chain m [] = (0, None)"
| "find_chain m ((n, d) # ps) =
     (if m n then (0, Some d) else (let (k, r) = find_chain m ps in (k + 1, r)))"

definition find_at :: "(string \<Rightarrow> bool) \<Rightarrow> nat \<Rightarrow> 'd hashtable \<Rightarrow> 'd hashtable \<times> 'd option" where
  "find_at m i ht =
     (let (k, r) = find_chain m (entries ht ! i) in (ht\<lparr>collisions := collisions ht + k\<rparr>, r))"

definition find_name :: "'d hashtable \<Rightarrow> string \<Rightarrow> 'd hashtable \<times> 'd option" where
  "find_name ht name = find_at (\<lambda>n. name = n) (unat (hashcode name) mod ht_size ht) ht"

definition find_namelen :: "'d hashtable \<Rightarrow> string \<Rightarrow> nat \<Rightarrow> 'd hashtable \<times> 'd option" where
  "find_namelen ht name len =
     find_at (\<lambda>n. strncmp_eq name n len \<and> length n = len) (unat (hashcodelen name len) mod ht_size ht) ht"

definition find_name_nc :: "'d hashtable \<Rightarrow> string \<Rightarrow> 'd hashtable \<times> 'd option" where
  "find_name_nc ht name = find_at (\<lambda>n. stricmp_eq name n) (unat (hashcode_nc name) mod ht_size ht) ht"

definition find_namelen_nc :: "'d hashtable \<Rightarrow> string \<Rightarrow> nat \<Rightarrow> 'd hashtable \<times> 'd option" where
  "find_namelen_nc ht name len =
     find_at (\<lambda>n. strnicmp_eq name n len \<and> length n = len) (unat (hashcodelen_nc name len) mod ht_size ht) ht"

section \<open>The abstract table\<close>

text \<open>The name as the table compares it, and the lookup of such keys.\<close>

definition key :: "bool \<Rightarrow> string \<Rightarrow> string" where
  "key no_case name = (if no_case then map tolower_c name else name)"

definition key_index :: "'d hashtable \<Rightarrow> string \<Rightarrow> nat" where
  "key_index ht k = unat (hashcode k) mod ht_size ht"

definition keyed :: "bool \<Rightarrow> (string \<times> 'd) list \<Rightarrow> (string \<times> 'd) list" where
  "keyed no_case ps = map (\<lambda>(n, d). (key no_case n, d)) ps"

definition ht_map :: "bool \<Rightarrow> 'd hashtable \<Rightarrow> string \<Rightarrow> 'd option" where
  "ht_map no_case ht k = map_of (keyed no_case (entries ht ! key_index ht k)) k"

definition ht_ok :: "bool \<Rightarrow> 'd hashtable \<Rightarrow> bool" where
  "ht_ok no_case ht \<longleftrightarrow> 0 < ht_size ht \<and> length (entries ht) = ht_size ht
     \<and> (\<forall>i < ht_size ht. distinct (map fst (keyed no_case (entries ht ! i)))
           \<and> (\<forall>k \<in> fst ` set (keyed no_case (entries ht ! i)). key_index ht k = i))"

lemma key_simps: "key False n = n" "key True n = map tolower_c n"
  by (simp_all add: key_def)

lemma bucket_index_key: "bucket_index ht no_case name = key_index ht (key no_case name)"
  by (simp add: bucket_index_def key_index_def key_def hashcode_nc_lower)

lemma keyed_simps [simp]:
  "keyed no_case [] = []" "keyed no_case ((n, d) # ps) = (key no_case n, d) # keyed no_case ps"
  by (simp_all add: keyed_def)

lemma key_match: "(name = n \<or> (no_case \<and> stricmp_eq name n)) \<longleftrightarrow> key no_case name = key no_case n"
  by (auto simp: key_def stricmp_eq_map)

lemma find_chain_map_of:
  "(\<And>n. m n \<longleftrightarrow> key no_case n = k) \<Longrightarrow> snd (find_chain m ps) = map_of (keyed no_case ps) k"
  by (induction m ps rule: find_chain.induct) (auto split: prod.split)

lemma find_chain_count: "0 \<le> fst (find_chain m ps) \<and> fst (find_chain m ps) \<le> int (length ps)"
  by (induction m ps rule: find_chain.induct) (auto split: prod.splits)

lemma rem_chain_None:
  "rem_chain name no_case ps = None \<longleftrightarrow> map_of (keyed no_case ps) (key no_case name) = None"
  by (induction name no_case ps rule: rem_chain.induct) (simp_all add: key_match)

lemma rem_chain_Some:
  assumes "rem_chain name no_case ps = Some qs" and "distinct (map fst (keyed no_case ps))"
  shows "map_of (keyed no_case qs) = (map_of (keyed no_case ps))(key no_case name := None)
     \<and> distinct (map fst (keyed no_case qs))
     \<and> fst ` set (keyed no_case qs) \<subseteq> fst ` set (keyed no_case ps)"
  using assms
proof (induction ps arbitrary: qs)
  case (Cons p ps)
  obtain n d where p: "p = (n, d)" by fastforce
  show ?case
  proof (cases "key no_case name = key no_case n")
    case True
    then have "qs = ps" using Cons.prems(1) by (simp add: p key_match)
    moreover have "map_of (keyed no_case ps) (key no_case n) = None"
      using Cons.prems(2) by (simp add: p map_of_eq_None_iff)
    ultimately show ?thesis using Cons.prems(2) True by (auto simp: p)
  next
    case False
    then obtain rs where "rem_chain name no_case ps = Some rs" "qs = (n, d) # rs"
      using Cons.prems(1) by (auto simp: p key_match)
    then show ?thesis using Cons.IH [of rs] Cons.prems(2) False by (auto simp: p fun_upd_twist)
  qed
qed simp

section \<open>The interface of a name table\<close>

text \<open>
  What the clients of the tables rely on: \<open>look\<close> is the contents of a table under the
  canonical keys; \<open>add\<close> requires a name that is not in the table yet.
\<close>

locale name_table =
  fixes canon :: "string \<Rightarrow> string"
    and inv :: "'t \<Rightarrow> bool"
    and look :: "'t \<Rightarrow> string \<Rightarrow> 'd option"
    and add :: "'t \<Rightarrow> string \<Rightarrow> 'd \<Rightarrow> 't"
    and rem :: "'t \<Rightarrow> string \<Rightarrow> 't option"
    and find :: "'t \<Rightarrow> string \<Rightarrow> 't \<times> 'd option"
  assumes add_inv: "inv t \<Longrightarrow> look t (canon n) = None \<Longrightarrow> inv (add t n d)"
    and add_look: "inv t \<Longrightarrow> look (add t n d) = (look t)(canon n \<mapsto> d)"
    and rem_fails: "inv t \<Longrightarrow> rem t n = None \<longleftrightarrow> look t (canon n) = None"
    and rem_look: "inv t \<Longrightarrow> rem t n = Some t' \<Longrightarrow> inv t' \<and> look t' = (look t)(canon n := None)"
    and find_result: "inv t \<Longrightarrow> snd (find t n) = look t (canon n)"
    and find_state: "inv t \<Longrightarrow> inv (fst (find t n)) \<and> look (fst (find t n)) = look t"
begin

lemma find_add_same: "inv t \<Longrightarrow> look t (canon n) = None \<Longrightarrow> canon m = canon n \<Longrightarrow>
    snd (find (add t n d) m) = Some d"
  by (simp add: find_result add_inv add_look)

lemma find_add_other: "inv t \<Longrightarrow> look t (canon n) = None \<Longrightarrow> canon m \<noteq> canon n \<Longrightarrow>
    snd (find (add t n d) m) = snd (find t m)"
  by (simp add: find_result add_inv add_look)

lemma rem_add_restores: "inv t \<Longrightarrow> look t (canon n) = None \<Longrightarrow>
    \<exists>t'. rem (add t n d) n = Some t' \<and> inv t' \<and> look t' = look t"
proof -
  assume t: "inv t" "look t (canon n) = None"
  then have i: "inv (add t n d)" by (rule add_inv)
  then have "rem (add t n d) n \<noteq> None" using t by (simp add: rem_fails add_look)
  then obtain t' where t': "rem (add t n d) n = Some t'" by blast
  have "look t' = look t" using rem_look [OF i t'] t by (auto simp: add_look fun_eq_iff)
  then show ?thesis using rem_look [OF i t'] t' by blast
qed

definition add_all :: "'t \<Rightarrow> (string \<times> 'd) list \<Rightarrow> 't" where
  "add_all t nds = foldl (\<lambda>t (n, d). add t n d) t nds"

lemma add_all_look:
  assumes "inv t" and "distinct (map (canon \<circ> fst) nds)" and "\<forall>p \<in> set nds. look t (canon (fst p)) = None"
  shows "inv (add_all t nds)
    \<and> look (add_all t nds) = look t ++ map_of (map (\<lambda>(n, d). (canon n, d)) nds)"
  using assms
proof (induction nds arbitrary: t)
  case (Cons p nds)
  obtain n d where p: "p = (n, d)" by fastforce
  have i: "inv (add t n d)" using Cons.prems by (auto simp: p intro: add_inv)
  have "\<forall>q \<in> set nds. look (add t n d) (canon (fst q)) = None"
    using Cons.prems by (force simp: p add_look)
  then have IH: "inv (add_all (add t n d) nds)
      \<and> look (add_all (add t n d) nds) = look (add t n d) ++ map_of (map (\<lambda>(n, d). (canon n, d)) nds)"
    using Cons.prems by (intro Cons.IH i) (simp_all add: p)
  have "canon n \<notin> fst ` set (map (\<lambda>(n, d). (canon n, d)) nds)"
    using Cons.prems by (force simp: p)
  then have "map_of (map (\<lambda>(n, d). (canon n, d)) nds) (canon n) = None"
    by (simp only: map_of_eq_None_iff) simp
  then have "(look t)(canon n \<mapsto> d) ++ map_of (map (\<lambda>(n, d). (canon n, d)) nds)
      = look t ++ (map_of (map (\<lambda>(n, d). (canon n, d)) nds))(canon n \<mapsto> d)"
    by (auto simp: fun_eq_iff map_add_def split: option.split)
  then have "look (add_all (add t n d) nds) = look t ++ map_of (map (\<lambda>(n, d). (canon n, d)) (p # nds))"
    using IH Cons.prems(1) by (simp only: p add_look list.map case_prod_conv map_of.simps fst_conv snd_conv)
  moreover have "add_all t (p # nds) = add_all (add t n d) nds" by (simp add: add_all_def p)
  ultimately show ?case using IH by (simp only: simp_thms)
qed (simp add: add_all_def)

end

section \<open>The hash tables are name tables\<close>

lemma key_index_less: "ht_ok nc ht \<Longrightarrow> key_index ht k < ht_size ht"
  by (simp add: ht_ok_def key_index_def)

lemma new_hashtable_ok: "0 < sz \<Longrightarrow> ht_ok nc (new_hashtable sz) \<and> ht_map nc (new_hashtable sz) = Map.empty"
  by (auto simp: ht_ok_def new_hashtable_def ht_map_def key_index_def fun_eq_iff)

lemma ht_set_bucket:
  assumes ok: "ht_ok nc ht"
    and ps: "distinct (map fst (keyed nc ps))" "\<forall>k \<in> fst ` set (keyed nc ps). key_index ht k = i"
    and i: "i < ht_size ht"
  shows "ht_ok nc (ht\<lparr>entries := (entries ht)[i := ps], collisions := c\<rparr>)"
    and "ht_map nc (ht\<lparr>entries := (entries ht)[i := ps], collisions := c\<rparr>) k
       = (if key_index ht k = i then map_of (keyed nc ps) k else ht_map nc ht k)"
  using assms by (auto simp: ht_ok_def ht_map_def key_index_def nth_list_update)

lemma ht_map_outside: "ht_ok nc ht \<Longrightarrow> i < ht_size ht \<Longrightarrow> key_index ht k \<noteq> i \<Longrightarrow>
    map_of (keyed nc (entries ht ! i)) k = None"
  by (force simp: ht_ok_def map_of_eq_None_iff)

lemma add_hashentry_form:
  "\<exists>c. add_hashentry debug ht n d nc
     = ht\<lparr>entries := (entries ht)[key_index ht (key nc n) := (n, d) # entries ht ! key_index ht (key nc n)],
          collisions := c\<rparr>"
  by (rule exI [of _ "if debug \<and> entries ht ! key_index ht (key nc n) \<noteq> []
      then collisions ht + 1 else collisions ht"], cases ht)
    (simp add: add_hashentry_def bucket_index_key Let_def)

lemma add_hashentry_ok:
  assumes ok: "ht_ok nc ht" and fresh: "ht_map nc ht (key nc n) = None"
  shows "ht_ok nc (add_hashentry debug ht n d nc)"
proof -
  let ?i = "key_index ht (key nc n)"
  obtain c where eq: "add_hashentry debug ht n d nc
      = ht\<lparr>entries := (entries ht)[?i := (n, d) # entries ht ! ?i], collisions := c\<rparr>"
    using add_hashentry_form [of debug ht n d nc] by (elim exE)
  have i: "?i < ht_size ht" using ok by (rule key_index_less)
  show ?thesis unfolding eq
    using ok fresh i by (intro ht_set_bucket) (auto simp: ht_ok_def ht_map_def map_of_eq_None_iff)
qed

lemma add_hashentry_map:
  assumes ok: "ht_ok nc ht"
  shows "ht_map nc (add_hashentry debug ht n d nc) = (ht_map nc ht)(key nc n \<mapsto> d)"
proof -
  let ?i = "key_index ht (key nc n)"
  have i: "?i < length (entries ht)" using ok key_index_less by (auto simp: ht_ok_def)
  obtain c where eq: "add_hashentry debug ht n d nc
      = ht\<lparr>entries := (entries ht)[?i := (n, d) # entries ht ! ?i], collisions := c\<rparr>"
    using add_hashentry_form [of debug ht n d nc] by (elim exE)
  show ?thesis unfolding eq using i
    by (auto simp: fun_eq_iff ht_map_def key_index_def nth_list_update)
qed

lemma rem_hashentry_fails:
  "ht_ok nc ht \<Longrightarrow> rem_hashentry ht n nc = None \<longleftrightarrow> ht_map nc ht (key nc n) = None"
  by (simp add: rem_hashentry_def Let_def bucket_index_key rem_chain_None ht_map_def)

lemma rem_hashentry_map:
  assumes ok: "ht_ok nc ht" and eq: "rem_hashentry ht n nc = Some ht'"
  shows "ht_ok nc ht' \<and> ht_map nc ht' = (ht_map nc ht)(key nc n := None)"
proof -
  let ?i = "key_index ht (key nc n)"
  have i: "?i < ht_size ht" using ok by (rule key_index_less)
  obtain ps where ps: "rem_chain n nc (entries ht ! ?i) = Some ps"
    and ht': "ht' = ht\<lparr>entries := (entries ht)[?i := ps], collisions := collisions ht\<rparr>"
    using eq by (auto simp: rem_hashentry_def Let_def bucket_index_key)
  have chain: "distinct (map fst (keyed nc (entries ht ! ?i)))"
    "\<forall>k \<in> fst ` set (keyed nc (entries ht ! ?i)). key_index ht k = ?i"
    using ok i by (auto simp: ht_ok_def)
  note rem = rem_chain_Some [OF ps chain(1)]
  have "\<forall>k \<in> fst ` set (keyed nc ps). key_index ht k = ?i" using rem chain(2) by blast
  then show ?thesis
    using ht_set_bucket [OF ok _ _ i, of ps "collisions ht"] rem i
    unfolding ht' by (auto simp: fun_eq_iff ht_map_def)
qed

definition find_nc :: "bool \<Rightarrow> 'd hashtable \<Rightarrow> string \<Rightarrow> 'd hashtable \<times> 'd option" where
  "find_nc nc ht n = (if nc then find_name_nc ht n else find_name ht n)"

lemma find_at_map:
  assumes "\<And>n. m n \<longleftrightarrow> key nc n = k" and "i = key_index ht k"
  shows "snd (find_at m i ht) = ht_map nc ht k"
    and "\<exists>c. fst (find_at m i ht) = ht\<lparr>collisions := c\<rparr>"
  using find_chain_map_of [of m nc k "entries ht ! i"] assms
  by (auto simp: find_at_def ht_map_def split: prod.splits)

lemma find_nc_map:
  "snd (find_nc nc ht n) = ht_map nc ht (key nc n)"
  "\<exists>c. fst (find_nc nc ht n) = ht\<lparr>collisions := c\<rparr>"
proof -
  have eq: "find_nc nc ht n = find_at (\<lambda>m. key nc m = key nc n) (key_index ht (key nc n)) ht"
    by (auto simp: find_nc_def find_name_def find_name_nc_def key_def stricmp_eq_map hashcode_nc_lower
        key_index_def intro!: arg_cong [where f = "\<lambda>m. find_at m _ _"])
  show "snd (find_nc nc ht n) = ht_map nc ht (key nc n)"
    unfolding eq by (rule find_at_map) (simp_all add: eq_commute)
  show "\<exists>c. fst (find_nc nc ht n) = ht\<lparr>collisions := c\<rparr>"
    unfolding eq by (rule find_at_map(2) [of _ nc "key nc n"]) (simp_all add: eq_commute)
qed

lemma collisions_irrelevant:
  "ht_ok nc (ht\<lparr>collisions := c\<rparr>) = ht_ok nc ht" "ht_map nc (ht\<lparr>collisions := c\<rparr>) = ht_map nc ht"
  by (simp_all add: ht_ok_def ht_map_def key_index_def fun_eq_iff)

text \<open>The lookup of the first \<open>len\<close> characters of a longer text.\<close>

lemma find_namelen_take: "len \<le> length name \<Longrightarrow> find_namelen ht name len = find_name ht (take len name)"
  by (auto simp: find_namelen_def find_name_def hashcodelen_take strncmp_eq_take
      intro!: arg_cong [where f = "\<lambda>m. find_at m _ _"])

lemma find_namelen_nc_take:
  assumes "len \<le> length name"
  shows "find_namelen_nc ht name len = find_name_nc ht (take len name)"
proof -
  have "(map tolower_c (take len name) = map tolower_c (take len n) \<and> length n = len)
      \<longleftrightarrow> map tolower_c (take len name) = map tolower_c n" for n
    using assms by (metis length_map length_take min.absorb2 take_all order_refl)
  then show ?thesis
    by (simp add: find_namelen_nc_def find_name_nc_def hashcodelen_nc_take strnicmp_eq_take stricmp_eq_map)
qed

interpretation ht: name_table "key nc" "ht_ok nc" "ht_map nc"
  "\<lambda>t n d. add_hashentry debug t n d nc" "\<lambda>t n. rem_hashentry t n nc" "find_nc nc"
proof
  fix t :: "'a hashtable" and n
  obtain c where "fst (find_nc nc t n) = t\<lparr>collisions := c\<rparr>" using find_nc_map(2) by blast
  then show "ht_ok nc t \<Longrightarrow> ht_ok nc (fst (find_nc nc t n)) \<and> ht_map nc (fst (find_nc nc t n)) = ht_map nc t"
    by (simp add: collisions_irrelevant)
qed (simp_all add: add_hashentry_ok add_hashentry_map rem_hashentry_fails rem_hashentry_map find_nc_map(1))

section \<open>The table is a map\<close>

text \<open>
  C27. Adding an entry under a name that is not in the table makes exactly the names that the
  table does not distinguish from it (all spellings in upper and lower case, without regard to
  case) find the new data; every other lookup is unchanged, and the table stays well-formed.
\<close>

theorem hashtable_add_find:
  assumes "ht_ok nc ht" and "snd (find_nc nc ht n) = None"
  shows "ht_ok nc (add_hashentry debug ht n d nc)
    \<and> snd (find_nc nc (add_hashentry debug ht n d nc) m)
      = (if key nc m = key nc n then Some d else snd (find_nc nc ht m))"
  using assms ht.find_add_same [of nc ht n m debug d] ht.find_add_other [of nc ht n m debug d]
  by (simp add: ht.find_result ht.add_inv)

lemma hashtable_add_find_witness:
  "snd (find_name_nc (add_hashentry False (new_hashtable 3) ''Lda'' (7::nat) True) ''LDA'') = Some 7"
proof -
  have new: "ht_ok True (new_hashtable 3 :: nat hashtable)" "ht_map True (new_hashtable 3 :: nat hashtable) = Map.empty"
    using new_hashtable_ok [of 3 True] by auto
  then have "snd (find_nc True (new_hashtable 3 :: nat hashtable) ''Lda'') = None" by (simp add: find_nc_map)
  moreover have "key True ''LDA'' = key True ''Lda''" by code_simp
  ultimately show ?thesis
    using hashtable_add_find [OF new(1), of "''Lda''" False 7 "''LDA''"] by (simp add: find_nc_def)
qed

text \<open>
  C28. \<open>rem_hashentry\<close> is the internal error exactly when the name is not found; otherwise the
  name is gone, every other lookup is unchanged, and removing what was just added restores
  every lookup.
\<close>

theorem hashtable_rem_find:
  assumes "ht_ok nc ht"
  shows "(case rem_hashentry ht n nc of
       None \<Rightarrow> snd (find_nc nc ht n) = None
     | Some ht' \<Rightarrow> snd (find_nc nc ht n) \<noteq> None \<and> ht_ok nc ht'
         \<and> snd (find_nc nc ht' m) = (if key nc m = key nc n then None else snd (find_nc nc ht m)))
    \<and> (snd (find_nc nc ht n) = None \<longrightarrow>
        (\<exists>ht'. rem_hashentry (add_hashentry debug ht n d nc) n nc = Some ht' \<and> ht_ok nc ht'
          \<and> snd (find_nc nc ht' m) = snd (find_nc nc ht m)))"
proof -
  have "\<exists>ht'. rem_hashentry (add_hashentry debug ht n d nc) n nc = Some ht' \<and> ht_ok nc ht'
      \<and> snd (find_nc nc ht' m) = snd (find_nc nc ht m)" if "snd (find_nc nc ht n) = None"
    using ht.rem_add_restores [OF assms, of n debug d] that by (auto simp: find_nc_map)
  moreover have "rem_hashentry ht n nc = None \<longleftrightarrow> snd (find_nc nc ht n) = None"
    using rem_hashentry_fails [OF assms] by (simp add: find_nc_map)
  ultimately show ?thesis
    using rem_hashentry_map [OF assms, of n] by (auto simp: find_nc_map split: option.split)
qed

lemma hashtable_rem_find_witness:
  "\<exists>ht'. rem_hashentry (add_hashentry False (new_hashtable 3) ''x'' (1::nat) False) ''x'' False = Some ht'
     \<and> snd (find_nc False ht' ''y'') = None"
proof -
  have new: "ht_ok False (new_hashtable 3 :: nat hashtable)" "ht_map False (new_hashtable 3 :: nat hashtable) = Map.empty"
    using new_hashtable_ok [of 3 False] by auto
  have none: "snd (find_nc False (new_hashtable 3 :: nat hashtable) m) = None" for m
    using new by (simp add: find_nc_map)
  from hashtable_rem_find [OF new(1), of "''x''" "''y''" False 1] none show ?thesis by auto
qed

end
