(* ===== verification/Mnemotab.thy ===== *)
theory Mnemotab
  imports Symtab
begin

text \<open>
  The table of mnemonics that \<open>init_main\<close> of \<open>src/vasm.c\<close> builds: one entry for every run of
  equal names in the opcode table, with the index of the first one, always without regard to
  case. The facts about lookups come from the interface \<open>name_table\<close>.
\<close>

function mnemo_loop :: "bool \<Rightarrow> nat hashtable \<Rightarrow> nat \<Rightarrow> string list \<Rightarrow> nat hashtable" where
  "mnemo_loop debug ht i [] = ht"
| "mnemo_loop debug ht i (mname # ms) =
     (let k = length (takeWhile (\<lambda>m. mname = m) ms)
      in mnemo_loop debug (add_hashentry debug ht mname i True) (i + 1 + k) (drop k ms))"
  by pat_completeness auto
termination by (relation "measure (\<lambda>(debug, ht, i, ms). length ms)") auto

definition init_mnemohash :: "bool \<Rightarrow> nat \<Rightarrow> string list \<Rightarrow> nat hashtable" where
  "init_mnemohash debug sz ms = mnemo_loop debug (new_hashtable sz) 0 ms"

text \<open>The entries made: the name of each run with the index of its first mnemonic.\<close>

function runs :: "nat \<Rightarrow> string list \<Rightarrow> (string \<times> nat) list" where
  "runs i [] = []"
| "runs i (mname # ms) =
     (let k = length (takeWhile (\<lambda>m. mname = m) ms) in (mname, i) # runs (i + 1 + k) (drop k ms))"
  by pat_completeness auto
termination by (relation "measure (\<lambda>(i, ms). length ms)") auto

declare runs.simps(2) [simp del] mnemo_loop.simps(2) [simp del]

lemma mnemo_loop_add_all: "mnemo_loop debug ht i ms = ht.add_all debug True ht (runs i ms)"
  by (induction debug ht i ms rule: mnemo_loop.induct)
    (simp_all add: mnemo_loop.simps(2) runs.simps(2) ht.add_all_def Let_def)

lemma drop_takeWhile: "drop (length (takeWhile P xs)) xs = dropWhile P xs"
  by (induction xs) auto

lemma runs_sound:
  "(n, i) \<in> set (runs b ms) \<Longrightarrow> b \<le> i \<and> i < b + length ms \<and> ms ! (i - b) = n"
proof (induction b ms rule: runs.induct)
  case (2 b mname ms)
  let ?k = "length (takeWhile (\<lambda>m. mname = m) ms)"
  have k: "?k \<le> length ms" by (rule length_takeWhile_le)
  show ?case
  proof (cases "(n, i) = (mname, b)")
    case False
    then have "(n, i) \<in> set (runs (b + 1 + ?k) (drop ?k ms))"
      using 2(2) by (auto simp: runs.simps(2) Let_def)
    then have IH: "b + 1 + ?k \<le> i \<and> i < b + 1 + ?k + length (drop ?k ms) \<and> drop ?k ms ! (i - (b + 1 + ?k)) = n"
      using 2(1) by simp
    moreover have "drop ?k ms ! (i - (b + 1 + ?k)) = ms ! (?k + (i - (b + 1 + ?k)))"
      using k by (rule nth_drop)
    moreover have "?k + (i - (b + 1 + ?k)) = i - Suc b" using IH by simp
    ultimately have "b + 1 + ?k \<le> i" "i < b + 1 + length ms" "ms ! (i - Suc b) = n" using k by auto
    then show ?thesis by (simp add: nth_Cons')
  qed simp
qed simp

lemma runs_names: "fst ` set (runs b ms) = set ms"
proof (induction b ms rule: runs.induct)
  case (2 b mname ms)
  have "set ms \<subseteq> insert mname (set (dropWhile (\<lambda>m. mname = m) ms))"
    by (induction ms) auto
  then show ?case
    using 2 set_dropWhileD [of _ "\<lambda>m. mname = m" ms] by (auto simp: runs.simps(2) Let_def drop_takeWhile)
qed simp

text \<open>The indices grow along the runs, and a name that occurs belongs to the run that starts at or before it.\<close>

lemma runs_first:
  "j < length ms \<Longrightarrow> \<exists>i. (ms ! j, i) \<in> set (runs b ms) \<and> i \<le> b + j"
proof (induction b ms arbitrary: j rule: runs.induct)
  case (2 b mname ms)
  let ?k = "length (takeWhile (\<lambda>m. mname = m) ms)"
  have k: "?k \<le> length ms" by (rule length_takeWhile_le)
  show ?case
  proof (cases "j \<le> ?k")
    case True
    then have "(mname # ms) ! j = mname"
    proof (cases j)
      case (Suc l)
      then have l: "l < ?k" using True by simp
      then have "takeWhile (\<lambda>m. mname = m) ms ! l \<in> set (takeWhile (\<lambda>m. mname = m) ms)" by (rule nth_mem)
      then show ?thesis using takeWhile_nth [OF l] Suc by (auto dest: set_takeWhileD)
    qed simp
    then show ?thesis by (auto simp: runs.simps(2) Let_def)
  next
    case False
    then have "j - 1 - ?k < length (drop ?k ms)" using 2(2) k by simp
    from 2(1) [OF refl this] obtain i where
      "(drop ?k ms ! (j - 1 - ?k), i) \<in> set (runs (b + 1 + ?k) (drop ?k ms))" "i \<le> b + 1 + ?k + (j - 1 - ?k)"
      by blast
    moreover have "drop ?k ms ! (j - 1 - ?k) = (mname # ms) ! j" using k False by (simp add: nth_drop nth_Cons')
    ultimately show ?thesis using False by (auto simp: runs.simps(2) Let_def)
  qed
qed simp

text \<open>No mnemonic may come back, in any case, after another one.\<close>

definition grouped :: "string list \<Rightarrow> bool" where
  "grouped ms \<longleftrightarrow> distinct (map (key True \<circ> fst) (runs 0 ms))"

lemma init_mnemohash_map:
  assumes "0 < sz" and "grouped ms"
  shows "ht_ok True (init_mnemohash debug sz ms)
     \<and> ht_map True (init_mnemohash debug sz ms) = map_of (keyed True (runs 0 ms))"
proof -
  have new: "ht_ok True (new_hashtable sz :: nat hashtable)" "ht_map True (new_hashtable sz :: nat hashtable) = Map.empty"
    using new_hashtable_ok [OF assms(1)] by auto
  have "ht_ok True (ht.add_all debug True (new_hashtable sz :: nat hashtable) (runs 0 ms))
      \<and> ht_map True (ht.add_all debug True (new_hashtable sz) (runs 0 ms))
        = ht_map True (new_hashtable sz :: nat hashtable) ++ map_of (map (\<lambda>(n, d). (key True n, d)) (runs 0 ms))"
    using assms(2) new by (intro ht.add_all_look) (simp_all add: grouped_def comp_def)
  then show ?thesis
    unfolding init_mnemohash_def mnemo_loop_add_all new(2) keyed_def by simp
qed

lemma mnemo_lookup:
  assumes "0 < sz" and "grouped ms"
  shows "(case snd (find_name_nc (init_mnemohash debug sz ms) name) of
       None \<Rightarrow> (\<forall>m \<in> set ms. \<not> stricmp_eq name m)
     | Some i \<Rightarrow> i < length ms \<and> stricmp_eq name (ms ! i) \<and> (\<forall>j < i. \<not> stricmp_eq name (ms ! j)))"
proof -
  let ?R = "keyed True (runs 0 ms)"
  have look: "snd (find_name_nc (init_mnemohash debug sz ms) name) = map_of ?R (key True name)"
    using ht.find_result [of True "init_mnemohash debug sz ms" name] init_mnemohash_map [OF assms]
    by (simp add: find_nc_def)
  have dist: "distinct (map fst ?R)"
    using assms(2) by (simp add: grouped_def keyed_def comp_def case_prod_beta)
  have names: "fst ` set ?R = key True ` set ms"
    using runs_names [of 0 ms] by (auto simp: keyed_def image_iff) force+
  show ?thesis
  proof (cases "map_of ?R (key True name)")
    case None
    then have "key True name \<notin> key True ` set ms" using names by (simp add: map_of_eq_None_iff)
    then show ?thesis using None look by (auto simp: key_simps stricmp_eq_map)
  next
    case (Some i)
    then have "(key True name, i) \<in> set ?R" by (rule map_of_SomeD)
    then obtain n where n: "(n, i) \<in> set (runs 0 ms)" "key True n = key True name"
      by (auto simp: keyed_def)
    have before: "key True (ms ! j) \<noteq> key True name" if j: "j < i" for j
    proof
      assume eq: "key True (ms ! j) = key True name"
      have "j < length ms" using runs_sound [OF n(1)] j by simp
      then obtain i' where i': "(ms ! j, i') \<in> set (runs 0 ms)" "i' \<le> j" using runs_first [of j ms 0] by auto
      then have "(key True name, i') \<in> set ?R" using eq by (force simp: keyed_def)
      then have "map_of ?R (key True name) = Some i'" using dist by simp
      then show False using Some i'(2) j by simp
    qed
    have "\<forall>j < i. \<not> stricmp_eq name (ms ! j)"
      using before by (metis key_simps(2) stricmp_eq_map)
    moreover have "stricmp_eq name (ms ! i)" "i < length ms"
      using runs_sound [OF n(1)] n(2) by (auto simp: key_simps stricmp_eq_map)
    ultimately show ?thesis using Some look by simp
  qed
qed



end
