(* ===== verification/Cond.thy ===== *)
theory Cond
  imports Prelude
begin

text \<open>
  \<open>src/cond.c\<close>: conditional assembly. \<open>cond_state_rec\<close> is the state of the module: the level
  \<open>clev\<close>, for every level whether its block is assembled (1), not assembled yet (0) or done
  (-1), where it was opened, and the number of conditional blocks opened inside skipped text.
  \<open>cerrors\<close> collects the numbers of the reported (non-fatal) errors. The abstract
  specification is a stack with one frame for every open conditional.
\<close>

section \<open>State and operations\<close>

abbreviation MAXCONDLEV :: nat where "MAXCONDLEV \<equiv> 63"

record cond_state_rec =
  cond :: "int list"
  condsrc :: "(string \<times> int) list"
  clev :: nat
  ifnesting :: nat
  cerrors :: "nat list"

definition cond_init :: "cond_state_rec \<Rightarrow> cond_state_rec" where
  "cond_init s = s\<lparr>cond := (cond s)[0 := 1], clev := 0, ifnesting := 0\<rparr>"

definition cond_state :: "cond_state_rec \<Rightarrow> bool" where
  "cond_state s \<longleftrightarrow> 0 < cond s ! clev s"

definition general_error_c :: "nat \<Rightarrow> cond_state_rec \<Rightarrow> cond_state_rec" where
  "general_error_c n s = s\<lparr>cerrors := cerrors s @ [n]\<rparr>"

text \<open>The error names the source and the line of the innermost open block.\<close>

definition cond_check :: "cond_state_rec \<Rightarrow> cond_state_rec \<times> (string \<times> int) option" where
  "cond_check s = (if 0 < clev s then (general_error_c 66 s, Some (condsrc s ! clev s)) else (s, None))"

definition cond_if :: "string \<times> int \<Rightarrow> bool \<Rightarrow> cond_state_rec \<Rightarrow> stop + cond_state_rec" where
  "cond_if cur_src flag s =
     (let lev = clev s + 1
      in if MAXCONDLEV \<le> lev then Inl (Fatal_error 65)
         else Inr (s\<lparr>clev := lev, cond := (cond s)[lev := (if flag then 1 else 0)],
                     condsrc := (condsrc s)[lev := cur_src]\<rparr>))"

definition cond_skipif :: "cond_state_rec \<Rightarrow> cond_state_rec" where
  "cond_skipif s = s\<lparr>ifnesting := ifnesting s + 1\<rparr>"

definition set_cond :: "int \<Rightarrow> cond_state_rec \<Rightarrow> cond_state_rec" where
  "set_cond v s = s\<lparr>cond := (cond s)[clev s := v]\<rparr>"

definition cond_else :: "cond_state_rec \<Rightarrow> cond_state_rec" where
  "cond_else s = (if ifnesting s = 0 then set_cond (if cond s ! clev s \<noteq> 0 then - 1 else 1) s else s)"

definition cond_skipelse :: "cond_state_rec \<Rightarrow> cond_state_rec" where
  "cond_skipelse s = (if 0 < clev s then set_cond (- 1) s else general_error_c 63 s)"

definition cond_elseif :: "bool \<Rightarrow> cond_state_rec \<Rightarrow> cond_state_rec" where
  "cond_elseif flag s =
     (if 0 < clev s then
        (if cond s ! clev s = 0 then set_cond (if flag then 1 else 0) s else set_cond (- 1) s)
      else general_error_c 63 s)"

definition cond_endif :: "cond_state_rec \<Rightarrow> cond_state_rec" where
  "cond_endif s =
     (if ifnesting s = 0 then
        (if 0 < clev s then s\<lparr>clev := clev s - 1\<rparr> else general_error_c 64 s)
      else s\<lparr>ifnesting := ifnesting s - 1\<rparr>)"

text \<open>\<open>end_source\<close> of \<open>src/source.c\<close> restores the level at which the source was entered.\<close>

definition end_source_level :: "nat \<Rightarrow> cond_state_rec \<Rightarrow> cond_state_rec" where
  "end_source_level cond_level s = s\<lparr>clev := cond_level\<rparr>"

section \<open>The parser's use of it\<close>

text \<open>
  One source line, as the parsers (\<open>src/syntax/std/syntax.c\<close>, \<open>src/syntax/oldstyle/syntax.c\<close>)
  dispatch it: while a block is skipped only conditional directives are looked at. The result
  says whether the line was assembled.
\<close>

datatype cond_line = If "string \<times> int" bool | Else | Elseif bool | Endif | Plain

definition parse_line :: "cond_line \<Rightarrow> cond_state_rec \<Rightarrow> stop + cond_state_rec \<times> bool" where
  "parse_line d s =
     (if \<not> cond_state s then
        Inr (case d of
               If _ _ \<Rightarrow> cond_skipif s
             | Else \<Rightarrow> cond_else s
             | Endif \<Rightarrow> cond_endif s
             | Elseif b \<Rightarrow> cond_elseif b s
             | Plain \<Rightarrow> s, False)
      else (case d of
               If src b \<Rightarrow> bind_stop (cond_if src b s) (\<lambda>s. Inr (s, False))
             | Else \<Rightarrow> Inr (cond_skipelse s, False)
             | Elseif b \<Rightarrow> Inr (cond_skipelse s, False)
             | Endif \<Rightarrow> Inr (cond_endif s, False)
             | Plain \<Rightarrow> Inr (s, True)))"

fun parse_lines :: "cond_line list \<Rightarrow> cond_state_rec \<Rightarrow> stop + cond_state_rec \<times> bool list" where
  "parse_lines [] s = Inr (s, [])"
| "parse_lines (d # ds) s =
     bind_stop (parse_line d s) (\<lambda>(s, b). bind_stop (parse_lines ds s) (\<lambda>(s, bs). Inr (s, b # bs)))"

section \<open>Specification\<close>

text \<open>
  One frame per open conditional, innermost first: its text is assembled, it waits for a branch
  that is, an earlier branch was, or it lies in skipped text as a whole.
\<close>

datatype frame = Active | Waiting | Finished | Dead

definition assembling :: "frame list \<Rightarrow> bool" where
  "assembling fs \<longleftrightarrow> list_all (\<lambda>f. f = Active) fs"

fun next_branch :: "bool \<Rightarrow> frame \<Rightarrow> frame" where
  "next_branch b Active = Finished"
| "next_branch b Waiting = (if b then Active else Waiting)"
| "next_branch b Finished = Finished"
| "next_branch b Dead = Dead"

fun spec_line :: "cond_line \<Rightarrow> frame list \<Rightarrow> frame list \<times> bool" where
  "spec_line (If src b) fs = ((if assembling fs then (if b then Active else Waiting) else Dead) # fs, False)"
| "spec_line Else (f # fs) = (next_branch True f # fs, False)"
| "spec_line (Elseif b) (f # fs) = (next_branch b f # fs, False)"
| "spec_line Endif (f # fs) = (fs, False)"
| "spec_line Plain fs = (fs, assembling fs)"
| "spec_line _ [] = ([], False)"

fun spec_lines :: "cond_line list \<Rightarrow> frame list \<Rightarrow> frame list \<times> bool list" where
  "spec_lines [] fs = (fs, [])"
| "spec_lines (d # ds) fs = (let (fs, b) = spec_line d fs; (fs, bs) = spec_lines ds fs in (fs, b # bs))"

definition frame_of :: "int \<Rightarrow> frame" where
  "frame_of c = (if 0 < c then Active else if c = 0 then Waiting else Finished)"

fun level_frames :: "int list \<Rightarrow> nat \<Rightarrow> frame list" where
  "level_frames c 0 = []"
| "level_frames c (Suc n) = frame_of (c ! Suc n) # level_frames c n"

definition frames :: "cond_state_rec \<Rightarrow> frame list" where
  "frames s = replicate (ifnesting s) Dead @ level_frames (cond s) (clev s)"

text \<open>Every enclosing level is assembled, and blocks are counted only inside skipped text.\<close>

definition cond_inv :: "cond_state_rec \<Rightarrow> bool" where
  "cond_inv s \<longleftrightarrow> length (cond s) = MAXCONDLEV + 1 \<and> length (condsrc s) = MAXCONDLEV + 1
     \<and> clev s < MAXCONDLEV
     \<and> (\<forall>i < clev s. cond s ! i = 1) \<and> (clev s = 0 \<longrightarrow> cond s ! 0 = 1)
     \<and> cond s ! clev s \<in> {- 1, 0, 1}
     \<and> (0 < ifnesting s \<longrightarrow> cond s ! clev s \<noteq> 1)"

text \<open>An \<open>elseif\<close> is met while a whole conditional is skipped.\<close>

definition nested_elseif :: "cond_line \<Rightarrow> cond_state_rec \<Rightarrow> bool" where
  "nested_elseif d s \<longleftrightarrow> (case d of Elseif b \<Rightarrow> 0 < ifnesting s | _ \<Rightarrow> False)"

lemma level_frames_cong: "(\<And>i. i \<le> n \<Longrightarrow> c ! i = c' ! i) \<Longrightarrow> level_frames c n = level_frames c' n"
  by (induction n) auto

lemma level_frames_update [simp]: "n < k \<Longrightarrow> level_frames (c[k := v]) n = level_frames c n"
  by (rule level_frames_cong) simp

lemma level_frames_active: "\<forall>i \<le> n. c ! i = 1 \<Longrightarrow> level_frames c n = replicate n Active"
  by (induction n) (auto simp: frame_of_def)

lemma cond_inv_init:
  "length (cond s) = 64 \<Longrightarrow> length (condsrc s) = 64 \<Longrightarrow> cond_inv (cond_init s) \<and> frames (cond_init s) = []"
  by (simp add: cond_inv_def cond_init_def frames_def)

lemma frames_assembling:
  assumes "cond_inv s"
  shows "assembling (frames s) \<longleftrightarrow> cond_state s"
proof (cases "clev s")
  case 0
  then show ?thesis using assms by (auto simp: frames_def assembling_def cond_state_def cond_inv_def)
next
  case (Suc n)
  have "level_frames (cond s) n = replicate n Active"
    using assms Suc by (intro level_frames_active) (auto simp: cond_inv_def)
  then show ?thesis
    using assms Suc
    by (auto simp: frames_def assembling_def cond_state_def cond_inv_def frame_of_def list_all_iff)
qed

lemma frames_top:
  "cond_inv s \<Longrightarrow> \<not> cond_state s \<Longrightarrow> \<exists>n. clev s = Suc n"
  by (cases "clev s") (auto simp: cond_inv_def cond_state_def)

lemma active_not_nested: "cond_inv s \<Longrightarrow> cond_state s \<Longrightarrow> ifnesting s = 0"
  by (auto simp: cond_inv_def cond_state_def)

lemma parse_line_inv:
  assumes "cond_inv s" and "parse_line d s = Inr (s', b)"
  shows "cond_inv s' \<or> nested_elseif d s"
proof (cases "cond_state s")
  case True
  then show ?thesis using assms active_not_nested [OF assms(1) True]
    by (cases d)
      (auto simp: parse_line_def cond_inv_def cond_if_def Let_def cond_skipelse_def cond_endif_def set_cond_def
         general_error_c_def nth_list_update cond_state_def less_Suc_eq split: if_splits)
next
  case False
  then obtain n where "clev s = Suc n" using assms(1) frames_top by blast
  then show ?thesis using assms False
    by (cases d)
      (auto simp: parse_line_def cond_inv_def cond_skipif_def cond_else_def cond_elseif_def cond_endif_def set_cond_def
         nested_elseif_def nth_list_update cond_state_def split: if_splits)
qed

lemma level_frames_not_Dead: "Dead \<notin> set (level_frames c n)"
  by (induction n) (auto simp: frame_of_def)

lemma nested_elseif_frames:
  "nested_elseif d s \<longleftrightarrow> (\<exists>b. d = Elseif b) \<and> frames s \<noteq> [] \<and> hd (frames s) = Dead"
proof (cases "ifnesting s")
  case 0
  have "level_frames (cond s) (clev s) \<noteq> [] \<Longrightarrow> hd (level_frames (cond s) (clev s)) \<noteq> Dead"
    using level_frames_not_Dead hd_in_set by metis
  with 0 show ?thesis by (auto simp: nested_elseif_def frames_def split: cond_line.splits)
qed (auto simp: nested_elseif_def frames_def split: cond_line.splits)

definition spec_errors :: "cond_line \<Rightarrow> frame list \<Rightarrow> nat list" where
  "spec_errors d fs = (if fs \<noteq> [] then [] else case d of Else \<Rightarrow> [63] | Elseif b \<Rightarrow> [63] | Endif \<Rightarrow> [64] | _ \<Rightarrow> [])"

lemma parse_line_active:
  assumes inv: "cond_inv s" and act: "cond_state s" and eq: "parse_line d s = Inr (s', b)"
  shows "spec_line d (frames s) = (frames s', b) \<and> cerrors s' = cerrors s @ spec_errors d (frames s)"
proof -
  have nest: "ifnesting s = 0" using inv act by (rule active_not_nested)
  have fa: "assembling (frames s)" using act frames_assembling [OF inv] by simp
  show ?thesis
  proof (cases "clev s")
    case 0
    then have fs: "frames s = []" using nest by (simp add: frames_def)
    show ?thesis
      using eq act nest inv 0 unfolding fs
      by (cases d) (auto simp: parse_line_def cond_if_def Let_def cond_skipelse_def cond_endif_def general_error_c_def
         frames_def spec_errors_def assembling_def frame_of_def cond_inv_def split: if_splits)
  next
    case (Suc n)
    have c: "cond s ! Suc n = 1" "length (cond s) = 64" "n < 62"
      using inv act Suc by (auto simp: cond_inv_def cond_state_def)
    have fs: "frames s = Active # level_frames (cond s) n"
      using nest Suc c by (simp add: frames_def frame_of_def)
    show ?thesis
      using eq act nest fa c Suc unfolding fs
      by (cases d) (auto simp: parse_line_def cond_if_def Let_def cond_skipelse_def cond_endif_def set_cond_def
         frames_def spec_errors_def frame_of_def split: if_splits)
  qed
qed

lemma parse_line_skipped:
  assumes inv: "cond_inv s" and skip: "\<not> cond_state s" and ok: "\<not> nested_elseif d s"
    and eq: "parse_line d s = Inr (s', b)"
  shows "spec_line d (frames s) = (frames s', b) \<and> cerrors s' = cerrors s @ spec_errors d (frames s)"
proof -
  obtain n where n: "clev s = Suc n" using inv skip frames_top by blast
  have na: "\<not> assembling (frames s)" using skip frames_assembling [OF inv] by simp
  have len: "length (cond s) = 64" "n < 62" using inv n by (auto simp: cond_inv_def)
  have fs: "frames s = replicate (ifnesting s) Dead @ frame_of (cond s ! Suc n) # level_frames (cond s) n"
    by (simp add: frames_def n)
  show ?thesis
  proof (cases "ifnesting s")
    case 0
    then show ?thesis
      using eq skip na n len inv unfolding fs
      by (cases d) (auto simp: parse_line_def cond_skipif_def cond_else_def cond_elseif_def cond_endif_def set_cond_def
         frames_def spec_errors_def frame_of_def cond_inv_def cond_state_def split: if_splits)
  next
    case (Suc k)
    then show ?thesis
      using eq skip na n len ok unfolding fs
      by (cases d) (auto simp: parse_line_def cond_skipif_def cond_else_def cond_endif_def nested_elseif_def
         frames_def spec_errors_def cond_state_def split: if_splits)
  qed
qed

lemma parse_line_frames:
  assumes "cond_inv s" and "\<not> nested_elseif d s" and "parse_line d s = Inr (s', b)"
  shows "cond_inv s'" and "spec_line d (frames s) = (frames s', b)"
    and "cerrors s' = cerrors s @ spec_errors d (frames s)"
  using assms parse_line_active [of s d s' b] parse_line_skipped [of s d s' b] parse_line_inv [of s d s' b]
  by blast+

text \<open>The lines of a source in which no \<open>elseif\<close> belongs to a conditional that is skipped as a whole.\<close>

fun no_nested_elseif :: "cond_line list \<Rightarrow> frame list \<Rightarrow> bool" where
  "no_nested_elseif [] fs = True"
| "no_nested_elseif (d # ds) fs =
     (\<not> ((case d of Elseif b \<Rightarrow> True | _ \<Rightarrow> False) \<and> fs \<noteq> [] \<and> hd fs = Dead)
      \<and> no_nested_elseif ds (fst (spec_line d fs)))"

fun all_errors :: "cond_line list \<Rightarrow> frame list \<Rightarrow> nat list" where
  "all_errors [] fs = []"
| "all_errors (d # ds) fs = spec_errors d fs @ all_errors ds (fst (spec_line d fs))"

lemma parse_lines_frames:
  assumes "cond_inv s" and "no_nested_elseif ds (frames s)" and "parse_lines ds s = Inr (s', bs)"
  shows "cond_inv s' \<and> spec_lines ds (frames s) = (frames s', bs)
    \<and> cerrors s' = cerrors s @ all_errors ds (frames s)"
  using assms
proof (induction ds arbitrary: s bs)
  case (Cons d ds)
  obtain s1 b bs1 where 1: "parse_line d s = Inr (s1, b)" "parse_lines ds s1 = Inr (s', bs1)" "bs = b # bs1"
    using Cons.prems(3) by (auto split: sum.splits prod.splits)
  have nn: "\<not> nested_elseif d s"
    using Cons.prems(2) by (auto simp: nested_elseif_frames split: cond_line.splits)
  note step = parse_line_frames [OF Cons.prems(1) nn 1(1)]
  have "no_nested_elseif ds (frames s1)" using Cons.prems(2) step(2) by simp
  from Cons.IH [OF step(1) this 1(2)] step(2,3) 1(3) show ?case by simp
qed simp

text \<open>The only way to end early is to open a block at the deepest level.\<close>

lemma parse_lines_stop:
  "cond_inv s \<Longrightarrow> no_nested_elseif ds (frames s) \<Longrightarrow> parse_lines ds s = Inl e \<Longrightarrow> e = Fatal_error 65"
proof (induction ds arbitrary: s)
  case (Cons d ds)
  show ?case
  proof (cases "parse_line d s")
    case (Inl e')
    then show ?thesis using Cons.prems(3)
      by (auto simp: parse_line_def cond_if_def Let_def split: if_splits cond_line.splits sum.splits)
  next
    case (Inr r)
    obtain s1 b where r: "r = (s1, b)" by fastforce
    have nn: "\<not> nested_elseif d s"
      using Cons.prems(2) by (auto simp: nested_elseif_frames split: cond_line.splits)
    note step = parse_line_frames [OF Cons.prems(1) nn Inr [unfolded r]]
    have "parse_lines ds s1 = Inl e" using Cons.prems(3) Inr r by (auto split: sum.splits)
    then show ?thesis using Cons.IH [OF step(1)] Cons.prems(2) step(2) by simp
  qed
qed simp

fun opens :: "cond_line \<Rightarrow> bool" where
  "opens (If src b) = True"
| "opens _ = False"

lemma parse_line_deep:
  "parse_line d s = Inr (s', b) \<Longrightarrow> clev s' \<le> clev s + (if opens d then 1 else 0)"
  "parse_line d s = Inl e \<Longrightarrow> MAXCONDLEV \<le> clev s + 1 \<and> opens d"
  by (cases d; auto simp: parse_line_def cond_if_def Let_def cond_skipif_def cond_else_def cond_skipelse_def
      cond_elseif_def cond_endif_def set_cond_def general_error_c_def split: if_splits)+

lemma parse_lines_deep:
  "parse_lines ds s = Inl e \<Longrightarrow> MAXCONDLEV \<le> clev s + length (filter opens ds)"
proof (induction ds arbitrary: s)
  case (Cons d ds)
  show ?case
  proof (cases "parse_line d s")
    case (Inl e')
    then show ?thesis using parse_line_deep(2) by force
  next
    case (Inr r)
    obtain s1 b where r: "r = (s1, b)" by fastforce
    have "parse_lines ds s1 = Inl e" using Cons.prems Inr r by (auto split: sum.splits)
    then show ?thesis using Cons.IH [of s1] parse_line_deep(1) [OF Inr [unfolded r]] by (auto split: if_splits)
  qed
qed simp

section \<open>Properties\<close>


definition cond_start :: cond_state_rec where
  "cond_start = cond_init \<lparr>cond = replicate 64 0, condsrc = replicate 64 ([], 0), clev = 5, ifnesting = 2, cerrors = []\<rparr>"

lemma cond_start_ok: "cond_inv cond_start" "frames cond_start = []" "cerrors cond_start = []"
  using cond_inv_init [of "\<lparr>cond = replicate 64 0, condsrc = replicate 64 ([], 0), clev = 5, ifnesting = 2, cerrors = []\<rparr>"]
  by (simp_all add: cond_start_def cond_init_def)




text \<open>
  An \<open>elseif\<close> of a conditional that lies in skipped text is taken for one of the enclosing
  conditional: with a true condition the lines after it are assembled, although the conditional
  they belong to is skipped as a whole.
\<close>

theorem nested_elseif_assembled:
  "\<exists>s'. parse_lines [If ([], 1) False, If ([], 2) True, Elseif True, Plain] cond_start = Inr (s', [False, False, False, True])
     \<and> snd (spec_lines [If ([], 1) False, If ([], 2) True, Elseif True, Plain] []) = [False, False, False, False]"
  by (simp add: parse_line_def cond_state_def cond_if_def cond_skipif_def cond_elseif_def set_cond_def
      cond_start_def cond_init_def Let_def numeral_eq_Suc assembling_def)

end
