(* ===== verification/Hugeint.thy ===== *)
theory Hugeint
  imports Prelude
begin

text \<open>
  The 128-bit integers of \<open>src/hugeint.c\<close>: a pair of unsigned 64-bit halves with the
  operations the expression evaluator applies to constants that do not fit the target
  address type. \<open>hval\<close> reads a pair as one 128-bit word; the lemmas say for every operation
  which 128-bit result it computes, and where it is not the mathematical one.
\<close>

section \<open>Representation\<close>

record thuge =
  hi :: u64
  lo :: u64

definition hval :: "thuge \<Rightarrow> 128 word" where
  "hval h = word_cat (hi h) (lo h)"

definition HUGESIGN :: "thuge \<Rightarrow> bool" where
  "HUGESIGN h = (hi h AND 0x8000000000000000 \<noteq> 0)"

definition HIHALF :: "u64 \<Rightarrow> u64" where
  "HIHALF x = drop_bit 32 x"

definition LOHALF :: "u64 \<Rightarrow> u64" where
  "LOHALF x = x AND 0xFFFFFFFF"

definition BASE :: u64 where
  "BASE = 0x100000000"

definition COMBINE :: "u64 \<Rightarrow> u64 \<Rightarrow> u64" where
  "COMBINE a b = push_bit 32 a OR b"

section \<open>Conversions and bitwise operations\<close>

definition huge_zero :: thuge where
  "huge_zero = \<lparr>hi = 0, lo = 0\<rparr>"

text \<open>\<open>int64_t\<close> arguments are words read with \<open>sint\<close>.\<close>

definition huge_from_int :: "u64 \<Rightarrow> thuge" where
  "huge_from_int i = \<lparr>hi = (if sint i < 0 then - 1 else 0), lo = i\<rparr>"

definition huge_to_int :: "thuge \<Rightarrow> u64" where
  "huge_to_int h = lo h"

definition hneg :: "thuge \<Rightarrow> thuge" where
  "hneg a = \<lparr>hi = (if lo a \<noteq> 0 then (- hi a) - 1 else - hi a), lo = - lo a\<rparr>"

definition hcpl :: "thuge \<Rightarrow> thuge" where
  "hcpl a = \<lparr>hi = NOT (hi a), lo = NOT (lo a)\<rparr>"

definition hnot :: "thuge \<Rightarrow> thuge" where
  "hnot a = \<lparr>hi = 0, lo = (if hi a = 0 \<and> lo a = 0 then 1 else 0)\<rparr>"

definition hand :: "thuge \<Rightarrow> thuge \<Rightarrow> thuge" where
  "hand a b = \<lparr>hi = hi a AND hi b, lo = lo a AND lo b\<rparr>"

definition hor :: "thuge \<Rightarrow> thuge \<Rightarrow> thuge" where
  "hor a b = \<lparr>hi = hi a OR hi b, lo = lo a OR lo b\<rparr>"

definition hxor :: "thuge \<Rightarrow> thuge \<Rightarrow> thuge" where
  "hxor a b = \<lparr>hi = hi a XOR hi b, lo = lo a XOR lo b\<rparr>"

section \<open>Addition, subtraction, comparison\<close>

definition haddi :: "thuge \<Rightarrow> u64 \<Rightarrow> thuge" where
  "haddi a b =
     (let l = lo a + b
      in \<lparr>hi = (if sint b < 0 then (if lo a < l then hi a - 1 else hi a)
                else (if l < lo a then hi a + 1 else hi a)),
          lo = l\<rparr>)"

definition hadd :: "thuge \<Rightarrow> thuge \<Rightarrow> thuge" where
  "hadd a b =
     (let l = lo a + lo b
      in \<lparr>hi = (if HUGESIGN b then (if lo a < l then hi a + hi b - 1 else hi a + hi b)
                else (if l < lo a then hi a + hi b + 1 else hi a + hi b)),
          lo = l\<rparr>)"

definition hsub :: "thuge \<Rightarrow> thuge \<Rightarrow> thuge" where
  "hsub a b =
     (let l = lo a - lo b
      in \<lparr>hi = (if HUGESIGN b then (if l < lo a then hi a - hi b + 1 else hi a - hi b)
                else (if lo a < l then hi a - hi b - 1 else hi a - hi b)),
          lo = l\<rparr>)"

definition hcmp :: "thuge \<Rightarrow> thuge \<Rightarrow> int" where
  "hcmp a b =
     (let c = hsub a b
      in if hi c = 0 \<and> lo c = 0 then 0 else if HUGESIGN c then - 1 else 1)"

section \<open>Shifts\<close>

definition hshra :: "thuge \<Rightarrow> int \<Rightarrow> thuge option" where
  "hshra a b =
     (if 64 \<le> b then do {
        l \<leftarrow> c_sar (hi a) (b - 64);
        Some \<lparr>hi = (if HUGESIGN a then - 1 else 0), lo = l\<rparr> }
      else if b = 0 then Some \<lparr>hi = hi a, lo = lo a\<rparr>
      else do {
        h \<leftarrow> c_sar (hi a) b;
        x \<leftarrow> c_shl (hi a) (64 - b);
        y \<leftarrow> c_shr (lo a) b;
        Some \<lparr>hi = h, lo = x OR y\<rparr> })"

definition hshr :: "thuge \<Rightarrow> int \<Rightarrow> thuge option" where
  "hshr a b =
     (if 64 \<le> b then do {
        l \<leftarrow> c_shr (hi a) (b - 64);
        Some \<lparr>hi = 0, lo = l\<rparr> }
      else if b = 0 then Some \<lparr>hi = hi a, lo = lo a\<rparr>
      else do {
        h \<leftarrow> c_shr (hi a) b;
        x \<leftarrow> c_shl (hi a) (64 - b);
        y \<leftarrow> c_shr (lo a) b;
        Some \<lparr>hi = h, lo = x OR y\<rparr> })"

definition hshl :: "thuge \<Rightarrow> int \<Rightarrow> thuge option" where
  "hshl a b =
     (if 64 \<le> b then do {
        h \<leftarrow> c_shl (lo a) (b - 64);
        Some \<lparr>hi = h, lo = 0\<rparr> }
      else if b = 0 then Some \<lparr>hi = hi a, lo = lo a\<rparr>
      else do {
        x \<leftarrow> c_shr (lo a) (64 - b);
        y \<leftarrow> c_shl (hi a) b;
        l \<leftarrow> c_shl (lo a) b;
        Some \<lparr>hi = x OR y, lo = l\<rparr> })"

section \<open>Multiplication\<close>

text \<open>
  Both multiplications add the high half of the middle partial products to the high word
  and then test for a carry out of the low word; the test is written over the product of
  the two high halves, as the code has it.
\<close>

definition hmuli :: "thuge \<Rightarrow> u64 \<Rightarrow> thuge" where
  "hmuli a b =
     (let ub = b;
          l = lo a * ub;
          h = hi a * ub;
          tmp = HIHALF (lo a) * LOHALF ub;
          carry = tmp + LOHALF (lo a) * HIHALF ub;
          h = (if carry < tmp then h + BASE else h);
          h = h + HIHALF carry;
          tmp = HIHALF (lo a) * HIHALF ub;
          h = h + tmp;
          h = (if tmp + push_bit 32 carry < tmp then h + 1 else h)
      in \<lparr>hi = h, lo = l\<rparr>)"

definition hmul :: "thuge \<Rightarrow> thuge \<Rightarrow> thuge" where
  "hmul a b =
     (let l = lo a * lo b;
          h = hi a * lo b + hi b * lo a;
          tmp = HIHALF (lo a) * LOHALF (lo b);
          carry = tmp + LOHALF (lo a) * HIHALF (lo b);
          h = (if carry < tmp then h + BASE else h);
          h = h + HIHALF carry;
          tmp = HIHALF (lo a) * HIHALF (lo b);
          h = h + tmp;
          h = (if tmp + push_bit 32 carry < tmp then h + 1 else h)
      in \<lparr>hi = h, lo = l\<rparr>)"

section \<open>What the operations compute, as 128-bit words\<close>

lemma uint_hval: "uint (hval h) = uint (hi h) * 2 ^ 64 + uint (lo h)"
  unfolding hval_def by (subst uint_word_cat) simp_all

lemma uint64_less: "uint (x :: u64) < 18446744073709551616"
  using uint_lt2p [of x] by simp

lemma uint128_less: "uint (x :: 128 word) < 340282366920938463463374607431768211456"
  using uint_lt2p [of x] by simp

lemma hval_inject: "hval a = hval b \<longleftrightarrow> a = b"
proof
  assume "hval a = hval b"
  then have "uint (hval a) = uint (hval b)" by simp
  then have "uint (hi a) * 18446744073709551616 + uint (lo a)
      = uint (hi b) * 18446744073709551616 + uint (lo b)"
    by (simp only: uint_hval) simp
  then have "uint (hi a) = uint (hi b) \<and> uint (lo a) = uint (lo b)"
    using uint64_less [of "lo a"] uint64_less [of "lo b"] by (smt (verit) uint_ge_0)
  then show "a = b" by (simp add: word_uint_eq_iff)
qed simp

lemma hval_huge_zero [simp]: "hval huge_zero = 0"
  by (simp add: word_uint_eq_iff uint_hval huge_zero_def)

lemma hval_eq_0: "hval h = 0 \<longleftrightarrow> hi h = 0 \<and> lo h = 0"
proof -
  have "hval h = 0 \<longleftrightarrow> h = huge_zero"
    using hval_inject [of h huge_zero] by simp
  then show ?thesis by (cases h) (simp add: huge_zero_def)
qed

lemma HUGESIGN_bit: "HUGESIGN h \<longleftrightarrow> bit (hi h) 63"
proof -
  have "(0x8000000000000000 :: u64) = 2 ^ 63" by simp
  then show ?thesis
    by (simp only: HUGESIGN_def and_exp_eq_0_iff_not_bit not_not)
qed

lemma HUGESIGN_uint: "HUGESIGN h \<longleftrightarrow> 9223372036854775808 \<le> uint (hi h)"
  using msb_uint [of "hi h"] by (simp add: HUGESIGN_bit)

lemma HUGESIGN_sint: "HUGESIGN h \<longleftrightarrow> sint (hval h) < 0"
proof -
  have "sint (hval h) < 0 \<longleftrightarrow> 2 ^ 127 \<le> uint (hi h) * 2 ^ 64 + uint (lo h)"
    using msb_uint [of "hval h"] bit_last_iff [of "hval h"] by (simp add: uint_hval)
  also have "\<dots> \<longleftrightarrow> 2 ^ 63 \<le> uint (hi h)"
  proof
    assume "2 ^ 127 \<le> uint (hi h) * 2 ^ 64 + uint (lo h)"
    then show "2 ^ 63 \<le> uint (hi h)"
      using uint64_less [of "lo h"] by simp
  next
    assume "2 ^ 63 \<le> uint (hi h)"
    then have "2 ^ 127 \<le> uint (hi h) * 2 ^ 64" by simp
    also have "\<dots> \<le> uint (hi h) * 2 ^ 64 + uint (lo h)" by simp
    finally show "2 ^ 127 \<le> uint (hi h) * 2 ^ 64 + uint (lo h)" .
  qed
  finally show ?thesis by (simp add: HUGESIGN_uint)
qed

text \<open>
  The high half matters modulo \<open>2 ^ 64\<close> only, so an operation that computes it as an
  integer sum can be read off as a sum of 128-bit words.
\<close>

lemma mod_double_width:
  assumes "0 \<le> L" and "L < (K :: int)"
  shows "(H mod K) * K + L = (H * K + L) mod (K * K)"
proof -
  have K: "0 < K" using assms by simp
  have "(H mod K) * K + L < K * K"
  proof -
    have "(H mod K + 1) * K \<le> K * K"
      using K pos_mod_bound [of K H] by (intro mult_right_mono) linarith+
    with assms show ?thesis by (simp add: algebra_simps)
  qed
  moreover have "0 \<le> (H mod K) * K + L" using K assms by simp
  moreover have "H * K + L = (H mod K) * K + L + (H div K) * (K * K)"
    by (simp add: algebra_simps flip: minus_mod_eq_mult_div)
  ultimately show ?thesis by (metis mod_mult_self1 mod_pos_pos_trivial)
qed

lemma hvalI:
  assumes "hi x = word_of_int H" and "uint (lo x) = L"
  shows "hval x = word_of_int (H * 2 ^ 64 + L)"
proof -
  have "uint (hval x) = (H mod 2 ^ 64) * 2 ^ 64 + L"
    unfolding uint_hval assms uint_word_of_int by simp
  also have "\<dots> = (H * 2 ^ 64 + L) mod (2 ^ 64 * 2 ^ 64)"
    using assms(2) uint64_less [of "lo x"] uint_ge_0 [of "lo x"] by (intro mod_double_width) auto
  finally show ?thesis unfolding word_uint_eq_iff uint_word_of_int by simp
qed

lemma hval_word: "hval x = word_of_int (uint (hi x) * 2 ^ 64 + uint (lo x))"
  by (rule hvalI) simp_all

lemma word_of_int_hi:
  "word_of_int (uint a + uint b + c) = a + b + (word_of_int c :: u64)"
  "word_of_int (uint a - uint b + c) = a - b + (word_of_int c :: u64)"
  "word_of_int (uint a + c) = a + (word_of_int c :: u64)"
  "word_of_int (c - uint a) = (word_of_int c :: u64) - a"
  by (simp_all flip: wi_hom_syms)

lemma hval_hneg: "hval (hneg a) = - hval a"
proof (cases "lo a = 0")
  case True
  then have "hval (hneg a) = word_of_int ((0 - uint (hi a)) * 2 ^ 64 + 0)"
    by (intro hvalI) (simp_all add: hneg_def word_of_int_hi)
  also have "\<dots> = word_of_int (- (uint (hi a) * 2 ^ 64 + uint (lo a)))"
    using True by simp
  finally show ?thesis unfolding hval_word [of a] wi_hom_neg .
next
  case False
  then have "hval (hneg a) = word_of_int ((-1 - uint (hi a)) * 2 ^ 64 + (2 ^ 64 - uint (lo a)))"
    by (intro hvalI) (simp_all add: hneg_def word_of_int_hi uint_neg_if)
  also have "(-1 - uint (hi a)) * 2 ^ 64 + (2 ^ 64 - uint (lo a)) = - (uint (hi a) * 2 ^ 64 + uint (lo a))"
    by simp
  finally show ?thesis unfolding hval_word [of a] wi_hom_neg .
qed

lemma hval_huge_from_int: "hval (huge_from_int i) = scast i"
proof -
  have "hval (huge_from_int i) = word_of_int ((if sint i < 0 then -1 else 0) * 2 ^ 64 + uint i)"
    by (rule hvalI) (simp_all add: huge_from_int_def)
  also have "(if sint i < 0 then -1 else 0) * 2 ^ 64 + uint i = sint i"
    using bit_last_iff [of i] sint_uint_if [of i] by auto
  finally show ?thesis by simp
qed

lemma hval_add_gen:
  assumes "hi x = hi a + hi b + word_of_int c" and "lo x = lo a + lo b"
  shows "hval x = hval a + hval b + word_of_int ((c - of_bool (lo x < lo a)) * 2 ^ 64)"
proof -
  have "uint (lo x) = uint (lo a) + uint (lo b) - of_bool (lo x < lo a) * 2 ^ 64"
    using uint64_less [of "lo a"] uint64_less [of "lo b"] uint_ge_0 [of "lo a"] uint_ge_0 [of "lo b"]
    unfolding assms(2) word_less_def uint_add_if by simp
  then have "hval x = word_of_int ((uint (hi a) + uint (hi b) + c) * 2 ^ 64
      + (uint (lo a) + uint (lo b) - of_bool (lo x < lo a) * 2 ^ 64))"
    by (intro hvalI) (simp_all add: assms(1) word_of_int_hi)
  then show ?thesis
    unfolding hval_word [of a] hval_word [of b] wi_hom_add by (simp add: algebra_simps)
qed

lemma hval_sub_gen:
  assumes "hi x = hi a - hi b + word_of_int c" and "lo x = lo a - lo b"
  shows "hval x = hval a - hval b + word_of_int ((c + of_bool (lo a < lo x)) * 2 ^ 64)"
proof -
  have "uint (lo x) = uint (lo a) - uint (lo b) + of_bool (lo a < lo x) * 2 ^ 64"
    using uint64_less [of "lo a"] uint64_less [of "lo b"] uint_ge_0 [of "lo a"] uint_ge_0 [of "lo b"]
    unfolding assms(2) word_less_def uint_sub_if by simp
  then have "hval x = word_of_int ((uint (hi a) - uint (hi b) + c) * 2 ^ 64
      + (uint (lo a) - uint (lo b) + of_bool (lo a < lo x) * 2 ^ 64))"
    by (intro hvalI) (simp_all add: assms(1) word_of_int_hi)
  then show ?thesis
    unfolding hval_word [of a] hval_word [of b] wi_hom_add wi_hom_sub by (simp add: algebra_simps)
qed

lemma hval_haddi: "hval (haddi a b) = hval a + scast b"
proof -
  let ?b = "huge_from_int b" and ?x = "haddi a b"
  let ?c = "(if sint b < 0 then (if lo a < lo ?x then 0 else 1) else (if lo ?x < lo a then 1 else 0)) :: int"
  have *: "hval ?x = hval a + hval ?b + word_of_int ((?c - of_bool (lo ?x < lo a)) * 2 ^ 64)"
    by (rule hval_add_gen) (simp_all add: haddi_def huge_from_int_def Let_def)
  have "lo ?x \<noteq> lo a" if "sint b < 0"
    using that by (auto simp: haddi_def Let_def)
  then have "?c - of_bool (lo ?x < lo a) = 0" by auto
  with * show ?thesis by (simp only: hval_huge_from_int) simp
qed

text \<open>
  \<open>hadd\<close> and \<open>hsub\<close> are exact unless the second operand is negative with a non-zero low
  word; then the result is off by \<open>2 ^ 64\<close>.
\<close>

lemma hval_hadd:
  "hval (hadd a b) = hval a + hval b - (if HUGESIGN b \<and> lo b \<noteq> 0 then 2 ^ 64 else 0)"
proof -
  let ?x = "hadd a b"
  let ?c = "(if HUGESIGN b then (if lo a < lo ?x then -1 else 0) else (if lo ?x < lo a then 1 else 0)) :: int"
  have "hval ?x = hval a + hval b + word_of_int ((?c - of_bool (lo ?x < lo a)) * 2 ^ 64)"
    by (rule hval_add_gen) (simp_all add: hadd_def Let_def)
  moreover have "lo ?x = lo a \<longleftrightarrow> lo b = 0" by (simp add: hadd_def Let_def)
  then have "?c - of_bool (lo ?x < lo a) = - of_bool (HUGESIGN b \<and> lo b \<noteq> 0)" by auto
  ultimately show ?thesis by simp
qed

lemma hval_hsub:
  "hval (hsub a b) = hval a - hval b + (if HUGESIGN b \<and> lo b \<noteq> 0 then 2 ^ 64 else 0)"
proof -
  let ?x = "hsub a b"
  let ?c = "(if HUGESIGN b then (if lo ?x < lo a then 1 else 0) else (if lo a < lo ?x then -1 else 0)) :: int"
  have "hval ?x = hval a - hval b + word_of_int ((?c + of_bool (lo a < lo ?x)) * 2 ^ 64)"
    by (rule hval_sub_gen) (simp_all add: hsub_def Let_def)
  moreover have "lo ?x = lo a \<longleftrightarrow> lo b = 0" by (auto simp add: hsub_def Let_def)
  then have "?c + of_bool (lo a < lo ?x) = of_bool (HUGESIGN b \<and> lo b \<noteq> 0)" by auto
  ultimately show ?thesis by simp
qed

subsection \<open>Comparison\<close>

lemma sint_diff_in_range:
  fixes x y :: "'a::len word"
  assumes "- (2 ^ (LENGTH('a) - 1)) \<le> sint x - sint y" and "sint x - sint y < 2 ^ (LENGTH('a) - 1)"
  shows "sint (x - y) = sint x - sint y"
proof -
  have "x - y = word_of_int (sint x - sint y)"
    by (simp flip: wi_hom_syms)
  moreover have "signed_take_bit (LENGTH('a) - Suc 0) (sint x - sint y) = sint x - sint y"
    using assms by (simp add: signed_take_bit_int_eq_self)
  ultimately show ?thesis by (simp only: sint_sbintrunc' One_nat_def)
qed

lemma hcmp_hsub: "hcmp a b = sgn (sint (hval (hsub a b)))"
proof -
  have "sint (hval c) = 0 \<longleftrightarrow> hi c = 0 \<and> lo c = 0" for c
    using hval_eq_0 [of c] by (simp add: signed_eq_0_iff)
  then show ?thesis
    by (auto simp: hcmp_def Let_def HUGESIGN_sint sgn_if)
qed

lemma bit64_less: "bit (x :: u64) n \<Longrightarrow> n < 64"
  using bit_imp_le_length [of x n] by simp

lemma bit_hval:
  "bit (hval h) n \<longleftrightarrow> n < 128 \<and> (if n < 64 then bit (lo h) n else bit (hi h) (n - 64))"
  by (simp add: hval_def bit_word_cat_iff)

lemma hval_hcpl: "hval (hcpl a) = NOT (hval a)"
  by (rule bit_word_eqI) (auto simp: bit_hval hcpl_def bit_simps)

lemma hval_hand: "hval (hand a b) = hval a AND hval b"
  by (rule bit_word_eqI) (auto simp: bit_hval hand_def bit_simps)

lemma hval_hor: "hval (hor a b) = hval a OR hval b"
  by (rule bit_word_eqI) (auto simp: bit_hval hor_def bit_simps)

lemma hval_hxor: "hval (hxor a b) = hval a XOR hval b"
  by (rule bit_word_eqI) (auto simp: bit_hval hxor_def bit_simps)

lemma hval_hnot: "hval (hnot a) = of_bool (hval a = 0)"
proof (cases "hval a = 0")
  case True
  then show ?thesis by (simp add: hnot_def hval_eq_0) (simp add: hval_word)
next
  case False
  then show ?thesis by (auto simp: hnot_def hval_eq_0 hval_word)
qed

subsection \<open>Shifts\<close>

lemma shift_count_cases [case_names negative zero low high beyond]:
  obtains "b < 0" | "b = 0" | n where "b = int n" "0 < n" "n < 64"
    | n where "b = int n" "64 \<le> n" "n < 128" | "128 \<le> (b::int)"
proof (cases b)
  case (nonneg n)
  then show ?thesis using that by (cases "n = 0"; cases "n < 64"; cases "n < 128") auto
qed (use that in auto)

lemma hshl_hval:
  "map_option hval (hshl a b) = (if 0 \<le> b \<and> b < 128 then Some (push_bit (nat b) (hval a)) else None)"
proof (cases b rule: shift_count_cases)
  case (low n)
  then have "nat (64 - int n) = 64 - n" by simp
  with low show ?thesis
    by (simp add: hshl_def) (intro conjI impI bit_word_eqI, auto simp: bit_hval bit_simps add.commute split: if_splits dest: bit64_less; arith)
next
  case (high n)
  then have "nat (int n - 64) = n - 64" by simp
  with high show ?thesis
    by (simp add: hshl_def) (intro conjI impI bit_word_eqI, auto simp: bit_hval bit_simps add.commute split: if_splits dest: bit64_less; arith)
qed (auto simp: hval_def hshl_def c_shl_def c_shr_def)

lemma hshr_hval:
  "map_option hval (hshr a b) = (if 0 \<le> b \<and> b < 128 then Some (drop_bit (nat b) (hval a)) else None)"
proof (cases b rule: shift_count_cases)
  case (low n)
  then have "nat (64 - int n) = 64 - n" by simp
  with low show ?thesis
    by (simp add: hshr_def) (intro conjI impI bit_word_eqI, auto simp: bit_hval bit_simps add.commute split: if_splits dest: bit64_less; arith)
next
  case (high n)
  then have "nat (int n - 64) = n - 64" by simp
  with high show ?thesis
    by (simp add: hshr_def) (intro conjI impI bit_word_eqI, auto simp: bit_hval bit_simps add.commute split: if_splits dest: bit64_less; arith)
qed (auto simp: hval_def hshr_def c_shl_def c_shr_def)

lemma hshra_hval:
  "map_option hval (hshra a b) = (if 0 \<le> b \<and> b < 128 then Some (signed_drop_bit (nat b) (hval a)) else None)"
proof (cases b rule: shift_count_cases)
  case (low n)
  then have "nat (64 - int n) = 64 - n" by simp
  with low show ?thesis
    by (simp add: hshra_def)
       (intro conjI impI bit_word_eqI, auto simp: bit_hval bit_simps bit_signed_drop_bit_iff add.commute split: if_splits dest: bit64_less; arith)
next
  case (high n)
  then have nat: "nat (int n - 64) = n - 64" by simp
  have sign: "bit (hval a) 127 = bit (hi a) 63" by (simp add: bit_hval)
  have "hval \<lparr>hi = (if HUGESIGN a then - 1 else 0), lo = signed_drop_bit (n - 64) (hi a)\<rparr>
      = signed_drop_bit n (hval a)"
  proof (rule bit_word_eqI)
    fix k
    assume k: "k < LENGTH(128)"
    consider "k < 128 - n" | "128 - n \<le> k" "k < 64" | "64 \<le> k" by linarith
    then show "bit (hval \<lparr>hi = (if HUGESIGN a then - 1 else 0), lo = signed_drop_bit (n - 64) (hi a)\<rparr>) k
        = bit (signed_drop_bit n (hval a)) k"
    proof cases
      case 1
      with high have "n + k - 64 = n - 64 + k" "\<not> n + k < 64" "k < 64" "n + k < 128" by simp_all
      with 1 high show ?thesis by (simp add: bit_hval bit_signed_drop_bit_iff)
    next
      case 3
      with high k have "128 - n \<le> k" "k - 64 < 64" "k < 128" by simp_all
      with 3 high sign show ?thesis by (simp add: bit_hval bit_signed_drop_bit_iff HUGESIGN_bit)
    qed (use k high sign in \<open>simp_all add: bit_hval bit_signed_drop_bit_iff HUGESIGN_bit\<close>)
  qed
  with high nat show ?thesis by (simp add: hshra_def)
qed (auto simp: hval_def hshra_def c_shl_def c_shr_def c_sar_def)

subsection \<open>Multiplication\<close>

lemma uint_HIHALF: "uint (HIHALF x) = uint x div 2 ^ 32"
  by (simp only: HIHALF_def uint_drop_bit_div)

lemma uint_LOHALF: "uint (LOHALF x) = uint x mod 2 ^ 32"
proof -
  have "LOHALF x = take_bit 32 x"
    by (simp add: LOHALF_def take_bit_eq_mask mask_eq_exp_minus_1)
  then have "uint (LOHALF x) = take_bit 32 (uint x)" by (simp only: unsigned_take_bit_eq)
  then show ?thesis by (simp only: take_bit_eq_mod)
qed

lemma uint_mult_small:
  "uint a * uint b < 2 ^ LENGTH('a) \<Longrightarrow> uint (a * b) = uint a * uint b" for a b :: "'a::len word"
  by (simp add: uint_word_ariths)

text \<open>The partial products of two 64-bit words, as integers.\<close>

definition hh_prod :: "u64 \<Rightarrow> u64 \<Rightarrow> int" where
  "hh_prod x y = (uint x div 2 ^ 32) * (uint y div 2 ^ 32)"

definition mid_prod :: "u64 \<Rightarrow> u64 \<Rightarrow> int" where
  "mid_prod x y = (uint x div 2 ^ 32) * (uint y mod 2 ^ 32) + (uint x mod 2 ^ 32) * (uint y div 2 ^ 32)"

definition ll_prod :: "u64 \<Rightarrow> u64 \<Rightarrow> int" where
  "ll_prod x y = (uint x mod 2 ^ 32) * (uint y mod 2 ^ 32)"

lemma half_product_bound:
  "0 \<le> a \<Longrightarrow> a < 2 ^ 32 \<Longrightarrow> 0 \<le> b \<Longrightarrow> b < 2 ^ 32 \<Longrightarrow> a * b < (2::int) ^ 64 \<and> 0 \<le> a * b"
  using mult_strict_mono [of a "2 ^ 32" b "2 ^ 32"] by (cases "b = 0") simp_all

lemma uint_half_bounds:
  "0 \<le> uint (x :: u64) div 2 ^ 32" "uint x div 2 ^ 32 < 2 ^ 32"
  "0 \<le> uint x mod 2 ^ 32" "uint x mod 2 ^ 32 < 2 ^ 32"
  using uint64_less [of x] by (simp_all add: pos_imp_zdiv_nonneg_iff int_div_less)

lemma halves_product:
  "(h * B + l) * (h' * B + l') = h * h' * (B * B) + (h * l' + l * h') * B + l * (l' :: int)"
  by (simp add: algebra_simps)

lemma uint_product: "uint x * uint y = hh_prod x y * 2 ^ 64 + mid_prod x y * 2 ^ 32 + ll_prod x y"
  using halves_product [of "uint x div 2 ^ 32" "2 ^ 32" "uint x mod 2 ^ 32" "uint y div 2 ^ 32" "uint y mod 2 ^ 32"]
  by (simp add: hh_prod_def mid_prod_def ll_prod_def)

lemma prod_bounds:
  "0 \<le> hh_prod x y" "hh_prod x y < 2 ^ 64" "0 \<le> mid_prod x y" "mid_prod x y < 2 * 2 ^ 64"
  "0 \<le> ll_prod x y" "ll_prod x y < 2 ^ 64"
  using half_product_bound [OF uint_half_bounds(1,2) uint_half_bounds(1,2), of x y]
    half_product_bound [OF uint_half_bounds(1,2) uint_half_bounds(3,4), of x y]
    half_product_bound [OF uint_half_bounds(3,4) uint_half_bounds(1,2), of x y]
    half_product_bound [OF uint_half_bounds(3,4) uint_half_bounds(3,4), of x y]
  unfolding hh_prod_def mid_prod_def ll_prod_def by linarith+

lemma carry_split:
  "h * (B * B) + (q * B + r) * B + l = (r * B + l - c * (B * B)) + (h + q + c) * (B * B :: int)"
  by (simp add: algebra_simps)

lemma product_low_word:
  "(uint x * uint y) mod 2 ^ 64 = (mid_prod x y mod 2 ^ 32 * 2 ^ 32 + ll_prod x y)
     - of_bool (2 ^ 64 \<le> mid_prod x y mod 2 ^ 32 * 2 ^ 32 + ll_prod x y) * 2 ^ 64" (is "_ = ?r")
proof -
  let ?m = "mid_prod x y"
  have "uint x * uint y = ?r + (hh_prod x y + ?m div 2 ^ 32
      + of_bool (2 ^ 64 \<le> ?m mod 2 ^ 32 * 2 ^ 32 + ll_prod x y)) * 2 ^ 64"
    using carry_split [of "hh_prod x y" "2 ^ 32" "?m div 2 ^ 32" "?m mod 2 ^ 32" "ll_prod x y"
        "of_bool (2 ^ 64 \<le> ?m mod 2 ^ 32 * 2 ^ 32 + ll_prod x y)"]
    unfolding uint_product by simp
  moreover have "0 \<le> ?r" "?r < 2 ^ 64"
    using prod_bounds(5,6) [of x y] pos_mod_bound [of "2 ^ 32" ?m] pos_mod_sign [of "2 ^ 32" ?m]
    by auto
  ultimately show ?thesis by (metis mod_mult_self1 mod_pos_pos_trivial)
qed

text \<open>
  The test for a carry out of the low word is the only inexact step: the result is right
  exactly when the test over the product of the high halves agrees with the one over the
  product of the low halves.
\<close>

definition code_carry :: "u64 \<Rightarrow> u64 \<Rightarrow> bool" where
  "code_carry x y \<longleftrightarrow> 2 ^ 64 \<le> mid_prod x y mod 2 ^ 32 * 2 ^ 32 + hh_prod x y"

definition low_carry :: "u64 \<Rightarrow> u64 \<Rightarrow> bool" where
  "low_carry x y \<longleftrightarrow> 2 ^ 64 \<le> mid_prod x y mod 2 ^ 32 * 2 ^ 32 + ll_prod x y"

lemma word_add_carry: "a + b < a \<longleftrightarrow> 2 ^ LENGTH('a) \<le> uint a + uint b" for a b :: "'a::len word"
  using uint_lt2p [of a] uint_lt2p [of b] unfolding word_less_def uint_add_if by simp

lemma mid_sum:
  fixes x y :: u64
  defines "t \<equiv> HIHALF x * LOHALF y" and "s \<equiv> LOHALF x * HIHALF y"
  shows "(if t + s < t then BASE else 0) + HIHALF (t + s) = word_of_int (mid_prod x y div 2 ^ 32)"
    and "uint (push_bit 32 (t + s)) = mid_prod x y mod 2 ^ 32 * 2 ^ 32"
proof -
  have t: "uint t = (uint x div 2 ^ 32) * (uint y mod 2 ^ 32)"
    unfolding t_def using half_product_bound [OF uint_half_bounds(1,2) uint_half_bounds(3,4), of x y]
    by (subst uint_mult_small) (simp_all only: uint_HIHALF uint_LOHALF, simp)
  have s: "uint s = (uint x mod 2 ^ 32) * (uint y div 2 ^ 32)"
    unfolding s_def using half_product_bound [OF uint_half_bounds(3,4) uint_half_bounds(1,2), of x y]
    by (subst uint_mult_small) (simp_all only: uint_HIHALF uint_LOHALF, simp)
  have m: "uint t + uint s = mid_prod x y" by (simp add: t s mid_prod_def)
  have carry: "t + s < t \<longleftrightarrow> 2 ^ 64 \<le> mid_prod x y"
    by (simp add: word_add_carry m)
  have sum: "uint (t + s) = mid_prod x y - of_bool (2 ^ 64 \<le> mid_prod x y) * 2 ^ 64"
    using m by (simp add: uint_add_if)
  have split: "mid_prod x y = of_bool (2 ^ 64 \<le> mid_prod x y) * 2 ^ 32 * 2 ^ 32 + uint (t + s)"
    by (simp add: sum)
  have "mid_prod x y div 2 ^ 32 = of_bool (2 ^ 64 \<le> mid_prod x y) * 2 ^ 32 + uint (t + s) div 2 ^ 32"
    by (subst split) simp
  then have "word_of_int (mid_prod x y div 2 ^ 32)
      = word_of_int (of_bool (2 ^ 64 \<le> mid_prod x y) * 2 ^ 32) + (word_of_int (uint (HIHALF (t + s))) :: u64)"
    by (simp only: wi_hom_add uint_HIHALF)
  then show "(if t + s < t then BASE else 0) + HIHALF (t + s) = word_of_int (mid_prod x y div 2 ^ 32)"
    by (simp add: carry BASE_def)
  have "uint (push_bit 32 (t + s)) = (uint (t + s) * 2 ^ 32) mod 2 ^ 64"
    by (simp only: uint_push_bit) simp
  also have "\<dots> = (uint (t + s) mod 2 ^ 32) * 2 ^ 32"
    using mult_mod_left [of "uint (t + s)" "2 ^ 32" "2 ^ 32 :: int"] by simp
  also have "uint (t + s) mod 2 ^ 32 = mid_prod x y mod 2 ^ 32"
  proof -
    have "(c * 2 ^ 32 * 2 ^ 32 + u) mod 2 ^ 32 = u mod 2 ^ 32" for c u :: int
      by (rule mod_mult_self3)
    then show ?thesis by (metis split)
  qed
  finally show "uint (push_bit 32 (t + s)) = mid_prod x y mod 2 ^ 32 * 2 ^ 32" .
qed

lemma mult_word128_overflow: "k * (340282366920938463463374607431768211456 :: 128 word) = 0"
proof -
  have "(340282366920938463463374607431768211456 :: 128 word) = 0"
    by (simp add: word_uint_eq_iff)
  then show ?thesis by (simp only: mult_zero_right)
qed

lemma hval_hmul:
  "hval (hmul a b) = hval a * hval b
     + word_of_int ((of_bool (code_carry (lo a) (lo b)) - of_bool (low_carry (lo a) (lo b))) * 2 ^ 64)"
proof -
  let ?x = "lo a" and ?y = "lo b"
  let ?t = "HIHALF ?x * LOHALF ?y" and ?s = "LOHALF ?x * HIHALF ?y" and ?h = "HIHALF ?x * HIHALF ?y"
  have h: "uint ?h = hh_prod ?x ?y"
    using half_product_bound [OF uint_half_bounds(1,2) uint_half_bounds(1,2), of ?x ?y]
    by (subst uint_mult_small) (simp_all only: uint_HIHALF hh_prod_def, simp)
  have code: "?h + push_bit 32 (?t + ?s) < ?h \<longleftrightarrow> code_carry ?x ?y"
    by (simp add: word_add_carry mid_sum h code_carry_def add.commute)
  have "hi (hmul a b) = hi a * ?y + hi b * ?x
      + ((if ?t + ?s < ?t then BASE else 0) + HIHALF (?t + ?s)) + ?h + of_bool (code_carry ?x ?y)"
    unfolding code [symmetric] by (simp add: hmul_def Let_def)
  also have "\<dots> = word_of_int (uint (hi a) * uint ?y + uint (hi b) * uint ?x
      + mid_prod ?x ?y div 2 ^ 32 + hh_prod ?x ?y + of_bool (code_carry ?x ?y))"
    unfolding mid_sum h [symmetric] by (simp flip: wi_hom_syms)
  finally have "hval (hmul a b) = word_of_int ((uint (hi a) * uint ?y + uint (hi b) * uint ?x
      + mid_prod ?x ?y div 2 ^ 32 + hh_prod ?x ?y + of_bool (code_carry ?x ?y)) * 2 ^ 64
      + (uint ?x * uint ?y) mod 2 ^ 64)"
    by (rule hvalI) (simp add: hmul_def Let_def uint_word_ariths)
  moreover have "(mid_prod ?x ?y div 2 ^ 32 + hh_prod ?x ?y) * 2 ^ 64 + (uint ?x * uint ?y) mod 2 ^ 64
      = uint ?x * uint ?y - of_bool (low_carry ?x ?y) * 2 ^ 64"
    using carry_split [of "hh_prod ?x ?y" "2 ^ 32" "mid_prod ?x ?y div 2 ^ 32" "mid_prod ?x ?y mod 2 ^ 32"
        "ll_prod ?x ?y" "of_bool (low_carry ?x ?y)"]
    unfolding product_low_word low_carry_def unfolding uint_product by simp
  then have "(uint (hi a) * uint ?y + uint (hi b) * uint ?x
      + mid_prod ?x ?y div 2 ^ 32 + hh_prod ?x ?y + of_bool (code_carry ?x ?y)) * 2 ^ 64
      + (uint ?x * uint ?y) mod 2 ^ 64
    = (uint (hi a) * 2 ^ 64 + uint ?x) * (uint (hi b) * 2 ^ 64 + uint ?y)
      + (of_bool (code_carry ?x ?y) - of_bool (low_carry ?x ?y)) * 2 ^ 64
      - uint (hi a) * uint (hi b) * 2 ^ 128"
    by (simp add: algebra_simps)
  ultimately show ?thesis
    by (simp only: hval_word [of a] hval_word [of b] wi_hom_mult wi_hom_add wi_hom_sub)
       (simp add: mult_word128_overflow)
qed

lemma hmuli_hmul: "hmuli a b = hmul a \<lparr>hi = 0, lo = b\<rparr>"
  by (simp add: hmuli_def hmul_def)

end
