(* ===== verification/Hugediv.thy ===== *)
theory Hugediv
  imports Hugeint "HOL-Library.Signed_Division"
begin

text \<open>
  The remaining operations of \<open>src/hugeint.c\<close>: the long division \<open>divmod\<close> on 32-bit
  digits with the signed division and modulus built on it, the transfer of 128-bit integers
  from and to byte memory, and the range check used before a value is narrowed.

  The digit arrays \<open>uspace\<close>, \<open>vspace\<close> and \<open>qspace\<close> are lists of five digits, the
  pointers into them offsets. An element the code has not assigned yet is 0 here; no result
  depends on one.
\<close>

section \<open>Long division\<close>

type_synonym digit = u32

abbreviation dig :: "digit \<Rightarrow> u64" where
  "dig d \<equiv> ucast d"

fun shift_digits_loop :: "digit list \<Rightarrow> nat \<Rightarrow> nat \<Rightarrow> nat \<Rightarrow> digit list" where
  "shift_digits_loop p sh i 0 = p[i := ucast (LOHALF (push_bit sh (dig (p ! i))))]"
| "shift_digits_loop p sh i (Suc k) =
     shift_digits_loop
       (p[i := ucast (LOHALF (push_bit sh (dig (p ! i))) OR drop_bit (32 - sh) (dig (p ! (i + 1))))])
       sh (i + 1) k"

definition shift_digits :: "digit list \<Rightarrow> nat \<Rightarrow> nat \<Rightarrow> nat \<Rightarrow> digit list" where
  "shift_digits p off len sh = shift_digits_loop p sh off len"

text \<open>Step D3: the loop that corrects the estimated quotient digit.\<close>

function qhat_loop :: "digit \<Rightarrow> digit \<Rightarrow> digit \<Rightarrow> u64 \<Rightarrow> u64 \<Rightarrow> u64 \<times> u64" where
  "qhat_loop v1 v2 uj2 qhat rhat =
     (if COMBINE rhat (dig uj2) < dig v2 * qhat then
        (let qhat' = qhat - 1; rhat' = rhat + dig v1
         in if BASE \<le> rhat' then (qhat', rhat') else qhat_loop v1 v2 uj2 qhat' rhat')
      else (qhat, rhat))"
  by pat_completeness auto
termination
proof (relation "measure (\<lambda>(v1, v2, uj2, qhat, rhat). unat qhat)", goal_cases)
  case (2 v1 v2 uj2 qhat rhat x xa)
  then have "qhat \<noteq> 0" by auto
  with 2 show ?case by (simp add: unat_minus_one unat_gt_0)
qed simp

definition qhat_estimate :: "digit \<Rightarrow> digit \<Rightarrow> digit \<Rightarrow> digit \<Rightarrow> digit \<Rightarrow> u64" where
  "qhat_estimate v1 v2 uj0 uj1 uj2 =
     (if uj0 = v1 then
        (let qhat = BASE - 1; rhat = dig uj1 + dig v1
         in if BASE \<le> rhat then qhat else fst (qhat_loop v1 v2 uj2 qhat rhat))
      else
        (let nn = COMBINE (dig uj0) (dig uj1)
         in fst (qhat_loop v1 v2 uj2 (nn div dig v1) (nn mod dig v1))))"

text \<open>Step D4: multiply and subtract, from digit \<open>i\<close> down to 1.\<close>

fun mul_sub_loop :: "digit list \<Rightarrow> nat \<Rightarrow> digit list \<Rightarrow> nat \<Rightarrow> u64 \<Rightarrow> nat \<Rightarrow> u64 \<Rightarrow> digit list \<times> u64" where
  "mul_sub_loop u uo v vo qhat 0 t = (u, t)"
| "mul_sub_loop u uo v vo qhat (Suc i) t =
     (let t = dig (u ! (uo + Suc i)) - dig (v ! (vo + Suc i)) * qhat - t;
          u = u[uo + Suc i := ucast (LOHALF t)];
          t = (BASE - HIHALF t) AND (BASE - 1)
      in mul_sub_loop u uo v vo qhat i t)"

text \<open>Step D6: add back; \<open>u[i+j] + v[i]\<close> is a sum of two 32-bit digits in the code.\<close>

fun add_back_loop :: "digit list \<Rightarrow> nat \<Rightarrow> digit list \<Rightarrow> nat \<Rightarrow> nat \<Rightarrow> u64 \<Rightarrow> digit list \<times> u64" where
  "add_back_loop u uo v vo 0 t = (u, t)"
| "add_back_loop u uo v vo (Suc i) t =
     (let t = t + dig (u ! (uo + Suc i) + v ! (vo + Suc i));
          u = u[uo + Suc i := ucast (LOHALF t)];
          t = HIHALF t
      in add_back_loop u uo v vo i t)"

text \<open>One quotient digit: \<open>uo\<close> is the offset of \<open>u[j]\<close>.\<close>

definition knuth_step :: "digit list \<Rightarrow> nat \<Rightarrow> digit list \<Rightarrow> nat \<Rightarrow> nat \<Rightarrow> digit list \<times> digit" where
  "knuth_step u uo v vo n =
     (let qhat = qhat_estimate (v ! (vo + 1)) (v ! (vo + 2)) (u ! uo) (u ! (uo + 1)) (u ! (uo + 2));
          (u, t) = mul_sub_loop u uo v vo qhat n 0;
          t = dig (u ! uo) - t;
          u = u[uo := ucast (LOHALF t)]
      in if HIHALF t \<noteq> 0 then
           (let qhat = qhat - 1;
                (u, t) = add_back_loop u uo v vo n 0;
                u = u[uo := ucast (LOHALF (dig (u ! uo) + t))]
            in (u, ucast qhat))
         else (u, ucast qhat))"

fun knuth_loop :: "digit list \<Rightarrow> nat \<Rightarrow> digit list \<Rightarrow> nat \<Rightarrow> nat \<Rightarrow> digit list \<Rightarrow> nat \<Rightarrow> nat \<Rightarrow> digit list \<times> digit list" where
  "knuth_loop u uo v vo n q qo 0 = (u, q)"
| "knuth_loop u uo v vo n q qo (Suc k) =
     (let (u, d) = knuth_step u uo v vo n
      in knuth_loop u (uo + 1) v vo n (q[qo := d]) (qo + 1) k)"

text \<open>
  The two pointer scans: \<open>v\<close> moves to the leading non-zero digit of the divisor (with
  \<open>n = 1\<close> handled before the scan ends), \<open>u\<close> to that of the dividend.
\<close>

fun skip_zero_digits :: "digit list \<Rightarrow> nat \<Rightarrow> nat \<Rightarrow> nat" where
  "skip_zero_digits p off 0 = off"
| "skip_zero_digits p off (Suc k) =
     (if p ! (off + 1) = 0 then skip_zero_digits p (off + 1) k else off)"

fun norm_shift :: "u64 \<Rightarrow> nat \<Rightarrow> nat" where
  "norm_shift t 0 = 0"
| "norm_shift t (Suc k) = (if t < BASE div 2 then Suc (norm_shift (push_bit 1 t) k) else 0)"

text \<open>Step D8: shift the remainder back, from digit \<open>hi\<close> down to digit \<open>lo + 1\<close>.\<close>

fun unshift_digits :: "digit list \<Rightarrow> nat \<Rightarrow> nat \<Rightarrow> nat \<Rightarrow> digit list" where
  "unshift_digits u d b 0 = u"
| "unshift_digits u d b (Suc k) =
     unshift_digits
       (u[b + Suc k := ucast (drop_bit d (dig (u ! (b + Suc k)))
            OR LOHALF (push_bit (32 - d) (dig (u ! (b + k)))))])
       d b k"

definition digits_huge :: "digit list \<Rightarrow> thuge" where
  "digits_huge p = \<lparr>hi = COMBINE (dig (p ! 1)) (dig (p ! 2)), lo = COMBINE (dig (p ! 3)) (dig (p ! 4))\<rparr>"

definition huge_digits :: "thuge \<Rightarrow> digit list" where
  "huge_digits a = [0, ucast (HIHALF (hi a)), ucast (LOHALF (hi a)), ucast (HIHALF (lo a)), ucast (LOHALF (lo a))]"

definition divmod_short :: "digit list \<Rightarrow> u64 \<Rightarrow> thuge \<times> thuge" where
  "divmod_short u t =
     (let q1 = dig (u ! 1) div t;
          rbj = COMBINE (dig (u ! 1) mod t) (dig (u ! 2));
          q2 = rbj div t;
          rbj = COMBINE (rbj mod t) (dig (u ! 3));
          q3 = rbj div t;
          rbj = COMBINE (rbj mod t) (dig (u ! 4));
          q4 = rbj div t
      in (\<lparr>hi = COMBINE (dig (ucast q1)) (dig (ucast q2)), lo = COMBINE (dig (ucast q3)) (dig (ucast q4))\<rparr>,
          \<lparr>hi = 0, lo = rbj mod t\<rparr>))"

definition divmod_long :: "digit list \<Rightarrow> digit list \<Rightarrow> nat \<Rightarrow> thuge \<times> thuge" where
  "divmod_long u v vo =
     (let n = 4 - vo;
          uo = skip_zero_digits u 0 4;
          m = 4 - n - uo;
          d = norm_shift (dig (v ! (vo + 1))) 32;
          (u, v) = (if 0 < d then (shift_digits u uo (m + n) d, shift_digits v (vo + 1) (n - 1) d)
                    else (u, v));
          (u, q) = knuth_loop u uo v vo n (replicate 5 0) (4 - m) (m + 1);
          u = (if 0 < d then (unshift_digits u d (uo + m) n)[uo + m := 0] else u)
      in (digits_huge q, digits_huge u))"

text \<open>The quotient and, where \<open>modptr\<close> is not NULL, the remainder stored through it.\<close>

definition divmod :: "thuge \<Rightarrow> thuge \<Rightarrow> stop + thuge \<times> thuge" where
  "divmod a b =
     (if hi b = 0 \<and> lo b = 0 then Inl Ierror
      else if hi a < hi b \<or> (hi a = hi b \<and> lo a < lo b) then Inr (\<lparr>hi = 0, lo = 0\<rparr>, a)
      else
        (let u = huge_digits a; v = huge_digits b; vo = skip_zero_digits v 0 3
         in if vo = 3 then Inr (divmod_short u (dig (v ! 4)))
            else Inr (divmod_long u v vo)))"

definition hdiv :: "thuge \<Rightarrow> thuge \<Rightarrow> stop + thuge" where
  "hdiv a b =
     (let neg = (HUGESIGN a \<noteq> HUGESIGN b);
          a = (if HUGESIGN a then hneg a else a);
          b = (if HUGESIGN b then hneg b else b)
      in case divmod a b of Inl e \<Rightarrow> Inl e | Inr (q, r) \<Rightarrow> Inr (if neg then hneg q else q))"

definition hmod :: "thuge \<Rightarrow> thuge \<Rightarrow> stop + thuge" where
  "hmod a b =
     (let neg = (HUGESIGN a \<noteq> HUGESIGN b);
          a = (if HUGESIGN a then hneg a else a);
          b = (if HUGESIGN b then hneg b else b)
      in case divmod a b of Inl e \<Rightarrow> Inl e | Inr (q, r) \<Rightarrow> Inr (if neg then hneg r else r))"

section \<open>Division by a divisor of one digit\<close>

lemma uint_COMBINE:
  assumes "uint a < 2 ^ 32" and "uint b < 2 ^ 32"
  shows "uint (COMBINE a b) = uint a * 2 ^ 32 + uint b"
proof -
  have "\<not> bit (push_bit 32 a) n \<or> \<not> bit b n" for n
  proof -
    have "b = take_bit 32 b"
      using assms(2) by (simp add: word_uint_eq_iff unsigned_take_bit_eq take_bit_int_eq_self)
    then have "bit b n \<Longrightarrow> n < 32" by (metis bit_take_bit_iff)
    then show ?thesis by (auto simp: bit_push_bit_iff)
  qed
  then have "COMBINE a b = push_bit 32 a + b"
    unfolding COMBINE_def by (subst disjunctive_add) simp_all
  moreover have "uint (push_bit 32 a) = uint a * 2 ^ 32"
    using assms(1) by (simp only: uint_push_bit) simp
  ultimately show ?thesis
    using assms by (simp add: uint_add_if)
qed

lemma uint_dig: "uint (dig d) = uint d"
  by (rule uint_ucast_up) simp

lemma dig_ucast: "uint x < 2 ^ 32 \<Longrightarrow> dig (ucast x) = x"
  by (simp add: word_uint_eq_iff uint_dig uint_ucast_small)

lemma uint_dig_less: "uint (d :: digit) < 2 ^ 32"
  using uint_lt2p [of d] by simp

text \<open>One step of schoolbook division: \<open>r\<close> is the remainder so far, \<open>d\<close> the next digit.\<close>

lemma short_step:
  fixes d :: digit
  assumes r: "uint r < uint t" and t: "uint t < 2 ^ 32"
  defines "x \<equiv> COMBINE r (dig d)"
  shows "uint x = uint r * 2 ^ 32 + uint d" and "dig (ucast (x div t)) = x div t"
    and "uint (x div t) < 2 ^ 32" and "uint (x mod t) < uint t"
proof -
  have pos: "0 < uint t" using r uint_ge_0 [of r] by linarith
  show x: "uint x = uint r * 2 ^ 32 + uint d"
    unfolding x_def using r t uint_dig_less [of d] by (subst uint_COMBINE) (simp_all add: uint_dig)
  have "uint x < 2 ^ 32 * uint t"
  proof -
    have "uint x < (uint r + 1) * 2 ^ 32" using uint_dig_less [of d] by (simp add: x algebra_simps)
    also have "\<dots> \<le> uint t * 2 ^ 32" using r by (intro mult_right_mono) simp_all
    finally show ?thesis by (simp add: mult.commute)
  qed
  then show "uint (x div t) < 2 ^ 32" using pos by (simp add: uint_div int_div_less)
  then show "dig (ucast (x div t)) = x div t" by (rule dig_ucast)
  show "uint (x mod t) < uint t" using pos by (simp add: uint_mod)
qed

lemma long_division_step:
  fixes t :: int
  assumes "0 < t"
  shows "(N * B + d) div t = (N div t) * B + ((N mod t) * B + d) div t"
    and "(N * B + d) mod t = ((N mod t) * B + d) mod t"
proof -
  have "(r + k * t) * B + d = (r * B + d) + (k * B) * t" for r k by (simp add: algebra_simps)
  from this [of "N mod t" "N div t"]
  have eq: "N * B + d = ((N mod t) * B + d) + (N div t * B) * t" by (simp only: mod_div_mult_eq)
  show "(N * B + d) div t = (N div t) * B + ((N mod t) * B + d) div t"
    unfolding eq using assms by (subst div_mult_self1) simp_all
  show "(N * B + d) mod t = ((N mod t) * B + d) mod t"
    unfolding eq by (rule mod_mult_self1)
qed

lemma huge_digits_nth:
  "huge_digits a ! 1 = ucast (HIHALF (hi a))" "huge_digits a ! 2 = ucast (LOHALF (hi a))"
  "huge_digits a ! 3 = ucast (HIHALF (lo a))" "huge_digits a ! 4 = ucast (LOHALF (lo a))"
  by (simp_all add: huge_digits_def)

lemma uint_halves:
  "uint (ucast (HIHALF x) :: digit) = uint x div 2 ^ 32"
  "uint (ucast (LOHALF x) :: digit) = uint x mod 2 ^ 32"
  using uint_half_bounds(2,4) [of x] by (simp_all add: uint_ucast_small uint_HIHALF uint_LOHALF)

lemma uint_hval_digits:
  "uint (hval a) = ((uint (huge_digits a ! 1) * 2 ^ 32 + uint (huge_digits a ! 2)) * 2 ^ 32
      + uint (huge_digits a ! 3)) * 2 ^ 32 + uint (huge_digits a ! 4)"
proof -
  have "uint x * 2 ^ 64 + uint y = ((uint x div 2 ^ 32 * 2 ^ 32 + uint x mod 2 ^ 32) * 2 ^ 32
      + uint y div 2 ^ 32) * 2 ^ 32 + uint y mod 2 ^ 32" for x y :: u64
    using div_mult_mod_eq [of "uint y" "2 ^ 32"] by (simp add: algebra_simps)
  then show ?thesis unfolding huge_digits_nth uint_halves uint_hval .
qed

lemma divmod_short_correct:
  assumes t: "0 < uint t" "uint t < 2 ^ 32"
  shows "uint (hval (fst (divmod_short (huge_digits a) t))) = uint (hval a) div uint t"
    and "uint (hval (snd (divmod_short (huge_digits a) t))) = uint (hval a) mod uint t"
proof -
  define u where "u i = huge_digits a ! i" for i
  define r1 where "r1 = dig (u 1) mod t"
  define r2 where "r2 = COMBINE r1 (dig (u 2)) mod t"
  define r3 where "r3 = COMBINE r2 (dig (u 3)) mod t"
  define q1 where "q1 = dig (u 1) div t"
  define q2 where "q2 = COMBINE r1 (dig (u 2)) div t"
  define q3 where "q3 = COMBINE r2 (dig (u 3)) div t"
  define q4 where "q4 = COMBINE r3 (dig (u 4)) div t"
  have split: "divmod_short (huge_digits a) t =
      (\<lparr>hi = COMBINE (dig (ucast q1)) (dig (ucast q2)), lo = COMBINE (dig (ucast q3)) (dig (ucast q4))\<rparr>,
       \<lparr>hi = 0, lo = COMBINE r3 (dig (u 4)) mod t\<rparr>)"
    by (simp only: divmod_short_def Let_def u_def r1_def r2_def r3_def q1_def q2_def q3_def q4_def)
  have r1: "uint r1 < uint t" using t by (simp add: r1_def uint_mod)
  have "uint (u 1) < 2 ^ 32 * uint t"
    using uint_dig_less [of "u 1"] t(1) by simp
  then have q1: "uint q1 < 2 ^ 32"
    using int_div_less t(1) by (simp only: q1_def uint_div uint_dig)
  note s2 = short_step [OF r1 t(2), of "u 2", folded r2_def q2_def]
  note s3 = short_step [OF s2(4) t(2), of "u 3", folded r3_def q3_def]
  note s4 = short_step [OF s3(4) t(2), of "u 4", folded q4_def]
  let ?B = "2 ^ 32 :: int"
  let ?n2 = "uint (u 1) * ?B + uint (u 2)"
  let ?n3 = "?n2 * ?B + uint (u 3)"
  have a: "uint (hval a) = ?n3 * ?B + uint (u 4)"
    by (simp only: uint_hval_digits u_def)
  have m1: "uint r1 = uint (u 1) mod uint t" and d1: "uint q1 = uint (u 1) div uint t"
    by (simp_all add: r1_def q1_def uint_mod uint_div uint_dig)
  have m2: "uint r2 = ?n2 mod uint t" and d2: "?n2 div uint t = uint q1 * ?B + uint q2"
    by (simp_all only: r2_def q2_def uint_mod uint_div s2(1) m1 d1
        long_division_step(1) [OF t(1), of "uint (u 1)"] long_division_step(2) [OF t(1), of "uint (u 1)"])
  have m3: "uint r3 = ?n3 mod uint t" and d3: "?n3 div uint t = (uint q1 * ?B + uint q2) * ?B + uint q3"
    by (simp_all only: r3_def q3_def uint_mod uint_div s3(1) m2 d2 long_division_step(1) [OF t(1), of ?n2]
        long_division_step(2) [OF t(1), of ?n2])
  have "uint (hval (fst (divmod_short (huge_digits a) t)))
      = ((uint q1 * ?B + uint q2) * ?B + uint q3) * ?B + uint q4"
    using q1 s2(3) s3(3) s4(3)
    by (simp add: split uint_hval uint_COMBINE dig_ucast algebra_simps)
  also have "\<dots> = uint (hval a) div uint t"
    by (simp only: a q4_def uint_div s4(1) m3 d3 long_division_step(1) [OF t(1), of ?n3])
  finally show "uint (hval (fst (divmod_short (huge_digits a) t))) = uint (hval a) div uint t" .
  have "uint (hval (snd (divmod_short (huge_digits a) t))) = uint (COMBINE r3 (dig (u 4)) mod t)"
    by (simp add: split uint_hval)
  also have "\<dots> = uint (hval a) mod uint t"
    by (simp only: a uint_mod s4(1) m3 long_division_step(2) [OF t(1), of ?n3])
  finally show "uint (hval (snd (divmod_short (huge_digits a) t))) = uint (hval a) mod uint t" .
qed

text \<open>The scan for the leading digit of the divisor ends at the last digit exactly for small divisors.\<close>

lemma int_digits_small:
  fixes a b c d :: int
  assumes "0 \<le> a" "0 \<le> b" "0 \<le> c" "0 \<le> d" "d < 4294967296"
  shows "((a * 4294967296 + b) * 4294967296 + c) * 4294967296 + d < 4294967296
      \<longleftrightarrow> a = 0 \<and> b = 0 \<and> c = 0"
  using assms by (auto simp: algebra_simps)

lemma skip_three:
  "skip_zero_digits (huge_digits b) 0 3 = 3 \<longleftrightarrow> uint (hval b) < 2 ^ 32"
proof -
  have "skip_zero_digits (huge_digits b) 0 3 = 3
      \<longleftrightarrow> huge_digits b ! 1 = 0 \<and> huge_digits b ! 2 = 0 \<and> huge_digits b ! 3 = 0"
    by (simp add: numeral_3_eq_3 numeral_2_eq_2)
  also have "\<dots> \<longleftrightarrow> uint (huge_digits b ! 1) = 0 \<and> uint (huge_digits b ! 2) = 0
      \<and> uint (huge_digits b ! 3) = 0"
    by (simp only: unsigned_eq_0_iff)
  also have "\<dots> \<longleftrightarrow> uint (hval b) < 2 ^ 32"
    using int_digits_small [OF uint_ge_0 uint_ge_0 uint_ge_0 uint_ge_0, of "huge_digits b ! 4"
        "huge_digits b ! 1" "huge_digits b ! 2" "huge_digits b ! 3"] uint_dig_less [of "huge_digits b ! 4"]
    by (simp add: uint_hval_digits)
  finally show ?thesis .
qed

lemma huge_less: "hi a < hi b \<or> (hi a = hi b \<and> lo a < lo b) \<longleftrightarrow> uint (hval a) < uint (hval b)"
  using uint64_less [of "lo a"] uint64_less [of "lo b"] uint_ge_0 [of "lo a"] uint_ge_0 [of "lo b"]
  unfolding uint_hval word_less_def word_uint_eq_iff by (simp; linarith)

lemma divmod_small:
  assumes "hval b \<noteq> 0" and "uint (hval b) < 2 ^ 32"
  obtains q r where "divmod a b = Inr (q, r)"
    and "hval q = hval a div hval b" and "hval r = hval a mod hval b"
proof (cases "uint (hval a) < uint (hval b)")
  case True
  have nz: "\<not> (hi b = 0 \<and> lo b = 0)" using assms(1) hval_eq_0 by blast
  have "divmod a b = Inr (huge_zero, a)"
    using nz True huge_less [of a b] by (auto simp: divmod_def huge_zero_def)
  moreover have "hval huge_zero = hval a div hval b" "hval a = hval a mod hval b"
    using True by (simp_all add: word_uint_eq_iff uint_div uint_mod)
  ultimately show ?thesis by (rule that)
next
  case False
  have nz: "\<not> (hi b = 0 \<and> lo b = 0)" using assms(1) hval_eq_0 by blast
  let ?t = "dig (huge_digits b ! 4)"
  have digits: "huge_digits b ! 1 = 0" "huge_digits b ! 2 = 0" "huge_digits b ! 3 = 0"
    using assms(2) skip_three [of b] by (auto simp: numeral_3_eq_3 numeral_2_eq_2 split: if_splits)
  then have t: "uint ?t = uint (hval b)"
    unfolding uint_hval_digits digits by (simp add: uint_dig)
  have pos: "0 < uint (hval b)"
    using assms(1) uint_ge_0 [of "hval b"] by (simp add: order.strict_iff_order unsigned_eq_0_iff)
  obtain q r where qr: "divmod_short (huge_digits a) ?t = (q, r)" by fastforce
  have "divmod a b = Inr (q, r)"
    using nz False huge_less [of a b] skip_three [of b] assms(2) qr
    by (auto simp add: divmod_def Let_def)
  moreover have "hval q = hval a div hval b" "hval r = hval a mod hval b"
    using divmod_short_correct [of ?t a] pos assms(2)
    by (simp_all add: qr t word_uint_eq_iff uint_div uint_mod)
  ultimately show ?thesis by (rule that)
qed

section \<open>Signed division and modulus by a divisor of one digit\<close>

definition huge_abs :: "thuge \<Rightarrow> thuge" where
  "huge_abs a = (if HUGESIGN a then hneg a else a)"

lemma uint_huge_abs: "uint (hval (huge_abs a)) = \<bar>sint (hval a)\<bar>"
proof (cases "HUGESIGN a")
  case True
  then have neg: "sint (hval a) < 0" by (simp add: HUGESIGN_sint)
  then have nz: "hval a \<noteq> 0" by auto
  from neg have "bit (hval a) (LENGTH(128) - Suc 0)" unfolding bit_last_iff .
  then have "sint (hval a) = uint (hval a) - 2 ^ 128" unfolding sint_uint_if by simp
  moreover have "uint (hval (huge_abs a)) = 2 ^ 128 - uint (hval a)"
    using True nz by (simp add: huge_abs_def hval_hneg uint_neg_if)
  ultimately show ?thesis using neg by simp
next
  case False
  then have "0 \<le> sint (hval a)" by (simp add: HUGESIGN_sint)
  moreover have "sint (hval a) = uint (hval a)"
  proof -
    have "\<not> bit (hval a) (LENGTH(128) - Suc 0)"
      using \<open>0 \<le> sint (hval a)\<close> unfolding bit_last_iff not_less .
    then show ?thesis unfolding sint_uint_if by simp
  qed
  ultimately show ?thesis using False by (simp add: huge_abs_def)
qed

lemma sdiv_abs:
  fixes x y :: int
  shows "y \<noteq> 0 \<Longrightarrow> x sdiv y = (if (x < 0) = (y < 0) then \<bar>x\<bar> div \<bar>y\<bar> else - (\<bar>x\<bar> div \<bar>y\<bar>))"
  by (cases "x = 0") (simp_all add: signed_divide_int_def sgn_if)

lemma hdiv_hmod_small:
  assumes "sint (hval b) \<noteq> 0" and "\<bar>sint (hval b)\<bar> < 2 ^ 32"
  obtains q r where "hdiv a b = Inr q" and "hmod a b = Inr r"
    and "hval q = word_of_int (sint (hval a) sdiv sint (hval b))"
    and "hval r = word_of_int (if (sint (hval a) < 0) = (sint (hval b) < 0)
                     then \<bar>sint (hval a)\<bar> mod \<bar>sint (hval b)\<bar>
                     else - (\<bar>sint (hval a)\<bar> mod \<bar>sint (hval b)\<bar>))"
proof -
  let ?A = "sint (hval a)" and ?B = "sint (hval b)"
  have "hval (huge_abs b) \<noteq> 0" "uint (hval (huge_abs b)) < 2 ^ 32"
    using assms uint_huge_abs [of b] by auto
  then obtain q r where d: "divmod (huge_abs a) (huge_abs b) = Inr (q, r)"
    and q: "hval q = hval (huge_abs a) div hval (huge_abs b)"
    and r: "hval r = hval (huge_abs a) mod hval (huge_abs b)"
    by (rule divmod_small)
  have q: "hval q = word_of_int (\<bar>?A\<bar> div \<bar>?B\<bar>)"
    and r: "hval r = word_of_int (\<bar>?A\<bar> mod \<bar>?B\<bar>)"
    by (simp_all add: q r word_div_def word_mod_def uint_huge_abs)
  let ?neg = "HUGESIGN a \<noteq> HUGESIGN b"
  have "hdiv a b = Inr (if ?neg then hneg q else q)"
    using d by (simp add: hdiv_def Let_def huge_abs_def)
  moreover have "hmod a b = Inr (if ?neg then hneg r else r)"
    using d by (simp add: hmod_def Let_def huge_abs_def)
  moreover have "?A sdiv ?B = (if ?neg then - (\<bar>?A\<bar> div \<bar>?B\<bar>) else \<bar>?A\<bar> div \<bar>?B\<bar>)"
    unfolding HUGESIGN_sint sdiv_abs [OF assms(1)] by simp
  then have "hval (if ?neg then hneg q else q) = word_of_int (?A sdiv ?B)"
    by (cases ?neg) (simp_all only: if_True if_False hval_hneg q wi_hom_neg simp_thms)
  moreover have "hval (if ?neg then hneg r else r)
      = word_of_int (if (?A < 0) = (?B < 0) then \<bar>?A\<bar> mod \<bar>?B\<bar> else - (\<bar>?A\<bar> mod \<bar>?B\<bar>))"
    by (cases "(?A < 0) = (?B < 0)")
      (simp_all only: if_True if_False HUGESIGN_sint hval_hneg r wi_hom_neg simp_thms)
  ultimately show ?thesis by (rule that)
qed

end
