(* ===== verification/Bytes.thy ===== *)
theory Bytes
  imports Prelude
begin

text \<open>
  Words and their bytes: the little-endian byte list of a word, and the word that results from
  shifting bytes in one after the other. The memory accesses of \<open>src/supp.c\<close> and the 128-bit
  integers of \<open>src/hugeint.c\<close> share these facts.
\<close>

fun le_bytes :: "nat \<Rightarrow> 'a::len word \<Rightarrow> u8 list" where
  "le_bytes 0 v = []"
| "le_bytes (Suc n) v = ucast v # le_bytes n (drop_bit 8 v)"

lemma length_le_bytes [simp]: "length (le_bytes n v) = n"
  by (induction n arbitrary: v) simp_all

lemma le_bytes_nth: "i < n \<Longrightarrow> le_bytes n v ! i = ucast (drop_bit (8 * i) v)"
proof (induction n arbitrary: v i)
  case (Suc n)
  then show ?case by (cases i) (simp_all add: add.commute)
qed simp

lemma le_bytes_append: "le_bytes (m + n) v = le_bytes m v @ le_bytes n (drop_bit (8 * m) v)"
  by (induction m arbitrary: v) (simp_all add: add.commute)

definition shift_in :: "'a::len word \<Rightarrow> u8 \<Rightarrow> 'a word" where
  "shift_in v b = push_bit 8 v OR ucast b"

lemma shift_in_plus: "push_bit 8 v + ucast (b :: u8) = shift_in v b"
  unfolding shift_in_def
  by (rule disjunctive_add) (auto simp: bit_simps dest: bit_imp_le_length)

lemma foldl_le_bytes:
  fixes v w :: "'a::len word"
  shows "foldl shift_in v (rev (le_bytes n w)) = push_bit (8 * n) v OR take_bit (8 * n) w"
proof (induction n arbitrary: w)
  case (Suc n)
  have eq: "foldl shift_in v (rev (le_bytes (Suc n) w))
      = shift_in (push_bit (8 * n) v OR take_bit (8 * n) (drop_bit 8 w)) (ucast w)"
    by (simp add: Suc)
  show ?case unfolding eq unfolding shift_in_def
    by (rule bit_word_eqI) (auto simp: bit_simps algebra_simps)
qed simp

text \<open>Only the bytes read matter for the low bits, so equal low bits give equal bytes.\<close>

lemma le_bytes_take_bit: "8 * n \<le> k \<Longrightarrow> le_bytes n (take_bit k v) = le_bytes n v" for v :: "'a::len word"
  by (rule nth_equalityI) (auto simp: le_bytes_nth intro!: bit_word_eqI simp: bit_simps)

lemma le_bytes_ucast:
  "8 * n \<le> LENGTH('b) \<Longrightarrow> le_bytes n (ucast v :: 'b::len word) = le_bytes n v" for v :: "'a::len word"
  by (rule nth_equalityI) (auto simp: le_bytes_nth intro!: bit_word_eqI simp: bit_simps)

end
