(* ===== verification/Hugemem.thy ===== *)
theory Hugemem
  imports Hugediv Bytes
begin

text \<open>
  The end of \<open>src/hugeint.c\<close>: the transfer of a 128-bit integer from and to \<open>size\<close> bytes
  of memory in either byte order, and \<open>huge_chkrange\<close>, the check whether a value fits into
  a number of bits. The memory at the pointer is the list of its bytes.
\<close>

section \<open>Bytes in memory\<close>

fun from_mem_loop :: "thuge \<Rightarrow> u8 list \<Rightarrow> thuge option" where
  "from_mem_loop r [] = Some r"
| "from_mem_loop r (b # bs) = do { r \<leftarrow> hshl r 8; from_mem_loop (r\<lparr>lo := lo r OR ucast b\<rparr>) bs }"

definition huge_from_mem :: "bool \<Rightarrow> u8 list \<Rightarrow> nat \<Rightarrow> stop + thuge" where
  "huge_from_mem be src sz =
     (if 16 < sz then Inl Ierror
      else if sz = 0 \<or> length src < sz then Inl Undefined
      else
        (let s = (if be then take sz src else rev (take sz src));
             r = (if s ! 0 <s 0 then \<lparr>hi = -1, lo = -1\<rparr> else \<lparr>hi = 0, lo = 0\<rparr>)
         in case from_mem_loop r s of None \<Rightarrow> Inl Undefined | Some r \<Rightarrow> Inr r))"

fun to_mem_loop :: "nat \<Rightarrow> thuge \<Rightarrow> u8 list option" where
  "to_mem_loop 0 h = Some []"
| "to_mem_loop (Suc n) h = do { h' \<leftarrow> hshr h 8; bs \<leftarrow> to_mem_loop n h'; Some (ucast (lo h) # bs) }"

text \<open>The bytes written; the returned pointer is the one behind them.\<close>

definition huge_to_mem :: "bool \<Rightarrow> nat \<Rightarrow> thuge \<Rightarrow> stop + u8 list" where
  "huge_to_mem be sz h =
     (if 16 < sz then Inl Ierror
      else case to_mem_loop sz h of
        None \<Rightarrow> Inl Undefined
      | Some bs \<Rightarrow> Inr (if be then rev bs else bs))"

definition huge_chkrange :: "thuge \<Rightarrow> int \<Rightarrow> bool option" where
  "huge_chkrange h bits =
     (if 128 \<le> bits then Some True
      else if 64 \<le> bits then do {
        mask \<leftarrow> c_shl (-1) (bits - 64);
        let v = hi h AND mask in
        if v XOR mask = 0 then do { s \<leftarrow> c_shl 1 (bits - 64 - 1); Some (hi h AND s \<noteq> 0) }
        else Some (v = 0) }
      else do {
        mask \<leftarrow> c_shl (-1) bits;
        let v = lo h AND mask in
        if hi h = -1 \<and> v XOR mask = 0 then do { s \<leftarrow> c_shl 1 (bits - 1); Some (lo h AND s \<noteq> 0) }
        else Some (hi h = 0 \<and> v = 0) })"

section \<open>Round trip through memory\<close>

lemma ucast_lo: "(ucast (lo h) :: u8) = ucast (hval h)"
  by (rule bit_word_eqI) (auto simp: bit_simps bit_hval)

lemma to_mem_loop_bytes: "to_mem_loop n h = Some (le_bytes n (hval h))"
proof (induction n arbitrary: h)
  case (Suc n)
  obtain h' where "hshr h 8 = Some h'" "hval h' = drop_bit 8 (hval h)"
    using hshr_hval [of h 8] by auto
  with Suc show ?case by (simp add: ucast_lo)
qed simp

lemma huge_to_mem_bytes:
  "sz \<le> 16 \<Longrightarrow> huge_to_mem be sz h = Inr ((if be then rev else id) (le_bytes sz (hval h)))"
  by (simp add: huge_to_mem_def to_mem_loop_bytes)

lemma hval_or_lo: "hval (r\<lparr>lo := lo r OR ucast (b::u8)\<rparr>) = hval r OR ucast b"
  by (rule bit_word_eqI) (auto simp: bit_simps bit_hval dest: bit_imp_le_length)

lemma from_mem_loop_shift_in:
  "map_option hval (from_mem_loop r bs) = Some (foldl shift_in (hval r) bs)"
proof (induction bs arbitrary: r)
  case (Cons b bs)
  obtain r' where "hshl r 8 = Some r'" "hval r' = push_bit 8 (hval r)"
    using hshl_hval [of r 8] by auto
  with Cons.IH [of "r'\<lparr>lo := lo r' OR ucast b\<rparr>"] show ?case
    by (simp add: hval_or_lo) (simp add: shift_in_def)
qed simp

lemma from_to_mem:
  assumes "1 \<le> sz" "sz \<le> 16" and "huge_to_mem be sz h = Inr bs"
  shows "\<exists>r. huge_from_mem be bs sz = Inr r
           \<and> hval r = signed_take_bit (8 * sz - 1) (hval h)"
proof -
  let ?s = "rev (le_bytes sz (hval h))"
  have s: "(if be then take sz bs else rev (take sz bs)) = ?s" and len: "length bs = sz"
    using assms by (auto simp: huge_to_mem_bytes)
  have "?s ! 0 = ucast (drop_bit (8 * (sz - 1)) (hval h))"
    using assms(1) by (simp add: rev_nth le_bytes_nth)
  then have sign: "?s ! 0 <s 0 \<longleftrightarrow> bit (hval h) (8 * sz - 1)"
    using assms(1) by (simp add: word_sless_alt bit_simps diff_mult_distrib2 flip: bit_last_iff)
  define r0 :: thuge where "r0 = (if ?s ! 0 <s 0 then \<lparr>hi = -1, lo = -1\<rparr> else \<lparr>hi = 0, lo = 0\<rparr>)"
  have r0: "hval r0 = (if bit (hval h) (8 * sz - 1) then -1 else 0)"
    unfolding r0_def sign by (rule bit_word_eqI) (auto simp: bit_hval)
  obtain r where r: "from_mem_loop r0 ?s = Some r" "hval r = foldl shift_in (hval r0) ?s"
    using from_mem_loop_shift_in [of r0 ?s] by auto
  have "huge_from_mem be bs sz = Inr r"
    using assms(1,2) len r(1) unfolding huge_from_mem_def s r0_def by (simp add: Let_def)
  moreover have "hval r = signed_take_bit (8 * sz - 1) (hval h)"
  proof (rule bit_word_eqI)
    fix n
    consider "n = 8 * sz - 1" | "n < 8 * sz - 1" "n < 8 * sz" | "8 * sz \<le> n" "8 * sz - 1 \<le> n"
      by linarith
    then show "bit (hval r) n = bit (signed_take_bit (8 * sz - 1) (hval h)) n" if "n < LENGTH(128)"
      unfolding r(2) foldl_le_bytes r0 using assms(1,2) that
      by cases (auto simp: bit_simps min_def)
  qed
  ultimately show ?thesis by blast
qed

section \<open>Range check\<close>

lemma and_high_mask_eq_0:
  "x AND push_bit k (-1) = 0 \<longleftrightarrow> uint x < 2 ^ k" for x :: u64
proof -
  have "x AND push_bit k (-1) = 0 \<longleftrightarrow> drop_bit k x = 0"
  proof
    assume zero: "x AND push_bit k (-1) = 0"
    show "drop_bit k x = 0"
    proof (rule bit_word_eqI)
      fix n
      have "\<not> bit (x AND push_bit k (-1)) (k + n)" using zero by simp
      then show "bit (drop_bit k x) n = bit 0 n"
        by (auto simp: bit_simps dest: bit_imp_le_length)
    qed
  next
    assume zero: "drop_bit k x = 0"
    have "\<not> bit x n" if "k \<le> n" for n
      using arg_cong [OF zero, of "\<lambda>y. bit y (n - k)"] that by (auto simp: bit_simps)
    then have "n < k" if "bit x n" for n using that leI by blast
    then show "x AND push_bit k (-1) = 0"
      by (intro bit_word_eqI) (auto simp: bit_simps)
  qed
  also have "\<dots> \<longleftrightarrow> uint x div 2 ^ k = 0"
    by (simp flip: uint_drop_bit_div add: unsigned_eq_0_iff)
  also have "\<dots> \<longleftrightarrow> uint x < 2 ^ k"
    using uint_ge_0 [of x] by (auto simp: div_pos_pos_trivial zdiv_eq_0_iff)
  finally show ?thesis .
qed

lemma uint_not64: "uint (NOT x) = 2 ^ 64 - 1 - uint x" for x :: u64
proof -
  have "NOT x = -1 - x" by (simp add: not_eq_complement)
  moreover have "uint (-1 :: u64) = 2 ^ 64 - 1" by (simp add: unsigned_minus_1_eq_mask mask_eq_exp_minus_1)
  ultimately show ?thesis using uint_sub_if [of "-1" x] uint64_less [of x] by simp
qed

text \<open>One half of the check: the bits of \<open>x\<close> from \<open>k\<close> on, and the bit below them as the sign.\<close>

lemma high_bits_set:
  fixes x :: u64
  shows "(x AND push_bit k (-1)) XOR push_bit k (-1) = 0 \<longleftrightarrow> 2 ^ 64 - 2 ^ k \<le> uint x"
proof -
  have eq: "(x AND push_bit k (-1)) XOR push_bit k (-1) = NOT x AND push_bit k (-1)"
    by (rule bit_word_eqI) (auto simp: bit_simps)
  show ?thesis unfolding eq and_high_mask_eq_0 uint_not64 by (simp add: algebra_simps) linarith
qed

lemma sign_bit_set:
  fixes x :: u64
  assumes k: "0 < k" "k < 64" and high: "2 ^ 64 - 2 ^ k \<le> uint x"
  shows "x AND push_bit (k - 1) 1 \<noteq> 0 \<longleftrightarrow> 2 ^ 64 - 2 ^ (k - 1) \<le> uint x"
proof -
  let ?y = "uint (NOT x)"
  have y: "0 \<le> ?y" "?y < 2 * 2 ^ (k - 1)"
    using high k uint64_less [of x] by (simp_all add: uint_not64 flip: power_Suc)
  have "x AND push_bit (k - 1) 1 \<noteq> 0 \<longleftrightarrow> bit x (k - 1)"
    by (metis and_exp_eq_0_iff_not_bit push_bit_of_1)
  also have "\<dots> \<longleftrightarrow> \<not> bit (NOT x) (k - 1)" using k by (auto simp: bit_simps)
  also have "\<dots> \<longleftrightarrow> even (?y div 2 ^ (k - 1))" by (simp add: bit_uint_odd)
  also have "\<dots> \<longleftrightarrow> ?y div 2 ^ (k - 1) = 0"
  proof -
    have "?y div 2 ^ (k - 1) < 2" using y(2) by (rule int_div_less) simp
    moreover have "0 \<le> ?y div 2 ^ (k - 1)" by (simp add: pos_imp_zdiv_nonneg_iff)
    moreover have "even q \<longleftrightarrow> q = 0" if "0 \<le> q" "q < 2" for q :: int using that by presburger
    ultimately show ?thesis by blast
  qed
  also have "\<dots> \<longleftrightarrow> ?y < 2 ^ (k - 1)" using y(1) by (auto simp: zdiv_eq_0_iff)
  also have "\<dots> \<longleftrightarrow> 2 ^ 64 - 2 ^ (k - 1) \<le> uint x" by (simp add: uint_not64) linarith
  finally show ?thesis .
qed

lemma half_check:
  fixes x :: u64
  assumes "0 < k" "k < 64"
  shows "(x AND push_bit k (-1)) XOR push_bit k (-1) = 0 \<and> x AND push_bit (k - 1) 1 \<noteq> 0
           \<longleftrightarrow> 2 ^ 64 - 2 ^ (k - 1) \<le> uint x"
proof -
  have "(2::int) ^ (k - 1) \<le> 2 ^ k" by simp
  then show ?thesis using sign_bit_set [OF assms, of x] high_bits_set [of x k] by linarith
qed

lemma sint_hval_if:
  "sint (hval h) = (if 2 ^ 63 \<le> uint (hi h) then (uint (hi h) - 2 ^ 64) * 2 ^ 64 + uint (lo h)
                    else uint (hi h) * 2 ^ 64 + uint (lo h))"
proof -
  have "bit (hval h) (LENGTH(128) - Suc 0) \<longleftrightarrow> 9223372036854775808 \<le> uint (hi h)"
    using bit_last_iff [of "hval h"] HUGESIGN_sint [of h] HUGESIGN_uint [of h] by argo
  then show ?thesis unfolding sint_uint_if uint_hval by simp
qed

lemma huge_range_high:
  fixes P Q H L :: int
  assumes "P = 2 * Q" "1 \<le> Q" "Q \<le> 2 ^ 62" "0 \<le> H" "H < 2 ^ 64" "0 \<le> L" "L < 2 ^ 64"
  shows "(H < P \<or> 2 ^ 64 - Q \<le> H) \<longleftrightarrow>
     (let v = (if 2 ^ 63 \<le> H then (H - 2 ^ 64) * 2 ^ 64 + L else H * 2 ^ 64 + L)
      in - (Q * 2 ^ 64) \<le> v \<and> v < P * 2 ^ 64)"
  using assms unfolding Let_def by (cases "2 ^ 63 \<le> H") (auto simp: algebra_simps)

lemma huge_chkrange_high:
  assumes "65 \<le> bits" "bits < 128"
  shows "huge_chkrange h bits
           = Some (- (2 ^ (nat bits - 1)) \<le> sint (hval h) \<and> sint (hval h) < 2 ^ nat bits)"
proof -
  define k where "k = nat (bits - 64)"
  have k: "0 < k" "k < 64" and bits: "bits = int k + 64" using assms by (auto simp: k_def)
  have m: "c_shl (-1 :: u64) (bits - 64) = Some (push_bit k (-1))"
    and s: "c_shl (1 :: u64) (bits - 64 - 1) = Some (push_bit (k - 1) 1)"
    using k by (simp_all add: bits c_shl_def nat_diff_distrib')
  have "(2::int) ^ k \<le> 2 ^ 63" using k by (intro power_increasing) simp_all
  then have excl: "\<not> (uint (hi h) < 2 ^ k \<and> 2 ^ 64 - 2 ^ k \<le> uint (hi h))" by simp
  have "huge_chkrange h bits
      = Some (uint (hi h) < 2 ^ k \<or> 2 ^ 64 - 2 ^ (k - 1) \<le> uint (hi h))"
  proof (cases "(hi h AND push_bit k (-1)) XOR push_bit k (-1) = 0")
    case True
    then have "\<not> uint (hi h) < 2 ^ k" using excl high_bits_set [of "hi h" k] by blast
    with True show ?thesis
      using half_check [OF k, of "hi h"] assms
      unfolding huge_chkrange_def m s Let_def by (simp only: if_True if_False Option.bind.simps simp_thms) auto
  next
    case False
    then show ?thesis
      using half_check [OF k, of "hi h"] and_high_mask_eq_0 [of "hi h" k] assms
      unfolding huge_chkrange_def m s Let_def by (simp only: if_True if_False Option.bind.simps simp_thms) auto
  qed
  moreover have "2 ^ nat bits = (2 ^ k * 2 ^ 64 :: int)" "2 ^ (nat bits - 1) = (2 ^ (k - 1) * 2 ^ 64 :: int)"
  proof -
    have n: "nat bits = k + 64" "nat bits - 1 = (k - 1) + 64" using k by (auto simp: bits)
    show "2 ^ nat bits = (2 ^ k * 2 ^ 64 :: int)" by (simp only: n(1) power_add)
    show "2 ^ (nat bits - 1) = (2 ^ (k - 1) * 2 ^ 64 :: int)" by (simp only: n(2) power_add)
  qed
  moreover have "(2::int) ^ k = 2 * 2 ^ (k - 1)" "(2::int) ^ (k - 1) \<le> 2 ^ 62"
    using k power_increasing [of "k - 1" 62 "2::int"] by (simp_all flip: power_Suc)
  ultimately show ?thesis
    using huge_range_high [of "2 ^ k" "2 ^ (k - 1)" "uint (hi h)" "uint (lo h)"]
      uint64_less [of "hi h"] uint64_less [of "lo h"]
    unfolding sint_hval_if by (simp add: Let_def)
qed

lemma huge_range_low:
  fixes P Q H L :: int
  assumes "P = 2 * Q" "1 \<le> Q" "Q \<le> 2 ^ 62" "0 \<le> H" "H < 2 ^ 64" "0 \<le> L" "L < 2 ^ 64"
  shows "(H = 0 \<and> L < P \<or> H = 2 ^ 64 - 1 \<and> 2 ^ 64 - Q \<le> L) \<longleftrightarrow>
     (let v = (if 2 ^ 63 \<le> H then (H - 2 ^ 64) * 2 ^ 64 + L else H * 2 ^ 64 + L)
      in - Q \<le> v \<and> v < P)"
proof -
  consider "H = 0" | "1 \<le> H" "H < 2 ^ 63" | "2 ^ 63 \<le> H" "H \<le> 2 ^ 64 - 2" | "H = 2 ^ 64 - 1"
    using assms by linarith
  then show ?thesis using assms unfolding Let_def by cases auto
qed

lemma huge_chkrange_low:
  assumes "1 \<le> bits" "bits < 64"
  shows "huge_chkrange h bits
           = Some (- (2 ^ (nat bits - 1)) \<le> sint (hval h) \<and> sint (hval h) < 2 ^ nat bits)"
proof -
  define k where "k = nat bits"
  have k: "0 < k" "k < 64" and bits: "bits = int k" using assms by (auto simp: k_def)
  have m: "c_shl (-1 :: u64) bits = Some (push_bit k (-1))"
    and s: "c_shl (1 :: u64) (bits - 1) = Some (push_bit (k - 1) 1)"
    using k by (simp_all add: bits c_shl_def nat_diff_distrib')
  have hi1: "hi h = -1 \<longleftrightarrow> uint (hi h) = 2 ^ 64 - 1"
    by (simp add: word_uint_eq_iff unsigned_minus_1_eq_mask mask_eq_exp_minus_1)
  have hi0: "hi h = 0 \<longleftrightarrow> uint (hi h) = 0" by (simp add: word_uint_eq_iff)
  have "huge_chkrange h bits
      = Some (uint (hi h) = 0 \<and> uint (lo h) < 2 ^ k
              \<or> uint (hi h) = 2 ^ 64 - 1 \<and> 2 ^ 64 - 2 ^ (k - 1) \<le> uint (lo h))"
  proof (cases "hi h = -1 \<and> (lo h AND push_bit k (-1)) XOR push_bit k (-1) = 0")
    case True
    then show ?thesis
      using half_check [OF k, of "lo h"] assms hi1 hi0
      unfolding huge_chkrange_def m s Let_def by (simp only: if_True if_False Option.bind.simps simp_thms) auto
  next
    case False
    then show ?thesis
      using half_check [OF k, of "lo h"] and_high_mask_eq_0 [of "lo h" k] assms hi1 hi0
      unfolding huge_chkrange_def m s Let_def by (simp only: if_True if_False Option.bind.simps simp_thms) auto
  qed
  moreover have "(2::int) ^ k = 2 * 2 ^ (k - 1)" "(2::int) ^ (k - 1) \<le> 2 ^ 62"
    using k power_increasing [of "k - 1" 62 "2::int"] by (simp_all flip: power_Suc)
  ultimately show ?thesis
    using huge_range_low [of "2 ^ k" "2 ^ (k - 1)" "uint (hi h)" "uint (lo h)"]
      uint64_less [of "hi h"] uint64_less [of "lo h"]
    unfolding sint_hval_if by (simp add: bits Let_def)
qed

end
