(* ===== verification/Asmstate.thy ===== *)
theory Asmstate
  imports Hugemem
begin

text \<open>
  The data the core of the assembler works on: expressions (\<open>src/expr.h\<close>), symbols
  (\<open>src/symbol.h\<close>), sections (\<open>src/vasm.h\<close>), and the state of the assembler with the stores
  of symbols and sections. Pointers to symbols and sections are indices into the stores.
  Operations on the state return the changed state with their result, or how they end the
  program; the numbers of the reported non-fatal \<open>general_error\<close> messages are collected in
  \<open>msgs\<close>.
\<close>

section \<open>Expressions\<close>

type_synonym taddr = u32
type_synonym symid = nat
type_synonym secid = nat

datatype unop = NEG | CPL | NOT'

datatype binop = ADD | SUB | MUL | DIV | MOD | LAND | LOR | BAND | BOR | XOR' | LSH | RSH | RSHU
  | LT | GT | LEQ | GEQ | NEQ | EQ

datatype expr = NUM taddr | HUG thuge | SYM symid | UNOP unop expr | BINOP binop expr expr

section \<open>Symbols and sections\<close>

datatype symtype = LABSYM | IMPORT | EXPRESSION

record symbol =
  sym_type :: symtype
  sym_flags :: u32
  sym_name :: string
  sym_expr :: "expr option"
  sym_size :: "expr option"
  sym_sec :: "secid option"
  sym_pc :: taddr
  sym_align :: taddr

definition EXPORT :: u32 where "EXPORT = 8"
definition INEVAL :: u32 where "INEVAL = 16"
definition COMMON :: u32 where "COMMON = 32"
definition WEAK :: u32 where "WEAK = 64"
definition VASMINTERN :: u32 where "VASMINTERN = 256"
definition PROTECTED :: u32 where "PROTECTED = 512"
definition REFERENCED :: u32 where "REFERENCED = 1024"
definition ABSLABEL :: u32 where "ABSLABEL = 2048"
definition EQUATE :: u32 where "EQUATE = 4096"
definition USED :: u32 where "USED = 16384"
definition XDEF :: u32 where "XDEF = 65536"
definition XREF :: u32 where "XREF = 131072"

lemmas symflag_defs = EXPORT_def INEVAL_def COMMON_def WEAK_def VASMINTERN_def PROTECTED_def
  REFERENCED_def ABSLABEL_def EQUATE_def USED_def XDEF_def XREF_def

definition sym_has :: "symbol \<Rightarrow> u32 \<Rightarrow> bool" where
  "sym_has y f \<longleftrightarrow> sym_flags y AND f \<noteq> 0"

definition LOCREF :: "symbol \<Rightarrow> bool" where
  "LOCREF y \<longleftrightarrow> sym_type y = LABSYM \<and> \<not> sym_has y WEAK"

definition EXTREF :: "symbol \<Rightarrow> bool" where
  "EXTREF y \<longleftrightarrow> sym_type y = IMPORT \<or> sym_has y WEAK"

record sect =
  sec_name :: string
  sec_attr :: string
  sec_align :: taddr
  sec_pad :: "u8 list"
  sec_padbytes :: int
  sec_flags :: u32
  sec_memattr :: taddr
  sec_org :: taddr
  sec_pc :: taddr
  sec_rorg_pc :: taddr
  sec_saved_pc :: taddr
  sec_idx :: nat
  sec_deps :: "nat list"

definition HAS_SYMBOLS :: u32 where "HAS_SYMBOLS = 1"
definition RESOLVE_WARN :: u32 where "RESOLVE_WARN = 2"
definition UNALLOCATED :: u32 where "UNALLOCATED = 4"
definition LABELS_ARE_LOCAL :: u32 where "LABELS_ARE_LOCAL = 8"
definition ABSOLUTE :: u32 where "ABSOLUTE = 16"
definition PREVABS :: u32 where "PREVABS = 32"
definition IN_RORG :: u32 where "IN_RORG = 64"

lemmas secflag_defs = HAS_SYMBOLS_def RESOLVE_WARN_def UNALLOCATED_def LABELS_ARE_LOCAL_def
  ABSOLUTE_def PREVABS_def IN_RORG_def

definition sec_has :: "sect \<Rightarrow> u32 \<Rightarrow> bool" where
  "sec_has c f \<longleftrightarrow> sec_flags c AND f \<noteq> 0"

section \<open>The state\<close>

text \<open>\<open>cpc\<close> is the dummy symbol that stands for the current pc in expressions.\<close>

record asm =
  syms :: "symbol list"
  secs :: "sect list"
  cpc :: "symid option"
  final_pass :: bool
  num_secs :: nat
  bytespertaddr :: nat
  msgs :: "nat list"

abbreviation sym :: "asm \<Rightarrow> symid \<Rightarrow> symbol" where
  "sym s y \<equiv> syms s ! y"

abbreviation sec :: "asm \<Rightarrow> secid \<Rightarrow> sect" where
  "sec s c \<equiv> secs s ! c"

definition upd_sym :: "symid \<Rightarrow> (symbol \<Rightarrow> symbol) \<Rightarrow> asm \<Rightarrow> asm" where
  "upd_sym y f s = s\<lparr>syms := (syms s)[y := f (sym s y)]\<rparr>"

definition upd_sec :: "secid \<Rightarrow> (sect \<Rightarrow> sect) \<Rightarrow> asm \<Rightarrow> asm" where
  "upd_sec c f s = s\<lparr>secs := (secs s)[c := f (sec s c)]\<rparr>"

definition set_flag :: "u32 \<Rightarrow> symbol \<Rightarrow> symbol" where
  "set_flag f y = y\<lparr>sym_flags := sym_flags y OR f\<rparr>"

definition clear_flag :: "u32 \<Rightarrow> symbol \<Rightarrow> symbol" where
  "clear_flag f y = y\<lparr>sym_flags := sym_flags y AND NOT f\<rparr>"

definition set_sec_flag :: "u32 \<Rightarrow> sect \<Rightarrow> sect" where
  "set_sec_flag f c = c\<lparr>sec_flags := sec_flags c OR f\<rparr>"

definition clear_sec_flag :: "u32 \<Rightarrow> sect \<Rightarrow> sect" where
  "clear_sec_flag f c = c\<lparr>sec_flags := sec_flags c AND NOT f\<rparr>"

definition general_error :: "nat \<Rightarrow> asm \<Rightarrow> asm" where
  "general_error n s = s\<lparr>msgs := msgs s @ [n]\<rparr>"

definition taddrmask :: "asm \<Rightarrow> u64" where
  "taddrmask s = (if 8 \<le> bytespertaddr s then -1 else push_bit (8 * bytespertaddr s) 1 - 1)"

text \<open>\<open>ULLTADDR(x)\<close>: the signed \<open>taddr\<close> is extended to 64 bits before it is masked.\<close>

definition ULLTADDR :: "asm \<Rightarrow> taddr \<Rightarrow> u64" where
  "ULLTADDR s x = scast x AND taddrmask s"

definition taddrmin :: taddr where "taddrmin = 0x80000000"

section \<open>Operations on the state that may end early\<close>

text \<open>A step works on a state of any type; an action is a step on the state above.\<close>

type_synonym ('s, 'a) step = "'s \<Rightarrow> stop + 's \<times> 'a"
type_synonym 'a action = "(asm, 'a) step"

definition return :: "'a \<Rightarrow> ('s, 'a) step" where
  "return x s = Inr (s, x)"

definition bind_st :: "('s, 'a) step \<Rightarrow> ('a \<Rightarrow> ('s, 'b) step) \<Rightarrow> ('s, 'b) step" where
  "bind_st m f s = (case m s of Inl e \<Rightarrow> Inl e | Inr (s', x) \<Rightarrow> f x s')"

definition fail :: "stop \<Rightarrow> ('s, 'a) step" where
  "fail e s = Inl e"

definition get :: "('s, 's) step" where
  "get s = Inr (s, s)"

definition modify :: "('s \<Rightarrow> 's) \<Rightarrow> ('s, unit) step" where
  "modify f s = Inr (f s, ())"

lemmas action_defs = return_def bind_st_def fail_def get_def modify_def

lemma bind_st_Inr:
  "bind_st m f s = Inr (s2, y) \<longleftrightarrow> (\<exists>s1 x. m s = Inr (s1, x) \<and> f x s1 = Inr (s2, y))"
  by (auto simp: bind_st_def split: sum.splits prod.splits)

lemma return_Inr: "return x s = Inr (s', y) \<longleftrightarrow> s' = s \<and> y = x"
  by (auto simp: return_def)

lemma fail_Inr [simp]: "fail e s \<noteq> Inr r"
  by (simp add: fail_def)

lemma get_Inr: "get s = Inr (s', y) \<longleftrightarrow> s' = s \<and> y = s"
  by (auto simp: get_def)

lemma modify_Inr: "modify f s = Inr (s', y) \<longleftrightarrow> s' = f s"
  by (auto simp: modify_def)

lemmas action_Inr = bind_st_Inr return_Inr get_Inr modify_Inr

lemma upd_sym_simps [simp]:
  "secs (upd_sym y f s) = secs s" "cpc (upd_sym y f s) = cpc s" "final_pass (upd_sym y f s) = final_pass s"
  "num_secs (upd_sym y f s) = num_secs s" "bytespertaddr (upd_sym y f s) = bytespertaddr s"
  "msgs (upd_sym y f s) = msgs s" "syms (upd_sym y f s) = (syms s)[y := f (sym s y)]"
  by (simp_all add: upd_sym_def)

lemma upd_sec_simps [simp]:
  "syms (upd_sec y f s) = syms s" "cpc (upd_sec y f s) = cpc s" "final_pass (upd_sec y f s) = final_pass s"
  "num_secs (upd_sec y f s) = num_secs s" "bytespertaddr (upd_sec y f s) = bytespertaddr s"
  "msgs (upd_sec y f s) = msgs s" "secs (upd_sec y f s) = (secs s)[y := f (sec s y)]"
  by (simp_all add: upd_sec_def)

lemma general_error_simps [simp]:
  "syms (general_error n s) = syms s" "secs (general_error n s) = secs s" "cpc (general_error n s) = cpc s"
  "final_pass (general_error n s) = final_pass s" "num_secs (general_error n s) = num_secs s"
  "bytespertaddr (general_error n s) = bytespertaddr s" "msgs (general_error n s) = msgs s @ [n]"
  by (simp_all add: general_error_def)

lemma upd_sym_beyond: "length (syms s) \<le> y \<Longrightarrow> upd_sym y f s = s"
  by (cases s) (simp add: upd_sym_def list_update_beyond)

section \<open>What an action returns\<close>

text \<open>Every result of an action has a property, whatever the state.\<close>

definition gives :: "('a \<Rightarrow> bool) \<Rightarrow> ('s, 'a) step \<Rightarrow> bool" where
  "gives P m \<longleftrightarrow> (\<forall>s s' x. m s = Inr (s', x) \<longrightarrow> P x)"

lemma givesD: "gives P m \<Longrightarrow> m s = Inr (s', x) \<Longrightarrow> P x"
  unfolding gives_def by blast

lemma gives_return: "P x \<Longrightarrow> gives P (return x)"
  by (simp add: gives_def return_Inr)

lemma gives_fail: "gives P (fail e)"
  by (simp add: gives_def)

lemma gives_any: "gives (\<lambda>_. True) m"
  by (simp add: gives_def)

lemma gives_bind:
  assumes "gives Q m" and "\<And>x. Q x \<Longrightarrow> gives P (f x)"
  shows "gives P (bind_st m f)"
  unfolding gives_def
proof (intro allI impI)
  fix s s' y assume "bind_st m f s = Inr (s', y)"
  then obtain s1 x where "m s = Inr (s1, x)" "f x s1 = Inr (s', y)" by (auto simp: bind_st_Inr)
  then show "P y" using assms by (metis givesD)
qed

lemma gives_if: "gives P m \<Longrightarrow> gives P n \<Longrightarrow> gives P (if b then m else n)"
  by simp

lemma gives_prod: "(\<And>a b. x = (a, b) \<Longrightarrow> gives P (h a b)) \<Longrightarrow> gives P (case x of (a, b) \<Rightarrow> h a b)"
  by (cases x) simp

lemma gives_after: "(\<And>x. gives P (f x)) \<Longrightarrow> gives P (bind_st m f)"
  by (rule gives_bind [OF gives_any])

lemma gives_split: "(\<And>a b. gives P (h a b)) \<Longrightarrow> gives P (case x of (a, b) \<Rightarrow> h a b)"
  by (cases x) simp

end
