(* ===== verification/Expr.thy ===== *)
theory Expr
  imports Asmstate
begin

text \<open>
  The evaluation half of \<open>src/expr.c\<close>, for the configuration without floating point: the
  simplification of parsed expressions, their evaluation as target addresses and as 128-bit
  integers, the search for the symbol an expression is based on. Operator semantics is shared:
  \<open>num_op\<close> and \<open>huge_op\<close> give the value and the number of the message reported, if any; \<open>None\<close>
  is undefined behaviour, a shift by a negative count.

  A dereferenced equate costs one unit of the fuel \<open>n\<close>; the wrappers start with one more than
  there are symbols.
\<close>

section \<open>Operators\<close>

text \<open>\<open>BOOLEAN(x)\<close> of the oldstyle syntax: true is -1.\<close>

definition BOOLEAN :: "bool \<Rightarrow> taddr" where
  "BOOLEAN b = (if b then - 1 else 0)"

definition lshift :: "taddr \<Rightarrow> int \<Rightarrow> taddr option" where
  "lshift val sh = (if 32 \<le> sh then Some 0 else c_shl val sh)"

definition rshift :: "taddr \<Rightarrow> int \<Rightarrow> taddr option" where
  "rshift val sh = (if 32 \<le> sh then Some (if val <s 0 then - 1 else 0) else c_sar val sh)"

definition urshift :: "taddr \<Rightarrow> int \<Rightarrow> taddr option" where
  "urshift val sh = (if 32 \<le> sh then Some 0 else c_shr val sh)"

fun unop_val :: "unop \<Rightarrow> taddr \<Rightarrow> taddr" where
  "unop_val NEG l = - l"
| "unop_val CPL l = NOT l"
| "unop_val NOT' l = BOOLEAN (l = 0)"

fun num_op :: "binop \<Rightarrow> taddr \<Rightarrow> taddr \<Rightarrow> (taddr \<times> nat list) option" where
  "num_op ADD l r = Some (l + r, [])"
| "num_op SUB l r = Some (l - r, [])"
| "num_op MUL l r = Some (l * r, [])"
| "num_op DIV l r =
     (if r = 0 then Some (0, [41])
      else if l = taddrmin \<and> r = - 1 then Some (taddrmin, [21])
      else Some (word_of_int (sint l sdiv sint r), []))"
| "num_op MOD l r =
     (if r = 0 then Some (0, [41])
      else if l = taddrmin \<and> r = - 1 then Some (taddrmin, [21])
      else Some (word_of_int (sint l smod sint r), []))"
| "num_op LAND l r = Some (BOOLEAN (l \<noteq> 0 \<and> r \<noteq> 0), [])"
| "num_op LOR l r = Some (BOOLEAN (l \<noteq> 0 \<or> r \<noteq> 0), [])"
| "num_op BAND l r = Some (l AND r, [])"
| "num_op BOR l r = Some (l OR r, [])"
| "num_op XOR' l r = Some (l XOR r, [])"
| "num_op LSH l r = map_option (\<lambda>v. (v, [])) (lshift l (sint r))"
| "num_op RSH l r = map_option (\<lambda>v. (v, [])) (rshift l (sint r))"
| "num_op RSHU l r = map_option (\<lambda>v. (v, [])) (urshift l (sint r))"
| "num_op LT l r = Some (BOOLEAN (l <s r), [])"
| "num_op GT l r = Some (BOOLEAN (r <s l), [])"
| "num_op LEQ l r = Some (BOOLEAN (l \<le>s r), [])"
| "num_op GEQ l r = Some (BOOLEAN (r \<le>s l), [])"
| "num_op NEQ l r = Some (BOOLEAN (l \<noteq> r), [])"
| "num_op EQ l r = Some (BOOLEAN (l = r), [])"

text \<open>A \<open>taddr\<close> as the 64-bit operand of \<open>huge_from_int\<close>, and a shift count passed as \<open>int\<close>.\<close>

definition huge_of_taddr :: "taddr \<Rightarrow> thuge" where
  "huge_of_taddr v = huge_from_int (scast v)"

definition huge_count :: "thuge \<Rightarrow> int" where
  "huge_count h = sint (ucast (huge_to_int h) :: 32 word)"

text \<open>The result of an operation on 128-bit integers, or a truth value.\<close>

datatype hres = Hug thuge | Truth bool

fun huge_unop :: "unop \<Rightarrow> thuge \<Rightarrow> hres" where
  "huge_unop NEG l = Hug (hneg l)"
| "huge_unop CPL l = Hug (hcpl l)"
| "huge_unop NOT' l = Truth (hcmp l huge_zero = 0)"

definition hdiv_guarded :: "(thuge \<Rightarrow> thuge \<Rightarrow> stop + thuge) \<Rightarrow> thuge \<Rightarrow> thuge \<Rightarrow> stop + (hres \<times> nat list)" where
  "hdiv_guarded f l r =
     (if hcmp r huge_zero = 0 then Inr (Hug huge_zero, [41])
      else case f l r of Inl e \<Rightarrow> Inl e | Inr q \<Rightarrow> Inr (Hug q, []))"

definition huge_shift :: "(thuge \<Rightarrow> int \<Rightarrow> thuge option) \<Rightarrow> thuge \<Rightarrow> thuge \<Rightarrow> stop + (hres \<times> nat list)" where
  "huge_shift f l r = (case f l (huge_count r) of None \<Rightarrow> Inl Undefined | Some h \<Rightarrow> Inr (Hug h, []))"

fun huge_op :: "binop \<Rightarrow> thuge \<Rightarrow> thuge \<Rightarrow> stop + (hres \<times> nat list)" where
  "huge_op ADD l r = Inr (Hug (hadd l r), [])"
| "huge_op SUB l r = Inr (Hug (hsub l r), [])"
| "huge_op MUL l r = Inr (Hug (hmul l r), [])"
| "huge_op DIV l r = hdiv_guarded hdiv l r"
| "huge_op MOD l r = hdiv_guarded hmod l r"
| "huge_op LAND l r = Inr (Truth (hcmp l huge_zero \<noteq> 0 \<and> hcmp r huge_zero \<noteq> 0), [])"
| "huge_op LOR l r = Inr (Truth (hcmp l huge_zero \<noteq> 0 \<or> hcmp r huge_zero \<noteq> 0), [])"
| "huge_op BAND l r = Inr (Hug (hand l r), [])"
| "huge_op BOR l r = Inr (Hug (hor l r), [])"
| "huge_op XOR' l r = Inr (Hug (hxor l r), [])"
| "huge_op LSH l r = huge_shift hshl l r"
| "huge_op RSH l r = huge_shift hshra l r"
| "huge_op RSHU l r = huge_shift hshr l r"
| "huge_op LT l r = Inr (Truth (hcmp l r < 0), [])"
| "huge_op GT l r = Inr (Truth (hcmp l r > 0), [])"
| "huge_op LEQ l r = Inr (Truth (hcmp l r \<le> 0), [])"
| "huge_op GEQ l r = Inr (Truth (hcmp l r \<ge> 0), [])"
| "huge_op NEQ l r = Inr (Truth (hcmp l r \<noteq> 0), [])"
| "huge_op EQ l r = Inr (Truth (hcmp l r = 0), [])"

section \<open>Simplification\<close>

definition log_all :: "nat list \<Rightarrow> asm \<Rightarrow> asm" where
  "log_all ns s = s\<lparr>msgs := msgs s @ ns\<rparr>"

text \<open>Constants of the types below \<open>SYM\<close>.\<close>

fun is_const :: "expr \<Rightarrow> bool" where
  "is_const (NUM v) = True"
| "is_const (HUG h) = True"
| "is_const _ = False"

fun const_huge :: "expr \<Rightarrow> thuge" where
  "const_huge (NUM v) = huge_of_taddr v"
| "const_huge (HUG h) = h"
| "const_huge _ = huge_zero"

text \<open>The node the result is stored in: a huge value that fits into a \<open>taddr\<close> becomes a number.\<close>

definition huge_node :: "thuge \<Rightarrow> expr" where
  "huge_node h = (if huge_chkrange h 32 = Some True then NUM (ucast (huge_to_int h)) else HUG h)"

definition hres_node :: "hres \<Rightarrow> expr" where
  "hres_node r = (case r of Hug h \<Rightarrow> huge_node h | Truth b \<Rightarrow> NUM (BOOLEAN b))"

text \<open>The rearrangement of \<open>(a - b) - c\<close> with symbols \<open>b\<close> and \<open>c\<close>.\<close>

fun rearrange :: "expr \<Rightarrow> expr" where
  "rearrange (BINOP SUB (BINOP SUB a (SYM b)) (SYM c)) =
     (if (case a of SYM _ \<Rightarrow> False | _ \<Rightarrow> True) then BINOP SUB a (BINOP SUB (SYM b) (SYM c))
      else BINOP SUB (BINOP SUB a (SYM b)) (SYM c))"
| "rearrange e = e"

text \<open>The folding of a node whose operands are constants; messages come with the result.\<close>

fun fold_un :: "unop \<Rightarrow> expr \<Rightarrow> expr" where
  "fold_un f (NUM v) = NUM (unop_val f v)"
| "fold_un f (HUG h) = hres_node (huge_unop f h)"
| "fold_un f e = UNOP f e"

fun fold_bin :: "binop \<Rightarrow> expr \<Rightarrow> expr \<Rightarrow> stop + (expr \<times> nat list)" where
  "fold_bin f (NUM l) (NUM r) =
     (case num_op f l r of None \<Rightarrow> Inl Undefined | Some (v, ms) \<Rightarrow> Inr (NUM v, ms))"
| "fold_bin f l r =
     (if is_const l \<and> is_const r then
        (case huge_op f (const_huge l) (const_huge r) of
           Inl e \<Rightarrow> Inl e | Inr (h, ms) \<Rightarrow> Inr (hres_node h, ms))
      else Inr (BINOP f l r, []))"

definition fold_node :: "expr \<Rightarrow> expr action" where
  "fold_node e = (case e of
      UNOP f l \<Rightarrow> return (fold_un f l)
    | BINOP f l r \<Rightarrow> (case fold_bin f l r of
          Inl x \<Rightarrow> fail x
        | Inr (e', ms) \<Rightarrow> bind_st (modify (log_all ms)) (\<lambda>_. return e'))
    | _ \<Rightarrow> return e)"

text \<open>
  An equate whose expression is a number is replaced by it. A huge number held by an equate
  passes the same range check as a computed one.
\<close>

fun simplify_expr :: "expr \<Rightarrow> expr action" where
  "simplify_expr (NUM v) = return (NUM v)"
| "simplify_expr (HUG h) = return (HUG h)"
| "simplify_expr (SYM y) =
     bind_st get (\<lambda>s.
       if sym_type (sym s y) = EXPRESSION then
         (case sym_expr (sym s y) of
            Some (NUM v) \<Rightarrow> return (NUM v)
          | Some (HUG h) \<Rightarrow> return (huge_node h)
          | Some _ \<Rightarrow> return (SYM y)
          | None \<Rightarrow> fail Undefined)
       else return (SYM y))"
| "simplify_expr (UNOP f l) = bind_st (simplify_expr l) (\<lambda>l'. fold_node (UNOP f l'))"
| "simplify_expr (BINOP f l r) =
     bind_st (simplify_expr l) (\<lambda>l'. bind_st (simplify_expr r) (\<lambda>r'. fold_node (rearrange (BINOP f l' r'))))"

section \<open>Evaluation\<close>

definition update_curpc :: "symid \<Rightarrow> secid option \<Rightarrow> taddr \<Rightarrow> asm \<Rightarrow> asm" where
  "update_curpc y c pc s =
     (case c of
        Some k \<Rightarrow>
          (if cpc s = Some y then
             upd_sym y (\<lambda>x. (if sec_has (sec s k) ABSOLUTE then set_flag ABSLABEL else clear_flag ABSLABEL)
                 (x\<lparr>sym_sec := Some k, sym_pc := pc\<rparr>)) s
           else s)
      | None \<Rightarrow> s)"

text \<open>The section \<open>dest\<close> is the one the label lies in; without one the code would follow a NULL pointer.\<close>

definition add_dep :: "secid option \<Rightarrow> secid option \<Rightarrow> unit action" where
  "add_dep src dest =
     bind_st get (\<lambda>s.
       if num_secs s \<noteq> 0 \<and> src \<noteq> None \<and> src \<noteq> dest then
         (case (src, dest) of
            (Some i, Some d) \<Rightarrow> modify (upd_sec d (\<lambda>c. c\<lparr>sec_deps := List.insert (sec_idx (sec s i)) (sec_deps c)\<rparr>))
          | _ \<Rightarrow> fail Undefined)
       else return ())"

definition final_errors :: "nat list \<Rightarrow> unit action" where
  "final_errors ms = modify (\<lambda>s. if final_pass s then log_all ms s else s)"

text \<open>The value of a symbol that is not an equate: a label, or an imported symbol.\<close>

definition eval_label :: "symid \<Rightarrow> secid option \<Rightarrow> taddr \<Rightarrow> (taddr \<times> bool) action" where
  "eval_label y c pc =
     bind_st get (\<lambda>s.
       if LOCREF (sym s y) then
         bind_st (modify (update_curpc y c pc)) (\<lambda>_. bind_st get (\<lambda>s.
           let x = sym s y;
               cnst = (case sym_sec x of None \<Rightarrow> False | Some k \<Rightarrow> sec_has (sec s k) UNALLOCATED)
                      \<or> sym_has x ABSLABEL
           in if cnst then bind_st (add_dep c (sym_sec x)) (\<lambda>_. return (sym_pc x, cnst))
              else return (sym_pc x, cnst)))
       else return (0, False))"

definition eval_huge_const :: "thuge \<Rightarrow> (taddr \<times> bool) action" where
  "eval_huge_const h =
     bind_st get (\<lambda>s.
       bind_st
         (if final_pass s then
            (case huge_chkrange h (8 * int (bytespertaddr s)) of
               None \<Rightarrow> fail Undefined
             | Some ok \<Rightarrow> if ok then return () else modify (general_error 21))
          else return ())
         (\<lambda>_. return (ucast (huge_to_int h), True)))"

text \<open>What \<open>find_base\<close> returns, with the symbol stored through \<open>base\<close>.\<close>

datatype base = BASE_ILLEGAL | BASE_OK | BASE_PCREL

definition sec_org_of :: "asm \<Rightarrow> symbol \<Rightarrow> taddr" where
  "sec_org_of s y = (case sym_sec y of None \<Rightarrow> 0 | Some k \<Rightarrow> sec_org (sec s k))"

text \<open>The difference \<open>lval - rval\<close> when not both operands are constant and the right one has a local base.\<close>

definition diff_based ::
  "taddr \<Rightarrow> taddr \<Rightarrow> base \<times> symid option \<Rightarrow> symid \<Rightarrow> secid option \<Rightarrow> taddr \<Rightarrow> (taddr \<times> bool) action" where
  "diff_based lval rval lb rsym c pc =
     bind_st get (\<lambda>s.
       let R = sym s rsym;
           lbok = (fst lb = BASE_OK \<and> snd lb \<noteq> None);
           L = sym s (the (snd lb))
       in if lbok \<and> LOCREF L \<and> sym_sec L = sym_sec R then
            bind_st (add_dep c (sym_sec L)) (\<lambda>_. return (lval - rval, True))
          else if lbok \<and> sym_sec R = c \<and> (EXTREF L \<or> LOCREF L) then
            (if sym_has R ABSLABEL \<and> sym_has L ABSLABEL then
               bind_st (add_dep c (sym_sec L)) (\<lambda>_. bind_st (add_dep c (sym_sec R)) (\<lambda>_.
                 return (lval - rval, True)))
             else return (pc - rval + lval - sec_org_of s L, False))
          else if \<not> lbok \<and> sym_has R ABSLABEL then
            bind_st (add_dep c (sym_sec R)) (\<lambda>_. return (lval - rval, True))
          else return (lval - rval, False))"

text \<open>The second operand of \<open>&&\<close>: the base is searched only when the other side is constant.\<close>

definition try_base :: "bool \<Rightarrow> (base \<times> symid option) action \<Rightarrow> (base \<times> symid option) action" where
  "try_base k m = (if k then m else return (BASE_ILLEGAL, None))"

text \<open>A first try that ends the search when it finds a base, and what is done otherwise.\<close>

definition or_else ::
  "(base \<times> symid option) action \<Rightarrow> (base \<times> symid option \<Rightarrow> (base \<times> symid option) action) \<Rightarrow> (base \<times> symid option) action"
where
  "or_else m f = bind_st m (\<lambda>b. if fst b = BASE_OK then return b else f b)"

text \<open>The left base is known; the right one decides whether the difference is pc-relative.\<close>

definition pcrel_base :: "secid option \<Rightarrow> symid option \<Rightarrow> base \<times> symid option \<Rightarrow> (base \<times> symid option) action" where
  "pcrel_base c b rb =
     bind_st get (\<lambda>s.
       case (rb, b) of
         ((BASE_OK, Some p), Some b) \<Rightarrow>
           (if LOCREF (sym s p) \<and> sym_sec (sym s p) = c \<and> (LOCREF (sym s b) \<or> EXTREF (sym s b))
            then return (BASE_PCREL, Some b) else return (BASE_ILLEGAL, Some b))
       | _ \<Rightarrow> return (BASE_ILLEGAL, b))"

text \<open>
  \<open>eval\<close> is \<open>eval_expr\<close> and \<open>findb\<close> is \<open>_find_base\<close>. The value is paired with the return value
  of the code, whether it is constant.
\<close>

function (sequential)
  eval :: "nat \<Rightarrow> expr \<Rightarrow> secid option \<Rightarrow> taddr \<Rightarrow> (taddr \<times> bool) action" and
  findb :: "nat \<Rightarrow> expr \<Rightarrow> secid option \<Rightarrow> taddr \<Rightarrow> (base \<times> symid option) action"
where
  "eval n (NUM v) c pc = return (v, True)"
| "eval n (HUG h) c pc = eval_huge_const h"
| "eval n (UNOP f l) c pc = bind_st (eval n l c pc) (\<lambda>(lval, k). return (unop_val f lval, k))"
| "eval n (BINOP f l r) c pc =
     bind_st (eval n l c pc) (\<lambda>(lval, kl). bind_st (eval n r c pc) (\<lambda>(rval, kr).
       if f = SUB \<and> \<not> (kl \<and> kr) then
         bind_st (findb n r c pc) (\<lambda>rb. bind_st get (\<lambda>s.
           case rb of
             (BASE_OK, Some rsym) \<Rightarrow>
               (if LOCREF (sym s rsym) then
                  bind_st (findb n l c pc) (\<lambda>lb. diff_based lval rval lb rsym c pc)
                else return (lval - rval, False))
           | _ \<Rightarrow> return (lval - rval, False)))
       else (case num_op f lval rval of
               None \<Rightarrow> fail Undefined
             | Some (v, ms) \<Rightarrow> bind_st (final_errors ms) (\<lambda>_. return (v, kl \<and> kr)))))"
| "eval 0 (SYM y) c pc =
     bind_st get (\<lambda>s.
       if sym_type (sym s y) = EXPRESSION then
         (if sym_has (sym s y) INEVAL then fail (Fatal_error 18) else fail Runaway)
       else eval_label y c pc)"
| "eval (Suc n) (SYM y) c pc =
     bind_st get (\<lambda>s.
       if sym_type (sym s y) = EXPRESSION then
         (if sym_has (sym s y) INEVAL then fail (Fatal_error 18)
          else case sym_expr (sym s y) of
            None \<Rightarrow> fail Ierror
          | Some e \<Rightarrow>
              bind_st (modify (upd_sym y (set_flag INEVAL))) (\<lambda>_.
              bind_st (eval n e c pc) (\<lambda>r.
              bind_st (modify (upd_sym y (clear_flag INEVAL))) (\<lambda>_. return r))))
       else eval_label y c pc)"
| "findb 0 (SYM y) c pc =
     bind_st (modify (update_curpc y c pc)) (\<lambda>_. bind_st get (\<lambda>s.
       if sym_type (sym s y) = EXPRESSION then fail Runaway else return (BASE_OK, Some y)))"
| "findb (Suc n) (SYM y) c pc =
     bind_st (modify (update_curpc y c pc)) (\<lambda>_. bind_st get (\<lambda>s.
       if sym_type (sym s y) = EXPRESSION then
         (case sym_expr (sym s y) of None \<Rightarrow> fail Undefined | Some e \<Rightarrow> findb n e c pc)
       else return (BASE_OK, Some y)))"
| "findb n (BINOP ADD l r) c pc =
     bind_st (eval n l c pc) (\<lambda>(_, kl).
     or_else (try_base kl (findb n r c pc)) (\<lambda>rb.
     bind_st (eval n r c pc) (\<lambda>(_, kr).
     or_else (try_base kr (findb n l c pc)) (\<lambda>lb.
     return (BASE_ILLEGAL, if snd lb = None then snd rb else snd lb)))))"
| "findb n (BINOP SUB l r) c pc =
     bind_st (eval n r c pc) (\<lambda>(_, kr).
     or_else (try_base kr (findb n l c pc)) (\<lambda>_.
     bind_st (findb n l c pc) (\<lambda>lb.
       if fst lb = BASE_OK then bind_st (findb n r c pc) (pcrel_base c (snd lb))
       else return (BASE_ILLEGAL, snd lb))))"
| "findb n _ c pc = return (BASE_ILLEGAL, None)"
  by pat_completeness auto
termination
  by (relation "measures [\<lambda>x. case x of Inl (n, e, _) \<Rightarrow> n | Inr (n, e, _) \<Rightarrow> n,
      \<lambda>x. case x of Inl (n, e, _) \<Rightarrow> size e | Inr (n, e, _) \<Rightarrow> size e]") auto

definition fuel :: "asm \<Rightarrow> nat" where
  "fuel s = length (syms s) + 1"

definition eval_expr :: "expr \<Rightarrow> secid option \<Rightarrow> taddr \<Rightarrow> (taddr \<times> bool) action" where
  "eval_expr e c pc s = eval (fuel s) e c pc s"

definition find_base :: "expr \<Rightarrow> secid option \<Rightarrow> taddr \<Rightarrow> (base \<times> symid option) action" where
  "find_base e c pc s = findb (fuel s) e c pc s"

text \<open>The evaluation as a 128-bit integer; \<open>None\<close> is the return value 0.\<close>

definition hres_huge :: "hres \<Rightarrow> thuge" where
  "hres_huge r = (case r of Hug h \<Rightarrow> h | Truth b \<Rightarrow> huge_of_taddr (BOOLEAN b))"

function (sequential) evalh :: "nat \<Rightarrow> expr \<Rightarrow> thuge option action" where
  "evalh n (NUM v) = return (Some (huge_of_taddr v))"
| "evalh n (HUG h) = return (Some h)"
| "evalh n (UNOP f l) = bind_st (evalh n l) (\<lambda>x. return (map_option (\<lambda>h. hres_huge (huge_unop f h)) x))"
| "evalh n (BINOP f l r) =
     bind_st (evalh n l) (\<lambda>x. case x of
       None \<Rightarrow> return None
     | Some lval \<Rightarrow> bind_st (evalh n r) (\<lambda>y. case y of
         None \<Rightarrow> return None
       | Some rval \<Rightarrow>
           (case huge_op f lval rval of
              Inl e \<Rightarrow> fail e
            | Inr (h, ms) \<Rightarrow> bind_st (final_errors ms) (\<lambda>_. return (Some (hres_huge h))))))"
| "evalh 0 (SYM y) = bind_st get (\<lambda>s.
       if sym_type (sym s y) = EXPRESSION then
         (if sym_has (sym s y) INEVAL then fail (Fatal_error 18) else fail Runaway)
       else if sym_type (sym s y) = LABSYM \<and> sym_has (sym s y) ABSLABEL
         then return (Some (huge_of_taddr (sym_pc (sym s y))))
       else return None)"
| "evalh (Suc n) (SYM y) = bind_st get (\<lambda>s.
       if sym_type (sym s y) = EXPRESSION then
         (if sym_has (sym s y) INEVAL then fail (Fatal_error 18)
          else case sym_expr (sym s y) of
            None \<Rightarrow> fail Ierror
          | Some e \<Rightarrow>
              bind_st (modify (upd_sym y (set_flag INEVAL))) (\<lambda>_.
              bind_st (evalh n e) (\<lambda>r.
              bind_st (modify (upd_sym y (clear_flag INEVAL))) (\<lambda>_. return r))))
       else if sym_type (sym s y) = LABSYM \<and> sym_has (sym s y) ABSLABEL
         then return (Some (huge_of_taddr (sym_pc (sym s y))))
       else return None)"
  by pat_completeness auto
termination by (relation "measures [\<lambda>(n, e). n, \<lambda>(n, e). size e]") auto

definition eval_expr_huge :: "expr \<Rightarrow> thuge option action" where
  "eval_expr_huge e s = evalh (fuel s) e s"

text \<open>The type codes of the code: 1 for \<open>NUM\<close>, 2 for \<open>HUG\<close>.\<close>

function (sequential) type_of :: "nat \<Rightarrow> expr \<Rightarrow> nat action" where
  "type_of n (NUM v) = return 1"
| "type_of n (HUG h) = return 2"
| "type_of n (UNOP f l) = type_of n l"
| "type_of n (BINOP f l r) = bind_st (type_of n l) (\<lambda>lt. bind_st (type_of n r) (\<lambda>rt. return (max rt lt)))"
| "type_of 0 (SYM y) = bind_st get (\<lambda>s.
       if sym_type (sym s y) = EXPRESSION then
         (if sym_has (sym s y) INEVAL then fail (Fatal_error 18) else fail Runaway)
       else return 1)"
| "type_of (Suc n) (SYM y) = bind_st get (\<lambda>s.
       if sym_type (sym s y) = EXPRESSION then
         (if sym_has (sym s y) INEVAL then fail (Fatal_error 18)
          else case sym_expr (sym s y) of
            None \<Rightarrow> return 0
          | Some e \<Rightarrow>
              bind_st (modify (upd_sym y (set_flag INEVAL))) (\<lambda>_.
              bind_st (type_of n e) (\<lambda>r.
              bind_st (modify (upd_sym y (clear_flag INEVAL))) (\<lambda>_. return r))))
       else return 1)"
  by pat_completeness auto
termination by (relation "measures [\<lambda>(n, e). n, \<lambda>(n, e). size e]") auto

definition type_of_expr :: "expr \<Rightarrow> nat action" where
  "type_of_expr e s = type_of (fuel s) e s"

text \<open>The first occurrence of a symbol below the root, as the path to it (\<open>False\<close> for left).\<close>

definition is_named :: "asm \<Rightarrow> string \<Rightarrow> expr \<Rightarrow> bool" where
  "is_named s name e \<longleftrightarrow> (case e of SYM y \<Rightarrow> sym_name (sym s y) = name | _ \<Rightarrow> False)"

fun find_sym_expr :: "asm \<Rightarrow> string \<Rightarrow> expr \<Rightarrow> bool list option" where
  "find_sym_expr s name (UNOP f l) =
     (if is_named s name l then Some [False] else map_option ((#) False) (find_sym_expr s name l))"
| "find_sym_expr s name (BINOP f l r) =
     (if is_named s name l then Some [False]
      else case find_sym_expr s name l of
        Some p \<Rightarrow> Some (False # p)
      | None \<Rightarrow> (if is_named s name r then Some [True]
                 else map_option ((#) True) (find_sym_expr s name r)))"
| "find_sym_expr s name _ = None"

text \<open>A constant expression, as directives require it; the message, if any, comes with the value.\<close>

definition constexpr_value :: "expr \<Rightarrow> taddr \<times> nat list" where
  "constexpr_value e = (case e of NUM v \<Rightarrow> (v, []) | HUG h \<Rightarrow> (0, [59]) | _ \<Rightarrow> (0, [30]))"

section \<open>Induction over the recursion of the evaluators\<close>

lemma fuel_expr_induct [case_names NUM HUG SYM0 SYM UNOP BINOP]:
  assumes "\<And>n v. R n (NUM v)" and "\<And>n h. R n (HUG h)" and "\<And>y. R 0 (SYM y)"
    and "\<And>n y. (\<And>e. R n e) \<Longrightarrow> R (Suc n) (SYM y)"
    and "\<And>n f l. R n l \<Longrightarrow> R n (UNOP f l)"
    and "\<And>n f l r. R n l \<Longrightarrow> R n r \<Longrightarrow> R n (BINOP f l r)"
  shows "R n e"
proof (induction n arbitrary: e)
  case 0
  show ?case by (induction e) (use assms in auto)
next
  case (Suc n)
  show ?case by (induction e) (use assms Suc in auto)
qed

lemma findb_simps [simp]:
  "findb n (NUM v) c pc = return (BASE_ILLEGAL, None)"
  "findb n (HUG h) c pc = return (BASE_ILLEGAL, None)"
  "findb n (UNOP u l) c pc = return (BASE_ILLEGAL, None)"
  by (cases n; simp)+

lemma findb_other: "f \<noteq> ADD \<Longrightarrow> f \<noteq> SUB \<Longrightarrow> findb n (BINOP f l r) c pc = return (BASE_ILLEGAL, None)"
  by (cases f; cases n) simp_all

text \<open>The steps of a binary node after both operands.\<close>

definition binop_rest ::
  "nat \<Rightarrow> binop \<Rightarrow> expr \<Rightarrow> expr \<Rightarrow> secid option \<Rightarrow> taddr \<Rightarrow> taddr \<Rightarrow> bool \<Rightarrow> taddr \<Rightarrow> bool \<Rightarrow> (taddr \<times> bool) action" where
  "binop_rest n f l r c pc lval kl rval kr =
     (if f = SUB \<and> \<not> (kl \<and> kr) then
        bind_st (findb n r c pc) (\<lambda>rb. bind_st get (\<lambda>s.
          case rb of
            (BASE_OK, Some rsym) \<Rightarrow>
              (if LOCREF (sym s rsym) then
                 bind_st (findb n l c pc) (\<lambda>lb. diff_based lval rval lb rsym c pc)
               else return (lval - rval, False))
          | _ \<Rightarrow> return (lval - rval, False)))
      else (case num_op f lval rval of
              None \<Rightarrow> fail Undefined
            | Some (v, ms) \<Rightarrow> bind_st (final_errors ms) (\<lambda>_. return (v, kl \<and> kr))))"

lemma eval_BINOP:
  "eval n (BINOP f l r) c pc =
     bind_st (eval n l c pc) (\<lambda>(lv, kl). bind_st (eval n r c pc) (\<lambda>(rv, kr). binop_rest n f l r c pc lv kl rv kr))"
  by (simp only: eval.simps binop_rest_def)

declare eval.simps(4) [simp del]

lemma eval_BINOP_E:
  assumes "eval n (BINOP f l r) c pc s = Inr (s', v)"
  obtains s1 lv kl s2 rv kr where "eval n l c pc s = Inr (s1, lv, kl)" "eval n r c pc s1 = Inr (s2, rv, kr)"
    "binop_rest n f l r c pc lv kl rv kr s2 = Inr (s', v)"
  using assms by (auto simp: eval_BINOP bind_st_Inr)

lemma binop_rest_cases:
  assumes "binop_rest n f l r c pc lv kl rv kr s = Inr (s', v)"
  obtains
    (Op) u ms where "\<not> (f = SUB \<and> \<not> (kl \<and> kr))" "num_op f lv rv = Some (u, ms)"
        "final_errors ms s = Inr (s', ())" "v = (u, kl \<and> kr)"
  | (Unbased) rb where "f = SUB" "\<not> (kl \<and> kr)" "findb n r c pc s = Inr (s', rb)"
        "\<not> (\<exists>y. rb = (BASE_OK, Some y) \<and> LOCREF (sym s' y))" "v = (lv - rv, False)"
  | (Based) s1 y s2 lb where "f = SUB" "\<not> (kl \<and> kr)" "findb n r c pc s = Inr (s1, BASE_OK, Some y)"
        "LOCREF (sym s1 y)" "findb n l c pc s1 = Inr (s2, lb)"
        "diff_based lv rv lb y c pc s2 = Inr (s', v)"
proof (cases "f = SUB \<and> \<not> (kl \<and> kr)")
  case False
  then show ?thesis using assms Op
    by (auto simp: binop_rest_def action_Inr split: option.splits)
next
  case True
  then obtain s1 rb where rb: "findb n r c pc s = Inr (s1, rb)"
    using assms by (auto simp: binop_rest_def action_Inr)
  show ?thesis
  proof (cases "\<exists>y. rb = (BASE_OK, Some y) \<and> LOCREF (sym s1 y)")
    case False
    then have "s' = s1" "v = (lv - rv, False)"
      using assms True rb
      by (auto simp: binop_rest_def action_Inr split: prod.splits base.splits option.splits if_splits)
    with True rb False show ?thesis using Unbased by blast
  next
    case B: True
    then show ?thesis using assms True rb Based by (auto simp: binop_rest_def action_Inr)
  qed
qed

lemma or_else_E:
  assumes "or_else m f s = Inr (s', b)"
  obtains (First) "m s = Inr (s', b)" "fst b = BASE_OK"
  | (Second) s2 rb where "m s = Inr (s2, rb)" "fst rb \<noteq> BASE_OK" "f rb s2 = Inr (s', b)"
proof -
  obtain s2 rb where m: "m s = Inr (s2, rb)" and r: "(if fst rb = BASE_OK then return rb else f rb) s2 = Inr (s', b)"
    using assms unfolding or_else_def bind_st_Inr by blast
  show ?thesis
  proof (cases "fst rb = BASE_OK")
    case True
    then have "s' = s2" "b = rb" using r by (simp_all add: return_Inr)
    with m True show ?thesis using First by simp
  next
    case False
    then show ?thesis using m r Second by simp
  qed
qed

lemma findb_ADD_E:
  assumes "findb n (BINOP ADD l r) c pc s = Inr (s', b)"
  obtains s1 lv kl where "eval n l c pc s = Inr (s1, lv, kl)"
    "try_base kl (findb n r c pc) s1 = Inr (s', b)" "fst b = BASE_OK"
  | s1 lv kl s2 rb s3 rv kr lb where "eval n l c pc s = Inr (s1, lv, kl)"
    "try_base kl (findb n r c pc) s1 = Inr (s2, rb)" "fst rb \<noteq> BASE_OK"
    "eval n r c pc s2 = Inr (s3, rv, kr)" "try_base kr (findb n l c pc) s3 = Inr (s', lb)"
    "b = lb \<and> fst b = BASE_OK \<or> fst lb \<noteq> BASE_OK \<and> fst b = BASE_ILLEGAL"
proof -
  obtain s1 lv kl where 1: "eval n l c pc s = Inr (s1, lv, kl)"
    and o: "or_else (try_base kl (findb n r c pc)) (\<lambda>rb. bind_st (eval n r c pc) (\<lambda>(_, kr).
           or_else (try_base kr (findb n l c pc)) (\<lambda>lb.
             return (BASE_ILLEGAL, if snd lb = None then snd rb else snd lb)))) s1 = Inr (s', b)"
    using assms unfolding findb.simps bind_st_Inr [of "eval n l c pc"] by auto
  from o show ?thesis
  proof (cases rule: or_else_E)
    case First
    then show ?thesis using 1 that(1) by blast
  next
    case (Second s2 rb)
    obtain s3 rv kr where 3: "eval n r c pc s2 = Inr (s3, rv, kr)"
      and o2: "or_else (try_base kr (findb n l c pc)) (\<lambda>lb.
             return (BASE_ILLEGAL, if snd lb = None then snd rb else snd lb)) s3 = Inr (s', b)"
      using Second(3) unfolding bind_st_Inr [of "eval n r c pc"] by auto
    from o2 show ?thesis
    proof (cases rule: or_else_E)
      case First
      then show ?thesis using 1 Second 3 that(2) by blast
    next
      case s4: (Second s4 lb)
      have "s' = s4" "fst b = BASE_ILLEGAL" using s4(3) by (auto simp: return_Inr)
      then show ?thesis using 1 Second 3 s4 that(2) by blast
    qed
  qed
qed

lemma findb_SUB_E:
  assumes "findb n (BINOP SUB l r) c pc s = Inr (s', b)"
  obtains s1 rv kr where "eval n r c pc s = Inr (s1, rv, kr)"
    "try_base kr (findb n l c pc) s1 = Inr (s', b)" "fst b = BASE_OK"
  | s1 rv kr s2 lb lb' where "eval n r c pc s = Inr (s1, rv, kr)"
    "try_base kr (findb n l c pc) s1 = Inr (s2, lb)" "fst lb \<noteq> BASE_OK"
    "findb n l c pc s2 = Inr (s', lb')" "fst lb' \<noteq> BASE_OK" "b = (BASE_ILLEGAL, snd lb')"
  | s1 rv kr s2 lb s3 lb' s4 rb where "eval n r c pc s = Inr (s1, rv, kr)"
    "try_base kr (findb n l c pc) s1 = Inr (s2, lb)" "fst lb \<noteq> BASE_OK"
    "findb n l c pc s2 = Inr (s3, lb')" "fst lb' = BASE_OK" "findb n r c pc s3 = Inr (s4, rb)"
    "pcrel_base c (snd lb') rb s4 = Inr (s', b)"
proof -
  obtain s1 rv kr where 1: "eval n r c pc s = Inr (s1, rv, kr)"
    and o: "or_else (try_base kr (findb n l c pc)) (\<lambda>_. bind_st (findb n l c pc) (\<lambda>lb.
           if fst lb = BASE_OK then bind_st (findb n r c pc) (pcrel_base c (snd lb))
           else return (BASE_ILLEGAL, snd lb))) s1 = Inr (s', b)"
    using assms unfolding findb.simps bind_st_Inr [of "eval n r c pc"] by auto
  from o show ?thesis
  proof (cases rule: or_else_E)
    case First
    then show ?thesis using 1 that(1) by blast
  next
    case (Second s2 lb)
    obtain s3 lb' where 3: "findb n l c pc s2 = Inr (s3, lb')"
      and k: "(if fst lb' = BASE_OK then bind_st (findb n r c pc) (pcrel_base c (snd lb'))
           else return (BASE_ILLEGAL, snd lb')) s3 = Inr (s', b)"
      using Second(3) unfolding bind_st_Inr [of "findb n l c pc"] by blast
    show ?thesis
    proof (cases "fst lb' = BASE_OK")
      case True
      then obtain s4 rb where "findb n r c pc s3 = Inr (s4, rb)" "pcrel_base c (snd lb') rb s4 = Inr (s', b)"
        using k by (auto simp: bind_st_Inr)
      with 1 Second 3 True show ?thesis using that(3) by blast
    next
      case False
      then have "s' = s3" "b = (BASE_ILLEGAL, snd lb')" using k by (auto simp: return_Inr)
      with 1 Second 3 False show ?thesis using that(2) by blast
    qed
  qed
qed

lemma pcrel_base_Inr:
  "pcrel_base c b rb s = Inr (s', x) \<Longrightarrow> s' = s \<and> fst x \<noteq> BASE_OK"
  by (auto simp: pcrel_base_def action_Inr split: base.splits option.splits if_splits prod.splits)

lemma try_base_Inr:
  "try_base k m s = Inr (s', b) \<longleftrightarrow> (if k then m s = Inr (s', b) else s' = s \<and> b = (BASE_ILLEGAL, None))"
  by (simp add: try_base_def return_Inr)

end
