(* ===== verification/Exprframe.thy ===== *)
theory Exprframe
  imports Expr
begin

text \<open>
  What an evaluation leaves unchanged, and that it always comes to an end: the recursion
  through equates is cut off by the mark \<open>INEVAL\<close>, and the fuel of the wrappers is never
  exhausted.
\<close>

section \<open>Well-formed states\<close>

fun expr_syms :: "expr \<Rightarrow> symid set" where
  "expr_syms (NUM v) = {}"
| "expr_syms (HUG h) = {}"
| "expr_syms (SYM y) = {y}"
| "expr_syms (UNOP f l) = expr_syms l"
| "expr_syms (BINOP f l r) = expr_syms l \<union> expr_syms r"

definition wf_expr :: "asm \<Rightarrow> expr \<Rightarrow> bool" where
  "wf_expr s e \<longleftrightarrow> (\<forall>y \<in> expr_syms e. y < length (syms s))"

definition cpc_ok :: "asm \<Rightarrow> bool" where
  "cpc_ok s \<longleftrightarrow> (\<forall>y. cpc s = Some y \<longrightarrow> y < length (syms s) \<and> sym_type (sym s y) = LABSYM)"

definition wf_asm :: "asm \<Rightarrow> bool" where
  "wf_asm s \<longleftrightarrow> cpc_ok s
     \<and> (\<forall>x \<in> set (syms s). \<forall>e. sym_expr x = Some e \<longrightarrow> wf_expr s e)"

text \<open>No evaluation is going on.\<close>

definition quiet :: "asm \<Rightarrow> bool" where
  "quiet s \<longleftrightarrow> (\<forall>x \<in> set (syms s). \<not> sym_has x INEVAL)"

section \<open>The frame of an evaluation\<close>

text \<open>
  Only the dummy symbol of the current pc moves, dependencies between sections are recorded
  and messages are reported.
\<close>

definition unplaced :: "symbol \<Rightarrow> symbol" where
  "unplaced x = x\<lparr>sym_sec := None, sym_pc := 0, sym_flags := sym_flags x AND NOT ABSLABEL\<rparr>"

definition nodeps :: "sect \<Rightarrow> sect" where
  "nodeps c = c\<lparr>sec_deps := []\<rparr>"

definition frame :: "asm \<Rightarrow> asm \<Rightarrow> bool" where
  "frame s s' \<longleftrightarrow> length (syms s') = length (syms s) \<and> cpc s' = cpc s \<and> final_pass s' = final_pass s
     \<and> num_secs s' = num_secs s \<and> bytespertaddr s' = bytespertaddr s
     \<and> (\<forall>y < length (syms s). (cpc s \<noteq> Some y \<longrightarrow> sym s' y = sym s y) \<and> unplaced (sym s' y) = unplaced (sym s y))
     \<and> map nodeps (secs s') = map nodeps (secs s)
     \<and> (\<exists>ms. msgs s' = msgs s @ ms)"

lemma frame_refl [simp]: "frame s s"
  by (simp add: frame_def)

lemma frame_trans: "frame s s' \<Longrightarrow> frame s' s'' \<Longrightarrow> frame s s''"
  by (auto simp: frame_def)

lemma frame_cpc_ok:
  assumes "frame s s'" and "cpc_ok s"
  shows "cpc_ok s'"
proof -
  have "sym_type (sym s' y) = sym_type (sym s y)" if "y < length (syms s)" for y
  proof -
    have "sym_type (unplaced (sym s' y)) = sym_type (unplaced (sym s y))"
      using assms(1) that by (simp add: frame_def)
    then show ?thesis by (simp add: unplaced_def)
  qed
  then show ?thesis using assms by (auto simp: cpc_ok_def frame_def)
qed

lemma frame_log_all [simp]: "frame s (log_all ms s)"
  by (simp add: frame_def log_all_def)

lemma frame_general_error [simp]: "frame s (general_error n s)"
  by (simp add: frame_def)

lemma flags_or_not: "(f OR g) AND NOT g = f AND NOT g" "(f AND NOT g) AND NOT g = f AND NOT g" for f g :: u32
  by (rule bit_word_eqI, auto simp: bit_simps)+

lemma unplaced_update:
  "unplaced (set_flag ABSLABEL (x\<lparr>sym_sec := k, sym_pc := pc\<rparr>)) = unplaced x"
  "unplaced (clear_flag ABSLABEL (x\<lparr>sym_sec := k, sym_pc := pc\<rparr>)) = unplaced x"
  by (simp_all add: unplaced_def set_flag_def clear_flag_def flags_or_not)

lemma frame_update_curpc [simp]: "frame s (update_curpc y c pc s)"
  by (auto simp: frame_def update_curpc_def unplaced_update nth_upd split: option.split)

lemma frame_upd_deps:
  "(\<And>x. nodeps (f x) = nodeps x) \<Longrightarrow> frame s (upd_sec d f s)"
  by (auto simp: frame_def map_upd_same)

lemma flags_restore: "f AND INEVAL = 0 \<Longrightarrow> (f OR INEVAL) AND NOT INEVAL = f" for f :: u32
proof -
  assume "f AND INEVAL = 0"
  then have "\<And>n. \<not> (bit f n \<and> bit INEVAL n)" by (metis bit_and_iff bit_0_eq bot_apply bot_bool_def)
  then show ?thesis by (intro bit_word_eqI) (auto simp: bit_simps)
qed

text \<open>An evaluation between setting and clearing \<open>INEVAL\<close> on an equate has the frame of an evaluation.\<close>

lemma frame_ineval:
  assumes y: "sym_type (sym s y) = EXPRESSION" "\<not> sym_has (sym s y) INEVAL" and ok: "cpc_ok s"
    and f: "frame (upd_sym y (set_flag INEVAL) s) s1"
  shows "frame s (upd_sym y (clear_flag INEVAL) s1)"
proof (cases "y < length (syms s)")
  case False
  then have "upd_sym y (set_flag INEVAL) s = s" "upd_sym y (clear_flag INEVAL) s1 = s1"
    using f by (auto intro!: upd_sym_beyond simp: frame_def)
  with f show ?thesis by simp
next
  case True
  have ncpc: "cpc s \<noteq> Some y" using y(1) ok by (auto simp: cpc_ok_def)
  have "sym s1 y = set_flag INEVAL (sym s y)"
    using f True ncpc by (auto simp: frame_def)
  then have "clear_flag INEVAL (sym s1 y) = sym s y"
    using y(2) by (simp add: set_flag_def clear_flag_def sym_has_def flags_restore)
  then show ?thesis
    using f True by (auto simp: frame_def nth_upd)
qed

lemma cpc_ok_set: "cpc_ok s \<Longrightarrow> cpc_ok (upd_sym y (set_flag f) s)"
  by (auto simp: cpc_ok_def nth_upd set_flag_def)

section \<open>Relations an evaluation respects\<close>

text \<open>
  The interface between the evaluators and the relations between states they are known to
  respect: a relation \<open>F\<close> with an invariant \<open>I\<close> that the single effects of an evaluation
  at the position \<open>c\<close>, \<open>pc\<close> keep is kept by every evaluation there.
\<close>

locale evaluation_frame =
  fixes c :: "secid option" and pc :: taddr
    and I :: "asm \<Rightarrow> bool" and F :: "asm \<Rightarrow> asm \<Rightarrow> bool"
  assumes F_refl: "F s s"
    and F_trans: "F s s' \<Longrightarrow> F s' s'' \<Longrightarrow> F s s''"
    and F_I: "F s s' \<Longrightarrow> I s \<Longrightarrow> I s'"
    and F_log: "I s \<Longrightarrow> F s (log_all ms s)"
    and F_curpc: "I s \<Longrightarrow> F s (update_curpc y c pc s)"
    and F_deps: "I s \<Longrightarrow> F s (upd_sec d (\<lambda>x. x\<lparr>sec_deps := List.insert i (sec_deps x)\<rparr>) s)"
    and F_ineval: "I s \<Longrightarrow> sym_type (sym s y) = EXPRESSION \<Longrightarrow> \<not> sym_has (sym s y) INEVAL \<Longrightarrow>
          F (upd_sym y (set_flag INEVAL) s) s1 \<Longrightarrow> F s (upd_sym y (clear_flag INEVAL) s1)"
    and I_set: "I s \<Longrightarrow> sym_type (sym s y) = EXPRESSION \<Longrightarrow> I (upd_sym y (set_flag INEVAL) s)"
begin

lemma add_dep_F: "I s \<Longrightarrow> add_dep a b s = Inr (s', x) \<Longrightarrow> F s s'"
  by (auto simp: add_dep_def action_Inr F_refl intro!: F_deps split: if_splits option.splits)

lemma eval_label_F: "I s \<Longrightarrow> eval_label y c pc s = Inr (s', r) \<Longrightarrow> F s s'"
  using add_dep_F [OF F_I [OF F_curpc]] F_trans F_curpc F_refl
  by (auto simp: eval_label_def action_Inr Let_def split: if_splits) blast+

lemma eval_huge_const_F: "I s \<Longrightarrow> eval_huge_const h s = Inr (s', r) \<Longrightarrow> F s s'"
  using F_log [of s "[21]"]
  by (auto simp: eval_huge_const_def action_Inr F_refl log_all_def general_error_def split: if_splits option.splits)

lemma diff_based_F:
  assumes I: "I s" and eq: "diff_based l r lb y c pc s = Inr (s', x)"
  shows "F s s'"
proof -
  note dep = add_dep_F [OF I] and dep2 = add_dep_F [OF F_I [OF add_dep_F [OF I] I]]
  show ?thesis using eq
    by (auto simp: diff_based_def action_Inr Let_def F_refl split: if_splits dest: dep dep2 intro: F_trans)
qed

lemma final_errors_F: "I s \<Longrightarrow> final_errors ms s = Inr (s', x) \<Longrightarrow> F s s'"
  by (auto simp: final_errors_def action_Inr F_log F_refl)

definition frames_eval :: "nat \<Rightarrow> expr \<Rightarrow> bool" where
  "frames_eval n e \<longleftrightarrow> (\<forall>s s'. I s \<longrightarrow>
      (\<forall>v. eval n e c pc s = Inr (s', v) \<longrightarrow> F s s' \<and> I s') \<and>
      (\<forall>b. findb n e c pc s = Inr (s', b) \<longrightarrow> F s s' \<and> I s'))"

lemma frames_evalD:
  assumes "frames_eval n e" and "I s"
  shows "eval n e c pc s = Inr (s', v) \<Longrightarrow> F s s' \<and> I s'"
    and "findb n e c pc s = Inr (s', b) \<Longrightarrow> F s s' \<and> I s'"
  using assms unfolding frames_eval_def by blast+

lemma frames_evalI:
  assumes "\<And>s s' v. I s \<Longrightarrow> eval n e c pc s = Inr (s', v) \<Longrightarrow> F s s'"
    and "\<And>s s' b. I s \<Longrightarrow> findb n e c pc s = Inr (s', b) \<Longrightarrow> F s s'"
  shows "frames_eval n e"
  unfolding frames_eval_def using assms F_I by meson

lemma F_cpc: "F s s' \<Longrightarrow> I s \<Longrightarrow> F s s' \<and> I s'"
  using F_I by blast

lemma binop_rest_frame:
  assumes l: "frames_eval n l" and r: "frames_eval n r" and ok: "I s"
    and eq: "binop_rest n f l r c pc lv kl rv kr s = Inr (s', v)"
  shows "F s s'"
  using eq
proof (cases rule: binop_rest_cases)
  case Op
  then show ?thesis using final_errors_F [OF ok] by blast
next
  case Unbased
  then show ?thesis using frames_evalD(2) [OF r ok] by blast
next
  case (Based s1 y s2 lb)
  have 1: "F s s1 \<and> I s1" using frames_evalD(2) [OF r ok Based(3)] .
  have 2: "F s1 s2 \<and> I s2" using frames_evalD(2) [OF l _ Based(5)] 1 by blast
  show ?thesis using 1 2 diff_based_F [OF _ Based(6)] F_trans by blast
qed

lemma eval_binop_frame:
  assumes l: "frames_eval n l" and r: "frames_eval n r" and ok: "I s"
    and eq: "eval n (BINOP f l r) c pc s = Inr (s', v)"
  shows "F s s'"
  using eq
proof (rule eval_BINOP_E)
  fix s1 lv kl s2 rv kr
  assume el: "eval n l c pc s = Inr (s1, lv, kl)" and er: "eval n r c pc s1 = Inr (s2, rv, kr)"
    and rest: "binop_rest n f l r c pc lv kl rv kr s2 = Inr (s', v)"
  have f1: "F s s1 \<and> I s1" using frames_evalD(1) [OF l ok el] .
  have f2: "F s1 s2 \<and> I s2" using frames_evalD(1) [OF r _ er] f1 by blast
  show ?thesis using f1 f2 binop_rest_frame [OF l r _ rest] F_trans by blast
qed

lemma try_base_frame:
  "frames_eval n e \<Longrightarrow> I s \<Longrightarrow> try_base k (findb n e c pc) s = Inr (s', b) \<Longrightarrow> F s s' \<and> I s'"
  by (auto simp: try_base_Inr F_refl split: if_splits dest: frames_evalD(2))

lemma findb_binop_frame:
  assumes l: "frames_eval n l" and r: "frames_eval n r" and ok: "I s"
    and eq: "findb n (BINOP f l r) c pc s = Inr (s', b)"
  shows "F s s'"
proof -
  consider "f = ADD" | "f = SUB" | "f \<noteq> ADD" "f \<noteq> SUB" by blast
  then show ?thesis
  proof cases
    case 1
    from eq [unfolded 1] show ?thesis
    proof (rule findb_ADD_E)
      fix s1 lv kl
      assume "eval n l c pc s = Inr (s1, lv, kl)" "try_base kl (findb n r c pc) s1 = Inr (s', b)"
      then show ?thesis using frames_evalD(1) [OF l ok] try_base_frame [OF r] F_trans by blast
    next
      fix s1 lv kl s2 rb s3 rv kr lb
      assume *: "eval n l c pc s = Inr (s1, lv, kl)" "try_base kl (findb n r c pc) s1 = Inr (s2, rb)"
        "eval n r c pc s2 = Inr (s3, rv, kr)" "try_base kr (findb n l c pc) s3 = Inr (s', lb)"
      have 1: "F s s1 \<and> I s1" using frames_evalD(1) [OF l ok *(1)] .
      then have 2: "F s1 s2 \<and> I s2" using try_base_frame [OF r _ *(2)] by blast
      then have 3: "F s2 s3 \<and> I s3" using frames_evalD(1) [OF r _ *(3)] by blast
      then have "F s3 s'" using try_base_frame [OF l _ *(4)] by blast
      then show ?thesis using 1 2 3 F_trans by blast
    qed
  next
    case 2
    from eq [unfolded 2] show ?thesis
    proof (rule findb_SUB_E)
      fix s1 rv kr
      assume "eval n r c pc s = Inr (s1, rv, kr)" "try_base kr (findb n l c pc) s1 = Inr (s', b)"
      then show ?thesis using frames_evalD(1) [OF r ok] try_base_frame [OF l] F_trans by blast
    next
      fix s1 rv kr s2 lb lb'
      assume *: "eval n r c pc s = Inr (s1, rv, kr)" "try_base kr (findb n l c pc) s1 = Inr (s2, lb)"
        "findb n l c pc s2 = Inr (s', lb')"
      have 1: "F s s1 \<and> I s1" using frames_evalD(1) [OF r ok *(1)] .
      then have 2: "F s1 s2 \<and> I s2" using try_base_frame [OF l _ *(2)] by blast
      then have "F s2 s'" using frames_evalD(2) [OF l _ *(3)] by blast
      then show ?thesis using 1 2 F_trans by blast
    next
      fix s1 rv kr s2 lb s3 lb' s4 rb
      assume *: "eval n r c pc s = Inr (s1, rv, kr)" "try_base kr (findb n l c pc) s1 = Inr (s2, lb)"
        "findb n l c pc s2 = Inr (s3, lb')" "findb n r c pc s3 = Inr (s4, rb)"
        and p: "pcrel_base c (snd lb') rb s4 = Inr (s', b)"
      have 1: "F s s1 \<and> I s1" using frames_evalD(1) [OF r ok *(1)] .
      then have 2: "F s1 s2 \<and> I s2" using try_base_frame [OF l _ *(2)] by blast
      then have 3: "F s2 s3 \<and> I s3" using frames_evalD(2) [OF l _ *(3)] by blast
      then have "F s3 s4" using frames_evalD(2) [OF r _ *(4)] by blast
      then show ?thesis using 1 2 3 pcrel_base_Inr [OF p] F_trans by blast
    qed
  next
    case 3
    then show ?thesis using eq by (simp add: findb_other return_Inr F_refl)
  qed
qed

lemma frames_eval: "frames_eval n e"
proof (induction n e rule: fuel_expr_induct)
  case (SYM n y)
  show ?case unfolding frames_eval_def
  proof (intro allI impI conjI)
    fix s s' v
    assume ok: "I s" and eq: "eval (Suc n) (SYM y) c pc s = Inr (s', v)"
    have "F s s'"
    proof (cases "sym_type (sym s y) = EXPRESSION")
      case True
      then obtain e s1 where y: "\<not> sym_has (sym s y) INEVAL"
        and 1: "eval n e c pc (upd_sym y (set_flag INEVAL) s) = Inr (s1, v)"
        and 2: "s' = upd_sym y (clear_flag INEVAL) s1"
        using eq by (auto simp: action_Inr split: if_splits option.splits)
      show ?thesis
        using F_ineval [OF ok True y] frames_evalD(1) [OF SYM I_set [OF ok True] 1] 2 by blast
    next
      case False
      then show ?thesis using eq by (auto simp: action_Inr dest: eval_label_F [OF ok])
    qed
    then show "F s s'" "I s'" using ok F_cpc by auto
  next
    fix s s' b
    assume ok: "I s" and eq: "findb (Suc n) (SYM y) c pc s = Inr (s', b)"
    let ?s = "update_curpc y c pc s"
    have ok': "I ?s" using F_I [OF F_curpc [OF ok] ok] .
    have "F ?s s'"
      using eq frames_evalD(2) [OF SYM ok'] by (auto simp: action_Inr F_refl split: if_splits option.splits)
    then show "F s s'" "I s'"
      using F_trans [OF F_curpc [OF ok]] ok F_cpc by blast+
  qed
next
  case (BINOP n f l r)
  show ?case unfolding frames_eval_def
  proof (intro allI impI conjI)
    fix s s' v
    assume ok: "I s" and eq: "eval n (BINOP f l r) c pc s = Inr (s', v)"
    show "F s s'" by (rule eval_binop_frame [OF BINOP ok eq])
    then show "I s'" using ok F_I by blast
  next
    fix s s' b
    assume ok: "I s" and eq: "findb n (BINOP f l r) c pc s = Inr (s', b)"
    show "F s s'" by (rule findb_binop_frame [OF BINOP ok eq])
    then show "I s'" using ok F_I by blast
  qed
next
  case (UNOP n f l)
  show ?case
  proof (rule frames_evalI)
    fix s s' v
    assume ok: "I s" and eq: "eval n (UNOP f l) c pc s = Inr (s', v)"
    obtain lv kl where "eval n l c pc s = Inr (s', lv, kl)"
      using eq by (auto simp: bind_st_Inr return_Inr)
    then show "F s s'" using frames_evalD(1) [OF UNOP ok] by blast
  qed (simp add: return_Inr F_refl)
next
  case (SYM0 y)
  show ?case
  proof (rule frames_evalI)
    fix s s' v
    assume ok: "I s" and eq: "eval 0 (SYM y) c pc s = Inr (s', v)"
    then have "eval_label y c pc s = Inr (s', v)"
      by (simp add: bind_st_Inr get_Inr split: if_splits)
    then show "F s s'" by (rule eval_label_F [OF ok])
  next
    fix s s' b
    assume ok: "I s" and eq: "findb 0 (SYM y) c pc s = Inr (s', b)"
    then have "s' = update_curpc y c pc s"
      by (simp add: bind_st_Inr get_Inr modify_Inr return_Inr split: if_splits)
    then show "F s s'" using F_curpc [OF ok] by simp
  qed
next
  case (HUG n h)
  show ?case
    by (rule frames_evalI) (simp_all add: return_Inr eval_huge_const_F F_refl)
next
  case (NUM n v)
  show ?case by (rule frames_evalI) (simp_all add: return_Inr F_refl)
qed

lemmas eval_keeps = frames_evalD(1) [OF frames_eval]
lemmas findb_keeps = frames_evalD(2) [OF frames_eval]

end

interpretation fr: evaluation_frame c pc cpc_ok frame
  by unfold_locales
    (auto simp: nodeps_def intro: frame_trans frame_cpc_ok frame_upd_deps frame_ineval cpc_ok_set)

lemmas eval_frame = fr.eval_keeps
lemmas findb_frame = fr.findb_keeps

section \<open>Evaluation comes to an end\<close>

text \<open>The equates an expression reaches can be followed within \<open>n\<close> steps.\<close>

function (sequential) fits :: "asm \<Rightarrow> nat \<Rightarrow> expr \<Rightarrow> bool" where
  "fits s n (NUM v) = True"
| "fits s n (HUG h) = True"
| "fits s n (UNOP f l) = fits s n l"
| "fits s n (BINOP f l r) = (fits s n l \<and> fits s n r)"
| "fits s 0 (SYM y) = (y < length (syms s) \<and> sym_type (sym s y) \<noteq> EXPRESSION)"
| "fits s (Suc n) (SYM y) = (y < length (syms s) \<and> (sym_type (sym s y) = EXPRESSION \<longrightarrow>
      (case sym_expr (sym s y) of None \<Rightarrow> True | Some e \<Rightarrow> fits s n e)))"
  by pat_completeness auto
termination by (relation "measures [\<lambda>(s, n, e). n, \<lambda>(s, n, e). size e]") auto

definition same_defs :: "asm \<Rightarrow> asm \<Rightarrow> bool" where
  "same_defs s s' \<longleftrightarrow> length (syms s') = length (syms s)
     \<and> (\<forall>y < length (syms s). sym_type (sym s' y) = sym_type (sym s y) \<and> sym_expr (sym s' y) = sym_expr (sym s y))"

lemma same_defs_refl [simp]: "same_defs s s"
  by (simp add: same_defs_def)

lemma frame_same_defs: "frame s s' \<Longrightarrow> same_defs s s'"
proof -
  assume f: "frame s s'"
  have "sym_type (sym s' y) = sym_type (sym s y) \<and> sym_expr (sym s' y) = sym_expr (sym s y)"
    if "y < length (syms s)" for y
  proof -
    have "unplaced (sym s' y) = unplaced (sym s y)" using f that by (simp add: frame_def)
    then have "sym_type (unplaced (sym s' y)) = sym_type (unplaced (sym s y))"
      "sym_expr (unplaced (sym s' y)) = sym_expr (unplaced (sym s y))" by simp_all
    then show ?thesis by (simp add: unplaced_def)
  qed
  then show ?thesis using f by (simp add: same_defs_def frame_def)
qed

lemma set_same_defs: "same_defs s (upd_sym y (set_flag f) s)"
  by (auto simp: same_defs_def nth_upd set_flag_def)

lemma fits_same_defs:
  assumes "same_defs s s'"
  shows "fits s n e \<longleftrightarrow> fits s' n e"
proof (induction n e rule: fuel_expr_induct)
  case (SYM n y)
  then show ?case using assms by (auto simp: same_defs_def split: option.split)
qed (use assms in \<open>auto simp: same_defs_def\<close>)

lemma wf_same_defs:
  assumes "same_defs s s'" and "wf_asm s" and "cpc_ok s'"
  shows "wf_asm s'"
proof -
  have "wf_expr s' e" if x: "x \<in> set (syms s')" "sym_expr x = Some e" for x e
  proof -
    obtain y where y: "y < length (syms s)" "x = sym s' y"
      using x assms(1) by (auto simp: in_set_conv_nth same_defs_def)
    then have "sym_expr (sym s y) = Some e" using x assms(1) by (simp add: same_defs_def)
    then have "wf_expr s e" using y assms(2) by (auto simp: wf_asm_def)
    then show ?thesis using assms(1) by (simp add: wf_expr_def same_defs_def)
  qed
  then show ?thesis using assms(3) by (auto simp: wf_asm_def)
qed

lemma wf_expr_same_defs: "same_defs s s' \<Longrightarrow> wf_expr s' e = wf_expr s e"
  by (simp add: wf_expr_def same_defs_def)

lemma wf_frame: "frame s s' \<Longrightarrow> wf_asm s \<Longrightarrow> wf_asm s' \<and> cpc_ok s'"
  using wf_same_defs frame_same_defs frame_cpc_ok by (meson wf_asm_def)

lemma wf_set: "wf_asm s \<Longrightarrow> wf_asm (upd_sym y (set_flag f) s)"
  using wf_same_defs [OF set_same_defs] cpc_ok_set by (meson wf_asm_def)

lemma wf_expr_of_sym: "wf_asm s \<Longrightarrow> y < length (syms s) \<Longrightarrow> sym_expr (sym s y) = Some e \<Longrightarrow> wf_expr s e"
  by (auto simp: wf_asm_def)

text \<open>Successful evaluations stay within the bound.\<close>

lemma eval_fits:
  "eval n e c pc s = Inr (s', v) \<Longrightarrow> wf_asm s \<Longrightarrow> wf_expr s e \<Longrightarrow> fits s n e"
proof (induction n e arbitrary: s s' v rule: fuel_expr_induct)
  case (SYM n y)
  have y: "y < length (syms s)" using SYM.prems by (simp add: wf_expr_def)
  show ?case
  proof (cases "sym_type (sym s y) = EXPRESSION")
    case True
    then obtain e s1 where e: "sym_expr (sym s y) = Some e"
      and ev: "eval n e c pc (upd_sym y (set_flag INEVAL) s) = Inr (s1, v)"
      using SYM.prems(1) by (auto simp: bind_st_Inr get_Inr modify_Inr return_Inr split: if_splits option.splits)
    have "fits (upd_sym y (set_flag INEVAL) s) n e"
      using SYM.IH [OF ev wf_set [OF SYM.prems(2)]] wf_expr_of_sym [OF SYM.prems(2) y e]
        wf_expr_same_defs [OF set_same_defs] by blast
    then have "fits s n e" using fits_same_defs [OF set_same_defs] by blast
    then show ?thesis using y e by simp
  qed (use y in simp)
next
  case (SYM0 y)
  then show ?case by (auto simp: wf_expr_def bind_st_Inr get_Inr split: if_splits)
next
  case (UNOP n f l)
  obtain lv kl where "eval n l c pc s = Inr (s', lv, kl)"
    using UNOP.prems(1) by (auto simp: bind_st_Inr return_Inr)
  then show ?case using UNOP.IH UNOP.prems by (simp add: wf_expr_def)
next
  case (BINOP n f l r)
  from BINOP.prems(1) show ?case
  proof (rule eval_BINOP_E)
    fix s1 lv kl s2 rv kr
    assume el: "eval n l c pc s = Inr (s1, lv, kl)" and er: "eval n r c pc s1 = Inr (s2, rv, kr)"
    have wf: "wf_expr s l" "wf_expr s r" using BINOP.prems(3) by (auto simp: wf_expr_def)
    have f: "frame s s1" using eval_frame [OF _ el] BINOP.prems(2) by (simp add: wf_asm_def)
    have d: "same_defs s s1" using frame_same_defs [OF f] .
    have "fits s1 n r"
      using BINOP.IH(2) [OF er] wf_frame [OF f BINOP.prems(2)] wf(2) wf_expr_same_defs [OF d] by blast
    then show ?thesis using BINOP.IH(1) [OF el BINOP.prems(2) wf(1)] fits_same_defs [OF d] by simp
  qed
qed simp_all

text \<open>Within the bound neither evaluation nor the search for a base runs away.\<close>

definition calm :: "'a action \<Rightarrow> asm \<Rightarrow> bool" where
  "calm m s \<longleftrightarrow> m s \<noteq> Inl Runaway"

lemma bind_no_runaway:
  "calm m s \<Longrightarrow> (\<And>s1 x. m s = Inr (s1, x) \<Longrightarrow> calm (f x) s1) \<Longrightarrow> calm (bind_st m f) s"
  by (auto simp: calm_def bind_st_def split: sum.splits)

lemma simple_no_runaway [simp]:
  "calm (return x) s" "calm get s" "calm (modify f) s"
  "calm (fail Undefined) s" "calm (fail Ierror) s" "calm (fail (Fatal_error k)) s"
  by (simp_all add: calm_def return_def get_def modify_def fail_def)

lemma add_dep_no_runaway: "calm (add_dep a b) s"
  by (auto simp: add_dep_def intro!: bind_no_runaway split: option.split if_splits)

lemma eval_label_no_runaway: "calm (eval_label y c pc) s"
  by (auto simp: eval_label_def Let_def add_dep_no_runaway intro!: bind_no_runaway)

lemma eval_huge_no_runaway: "calm (eval_huge_const h) s"
  by (auto simp: eval_huge_const_def intro!: bind_no_runaway split: option.split)

lemma diff_based_no_runaway: "calm (diff_based l r lb y c pc) s"
  by (auto simp: diff_based_def Let_def add_dep_no_runaway intro!: bind_no_runaway)

lemma pcrel_base_no_runaway: "calm (pcrel_base c b rb) s"
  by (auto simp: pcrel_base_def intro!: bind_no_runaway split: base.split option.split prod.split)

lemma try_base_no_runaway: "(k \<Longrightarrow> calm m s) \<Longrightarrow> calm (try_base k m) s"
  by (simp add: calm_def try_base_def return_def)

lemma or_else_no_runaway:
  "calm m s \<Longrightarrow> (\<And>s1 x. m s = Inr (s1, x) \<Longrightarrow> calm (f x) s1) \<Longrightarrow> calm (or_else m f) s"
  by (auto simp: or_else_def intro!: bind_no_runaway)

definition tame :: "nat \<Rightarrow> expr \<Rightarrow> bool" where
  "tame n e \<longleftrightarrow> (\<forall>c pc s. cpc_ok s \<longrightarrow> fits s n e \<longrightarrow>
      calm (eval n e c pc) s \<and> calm (findb n e c pc) s)"

lemma tameD:
  assumes "tame n e" and "cpc_ok s" and "fits s n e"
  shows "calm (eval n e c pc) s" and "calm (findb n e c pc) s"
  using assms unfolding tame_def by blast+

lemma frame_fits: "frame s s' \<Longrightarrow> fits s n e \<Longrightarrow> fits s' n e"
  using fits_same_defs frame_same_defs by blast

lemma calm_final_errors: "calm (final_errors ms) s"
  by (simp add: final_errors_def)

lemma calm_diff_or_plain:
  "calm (findb n l c pc) s \<Longrightarrow>
   calm (bind_st get (\<lambda>s. case rb of
       (BASE_OK, Some rsym) \<Rightarrow>
         (if LOCREF (sym s rsym) then bind_st (findb n l c pc) (\<lambda>lb. diff_based lv rv lb rsym c pc)
          else return (lv - rv, False))
     | _ \<Rightarrow> return (lv - rv, False))) s"
  by (auto simp: get_Inr diff_based_no_runaway split: prod.split base.split option.split intro!: bind_no_runaway)

lemma tame_binop_rest:
  assumes l: "tame n l" and r: "tame n r" and ok: "cpc_ok s" and fl: "fits s n l" and fr: "fits s n r"
  shows "calm (binop_rest n f l r c pc lv kl rv kr) s"
proof (cases "f = SUB \<and> \<not> (kl \<and> kr)")
  case True
  show ?thesis unfolding binop_rest_def if_P [OF True]
  proof (rule bind_no_runaway)
    show "calm (findb n r c pc) s" by (rule tameD [OF r ok fr])
  next
    fix s1 rb
    assume "findb n r c pc s = Inr (s1, rb)"
    then have f: "frame s s1" "cpc_ok s1" using findb_frame ok by blast+
    have "calm (findb n l c pc) s1" by (rule tameD [OF l f(2) frame_fits [OF f(1) fl]])
    then show "calm (bind_st get (\<lambda>s. case rb of
       (BASE_OK, Some rsym) \<Rightarrow>
         (if LOCREF (sym s rsym) then bind_st (findb n l c pc) (\<lambda>lb. diff_based lv rv lb rsym c pc)
          else return (lv - rv, False))
     | _ \<Rightarrow> return (lv - rv, False))) s1"
      by (rule calm_diff_or_plain)
  qed
next
  case False
  then show ?thesis unfolding binop_rest_def
    by (auto simp: calm_final_errors intro!: bind_no_runaway split: option.split)
qed

lemma tameI:
  assumes "\<And>c pc s. cpc_ok s \<Longrightarrow> fits s n e \<Longrightarrow> calm (eval n e c pc) s"
    and "\<And>c pc s. cpc_ok s \<Longrightarrow> fits s n e \<Longrightarrow> calm (findb n e c pc) s"
  shows "tame n e"
  unfolding tame_def using assms by blast

lemma tame_ADD:
  assumes l: "tame n l" and r: "tame n r" and ok: "cpc_ok s" and fl: "fits s n l" and fr: "fits s n r"
  shows "calm (findb n (BINOP ADD l r) c pc) s"
  unfolding findb.simps
proof (intro bind_no_runaway)
  show "calm (eval n l c pc) s" by (rule tameD [OF l ok fl])
next
  fix s1 x
  assume "eval n l c pc s = Inr (s1, x)"
  then have 1: "frame s s1" "cpc_ok s1" using eval_frame [OF ok] by (cases x, blast)+
  note fl1 = frame_fits [OF 1(1) fl] and fr1 = frame_fits [OF 1(1) fr]
  obtain lv kl where x: "x = (lv, kl)" by fastforce
  show "calm (case x of (_, kl) \<Rightarrow> or_else (try_base kl (findb n r c pc)) (\<lambda>rb. bind_st (eval n r c pc) (\<lambda>(_, kr).
           or_else (try_base kr (findb n l c pc)) (\<lambda>lb.
             return (BASE_ILLEGAL, if snd lb = None then snd rb else snd lb))))) s1"
    unfolding x prod.case
  proof (intro or_else_no_runaway try_base_no_runaway bind_no_runaway)
    show "calm (findb n r c pc) s1" by (rule tameD [OF r 1(2) fr1])
  next
    fix s2 rb
    assume "try_base kl (findb n r c pc) s1 = Inr (s2, rb)"
    then have 2: "frame s1 s2" "cpc_ok s2" using fr.try_base_frame [OF fr.frames_eval 1(2)] by blast+
    note fl2 = frame_fits [OF 2(1) fl1] and fr2 = frame_fits [OF 2(1) fr1]
    show "calm (eval n r c pc) s2" by (rule tameD [OF r 2(2) fr2])
    fix s3 y
    assume "eval n r c pc s2 = Inr (s3, y)"
    then have 3: "frame s2 s3" "cpc_ok s3" using eval_frame [OF 2(2)] by (cases y, blast)+
    have "calm (findb n l c pc) s3" by (rule tameD [OF l 3(2) frame_fits [OF 3(1) fl2]])
    then show "calm (case y of (_, kr) \<Rightarrow> or_else (try_base kr (findb n l c pc)) (\<lambda>lb.
             return (BASE_ILLEGAL, if snd lb = None then snd rb else snd lb))) s3"
      by (cases y) (auto intro: or_else_no_runaway try_base_no_runaway)
  qed
qed

lemma tame_SUB:
  assumes l: "tame n l" and r: "tame n r" and ok: "cpc_ok s" and fl: "fits s n l" and fr: "fits s n r"
  shows "calm (findb n (BINOP SUB l r) c pc) s"
  unfolding findb.simps
proof (intro bind_no_runaway)
  show "calm (eval n r c pc) s" by (rule tameD [OF r ok fr])
next
  fix s1 x
  assume "eval n r c pc s = Inr (s1, x)"
  then have 1: "frame s s1" "cpc_ok s1" using eval_frame [OF ok] by (cases x, blast)+
  note fl1 = frame_fits [OF 1(1) fl] and fr1 = frame_fits [OF 1(1) fr]
  obtain rv kr where x: "x = (rv, kr)" by fastforce
  show "calm (case x of (_, kr) \<Rightarrow> or_else (try_base kr (findb n l c pc)) (\<lambda>_. bind_st (findb n l c pc) (\<lambda>lb.
           if fst lb = BASE_OK then bind_st (findb n r c pc) (pcrel_base c (snd lb))
           else return (BASE_ILLEGAL, snd lb)))) s1"
    unfolding x prod.case
  proof (intro or_else_no_runaway try_base_no_runaway bind_no_runaway)
    show "calm (findb n l c pc) s1" by (rule tameD [OF l 1(2) fl1])
  next
    fix s2 lb
    assume "try_base kr (findb n l c pc) s1 = Inr (s2, lb)"
    then have 2: "frame s1 s2" "cpc_ok s2" using fr.try_base_frame [OF fr.frames_eval 1(2)] by blast+
    note fl2 = frame_fits [OF 2(1) fl1] and fr2 = frame_fits [OF 2(1) fr1]
    show "calm (findb n l c pc) s2" by (rule tameD [OF l 2(2) fl2])
    fix s3 lb'
    assume "findb n l c pc s2 = Inr (s3, lb')"
    then have 3: "frame s2 s3" "cpc_ok s3" using findb_frame [OF 2(2)] by blast+
    have "calm (findb n r c pc) s3" by (rule tameD [OF r 3(2) frame_fits [OF 3(1) fr2]])
    then show "calm (if fst lb' = BASE_OK then bind_st (findb n r c pc) (pcrel_base c (snd lb'))
           else return (BASE_ILLEGAL, snd lb')) s3"
      by (auto intro: bind_no_runaway pcrel_base_no_runaway)
  qed
qed

lemma tame: "tame n e"
proof (induction n e rule: fuel_expr_induct)
  case (SYM n y)
  show ?case
  proof (rule tameI)
    fix c pc s
    assume ok: "cpc_ok s" and fits: "fits s (Suc n) (SYM y)"
    show "calm (eval (Suc n) (SYM y) c pc) s"
    proof (cases "sym_type (sym s y) = EXPRESSION")
      case True
      have "calm (eval n e c pc) (upd_sym y (set_flag INEVAL) s)" if "sym_expr (sym s y) = Some e" for e
        using fits True that fits_same_defs [OF set_same_defs]
        by (intro tameD [OF SYM cpc_ok_set [OF ok]]) auto
      then show ?thesis using True
        by (auto simp: get_Inr modify_Inr intro!: bind_no_runaway split: option.split)
    next
      case False
      then show ?thesis by (auto simp: get_Inr eval_label_no_runaway intro!: bind_no_runaway)
    qed
    let ?s = "update_curpc y c pc s"
    have f: "frame s ?s" by simp
    have "calm (findb n e c pc) ?s" if "sym_type (sym ?s y) = EXPRESSION" "sym_expr (sym ?s y) = Some e" for e
      using frame_fits [OF f fits] that by (intro tameD [OF SYM frame_cpc_ok [OF f ok]]) simp
    then show "calm (findb (Suc n) (SYM y) c pc) s"
      by (auto simp: get_Inr modify_Inr intro!: bind_no_runaway split: option.split)
  qed
next
  case (SYM0 y)
  show ?case
  proof (rule tameI)
    fix c pc s
    assume ok: "cpc_ok s" and fits: "fits s 0 (SYM y)"
    then show "calm (eval 0 (SYM y) c pc) s"
      by (auto simp: get_Inr eval_label_no_runaway intro!: bind_no_runaway)
    have "fits (update_curpc y c pc s) 0 (SYM y)"
      by (rule frame_fits [OF frame_update_curpc fits])
    then show "calm (findb 0 (SYM y) c pc) s"
      by (auto simp: get_Inr modify_Inr intro!: bind_no_runaway)
  qed
next
  case (UNOP n f l)
  show ?case
    by (rule tameI) (auto intro!: bind_no_runaway tameD [OF UNOP] split: prod.split)
next
  case (BINOP n f l r)
  show ?case
  proof (rule tameI)
    fix c pc s
    assume ok: "cpc_ok s" and fits: "fits s n (BINOP f l r)"
    then have fl: "fits s n l" and fr: "fits s n r" by simp_all
    show "calm (eval n (BINOP f l r) c pc) s" unfolding eval_BINOP
    proof (intro bind_no_runaway)
      show "calm (eval n l c pc) s" by (rule tameD [OF BINOP(1) ok fl])
    next
      fix s1 x
      assume "eval n l c pc s = Inr (s1, x)"
      then have 1: "frame s s1" "cpc_ok s1" using eval_frame [OF ok] by (cases x, blast)+
      obtain lv kl where x: "x = (lv, kl)" by fastforce
      show "calm (case x of (lv, kl) \<Rightarrow> bind_st (eval n r c pc) (\<lambda>(rv, kr). binop_rest n f l r c pc lv kl rv kr)) s1"
        unfolding x prod.case
      proof (intro bind_no_runaway)
        show "calm (eval n r c pc) s1" by (rule tameD [OF BINOP(2) 1(2) frame_fits [OF 1(1) fr]])
      next
        fix s2 y
        assume "eval n r c pc s1 = Inr (s2, y)"
        then have 2: "frame s1 s2" "cpc_ok s2" using eval_frame [OF 1(2)] by (cases y, blast)+
        then show "calm (case y of (rv, kr) \<Rightarrow> binop_rest n f l r c pc lv kl rv kr) s2"
          using tame_binop_rest [OF BINOP 2(2)] frame_fits 1(1) fl fr by (auto split: prod.split)
      qed
    qed
    show "calm (findb n (BINOP f l r) c pc) s"
      using tame_ADD [OF BINOP ok fl fr] tame_SUB [OF BINOP ok fl fr]
      by (cases "f = ADD \<or> f = SUB") (auto simp: findb_other)
  qed
next
  case (HUG n h)
  show ?case by (rule tameI) (simp_all add: eval_huge_no_runaway)
next
  case (NUM n v)
  show ?case by (rule tameI) simp_all
qed

section \<open>The fuel of the wrappers is enough\<close>

text \<open>The equates that are not being evaluated.\<close>

definition pending :: "asm \<Rightarrow> symid set" where
  "pending s = {y. y < length (syms s) \<and> sym_type (sym s y) = EXPRESSION \<and> \<not> sym_has (sym s y) INEVAL}"

lemma finite_pending [simp]: "finite (pending s)"
  by (simp add: pending_def)

lemma frame_pending:
  assumes f: "frame s s'" and ok: "cpc_ok s"
  shows "pending s' = pending s"
proof -
  have "(sym_type (sym s' y) = EXPRESSION \<and> \<not> sym_has (sym s' y) INEVAL)
      \<longleftrightarrow> (sym_type (sym s y) = EXPRESSION \<and> \<not> sym_has (sym s y) INEVAL)" if "y < length (syms s)" for y
  proof (cases "cpc s = Some y")
    case True
    then have "sym_type (sym s y) = LABSYM" using ok by (simp add: cpc_ok_def)
    moreover have "sym_type (sym s' y) = sym_type (sym s y)"
      using frame_same_defs [OF f] that by (simp add: same_defs_def)
    ultimately show ?thesis by simp
  next
    case False
    then show ?thesis using f that by (simp add: frame_def)
  qed
  moreover have "length (syms s') = length (syms s)" using f by (simp add: frame_def)
  ultimately show ?thesis by (auto simp: pending_def)
qed

lemma has_set_flag: "f \<noteq> 0 \<Longrightarrow> sym_has (set_flag f x) f"
proof -
  assume "f \<noteq> 0"
  moreover have "(sym_flags x OR f) AND f = f" by (rule bit_word_eqI) (auto simp: bit_simps)
  ultimately show ?thesis by (simp add: sym_has_def set_flag_def)
qed

lemma pending_set:
  assumes "y \<in> pending s"
  shows "card (pending (upd_sym y (set_flag INEVAL) s)) < card (pending s)"
proof -
  have "sym_has (set_flag INEVAL (sym s y)) INEVAL" by (rule has_set_flag) (simp add: INEVAL_def)
  then have "pending (upd_sym y (set_flag INEVAL) s) \<subseteq> pending s - {y}"
    by (auto simp: pending_def nth_upd set_flag_def split: if_splits)
  then have "card (pending (upd_sym y (set_flag INEVAL) s)) \<le> card (pending s - {y})"
    by (intro card_mono) simp_all
  also have "\<dots> < card (pending s)" using assms by (intro card_Diff1_less) simp_all
  finally show ?thesis .
qed

lemma eval_calm:
  "wf_asm s \<Longrightarrow> wf_expr s e \<Longrightarrow> card (pending s) \<le> n \<Longrightarrow> calm (eval n e c pc) s"
proof (induction n e arbitrary: s rule: fuel_expr_induct)
  case (SYM n y)
  have y: "y < length (syms s)" using SYM.prems by (simp add: wf_expr_def)
  let ?s = "upd_sym y (set_flag INEVAL) s"
  have "calm (eval n e c pc) ?s"
    if e: "sym_type (sym s y) = EXPRESSION" "\<not> sym_has (sym s y) INEVAL" "sym_expr (sym s y) = Some e" for e
  proof (rule SYM.IH)
    show "wf_asm ?s" using SYM.prems(1) by (rule wf_set)
    show "wf_expr ?s e" using wf_expr_of_sym [OF SYM.prems(1) y e(3)] wf_expr_same_defs [OF set_same_defs] by blast
    have "y \<in> pending s" using y e by (simp add: pending_def)
    then show "card (pending ?s) \<le> n" using pending_set [of y s] SYM.prems(3) by simp
  qed
  then show ?case
    by (auto simp: get_Inr modify_Inr eval_label_no_runaway intro!: bind_no_runaway split: option.split)
next
  case (SYM0 y)
  have "y \<notin> pending s" using SYM0.prems(3) by (auto simp: card_eq_0_iff)
  then show ?case using SYM0.prems(2)
    by (auto simp: get_Inr eval_label_no_runaway wf_expr_def pending_def intro!: bind_no_runaway)
next
  case (UNOP n f l)
  have "calm (eval n l c pc) s" using UNOP by (simp add: wf_expr_def)
  then show ?case by (auto intro!: bind_no_runaway split: prod.split)
next
  case (BINOP n f l r)
  have wf: "wf_expr s l" "wf_expr s r" using BINOP.prems(2) by (auto simp: wf_expr_def)
  have ok: "cpc_ok s" using BINOP.prems(1) by (simp add: wf_asm_def)
  show ?case unfolding eval_BINOP
  proof (rule bind_no_runaway)
    show "calm (eval n l c pc) s" using BINOP.IH(1) BINOP.prems wf by blast
  next
    fix s1 x
    assume el: "eval n l c pc s = Inr (s1, x)"
    obtain lv kl where x: "x = (lv, kl)" by fastforce
    have 1: "frame s s1" "cpc_ok s1" using eval_frame [OF ok el [unfolded x]] by auto
    have wf1: "wf_asm s1" "wf_expr s1 l" "wf_expr s1 r"
      using wf_frame [OF 1(1) BINOP.prems(1)] wf wf_expr_same_defs [OF frame_same_defs [OF 1(1)]] by auto
    have p1: "card (pending s1) \<le> n" using frame_pending [OF 1(1) ok] BINOP.prems(3) by simp
    have fl: "fits s n l" using eval_fits [OF el [unfolded x] BINOP.prems(1) wf(1)] .
    show "calm (case x of (lv, kl) \<Rightarrow> bind_st (eval n r c pc) (\<lambda>(rv, kr). binop_rest n f l r c pc lv kl rv kr)) s1"
      unfolding x prod.case
    proof (rule bind_no_runaway)
      show "calm (eval n r c pc) s1" using BINOP.IH(2) wf1 p1 by blast
    next
      fix s2 y
      assume er: "eval n r c pc s1 = Inr (s2, y)"
      obtain rv kr where y: "y = (rv, kr)" by fastforce
      have 2: "frame s1 s2" "cpc_ok s2" using eval_frame [OF 1(2) er [unfolded y]] by auto
      have fr: "fits s1 n r" using eval_fits [OF er [unfolded y] wf1(1,3)] .
      have "fits s2 n l" "fits s2 n r"
        using fl fr frame_fits 1(1) 2(1) by blast+
      then show "calm (case y of (rv, kr) \<Rightarrow> binop_rest n f l r c pc lv kl rv kr) s2"
        using tame_binop_rest [OF tame tame 2(2)] by (simp add: y)
    qed
  qed
next
  case (HUG n h)
  show ?case by (simp add: eval_huge_no_runaway)
next
  case (NUM n v)
  show ?case by simp
qed

lemma card_pending: "card (pending s) \<le> fuel s"
proof -
  have "pending s \<subseteq> {..<length (syms s)}" by (auto simp: pending_def)
  then have "card (pending s) \<le> card {..<length (syms s)}" by (intro card_mono) simp_all
  then show ?thesis by (simp add: fuel_def)
qed

lemma eval_expr_ends: "wf_asm s \<Longrightarrow> wf_expr s e \<Longrightarrow> eval_expr e c pc s \<noteq> Inl Runaway"
  using eval_calm [OF _ _ card_pending] by (auto simp: eval_expr_def calm_def)

lemma find_base_ends:
  assumes "wf_asm s" and "wf_expr s e" and "eval_expr e c pc s = Inr r"
  shows "find_base e c' pc' s \<noteq> Inl Runaway"
proof -
  obtain s' v where "eval (fuel s) e c pc s = Inr (s', v)"
    using assms(3) by (cases r) (auto simp: eval_expr_def)
  then have "fits s (fuel s) e" using eval_fits assms(1,2) by blast
  then show ?thesis
    using tameD(2) [OF tame] assms(1) by (simp add: find_base_def calm_def wf_asm_def)
qed

section \<open>Recursive equates\<close>

text \<open>The equates a symbol is defined by directly.\<close>

definition defined_by :: "asm \<Rightarrow> (symid \<times> symid) set" where
  "defined_by s = {(y, z). y < length (syms s) \<and> sym_type (sym s y) = EXPRESSION
      \<and> (\<exists>e. sym_expr (sym s y) = Some e \<and> z \<in> expr_syms e)}"

lemma fits_sub: "fits s n e \<Longrightarrow> z \<in> expr_syms e \<Longrightarrow> fits s n (SYM z)"
proof (induction e)
  case (SYM x)
  then show ?case by simp
qed auto

lemma fits_defined_by: "fits s n (SYM y) \<Longrightarrow> (y, z) \<in> defined_by s \<Longrightarrow> \<exists>m < n. fits s m (SYM z)"
proof (cases n)
  case (Suc m)
  assume "fits s n (SYM y)" "(y, z) \<in> defined_by s"
  with Suc have "fits s m (SYM z)" by (auto simp: defined_by_def intro: fits_sub)
  with Suc show ?thesis by blast
qed (auto simp: defined_by_def)

lemma fits_trancl: "(y, z) \<in> (defined_by s)\<^sup>+ \<Longrightarrow> fits s n (SYM y) \<Longrightarrow> \<exists>m < n. fits s m (SYM z)"
proof (induction arbitrary: n rule: trancl_induct)
  case (base z)
  then show ?case by (rule fits_defined_by [rotated])
next
  case (step z w)
  obtain m where "m < n" "fits s m (SYM z)" using step.IH [OF step.prems] by blast
  then show ?case using fits_defined_by [OF _ step.hyps(2), of m] by (meson order.strict_trans)
qed

lemma recursive_not_fits: "(y, y) \<in> (defined_by s)\<^sup>+ \<Longrightarrow> \<not> fits s n (SYM y)"
proof (induction n rule: less_induct)
  case (less n)
  show ?case
  proof
    assume "fits s n (SYM y)"
    then obtain m where "m < n" "fits s m (SYM y)" using fits_trancl [OF less.prems] by blast
    then show False using less.IH less.prems by blast
  qed
qed

lemma eval_recursive_stops:
  assumes "wf_asm s" and "y < length (syms s)" and "(y, y) \<in> (defined_by s)\<^sup>+"
  shows "\<exists>e. eval_expr (SYM y) c pc s = Inl e \<and> e \<noteq> Runaway"
proof (cases "eval_expr (SYM y) c pc s")
  case (Inl e)
  then show ?thesis using eval_expr_ends [OF assms(1), of "SYM y" c pc] assms(2) by (auto simp: wf_expr_def)
next
  case (Inr r)
  then obtain s' v where "eval (fuel s) (SYM y) c pc s = Inr (s', v)"
    by (cases r) (auto simp: eval_expr_def)
  then have "fits s (fuel s) (SYM y)" using eval_fits assms(1,2) by (simp add: wf_expr_def)
  then show ?thesis using recursive_not_fits [OF assms(3)] by blast
qed

section \<open>Properties\<close>


text \<open>
  C25. An equate whose definition needs itself, through any number of other equates, has no
  value: its evaluation always ends with an error.
\<close>

theorem recursive_equate_fails:
  assumes "wf_asm s" and "y < length (syms s)" and "(y, y) \<in> (defined_by s)\<^sup>+"
  shows "\<exists>e. eval_expr (SYM y) c pc s = Inl e \<and> e \<noteq> Runaway"
  by (rule eval_recursive_stops [OF assms])

definition equate :: "string \<Rightarrow> expr \<Rightarrow> symbol" where
  "equate n e = \<lparr>sym_type = EXPRESSION, sym_flags = EQUATE, sym_name = n, sym_expr = Some e, sym_size = None,
     sym_sec = None, sym_pc = 0, sym_align = 0\<rparr>"

definition equates :: "expr list \<Rightarrow> asm" where
  "equates es = \<lparr>syms = map (equate []) es, secs = [], cpc = None, final_pass = True, num_secs = 0,
     bytespertaddr = 4, msgs = []\<rparr>"


lemma recursive_equate_fails_witness:
  "\<exists>e. eval_expr (SYM 0) None 0 (equates [BINOP ADD (SYM 1) (NUM 1), UNOP NEG (SYM 0)]) = Inl e \<and> e \<noteq> Runaway"
proof -
  let ?s = "equates [BINOP ADD (SYM 1) (NUM 1), UNOP NEG (SYM 0)]"
  have "(0, 1) \<in> defined_by ?s" "(1, 0) \<in> defined_by ?s"
    by (auto simp: defined_by_def equates_def equate_def)
  then have "(0, 0) \<in> (defined_by ?s)\<^sup>+" by (meson r_into_trancl trancl.trancl_into_trancl)
  then show ?thesis
    by (intro recursive_equate_fails) (simp_all add: wf_asm_def cpc_ok_def wf_expr_def equates_def equate_def)
qed

text \<open>
  C24. Evaluating an expression leaves the symbols as they are, except for the place of the dummy
  symbol of the current pc: no equate stays marked as being evaluated. Sections change in their
  dependencies only, and messages are added, none removed.
\<close>

theorem evaluation_frame_kept:
  assumes "cpc_ok s" and "eval_expr e c pc s = Inr (s', v)"
  shows "length (syms s') = length (syms s)
    \<and> (\<forall>y < length (syms s). (cpc s \<noteq> Some y \<longrightarrow> sym s' y = sym s y) \<and> unplaced (sym s' y) = unplaced (sym s y))
    \<and> map nodeps (secs s') = map nodeps (secs s) \<and> (\<exists>ms. msgs s' = msgs s @ ms)"
  using eval_frame [of s "fuel s" e c pc s' v] assms by (simp add: eval_expr_def frame_def)

lemma evaluation_frame_kept_witness:
  "\<exists>s'. eval_expr (SYM 0) None 0 (equates [NUM 2]) = Inr (s', 2, True) \<and> sym s' 0 = equate [] (NUM 2)"
proof -
  have e: "eval_expr (SYM 0) None 0 (equates [NUM 2])
      = Inr (upd_sym 0 (clear_flag INEVAL) (upd_sym 0 (set_flag INEVAL) (equates [NUM 2])), 2, True)"
    by (simp add: eval_expr_def fuel_def equates_def equate_def action_defs sym_has_def symflag_defs numeral_eq_Suc)
  have "cpc_ok (equates [NUM 2])" by (simp add: cpc_ok_def equates_def)
  from evaluation_frame_kept [OF this e] e show ?thesis by (simp add: equates_def)
qed

end
