(* ===== verification/Exprreloc.thy ===== *)
theory Exprreloc
  imports Exprframe
begin

text \<open>
  Soundness of relocatable expressions. Two states that differ by a shift of the sections are
  evaluated side by side: an expression that \<open>eval_expr\<close> calls constant has the same value in
  both, and one with the base symbol that \<open>find_base\<close> returns moves exactly with that symbol.
  The labels of sections with an absolute address are excluded; with them the code calls
  expressions constant that are not.
\<close>

section \<open>Two placements of the same program\<close>

definition label_shift :: "(secid \<Rightarrow> taddr) \<Rightarrow> asm \<Rightarrow> symid \<Rightarrow> taddr" where
  "label_shift \<delta> s y =
     (if LOCREF (sym s y) \<and> \<not> sym_has (sym s y) ABSLABEL then
        (case sym_sec (sym s y) of None \<Rightarrow> 0 | Some k \<Rightarrow> if sec_has (sec s k) UNALLOCATED then 0 else \<delta> k)
      else 0)"

text \<open>Equal up to the addresses of the labels, the marks of running evaluations, dependencies and messages.\<close>

definition related :: "(secid \<Rightarrow> taddr) \<Rightarrow> asm \<Rightarrow> asm \<Rightarrow> bool" where
  "related \<delta> s t \<longleftrightarrow> length (syms t) = length (syms s) \<and> cpc t = cpc s \<and> final_pass t = final_pass s
     \<and> num_secs t = num_secs s \<and> bytespertaddr t = bytespertaddr s
     \<and> (\<forall>k. sec_flags (sec t k) = sec_flags (sec s k))
     \<and> (\<forall>y < length (syms s). sym_type (sym t y) = sym_type (sym s y) \<and> sym_expr (sym t y) = sym_expr (sym s y)
          \<and> sym_sec (sym t y) = sym_sec (sym s y)
          \<and> sym_flags (sym t y) AND NOT INEVAL = sym_flags (sym s y) AND NOT INEVAL
          \<and> sym_pc (sym t y) = sym_pc (sym s y) + label_shift \<delta> s y)"

text \<open>The dummy symbol of the current pc stands at the position of the evaluation.\<close>

definition placed :: "secid option \<Rightarrow> taddr \<Rightarrow> asm \<Rightarrow> bool" where
  "placed c pc s \<longleftrightarrow> (\<forall>y. update_curpc y c pc s = s)"

definition no_abslabels :: "asm \<Rightarrow> bool" where
  "no_abslabels s \<longleftrightarrow> (\<forall>y < length (syms s). LOCREF (sym s y) \<longrightarrow> \<not> sym_has (sym s y) ABSLABEL)"

definition allocated :: "secid option \<Rightarrow> asm \<Rightarrow> bool" where
  "allocated c s \<longleftrightarrow> (\<forall>k. c = Some k \<longrightarrow> \<not> sec_has (sec s k) UNALLOCATED)"

definition ctx :: "secid option \<Rightarrow> taddr \<Rightarrow> asm \<Rightarrow> bool" where
  "ctx c pc s \<longleftrightarrow> wf_asm s \<and> placed c pc s \<and> no_abslabels s \<and> allocated c s"

text \<open>At such a position an evaluation changes nothing but dependencies and messages.\<close>

definition stable :: "asm \<Rightarrow> asm \<Rightarrow> bool" where
  "stable s s' \<longleftrightarrow> syms s' = syms s \<and> cpc s' = cpc s \<and> final_pass s' = final_pass s
     \<and> num_secs s' = num_secs s \<and> bytespertaddr s' = bytespertaddr s
     \<and> (\<forall>k. sec_flags (sec s' k) = sec_flags (sec s k))"

lemma stable_placed:
  assumes "stable s s'" and "placed c pc s"
  shows "placed c pc s'"
proof -
  have "update_curpc y c pc s' = s'" for y
  proof (cases "c = None \<or> cpc s \<noteq> Some y")
    case True
    then show ?thesis using assms(1) by (auto simp: update_curpc_def stable_def split: option.split)
  next
    case False
    then obtain k where k: "c = Some k" "cpc s = Some y" by auto
    define f where "f = (\<lambda>x. (if sec_has (sec s k) ABSOLUTE then set_flag ABSLABEL else clear_flag ABSLABEL)
        (x\<lparr>sym_sec := Some k, sym_pc := pc\<rparr>))"
    have "update_curpc y c pc s = upd_sym y f s" using k by (simp add: update_curpc_def f_def)
    then have "upd_sym y f s = s" using assms(2) unfolding placed_def by metis
    then have "syms (upd_sym y f s) = syms s" by simp
    then have eq: "(syms s')[y := f (sym s' y)] = syms s'"
      using assms(1) by (simp add: stable_def)
    have "update_curpc y c pc s' = upd_sym y f s'"
      using k assms(1) by (simp add: update_curpc_def f_def stable_def sec_has_def)
    also have "\<dots> = s'" unfolding upd_sym_def eq by simp
    finally show ?thesis .
  qed
  then show ?thesis by (simp add: placed_def)
qed

lemma stable_ctx:
  assumes "stable s s'" and "ctx c pc s"
  shows "ctx c pc s'"
proof -
  have "syms s' = syms s" "cpc s' = cpc s" using assms(1) by (auto simp: stable_def)
  then have "wf_asm s' = wf_asm s" "no_abslabels s' = no_abslabels s"
    by (simp_all add: wf_asm_def cpc_ok_def wf_expr_def no_abslabels_def)
  moreover have "allocated c s' = allocated c s"
    using assms(1) by (simp add: allocated_def stable_def sec_has_def)
  ultimately show ?thesis using assms stable_placed by (simp add: ctx_def)
qed

lemma placed_set:
  assumes "placed c pc s" and "cpc_ok s" and "sym_type (sym s y) = EXPRESSION"
  shows "placed c pc (upd_sym y (set_flag f) s)"
proof -
  have ny: "cpc s \<noteq> Some y" using assms by (auto simp: cpc_ok_def)
  have "update_curpc x c pc (upd_sym y (set_flag f) s) = upd_sym y (set_flag f) s" for x
  proof (cases "c = None \<or> cpc s \<noteq> Some x")
    case True
    then show ?thesis by (auto simp: update_curpc_def split: option.split)
  next
    case False
    then obtain k where k: "c = Some k" "cpc s = Some x" by auto
    define g where "g = (\<lambda>x. (if sec_has (sec s k) ABSOLUTE then set_flag ABSLABEL else clear_flag ABSLABEL)
        (x\<lparr>sym_sec := Some k, sym_pc := pc\<rparr>))"
    have "update_curpc x c pc s = upd_sym x g s" using k by (simp add: update_curpc_def g_def)
    then have "upd_sym x g s = s" using assms(1) unfolding placed_def by metis
    then have eq: "(syms s)[x := g (sym s x)] = syms s" by (metis upd_sym_simps(7))
    have xy: "x \<noteq> y" using ny k by auto
    have "update_curpc x c pc (upd_sym y (set_flag f) s) = upd_sym x g (upd_sym y (set_flag f) s)"
      using k by (simp add: update_curpc_def g_def)
    also have "\<dots> = s\<lparr>syms := (syms s)[y := set_flag f (sym s y), x := g (sym s x)]\<rparr>"
      using xy by (simp add: upd_sym_def)
    also have "\<dots> = s\<lparr>syms := (syms s)[y := set_flag f (sym s y)]\<rparr>"
      using xy eq by (simp add: list_update_swap)
    finally show ?thesis by (simp add: upd_sym_def)
  qed
  then show ?thesis by (simp add: placed_def)
qed

lemma ctx_set:
  assumes "ctx c pc s" and "sym_type (sym s y) = EXPRESSION"
  shows "ctx c pc (upd_sym y (set_flag INEVAL) s)"
proof -
  have "no_abslabels (upd_sym y (set_flag INEVAL) s)"
    using assms by (auto simp: ctx_def no_abslabels_def nth_upd set_flag_def LOCREF_def)
  then show ?thesis
    using assms wf_set placed_set by (auto simp: ctx_def wf_asm_def allocated_def)
qed

lemma stable_ineval:
  assumes "\<not> sym_has (sym s y) INEVAL" and "stable (upd_sym y (set_flag INEVAL) s) s1"
  shows "stable s (upd_sym y (clear_flag INEVAL) s1)"
proof -
  have "(syms s1)[y := clear_flag INEVAL (sym s1 y)] = syms s"
  proof (cases "y < length (syms s)")
    case True
    then have "clear_flag INEVAL (set_flag INEVAL (sym s y)) = sym s y"
      using assms(1) by (simp add: clear_flag_def set_flag_def sym_has_def flags_restore)
    then show ?thesis using assms(2) True by (simp add: stable_def)
  next
    case False
    then show ?thesis using assms(2) by (simp add: stable_def list_update_beyond)
  qed
  then show ?thesis using assms(2) by (simp add: stable_def)
qed

lemma stable_refl [simp]: "stable s s"
  by (simp add: stable_def)

lemma stable_deps:
  "(\<And>x. sec_flags (f x) = sec_flags x) \<Longrightarrow> stable s (upd_sec d f s)"
  by (simp add: stable_def nth_upd)

lemma stable_trans: "stable s s' \<Longrightarrow> stable s' s'' \<Longrightarrow> stable s s''"
  by (simp add: stable_def)

lemma stable_log_all: "stable s (log_all ms s)"
  by (simp add: stable_def log_all_def)

lemma stable_curpc: "ctx c pc s \<Longrightarrow> stable s (update_curpc y c pc s)"
  by (simp add: ctx_def placed_def)

interpretation st: evaluation_frame c pc "ctx c pc" stable
proof
  show "stable s (upd_sec d (\<lambda>x. x\<lparr>sec_deps := List.insert i (sec_deps x)\<rparr>) s)" for s d i
    by (rule stable_deps) simp
  show "stable s (log_all ms s)" for s ms by (rule stable_log_all)
  show "ctx c pc s \<Longrightarrow> stable s (update_curpc y c pc s)" for s y by (rule stable_curpc)
  show "\<not> sym_has (sym s y) INEVAL \<Longrightarrow> stable (upd_sym y (set_flag INEVAL) s) s1 \<Longrightarrow>
      stable s (upd_sym y (clear_flag INEVAL) s1)" for s s1 y by (rule stable_ineval)
  show "ctx c pc s \<Longrightarrow> sym_type (sym s y) = EXPRESSION \<Longrightarrow> ctx c pc (upd_sym y (set_flag INEVAL) s)" for s y
    by (rule ctx_set)
qed (auto intro: stable_trans stable_ctx)

section \<open>What related states have in common\<close>

text \<open>Two runs at the same place: \<open>p\<close> and \<open>q\<close> are the values of the pc.\<close>

definition both :: "secid option \<Rightarrow> taddr \<Rightarrow> taddr \<Rightarrow> (secid \<Rightarrow> taddr) \<Rightarrow> asm \<Rightarrow> asm \<Rightarrow> bool" where
  "both c p q \<delta> s t \<longleftrightarrow> ctx c p s \<and> ctx c q t \<and> related \<delta> s t"

lemma label_shift_stable: "stable s s' \<Longrightarrow> label_shift \<delta> s' y = label_shift \<delta> s y"
  by (simp add: label_shift_def stable_def sec_has_def split: option.split)

lemma related_stable:
  assumes "related \<delta> s t" and "stable s s'" and "stable t t'"
  shows "related \<delta> s' t'"
proof -
  have "label_shift \<delta> s' y = label_shift \<delta> s y" for y using assms(2) by (rule label_shift_stable)
  then show ?thesis using assms by (simp add: related_def stable_def)
qed

lemma both_stable:
  "both c p q \<delta> s t \<Longrightarrow> stable s s' \<Longrightarrow> stable t t' \<Longrightarrow> both c p q \<delta> s' t'"
  using related_stable stable_ctx by (auto simp: both_def)

lemma both_left:
  assumes "both c p q \<delta> s t"
  shows "eval n e c p s = Inr (s', v) \<Longrightarrow> both c p q \<delta> s' t \<and> wf_expr s' e' = wf_expr s e'"
    and "findb n e c p s = Inr (s', b) \<Longrightarrow> both c p q \<delta> s' t \<and> wf_expr s' e' = wf_expr s e'"
proof -
  have s: "ctx c p s" using assms by (simp add: both_def)
  have "stable s s' \<Longrightarrow> both c p q \<delta> s' t \<and> wf_expr s' e' = wf_expr s e'"
    using both_stable [OF assms _ stable_refl] by (simp add: stable_def wf_expr_def)
  then show "eval n e c p s = Inr (s', v) \<Longrightarrow> both c p q \<delta> s' t \<and> wf_expr s' e' = wf_expr s e'"
    and "findb n e c p s = Inr (s', b) \<Longrightarrow> both c p q \<delta> s' t \<and> wf_expr s' e' = wf_expr s e'"
    using st.eval_keeps [OF s] st.findb_keeps [OF s] by blast+
qed

lemma both_right:
  assumes "both c p q \<delta> s t"
  shows "eval n e c q t = Inr (t', v) \<Longrightarrow> both c p q \<delta> s t'"
    and "findb n e c q t = Inr (t', b) \<Longrightarrow> both c p q \<delta> s t'"
proof -
  have t: "ctx c q t" using assms by (simp add: both_def)
  show "eval n e c q t = Inr (t', v) \<Longrightarrow> both c p q \<delta> s t'"
    and "findb n e c q t = Inr (t', b) \<Longrightarrow> both c p q \<delta> s t'"
    using st.eval_keeps [OF t] st.findb_keeps [OF t] both_stable [OF assms stable_refl] by blast+
qed

lemma other_flag:
  fixes a b f :: u32
  assumes "f AND INEVAL = 0" and "a AND NOT INEVAL = b AND NOT INEVAL"
  shows "a AND f = b AND f"
proof -
  have "\<not> (bit f n \<and> bit INEVAL n)" for n
    using assms(1) by (metis bit_and_iff bit_0_eq bot_apply bot_bool_def)
  then have split: "x AND f = (x AND NOT INEVAL) AND f" for x
    by (intro bit_word_eqI) (auto simp: bit_simps)
  show ?thesis unfolding split [of a] split [of b] assms(2) ..
qed

lemma related_sym:
  assumes "related \<delta> s t" and "y < length (syms s)"
  shows "sym_type (sym t y) = sym_type (sym s y)" and "sym_expr (sym t y) = sym_expr (sym s y)"
    and "sym_sec (sym t y) = sym_sec (sym s y)" and "sym_pc (sym t y) = sym_pc (sym s y) + label_shift \<delta> s y"
    and "sym_has (sym t y) ABSLABEL = sym_has (sym s y) ABSLABEL" and "LOCREF (sym t y) = LOCREF (sym s y)"
    and "EXTREF (sym t y) = EXTREF (sym s y)"
proof -
  show "sym_type (sym t y) = sym_type (sym s y)" "sym_expr (sym t y) = sym_expr (sym s y)"
    "sym_sec (sym t y) = sym_sec (sym s y)" "sym_pc (sym t y) = sym_pc (sym s y) + label_shift \<delta> s y"
    using assms by (simp_all add: related_def)
  have "sym_flags (sym t y) AND NOT INEVAL = sym_flags (sym s y) AND NOT INEVAL"
    using assms by (simp add: related_def)
  then have "sym_flags (sym t y) AND f = sym_flags (sym s y) AND f" if "f AND INEVAL = 0" for f
    using other_flag [OF that] by blast
  from this [of ABSLABEL] this [of WEAK]
  have "sym_has (sym t y) ABSLABEL = sym_has (sym s y) ABSLABEL" "sym_has (sym t y) WEAK = sym_has (sym s y) WEAK"
    by (simp_all add: sym_has_def symflag_defs)
  then show "sym_has (sym t y) ABSLABEL = sym_has (sym s y) ABSLABEL" "LOCREF (sym t y) = LOCREF (sym s y)"
    "EXTREF (sym t y) = EXTREF (sym s y)"
    using \<open>sym_type (sym t y) = sym_type (sym s y)\<close> by (simp_all add: LOCREF_def EXTREF_def)
qed

lemma related_sec: "related \<delta> s t \<Longrightarrow> sec_has (sec t k) f = sec_has (sec s k) f"
  by (simp add: related_def sec_has_def)

lemma related_label_shift:
  "related \<delta> s t \<Longrightarrow> y < length (syms s) \<Longrightarrow> label_shift \<epsilon> t y = label_shift \<epsilon> s y"
  by (simp add: label_shift_def related_sym related_sec split: option.split)

lemma related_refl: "related (\<lambda>_. 0) s s"
proof -
  have "label_shift (\<lambda>_. 0) s y = 0" for y by (simp add: label_shift_def split: option.split)
  then show ?thesis by (simp add: related_def)
qed

lemma both_refl: "ctx c p s \<Longrightarrow> both c p p (\<lambda>_. 0) s s"
  by (simp add: both_def related_refl)

lemma set_not_ineval: "(f OR INEVAL) AND NOT INEVAL = f AND NOT INEVAL" for f :: u32
  by (rule bit_word_eqI) (auto simp: bit_simps)

lemma related_set:
  "related \<delta> s t \<Longrightarrow> sym_type (sym s y) = EXPRESSION \<Longrightarrow>
     related \<delta> (upd_sym y (set_flag INEVAL) s) t \<and> related \<delta> s (upd_sym y (set_flag INEVAL) t)"
  by (auto simp: related_def nth_upd set_flag_def set_not_ineval label_shift_def LOCREF_def split: option.split)

section \<open>The four statements\<close>

definition agree :: "asm \<Rightarrow> base \<times> symid option \<Rightarrow> base \<times> symid option \<Rightarrow> bool" where
  "agree s b b' \<longleftrightarrow> fst b' = fst b \<and> (fst b = BASE_OK \<longrightarrow> b' = b \<and> (\<exists>y. snd b = Some y \<and> y < length (syms s)))"

text \<open>Both runs agree on what is constant, and on the value of what is.\<close>

definition same_eval :: "secid option \<Rightarrow> nat \<Rightarrow> expr \<Rightarrow> bool" where
  "same_eval c n e \<longleftrightarrow> (\<forall>p q \<delta> s t s' t' v w k l. both c p q \<delta> s t \<longrightarrow> wf_expr s e \<longrightarrow>
      eval n e c p s = Inr (s', v, k) \<longrightarrow> eval n e c q t = Inr (t', w, l) \<longrightarrow> l = k \<and> (k \<longrightarrow> w = v))"

text \<open>Both runs find the same base.\<close>

definition same_base :: "secid option \<Rightarrow> nat \<Rightarrow> expr \<Rightarrow> bool" where
  "same_base c n e \<longleftrightarrow> (\<forall>p q \<delta> s t s' t' b b'. both c p q \<delta> s t \<longrightarrow> wf_expr s e \<longrightarrow>
      findb n e c p s = Inr (s', b) \<longrightarrow> findb n e c q t = Inr (t', b') \<longrightarrow> agree s b b')"

text \<open>The value moves with the base.\<close>

definition moves :: "secid option \<Rightarrow> nat \<Rightarrow> expr \<Rightarrow> bool" where
  "moves c n e \<longleftrightarrow> (\<forall>p q \<delta> r s t r' s' t' y v w k l. both c p p (\<lambda>_. 0) r s \<longrightarrow> both c p q \<delta> s t \<longrightarrow>
      wf_expr r e \<longrightarrow> findb n e c p r = Inr (r', BASE_OK, Some y) \<longrightarrow>
      eval n e c p s = Inr (s', v, k) \<longrightarrow> eval n e c q t = Inr (t', w, l) \<longrightarrow> w = v + label_shift \<delta> r y)"

text \<open>The base of a constant expression is a label of an unallocated section.\<close>

definition const_base :: "secid option \<Rightarrow> nat \<Rightarrow> expr \<Rightarrow> bool" where
  "const_base c n e \<longleftrightarrow> (\<forall>p s t s' t' y v. both c p p (\<lambda>_. 0) s t \<longrightarrow> wf_expr s e \<longrightarrow>
      eval n e c p s = Inr (s', v, True) \<longrightarrow> findb n e c p t = Inr (t', BASE_OK, Some y) \<longrightarrow>
      LOCREF (sym s y) \<longrightarrow> (\<exists>k. sym_sec (sym s y) = Some k \<and> sec_has (sec s k) UNALLOCATED))"

definition sound :: "secid option \<Rightarrow> nat \<Rightarrow> expr \<Rightarrow> bool" where
  "sound c n e \<longleftrightarrow> same_eval c n e \<and> same_base c n e \<and> moves c n e \<and> const_base c n e"

lemma same_evalD: "sound c n e \<Longrightarrow> both c p q \<delta> s t \<Longrightarrow> wf_expr s e \<Longrightarrow>
    eval n e c p s = Inr (s', v, k) \<Longrightarrow> eval n e c q t = Inr (t', w, l) \<Longrightarrow> l = k \<and> (k \<longrightarrow> w = v)"
  unfolding sound_def same_eval_def by blast

lemma same_baseD: "sound c n e \<Longrightarrow> both c p q \<delta> s t \<Longrightarrow> wf_expr s e \<Longrightarrow>
    findb n e c p s = Inr (s', b) \<Longrightarrow> findb n e c q t = Inr (t', b') \<Longrightarrow> agree s b b'"
  unfolding sound_def same_base_def by blast

lemma movesD: "sound c n e \<Longrightarrow> both c p p (\<lambda>_. 0) r s \<Longrightarrow> both c p q \<delta> s t \<Longrightarrow> wf_expr r e \<Longrightarrow>
    findb n e c p r = Inr (r', BASE_OK, Some y) \<Longrightarrow> eval n e c p s = Inr (s', v, k) \<Longrightarrow>
    eval n e c q t = Inr (t', w, l) \<Longrightarrow> w = v + label_shift \<delta> r y"
  unfolding sound_def moves_def by blast

lemma const_baseD: "sound c n e \<Longrightarrow> both c p p (\<lambda>_. 0) s t \<Longrightarrow> wf_expr s e \<Longrightarrow>
    eval n e c p s = Inr (s', v, True) \<Longrightarrow> findb n e c p t = Inr (t', BASE_OK, Some y) \<Longrightarrow>
    LOCREF (sym s y) \<Longrightarrow> \<exists>k. sym_sec (sym s y) = Some k \<and> sec_has (sec s k) UNALLOCATED"
  unfolding sound_def const_base_def by blast

section \<open>Labels\<close>

lemma eval_label_placed:
  assumes "ctx c p s" and "y < length (syms s)" and "eval_label y c p s = Inr (s', v, k)"
  shows "v = (if LOCREF (sym s y) then sym_pc (sym s y) else 0)"
    and "k = (LOCREF (sym s y) \<and> (case sym_sec (sym s y) of None \<Rightarrow> False | Some j \<Rightarrow> sec_has (sec s j) UNALLOCATED))"
proof -
  have u: "update_curpc y c p s = s" using assms(1) by (simp add: ctx_def placed_def)
  have "LOCREF (sym s y) \<Longrightarrow> \<not> sym_has (sym s y) ABSLABEL"
    using assms(1,2) by (simp add: ctx_def no_abslabels_def)
  with assms(3) u show "v = (if LOCREF (sym s y) then sym_pc (sym s y) else 0)"
    "k = (LOCREF (sym s y) \<and> (case sym_sec (sym s y) of None \<Rightarrow> False | Some j \<Rightarrow> sec_has (sec s j) UNALLOCATED))"
    by (auto simp: eval_label_def bind_st_Inr get_Inr modify_Inr return_Inr Let_def split: if_splits)
qed

lemma eval_label_both:
  assumes b: "both c p q \<delta> s t" and y: "y < length (syms s)"
    and es: "eval_label y c p s = Inr (s', v, k)" and et: "eval_label y c q t = Inr (t', w, l)"
  shows "l = k" and "k \<Longrightarrow> w = v" and "w = v + label_shift \<delta> s y"
proof -
  have rel: "related \<delta> s t" and cs: "ctx c p s" and ct: "ctx c q t" using b by (auto simp: both_def)
  have yt: "y < length (syms t)" using rel y by (simp add: related_def)
  have na: "LOCREF (sym s y) \<Longrightarrow> \<not> sym_has (sym s y) ABSLABEL"
    using cs y by (simp add: ctx_def no_abslabels_def)
  note S = eval_label_placed [OF cs y es] and T = eval_label_placed [OF ct yt et]
  note R = related_sym [OF rel y] related_sec [OF rel]
  show "l = k" using S(2) T(2) R by (simp split: option.split)
  show w: "w = v + label_shift \<delta> s y" using S(1) T(1) R na by (auto simp: label_shift_def)
  show "w = v" if k
  proof -
    have "label_shift \<delta> s y = 0" using that S(2) by (auto simp: label_shift_def split: option.splits)
    then show ?thesis using w by simp
  qed
qed

lemma findb_SYM_other:
  assumes "ctx c p s" and "sym_type (sym s y) \<noteq> EXPRESSION"
  shows "findb n (SYM y) c p s = Inr (s, BASE_OK, Some y)" and "eval n (SYM y) c p s = eval_label y c p s"
proof -
  have u: "update_curpc y c p s = s" using assms(1) by (simp add: ctx_def placed_def)
  show "findb n (SYM y) c p s = Inr (s, BASE_OK, Some y)"
    using assms(2) u by (cases n) (simp_all add: bind_st_def modify_def get_def return_def)
  show "eval n (SYM y) c p s = eval_label y c p s"
    using assms(2) by (cases n) (simp_all add: bind_st_def get_def)
qed

lemma both_type:
  "both c p q \<delta> s t \<Longrightarrow> y < length (syms s) \<Longrightarrow>
     sym_type (sym t y) = sym_type (sym s y) \<and> sym_expr (sym t y) = sym_expr (sym s y) \<and> ctx c p s \<and> ctx c q t"
  using related_sym [of \<delta> s t y] by (simp add: both_def)

lemma agree_refl: "y < length (syms s) \<Longrightarrow> agree s (BASE_OK, Some y) (BASE_OK, Some y)"
  by (simp add: agree_def)

text \<open>The four statements for a symbol, from those of the expression it stands for, if it is an equate.\<close>

lemma eval_SYM_expr:
  assumes "sym_type (sym s y) = EXPRESSION" and "eval (Suc n) (SYM y) c p s = Inr (s', v, k)"
  obtains e s1 where "sym_expr (sym s y) = Some e" "eval n e c p (upd_sym y (set_flag INEVAL) s) = Inr (s1, v, k)"
  using assms by (auto simp: bind_st_Inr get_Inr modify_Inr return_Inr split: if_splits option.splits)

lemma findb_SYM_expr:
  assumes "ctx c p s" and "sym_type (sym s y) = EXPRESSION" and "findb (Suc n) (SYM y) c p s = Inr (s', b)"
  obtains e where "sym_expr (sym s y) = Some e" "findb n e c p s = Inr (s', b)"
proof -
  have u: "update_curpc y c p s = s" using assms(1) by (simp add: ctx_def placed_def)
  show ?thesis using assms(2,3) u that
    by (auto simp: bind_st_Inr get_Inr modify_Inr split: if_splits option.splits)
qed

lemma both_set:
  assumes "both c p q \<delta> s t" and "y < length (syms s)" and "sym_type (sym s y) = EXPRESSION"
  shows "both c p q \<delta> (upd_sym y (set_flag INEVAL) s) t" and "both c p q \<delta> s (upd_sym y (set_flag INEVAL) t)"
  using assms ctx_set related_set both_type [OF assms(1,2)] by (auto simp: both_def)

lemma sound_SYM:
  assumes IH: "\<And>e. sound c n e"
  shows "sound c (Suc n) (SYM y)"
  unfolding sound_def
proof (intro conjI)
  show "same_eval c (Suc n) (SYM y)" unfolding same_eval_def
  proof (intro allI impI)
    fix p q \<delta> s t s' t' v w k l
    assume b: "both c p q \<delta> s t" and wf: "wf_expr s (SYM y)"
      and es: "eval (Suc n) (SYM y) c p s = Inr (s', v, k)" and et: "eval (Suc n) (SYM y) c q t = Inr (t', w, l)"
    have y: "y < length (syms s)" using wf by (simp add: wf_expr_def)
    note T = both_type [OF b y]
    show "l = k \<and> (k \<longrightarrow> w = v)"
    proof (cases "sym_type (sym s y) = EXPRESSION")
      case True
      obtain e s1 where 1: "sym_expr (sym s y) = Some e" "eval n e c p (upd_sym y (set_flag INEVAL) s) = Inr (s1, v, k)"
        using eval_SYM_expr [OF True es] .
      obtain t1 where 2: "eval n e c q (upd_sym y (set_flag INEVAL) t) = Inr (t1, w, l)"
        using eval_SYM_expr [OF _ et] True T 1 by fastforce
      have b1: "both c p q \<delta> (upd_sym y (set_flag INEVAL) s) t" using both_set(1) [OF b y True] .
      have "y < length (syms (upd_sym y (set_flag INEVAL) s))"
        "sym_type (sym (upd_sym y (set_flag INEVAL) s) y) = EXPRESSION"
        using y True by (simp_all add: set_flag_def)
      note b2 = both_set(2) [OF b1 this]
      have "wf_expr s e" using wf_expr_of_sym [OF _ y 1(1)] T by (simp add: ctx_def)
      then have "wf_expr (upd_sym y (set_flag INEVAL) s) e" by (simp add: wf_expr_def)
      from same_evalD [OF IH b2 this 1(2) 2] show ?thesis .
    next
      case False
      then show ?thesis using eval_label_both [OF b y] es et findb_SYM_other T by metis
    qed
  qed
  show "same_base c (Suc n) (SYM y)" unfolding same_base_def
  proof (intro allI impI)
    fix p q \<delta> s t s' t' b b'
    assume bo: "both c p q \<delta> s t" and wf: "wf_expr s (SYM y)"
      and fs: "findb (Suc n) (SYM y) c p s = Inr (s', b)" and ft: "findb (Suc n) (SYM y) c q t = Inr (t', b')"
    have y: "y < length (syms s)" using wf by (simp add: wf_expr_def)
    note T = both_type [OF bo y]
    show "agree s b b'"
    proof (cases "sym_type (sym s y) = EXPRESSION")
      case True
      obtain e where 1: "sym_expr (sym s y) = Some e" "findb n e c p s = Inr (s', b)"
        using findb_SYM_expr [OF _ True fs] T by blast
      have 2: "findb n e c q t = Inr (t', b')"
        using findb_SYM_expr [OF _ _ ft] True T 1(1) by (metis option.inject)
      have "wf_expr s e" using wf_expr_of_sym [OF _ y 1(1)] T by (simp add: ctx_def)
      from same_baseD [OF IH bo this 1(2) 2] show ?thesis .
    next
      case False
      then show ?thesis using findb_SYM_other fs ft T agree_refl [OF y] by (metis Inr_inject prod.inject)
    qed
  qed
  show "moves c (Suc n) (SYM y)" unfolding moves_def
  proof (intro allI impI)
    fix p q \<delta> r s t r' s' t' z v w k l
    assume b0: "both c p p (\<lambda>_. 0) r s" and b: "both c p q \<delta> s t" and wf: "wf_expr r (SYM y)"
      and fr: "findb (Suc n) (SYM y) c p r = Inr (r', BASE_OK, Some z)"
      and es: "eval (Suc n) (SYM y) c p s = Inr (s', v, k)" and et: "eval (Suc n) (SYM y) c q t = Inr (t', w, l)"
    have y: "y < length (syms r)" using wf by (simp add: wf_expr_def)
    note T0 = both_type [OF b0 y]
    have len: "length (syms s) = length (syms r)" using b0 by (simp add: both_def related_def)
    with y have ys: "y < length (syms s)" by simp
    note T = both_type [OF b ys]
    show "w = v + label_shift \<delta> r z"
    proof (cases "sym_type (sym r y) = EXPRESSION")
      case True
      then have Ts: "sym_type (sym s y) = EXPRESSION" using T0 by simp
      obtain e where 0: "sym_expr (sym r y) = Some e" "findb n e c p r = Inr (r', BASE_OK, Some z)"
        using findb_SYM_expr [OF _ True fr] T0 by blast
      obtain s1 where 1: "eval n e c p (upd_sym y (set_flag INEVAL) s) = Inr (s1, v, k)"
        using eval_SYM_expr [OF Ts es] T0 0(1) by (metis option.inject)
      obtain t1 where 2: "eval n e c q (upd_sym y (set_flag INEVAL) t) = Inr (t1, w, l)"
        using eval_SYM_expr [OF _ et] Ts T T0 0(1) by (metis option.inject)
      have b1: "both c p q \<delta> (upd_sym y (set_flag INEVAL) s) t" using both_set(1) [OF b ys Ts] .
      have "y < length (syms (upd_sym y (set_flag INEVAL) s))"
        "sym_type (sym (upd_sym y (set_flag INEVAL) s) y) = EXPRESSION"
        using ys Ts by (simp_all add: set_flag_def)
      note b2 = both_set(2) [OF b1 this]
      have "wf_expr r e" using wf_expr_of_sym [OF _ y 0(1)] T0 by (simp add: ctx_def)
      from movesD [OF IH both_set(2) [OF b0 y True] b2 this 0(2) 1 2] show ?thesis .
    next
      case False
      then have z: "z = y" using findb_SYM_other fr T0 by (metis Inr_inject prod.inject option.inject)
      have "w = v + label_shift \<delta> s y"
        using eval_label_both(3) [OF b ys] es et findb_SYM_other(2) T T0 False by metis
      moreover have "label_shift \<delta> s y = label_shift \<delta> r y"
        using related_label_shift b0 y by (auto simp: both_def)
      ultimately show ?thesis using z by simp
    qed
  qed
  show "const_base c (Suc n) (SYM y)" unfolding const_base_def
  proof (intro allI impI)
    fix p s t s' t' z v
    assume b: "both c p p (\<lambda>_. 0) s t" and wf: "wf_expr s (SYM y)"
      and es: "eval (Suc n) (SYM y) c p s = Inr (s', v, True)"
      and ft: "findb (Suc n) (SYM y) c p t = Inr (t', BASE_OK, Some z)" and loc: "LOCREF (sym s z)"
    have y: "y < length (syms s)" using wf by (simp add: wf_expr_def)
    note T = both_type [OF b y]
    show "\<exists>k. sym_sec (sym s z) = Some k \<and> sec_has (sec s k) UNALLOCATED"
    proof (cases "sym_type (sym s y) = EXPRESSION")
      case True
      obtain e s1 where 1: "sym_expr (sym s y) = Some e" "eval n e c p (upd_sym y (set_flag INEVAL) s) = Inr (s1, v, True)"
        using eval_SYM_expr [OF True es] .
      have 2: "findb n e c p t = Inr (t', BASE_OK, Some z)"
        using findb_SYM_expr [OF _ _ ft] True T 1(1) by (metis option.inject)
      have wfe: "wf_expr (upd_sym y (set_flag INEVAL) s) e"
        using wf_expr_of_sym [OF _ y 1(1)] T by (simp add: ctx_def wf_expr_def)
      have zy: "z \<noteq> y" using loc True by (auto simp: LOCREF_def)
      then have "LOCREF (sym (upd_sym y (set_flag INEVAL) s) z)" using loc by (simp add: nth_upd)
      from const_baseD [OF IH both_set(1) [OF b y True] wfe 1(2) 2 this] show ?thesis
        using zy by (simp add: nth_upd)
    next
      case False
      then have z: "z = y" using findb_SYM_other ft T by (metis Inr_inject prod.inject option.inject)
      have "eval_label y c p s = Inr (s', v, True)" using es findb_SYM_other(2) T False by metis
      from eval_label_placed(2) [OF _ y this] T z show ?thesis by (auto split: option.splits)
    qed
  qed
qed

lemma sound_SYM0: "sound c 0 (SYM y)"
proof -
  have plain: "sym_type (sym s y) \<noteq> EXPRESSION" if "eval 0 (SYM y) c p s = Inr r" for p s r
    using that by (cases r) (auto simp: bind_st_Inr get_Inr split: if_splits)
  have plainb: "sym_type (sym s y) \<noteq> EXPRESSION" if "ctx c p s" "findb 0 (SYM y) c p s = Inr r" for p s r
    using that by (cases r) (auto simp: bind_st_Inr get_Inr modify_Inr ctx_def placed_def split: if_splits)
  show ?thesis unfolding sound_def
  proof (intro conjI)
    show "same_eval c 0 (SYM y)" unfolding same_eval_def
    proof (intro allI impI)
      fix p q \<delta> s t s' t' v w k l
      assume b: "both c p q \<delta> s t" and wf: "wf_expr s (SYM y)"
        and es: "eval 0 (SYM y) c p s = Inr (s', v, k)" and et: "eval 0 (SYM y) c q t = Inr (t', w, l)"
      have y: "y < length (syms s)" using wf by (simp add: wf_expr_def)
      show "l = k \<and> (k \<longrightarrow> w = v)"
        using eval_label_both [OF b y] es et findb_SYM_other(2) both_type [OF b y] plain [OF es] by metis
    qed
    show "same_base c 0 (SYM y)" unfolding same_base_def
    proof (intro allI impI)
      fix p q \<delta> s t s' t' b b'
      assume bo: "both c p q \<delta> s t" and wf: "wf_expr s (SYM y)"
        and fs: "findb 0 (SYM y) c p s = Inr (s', b)" and ft: "findb 0 (SYM y) c q t = Inr (t', b')"
      have y: "y < length (syms s)" using wf by (simp add: wf_expr_def)
      note T = both_type [OF bo y]
      show "agree s b b'"
        using findb_SYM_other fs ft T agree_refl [OF y] plainb [OF _ fs] by (metis Inr_inject prod.inject)
    qed
    show "moves c 0 (SYM y)" unfolding moves_def
    proof (intro allI impI)
      fix p q \<delta> r s t r' s' t' z v w k l
      assume b0: "both c p p (\<lambda>_. 0) r s" and b: "both c p q \<delta> s t" and wf: "wf_expr r (SYM y)"
        and fr: "findb 0 (SYM y) c p r = Inr (r', BASE_OK, Some z)"
        and es: "eval 0 (SYM y) c p s = Inr (s', v, k)" and et: "eval 0 (SYM y) c q t = Inr (t', w, l)"
      have y: "y < length (syms r)" using wf by (simp add: wf_expr_def)
      note T0 = both_type [OF b0 y]
      have len: "length (syms s) = length (syms r)" using b0 by (simp add: both_def related_def)
      with y have ys: "y < length (syms s)" by simp
      note T = both_type [OF b ys]
      have "z = y" using findb_SYM_other fr T0 plainb [OF _ fr] by (metis Inr_inject prod.inject option.inject)
      moreover have "w = v + label_shift \<delta> s y"
        using eval_label_both(3) [OF b ys] es et findb_SYM_other(2) T plain [OF es] by metis
      moreover have "label_shift \<delta> s y = label_shift \<delta> r y"
        using related_label_shift b0 y by (auto simp: both_def)
      ultimately show "w = v + label_shift \<delta> r z" by simp
    qed
    show "const_base c 0 (SYM y)" unfolding const_base_def
    proof (intro allI impI)
      fix p s t s' t' z v
      assume b: "both c p p (\<lambda>_. 0) s t" and wf: "wf_expr s (SYM y)"
        and es: "eval 0 (SYM y) c p s = Inr (s', v, True)"
        and ft: "findb 0 (SYM y) c p t = Inr (t', BASE_OK, Some z)" and loc: "LOCREF (sym s z)"
      have y: "y < length (syms s)" using wf by (simp add: wf_expr_def)
      note T = both_type [OF b y]
      have z: "z = y" using findb_SYM_other ft T plain [OF es] by (metis Inr_inject prod.inject option.inject)
      have "eval_label y c p s = Inr (s', v, True)" using es findb_SYM_other(2) T plain [OF es] by metis
      from eval_label_placed(2) [OF _ y this] T z
      show "\<exists>k. sym_sec (sym s z) = Some k \<and> sec_has (sec s k) UNALLOCATED" by (auto split: option.splits)
    qed
  qed
qed

section \<open>Differences\<close>

text \<open>When a difference is constant although its operands are not, and what value it has.\<close>

lemma diff_based_result:
  assumes "diff_based lv rv lb y c pc s = Inr (s', v, k)"
    and "no_abslabels s" and "y < length (syms s)" and "LOCREF (sym s y)"
  shows "k \<longleftrightarrow> fst lb = BASE_OK \<and> snd lb \<noteq> None \<and> LOCREF (sym s (the (snd lb)))
               \<and> sym_sec (sym s (the (snd lb))) = sym_sec (sym s y)"
    and "k \<or> sym_sec (sym s y) \<noteq> c \<Longrightarrow> v = lv - rv"
proof -
  have "\<not> sym_has (sym s y) ABSLABEL" using assms(2-4) by (simp add: no_abslabels_def)
  with assms(1) show "k \<longleftrightarrow> fst lb = BASE_OK \<and> snd lb \<noteq> None \<and> LOCREF (sym s (the (snd lb)))
               \<and> sym_sec (sym s (the (snd lb))) = sym_sec (sym s y)"
    and "k \<or> sym_sec (sym s y) \<noteq> c \<Longrightarrow> v = lv - rv"
    by (auto simp: diff_based_def bind_st_Inr get_Inr return_Inr Let_def split: if_splits)
qed

lemma wf_stable: "stable s s' \<Longrightarrow> wf_expr s' e = wf_expr s e"
  by (simp add: stable_def wf_expr_def)

text \<open>The second half of a binary node, in both runs.\<close>

lemma binop_rest_both:
  assumes L: "sound c n l" and R: "sound c n r"
    and b: "both c p q \<delta> s t" and wl: "wf_expr s l" and wr: "wf_expr s r"
    and b0s: "both c p p (\<lambda>_. 0) s s0" and bt0: "both c p q \<delta> s0 t0"
    and els: "eval n l c p s0 = Inr (s0', lv, kl)" and elt: "eval n l c q t0 = Inr (t0', lw, kl)"
    and b1s: "both c p p (\<lambda>_. 0) s s1" and bt1: "both c p q \<delta> s1 t1"
    and ers: "eval n r c p s1 = Inr (s1', rv, kr)" and ert: "eval n r c q t1 = Inr (t1', rw, kr)"
    and cl: "kl \<Longrightarrow> lw = lv" and cr: "kr \<Longrightarrow> rw = rv"
    and rs: "binop_rest n f l r c p lv kl rv kr s = Inr (s', v, k)"
    and rt: "binop_rest n f l r c q lw kl rw kr t = Inr (t', w, j)"
  shows "j = k \<and> (k \<longrightarrow> w = v)"
  using rs
proof (cases rule: binop_rest_cases)
  case (Op u ms)
  from rt show ?thesis
  proof (cases rule: binop_rest_cases)
    case op: (Op u' ms')
    then show ?thesis using Op cl cr by auto
  qed (use Op in auto)
next
  case (Unbased rb)
  note us = Unbased
  from rt show ?thesis
  proof (cases rule: binop_rest_cases)
    case Unbased
    then show ?thesis using us by simp
  next
    case (Based t1 y t2 lb)
    have "agree s rb (BASE_OK, Some y)" using same_baseD [OF R b wr us(3) Based(3)] .
    then have rb: "rb = (BASE_OK, Some y)" "y < length (syms s)" by (auto simp: agree_def)
    have "both c p q \<delta> s' t1" using both_left(2) [OF both_right(2) [OF b Based(3)] us(3)] by blast
    moreover have "stable s s'" using st.findb_keeps [OF _ us(3)] b by (simp add: both_def)
    then have "syms s' = syms s" by (simp add: stable_def)
    ultimately have "LOCREF (sym s' y)" using rb(2) Based(4) related_sym(6) by (auto simp: both_def)
    then show ?thesis using us rb by blast
  qed (use us in auto)
next
  case (Based s2 y s3 lb)
  note bs = Based
  have keeps: "stable s s2" using st.findb_keeps bs(3) b by (auto simp: both_def)
  from rt show ?thesis
  proof (cases rule: binop_rest_cases)
    case (Unbased rb)
    have "agree s (BASE_OK, Some y) rb" using same_baseD [OF R b wr bs(3) Unbased(3)] .
    then have rb: "rb = (BASE_OK, Some y)" "y < length (syms s)" by (auto simp: agree_def)
    have "both c p q \<delta> s2 t'" using both_left(2) [OF both_right(2) [OF b Unbased(3)] bs(3)] by blast
    moreover have "syms s2 = syms s" using keeps by (simp add: stable_def)
    ultimately have "LOCREF (sym t' y)" using rb(2) bs(4) related_sym(6) by (auto simp: both_def)
    then show ?thesis using Unbased rb by blast
  next
    case (Based t2 y' t3 lb')
    have "agree s (BASE_OK, Some y) (BASE_OK, Some y')" using same_baseD [OF R b wr bs(3) Based(3)] .
    then have y: "y' = y" "y < length (syms s)" by (auto simp: agree_def)
    have b2: "both c p q \<delta> s2 t2" using both_left(2) [OF both_right(2) [OF b Based(3)] bs(3)] by blast
    have wl2: "wf_expr s2 l" using wf_stable [OF keeps] wl by simp
    have ag: "agree s2 lb lb'" using same_baseD [OF L b2 wl2 bs(5) Based(5)] .
    have b3: "both c p q \<delta> s3 t3" using both_left(2) [OF both_right(2) [OF b2 Based(5)] bs(5)] by blast
    have st3: "stable s s3"
      using keeps st.findb_keeps [OF _ bs(5)] b2 stable_trans by (auto simp: both_def)
    have syms3: "syms s3 = syms s" using st3 by (simp add: stable_def)
    have y3: "y < length (syms s3)" using y(2) syms3 by simp
    have rel3: "related \<delta> s3 t3" and na: "no_abslabels s3" "no_abslabels t3" using b3 by (auto simp: both_def ctx_def)
    have loc: "LOCREF (sym s3 y)" "LOCREF (sym t3 y)"
    proof -
      show "LOCREF (sym s3 y)" using bs(4) syms3 keeps by (simp add: stable_def)
      then show "LOCREF (sym t3 y)" using related_sym(6) [OF rel3 y3] by simp
    qed
    have y3t: "y < length (syms t3)" using y3 rel3 by (simp add: related_def)
    note ds = diff_based_result [OF bs(6) na(1) y3 loc(1)]
    note dt = diff_based_result [OF Based(6) [unfolded y(1)] na(2) y3t loc(2)]
    have jk: "j = k"
    proof (cases "fst lb = BASE_OK")
      case True
      then obtain z where z: "lb' = lb" "snd lb = Some z" "z < length (syms s2)"
        using ag by (auto simp: agree_def)
      have "z < length (syms s3)" using z(3) st3 keeps by (simp add: stable_def)
      from related_sym [OF rel3 this] related_sym [OF rel3 y3] ds(1) dt(1) z True show ?thesis by simp
    next
      case False
      then have "fst lb' \<noteq> BASE_OK" using ag by (simp add: agree_def)
      then show ?thesis using ds(1) dt(1) False by simp
    qed
    have "w = v" if k
    proof -
      have dk: "fst lb = BASE_OK \<and> snd lb \<noteq> None \<and> LOCREF (sym s3 (the (snd lb)))
          \<and> sym_sec (sym s3 (the (snd lb))) = sym_sec (sym s3 y)"
        using iffD1 [OF ds(1) that] by auto
      then obtain z where zz: "snd lb = Some z" by auto
      have z: "lb = (BASE_OK, Some z)" using dk zz by (simp add: prod_eq_iff)
      have locz: "LOCREF (sym s3 z)" and secz: "sym_sec (sym s3 z) = sym_sec (sym s3 y)" using dk zz by auto
      have zlen: "z < length (syms s3)" using ag z syms3 keeps by (auto simp: agree_def stable_def)
      have "both c p p (\<lambda>_. 0) s2 s0" using both_stable [OF b0s keeps stable_refl] .
      from movesD [OF L this bt0 wl2 bs(5) [unfolded z] els elt]
      have lw: "lw = lv + label_shift \<delta> s2 z" .
      from movesD [OF R b1s bt1 wr bs(3) ers ert]
      have rw: "rw = rv + label_shift \<delta> s y" .
      have "label_shift \<delta> s3 z = label_shift \<delta> s3 y"
        using locz loc(1) secz na(1) zlen y3 by (simp add: label_shift_def no_abslabels_def)
      moreover have "label_shift \<delta> s3 x = label_shift \<delta> s x" "label_shift \<delta> s2 x = label_shift \<delta> s x" for x
        using label_shift_stable [OF st3] label_shift_stable [OF keeps] by auto
      ultimately have "lw - rw = lv - rv" using lw rw by simp
      then show ?thesis using ds(2) dt(2) that jk by simp
    qed
    then show ?thesis using jk by blast
  qed (use bs in auto)
qed

section \<open>The induction\<close>

lemma agree_stable: "stable s s' \<Longrightarrow> agree s' b b' = agree s b b'"
  by (simp add: agree_def stable_def)

lemma ctx_eval: "ctx c p s \<Longrightarrow> eval n e c p s = Inr (s', x) \<Longrightarrow> stable s s' \<and> ctx c p s'"
  using st.eval_keeps by blast

lemma ctx_findb: "ctx c p s \<Longrightarrow> findb n e c p s = Inr (s', x) \<Longrightarrow> stable s s' \<and> ctx c p s'"
  using st.findb_keeps by blast

lemma ctx_try: "ctx c p s \<Longrightarrow> try_base k (findb n e c p) s = Inr (s', x) \<Longrightarrow> stable s s' \<and> ctx c p s'"
  using ctx_findb by (auto simp: try_base_Inr split: if_splits)

lemma bothD: "both c p q \<delta> s t \<Longrightarrow> ctx c p s \<and> ctx c q t \<and> related \<delta> s t"
  by (simp add: both_def)

lemma both_moved: "ctx c p s \<Longrightarrow> stable s s' \<Longrightarrow> both c p p (\<lambda>_. 0) s' s"
  using both_stable [OF both_refl _ stable_refl] .

lemma same_eval_BINOP:
  assumes L: "sound c n l" and R: "sound c n r"
  shows "same_eval c n (BINOP f l r)"
  unfolding same_eval_def
proof (intro allI impI)
  fix p q \<delta> s t s' t' v w k j
  assume b: "both c p q \<delta> s t" and wf: "wf_expr s (BINOP f l r)"
    and es: "eval n (BINOP f l r) c p s = Inr (s', v, k)" and et: "eval n (BINOP f l r) c q t = Inr (t', w, j)"
  have wl: "wf_expr s l" and wr: "wf_expr s r" using wf by (auto simp: wf_expr_def)
  obtain s1 lv kl s2 rv kr where s: "eval n l c p s = Inr (s1, lv, kl)" "eval n r c p s1 = Inr (s2, rv, kr)"
    "binop_rest n f l r c p lv kl rv kr s2 = Inr (s', v, k)" using eval_BINOP_E [OF es] .
  obtain t1 lw ll t2 rw lr where t: "eval n l c q t = Inr (t1, lw, ll)" "eval n r c q t1 = Inr (t2, rw, lr)"
    "binop_rest n f l r c q lw ll rw lr t2 = Inr (t', w, j)" using eval_BINOP_E [OF et] .
  note c0 = bothD [OF b]
  have e1: "ll = kl \<and> (kl \<longrightarrow> lw = lv)" using same_evalD [OF L b wl s(1) t(1)] .
  have s1: "stable s s1" "ctx c p s1" using ctx_eval s(1) c0 by blast+
  have t1: "stable t t1" "ctx c q t1" using ctx_eval t(1) c0 by blast+
  have b1: "both c p q \<delta> s1 t1" using both_stable [OF b s1(1) t1(1)] .
  have wr1: "wf_expr s1 r" using wf_stable [OF s1(1)] wr by simp
  have e2: "lr = kr \<and> (kr \<longrightarrow> rw = rv)" using same_evalD [OF R b1 wr1 s(2) t(2)] .
  have s2: "stable s1 s2" "ctx c p s2" using ctx_eval s(2) s1 by blast+
  have t2: "stable t1 t2" "ctx c q t2" using ctx_eval t(2) t1 by blast+
  have b2: "both c p q \<delta> s2 t2" using both_stable [OF b1 s2(1) t2(1)] .
  have st: "stable s s2" using s1(1) s2(1) stable_trans by blast
  show "j = k \<and> (k \<longrightarrow> w = v)"
  proof (rule binop_rest_both [OF L R b2 _ _ _ b s(1) _ _ b1 s(2) _ _ _ s(3)])
    show "wf_expr s2 l" "wf_expr s2 r" using wf_stable [OF st] wl wr by simp_all
    show "both c p p (\<lambda>_. 0) s2 s" using both_moved c0 st by blast
    show "both c p p (\<lambda>_. 0) s2 s1" using both_moved s1(2) s2(1) by blast
  qed (use t e1 e2 in auto)
qed

lemma try_agree:
  assumes "sound c n e" and "both c p q \<delta> s t" and "wf_expr s e"
    and "try_base k (findb n e c p) s = Inr (s', b)" and "try_base k (findb n e c q) t = Inr (t', b')"
  shows "agree s b b'"
  using assms same_baseD [OF assms(1-3)]
  by (auto simp: try_base_Inr agree_def [of _ "(BASE_ILLEGAL, _)"] split: if_splits)

lemma same_base_ADD:
  assumes L: "sound c n l" and R: "sound c n r"
  shows "same_base c n (BINOP ADD l r)"
  unfolding same_base_def
proof (intro allI impI)
  fix p q \<delta> s t s' t' b b'
  assume bo: "both c p q \<delta> s t" and wf: "wf_expr s (BINOP ADD l r)"
    and fs: "findb n (BINOP ADD l r) c p s = Inr (s', b)" and ft: "findb n (BINOP ADD l r) c q t = Inr (t', b')"
  have wl: "wf_expr s l" and wr: "wf_expr s r" using wf by (auto simp: wf_expr_def)
  note c0 = bothD [OF bo]
  have first: "agree s rb rb'"
    if "eval n l c p s = Inr (s1, lv, kl)" "try_base kl (findb n r c p) s1 = Inr (s2, rb)"
      "eval n l c q t = Inr (t1, lw, ll)" "try_base ll (findb n r c q) t1 = Inr (t2, rb')"
    for s1 lv kl s2 rb t1 lw ll t2 rb'
  proof -
    have "ll = kl" using same_evalD [OF L bo wl that(1,3)] by blast
    moreover have 1: "stable s s1" "stable t t1" using ctx_eval that(1,3) c0 by blast+
    ultimately have "agree s1 rb rb'"
      using try_agree [OF R both_stable [OF bo 1]] wf_stable [OF 1(1)] wr that(2,4) by blast
    then show ?thesis using agree_stable [OF 1(1)] by simp
  qed
  from fs show "agree s b b'"
  proof (rule findb_ADD_E)
    fix s1 lv kl
    assume s: "eval n l c p s = Inr (s1, lv, kl)" "try_base kl (findb n r c p) s1 = Inr (s', b)" "fst b = BASE_OK"
    from ft show ?thesis
    proof (rule findb_ADD_E)
      fix t1 lw ll
      assume "eval n l c q t = Inr (t1, lw, ll)" "try_base ll (findb n r c q) t1 = Inr (t', b')"
      then show ?thesis using first [OF s(1,2)] by blast
    next
      fix t1 lw ll t2 rb
      assume "eval n l c q t = Inr (t1, lw, ll)" "try_base ll (findb n r c q) t1 = Inr (t2, rb)" "fst rb \<noteq> BASE_OK"
      then show ?thesis using first [OF s(1,2)] s(3) by (auto simp: agree_def)
    qed
  next
    fix s1 lv kl s2 rb s3 rv kr lb
    assume s: "eval n l c p s = Inr (s1, lv, kl)" "try_base kl (findb n r c p) s1 = Inr (s2, rb)" "fst rb \<noteq> BASE_OK"
      "eval n r c p s2 = Inr (s3, rv, kr)" "try_base kr (findb n l c p) s3 = Inr (s', lb)"
      "b = lb \<and> fst b = BASE_OK \<or> fst lb \<noteq> BASE_OK \<and> fst b = BASE_ILLEGAL"
    from ft show ?thesis
    proof (rule findb_ADD_E)
      fix t1 lw ll
      assume "eval n l c q t = Inr (t1, lw, ll)" "try_base ll (findb n r c q) t1 = Inr (t', b')" "fst b' = BASE_OK"
      then show ?thesis using first [OF s(1,2)] s(3) by (auto simp: agree_def)
    next
      fix t1 lw ll t2 rb' t3 rw lr lb'
      assume t: "eval n l c q t = Inr (t1, lw, ll)" "try_base ll (findb n r c q) t1 = Inr (t2, rb')"
        "eval n r c q t2 = Inr (t3, rw, lr)" "try_base lr (findb n l c q) t3 = Inr (t', lb')"
        "b' = lb' \<and> fst b' = BASE_OK \<or> fst lb' \<noteq> BASE_OK \<and> fst b' = BASE_ILLEGAL"
      have s1: "stable s s1" "ctx c p s1" using ctx_eval s(1) c0 by blast+
      have s2: "stable s1 s2" "ctx c p s2" using ctx_try s(2) s1 by blast+
      have s3: "stable s2 s3" using ctx_eval s(4) s2 by blast
      have t1: "stable t t1" "ctx c q t1" using ctx_eval t(1) c0 by blast+
      have t2: "stable t1 t2" "ctx c q t2" using ctx_try t(2) t1 by blast+
      have t3: "stable t2 t3" using ctx_eval t(3) t2 by blast
      have st: "stable s s2" "stable t t2" using s1 s2 t1 t2 stable_trans by blast+
      have st3: "stable s s3" "stable t t3" using st s3 t3 stable_trans by blast+
      have b2: "both c p q \<delta> s2 t2" using both_stable [OF bo st] .
      have "wf_expr s2 r" using wf_stable [OF st(1)] wr by simp
      then have "lr = kr" using same_evalD [OF R b2 _ s(4) t(3)] by blast
      moreover have b3: "both c p q \<delta> s3 t3" using both_stable [OF bo st3] .
      moreover have "wf_expr s3 l" using wf_stable [OF st3(1)] wl by simp
      ultimately have "agree s3 lb lb'" using try_agree [OF L b3 _ s(5)] t(4) by blast
      then have "agree s lb lb'" using agree_stable [OF st3(1)] by simp
      then show ?thesis using s(6) t(5) by (auto simp: agree_def)
    qed
  qed
qed

lemma pcrel_base_result:
  "pcrel_base c b rb s = Inr (s', x) \<Longrightarrow> fst x = (case (rb, b) of
      ((BASE_OK, Some p), Some z) \<Rightarrow>
         (if LOCREF (sym s p) \<and> sym_sec (sym s p) = c \<and> (LOCREF (sym s z) \<or> EXTREF (sym s z))
          then BASE_PCREL else BASE_ILLEGAL)
    | _ \<Rightarrow> BASE_ILLEGAL)"
  by (auto simp: pcrel_base_def action_Inr split: base.splits option.splits if_splits prod.splits)

lemma pcrel_base_both:
  assumes rel: "related \<delta> s t" and ag: "agree s lb lb'" and ok: "fst lb = BASE_OK" and ag2: "agree s rb rb'"
    and ps: "pcrel_base c (snd lb) rb s = Inr (s', b)" and pt: "pcrel_base c (snd lb') rb' t = Inr (t', b')"
  shows "fst b' = fst b"
proof -
  obtain z where z: "lb' = lb" "snd lb = Some z" "z < length (syms s)" using ag ok by (auto simp: agree_def)
  show ?thesis
  proof (cases "fst rb = BASE_OK")
    case True
    then obtain y where "rb' = rb" "rb = (BASE_OK, Some y)" "y < length (syms s)"
      using ag2 by (cases rb) (auto simp: agree_def)
    then show ?thesis
      using pcrel_base_result [OF ps] pcrel_base_result [OF pt] z related_sym [OF rel] by simp
  next
    case False
    then have "fst rb' \<noteq> BASE_OK" using ag2 by (simp add: agree_def)
    then show ?thesis
      using pcrel_base_result [OF ps] pcrel_base_result [OF pt] False
      by (auto split: prod.splits base.splits option.splits)
  qed
qed

lemma same_base_SUB:
  assumes L: "sound c n l" and R: "sound c n r"
  shows "same_base c n (BINOP SUB l r)"
  unfolding same_base_def
proof (intro allI impI)
  fix p q \<delta> s t s' t' b b'
  assume bo: "both c p q \<delta> s t" and wf: "wf_expr s (BINOP SUB l r)"
    and fs: "findb n (BINOP SUB l r) c p s = Inr (s', b)" and ft: "findb n (BINOP SUB l r) c q t = Inr (t', b')"
  have wl: "wf_expr s l" and wr: "wf_expr s r" using wf by (auto simp: wf_expr_def)
  note c0 = bothD [OF bo]
  have first: "agree s lb lb'"
    if "eval n r c p s = Inr (s1, rv, kr)" "try_base kr (findb n l c p) s1 = Inr (s2, lb)"
      "eval n r c q t = Inr (t1, rw, lr)" "try_base lr (findb n l c q) t1 = Inr (t2, lb')"
    for s1 rv kr s2 lb t1 rw lr t2 lb'
  proof -
    have "lr = kr" using same_evalD [OF R bo wr that(1,3)] by blast
    moreover have 1: "stable s s1" "stable t t1" using ctx_eval that(1,3) c0 by blast+
    ultimately have "agree s1 lb lb'"
      using try_agree [OF L both_stable [OF bo 1]] wf_stable [OF 1(1)] wl that(2,4) by blast
    then show ?thesis using agree_stable [OF 1(1)] by simp
  qed
  have second: "stable s s2 \<and> stable t t2 \<and> ctx c p s2 \<and> ctx c q t2 \<and> agree s lb lb'"
    if "eval n r c p s = Inr (s1, rv, kr)" "try_base kr (findb n l c p) s1 = Inr (s2, x)" "findb n l c p s2 = Inr (s3, lb)"
      "eval n r c q t = Inr (t1, rw, lr)" "try_base lr (findb n l c q) t1 = Inr (t2, x')" "findb n l c q t2 = Inr (t3, lb')"
    for s1 rv kr s2 x s3 lb t1 rw lr t2 x' t3 lb'
  proof -
    have s1: "stable s s1" "ctx c p s1" using ctx_eval that(1) c0 by blast+
    have s2: "stable s1 s2" "ctx c p s2" using ctx_try that(2) s1 by blast+
    have t1: "stable t t1" "ctx c q t1" using ctx_eval that(4) c0 by blast+
    have t2: "stable t1 t2" "ctx c q t2" using ctx_try that(5) t1 by blast+
    have st: "stable s s2" "stable t t2" using s1 s2 t1 t2 stable_trans by blast+
    have "wf_expr s2 l" using wf_stable [OF st(1)] wl by simp
    then have "agree s2 lb lb'" using same_baseD [OF L both_stable [OF bo st] _ that(3,6)] by blast
    then show ?thesis using agree_stable [OF st(1)] st s2 t2 by simp
  qed
  from fs show "agree s b b'"
  proof (rule findb_SUB_E)
    fix s1 rv kr
    assume s: "eval n r c p s = Inr (s1, rv, kr)" "try_base kr (findb n l c p) s1 = Inr (s', b)" "fst b = BASE_OK"
    from ft show ?thesis
    proof (rule findb_SUB_E)
      fix t1 rw lr
      assume "eval n r c q t = Inr (t1, rw, lr)" "try_base lr (findb n l c q) t1 = Inr (t', b')"
      then show ?thesis using first [OF s(1,2)] by blast
    next
      fix t1 rw lr t2 lb
      assume "eval n r c q t = Inr (t1, rw, lr)" "try_base lr (findb n l c q) t1 = Inr (t2, lb)" "fst lb \<noteq> BASE_OK"
      then show ?thesis using first [OF s(1,2)] s(3) by (auto simp: agree_def)
    next
      fix t1 rw lr t2 lb
      assume "eval n r c q t = Inr (t1, rw, lr)" "try_base lr (findb n l c q) t1 = Inr (t2, lb)" "fst lb \<noteq> BASE_OK"
      then show ?thesis using first [OF s(1,2)] s(3) by (auto simp: agree_def)
    qed
  next
    fix s1 rv kr s2 lb lb1
    assume s: "eval n r c p s = Inr (s1, rv, kr)" "try_base kr (findb n l c p) s1 = Inr (s2, lb)" "fst lb \<noteq> BASE_OK"
      "findb n l c p s2 = Inr (s', lb1)" "fst lb1 \<noteq> BASE_OK" "b = (BASE_ILLEGAL, snd lb1)"
    from ft show ?thesis
    proof (rule findb_SUB_E)
      fix t1 rw lr
      assume "eval n r c q t = Inr (t1, rw, lr)" "try_base lr (findb n l c q) t1 = Inr (t', b')" "fst b' = BASE_OK"
      then show ?thesis using first [OF s(1,2)] s(3) by (auto simp: agree_def)
    next
      fix t1 rw lr t2 lb' lb1'
      assume "b' = (BASE_ILLEGAL, snd lb1')"
      then show ?thesis using s(6) by (simp add: agree_def)
    next
      fix t1 rw lr t2 lb' t3 lb1' t4 rb
      assume t: "eval n r c q t = Inr (t1, rw, lr)" "try_base lr (findb n l c q) t1 = Inr (t2, lb')"
        "findb n l c q t2 = Inr (t3, lb1')" "fst lb1' = BASE_OK"
      then show ?thesis using second [OF s(1,2,4) t(1,2,3)] s(5) by (auto simp: agree_def)
    qed
  next
    fix s1 rv kr s2 lb s3 lb1 s4 rb
    assume s: "eval n r c p s = Inr (s1, rv, kr)" "try_base kr (findb n l c p) s1 = Inr (s2, lb)" "fst lb \<noteq> BASE_OK"
      "findb n l c p s2 = Inr (s3, lb1)" "fst lb1 = BASE_OK" "findb n r c p s3 = Inr (s4, rb)"
      "pcrel_base c (snd lb1) rb s4 = Inr (s', b)"
    from ft show ?thesis
    proof (rule findb_SUB_E)
      fix t1 rw lr
      assume "eval n r c q t = Inr (t1, rw, lr)" "try_base lr (findb n l c q) t1 = Inr (t', b')" "fst b' = BASE_OK"
      then show ?thesis using first [OF s(1,2)] s(3) by (auto simp: agree_def)
    next
      fix t1 rw lr t2 lb' lb1'
      assume t: "eval n r c q t = Inr (t1, rw, lr)" "try_base lr (findb n l c q) t1 = Inr (t2, lb')"
        "findb n l c q t2 = Inr (t', lb1')" "fst lb1' \<noteq> BASE_OK"
      then show ?thesis using second [OF s(1,2,4) t(1,2,3)] s(5) by (auto simp: agree_def)
    next
      fix t1 rw lr t2 lb' t3 lb1' t4 rb'
      assume t: "eval n r c q t = Inr (t1, rw, lr)" "try_base lr (findb n l c q) t1 = Inr (t2, lb')"
        "findb n l c q t2 = Inr (t3, lb1')" "findb n r c q t3 = Inr (t4, rb')"
        "pcrel_base c (snd lb1') rb' t4 = Inr (t', b')"
      have 2: "stable s s2 \<and> stable t t2 \<and> ctx c p s2 \<and> ctx c q t2 \<and> agree s lb1 lb1'"
        using second [OF s(1,2,4) t(1,2,3)] .
      have s3: "stable s2 s3" "ctx c p s3" using ctx_findb s(4) 2 by blast+
      have t3: "stable t2 t3" "ctx c q t3" using ctx_findb t(3) 2 by blast+
      have s4: "stable s3 s4" using ctx_findb s(6) s3 by blast
      have t4: "stable t3 t4" using ctx_findb t(4) t3 by blast
      have st3: "stable s s3" "stable t t3" using 2 s3 t3 stable_trans by blast+
      have st4: "stable s s4" "stable t t4" using st3 s4 t4 stable_trans by blast+
      have "wf_expr s3 r" using wf_stable [OF st3(1)] wr by simp
      then have "agree s3 rb rb'" using same_baseD [OF R both_stable [OF bo st3] _ s(6) t(4)] by blast
      then have "agree s4 rb rb'" "agree s4 lb1 lb1'"
        using agree_stable [OF st3(1)] agree_stable [OF st4(1)] 2 by simp_all
      moreover have "related \<delta> s4 t4" using both_stable [OF bo st4] by (simp add: both_def)
      ultimately have "fst b' = fst b" using pcrel_base_both [OF _ _ s(5) _ s(7) t(5)] by blast
      then show ?thesis using pcrel_base_Inr [OF s(7)] by (simp add: agree_def)
    qed
  qed
qed

lemma same_base_BINOP:
  assumes "sound c n l" and "sound c n r"
  shows "same_base c n (BINOP f l r)"
proof -
  consider "f = ADD" | "f = SUB" | "f \<noteq> ADD" "f \<noteq> SUB" by blast
  then show ?thesis
  proof cases
    case 3
    then show ?thesis by (auto simp: same_base_def findb_other return_Inr agree_def)
  qed (use same_base_ADD [OF assms] same_base_SUB [OF assms] in auto)
qed

text \<open>With a constant right operand the value is the plain difference.\<close>

lemma sub_const_right:
  assumes R: "sound c n r" and cs: "ctx c p s" and wr: "wf_expr s r" and er: "eval n r c p s = Inr (s2, rv, True)"
    and rest: "binop_rest n SUB l r c p lv kl rv True s2 = Inr (s', v, k)"
  shows "v = lv - rv"
  using rest
proof (cases rule: binop_rest_cases)
  case (Based s3 y s4 lb)
  have s2: "stable s s2" "ctx c p s2" using ctx_eval [OF cs er] by auto
  have s3: "stable s2 s3" "ctx c p s3" using ctx_findb [OF s2(2) Based(3)] by auto
  have s4: "stable s3 s4" "ctx c p s4" using ctx_findb [OF s3(2) Based(5)] by auto
  have b2: "both c p p (\<lambda>_. 0) s s2" using both_stable [OF both_refl [OF cs] stable_refl s2(1)] .
  have len: "y < length (syms s)"
    using same_baseD [OF R both_refl [OF s2(2)] _ Based(3) Based(3)] wf_stable [OF s2(1)] wr s2(1)
    by (auto simp: agree_def stable_def)
  have syms: "syms s4 = syms s" using s2 s3 s4 by (simp add: stable_def)
  have loc: "LOCREF (sym s y)" using Based(4) s2 s3 by (simp add: stable_def)
  obtain j where "sym_sec (sym s y) = Some j" "sec_has (sec s j) UNALLOCATED"
    using const_baseD [OF R b2 wr er Based(3) loc] by blast
  then have "sym_sec (sym s4 y) \<noteq> c" using cs syms by (auto simp: ctx_def allocated_def)
  then show ?thesis
    using diff_based_result(2) [OF Based(6)] s4(2) len loc syms by (simp add: ctx_def)
qed auto

lemma try_const: "try_base k m s = Inr (s', b) \<Longrightarrow> fst b = BASE_OK \<Longrightarrow> k \<and> m s = Inr (s', b)"
  by (auto simp: try_base_Inr split: if_splits)

lemma moves_ADD:
  assumes L: "sound c n l" and R: "sound c n r"
  shows "moves c n (BINOP ADD l r)"
  unfolding moves_def
proof (intro allI impI)
  fix p q \<delta> r0 s t r' s' t' y v w k j
  assume b0: "both c p p (\<lambda>_. 0) r0 s" and b: "both c p q \<delta> s t" and wf: "wf_expr r0 (BINOP ADD l r)"
    and fr: "findb n (BINOP ADD l r) c p r0 = Inr (r', BASE_OK, Some y)"
    and es: "eval n (BINOP ADD l r) c p s = Inr (s', v, k)" and et: "eval n (BINOP ADD l r) c q t = Inr (t', w, j)"
  have wl: "wf_expr r0 l" and wr: "wf_expr r0 r" using wf by (auto simp: wf_expr_def)
  have wsl: "wf_expr s l" and wsr: "wf_expr s r" using wl wr b0 by (auto simp: wf_expr_def both_def related_def)
  obtain s1 lv kl s2 rv kr where s: "eval n l c p s = Inr (s1, lv, kl)" "eval n r c p s1 = Inr (s2, rv, kr)"
    "binop_rest n ADD l r c p lv kl rv kr s2 = Inr (s', v, k)" using eval_BINOP_E [OF es] .
  obtain t1 lw ll t2 rw lr where t: "eval n l c q t = Inr (t1, lw, ll)" "eval n r c q t1 = Inr (t2, rw, lr)"
    "binop_rest n ADD l r c q lw ll rw lr t2 = Inr (t', w, j)" using eval_BINOP_E [OF et] .
  have v: "v = lv + rv" and w: "w = lw + rw"
    using s(3) t(3) by (auto elim: binop_rest_cases)
  note c0 = bothD [OF b0] and c1 = bothD [OF b]
  have s1: "stable s s1" "ctx c p s1" using ctx_eval s(1) c0 by blast+
  have t1: "stable t t1" "ctx c q t1" using ctx_eval t(1) c1 by blast+
  have b1: "both c p q \<delta> s1 t1" using both_stable [OF b s1(1) t1(1)] .
  have ws1r: "wf_expr s1 r" using wf_stable [OF s1(1)] wsr by simp
  from fr show "w = v + label_shift \<delta> r0 y"
  proof (rule findb_ADD_E)
    fix r1 xv kx
    assume r: "eval n l c p r0 = Inr (r1, xv, kx)" "try_base kx (findb n r c p) r1 = Inr (r', BASE_OK, Some y)"
    have kx: "kx" and fr1: "findb n r c p r1 = Inr (r', BASE_OK, Some y)" using try_const [OF r(2)] by auto
    have r1: "stable r0 r1" "ctx c p r1" using ctx_eval r(1) c0 by blast+
    have "kl" using same_evalD [OF L b0 wl r(1) s(1)] kx by blast
    then have "lw = lv" using same_evalD [OF L b wsl s(1) t(1)] by blast
    moreover have "both c p p (\<lambda>_. 0) r1 s1" using both_stable [OF b0 r1(1) s1(1)] .
    from movesD [OF R this b1 _ fr1 s(2) t(2)] have "rw = rv + label_shift \<delta> r1 y"
      using wf_stable [OF r1(1)] wr by simp
    ultimately show ?thesis using v w label_shift_stable [OF r1(1)] by simp
  next
    fix r1 xv kx r2 rb r3 yv ky lb
    assume r: "eval n l c p r0 = Inr (r1, xv, kx)" "try_base kx (findb n r c p) r1 = Inr (r2, rb)"
      "eval n r c p r2 = Inr (r3, yv, ky)" "try_base ky (findb n l c p) r3 = Inr (r', lb)"
      "(BASE_OK, Some y) = lb \<and> fst (BASE_OK, Some y) = BASE_OK \<or> fst lb \<noteq> BASE_OK \<and> fst (BASE_OK, Some y) = BASE_ILLEGAL"
    have ky: "ky" and fr3: "findb n l c p r3 = Inr (r', BASE_OK, Some y)" using try_const [OF r(4)] r(5) by auto
    have r1: "stable r0 r1" "ctx c p r1" using ctx_eval r(1) c0 by blast+
    have r2: "stable r1 r2" "ctx c p r2" using ctx_try r(2) r1 by blast+
    have r3: "stable r2 r3" "ctx c p r3" using ctx_eval r(3) r2 by blast+
    have st2: "stable r0 r2" using r1 r2 stable_trans by blast
    then have st3: "stable r0 r3" using r3 stable_trans by blast
    have "both c p p (\<lambda>_. 0) r2 s1" using both_stable [OF b0 st2 s1(1)] .
    then have "kr" using same_evalD [OF R _ _ r(3) s(2)] ky wf_stable [OF st2] wr by blast
    then have "rw = rv" using same_evalD [OF R b1 ws1r s(2) t(2)] by blast
    moreover have "both c p p (\<lambda>_. 0) r3 s" using both_stable [OF b0 st3 stable_refl] .
    from movesD [OF L this b _ fr3 s(1) t(1)] have "lw = lv + label_shift \<delta> r3 y"
      using wf_stable [OF st3] wl by simp
    ultimately show ?thesis using v w label_shift_stable [OF st3] by simp
  qed
qed

lemma moves_SUB:
  assumes L: "sound c n l" and R: "sound c n r"
  shows "moves c n (BINOP SUB l r)"
  unfolding moves_def
proof (intro allI impI)
  fix p q \<delta> r0 s t r' s' t' y v w k j
  assume b0: "both c p p (\<lambda>_. 0) r0 s" and b: "both c p q \<delta> s t" and wf: "wf_expr r0 (BINOP SUB l r)"
    and fr: "findb n (BINOP SUB l r) c p r0 = Inr (r', BASE_OK, Some y)"
    and es: "eval n (BINOP SUB l r) c p s = Inr (s', v, k)" and et: "eval n (BINOP SUB l r) c q t = Inr (t', w, j)"
  have wl: "wf_expr r0 l" and wr: "wf_expr r0 r" using wf by (auto simp: wf_expr_def)
  have wsl: "wf_expr s l" and wsr: "wf_expr s r" using wl wr b0 by (auto simp: wf_expr_def both_def related_def)
  obtain s1 lv kl s2 rv kr where s: "eval n l c p s = Inr (s1, lv, kl)" "eval n r c p s1 = Inr (s2, rv, kr)"
    "binop_rest n SUB l r c p lv kl rv kr s2 = Inr (s', v, k)" using eval_BINOP_E [OF es] .
  obtain t1 lw ll t2 rw lr where t: "eval n l c q t = Inr (t1, lw, ll)" "eval n r c q t1 = Inr (t2, rw, lr)"
    "binop_rest n SUB l r c q lw ll rw lr t2 = Inr (t', w, j)" using eval_BINOP_E [OF et] .
  note c0 = bothD [OF b0] and c1 = bothD [OF b]
  have s1: "stable s s1" "ctx c p s1" using ctx_eval s(1) c0 by blast+
  have t1: "stable t t1" "ctx c q t1" using ctx_eval t(1) c1 by blast+
  have b1: "both c p q \<delta> s1 t1" using both_stable [OF b s1(1) t1(1)] .
  have ws1r: "wf_expr s1 r" using wf_stable [OF s1(1)] wsr by simp
  then have wt1r: "wf_expr t1 r" using b1 by (simp add: both_def related_def wf_expr_def)
  from fr show "w = v + label_shift \<delta> r0 y"
  proof (rule findb_SUB_E)
    fix r1 xv kx
    assume r: "eval n r c p r0 = Inr (r1, xv, kx)" "try_base kx (findb n l c p) r1 = Inr (r', BASE_OK, Some y)"
    have kx: "kx" and fr1: "findb n l c p r1 = Inr (r', BASE_OK, Some y)" using try_const [OF r(2)] by auto
    have r1: "stable r0 r1" "ctx c p r1" using ctx_eval r(1) c0 by blast+
    have "both c p p (\<lambda>_. 0) r0 s1" using both_stable [OF b0 stable_refl s1(1)] .
    then have kr: "kr" using same_evalD [OF R _ wr r(1) s(2)] kx by blast
    then have lr: "lr" and rw: "rw = rv" using same_evalD [OF R b1 ws1r s(2) t(2)] by blast+
    have "v = lv - rv" using sub_const_right [OF R s1(2) ws1r] s(2,3) kr by simp
    moreover have "w = lw - rw" using sub_const_right [OF R t1(2) wt1r] t(2,3) lr by simp
    moreover have "both c p p (\<lambda>_. 0) r1 s" using both_stable [OF b0 r1(1) stable_refl] .
    from movesD [OF L this b _ fr1 s(1) t(1)] have "lw = lv + label_shift \<delta> r1 y"
      using wf_stable [OF r1(1)] wl by simp
    ultimately show ?thesis using rw label_shift_stable [OF r1(1)] by simp
  next
    fix r1 xv kx r2 lb s3 lb' s4 rb
    assume "pcrel_base c (snd lb') rb s4 = Inr (r', BASE_OK, Some y)"
    then show ?thesis using pcrel_base_Inr by fastforce
  qed auto
qed

lemma const_base_ADD:
  assumes L: "sound c n l" and R: "sound c n r"
  shows "const_base c n (BINOP ADD l r)"
  unfolding const_base_def
proof (intro allI impI)
  fix p s t s' t' y v
  assume b: "both c p p (\<lambda>_. 0) s t" and wf: "wf_expr s (BINOP ADD l r)"
    and es: "eval n (BINOP ADD l r) c p s = Inr (s', v, True)"
    and ft: "findb n (BINOP ADD l r) c p t = Inr (t', BASE_OK, Some y)" and loc: "LOCREF (sym s y)"
  have wl: "wf_expr s l" and wr: "wf_expr s r" using wf by (auto simp: wf_expr_def)
  obtain s1 lv kl s2 rv kr where s: "eval n l c p s = Inr (s1, lv, kl)" "eval n r c p s1 = Inr (s2, rv, kr)"
    "binop_rest n ADD l r c p lv kl rv kr s2 = Inr (s', v, True)" using eval_BINOP_E [OF es] .
  have k: "kl" "kr" using s(3) by (auto elim: binop_rest_cases)
  note c0 = bothD [OF b]
  have s1: "stable s s1" "ctx c p s1" using ctx_eval s(1) c0 by blast+
  have bk: "sym_sec (sym s1 y) = sym_sec (sym s y)" "LOCREF (sym s1 y)"
    "\<And>j. sec_has (sec s1 j) UNALLOCATED = sec_has (sec s j) UNALLOCATED"
    using s1(1) loc by (auto simp: stable_def sec_has_def)
  from ft show "\<exists>k. sym_sec (sym s y) = Some k \<and> sec_has (sec s k) UNALLOCATED"
  proof (rule findb_ADD_E)
    fix t1 xv kx
    assume t: "eval n l c p t = Inr (t1, xv, kx)" "try_base kx (findb n r c p) t1 = Inr (t', BASE_OK, Some y)"
    have ft1: "findb n r c p t1 = Inr (t', BASE_OK, Some y)" using try_const [OF t(2)] by auto
    have t1: "stable t t1" using ctx_eval t(1) c0 by blast
    have "both c p p (\<lambda>_. 0) s1 t1" using both_stable [OF b s1(1) t1] .
    from const_baseD [OF R this _ _ ft1] s(2) k wf_stable [OF s1(1)] wr bk show ?thesis by auto
  next
    fix t1 xv kx t2 rb t3 yv ky lb
    assume t: "eval n l c p t = Inr (t1, xv, kx)" "try_base kx (findb n r c p) t1 = Inr (t2, rb)"
      "eval n r c p t2 = Inr (t3, yv, ky)" "try_base ky (findb n l c p) t3 = Inr (t', lb)"
      "(BASE_OK, Some y) = lb \<and> fst (BASE_OK, Some y) = BASE_OK \<or> fst lb \<noteq> BASE_OK \<and> fst (BASE_OK, Some y) = BASE_ILLEGAL"
    have ft3: "findb n l c p t3 = Inr (t', BASE_OK, Some y)" using try_const [OF t(4)] t(5) by auto
    have t1: "stable t t1" "ctx c p t1" using ctx_eval t(1) c0 by blast+
    have t2: "stable t1 t2" "ctx c p t2" using ctx_try t(2) t1 by blast+
    have t3: "stable t2 t3" using ctx_eval t(3) t2 by blast
    have "stable t t3" using t1 t2 t3 stable_trans by blast
    then have "both c p p (\<lambda>_. 0) s t3" using both_stable [OF b stable_refl] by blast
    from const_baseD [OF L this wl _ ft3 loc] s(1) k show ?thesis by auto
  qed
qed

lemma const_base_SUB:
  assumes L: "sound c n l" and R: "sound c n r"
  shows "const_base c n (BINOP SUB l r)"
  unfolding const_base_def
proof (intro allI impI)
  fix p s t s' t' y v
  assume b: "both c p p (\<lambda>_. 0) s t" and wf: "wf_expr s (BINOP SUB l r)"
    and es: "eval n (BINOP SUB l r) c p s = Inr (s', v, True)"
    and ft: "findb n (BINOP SUB l r) c p t = Inr (t', BASE_OK, Some y)" and loc: "LOCREF (sym s y)"
  have wl: "wf_expr s l" and wr: "wf_expr s r" using wf by (auto simp: wf_expr_def)
  obtain s1 lv kl s2 rv kr where s: "eval n l c p s = Inr (s1, lv, kl)" "eval n r c p s1 = Inr (s2, rv, kr)"
    "binop_rest n SUB l r c p lv kl rv kr s2 = Inr (s', v, True)" using eval_BINOP_E [OF es] .
  note c0 = bothD [OF b]
  have s1: "stable s s1" "ctx c p s1" using ctx_eval s(1) c0 by blast+
  have s2: "stable s1 s2" "ctx c p s2" using ctx_eval s(2) s1 by blast+
  have st2: "stable s s2" using s1 s2 stable_trans by blast
  from ft show "\<exists>k. sym_sec (sym s y) = Some k \<and> sec_has (sec s k) UNALLOCATED"
  proof (rule findb_SUB_E)
    fix t1 xv kx
    assume t: "eval n r c p t = Inr (t1, xv, kx)" "try_base kx (findb n l c p) t1 = Inr (t', BASE_OK, Some y)"
    have kx: "kx" and ft1: "findb n l c p t1 = Inr (t', BASE_OK, Some y)" using try_const [OF t(2)] by auto
    have t1: "stable t t1" "ctx c p t1" using ctx_eval t(1) c0 by blast+
    have b1: "both c p p (\<lambda>_. 0) s1 t" using both_stable [OF b s1(1) stable_refl] .
    have wr1: "wf_expr s1 r" using wf_stable [OF s1(1)] wr by simp
    have kr: "kr" using same_evalD [OF R b1 wr1 s(2) t(1)] kx by blast
    from s(3) show ?thesis
    proof (cases rule: binop_rest_cases)
      case (Op u ms)
      then have "kl" by simp
      have "both c p p (\<lambda>_. 0) s t1" using both_stable [OF b stable_refl t1(1)] .
      from const_baseD [OF L this wl _ ft1 loc] s(1) \<open>kl\<close> show ?thesis by auto
    next
      case Unbased
      then show ?thesis by simp
    next
      case (Based s3 x s4 lb)
      have s3: "stable s2 s3" "ctx c p s3" using ctx_findb [OF s2(2) Based(3)] by auto
      have s4: "stable s3 s4" "ctx c p s4" using ctx_findb [OF s3(2) Based(5)] by auto
      have st3: "stable s s3" using st2 s3 stable_trans by blast
      have same: "syms s4 = syms s" "syms s1 = syms s" "\<And>j. sec_has (sec s1 j) UNALLOCATED = sec_has (sec s j) UNALLOCATED"
        using s1 s4 st3 by (auto simp: stable_def sec_has_def)
      have b12: "both c p p (\<lambda>_. 0) s1 s2" using both_stable [OF both_refl [OF s1(2)] stable_refl s2(1)] .
      have locx: "LOCREF (sym s1 x)" using Based(4) s1 s2 s3 by (simp add: stable_def)
      have "eval n r c p s1 = Inr (s2, rv, True)" using s(2) kr by simp
      from const_baseD [OF R b12 wr1 this Based(3) locx]
      obtain j where j: "sym_sec (sym s x) = Some j" "sec_has (sec s j) UNALLOCATED" using same by auto
      have x: "x < length (syms s4)"
        using same_baseD [OF R b12 wr1 _ Based(3)] same_baseD [OF R both_refl [OF s2(2)] _ Based(3) Based(3)]
          wf_stable [OF st2] wr same st2 by (auto simp: agree_def stable_def)
      have "both c p p (\<lambda>_. 0) s3 t1" using both_stable [OF b st3 t1(1)] .
      from same_baseD [OF L this _ Based(5) ft1] have ag: "agree s3 lb (BASE_OK, Some y)"
        using wf_stable [OF st3] wl by simp
      have "sym_sec (sym s4 (the (snd lb))) = sym_sec (sym s4 x) \<and> fst lb = BASE_OK"
        using diff_based_result(1) [OF Based(6)] s4(2) x locx same by (simp add: ctx_def)
      then have "sym_sec (sym s y) = sym_sec (sym s x)" using ag same by (auto simp: agree_def)
      then show ?thesis using j by simp
    qed
  next
    fix r1 xv kx r2 lb s3 lb' s4 rb
    assume "pcrel_base c (snd lb') rb s4 = Inr (t', BASE_OK, Some y)"
    then show ?thesis using pcrel_base_Inr by fastforce
  qed auto
qed

lemma sound_BINOP:
  assumes "sound c n l" and "sound c n r"
  shows "sound c n (BINOP f l r)"
proof -
  have "moves c n (BINOP f l r) \<and> const_base c n (BINOP f l r)"
  proof (cases "f = ADD \<or> f = SUB")
    case True
    then show ?thesis
      using moves_ADD [OF assms] moves_SUB [OF assms] const_base_ADD [OF assms] const_base_SUB [OF assms] by auto
  next
    case False
    then show ?thesis by (auto simp: moves_def const_base_def findb_other return_Inr)
  qed
  then show ?thesis using same_eval_BINOP [OF assms] same_base_BINOP [OF assms] by (simp add: sound_def)
qed

lemma sound_UNOP:
  assumes "sound c n l"
  shows "sound c n (UNOP f l)"
proof -
  have "same_eval c n (UNOP f l)" unfolding same_eval_def
  proof (intro allI impI)
    fix p q \<delta> s t s' t' v w k j
    assume b: "both c p q \<delta> s t" and wf: "wf_expr s (UNOP f l)"
      and es: "eval n (UNOP f l) c p s = Inr (s', v, k)" and et: "eval n (UNOP f l) c q t = Inr (t', w, j)"
    obtain lv where "eval n l c p s = Inr (s', lv, k)" "v = unop_val f lv"
      using es by (auto simp: bind_st_Inr return_Inr)
    moreover obtain lw where "eval n l c q t = Inr (t', lw, j)" "w = unop_val f lw"
      using et by (auto simp: bind_st_Inr return_Inr)
    ultimately show "j = k \<and> (k \<longrightarrow> w = v)"
      using same_evalD [OF assms b] wf by (auto simp: wf_expr_def)
  qed
  then show ?thesis
    by (auto simp: sound_def same_base_def moves_def const_base_def return_Inr agree_def)
qed

lemma eval_HUG_Inr:
  assumes "eval n (HUG h) c p s = Inr (s', v, k)"
  shows "k" and "v = ucast (huge_to_int h)"
  using assms by (simp_all add: eval_huge_const_def bind_st_Inr get_Inr return_Inr)

lemma sound_HUG: "sound c n (HUG h)"
proof -
  have "same_eval c n (HUG h)"
    unfolding same_eval_def
  proof (intro allI impI)
    fix p q \<delta> s t s' t' v w k l
    assume es: "eval n (HUG h) c p s = Inr (s', v, k)" and et: "eval n (HUG h) c q t = Inr (t', w, l)"
    show "l = k \<and> (k \<longrightarrow> w = v)" using eval_HUG_Inr [OF es] eval_HUG_Inr [OF et] by simp
  qed
  moreover have "findb n (HUG h) c p s = Inr (s', b) \<Longrightarrow> fst b \<noteq> BASE_OK" for p s s' b
    by (auto simp: return_Inr)
  then have "same_base c n (HUG h)" and "moves c n (HUG h)" and "const_base c n (HUG h)"
    unfolding same_base_def moves_def const_base_def by (auto simp: return_Inr agree_def)
  ultimately show ?thesis by (simp add: sound_def)
qed

lemma sound: "sound c n e"
proof (induction n e rule: fuel_expr_induct)
  case (NUM n v)
  show ?case
    by (auto simp: sound_def same_eval_def same_base_def moves_def const_base_def return_Inr agree_def)
qed (fact sound_HUG sound_SYM0 | (rule sound_SYM sound_UNOP sound_BINOP; assumption))+

section \<open>Evaluation under relocation\<close>

lemma relocate:
  assumes b: "both c p q \<delta> s t" and wf: "wf_expr s e"
    and es: "eval_expr e c p s = Inr (s', v, k)" and et: "eval_expr e c q t = Inr (t', w, l)"
  shows "l = k \<and> (k \<longrightarrow> w = v)"
    and "find_base e c p s = Inr (s'', BASE_OK, Some y) \<Longrightarrow> w = v + label_shift \<delta> s y"
proof -
  have f: "fuel t = fuel s" using b by (simp add: fuel_def both_def related_def)
  note ev = es [unfolded eval_expr_def] et [unfolded eval_expr_def f]
  show "l = k \<and> (k \<longrightarrow> w = v)" using same_evalD [OF sound b wf ev] .
  assume "find_base e c p s = Inr (s'', BASE_OK, Some y)"
  from movesD [OF sound both_refl b wf this [unfolded find_base_def] ev] b
  show "w = v + label_shift \<delta> s y" by (simp add: both_def)
qed


text \<open>A label of section 0, which moves by 256, and one of section 1, which stays.\<close>

definition label_at :: "secid \<Rightarrow> taddr \<Rightarrow> symbol" where
  "label_at k a = \<lparr>sym_type = LABSYM, sym_flags = 0, sym_name = [], sym_expr = None, sym_size = None,
     sym_sec = Some k, sym_pc = a, sym_align = 0\<rparr>"

definition plain_sect :: "nat \<Rightarrow> sect" where
  "plain_sect i = \<lparr>sec_name = [], sec_attr = [], sec_align = 1, sec_pad = [0], sec_padbytes = 1, sec_flags = 0,
     sec_memattr = 0, sec_org = 0, sec_pc = 0, sec_rorg_pc = 0, sec_saved_pc = 0, sec_idx = i, sec_deps = []\<rparr>"

definition two_sections :: "taddr \<Rightarrow> asm" where
  "two_sections a = \<lparr>syms = [label_at 0 a, label_at 0 (a + 4), label_at 1 8], secs = [plain_sect 0, plain_sect 1],
     cpc = None, final_pass = True, num_secs = 2, bytespertaddr = 4, msgs = []\<rparr>"

lemma two_sections_ctx: "ctx (Some 0) p (two_sections a)"
  by (simp add: ctx_def wf_asm_def cpc_ok_def placed_def no_abslabels_def allocated_def two_sections_def
      label_at_def plain_sect_def update_curpc_def sym_has_def sec_has_def All_less_Suc numeral_eq_Suc nth_Cons'
      split: option.split)

lemma two_sections_related: "related (\<lambda>k. if k = 0 then 256 else 0) (two_sections 16) (two_sections 272)"
  by (simp add: related_def two_sections_def label_at_def plain_sect_def label_shift_def LOCREF_def sym_has_def
      sec_has_def All_less_Suc numeral_eq_Suc)

lemmas eval_simps = eval_expr_def find_base_def fuel_def eval_BINOP binop_rest_def action_defs eval_label_def
  update_curpc_def LOCREF_def sym_has_def sec_has_def final_errors_def log_all_def try_base_def or_else_def


section \<open>Where the code does not keep the value\<close>

text \<open>
  \<open>simplify_expr\<close> turns a constant minus two symbols into the constant minus the difference
  of the symbols: the value changes by twice the second symbol, as for \<open>100 - b - a\<close> with the
  labels \<open>a\<close> at 16 and \<open>b\<close> at 20.
\<close>

theorem simplify_changes_value:
  "\<exists>e'. simplify_expr (BINOP SUB (BINOP SUB (NUM 100) (SYM 1)) (SYM 0)) (two_sections 16) = Inr (two_sections 16, e')
     \<and> eval_expr (BINOP SUB (BINOP SUB (NUM 100) (SYM 1)) (SYM 0)) (Some 0) 0 (two_sections 16)
         = Inr (two_sections 16, 64, False)
     \<and> eval_expr e' (Some 0) 0 (two_sections 16) = Inr (two_sections 16, 96, True)"
proof -
  let ?s = "two_sections 16"
  have ev: "eval n (SYM y) (Some 0) 0 ?s = Inr (?s, sym_pc (sym ?s y), False)"
    and fb: "findb n (SYM y) (Some 0) 0 ?s = Inr (?s, BASE_OK, Some y)" if "y \<in> {0, 1}" for n y
    using that by (cases n; auto simp: eval_simps two_sections_def label_at_def plain_sect_def)+
  have pc: "sym_pc (sym ?s 0) = 16" "sym_pc (sym ?s (Suc 0)) = 20" by (simp_all add: two_sections_def label_at_def)
  have ty: "sym_type (sym ?s y) = LABSYM" "LOCREF (sym ?s y)" "sym_sec (sym ?s y) = Some 0"
    "\<not> sym_has (sym ?s y) ABSLABEL" if "y \<in> {0, 1}" for y
    using that by (auto simp: two_sections_def label_at_def LOCREF_def sym_has_def)
  have dep: "add_dep (Some 0) (Some 0) ?s = Inr (?s, ())" by (simp add: add_dep_def action_defs)
  have d: "eval n (BINOP SUB (SYM (Suc 0)) (SYM 0)) (Some 0) 0 ?s = Inr (?s, 4, True)" for n
    by (simp add: eval_BINOP binop_rest_def action_defs ev fb pc ty dep diff_based_def)
  have l: "eval n (BINOP SUB (NUM 100) (SYM (Suc 0))) (Some 0) 0 ?s = Inr (?s, 80, False)" for n
    by (simp add: eval_BINOP binop_rest_def action_defs ev fb pc ty diff_based_def Let_def)
  have "simplify_expr (BINOP SUB (BINOP SUB (NUM 100) (SYM 1)) (SYM 0)) ?s
      = Inr (?s, BINOP SUB (NUM 100) (BINOP SUB (SYM 1) (SYM 0)))"
    by (simp add: fold_node_def action_defs ty log_all_def)
  moreover have "eval_expr (BINOP SUB (BINOP SUB (NUM 100) (SYM 1)) (SYM 0)) (Some 0) 0 ?s = Inr (?s, 64, False)"
    unfolding eval_expr_def eval_BINOP [of _ SUB "BINOP SUB l r" for l r]
    by (simp add: binop_rest_def action_defs l ev fb pc ty diff_based_def
        try_base_def or_else_def pcrel_base_def)
  moreover have "eval_expr (BINOP SUB (NUM 100) (BINOP SUB (SYM 1) (SYM 0))) (Some 0) 0 ?s = Inr (?s, 96, True)"
    unfolding eval_expr_def eval_BINOP [of _ SUB "NUM v" for v]
    by (simp add: binop_rest_def action_defs d log_all_def final_errors_def)
  ultimately show ?thesis by blast
qed

definition import_and_abslabel :: asm where
  "import_and_abslabel = (two_sections 16)\<lparr>syms := [(label_at 0 0)\<lparr>sym_type := IMPORT, sym_sec := None\<rparr>,
     set_flag ABSLABEL (label_at 0 16)]\<rparr>"

text \<open>
  With a label of a section with an absolute address on the right, \<open>eval_expr\<close> calls a
  difference constant although its left side is not: twice an imported symbol minus the label.
\<close>

theorem abslabel_difference_constant:
  "eval_expr (BINOP MUL (SYM 0) (NUM 2)) (Some 0) 0 import_and_abslabel = Inr (import_and_abslabel, 0, False)
   \<and> eval_expr (BINOP SUB (BINOP MUL (SYM 0) (NUM 2)) (SYM 1)) (Some 0) 0 import_and_abslabel
       = Inr (import_and_abslabel, - 16, True)"
proof -
  let ?s = import_and_abslabel
  have ty: "sym_type (sym ?s 0) = IMPORT" "LOCREF (sym ?s (Suc 0))" "\<not> LOCREF (sym ?s 0)"
    "sym_sec (sym ?s (Suc 0)) = Some 0" "sym_has (sym ?s (Suc 0)) ABSLABEL"
    "sym_type (sym ?s (Suc 0)) = LABSYM" "sym_pc (sym ?s (Suc 0)) = 16" "cpc ?s = None"
    by (simp_all add: import_and_abslabel_def two_sections_def label_at_def LOCREF_def sym_has_def set_flag_def
        symflag_defs)
  have dep: "add_dep (Some 0) (Some 0) ?s = Inr (?s, ())" by (simp add: add_dep_def action_defs)
  have up: "update_curpc y c pc ?s = ?s" for y c pc by (cases c) (simp_all add: update_curpc_def ty)
  have e0: "eval n (SYM 0) (Some 0) 0 ?s = Inr (?s, 0, False)" for n
    by (cases n) (simp_all add: action_defs ty eval_label_def)
  have e1: "eval n (SYM (Suc 0)) (Some 0) 0 ?s = Inr (?s, 16, True)" for n
    by (cases n) (simp_all add: action_defs ty eval_label_def up dep)
  have f1: "findb n (SYM (Suc 0)) (Some 0) 0 ?s = Inr (?s, BASE_OK, Some (Suc 0))" for n
    by (cases n) (simp_all add: action_defs ty up dep)
  have l: "eval n (BINOP MUL (SYM 0) (NUM 2)) (Some 0) 0 ?s = Inr (?s, 0, False)" for n
    unfolding eval_BINOP by (simp add: action_defs e0 binop_rest_def final_errors_def log_all_def)
  have "eval n (BINOP SUB (BINOP MUL (SYM 0) (NUM 2)) (SYM 1)) (Some 0) 0 ?s = Inr (?s, - 16, True)" for n
    unfolding eval_BINOP [of _ SUB] One_nat_def
    by (simp only: bind_st_def l e1 sum.case prod.case)
      (simp add: action_defs f1 binop_rest_def diff_based_def findb_other ty dep)
  then show ?thesis using l by (simp add: eval_expr_def)
qed

end
