(* ===== verification/Opcodes6502.thy ===== *)
theory Opcodes6502
  imports Prelude
begin

text \<open>
  The table of mnemonics of the 6502 family, \<open>src/cpus/6502/opcodes.h\<close>, entry by entry, with the
  addressing modes and the cpu flags of \<open>src/cpus/6502/cpu.h\<close>. The operand types of an entry
  end before the first empty one.
\<close>

datatype optype = IMPLIED | DATAOP | ABS | ABSX | ABSY | ABSZ | LABS | LABSX | DPAGE | DPAGEX | DPAGEY | DPAGEZ
  | SR | INDIR | DPINDX | DPINDY | DPINDZ | DPIND | SRINDY | INDIRX | LINDIR | LDPINDY | QDPINDZ | LDPIND
  | QDPIND | RELJMP | REL8 | REL16 | IMMED | IMMEDX | IMMED8 | IMMED16 | WBIT | MVBANK | ACCU

definition M6502 :: u16 where "M6502 = 1"
definition ILL :: u16 where "ILL = 2"
definition DTV :: u16 where "DTV = 4"
definition M65C02 :: u16 where "M65C02 = 8"
definition WDC02 :: u16 where "WDC02 = 16"
definition WDC02ALL :: u16 where "WDC02ALL = 32"
definition CSGCE02 :: u16 where "CSGCE02 = 64"
definition HU6280 :: u16 where "HU6280 = 128"
definition M45GS02 :: u16 where "M45GS02 = 256"
definition M45GS02Q :: u16 where "M45GS02Q = 512"
definition WDC65816 :: u16 where "WDC65816 = 1024"

lemmas available_defs = M6502_def ILL_def DTV_def M65C02_def WDC02_def WDC02ALL_def CSGCE02_def HU6280_def M45GS02_def M45GS02Q_def WDC65816_def

record mnemonic =
  mn_name :: string
  operand_type :: "optype list"
  opcode :: u8
  zp_opcode :: u8
  al_opcode :: u8
  available :: u16

definition mn :: "string \<Rightarrow> optype list \<Rightarrow> u8 \<Rightarrow> u8 \<Rightarrow> u8 \<Rightarrow> u16 \<Rightarrow> mnemonic" where
  "mn n ops oc zp al av = \<lparr>mn_name = n, operand_type = ops, opcode = oc, zp_opcode = zp, al_opcode = al, available = av\<rparr>"

definition mnemonics1 :: "mnemonic list" where
  "mnemonics1 =
    [mn ''adc'' [IMMED] 0x69 0x00 0x00 M6502,
     mn ''adc'' [ABS] 0x6d 0x65 0x6f M6502,
     mn ''adc'' [SR] 0x63 0x00 0x00 WDC65816,
     mn ''adc'' [SRINDY] 0x73 0x00 0x00 WDC65816,
     mn ''adc'' [DPINDX] 0x61 0x00 0x00 M6502,
     mn ''adc'' [DPINDY] 0x71 0x00 0x00 M6502,
     mn ''adc'' [DPINDZ] 0x72 0x00 0x00 CSGCE02,
     mn ''adc'' [DPIND] 0x72 0x00 0x00 M65C02,
     mn ''adc'' [ABSX] 0x7d 0x75 0x7f M6502,
     mn ''adc'' [ABSY] 0x79 0x00 0x00 M6502,
     mn ''adc'' [QDPINDZ] 0x72 0x00 0x00 M45GS02,
     mn ''adc'' [LDPINDY] 0x77 0x00 0x00 WDC65816,
     mn ''adc'' [LDPIND] 0x67 0x00 0x00 WDC65816,
     mn ''adcq'' [ABS] 0x6d 0x65 0x00 M45GS02Q,
     mn ''adcq'' [DPIND] 0x72 0x00 0x00 M45GS02Q,
     mn ''adcq'' [QDPIND] 0x72 0x00 0x00 M45GS02Q,
     mn ''ahx'' [DPINDY] 0x93 0x00 0x00 ILL,
     mn ''ahx'' [ABSY] 0x9f 0x00 0x00 ILL,
     mn ''alr'' [IMMED] 0x4b 0x00 0x00 ILL,
     mn ''anc'' [IMMED] 0x0b 0x00 0x00 ILL,
     mn ''anc2'' [IMMED] 0x2b 0x00 0x00 ILL,
     mn ''and'' [IMMED] 0x29 0x00 0x00 M6502,
     mn ''and'' [ABS] 0x2d 0x25 0x2f M6502,
     mn ''and'' [SR] 0x23 0x00 0x00 WDC65816,
     mn ''and'' [SRINDY] 0x33 0x00 0x00 WDC65816,
     mn ''and'' [DPINDX] 0x21 0x00 0x00 M6502,
     mn ''and'' [DPINDY] 0x31 0x00 0x00 M6502,
     mn ''and'' [DPINDZ] 0x32 0x00 0x00 CSGCE02,
     mn ''and'' [DPIND] 0x32 0x00 0x00 M65C02,
     mn ''and'' [ABSX] 0x3d 0x35 0x3f M6502,
     mn ''and'' [ABSY] 0x39 0x00 0x00 M6502,
     mn ''and'' [QDPINDZ] 0x32 0x00 0x00 M45GS02,
     mn ''and'' [LDPINDY] 0x37 0x00 0x00 WDC65816,
     mn ''and'' [LDPIND] 0x27 0x00 0x00 WDC65816,
     mn ''andq'' [ABS] 0x2d 0x25 0x00 M45GS02Q,
     mn ''andq'' [DPIND] 0x32 0x00 0x00 M45GS02Q,
     mn ''andq'' [QDPIND] 0x32 0x00 0x00 M45GS02Q,
     mn ''arr'' [IMMED] 0x6b 0x00 0x00 ILL,
     mn ''asl'' [ACCU] 0x0a 0x00 0x00 M6502,
     mn ''asl'' [ABS] 0x0e 0x06 0x00 M6502,
     mn ''asl'' [ABSX] 0x1e 0x16 0x00 M6502,
     mn ''asl'' [] 0x0a 0x00 0x00 M6502,
     mn ''aslq'' [ABS] 0x0e 0x06 0x00 M45GS02Q,
     mn ''aslq'' [ABSX] 0x1e 0x16 0x00 M45GS02Q,
     mn ''aslq'' [] 0x0a 0x00 0x00 M45GS02Q,
     mn ''aso'' [ABS] 0x0f 0x07 0x00 ILL,
     mn ''aso'' [DPINDX] 0x03 0x00 0x00 ILL,
     mn ''aso'' [DPINDY] 0x13 0x00 0x00 ILL,
     mn ''aso'' [ABSX] 0x1f 0x17 0x00 ILL,
     mn ''aso'' [ABSY] 0x1b 0x00 0x00 ILL,
     mn ''asr'' [ACCU] 0x43 0x00 0x00 CSGCE02,
     mn ''asr'' [ABS] 0x00 0x44 0x00 CSGCE02,
     mn ''asr'' [ABSX] 0x00 0x54 0x00 CSGCE02,
     mn ''asr'' [] 0x43 0x00 0x00 CSGCE02,
     mn ''asrq'' [ABS] 0x00 0x44 0x00 M45GS02Q,
     mn ''asrq'' [ABSX] 0x00 0x54 0x00 M45GS02Q,
     mn ''asrq'' [] 0x43 0x00 0x00 M45GS02Q,
     mn ''asw'' [ABS] 0xcb 0x00 0x00 CSGCE02,
     mn ''axa'' [DPINDY] 0x93 0x00 0x00 ILL,
     mn ''axa'' [ABSY] 0x9f 0x00 0x00 ILL,
     mn ''axs'' [IMMED] 0xcb 0x00 0x00 ILL,
     mn ''axs'' [ABS] 0x8f 0x87 0x00 ILL,
     mn ''axs'' [DPINDX] 0x83 0x00 0x00 ILL,
     mn ''axs'' [ABSY] 0x00 0x97 0x00 ILL,
     mn ''bbr'' [WBIT, DPAGE, REL8] 0x00 0x0f 0x00 WDC02,
     mn ''bbr0'' [DPAGE, REL8] 0x00 0x0f 0x00 WDC02,
     mn ''bbr1'' [DPAGE, REL8] 0x00 0x1f 0x00 WDC02,
     mn ''bbr2'' [DPAGE, REL8] 0x00 0x2f 0x00 WDC02,
     mn ''bbr3'' [DPAGE, REL8] 0x00 0x3f 0x00 WDC02,
     mn ''bbr4'' [DPAGE, REL8] 0x00 0x4f 0x00 WDC02,
     mn ''bbr5'' [DPAGE, REL8] 0x00 0x5f 0x00 WDC02,
     mn ''bbr6'' [DPAGE, REL8] 0x00 0x6f 0x00 WDC02,
     mn ''bbr7'' [DPAGE, REL8] 0x00 0x7f 0x00 WDC02,
     mn ''bbs'' [WBIT, DPAGE, REL8] 0x00 0x8f 0x00 WDC02,
     mn ''bbs0'' [DPAGE, REL8] 0x00 0x8f 0x00 WDC02,
     mn ''bbs1'' [DPAGE, REL8] 0x00 0x9f 0x00 WDC02,
     mn ''bbs2'' [DPAGE, REL8] 0x00 0xaf 0x00 WDC02,
     mn ''bbs3'' [DPAGE, REL8] 0x00 0xbf 0x00 WDC02,
     mn ''bbs4'' [DPAGE, REL8] 0x00 0xcf 0x00 WDC02,
     mn ''bbs5'' [DPAGE, REL8] 0x00 0xdf 0x00 WDC02,
     mn ''bbs6'' [DPAGE, REL8] 0x00 0xef 0x00 WDC02,
     mn ''bbs7'' [DPAGE, REL8] 0x00 0xff 0x00 WDC02,
     mn ''bcc'' [REL8] 0x90 0x00 0x00 M6502,
     mn ''bcs'' [REL8] 0xb0 0x00 0x00 M6502,
     mn ''beq'' [REL8] 0xf0 0x00 0x00 M6502,
     mn ''bit'' [IMMED] 0x89 0x00 0x00 M65C02,
     mn ''bit'' [ABS] 0x2c 0x24 0x00 M6502,
     mn ''bit'' [ABSX] 0x3c 0x34 0x00 M65C02,
     mn ''bitq'' [ABS] 0x2c 0x24 0x00 M45GS02Q,
     mn ''blt'' [REL8] 0x90 0x00 0x00 M6502,
     mn ''bge'' [REL8] 0xb0 0x00 0x00 M6502,
     mn ''bmi'' [REL8] 0x30 0x00 0x00 M6502,
     mn ''bne'' [REL8] 0xd0 0x00 0x00 M6502,
     mn ''bpl'' [REL8] 0x10 0x00 0x00 M6502,
     mn ''bra'' [REL8] 0x12 0x00 0x00 DTV,
     mn ''bra'' [REL8] 0x80 0x00 0x00 M65C02,
     mn ''brk'' [IMMED8] 0x00 0x00 0x00 M6502,
     mn ''brk'' [] 0x00 0x00 0x00 M6502,
     mn ''brl'' [REL16] 0x82 0x00 0x00 WDC65816,
     mn ''bsr'' [REL8] 0x44 0x00 0x00 HU6280,
     mn ''bvc'' [REL8] 0x50 0x00 0x00 M6502,
     mn ''bvs'' [REL8] 0x70 0x00 0x00 M6502,
     mn ''cla'' [] 0x62 0x00 0x00 HU6280,
     mn ''clc'' [] 0x18 0x00 0x00 M6502,
     mn ''cld'' [] 0xd8 0x00 0x00 M6502,
     mn ''cle'' [] 0x02 0x00 0x00 CSGCE02,
     mn ''cli'' [] 0x58 0x00 0x00 M6502,
     mn ''clv'' [] 0xb8 0x00 0x00 M6502,
     mn ''clx'' [] 0x82 0x00 0x00 HU6280,
     mn ''cly'' [] 0xc2 0x00 0x00 HU6280,
     mn ''cmp'' [IMMED] 0xc9 0x00 0x00 M6502,
     mn ''cmp'' [ABS] 0xcd 0xc5 0xcf M6502,
     mn ''cmp'' [SR] 0xc3 0x00 0x00 WDC65816,
     mn ''cmp'' [SRINDY] 0xd3 0x00 0x00 WDC65816,
     mn ''cmp'' [DPINDX] 0xc1 0x00 0x00 M6502,
     mn ''cmp'' [DPINDY] 0xd1 0x00 0x00 M6502]"

definition mnemonics2 :: "mnemonic list" where
  "mnemonics2 =
    [mn ''cmp'' [DPINDZ] 0xd2 0x00 0x00 CSGCE02,
     mn ''cmp'' [DPIND] 0xd2 0x00 0x00 M65C02,
     mn ''cmp'' [ABSX] 0xdd 0xd5 0xdf M6502,
     mn ''cmp'' [ABSY] 0xd9 0x00 0x00 M6502,
     mn ''cmp'' [QDPINDZ] 0xd2 0x00 0x00 M45GS02,
     mn ''cmp'' [LDPINDY] 0xd7 0x00 0x00 WDC65816,
     mn ''cmp'' [LDPIND] 0xc7 0x00 0x00 WDC65816,
     mn ''cpa'' [IMMED] 0xc9 0x00 0x00 WDC65816,
     mn ''cpa'' [ABS] 0xcd 0xc5 0xcf WDC65816,
     mn ''cpa'' [SR] 0xc3 0x00 0x00 WDC65816,
     mn ''cpa'' [SRINDY] 0xd3 0x00 0x00 WDC65816,
     mn ''cpa'' [DPINDX] 0xc1 0x00 0x00 WDC65816,
     mn ''cpa'' [DPINDY] 0xd1 0x00 0x00 WDC65816,
     mn ''cpa'' [DPIND] 0xd2 0x00 0x00 WDC65816,
     mn ''cpa'' [ABSX] 0xdd 0xd5 0xdf WDC65816,
     mn ''cpa'' [ABSY] 0xd9 0x00 0x00 WDC65816,
     mn ''cpa'' [LDPINDY] 0xd7 0x00 0x00 WDC65816,
     mn ''cpa'' [LDPIND] 0xc7 0x00 0x00 WDC65816,
     mn ''cop'' [IMMED8] 0x02 0x00 0x00 WDC65816,
     mn ''cpq'' [ABS] 0xcd 0xc5 0x00 M45GS02Q,
     mn ''cpq'' [DPIND] 0xd2 0x00 0x00 M45GS02Q,
     mn ''cpq'' [QDPIND] 0xd2 0x00 0x00 M45GS02Q,
     mn ''cpx'' [IMMEDX] 0xe0 0x00 0x00 M6502,
     mn ''cpx'' [ABS] 0xec 0xe4 0x00 M6502,
     mn ''cpy'' [IMMEDX] 0xc0 0x00 0x00 M6502,
     mn ''cpy'' [ABS] 0xcc 0xc4 0x00 M6502,
     mn ''cpz'' [IMMED] 0xc2 0x00 0x00 CSGCE02,
     mn ''cpz'' [ABS] 0xdc 0xd4 0x00 CSGCE02,
     mn ''csh'' [] 0xd4 0x00 0x00 HU6280,
     mn ''csl'' [] 0x54 0x00 0x00 HU6280,
     mn ''dcm'' [ABS] 0xcf 0xc7 0x00 ILL,
     mn ''dcm'' [DPINDX] 0xc3 0x00 0x00 ILL,
     mn ''dcm'' [DPINDY] 0xd3 0x00 0x00 ILL,
     mn ''dcm'' [ABSX] 0xdf 0xd7 0x00 ILL,
     mn ''dcm'' [ABSY] 0xdb 0x00 0x00 ILL,
     mn ''dcp'' [ABS] 0xcf 0xc7 0x00 ILL,
     mn ''dcp'' [DPINDX] 0xc3 0x00 0x00 ILL,
     mn ''dcp'' [DPINDY] 0xd3 0x00 0x00 ILL,
     mn ''dcp'' [ABSX] 0xdf 0xd7 0x00 ILL,
     mn ''dcp'' [ABSY] 0xdb 0x00 0x00 ILL,
     mn ''dea'' [] 0x3a 0x00 0x00 M65C02,
     mn ''dec'' [ACCU] 0x3a 0x00 0x00 M65C02,
     mn ''dec'' [ABS] 0xce 0xc6 0x00 M6502,
     mn ''dec'' [ABSX] 0xde 0xd6 0x00 M6502,
     mn ''dec'' [] 0x3a 0x00 0x00 M65C02,
     mn ''deq'' [ABS] 0xce 0xc6 0x00 M45GS02Q,
     mn ''deq'' [ABSX] 0xde 0xd6 0x00 M45GS02Q,
     mn ''deq'' [] 0x3a 0x00 0x00 M45GS02Q,
     mn ''dew'' [DPAGE] 0x00 0xc3 0x00 CSGCE02,
     mn ''dex'' [] 0xca 0x00 0x00 M6502,
     mn ''dey'' [] 0x88 0x00 0x00 M6502,
     mn ''dez'' [] 0x3b 0x00 0x00 CSGCE02,
     mn ''eom'' [] 0xea 0x00 0x00 M45GS02,
     mn ''eor'' [IMMED] 0x49 0x00 0x00 M6502,
     mn ''eor'' [ABS] 0x4d 0x45 0x4f M6502,
     mn ''eor'' [SR] 0x43 0x00 0x00 WDC65816,
     mn ''eor'' [SRINDY] 0x53 0x00 0x00 WDC65816,
     mn ''eor'' [DPINDX] 0x41 0x00 0x00 M6502,
     mn ''eor'' [DPINDY] 0x51 0x00 0x00 M6502,
     mn ''eor'' [DPINDZ] 0x52 0x00 0x00 CSGCE02,
     mn ''eor'' [DPIND] 0x52 0x00 0x00 M65C02,
     mn ''eor'' [ABSX] 0x5d 0x55 0x5f M6502,
     mn ''eor'' [ABSY] 0x59 0x00 0x00 M6502,
     mn ''eor'' [QDPINDZ] 0x52 0x00 0x00 M45GS02,
     mn ''eor'' [LDPINDY] 0x57 0x00 0x00 WDC65816,
     mn ''eor'' [LDPIND] 0x47 0x00 0x00 WDC65816,
     mn ''eorq'' [ABS] 0x4d 0x45 0x00 M45GS02Q,
     mn ''eorq'' [DPIND] 0x52 0x00 0x00 M45GS02Q,
     mn ''eorq'' [QDPIND] 0x52 0x00 0x00 M45GS02Q,
     mn ''ina'' [] 0x1a 0x00 0x00 M65C02,
     mn ''inc'' [ACCU] 0x1a 0x00 0x00 M65C02,
     mn ''inc'' [ABS] 0xee 0xe6 0x00 M6502,
     mn ''inc'' [ABSX] 0xfe 0xf6 0x00 M6502,
     mn ''inc'' [] 0x1a 0x00 0x00 M65C02,
     mn ''inq'' [ABS] 0xee 0xe6 0x00 M45GS02Q,
     mn ''inq'' [ABSX] 0xfe 0xf6 0x00 M45GS02Q,
     mn ''inq'' [] 0x1a 0x00 0x00 M45GS02Q,
     mn ''ins'' [ABS] 0xef 0xe7 0x00 ILL,
     mn ''ins'' [DPINDX] 0xe3 0x00 0x00 ILL,
     mn ''ins'' [DPINDY] 0xf3 0x00 0x00 ILL,
     mn ''ins'' [ABSX] 0xff 0xf7 0x00 ILL,
     mn ''ins'' [ABSY] 0xfb 0x00 0x00 ILL,
     mn ''inw'' [ABS] 0x00 0xe3 0x00 CSGCE02,
     mn ''inx'' [] 0xe8 0x00 0x00 M6502,
     mn ''iny'' [] 0xc8 0x00 0x00 M6502,
     mn ''inz'' [] 0x1b 0x00 0x00 CSGCE02,
     mn ''isc'' [ABS] 0xef 0xe7 0x00 ILL,
     mn ''isc'' [DPINDX] 0xe3 0x00 0x00 ILL,
     mn ''isc'' [DPINDY] 0xf3 0x00 0x00 ILL,
     mn ''isc'' [ABSX] 0xff 0xf7 0x00 ILL,
     mn ''isc'' [ABSY] 0xfb 0x00 0x00 ILL,
     mn ''jml'' [LABS] 0x00 0x00 0x5c WDC65816,
     mn ''jml'' [LINDIR] 0xdc 0x00 0x00 WDC65816,
     mn ''jmp'' [ABS] 0x4c 0x00 0x5c M6502,
     mn ''jmp'' [INDIRX] 0x7c 0x00 0x00 M65C02,
     mn ''jmp'' [INDIR] 0x6c 0x00 0x00 M6502,
     mn ''jmp'' [LINDIR] 0xdc 0x00 0x00 WDC65816,
     mn ''jsl'' [LABS] 0x00 0x00 0x22 WDC65816,
     mn ''jsr'' [ABS] 0x20 0x00 0x22 M6502,
     mn ''jsr'' [INDIRX] 0xfc 0x00 0x00 WDC65816,
     mn ''las'' [ABSY] 0xbb 0x00 0x00 ILL,
     mn ''lax'' [IMMED] 0xab 0x00 0x00 ILL,
     mn ''lax'' [ABS] 0xaf 0xa7 0x00 ILL,
     mn ''lax'' [ABSY] 0xbf 0xb7 0x00 ILL,
     mn ''lax'' [DPINDX] 0xa3 0x00 0x00 ILL,
     mn ''lax'' [DPINDY] 0xb3 0x00 0x00 ILL,
     mn ''lda'' [IMMED] 0xa9 0x00 0x00 M6502,
     mn ''lda'' [ABS] 0xad 0xa5 0xaf M6502,
     mn ''lda'' [SR] 0xa3 0x00 0x00 WDC65816,
     mn ''lda'' [SRINDY] 0xb3 0x00 0x00 WDC65816,
     mn ''lda'' [DPINDX] 0xa1 0x00 0x00 M6502,
     mn ''lda'' [DPINDY] 0xb1 0x00 0x00 M6502,
     mn ''lda'' [DPINDZ] 0xb2 0x00 0x00 CSGCE02,
     mn ''lda'' [DPIND] 0xb2 0x00 0x00 M65C02,
     mn ''lda'' [ABSX] 0xbd 0xb5 0xbf M6502,
     mn ''lda'' [ABSY] 0xb9 0x00 0x00 M6502]"

definition mnemonics3 :: "mnemonic list" where
  "mnemonics3 =
    [mn ''lda'' [QDPINDZ] 0xb2 0x00 0x00 M45GS02,
     mn ''lda'' [LDPINDY] 0xb7 0x00 0x00 WDC65816,
     mn ''lda'' [LDPIND] 0xa7 0x00 0x00 WDC65816,
     mn ''ldq'' [ABS] 0xad 0xa5 0x00 M45GS02Q,
     mn ''ldq'' [DPINDZ] 0xb2 0x00 0x00 M45GS02Q,
     mn ''ldq'' [QDPINDZ] 0xb2 0x00 0x00 M45GS02Q,
     mn ''ldx'' [IMMEDX] 0xa2 0x00 0x00 M6502,
     mn ''ldx'' [ABS] 0xae 0xa6 0x00 M6502,
     mn ''ldx'' [ABSY] 0xbe 0xb6 0x00 M6502,
     mn ''ldy'' [IMMEDX] 0xa0 0x00 0x00 M6502,
     mn ''ldy'' [ABS] 0xac 0xa4 0x00 M6502,
     mn ''ldy'' [ABSX] 0xbc 0xb4 0x00 M6502,
     mn ''ldz'' [IMMED] 0xa3 0x00 0x00 CSGCE02,
     mn ''ldz'' [ABS] 0xab 0x00 0x00 CSGCE02,
     mn ''ldz'' [ABSX] 0xbb 0x00 0x00 CSGCE02,
     mn ''lse'' [ABS] 0x4f 0x47 0x00 ILL,
     mn ''lse'' [DPINDX] 0x43 0x00 0x00 ILL,
     mn ''lse'' [DPINDY] 0x53 0x00 0x00 ILL,
     mn ''lse'' [ABSX] 0x5f 0x57 0x00 ILL,
     mn ''lse'' [ABSY] 0x5b 0x00 0x00 ILL,
     mn ''lsr'' [ACCU] 0x4a 0x00 0x00 M6502,
     mn ''lsr'' [ABS] 0x4e 0x46 0x00 M6502,
     mn ''lsr'' [ABSX] 0x5e 0x56 0x00 M6502,
     mn ''lsr'' [] 0x4a 0x00 0x00 M6502,
     mn ''lsrq'' [ABS] 0x4e 0x46 0x00 M45GS02Q,
     mn ''lsrq'' [ABSX] 0x5e 0x56 0x00 M45GS02Q,
     mn ''lsrq'' [] 0x4a 0x00 0x00 M45GS02Q,
     mn ''map'' [] 0x5c 0x00 0x00 CSGCE02,
     mn ''mvn'' [IMMED8, IMMED8] 0x54 0x00 0x00 WDC65816,
     mn ''mvn'' [MVBANK, MVBANK] 0x54 0x00 0x00 WDC65816,
     mn ''mvp'' [IMMED8, IMMED8] 0x44 0x00 0x00 WDC65816,
     mn ''mvp'' [MVBANK, MVBANK] 0x44 0x00 0x00 WDC65816,
     mn ''neg'' [ACCU] 0x42 0x00 0x00 CSGCE02,
     mn ''neg'' [] 0x42 0x00 0x00 CSGCE02,
     mn ''nop'' [] 0xea 0x00 0x00 M6502,
     mn ''oal'' [IMMED] 0xab 0x00 0x00 ILL,
     mn ''ora'' [IMMED] 0x09 0x00 0x00 M6502,
     mn ''ora'' [ABS] 0x0d 0x05 0x0f M6502,
     mn ''ora'' [SR] 0x03 0x00 0x00 WDC65816,
     mn ''ora'' [SRINDY] 0x13 0x00 0x00 WDC65816,
     mn ''ora'' [DPINDX] 0x01 0x00 0x00 M6502,
     mn ''ora'' [DPINDY] 0x11 0x00 0x00 M6502,
     mn ''ora'' [DPINDZ] 0x12 0x00 0x00 CSGCE02,
     mn ''ora'' [DPIND] 0x12 0x00 0x00 M65C02,
     mn ''ora'' [ABSX] 0x1d 0x15 0x1f M6502,
     mn ''ora'' [ABSY] 0x19 0x00 0x00 M6502,
     mn ''ora'' [QDPINDZ] 0x12 0x00 0x00 M45GS02,
     mn ''ora'' [LDPINDY] 0x17 0x00 0x00 WDC65816,
     mn ''ora'' [LDPIND] 0x07 0x00 0x00 WDC65816,
     mn ''orq'' [ABS] 0x0d 0x05 0x00 M45GS02Q,
     mn ''orq'' [DPIND] 0x12 0x00 0x00 M45GS02Q,
     mn ''orq'' [QDPIND] 0x12 0x00 0x00 M45GS02Q,
     mn ''pea'' [IMMED16] 0xf4 0x00 0x00 WDC65816,
     mn ''pea'' [ABS] 0xf4 0x00 0x00 WDC65816,
     mn ''pei'' [DPIND] 0xd4 0x00 0x00 WDC65816,
     mn ''per'' [REL16] 0x62 0x00 0x00 WDC65816,
     mn ''pha'' [] 0x48 0x00 0x00 M6502,
     mn ''phb'' [] 0x8b 0x00 0x00 WDC65816,
     mn ''phd'' [] 0x0b 0x00 0x00 WDC65816,
     mn ''phk'' [] 0x4b 0x00 0x00 WDC65816,
     mn ''php'' [] 0x08 0x00 0x00 M6502,
     mn ''phw'' [IMMED16] 0xf4 0x00 0x00 CSGCE02,
     mn ''phw'' [ABS] 0xfc 0x00 0x00 CSGCE02,
     mn ''phx'' [] 0xda 0x00 0x00 M65C02,
     mn ''phy'' [] 0x5a 0x00 0x00 M65C02,
     mn ''phz'' [] 0xdb 0x00 0x00 CSGCE02,
     mn ''pla'' [] 0x68 0x00 0x00 M6502,
     mn ''plb'' [] 0xab 0x00 0x00 WDC65816,
     mn ''pld'' [] 0x2b 0x00 0x00 WDC65816,
     mn ''plp'' [] 0x28 0x00 0x00 M6502,
     mn ''plx'' [] 0xfa 0x00 0x00 M65C02,
     mn ''ply'' [] 0x7a 0x00 0x00 M65C02,
     mn ''plz'' [] 0xfb 0x00 0x00 CSGCE02,
     mn ''rep'' [IMMED8] 0xc2 0x00 0x00 WDC65816,
     mn ''rla'' [ABS] 0x2f 0x27 0x00 ILL,
     mn ''rla'' [DPINDX] 0x23 0x00 0x00 ILL,
     mn ''rla'' [DPINDY] 0x33 0x00 0x00 ILL,
     mn ''rla'' [ABSX] 0x3f 0x37 0x00 ILL,
     mn ''rla'' [ABSY] 0x3b 0x00 0x00 ILL,
     mn ''rmb'' [WBIT, DPAGE] 0x00 0x07 0x00 WDC02,
     mn ''rmb0'' [DPAGE] 0x00 0x07 0x00 WDC02,
     mn ''rmb1'' [DPAGE] 0x00 0x17 0x00 WDC02,
     mn ''rmb2'' [DPAGE] 0x00 0x27 0x00 WDC02,
     mn ''rmb3'' [DPAGE] 0x00 0x37 0x00 WDC02,
     mn ''rmb4'' [DPAGE] 0x00 0x47 0x00 WDC02,
     mn ''rmb5'' [DPAGE] 0x00 0x57 0x00 WDC02,
     mn ''rmb6'' [DPAGE] 0x00 0x67 0x00 WDC02,
     mn ''rmb7'' [DPAGE] 0x00 0x77 0x00 WDC02,
     mn ''rol'' [ACCU] 0x2a 0x00 0x00 M6502,
     mn ''rol'' [ABS] 0x2e 0x26 0x00 M6502,
     mn ''rol'' [ABSX] 0x3e 0x36 0x00 M6502,
     mn ''rol'' [] 0x2a 0x00 0x00 M6502,
     mn ''rolq'' [ABS] 0x2e 0x26 0x00 M45GS02Q,
     mn ''rolq'' [ABSX] 0x3e 0x36 0x00 M45GS02Q,
     mn ''rolq'' [] 0x2a 0x00 0x00 M45GS02Q,
     mn ''ror'' [ACCU] 0x6a 0x00 0x00 M6502,
     mn ''ror'' [ABS] 0x6e 0x66 0x00 M6502,
     mn ''ror'' [ABSX] 0x7e 0x76 0x00 M6502,
     mn ''ror'' [] 0x6a 0x00 0x00 M6502,
     mn ''rorq'' [ABS] 0x6e 0x66 0x00 M45GS02Q,
     mn ''rorq'' [ABSX] 0x7e 0x76 0x00 M45GS02Q,
     mn ''rorq'' [] 0x6a 0x00 0x00 M45GS02Q,
     mn ''row'' [ABS] 0xeb 0x00 0x00 CSGCE02,
     mn ''rra'' [ABS] 0x6f 0x67 0x00 ILL,
     mn ''rra'' [DPINDX] 0x63 0x00 0x00 ILL,
     mn ''rra'' [DPINDY] 0x73 0x00 0x00 ILL,
     mn ''rra'' [ABSX] 0x7f 0x77 0x00 ILL,
     mn ''rra'' [ABSY] 0x7b 0x00 0x00 ILL,
     mn ''rti'' [] 0x40 0x00 0x00 M6502,
     mn ''rtl'' [] 0x6b 0x00 0x00 WDC65816,
     mn ''rts'' [IMMED] 0x62 0x60 0x00 CSGCE02,
     mn ''rts'' [] 0x60 0x00 0x00 M6502,
     mn ''sac'' [IMMED] 0x32 0x00 0x00 DTV,
     mn ''sax'' [IMMED] 0xcb 0x00 0x00 ILL,
     mn ''sax'' [ABS] 0x8f 0x87 0x00 ILL,
     mn ''sax'' [DPINDX] 0x83 0x00 0x00 ILL]"

definition mnemonics4 :: "mnemonic list" where
  "mnemonics4 =
    [mn ''sax'' [ABSY] 0x00 0x97 0x00 ILL,
     mn ''sax'' [] 0x22 0x00 0x00 HU6280,
     mn ''say'' [ABSX] 0x9c 0x00 0x00 ILL,
     mn ''say'' [] 0x42 0x00 0x00 HU6280,
     mn ''sbc'' [IMMED] 0xe9 0x00 0x00 M6502,
     mn ''sbc'' [ABS] 0xed 0xe5 0xef M6502,
     mn ''sbc'' [SR] 0xe3 0x00 0x00 WDC65816,
     mn ''sbc'' [SRINDY] 0xf3 0x00 0x00 WDC65816,
     mn ''sbc'' [DPINDX] 0xe1 0x00 0x00 M6502,
     mn ''sbc'' [DPINDY] 0xf1 0x00 0x00 M6502,
     mn ''sbc'' [DPINDZ] 0xf2 0x00 0x00 CSGCE02,
     mn ''sbc'' [DPIND] 0xf2 0x00 0x00 M65C02,
     mn ''sbc'' [ABSX] 0xfd 0xf5 0xff M6502,
     mn ''sbc'' [ABSY] 0xf9 0x00 0x00 M6502,
     mn ''sbc'' [QDPINDZ] 0xf2 0x00 0x00 M45GS02,
     mn ''sbc'' [LDPINDY] 0xf7 0x00 0x00 WDC65816,
     mn ''sbc'' [LDPIND] 0xe7 0x00 0x00 WDC65816,
     mn ''sbc2'' [IMMED] 0xeb 0x00 0x00 ILL,
     mn ''sbcq'' [ABS] 0xed 0xe5 0x00 M45GS02Q,
     mn ''sbcq'' [DPIND] 0xf2 0x00 0x00 M45GS02Q,
     mn ''sbcq'' [QDPIND] 0xf2 0x00 0x00 M45GS02Q,
     mn ''sec'' [] 0x38 0x00 0x00 M6502,
     mn ''sed'' [] 0xf8 0x00 0x00 M6502,
     mn ''see'' [] 0x03 0x00 0x00 CSGCE02,
     mn ''sei'' [] 0x78 0x00 0x00 M6502,
     mn ''sep'' [IMMED8] 0xe2 0x00 0x00 WDC65816,
     mn ''set'' [] 0xf4 0x00 0x00 HU6280,
     mn ''shx'' [ABSY] 0x9e 0x00 0x00 ILL,
     mn ''shy'' [ABSX] 0x9c 0x00 0x00 ILL,
     mn ''sir'' [IMMED] 0x42 0x00 0x00 DTV,
     mn ''slo'' [ABS] 0x0f 0x07 0x00 ILL,
     mn ''slo'' [DPINDX] 0x03 0x00 0x00 ILL,
     mn ''slo'' [DPINDY] 0x13 0x00 0x00 ILL,
     mn ''slo'' [ABSX] 0x1f 0x17 0x00 ILL,
     mn ''slo'' [ABSY] 0x1b 0x00 0x00 ILL,
     mn ''smb'' [WBIT, DPAGE] 0x00 0x87 0x00 WDC02,
     mn ''smb0'' [DPAGE] 0x00 0x87 0x00 WDC02,
     mn ''smb1'' [DPAGE] 0x00 0x97 0x00 WDC02,
     mn ''smb2'' [DPAGE] 0x00 0xa7 0x00 WDC02,
     mn ''smb3'' [DPAGE] 0x00 0xb7 0x00 WDC02,
     mn ''smb4'' [DPAGE] 0x00 0xc7 0x00 WDC02,
     mn ''smb5'' [DPAGE] 0x00 0xd7 0x00 WDC02,
     mn ''smb6'' [DPAGE] 0x00 0xe7 0x00 WDC02,
     mn ''smb7'' [DPAGE] 0x00 0xf7 0x00 WDC02,
     mn ''sre'' [ABS] 0x4f 0x47 0x00 ILL,
     mn ''sre'' [DPINDX] 0x43 0x00 0x00 ILL,
     mn ''sre'' [DPINDY] 0x53 0x00 0x00 ILL,
     mn ''sre'' [ABSX] 0x5f 0x57 0x00 ILL,
     mn ''sre'' [ABSY] 0x5b 0x00 0x00 ILL,
     mn ''st0'' [IMMED] 0x03 0x00 0x00 HU6280,
     mn ''st1'' [IMMED] 0x13 0x00 0x00 HU6280,
     mn ''st2'' [IMMED] 0x23 0x00 0x00 HU6280,
     mn ''sta'' [ABS] 0x8d 0x85 0x8f M6502,
     mn ''sta'' [SR] 0x83 0x00 0x00 WDC65816,
     mn ''sta'' [SRINDY] 0x93 0x00 0x00 WDC65816,
     mn ''sta'' [DPINDX] 0x81 0x00 0x00 M6502,
     mn ''sta'' [DPINDY] 0x91 0x00 0x00 M6502,
     mn ''sta'' [DPINDZ] 0x92 0x00 0x00 CSGCE02,
     mn ''sta'' [DPIND] 0x92 0x00 0x00 M65C02,
     mn ''sta'' [ABSX] 0x9d 0x95 0x9f M6502,
     mn ''sta'' [ABSY] 0x99 0x00 0x00 M6502,
     mn ''sta'' [QDPINDZ] 0x92 0x00 0x00 M45GS02,
     mn ''sta'' [LDPINDY] 0x97 0x00 0x00 WDC65816,
     mn ''sta'' [LDPIND] 0x87 0x00 0x00 WDC65816,
     mn ''stp'' [] 0xdb 0x00 0x00 WDC02ALL,
     mn ''stq'' [ABS] 0x8d 0x85 0x00 M45GS02Q,
     mn ''stq'' [DPIND] 0x92 0x00 0x00 M45GS02Q,
     mn ''stq'' [QDPIND] 0x92 0x00 0x00 M45GS02Q,
     mn ''stx'' [ABS] 0x8e 0x86 0x00 M6502,
     mn ''stx'' [ABSY] 0x00 0x96 0x00 M6502,
     mn ''sty'' [ABS] 0x8c 0x84 0x00 M6502,
     mn ''sty'' [ABSX] 0x00 0x94 0x00 M6502,
     mn ''stz'' [ABS] 0x9c 0x64 0x00 M65C02,
     mn ''stz'' [ABSX] 0x9e 0x74 0x00 M65C02,
     mn ''swa'' [] 0xeb 0x00 0x00 WDC65816,
     mn ''sxy'' [] 0x02 0x00 0x00 HU6280,
     mn ''tab'' [] 0x5b 0x00 0x00 CSGCE02,
     mn ''tad'' [] 0x5b 0x00 0x00 WDC65816,
     mn ''tai'' [ABS, ABS, ABS] 0xf3 0x00 0x00 HU6280,
     mn ''tam'' [IMMED] 0x53 0x00 0x00 HU6280,
     mn ''tas'' [ABSY] 0x9b 0x00 0x00 ILL,
     mn ''tas'' [] 0x1b 0x00 0x00 WDC65816,
     mn ''tax'' [] 0xaa 0x00 0x00 M6502,
     mn ''tay'' [] 0xa8 0x00 0x00 M6502,
     mn ''taz'' [] 0x4b 0x00 0x00 CSGCE02,
     mn ''tba'' [] 0x7b 0x00 0x00 CSGCE02,
     mn ''tcd'' [] 0x5b 0x00 0x00 WDC65816,
     mn ''tcs'' [] 0x1b 0x00 0x00 WDC65816,
     mn ''tda'' [] 0x7b 0x00 0x00 WDC65816,
     mn ''tdc'' [] 0x7b 0x00 0x00 WDC65816,
     mn ''tdd'' [ABS, ABS, ABS] 0xc3 0x00 0x00 HU6280,
     mn ''tia'' [ABS, ABS, ABS] 0xe3 0x00 0x00 HU6280,
     mn ''tii'' [ABS, ABS, ABS] 0x73 0x00 0x00 HU6280,
     mn ''tin'' [ABS, ABS, ABS] 0xd3 0x00 0x00 HU6280,
     mn ''tma'' [IMMED] 0x43 0x00 0x00 HU6280,
     mn ''trb'' [ABS] 0x1c 0x14 0x00 M65C02,
     mn ''tsa'' [] 0x3b 0x00 0x00 WDC65816,
     mn ''tsb'' [ABS] 0x0c 0x04 0x00 M65C02,
     mn ''tsc'' [] 0x3b 0x00 0x00 WDC65816,
     mn ''tst'' [IMMED, ABS] 0x93 0x83 0x00 HU6280,
     mn ''tst'' [IMMED, ABSX] 0xb3 0xa3 0x00 HU6280,
     mn ''tsx'' [] 0xba 0x00 0x00 M6502,
     mn ''tsy'' [] 0x0b 0x00 0x00 CSGCE02,
     mn ''txa'' [] 0x8a 0x00 0x00 M6502,
     mn ''txs'' [] 0x9a 0x00 0x00 M6502,
     mn ''txy'' [] 0x9b 0x00 0x00 WDC65816,
     mn ''tya'' [] 0x98 0x00 0x00 M6502,
     mn ''tys'' [] 0x2b 0x00 0x00 CSGCE02,
     mn ''tyx'' [] 0xbb 0x00 0x00 WDC65816,
     mn ''tza'' [] 0x6b 0x00 0x00 CSGCE02,
     mn ''wai'' [] 0xcb 0x00 0x00 WDC02ALL,
     mn ''wdm'' [] 0x42 0x00 0x00 WDC65816,
     mn ''xaa'' [IMMED] 0x8b 0x00 0x00 ILL,
     mn ''xas'' [ABSY] 0x9e 0x00 0x00 ILL,
     mn ''xba'' [] 0xeb 0x00 0x00 WDC65816,
     mn ''xce'' [] 0xfb 0x00 0x00 WDC65816]"

definition mnemonics :: "mnemonic list" where
  "mnemonics = mnemonics1 @ mnemonics2 @ mnemonics3 @ mnemonics4"

end
