(* ===== verification/Memval.thy ===== *)
theory Memval
  imports Hugemem
begin

text \<open>
  The routines of \<open>src/supp.c\<close> that read and write values and bit fields in memory with a
  given endianness, and the bit operations on a \<open>taddr\<close>. The target has bytes of 8 bits, so
  \<open>OCTETS(n)\<close> is \<open>n\<close>. A memory block is the list of its bytes; an access beyond its end is
  undefined.
\<close>

section \<open>Reading and writing\<close>

fun read_loop :: "u64 \<Rightarrow> u8 list \<Rightarrow> u64" where
  "read_loop val [] = val"
| "read_loop val (b # bs) = read_loop (push_bit 8 val + ucast (ucast b :: u32)) bs"

definition readval :: "bool \<Rightarrow> u8 list \<Rightarrow> nat \<Rightarrow> stop + u64" where
  "readval be src sz =
     (if 8 < sz then Inl Ierror
      else if length src < sz then Inl Undefined
      else Inr (read_loop 0 (if be then take sz src else rev (take sz src))))"

text \<open>The value is written backwards from \<open>d\<close> or forwards.\<close>

fun set_down :: "nat \<Rightarrow> nat \<Rightarrow> u64 \<Rightarrow> u8 list \<Rightarrow> u8 list" where
  "set_down d 0 val m = m"
| "set_down d (Suc n) val m = set_down (d - 1) n (drop_bit 8 val) (m[d - 1 := ucast (ucast val :: u32)])"

fun set_up :: "nat \<Rightarrow> nat \<Rightarrow> u64 \<Rightarrow> u8 list \<Rightarrow> u8 list" where
  "set_up d 0 val m = m"
| "set_up d (Suc n) val m = set_up (d + 1) n (drop_bit 8 val) (m[d := ucast (ucast val :: u32)])"

text \<open>The second result is the position after the value.\<close>

definition setval :: "bool \<Rightarrow> u8 list \<Rightarrow> nat \<Rightarrow> u64 \<Rightarrow> stop + u8 list \<times> nat" where
  "setval be dest sz val =
     (if 8 < sz then Inl Ierror
      else if length dest < sz then Inl Undefined
      else Inr (if be then set_down sz sz val dest else set_up 0 sz val dest, sz))"

text \<open>With an arithmetic shift of the signed value.\<close>

fun set_down_s :: "nat \<Rightarrow> nat \<Rightarrow> u64 \<Rightarrow> u8 list \<Rightarrow> u8 list" where
  "set_down_s d 0 val m = m"
| "set_down_s d (Suc n) val m = set_down_s (d - 1) n (signed_drop_bit 8 val) (m[d - 1 := ucast (ucast val :: u32)])"

fun set_up_s :: "nat \<Rightarrow> nat \<Rightarrow> u64 \<Rightarrow> u8 list \<Rightarrow> u8 list" where
  "set_up_s d 0 val m = m"
| "set_up_s d (Suc n) val m = set_up_s (d + 1) n (signed_drop_bit 8 val) (m[d := ucast (ucast val :: u32)])"

definition memset :: "nat \<Rightarrow> u8 \<Rightarrow> nat \<Rightarrow> u8 list \<Rightarrow> u8 list" where
  "memset d b n m = take d m @ replicate n b @ drop (d + n) m"

definition setval_signext :: "bool \<Rightarrow> u8 list \<Rightarrow> nat \<Rightarrow> nat \<Rightarrow> u64 \<Rightarrow> stop + u8 list \<times> nat" where
  "setval_signext be dest extsz valsz val =
     (let sign = (if val <s 0 then 0xff else 0)
      in if 8 < valsz then Inl Ierror
         else if length dest < extsz + valsz then Inl Undefined
         else if be then Inr (set_down_s (extsz + valsz) valsz val (memset 0 sign extsz dest), extsz + valsz)
         else Inr (memset valsz sign extsz (set_up_s 0 valsz val dest), valsz + extsz))"

lemma set_down_length [simp]: "length (set_down d n val m) = length m"
  by (induction d n val m rule: set_down.induct) simp_all

lemma set_up_length [simp]: "length (set_up d n val m) = length m"
  by (induction d n val m rule: set_up.induct) simp_all

lemma byte_of_word: "ucast (ucast (v :: u64) :: u32) = (ucast v :: u8)"
  by (rule bit_word_eqI) (auto simp: bit_simps)

lemma byte_to_word: "ucast (ucast (b :: u8) :: u32) = (ucast b :: u64)"
  by (rule bit_word_eqI) (auto simp: bit_simps dest: bit_imp_le_length)

lemma read_loop_shift_in: "read_loop val bs = foldl shift_in val bs"
  by (induction val bs rule: read_loop.induct) (simp_all add: byte_to_word shift_in_plus)

lemma set_up_bytes:
  "d + n \<le> length m \<Longrightarrow> set_up d n val m = take d m @ le_bytes n val @ drop (d + n) m"
proof (induction d n val m rule: set_up.induct)
  case (2 d n val m)
  then show ?case
    by (simp add: byte_of_word take_Suc_conv_app_nth)
qed simp

lemma set_down_bytes:
  "n \<le> d \<Longrightarrow> d \<le> length m \<Longrightarrow> set_down d n val m = take (d - n) m @ rev (le_bytes n val) @ drop d m"
proof (induction d n val m rule: set_down.induct)
  case (2 d n val m)
  then obtain k where "d = Suc k" by (cases d) auto
  then show ?case using 2 by (simp add: byte_of_word upd_conv_take_nth_drop)
qed simp

text \<open>The arithmetic shift brings in copies of the sign, but no byte taken has one.\<close>

lemma signed_byte:
  "k + n \<le> 8 \<Longrightarrow> set_up_s d n (signed_drop_bit (8 * k) v) m = set_up d n (drop_bit (8 * k) v) m"
  "k + n \<le> 8 \<Longrightarrow> set_down_s d n (signed_drop_bit (8 * k) v) m = set_down d n (drop_bit (8 * k) v) m"
proof -
  have b: "(ucast (signed_drop_bit (8 * k) v) :: u8) = ucast (drop_bit (8 * k) v)" if "k < 8" for k
    using that by (intro bit_word_eqI) (auto simp: bit_simps dest: bit_imp_le_length)
  have s: "signed_drop_bit 8 (signed_drop_bit (8 * k) v) = signed_drop_bit (8 * Suc k) v" for k
    by (rule bit_word_eqI) (auto simp: bit_simps algebra_simps)
  have d: "drop_bit 8 (drop_bit (8 * k) v) = drop_bit (8 * Suc k) v" for k by simp
  show "k + n \<le> 8 \<Longrightarrow> set_up_s d n (signed_drop_bit (8 * k) v) m = set_up d n (drop_bit (8 * k) v) m"
  proof (induction n arbitrary: d k m)
    case (Suc n)
    then show ?case
      using Suc.IH [of "Suc k"] by (simp only: set_up_s.simps set_up.simps s d) (simp add: b byte_of_word)
  qed simp
  show "k + n \<le> 8 \<Longrightarrow> set_down_s d n (signed_drop_bit (8 * k) v) m = set_down d n (drop_bit (8 * k) v) m"
  proof (induction n arbitrary: d k m)
    case (Suc n)
    then show ?case
      using Suc.IH [of "Suc k"] by (simp only: set_down_s.simps set_down.simps s d) (simp add: b byte_of_word)
  qed simp
qed

definition byte_order :: "bool \<Rightarrow> u8 list \<Rightarrow> u8 list" where
  "byte_order be bs = (if be then rev bs else bs)"

lemma length_byte_order [simp]: "length (byte_order be bs) = length bs"
  by (simp add: byte_order_def)

lemma setval_bytes:
  "sz \<le> 8 \<Longrightarrow> sz \<le> length m \<Longrightarrow> setval be m sz v = Inr (byte_order be (le_bytes sz v) @ drop sz m, sz)"
  by (simp add: setval_def set_up_bytes set_down_bytes byte_order_def)

lemma setval_signext_bytes:
  assumes "valsz \<le> 8" and "extsz + valsz \<le> length m"
  shows "setval_signext be m extsz valsz v
    = Inr (byte_order be (le_bytes valsz v @ replicate extsz (if v <s 0 then 0xff else 0)) @ drop (extsz + valsz) m,
           extsz + valsz)"
  using assms signed_byte(1) [of 0 valsz 0 v m] signed_byte(2) [of 0 valsz "extsz + valsz" v]
  by (simp add: setval_signext_def Let_def memset_def set_up_bytes set_down_bytes byte_order_def add.commute)

lemma readval_bytes:
  assumes "sz \<le> 8" and "length bs = sz"
  shows "readval be (byte_order be bs @ m) sz = Inr (foldl shift_in 0 (rev bs))"
  using assms by (simp add: readval_def read_loop_shift_in byte_order_def)

lemma readval_le_bytes:
  "sz \<le> 8 \<Longrightarrow> readval be (byte_order be (le_bytes sz v) @ m) sz = Inr (take_bit (8 * sz) v)"
  by (simp add: readval_bytes foldl_le_bytes)

section \<open>Bit fields\<close>

definition MAKEMASK :: "nat \<Rightarrow> u64" where
  "MAKEMASK x = (if 64 \<le> x then NOT 0 else push_bit x 1 - 1)"

text \<open>The sum of the unsigned arguments wraps around.\<close>

definition field_end :: "nat \<Rightarrow> nat \<Rightarrow> nat" where
  "field_end offset sz = (offset + sz) mod 2 ^ 32"

definition readbits :: "bool \<Rightarrow> u8 list \<Rightarrow> nat \<Rightarrow> nat \<Rightarrow> nat \<Rightarrow> stop + u64" where
  "readbits be p bfsize offset sz =
     (if bfsize mod 8 = 0 \<and> field_end offset sz \<le> bfsize then
        bind_stop (readval be p (bfsize div 8)) (\<lambda>val.
          case c_shr val (if be then int bfsize - int (field_end offset sz) else int offset) of
            None \<Rightarrow> Inl Undefined
          | Some v \<Rightarrow> Inr (v AND MAKEMASK sz))
      else Inl Ierror)"

definition setbits :: "bool \<Rightarrow> u8 list \<Rightarrow> nat \<Rightarrow> nat \<Rightarrow> nat \<Rightarrow> u64 \<Rightarrow> stop + u8 list" where
  "setbits be p bfsize offset sz d =
     (if bfsize mod 8 = 0 \<and> field_end offset sz \<le> bfsize then
        bind_stop (readval be p (bfsize div 8)) (\<lambda>val.
          let s = (if be then int bfsize - int (field_end offset sz) else int offset)
          in case (c_shl (MAKEMASK sz) s, c_shl (d AND MAKEMASK sz) s) of
               (Some m, Some b) \<Rightarrow>
                 bind_stop (setval be p (bfsize div 8) ((val AND NOT m) OR b)) (\<lambda>(p', _). Inr p')
             | _ \<Rightarrow> Inl Undefined)
      else Inl Ierror)"

lemma MAKEMASK_mask: "MAKEMASK n = mask n"
  by (rule bit_word_eqI) (auto simp: MAKEMASK_def bit_simps mask_eq_exp_minus_1 [symmetric])

definition field_shift :: "bool \<Rightarrow> nat \<Rightarrow> nat \<Rightarrow> nat \<Rightarrow> nat" where
  "field_shift be bfsize offset sz = (if be then bfsize - (offset + sz) else offset)"

definition field_ok :: "u8 list \<Rightarrow> nat \<Rightarrow> nat \<Rightarrow> nat \<Rightarrow> bool" where
  "field_ok p bfsize offset sz \<longleftrightarrow> bfsize mod 8 = 0 \<and> bfsize \<le> 64 \<and> bfsize div 8 \<le> length p
     \<and> 0 < sz \<and> offset + sz \<le> bfsize"

lemma field_cond:
  assumes "field_ok p bfsize offset sz"
  shows "field_end offset sz = offset + sz"
    and "(if be then int bfsize - int (field_end offset sz) else int offset) = int (field_shift be bfsize offset sz)"
    and "field_shift be bfsize offset sz < 64"
  using assms by (auto simp: field_ok_def field_end_def field_shift_def of_nat_diff)

lemma readval_any: "sz \<le> 8 \<Longrightarrow> sz \<le> length p \<Longrightarrow> readval be p sz = Inr (read_loop 0 (byte_order (\<not> be) (take sz p)))"
  by (simp add: readval_def byte_order_def)

lemma readbits_value:
  assumes "field_ok p bfsize offset sz" and "readval be p (bfsize div 8) = Inr v"
  shows "readbits be p bfsize offset sz = Inr (take_bit sz (drop_bit (field_shift be bfsize offset sz) v))"
  using assms field_cond [OF assms(1)]
  by (simp add: readbits_def field_ok_def MAKEMASK_mask take_bit_eq_mask)

lemma setbits_value:
  fixes d :: u64
  assumes ok: "field_ok p bfsize offset sz" and v: "readval be p (bfsize div 8) = Inr v"
  defines "s \<equiv> field_shift be bfsize offset sz"
  shows "setbits be p bfsize offset sz d
       = Inr (byte_order be (le_bytes (bfsize div 8) ((v AND NOT (push_bit s (mask sz))) OR push_bit s (d AND mask sz)))
              @ drop (bfsize div 8) p)"
proof -
  have sz: "bfsize div 8 \<le> 8" "bfsize div 8 \<le> length p" using ok by (auto simp: field_ok_def)
  have sh: "c_shl x (int s) = Some (push_bit s x)" for x :: u64
    using field_cond(3) [OF ok] by (simp add: s_def)
  show ?thesis
    using ok field_cond(1,2) [OF ok] v sh
    by (simp add: setbits_def field_ok_def setval_bytes [OF sz] MAKEMASK_mask s_def Let_def)
qed

text \<open>The fields of \<open>offset\<close> and \<open>offset'\<close> have no bit in common.\<close>

definition fields_apart :: "nat \<Rightarrow> nat \<Rightarrow> nat \<Rightarrow> nat \<Rightarrow> bool" where
  "fields_apart offset sz offset' sz' \<longleftrightarrow> offset + sz \<le> offset' \<or> offset' + sz' \<le> offset"

lemma setbits_readbits:
  assumes ok: "field_ok p bfsize offset sz"
  obtains p' where "setbits be p bfsize offset sz d = Inr p'" "length p' = length p"
    "drop (bfsize div 8) p' = drop (bfsize div 8) p"
    "readbits be p' bfsize offset sz = Inr (take_bit sz d)"
    "\<And>offset' sz'. field_ok p bfsize offset' sz' \<Longrightarrow> fields_apart offset sz offset' sz' \<Longrightarrow>
       readbits be p' bfsize offset' sz' = readbits be p bfsize offset' sz'"
proof -
  let ?n = "bfsize div 8" and ?s = "field_shift be bfsize offset sz"
  have n: "?n \<le> 8" "?n \<le> length p" "8 * ?n = bfsize" using ok by (auto simp: field_ok_def)
  obtain v where v: "readval be p ?n = Inr v" using readval_any [OF n(1,2)] by blast
  define v' where "v' = (v AND NOT (push_bit ?s (mask sz))) OR push_bit ?s (d AND mask sz)"
  let ?p = "byte_order be (le_bytes ?n v') @ drop ?n p"
  have set: "setbits be p bfsize offset sz d = Inr ?p" unfolding v'_def by (rule setbits_value [OF ok v])
  have len: "length ?p = length p" using n by simp
  have v2: "readval be ?p ?n = Inr (take_bit bfsize v')" using readval_le_bytes [OF n(1)] n(3) by simp
  have ok': "field_ok ?p bfsize o' s' = field_ok p bfsize o' s'" for o' s' by (simp add: field_ok_def n)
  have "take_bit sz (drop_bit ?s (take_bit bfsize v')) = take_bit sz d"
    using ok by (intro bit_word_eqI) (auto simp: v'_def bit_simps field_shift_def field_ok_def)
  then have r1: "readbits be ?p bfsize offset sz = Inr (take_bit sz d)"
    using readbits_value [of ?p bfsize offset sz be, OF _ v2] ok ok' by simp
  have r2: "readbits be ?p bfsize o' s' = readbits be p bfsize o' s'"
    if o: "field_ok p bfsize o' s'" "fields_apart offset sz o' s'" for o' s'
  proof -
    have "take_bit s' (drop_bit (field_shift be bfsize o' s') (take_bit bfsize v'))
        = take_bit s' (drop_bit (field_shift be bfsize o' s') v)"
      using ok o by (intro bit_word_eqI) (auto simp: v'_def bit_simps field_shift_def field_ok_def fields_apart_def)
    then show ?thesis
      using readbits_value [of ?p bfsize o' s' be, OF _ v2] readbits_value [OF o(1) v] ok' o(1) by simp
  qed
  show ?thesis by (rule that [OF set len _ r1 r2]) (use n in simp)
qed

section \<open>Bits of a \<open>taddr\<close>\<close>

text \<open>The shift that gives the sign bit is done in a signed 64-bit type.\<close>

definition bf_sign_extend :: "u32 \<Rightarrow> int \<Rightarrow> stop + u32" where
  "bf_sign_extend val numbits =
     (let himask = NOT (ucast (MAKEMASK (if numbits < 0 then 64 else nat numbits)))
      in if val AND himask \<noteq> 0 then Inr val
         else if numbits < 1 \<or> 63 < numbits then Inl Undefined
         else Inr (if scast val AND (push_bit (nat (numbits - 1)) 1 :: u64) \<noteq> 0 then val OR himask else val))"

fun countbits_loop :: "nat \<Rightarrow> u32 \<Rightarrow> int \<Rightarrow> int" where
  "countbits_loop 0 val cnt = cnt"
| "countbits_loop (Suc len) val cnt =
     countbits_loop len (signed_drop_bit 1 val) (if val AND 1 \<noteq> 0 then cnt + 1 else cnt)"

definition countbits :: "u32 \<Rightarrow> int" where
  "countbits val = countbits_loop 32 val 0"

fun tffs_loop :: "nat \<Rightarrow> nat \<Rightarrow> u32 \<Rightarrow> nat" where
  "tffs_loop 0 i val = i"
| "tffs_loop (Suc k) i val = (if val AND 1 \<noteq> 0 then i else tffs_loop k (i + 1) (signed_drop_bit 1 val))"

definition tffs :: "u32 \<Rightarrow> nat" where
  "tffs val = (if val = 0 then 0 else tffs_loop 32 0 val)"

definition copy_cpu_taddr :: "bool \<Rightarrow> u8 list \<Rightarrow> u32 \<Rightarrow> nat \<Rightarrow> stop + u8 list" where
  "copy_cpu_taddr be dest val tbytes =
     (if 4 < tbytes then Inl Ierror
      else if length dest < tbytes then Inl Undefined
      else Inr (if be then set_down_s tbytes tbytes (scast val) dest else set_up_s 0 tbytes (scast val) dest))"

fun pad_length :: "u32 \<Rightarrow> nat \<Rightarrow> nat" where
  "pad_length uval 0 = 0"
| "pad_length uval (Suc n) = (if uval = 0 then 0 else pad_length (drop_bit 8 uval) n + 1)"

text \<open>A \<open>taddr\<close> has at most 4 bytes, so the counting loop ends after 4 rounds.\<close>

definition make_padding :: "bool \<Rightarrow> u32 \<Rightarrow> u8 list \<Rightarrow> int \<Rightarrow> stop + u8 list \<times> int" where
  "make_padding be val pad maxbits =
     (let len = int (pad_length val 4);
          len = (if maxbits < len * 8 then maxbits sdiv 8 else len)
      in if len < 0 then Inl Ierror
         else bind_stop (copy_cpu_taddr be pad val (nat len)) (\<lambda>pad. Inr (pad, len)))"

lemma and_1_bit: "val AND 1 \<noteq> 0 \<longleftrightarrow> bit val 0" for val :: "'a::len word"
  using and_exp_eq_0_iff_not_bit [of val 0] by simp

lemma countbits_loop_bits:
  "k + len \<le> 32 \<Longrightarrow> countbits_loop len (signed_drop_bit k val) cnt
     = cnt + int (length (filter (bit val) [k..<k + len]))"
proof (induction len arbitrary: k cnt)
  case (Suc len)
  have "signed_drop_bit 1 (signed_drop_bit k val) = signed_drop_bit (Suc k) val"
    by (rule bit_word_eqI) (auto simp: bit_simps)
  moreover have "bit (signed_drop_bit k val) 0 = bit val k" using Suc.prems by (simp add: bit_simps)
  moreover have "[k..<k + Suc len] = k # [Suc k..<Suc k + len]" by (simp add: upt_conv_Cons)
  ultimately show ?case
    using Suc.IH [of "Suc k"] Suc.prems by (simp add: and_1_bit)
qed simp

lemma countbits_bits: "countbits val = int (length (filter (bit val) [0..<32]))"
  using countbits_loop_bits [of 0 32 val 0] by (simp add: countbits_def)

lemma tffs_loop_first:
  "k + i \<le> 32 \<Longrightarrow> (\<And>j. j < i \<Longrightarrow> \<not> bit val j) \<Longrightarrow> k + i = 32 \<Longrightarrow>
     (let r = tffs_loop k i (signed_drop_bit i val) in r \<le> 32 \<and> (r < 32 \<longrightarrow> bit val r) \<and> (\<forall>j < r. \<not> bit val j))"
proof (induction k arbitrary: i)
  case (Suc k)
  have s: "signed_drop_bit 1 (signed_drop_bit i val) = signed_drop_bit (Suc i) val"
    by (rule bit_word_eqI) (auto simp: bit_simps)
  have b: "bit (signed_drop_bit i val) 0 = bit val i" using Suc.prems by (simp add: bit_simps)
  show ?case
  proof (cases "bit val i")
    case True
    then show ?thesis using Suc.prems by (simp add: and_1_bit b)
  next
    case False
    then have "\<And>j. j < Suc i \<Longrightarrow> \<not> bit val j" using Suc.prems(2) by (auto simp: less_Suc_eq)
    then show ?thesis using Suc.IH [of "Suc i"] Suc.prems False by (simp add: and_1_bit b s)
  qed
qed simp

lemma tffs_first: "val \<noteq> 0 \<Longrightarrow> tffs val < 32 \<and> bit val (tffs val) \<and> (\<forall>j < tffs val. \<not> bit val j)"
proof -
  assume nz: "val \<noteq> 0"
  then obtain n where n: "bit val n" by (auto simp: bit_eq_iff)
  then have "n < 32" using bit_imp_le_length [OF n] by simp
  have r: "tffs val \<le> 32 \<and> (tffs val < 32 \<longrightarrow> bit val (tffs val)) \<and> (\<forall>j < tffs val. \<not> bit val j)"
    using tffs_loop_first [of 32 0 val] nz by (simp add: tffs_def Let_def)
  moreover have "tffs val \<noteq> 32" using r n \<open>n < 32\<close> by auto
  ultimately show ?thesis by auto
qed

lemma bf_sign_extend_signed:
  assumes n: "1 \<le> n" "n \<le> 32" and fits: "uint val < 2 ^ n"
  shows "bf_sign_extend val (int n) = Inr (signed_take_bit (n - 1) val)"
proof -
  have m: "(ucast (MAKEMASK n) :: u32) = mask n"
    by (rule bit_word_eqI) (auto simp: MAKEMASK_mask bit_simps)
  have hi: "\<not> bit val k" if "n \<le> k" for k
  proof
    assume "bit val k"
    then have "2 ^ k \<le> uint val" by (metis bit_uint_iff bit_imp_le_length bit_iff_odd div_pos_pos_trivial
      even_zero leI uint_ge_0)
    moreover have "(2::int) ^ n \<le> 2 ^ k" using that by simp
    ultimately show False using fits by linarith
  qed
  have z: "val AND NOT (mask n) = 0" using hi by (intro bit_word_eqI) (auto simp: bit_simps not_less)
  have "scast val AND (push_bit (n - 1) 1 :: u64) \<noteq> 0 \<longleftrightarrow> bit (scast val :: u64) (n - 1)"
    by (metis and_exp_eq_0_iff_not_bit push_bit_of_1)
  also have "\<dots> \<longleftrightarrow> bit val (n - 1)" using n by (cases "n = 32") (auto simp: bit_simps min_def)
  finally have sg: "scast val AND (push_bit (n - 1) 1 :: u64) \<noteq> 0 \<longleftrightarrow> bit val (n - 1)" .
  have "nat (int n - 1) = n - 1" using n by simp
  then have eq: "bf_sign_extend val (int n) = Inr (if bit val (n - 1) then val OR NOT (mask n) else val)"
    using n z sg by (simp add: bf_sign_extend_def m)
  have "(if bit val (n - 1) then val OR NOT (mask n) else val) = signed_take_bit (n - 1) val"
  proof (rule bit_word_eqI)
    fix k assume "k < LENGTH(32)"
    then show "bit (if bit val (n - 1) then val OR NOT (mask n) else val) k = bit (signed_take_bit (n - 1) val) k"
      using hi [of k] n by (cases "k < n - 1"; cases "k = n - 1") (auto simp: bit_simps min_def not_less)
  qed
  then show ?thesis using eq by simp
qed

section \<open>Properties\<close>

lemma huge_from_mem_append:
  "length bs = sz \<Longrightarrow> huge_from_mem be (bs @ m) sz = huge_from_mem be bs sz"
  by (simp add: huge_from_mem_def)

lemma signext_bytes:
  fixes v :: u64
  assumes "extsz \<le> 8"
  shows "le_bytes (8 + extsz) (scast v :: 128 word) = le_bytes 8 v @ replicate extsz (if v <s 0 then 0xff else 0)"
proof (rule nth_equalityI)
  fix i assume "i < length (le_bytes (8 + extsz) (scast v :: 128 word))"
  then have i: "i < 8 + extsz" by simp
  have neg: "v <s 0 \<longleftrightarrow> bit v 63" by (simp add: word_sless_alt flip: bit_last_iff)
  have ff: "bit (0xff :: int) k \<longleftrightarrow> k < 8" for k
  proof -
    have "(0xff :: int) = mask 8" by (simp add: mask_eq_exp_minus_1)
    then show ?thesis by (simp only: bit_mask_iff) simp
  qed
  show "le_bytes (8 + extsz) (scast v :: 128 word) ! i
      = (le_bytes 8 v @ replicate extsz (if v <s 0 then 0xff else 0)) ! i"
  proof (cases "i < 8")
    case True
    have "(ucast (drop_bit (8 * i) (scast v :: 128 word)) :: u8) = ucast (drop_bit (8 * i) v)"
    proof (rule bit_word_eqI)
      fix n assume n: "n < LENGTH(8)"
      then have "8 * i + n = 63 \<or> 8 * i + n < 63" using True by auto
      then show "bit (ucast (drop_bit (8 * i) (scast v :: 128 word)) :: u8) n = bit (ucast (drop_bit (8 * i) v) :: u8) n"
        using n by (elim disjE) (simp_all add: bit_simps min_def)
    qed
    then show ?thesis using True by (simp add: nth_append le_bytes_nth)
  next
    case False
    then show ?thesis using i assms
      by (simp add: nth_append le_bytes_nth neg) (intro conjI impI bit_word_eqI,
          auto simp: bit_simps min_def intro: iffD2 [OF ff])
  qed
qed simp

lemma signext_huge:
  assumes "extsz \<le> 8" and "extsz + 8 \<le> length m"
  obtains m' h where "setval_signext be m extsz 8 v = Inr (m', extsz + 8)"
    "huge_from_mem be m' (extsz + 8) = Inr h" "hval h = scast v" "drop (extsz + 8) m' = drop (extsz + 8) m"
proof -
  define h0 :: thuge where "h0 = \<lparr>hi = (if v <s 0 then -1 else 0), lo = v\<rparr>"
  have h0: "hval h0 = scast v"
  proof -
    have neg: "v <s 0 \<longleftrightarrow> bit v 63" by (simp add: word_sless_alt flip: bit_last_iff)
    show ?thesis
    proof (rule bit_word_eqI)
      fix n assume "n < LENGTH(128)"
      then show "bit (hval h0) n = bit (scast v :: 128 word) n"
        unfolding h0_def neg by (cases "n = 63") (auto simp: bit_hval bit_simps min_def not_less)
    qed
  qed
  define bs where "bs = byte_order be (le_bytes (8 + extsz) (hval h0))"
  have st: "setval_signext be m extsz 8 v = Inr (bs @ drop (extsz + 8) m, extsz + 8)"
    unfolding bs_def h0 signext_bytes [OF assms(1)] using assms by (simp add: setval_signext_bytes)
  have "huge_to_mem be (8 + extsz) h0 = Inr bs"
    using assms by (simp add: huge_to_mem_bytes bs_def byte_order_def)
  from from_to_mem [OF _ _ this] assms obtain h where
    h: "huge_from_mem be bs (8 + extsz) = Inr h" "hval h = signed_take_bit (8 * (8 + extsz) - 1) (scast v)"
    using h0 by auto
  have "hval h = scast v"
    unfolding h(2) by (rule bit_word_eqI) (auto simp: bit_simps min_def)
  moreover have "length bs = extsz + 8" by (simp add: bs_def)
  ultimately show ?thesis
    using that [OF st] h(1) huge_from_mem_append [of bs "extsz + 8" be "drop (extsz + 8) m"] by (simp add: add.commute)
qed

text \<open>
  C31. A value written to memory is read back, reduced to the bytes written, in either byte
  order; the memory behind it is untouched. A 64-bit value written with sign extension reads
  back as the same number, as a 128-bit integer.
\<close>

theorem memory_roundtrip:
  assumes "sz \<le> 8" and "sz \<le> length m" and "extsz \<le> 8" and "extsz + 8 \<le> length m"
  shows "(\<exists>m'. setval be m sz v = Inr (m', sz) \<and> readval be m' sz = Inr (take_bit (8 * sz) v) \<and> drop sz m' = drop sz m)
    \<and> (\<exists>m' h. setval_signext be m extsz 8 v = Inr (m', extsz + 8) \<and> huge_from_mem be m' (extsz + 8) = Inr h
          \<and> hval h = scast v \<and> drop (extsz + 8) m' = drop (extsz + 8) m)"
proof
  show "\<exists>m'. setval be m sz v = Inr (m', sz) \<and> readval be m' sz = Inr (take_bit (8 * sz) v) \<and> drop sz m' = drop sz m"
    using assms(1,2) by (simp add: setval_bytes readval_le_bytes)
  show "\<exists>m' h. setval_signext be m extsz 8 v = Inr (m', extsz + 8) \<and> huge_from_mem be m' (extsz + 8) = Inr h
      \<and> hval h = scast v \<and> drop (extsz + 8) m' = drop (extsz + 8) m"
    using signext_huge [OF assms(3,4)] by metis
qed

lemma memory_roundtrip_witness:
  "\<exists>m'. setval True (replicate 9 7) 2 0x12345 = Inr (m', 2) \<and> readval True m' 2 = Inr 0x2345 \<and> drop 2 m' = replicate 7 7"
  using memory_roundtrip [where sz = 2 and m = "replicate 9 7" and extsz = 1 and be = True and v = "0x12345"] by (simp add: take_bit_eq_mod)

text \<open>
  C32. After \<open>setbits\<close> a bit field reads back the low bits of the value, every field of the same
  word that has no bit in common with it is unchanged, and so is the memory behind the word;
  this holds in either byte order, where the offset counts from the other end.
\<close>

theorem bitfield_roundtrip:
  assumes "field_ok p bfsize offset sz"
  shows "\<exists>p'. setbits be p bfsize offset sz d = Inr p' \<and> length p' = length p
    \<and> drop (bfsize div 8) p' = drop (bfsize div 8) p
    \<and> readbits be p' bfsize offset sz = Inr (take_bit sz d)
    \<and> (\<forall>offset' sz'. field_ok p bfsize offset' sz' \<longrightarrow> fields_apart offset sz offset' sz' \<longrightarrow>
         readbits be p' bfsize offset' sz' = readbits be p bfsize offset' sz')"
  using setbits_readbits [OF assms] by metis

lemma bitfield_roundtrip_witness:
  "\<exists>p'. setbits True [0xff, 0xff] 16 4 8 0x155 = Inr p' \<and> readbits True p' 16 4 8 = Inr 0x55
     \<and> readbits True p' 16 0 4 = readbits True [0xff, 0xff] 16 0 4"
  using bitfield_roundtrip [where p = "[0xff, 0xff]" and bfsize = 16 and offset = 4 and sz = 8 and be = True and d = "0x155"]
  by (auto simp: field_ok_def fields_apart_def take_bit_eq_mod)

text \<open>
  The bit operations on a \<open>taddr\<close>: \<open>bf_sign_extend\<close> gives the signed value of a field that
  fits into 1 to 32 bits, \<open>countbits\<close> is the number of bits set, and \<open>tffs\<close> of a value other
  than 0 is the position, from 0, of the lowest one.
\<close>

theorem taddr_bit_operations:
  assumes "1 \<le> n" and "n \<le> 32" and "uint val < 2 ^ n"
  shows "bf_sign_extend val (int n) = Inr (signed_take_bit (n - 1) val)
    \<and> countbits v = int (length (filter (bit v) [0..<32]))
    \<and> (v \<noteq> 0 \<longrightarrow> tffs v < 32 \<and> bit v (tffs v) \<and> (\<forall>j < tffs v. \<not> bit v j))"
  using bf_sign_extend_signed [OF assms] countbits_bits tffs_first by blast

lemma taddr_bit_operations_witness:
  "bf_sign_extend 0x8001 16 = Inr (signed_take_bit 15 0x8001) \<and> tffs 0x50 < 32 \<and> bit (0x50 :: u32) (tffs 0x50)"
  using taddr_bit_operations [where n = 16 and val = "0x8001" and v = "0x50"] by simp

end
