(* ===== verification/Reloc.thy ===== *)
theory Reloc
  imports Expr Memval
begin

text \<open>
  \<open>src/reloc.c\<close>: the relocations of a data block, newest first, the references they make, the
  checks on them, and patching a value into the bytes of an atom. A relocation is the pair of
  its type and its \<open>nreloc\<close>; the target has no relocation types of its own
  (\<open>LAST_CPU_RELOC\<close> is not defined, so \<open>cpu_reloc_size\<close> is 0).
\<close>

section \<open>Types\<close>

definition REL_NONE :: int where "REL_NONE = 0"
definition REL_ABS :: int where "REL_ABS = 1"
definition REL_PC :: int where "REL_PC = 2"
definition REL_UABS :: int where "REL_UABS = 11"
definition REL_SECOFF :: int where "REL_SECOFF = 16"
definition REL_MEMID :: int where "REL_MEMID = 17"
definition REL_MOD_S :: int where "REL_MOD_S = 32"
definition REL_MOD_U :: int where "REL_MOD_U = 64"
definition FIRST_CPU_RELOC :: int where "FIRST_CPU_RELOC = 128"

lemmas rel_defs = REL_NONE_def REL_ABS_def REL_PC_def REL_UABS_def REL_SECOFF_def REL_MEMID_def
  REL_MOD_S_def REL_MOD_U_def FIRST_CPU_RELOC_def

definition STD_REL_TYPE :: "int \<Rightarrow> int" where
  "STD_REL_TYPE t = t AND 0x1f"

definition DEFMASK :: u32 where "DEFMASK = NOT 0"

record nreloc =
  byteoffset :: nat
  bitoffset :: nat
  rel_size :: nat
  rel_mask :: u32
  addend :: taddr
  rel_sym :: symid

type_synonym rlist = "(int \<times> nreloc) list"

definition new_nreloc :: "symid \<Rightarrow> nreloc" where
  "new_nreloc y = \<lparr>byteoffset = 0, bitoffset = 0, rel_size = 0, rel_mask = DEFMASK, addend = 0, rel_sym = y\<rparr>"

section \<open>Adding relocations\<close>

text \<open>The second result is whether a relocation was added.\<close>

definition add_extnreloc ::
  "rlist \<Rightarrow> symid \<Rightarrow> taddr \<Rightarrow> int \<Rightarrow> nat \<Rightarrow> nat \<Rightarrow> nat \<Rightarrow> (rlist \<times> bool) action" where
  "add_extnreloc rl y add type bitoffs sz byteoffs =
     bind_st get (\<lambda>s.
       if sym_has (sym s y) ABSLABEL then return (rl, False)
       else bind_st (modify (upd_sym y (set_flag REFERENCED))) (\<lambda>_.
              let r = (new_nreloc y)\<lparr>byteoffset := byteoffs, bitoffset := bitoffs, rel_size := sz, addend := add\<rparr>
              in return ((type, r) # rl, True)))"

definition set_mask :: "u32 \<Rightarrow> rlist \<Rightarrow> rlist" where
  "set_mask m rl = (case rl of [] \<Rightarrow> [] | (t, r) # rl \<Rightarrow> (t, r\<lparr>rel_mask := m\<rparr>) # rl)"

definition add_extnreloc_masked ::
  "rlist \<Rightarrow> symid \<Rightarrow> taddr \<Rightarrow> int \<Rightarrow> nat \<Rightarrow> nat \<Rightarrow> nat \<Rightarrow> u32 \<Rightarrow> (rlist \<times> bool) action" where
  "add_extnreloc_masked rl y add type bitoffs sz byteoffs m =
     bind_st (add_extnreloc rl y add type bitoffs sz byteoffs) (\<lambda>(rl, added).
       return (if added then set_mask m rl else rl, added))"

section \<open>Queries and checks\<close>

definition is_pc_reloc :: "symid \<Rightarrow> secid option \<Rightarrow> bool action" where
  "is_pc_reloc y c =
     bind_st get (\<lambda>s.
       if EXTREF (sym s y) then return True
       else if LOCREF (sym s y) then
         (case c of
            None \<Rightarrow> fail Undefined
          | Some k \<Rightarrow> return (if sec_has (sec s k) ABSOLUTE then False else sym_sec (sym s y) \<noteq> c))
       else fail Ierror)"

definition std_reloc :: "int \<Rightarrow> int" where
  "std_reloc t = (if t < FIRST_CPU_RELOC \<and> 0 \<le> STD_REL_TYPE t \<and> STD_REL_TYPE t \<le> REL_MEMID then STD_REL_TYPE t else - 1)"

definition is_std_reloc :: "int \<Rightarrow> bool" where
  "is_std_reloc t \<longleftrightarrow> 0 \<le> std_reloc t"

text \<open>\<open>cpu_reloc_size(r)==0\<close> holds for every type.\<close>

definition is_nreloc :: "int \<Rightarrow> bool" where
  "is_nreloc t \<longleftrightarrow> 0 \<le> std_reloc t \<or> (0::int) = 0"

fun do_pic_check :: "rlist \<Rightarrow> asm \<Rightarrow> asm" where
  "do_pic_check [] s = s"
| "do_pic_check ((t, r) # rl) s =
     do_pic_check rl
       (if t = REL_ABS \<or> t = REL_UABS then
          (if sym_type (sym s (rel_sym r)) = LABSYM
              \<or> (sym_type (sym s (rel_sym r)) = IMPORT \<and> sym_has (sym s (rel_sym r)) EXPORT)
           then general_error 34 s else s)
        else s)"

definition nreloc_real_addend :: "asm \<Rightarrow> nreloc \<Rightarrow> taddr option" where
  "nreloc_real_addend s r =
     (let y = sym s (rel_sym r)
      in if sym_type y = LABSYM then
           (case sym_sec y of None \<Rightarrow> None | Some k \<Rightarrow> Some (addend r - (sym_pc y - sec_org (sec s k))))
         else Some (addend r))"

text \<open>The numbers of \<open>output_error\<close> messages are recorded with an offset of 3000.\<close>

definition output_err :: "nat \<Rightarrow> asm \<Rightarrow> asm" where
  "output_err n s = general_error (3000 + n) s"

definition unsupp_reloc_error :: "int \<Rightarrow> asm \<Rightarrow> asm" where
  "unsupp_reloc_error t s = output_err (if t < FIRST_CPU_RELOC then 4 else 5) s"

definition checkdefined :: "int \<times> nreloc \<Rightarrow> unit action" where
  "checkdefined rl =
     (if is_std_reloc (fst rl) then
        bind_st get (\<lambda>s. if EXTREF (sym s (rel_sym (snd rl))) then modify (output_err 8) else return ())
      else fail Ierror)"

section \<open>Patching\<close>

definition reloc_field_overflow :: "int \<Rightarrow> nat \<Rightarrow> taddr \<Rightarrow> bool" where
  "reloc_field_overflow rtype numbits bitval =
     (let val = scast bitval :: u64;
          smask = NOT (MAKEMASK (nat ((int numbits - 1) mod 2 ^ 64)))
      in if rtype < FIRST_CPU_RELOC \<and> rtype AND REL_MOD_S \<noteq> 0 then
           (if bitval <s 0 then val AND smask \<noteq> smask else val AND smask \<noteq> 0)
         else if rtype < FIRST_CPU_RELOC \<and> rtype AND REL_MOD_U \<noteq> 0 then
           val AND NOT (MAKEMASK numbits) \<noteq> 0
         else if bitval <s 0 then val AND smask \<noteq> smask
         else val AND NOT (MAKEMASK numbits) \<noteq> 0)"

text \<open>The bytes of the atom at the relocation, with the ones before it; \<open>None\<close> for other atoms.\<close>

definition patch_bytes :: "bool \<Rightarrow> u8 list \<Rightarrow> nat \<Rightarrow> nreloc \<Rightarrow> taddr \<Rightarrow> stop + u8 list" where
  "patch_bytes be data off r val =
     (if length data < off then Inl Undefined
      else bind_stop
        (setbits be (drop off data) ((bitoffset r + rel_size r + 7) div 8 * 8) (bitoffset r) (rel_size r) (scast val))
        (\<lambda>p. Inr (take off data @ p)))"

section \<open>Properties\<close>

lemma not_mask_push: "NOT (mask n) = push_bit n (- 1 :: u64)"
  by (rule bit_word_eqI) (auto simp: bit_simps)

lemma uint_scast64: "uint (scast (v :: u32) :: u64) = (if v <s 0 then 2 ^ 64 + sint v else sint v)"
proof -
  have r: "- (2 ^ 31) \<le> sint v" "sint v < 2 ^ 31"
    using sint_ge [of v] sint_lt [of v] by simp_all
  have "uint (scast v :: u64) = sint v mod 2 ^ 64"
    by (simp only: scast_eq uint_word_of_int) simp
  also have "\<dots> = (if sint v < 0 then 2 ^ 64 + sint v else sint v)"
  proof (cases "sint v < 0")
    case True
    have "sint v mod 2 ^ 64 = (sint v + 2 ^ 64) mod 2 ^ 64" by simp
    also have "\<dots> = sint v + 2 ^ 64" using True r by (intro mod_pos_pos_trivial) simp_all
    finally show ?thesis using True by simp
  qed (use r in simp)
  finally show ?thesis by (simp add: word_sless_alt)
qed

lemma overflow_high: "val AND NOT (mask n) \<noteq> 0 \<longleftrightarrow> \<not> uint val < 2 ^ n" for val :: u64
  unfolding not_mask_push using and_high_mask_eq_0 by blast

lemma overflow_low: "val AND NOT (mask n) \<noteq> NOT (mask n) \<longleftrightarrow> \<not> 2 ^ 64 - 2 ^ n \<le> uint val" for val :: u64
proof -
  have "a XOR b = 0 \<longleftrightarrow> a = b" for a b :: u64 by (auto simp: bit_eq_iff bit_xor_iff)
  then show ?thesis unfolding not_mask_push using high_bits_set [of val n] by blast
qed

lemma reloc_overflow_range:
  assumes n: "1 \<le> n" "n \<le> 64"
  shows "reloc_field_overflow rtype n v \<longleftrightarrow>
    \<not> (if rtype < FIRST_CPU_RELOC \<and> rtype AND REL_MOD_S \<noteq> 0 then - (2 ^ (n - 1)) \<le> sint v \<and> sint v < 2 ^ (n - 1)
       else if rtype < FIRST_CPU_RELOC \<and> rtype AND REL_MOD_U \<noteq> 0 then
         (if 0 \<le> sint v then sint v < 2 ^ n else n = 64)
       else - (2 ^ (n - 1)) \<le> sint v \<and> sint v < 2 ^ n)"
proof -
  have "nat ((int n - 1) mod 2 ^ 64) = n - 1" using n by (simp add: nat_diff_distrib mod_pos_pos_trivial)
  then have eq: "reloc_field_overflow rtype n v =
     (if rtype < FIRST_CPU_RELOC \<and> rtype AND REL_MOD_S \<noteq> 0 then
        (if v <s 0 then \<not> 2 ^ 64 - 2 ^ (n - 1) \<le> uint (scast v :: u64) else \<not> uint (scast v :: u64) < 2 ^ (n - 1))
      else if rtype < FIRST_CPU_RELOC \<and> rtype AND REL_MOD_U \<noteq> 0 then \<not> uint (scast v :: u64) < 2 ^ n
      else if v <s 0 then \<not> 2 ^ 64 - 2 ^ (n - 1) \<le> uint (scast v :: u64) else \<not> uint (scast v :: u64) < 2 ^ n)"
    unfolding reloc_field_overflow_def Let_def MAKEMASK_mask by (simp only: overflow_high overflow_low)
  have r: "- (2 ^ 31) \<le> sint v" "sint v < 2 ^ 31" using sint_ge [of v] sint_lt [of v] by simp_all
  have neg: "v <s 0 \<longleftrightarrow> sint v < 0" by (simp add: word_sless_alt)
  have p: "(0::int) < 2 ^ (n - 1)" "(0::int) < 2 ^ n" by simp_all
  have big: "\<not> 2 ^ 64 + sint v < 2 ^ n" if "sint v < 0" "n \<noteq> 64"
  proof -
    have "(2::int) ^ n \<le> 2 ^ 63" using that n by (intro power_increasing) auto
    then show ?thesis using r by simp
  qed
  have p2: "sint v < 2 ^ n" if "sint v < 0" using that p by linarith
  have p3: "- (2 ^ (n - 1)) \<le> sint v" if "\<not> sint v < 0" using that p by linarith
  show ?thesis
    unfolding eq uint_scast64 neg using p p2 p3 r big n by (cases "n = 64") auto
qed

text \<open>
  C26. A relocated value is refused exactly when it does not fit its field: a field of 1 to 64
  bits that is declared signed takes the signed range, one declared unsigned the unsigned range
  (a negative value fits only 64 bits), and any other the union of both.
\<close>

theorem reloc_overflow_exact:
  assumes "1 \<le> n" and "n \<le> 64"
  shows "reloc_field_overflow rtype n v \<longleftrightarrow>
    \<not> (if rtype < FIRST_CPU_RELOC \<and> rtype AND REL_MOD_S \<noteq> 0 then - (2 ^ (n - 1)) \<le> sint v \<and> sint v < 2 ^ (n - 1)
       else if rtype < FIRST_CPU_RELOC \<and> rtype AND REL_MOD_U \<noteq> 0 then
         (if 0 \<le> sint v then sint v < 2 ^ n else n = 64)
       else - (2 ^ (n - 1)) \<le> sint v \<and> sint v < 2 ^ n)"
  by (rule reloc_overflow_range [OF assms])

lemma reloc_overflow_exact_witness:
  "reloc_field_overflow REL_ABS 8 256 \<and> \<not> reloc_field_overflow REL_ABS 8 (- 128)"
  using reloc_overflow_exact [of 8 REL_ABS 256] reloc_overflow_exact [of 8 REL_ABS "- 128"]
  by (simp add: rel_defs)

end
