(* ===== verification/Cpu6502.thy ===== *)
theory Cpu6502
  imports Opcodes6502 Reloc
begin

text \<open>
  The back end of the 6502 family, \<open>src/cpus/6502/cpu.c\<close>: the optimization of addressing modes
  and branches, the size of an instruction, and its encoding with the relocations it needs, and
  the encoding of data. \<open>cpuconf\<close> holds the static variables of the module. The numbers of
  \<open>cpu_error\<close> messages are recorded with an offset of 2000. Operands are the list of the
  pointers before the first NULL.
\<close>

section \<open>Data\<close>

record cpuconf =
  cpu_type :: u16
  auto_mask :: bool
  branchopt :: bool
  dp_offset :: bool
  dpage :: u16
  asize :: u8
  xsize :: u8
  OC_JMPABS :: nat
  OC_BRA :: nat
  OC_FIRSTMV :: nat
  OC_LASTMV :: nat

record operand =
  op_type :: optype
  op_flags :: u32
  op_value :: "expr option"

record instr =
  inst_code :: nat
  inst_ops :: "operand list"

record dblock =
  db_size :: nat
  db_data :: "u8 list"
  db_relocs :: rlist

definition OF_LO :: u32 where "OF_LO = 1"
definition OF_HI :: u32 where "OF_HI = 2"
definition OF_BK :: u32 where "OF_BK = 4"
definition OF_ID :: u32 where "OF_ID = 8"
definition OF_WA :: u32 where "OF_WA = 16"
definition OF_PC :: u32 where "OF_PC = 32"
definition ZPAGESYM :: u32 where "ZPAGESYM = 0x100000"
definition NEAR_ADDRESSING :: u32 where "NEAR_ADDRESSING = 128"
definition FAR_ADDRESSING :: u32 where "FAR_ADDRESSING = 256"

definition oflag :: "operand \<Rightarrow> u32 \<Rightarrow> bool" where
  "oflag op f \<longleftrightarrow> op_flags op AND f \<noteq> 0"

definition cpu_is :: "cpuconf \<Rightarrow> u16 \<Rightarrow> bool" where
  "cpu_is cpu f \<longleftrightarrow> cpu_type cpu AND f \<noteq> 0"

definition cpu_available :: "cpuconf \<Rightarrow> nat \<Rightarrow> bool" where
  "cpu_available cpu idx \<longleftrightarrow> available (mnemonics ! idx) AND cpu_type cpu \<noteq> 0"

definition cpu_err :: "nat \<Rightarrow> asm \<Rightarrow> asm" where
  "cpu_err n = general_error (2000 + n)"

fun cpu_errs :: "nat list \<Rightarrow> asm \<Rightarrow> asm" where
  "cpu_errs [] s = s"
| "cpu_errs (n # ns) s = cpu_errs ns (cpu_err n s)"

definition opsize :: "optype \<Rightarrow> nat" where
  "opsize t = (case t of
      IMPLIED \<Rightarrow> 0 | DATAOP \<Rightarrow> 0 | ABS \<Rightarrow> 2 | ABSX \<Rightarrow> 2 | ABSY \<Rightarrow> 2 | ABSZ \<Rightarrow> 2 | LABS \<Rightarrow> 3 | LABSX \<Rightarrow> 3
    | DPAGE \<Rightarrow> 1 | DPAGEX \<Rightarrow> 1 | DPAGEY \<Rightarrow> 1 | DPAGEZ \<Rightarrow> 1 | SR \<Rightarrow> 1 | INDIR \<Rightarrow> 2 | DPINDX \<Rightarrow> 1 | DPINDY \<Rightarrow> 1
    | DPINDZ \<Rightarrow> 1 | DPIND \<Rightarrow> 1 | SRINDY \<Rightarrow> 1 | INDIRX \<Rightarrow> 2 | LINDIR \<Rightarrow> 2 | LDPINDY \<Rightarrow> 1 | QDPINDZ \<Rightarrow> 2
    | LDPIND \<Rightarrow> 1 | QDPIND \<Rightarrow> 2 | RELJMP \<Rightarrow> 4 | REL8 \<Rightarrow> 1 | REL16 \<Rightarrow> 2 | IMMED \<Rightarrow> 0 | IMMEDX \<Rightarrow> 0
    | IMMED8 \<Rightarrow> 1 | IMMED16 \<Rightarrow> 2 | WBIT \<Rightarrow> 0 | MVBANK \<Rightarrow> 1 | ACCU \<Rightarrow> 0)"

section \<open>Optimization\<close>

definition IS_ABS :: "optype \<Rightarrow> bool" where
  "IS_ABS t \<longleftrightarrow> t \<in> {ABS, ABSX, ABSY, ABSZ}"

text \<open>Adding the distance of two modes in the enumeration of the code.\<close>

definition to_dpage :: "optype \<Rightarrow> optype" where
  "to_dpage t = (case t of ABS \<Rightarrow> DPAGE | ABSX \<Rightarrow> DPAGEX | ABSY \<Rightarrow> DPAGEY | _ \<Rightarrow> DPAGEZ)"

definition to_long :: "optype \<Rightarrow> optype" where
  "to_long t = (case t of ABS \<Rightarrow> LABS | ABSX \<Rightarrow> LABSX | ABSY \<Rightarrow> DPAGE | _ \<Rightarrow> DPAGEX)"

text \<open>A section flag of the section a label lies in; every label has one.\<close>

definition base_in :: "asm \<Rightarrow> symid \<Rightarrow> u32 \<Rightarrow> bool" where
  "base_in s y f \<longleftrightarrow> LOCREF (sym s y) \<and> (case sym_sec (sym s y) of None \<Rightarrow> False | Some k \<Rightarrow> sec_has (sec s k) f)"

definition zp_wanted :: "cpuconf \<Rightarrow> mnemonic \<Rightarrow> operand \<Rightarrow> taddr \<Rightarrow> symid option \<Rightarrow> asm \<Rightarrow> bool" where
  "zp_wanted cpu m op val base s \<longleftrightarrow> zp_opcode m \<noteq> 0 \<and>
     (oflag op OF_LO \<or>
      \<not> oflag op (OF_HI OR OF_WA) \<and>
      (case base of
         None \<Rightarrow> ucast (dpage cpu) \<le> val \<and> val \<le> ucast (dpage cpu) + 0xff
       | Some y \<Rightarrow> sym_has (sym s y) ZPAGESYM \<or> base_in s y NEAR_ADDRESSING))"

definition long_wanted :: "cpuconf \<Rightarrow> mnemonic \<Rightarrow> operand \<Rightarrow> taddr \<Rightarrow> symid option \<Rightarrow> asm \<Rightarrow> bool" where
  "long_wanted cpu m op val base s \<longleftrightarrow> cpu_is cpu WDC65816 \<and> al_opcode m \<noteq> 0 \<and>
     (oflag op OF_HI \<or>
      \<not> oflag op (OF_WA OR OF_LO) \<and>
      (case base of None \<Rightarrow> 0xffff <s val | Some y \<Rightarrow> base_in s y FAR_ADDRESSING))"

text \<open>The value of an operand, with its base unless it is constant.\<close>

definition eval_base :: "expr \<Rightarrow> secid option \<Rightarrow> taddr \<Rightarrow> (taddr \<times> symid option) action" where
  "eval_base e c pc = bind_st (eval_expr e c pc) (\<lambda>(val, cnst).
     if cnst then return (val, None)
     else bind_st (find_base e c pc) (\<lambda>(_, base). return (val, base)))"

definition no_pc_reloc :: "symid option \<Rightarrow> secid option \<Rightarrow> bool action" where
  "no_pc_reloc base c = (case base of None \<Rightarrow> return True | Some y \<Rightarrow> bind_st (is_pc_reloc y c) (\<lambda>b. return (\<not> b)))"

definition in_range :: "taddr \<Rightarrow> int \<Rightarrow> int \<Rightarrow> bool" where
  "in_range v a b \<longleftrightarrow> a \<le> sint v \<and> sint v \<le> b"

definition optimize_operand ::
  "cpuconf \<Rightarrow> mnemonic \<Rightarrow> nat \<Rightarrow> operand \<Rightarrow> secid option \<Rightarrow> taddr \<Rightarrow> bool \<Rightarrow> (nat \<times> operand) action" where
  "optimize_operand cpu m code op c pc final =
     (case op_value op of
        None \<Rightarrow> return (code, op)
      | Some e \<Rightarrow> bind_st (eval_base e c pc) (\<lambda>(val, base).
          if IS_ABS (op_type op) then
            bind_st (modify (\<lambda>s. if final then
                cpu_errs ((if oflag op OF_LO \<and> zp_opcode m = 0 then [10] else [])
                        @ (if cpu_is cpu WDC65816 \<and> oflag op OF_HI \<and> al_opcode m = 0 then [12] else [])) s
              else s)) (\<lambda>_. bind_st get (\<lambda>s.
            if zp_wanted cpu m op val base s then return (code, op\<lparr>op_type := to_dpage (op_type op)\<rparr>)
            else if long_wanted cpu m op val base s then return (code, op\<lparr>op_type := to_long (op_type op)\<rparr>)
            else return (code, op)))
          else if branchopt cpu then
            (let bd = val - (pc + 2)
             in if op_type op = REL8 then
                  bind_st (no_pc_reloc base c) (\<lambda>free.
                    if free \<and> \<not> in_range bd (- 0x80) 0x7f then
                      (if opcode m = 0x80 \<or> opcode m = 0x12 then return (OC_JMPABS cpu, op\<lparr>op_type := ABS\<rparr>)
                       else return (code, op\<lparr>op_type := RELJMP\<rparr>))
                    else if code = OC_JMPABS cpu \<and> cpu_is cpu (DTV OR M65C02) \<and> free \<and> in_range bd (- 0x80) 0x80 then
                      return (OC_BRA cpu, op\<lparr>op_type := REL8\<rparr>)
                    else return (code, op))
                else if code = OC_JMPABS cpu \<and> cpu_is cpu (DTV OR M65C02) then
                  bind_st (no_pc_reloc base c) (\<lambda>free.
                    if free \<and> in_range bd (- 0x80) 0x80 then return (OC_BRA cpu, op\<lparr>op_type := REL8\<rparr>)
                    else return (code, op))
                else return (code, op))
          else return (code, op)))"

fun optimize_ops ::
  "cpuconf \<Rightarrow> mnemonic \<Rightarrow> nat \<Rightarrow> operand list \<Rightarrow> secid option \<Rightarrow> taddr \<Rightarrow> bool \<Rightarrow> (nat \<times> operand list) action" where
  "optimize_ops cpu m code [] c pc final = return (code, [])"
| "optimize_ops cpu m code (op # ops) c pc final =
     bind_st (optimize_operand cpu m code op c pc final) (\<lambda>(code, op).
     bind_st (optimize_ops cpu m code ops c pc final) (\<lambda>(code, ops). return (code, op # ops)))"

definition optimize_instruction :: "cpuconf \<Rightarrow> instr \<Rightarrow> secid option \<Rightarrow> taddr \<Rightarrow> bool \<Rightarrow> instr action" where
  "optimize_instruction cpu ip c pc final =
     bind_st (optimize_ops cpu (mnemonics ! inst_code ip) (inst_code ip) (inst_ops ip) c pc final) (\<lambda>(code, ops).
       return \<lparr>inst_code = code, inst_ops = ops\<rparr>)"

section \<open>Size\<close>

definition get_inst_size :: "instr \<Rightarrow> nat" where
  "get_inst_size ip =
     1 + sum_list (map (\<lambda>op. opsize (op_type op)) (inst_ops ip))
     + (if available (mnemonics ! inst_code ip) AND M45GS02Q \<noteq> 0 then 2 else 0)"

text \<open>The copy that is optimized is a value of its own here.\<close>

definition instruction_size :: "cpuconf \<Rightarrow> instr \<Rightarrow> secid option \<Rightarrow> taddr \<Rightarrow> nat action" where
  "instruction_size cpu ip c pc =
     bind_st (optimize_instruction cpu ip c pc False) (\<lambda>ip. return (get_inst_size ip))"

section \<open>Encoding\<close>

text \<open>The messages of the range check.\<close>

definition rangecheck :: "bool \<Rightarrow> taddr \<Rightarrow> optype \<Rightarrow> nat list" where
  "rangecheck has_base val t =
     (if t \<in> {ABS, ABSX, ABSY, ABSZ, INDIR, INDIRX, LINDIR, RELJMP} then
        (if \<not> has_base \<and> \<not> in_range val 0 0xffff then [5] else [])
      else if t \<in> {DPAGE, DPAGEX, DPAGEY, DPAGEZ, DPINDX, DPINDY, DPINDZ, LDPIND, QDPIND, LDPINDY, QDPINDZ, DPIND} then
        (if \<not> has_base \<and> \<not> in_range val 0 0xff then [11] else [])
      else if t \<in> {SR, SRINDY} then (if \<not> in_range val 0 0xff then [5] else [])
      else if t = IMMED8 then (if \<not> in_range val (- 0x80) 0xff then [5] else [])
      else if t = IMMED16 then (if \<not> in_range val (- 0x8000) 0xffff then [5] else [])
      else if t = REL8 then (if \<not> in_range val (- 0x80) 0x7f then [6] else [])
      else if t = REL16 then (if \<not> in_range val (- 0x8000) 0x7fff then [6] else [])
      else if t = WBIT then (if \<not> in_range val 0 7 then [7] else [])
      else [])"

text \<open>The fields of a relocation, the value left in the instruction, and messages.\<close>

record reloc_field =
  rf_mask :: u32
  rf_add :: taddr
  rf_type :: int
  rf_size :: nat
  rf_offs :: nat
  rf_val :: taddr
  rf_errs :: "nat list"

definition sar :: "nat \<Rightarrow> taddr \<Rightarrow> taddr" where
  "sar n v = signed_drop_bit n v"

definition ignored :: "operand \<Rightarrow> u32 \<Rightarrow> nat list" where
  "ignored op f = (if oflag op f then [2] else [])"

definition reloc_params :: "cpuconf \<Rightarrow> operand \<Rightarrow> int \<Rightarrow> taddr \<Rightarrow> nat \<Rightarrow> reloc_field option" where
  "reloc_params cpu op type val offs =
     (let t = op_type op;
          r = \<lparr>rf_mask = -1, rf_add = val, rf_type = type, rf_size = 8, rf_offs = offs, rf_val = val, rf_errs = []\<rparr>
      in if t \<in> {LABS, LABSX} then Some (r\<lparr>rf_size := 24, rf_errs := ignored op (OF_LO OR OF_WA)\<rparr>)
         else if t \<in> {RELJMP, ABS, ABSX, ABSY, ABSZ, INDIR, INDIRX, LINDIR} then
           (let r = r\<lparr>rf_size := 16, rf_offs := (if t = RELJMP then offs + 2 else offs)\<rparr>
            in if cpu_is cpu WDC65816 \<or> oflag op (OF_HI OR OF_WA) then Some (r\<lparr>rf_mask := 0xffff\<rparr>)
               else Some (r\<lparr>rf_errs := ignored op OF_LO\<rparr>))
         else if t \<in> {QDPIND, QDPINDZ, DPAGE, DPAGEX, DPAGEY, DPAGEZ, DPINDX, DPINDY, DPINDZ, DPIND, LDPIND, LDPINDY} then
           Some (r\<lparr>rf_offs := (if t \<in> {QDPIND, QDPINDZ} then offs + 1 else offs),
                   rf_type := (if dp_offset cpu then REL_SECOFF else type),
                   rf_mask := (if \<not> dp_offset cpu \<or> oflag op OF_LO then 0xff else -1),
                   rf_errs := ignored op (OF_HI OR OF_WA)\<rparr>)
         else if t \<in> {SR, SRINDY} then Some (r\<lparr>rf_errs := ignored op (OF_LO OR OF_WA OR OF_HI)\<rparr>)
         else if t = MVBANK then Some (r\<lparr>rf_mask := 0xff0000, rf_val := sar 16 val AND 0xff\<rparr>)
         else if t = IMMED8 then
           (if oflag op OF_PC then
              Some (r\<lparr>rf_type := REL_PC, rf_add := val + of_nat offs, rf_val := val + of_nat offs,
                      rf_errs := ignored op (OF_LO OR OF_HI OR OF_BK OR OF_ID)\<rparr>)
            else if oflag op OF_BK then Some (r\<lparr>rf_mask := 0xff0000, rf_val := sar 16 val AND 0xff\<rparr>)
            else if oflag op OF_HI then Some (r\<lparr>rf_mask := 0xff00, rf_val := sar 8 val AND 0xff\<rparr>)
            else if oflag op OF_LO \<or> auto_mask cpu then Some (r\<lparr>rf_mask := 0xff, rf_val := val AND 0xff\<rparr>)
            else Some r)
         else if t = IMMED16 then
           (let r = r\<lparr>rf_size := 16\<rparr>
            in if oflag op OF_PC then
              Some (r\<lparr>rf_type := REL_PC, rf_val := val + of_nat offs,
                      rf_errs := ignored op (OF_LO OR OF_HI OR OF_BK OR OF_ID)\<rparr>)
            else if oflag op OF_BK then Some (r\<lparr>rf_mask := 0xffff0000, rf_val := sar 16 val AND 0xffff\<rparr>)
            else if oflag op OF_HI then Some (r\<lparr>rf_mask := 0xffff00, rf_val := sar 8 val AND 0xffff\<rparr>)
            else if oflag op OF_LO \<or> auto_mask cpu then Some (r\<lparr>rf_mask := 0xffff, rf_val := val AND 0xffff\<rparr>)
            else Some r)
         else if t = REL8 then Some (r\<lparr>rf_type := REL_PC, rf_add := val - 1\<rparr>)
         else if t = REL16 then Some (r\<lparr>rf_type := REL_PC, rf_size := 16, rf_add := val - 2\<rparr>)
         else None)"

text \<open>The value of a constant operand, with messages.\<close>

definition const_value :: "cpuconf \<Rightarrow> operand \<Rightarrow> taddr \<Rightarrow> taddr \<Rightarrow> nat \<Rightarrow> taddr \<times> nat list" where
  "const_value cpu op val pc offs =
     (let t = op_type op
      in if oflag op OF_ID then (0, if t \<in> {IMMED8, IMMED16} then [16] else [15])
         else if t \<in> {DPAGE, DPAGEX, DPAGEY, DPAGEZ, DPINDX, DPINDY, DPINDZ, DPIND, LDPINDY, QDPINDZ, LDPIND, QDPIND} then
           (if oflag op OF_LO then val AND 0xff else val - ucast (dpage cpu), ignored op (OF_HI OR OF_WA))
         else if t \<in> {ABS, ABSX, ABSY, ABSZ, INDIR, INDIRX, LINDIR, RELJMP} then
           (if cpu_is cpu WDC65816 \<or> oflag op (OF_HI OR OF_WA) then (val AND 0xffff, []) else (val, ignored op OF_LO))
         else if t \<in> {LABS, LABSX} then (val AND 0xffffff, ignored op (OF_LO OR OF_WA))
         else if t = REL8 then (val - (pc + of_nat offs + 1), [])
         else if t = REL16 then (val - (pc + of_nat offs + 2), [])
         else if t \<in> {MVBANK, SR, SRINDY} then
           (if t = MVBANK then sar 16 val AND 0xff else val, ignored op (OF_LO OR OF_WA OR OF_HI))
         else if t = IMMED8 then
           (if oflag op OF_BK then sar 16 val AND 0xff
            else if oflag op OF_HI then sar 8 val AND 0xff
            else if oflag op OF_LO \<or> auto_mask cpu then val AND 0xff else val, [])
         else if t = IMMED16 then
           (if oflag op OF_BK then sar 16 val AND 0xffff
            else if oflag op OF_HI then sar 8 val AND 0xffff
            else if oflag op OF_LO \<or> auto_mask cpu then val AND 0xffff else val, [])
         else (val, []))"

text \<open>
  The bytes after the operand is written, with messages. \<open>setval(0,d,n,val)\<close> appends the
  little-endian bytes of the sign-extended value.
\<close>

definition value_bytes :: "nat \<Rightarrow> taddr \<Rightarrow> u8 list" where
  "value_bytes n val = le_bytes n (scast val :: u64)"

definition write_operand :: "optype \<Rightarrow> taddr \<Rightarrow> u8 list \<Rightarrow> stop + u8 list \<times> nat list" where
  "write_operand t val d =
     (let byte = ucast (val AND 0xff)
      in if t \<in> {ABSX, ABSY, ABSZ} then Inr (d @ value_bytes 2 val, if d ! 0 = 0 then [0] else [])
         else if t \<in> {ABS, INDIR, INDIRX, LINDIR, REL16, IMMED16} then Inr (d @ value_bytes 2 val, [])
         else if t \<in> {LABS, LABSX} then Inr (d @ value_bytes 3 val, [])
         else if t \<in> {QDPIND, QDPINDZ} then Inr (butlast d @ [0xea, last d] @ [byte], [])
         else if t \<in> {DPAGE, DPAGEX, DPAGEY, DPAGEZ, LDPIND, LDPINDY, DPIND, DPINDX, DPINDY, DPINDZ,
                        IMMED8, REL8, SR, SRINDY, MVBANK} then Inr (d @ [byte], [])
         else if t = RELJMP then
           (if 1 < length d then Inl Ierror else Inr (d @ [3, 0x4c] @ value_bytes 2 val, []))
         else if t = WBIT then Inr (d[0 := d ! 0 OR ucast (push_bit 4 (val AND 7))], [])
         else Inl Ierror)"

text \<open>
  The value of an operand that is not constant, with the relocation it needs. The base is the
  one the range check sees.
\<close>

definition relocate_operand ::
  "cpuconf \<Rightarrow> operand \<Rightarrow> taddr \<Rightarrow> base \<times> symid option \<Rightarrow> nat \<Rightarrow> rlist \<Rightarrow> secid option \<Rightarrow> taddr \<Rightarrow>
     (taddr \<times> rlist) action" where
  "relocate_operand cpu op val b offs rl c pc =
     (let t = op_type op;
          op = (if fst b = BASE_PCREL \<and> t \<in> {IMMED8, IMMED16} then op\<lparr>op_flags := op_flags op OR OF_PC\<rparr> else op)
      in if t = WBIT \<or> fst b = BASE_ILLEGAL \<or> (fst b = BASE_PCREL \<and> \<not> oflag op OF_PC) then
           bind_st (modify (general_error 38)) (\<lambda>_. return (val, rl))
         else (case snd b of
             None \<Rightarrow> fail Undefined
           | Some y \<Rightarrow>
               bind_st (if t \<in> {REL8, REL16} then is_pc_reloc y c else return True) (\<lambda>pcrel.
                 if \<not> pcrel then return (val - (pc + (of_nat offs + (if t = REL8 then 1 else 2))), rl)
                 else if oflag op OF_ID \<and> t \<noteq> IMMED8 \<and> t \<noteq> IMMED16 then
                   bind_st (modify (cpu_err 15)) (\<lambda>_. return (val, rl))
                 else bind_st get (\<lambda>s.
                   let type = (if oflag op OF_ID then REL_MEMID else REL_ABS);
                       val = (if oflag op OF_ID \<and> LOCREF (sym s y) then val - sym_pc (sym s y) else val)
                   in case reloc_params cpu op type val offs of
                        None \<Rightarrow> fail Ierror
                      | Some r \<Rightarrow>
                          bind_st (modify (cpu_errs (rf_errs r))) (\<lambda>_.
                          bind_st (add_extnreloc_masked rl y (rf_add r) (rf_type r) 0 (rf_size r) (rf_offs r) (rf_mask r))
                            (\<lambda>(rl, _). return (rf_val r, rl)))))))"

definition eval_operand ::
  "cpuconf \<Rightarrow> operand \<Rightarrow> secid option \<Rightarrow> taddr \<Rightarrow> u8 list \<Rightarrow> rlist \<Rightarrow> (u8 list \<times> rlist) action" where
  "eval_operand cpu op c pc d rl =
     (case op_value op of
        None \<Rightarrow> return (d, rl)
      | Some e \<Rightarrow>
          bind_st (eval_expr e c pc) (\<lambda>(val, cnst).
          bind_st
            (if cnst then
               (case const_value cpu op val pc (length d) of (val, errs) \<Rightarrow>
                  bind_st (modify (cpu_errs errs)) (\<lambda>_. return (val, rl, False)))
             else
               bind_st (find_base e c pc) (\<lambda>b.
               bind_st (relocate_operand cpu op val b (length d) rl c pc) (\<lambda>(val, rl).
                 return (val, rl, snd b \<noteq> None))))
            (\<lambda>(val, rl, has_base).
          bind_st (modify (cpu_errs (rangecheck has_base val (op_type op)))) (\<lambda>_.
            case write_operand (op_type op) val d of
              Inl x \<Rightarrow> fail x
            | Inr (d, errs) \<Rightarrow> bind_st (modify (cpu_errs errs)) (\<lambda>_. return (d, rl))))))"

fun eval_operands ::
  "cpuconf \<Rightarrow> operand list \<Rightarrow> secid option \<Rightarrow> taddr \<Rightarrow> u8 list \<Rightarrow> rlist \<Rightarrow> (u8 list \<times> rlist) action" where
  "eval_operands cpu [] c pc d rl = return (d, rl)"
| "eval_operands cpu (op # ops) c pc d rl =
     bind_st (eval_operand cpu op c pc d rl) (\<lambda>(d, rl). eval_operands cpu ops c pc d rl)"

fun opcode_for :: "mnemonic \<Rightarrow> operand list \<Rightarrow> u8 \<Rightarrow> u8" where
  "opcode_for m [] oc = oc"
| "opcode_for m (op # ops) oc =
     opcode_for m ops
       (if op_type op \<in> {LABS, LABSX} then al_opcode m
        else if op_type op \<in> {DPAGE, DPAGEX, DPAGEY, DPAGEZ} then zp_opcode m
        else if op_type op = RELJMP then oc XOR 0x20
        else oc)"

definition encode_ops :: "cpuconf \<Rightarrow> instr \<Rightarrow> operand list" where
  "encode_ops cpu ip =
     (if available (mnemonics ! inst_code ip) AND M45GS02Q \<noteq> 0 then inst_ops ip
      else if OC_FIRSTMV cpu \<le> inst_code ip \<and> inst_code ip \<le> OC_LASTMV cpu then
        (case inst_ops ip of a # b # ops \<Rightarrow> b # a # ops | ops \<Rightarrow> ops)
      else inst_ops ip)"

definition eval_instruction :: "cpuconf \<Rightarrow> instr \<Rightarrow> secid option \<Rightarrow> taddr \<Rightarrow> dblock action" where
  "eval_instruction cpu ip c pc =
     bind_st (optimize_instruction cpu ip c pc True) (\<lambda>ip.
       let m = mnemonics ! inst_code ip;
           oc = opcode_for m (inst_ops ip) (opcode m);
           pre = (if available m AND M45GS02Q \<noteq> 0 then [0x42, 0x42] else [])
       in bind_st (eval_operands cpu (encode_ops cpu ip) c pc (pre @ [oc]) []) (\<lambda>(d, rl).
            return \<lparr>db_size = get_inst_size ip, db_data = d, db_relocs = rl\<rparr>))"

section \<open>Data\<close>

text \<open>The value selected from a data operand, the mask for its relocation if any, and messages.\<close>

definition data_value :: "cpuconf \<Rightarrow> operand \<Rightarrow> nat \<Rightarrow> taddr \<Rightarrow> taddr \<times> u32 option \<times> nat list" where
  "data_value cpu op bitsize val =
     (if bitsize \<in> {8, 16, 24} then
        (let m = (if bitsize = 8 then 0xff else if bitsize = 16 then 0xffff else 0xffffff);
             himask = (if bitsize = 8 then 0xff00 else if bitsize = 16 then 0xffff00 else 0xffffff00);
             bkmask = (if bitsize = 8 then 0xff0000 else if bitsize = 16 then 0xffff0000 else NOT 0xffff);
             (v, mk) = (if oflag op OF_LO \<or> auto_mask cpu then (val AND m, Some m)
                          else if oflag op OF_HI then (sar 8 val AND m, Some himask)
                          else if oflag op OF_BK then (sar 16 val AND m, Some bkmask)
                          else (val, None))
         in (v, mk, if in_range v (- (2 ^ (bitsize - 1))) (2 ^ bitsize - 1) then [] else [5]))
      else if bitsize = 32 then
        (if oflag op OF_HI then (sar 8 val, Some (NOT 0xff), [])
         else if oflag op OF_BK then (sar 16 val, Some (NOT 0xffff), [])
         else (val, None, []))
      else (val, None, []))"

definition eval_data :: "cpuconf \<Rightarrow> operand \<Rightarrow> nat \<Rightarrow> secid option \<Rightarrow> taddr \<Rightarrow> dblock action" where
  "eval_data cpu op bitsize c pc =
     bind_st (modify (\<lambda>s. if 32 < bitsize \<or> bitsize mod 8 \<noteq> 0 then cpu_err 3 s else s)) (\<lambda>_.
     (case op_value op of
        None \<Rightarrow> fail Ierror
      | Some e \<Rightarrow>
          bind_st (eval_expr e c pc) (\<lambda>(val, cnst).
          bind_st
            (if \<not> cnst then
               bind_st (find_base e c pc) (\<lambda>(bt, base).
                 if bt = BASE_OK \<or> (bt = BASE_PCREL \<and> \<not> oflag op (OF_LO OR OF_HI OR OF_BK OR OF_ID)) then
                   (case base of
                      None \<Rightarrow> fail Undefined
                    | Some y \<Rightarrow> bind_st get (\<lambda>s.
                        let val = (if oflag op OF_ID \<and> LOCREF (sym s y) then val - sym_pc (sym s y) else val);
                            rtype = (if oflag op OF_ID then REL_MEMID else if bt = BASE_PCREL then REL_PC else REL_ABS)
                        in bind_st (add_extnreloc [] y val rtype 0 bitsize 0) (\<lambda>(rl, _). return (val, rl))))
                 else bind_st (modify (general_error 38)) (\<lambda>_. return (val, [])))
             else if oflag op OF_ID then bind_st (modify (cpu_err 16)) (\<lambda>_. return (0, []))
             else return (val, []))
            (\<lambda>(val, rl).
          (case data_value cpu op bitsize val of (val, mk, errs) \<Rightarrow>
             bind_st (modify (cpu_errs errs)) (\<lambda>_.
               if 8 < bitsize div 8 then fail Ierror
               else return \<lparr>db_size = bitsize div 8, db_data = value_bytes (bitsize div 8) val,
                            db_relocs = (case mk of None \<Rightarrow> rl | Some m \<Rightarrow> set_mask m rl)\<rparr>))))))"

end
