(* ===== verification/Cpuselect.thy ===== *)
theory Cpuselect
  imports Cpu6502 Symtab
begin

text \<open>
  Selection of a cpu of the 6502 family (\<open>src/cpus/6502/cpu.c\<close>): \<open>set_cpu_type\<close> with the names it
  knows, the codes \<open>init_cpu\<close> remembers for the selected cpu, and the options an atom changes.
\<close>

section \<open>Operations\<close>

record cpuopts =
  o_dpage :: u16
  o_asize :: u8
  o_xsize :: u8

definition cpu_opts :: "cpuopts \<Rightarrow> cpuconf \<Rightarrow> cpuconf" where
  "cpu_opts v cpu = cpu\<lparr>dpage := o_dpage v, asize := o_asize v, xsize := o_xsize v\<rparr>"

definition current_opts :: "cpuconf \<Rightarrow> cpuopts" where
  "current_opts cpu = \<lparr>o_dpage = dpage cpu, o_asize = asize cpu, o_xsize = xsize cpu\<rparr>"

text \<open>\<open>strncmp\<close> with the length of the second string compares a prefix.\<close>

definition has_prefix :: "string \<Rightarrow> string \<Rightarrow> bool" where
  "has_prefix n p \<longleftrightarrow> take (length p) n = p"

definition has_prefix_nc :: "string \<Rightarrow> string \<Rightarrow> bool" where
  "has_prefix_nc n p \<longleftrightarrow> strnicmp_eq n p (length p)"

text \<open>The new configuration with the bytes of an address, unless the name is unknown.\<close>

definition set_cpu_type :: "string \<Rightarrow> cpuconf \<Rightarrow> (cpuconf \<times> nat) option" where
  "set_cpu_type n cpu =
     (let t = cpu_type cpu; c02 = M6502 OR M65C02
      in if has_prefix_nc n ''ill'' \<or> has_prefix_nc n ''6502i'' then Some (cpu\<lparr>cpu_type := t OR ILL\<rparr>, 2)
         else if has_prefix_nc n ''dtv'' \<or> has_prefix_nc n ''c64dtv'' then
           Some (cpu\<lparr>cpu_type := (t AND ILL) OR (M6502 OR DTV)\<rparr>, 2)
         else if has_prefix n ''650'' \<or> has_prefix n ''651'' then Some (cpu\<lparr>cpu_type := (t AND ILL) OR M6502\<rparr>, 2)
         else if stricmp_eq n ''65c02'' \<or> stricmp_eq n ''c02'' then Some (cpu\<lparr>cpu_type := c02\<rparr>, 2)
         else if stricmp_eq n ''wdc02'' \<or> stricmp_eq n ''wdc65c02'' then
           Some (cpu\<lparr>cpu_type := c02 OR WDC02 OR WDC02ALL\<rparr>, 2)
         else if stricmp_eq n ''ce02'' \<or> stricmp_eq n ''65ce02'' then
           Some (cpu\<lparr>cpu_type := c02 OR WDC02 OR WDC02ALL OR CSGCE02\<rparr>, 2)
         else if n = ''mega65'' \<or> has_prefix_nc n ''m45'' \<or> has_prefix n ''45'' then
           Some (cpu\<lparr>cpu_type := c02 OR WDC02 OR CSGCE02 OR M45GS02 OR M45GS02Q\<rparr>, 2)
         else if n = ''6280'' \<or> stricmp_eq n ''hu6280'' then
           Some (cpu\<lparr>cpu_type := c02 OR WDC02 OR WDC02ALL OR HU6280, dpage := 0x2000\<rparr>, 2)
         else if n = ''816'' \<or> n = ''802'' \<or> has_prefix n ''658'' then
           Some (cpu\<lparr>cpu_type := c02 OR WDC02ALL OR WDC65816\<rparr>, 3)
         else None)"

definition init_step :: "nat \<times> mnemonic \<Rightarrow> cpuconf \<Rightarrow> cpuconf" where
  "init_step e cpu = (case e of (i, m) \<Rightarrow>
     if available m AND cpu_type cpu \<noteq> 0 then
       (if mn_name m = ''jmp'' \<and> (case operand_type m of t # _ \<Rightarrow> t = ABS | [] \<Rightarrow> False) then cpu\<lparr>OC_JMPABS := i\<rparr>
        else if mn_name m = ''bra'' then cpu\<lparr>OC_BRA := i\<rparr>
        else if mn_name m = ''mvn'' \<and> OC_FIRSTMV cpu = 0 then cpu\<lparr>OC_FIRSTMV := i\<rparr>
        else if mn_name m = ''mvp'' then cpu\<lparr>OC_LASTMV := i\<rparr>
        else cpu)
     else cpu)"

fun init_from :: "nat \<Rightarrow> mnemonic list \<Rightarrow> cpuconf \<Rightarrow> cpuconf" where
  "init_from i [] cpu = cpu"
| "init_from i (m # ms) cpu = init_from (i + 1) ms (init_step (i, m) cpu)"

definition init_codes :: "cpuconf \<Rightarrow> cpuconf" where
  "init_codes cpu = init_from 0 mnemonics cpu"

text \<open>The configuration at the start of the program.\<close>

definition cpu_start :: cpuconf where
  "cpu_start = \<lparr>cpu_type = M6502, auto_mask = False, branchopt = False, dp_offset = False, dpage = 0, asize = 8, xsize = 8,
     OC_JMPABS = 0, OC_BRA = 0, OC_FIRSTMV = 0, OC_LASTMV = 0\<rparr>"

section \<open>The remembered codes\<close>

definition special :: "mnemonic \<Rightarrow> bool" where
  "special m \<longleftrightarrow> mn_name m \<in> {''jmp'', ''bra'', ''mvn'', ''mvp''}"

fun specials :: "nat \<Rightarrow> mnemonic list \<Rightarrow> (nat \<times> mnemonic) list" where
  "specials i [] = []"
| "specials i (m # ms) = (if special m then (i, m) # specials (i + 1) ms else specials (i + 1) ms)"

lemma init_step_other: "\<not> special m \<Longrightarrow> init_step (i, m) cpu = cpu"
  by (simp add: init_step_def special_def)

lemma init_from_specials: "init_from i ms cpu = fold init_step (specials i ms) cpu"
  by (induction ms arbitrary: i cpu) (simp_all add: init_step_other)

lemma special_entries:
  "specials 0 mnemonics =
    [(94, mn ''bra'' [REL8] 0x12 0 0 DTV), (95, mn ''bra'' [REL8] 0x80 0 0 M65C02),
     (209, mn ''jmp'' [ABS] 0x4c 0 0x5c M6502), (210, mn ''jmp'' [INDIRX] 0x7c 0 0 M65C02),
     (211, mn ''jmp'' [INDIR] 0x6c 0 0 M6502), (212, mn ''jmp'' [LINDIR] 0xdc 0 0 WDC65816),
     (260, mn ''mvn'' [IMMED8, IMMED8] 0x54 0 0 WDC65816), (261, mn ''mvn'' [MVBANK, MVBANK] 0x54 0 0 WDC65816),
     (262, mn ''mvp'' [IMMED8, IMMED8] 0x44 0 0 WDC65816), (263, mn ''mvp'' [MVBANK, MVBANK] 0x44 0 0 WDC65816)]"
  by code_simp

lemma init_step_simps:
  "cpu_type (init_step (i, m) cpu) = cpu_type cpu"
  "OC_JMPABS (init_step (i, m) cpu) =
    (if available m AND cpu_type cpu \<noteq> 0 \<and> mn_name m = ''jmp'' \<and> (case operand_type m of t # _ \<Rightarrow> t = ABS | [] \<Rightarrow> False)
     then i else OC_JMPABS cpu)"
  "OC_BRA (init_step (i, m) cpu) = (if available m AND cpu_type cpu \<noteq> 0 \<and> mn_name m = ''bra'' then i else OC_BRA cpu)"
  "OC_FIRSTMV (init_step (i, m) cpu) =
    (if available m AND cpu_type cpu \<noteq> 0 \<and> mn_name m = ''mvn'' \<and> OC_FIRSTMV cpu = 0 then i else OC_FIRSTMV cpu)"
  "OC_LASTMV (init_step (i, m) cpu) = (if available m AND cpu_type cpu \<noteq> 0 \<and> mn_name m = ''mvp'' then i else OC_LASTMV cpu)"
  by (simp_all add: init_step_def)

lemma init_codes_eq:
  assumes "cpu_is cpu M6502" and "OC_FIRSTMV cpu = 0" and "OC_LASTMV cpu = 0" and "OC_BRA cpu = 0"
  shows "OC_JMPABS (init_codes cpu) = 209"
    and "OC_BRA (init_codes cpu) = (if cpu_is cpu M65C02 then 95 else if cpu_is cpu DTV then 94 else 0)"
    and "OC_FIRSTMV (init_codes cpu) = (if cpu_is cpu WDC65816 then 260 else 0)"
    and "OC_LASTMV (init_codes cpu) = (if cpu_is cpu WDC65816 then 263 else 0)"
    and "cpu_type (init_codes cpu) = cpu_type cpu"
  using assms
  unfolding init_codes_def init_from_specials special_entries
  by (simp_all add: init_step_simps mn_def cpu_is_def and.commute)

fun select_cpus :: "string list \<Rightarrow> cpuconf \<Rightarrow> cpuconf" where
  "select_cpus [] cpu = cpu"
| "select_cpus (n # ns) cpu = select_cpus ns (case set_cpu_type n cpu of None \<Rightarrow> cpu | Some (cpu', _) \<Rightarrow> cpu')"

definition codes_unset :: "cpuconf \<Rightarrow> bool" where
  "codes_unset cpu \<longleftrightarrow> cpu_is cpu M6502 \<and> OC_FIRSTMV cpu = 0 \<and> OC_LASTMV cpu = 0 \<and> OC_BRA cpu = 0"

text \<open>A case split that forgets the condition.\<close>

lemma if_cases_any:
  "(if b then x else y) = Some z \<Longrightarrow> (x = Some z \<Longrightarrow> P) \<Longrightarrow> (y = Some z \<Longrightarrow> P) \<Longrightarrow> P"
  by (cases b) simp_all

lemma has_M6502: "a AND M6502 \<noteq> 0 \<longleftrightarrow> bit a 0"
proof -
  have "a AND M6502 = (if bit a 0 then 1 else 0)"
    by (rule bit_word_eqI) (auto simp: bit_simps M6502_def bit_1_iff intro: gr0I)
  then show ?thesis by simp
qed

lemma set_cpu_type_unset:
  assumes u: "codes_unset cpu" and s: "set_cpu_type n cpu = Some (cpu', b)"
  shows "codes_unset cpu'"
proof -
  have "(bit (cpu_type cpu) 0 \<longrightarrow> bit (cpu_type cpu') 0) \<and>
      OC_FIRSTMV cpu' = OC_FIRSTMV cpu \<and> OC_LASTMV cpu' = OC_LASTMV cpu \<and> OC_BRA cpu' = OC_BRA cpu"
    using s unfolding set_cpu_type_def Let_def
    by (elim if_cases_any) (auto simp: bit_simps M6502_def)
  then show ?thesis using u by (simp add: codes_unset_def cpu_is_def has_M6502)
qed

lemma select_cpus_unset: "codes_unset cpu \<Longrightarrow> codes_unset (select_cpus ns cpu)"
proof (induction ns arbitrary: cpu)
  case (Cons n ns)
  then show ?case using set_cpu_type_unset [OF Cons.prems] by (cases "set_cpu_type n cpu") auto
qed simp

text \<open>
  C36. Whatever cpus are selected before the initialization, the codes it remembers are right:
  the absolute \<open>jmp\<close>; the \<open>bra\<close> of the selected cpu, when it has one; and the range of the block
  moves, whose operands are swapped, exactly on the 65816.
\<close>

theorem selected_cpu_codes:
  "let cpu = init_codes (select_cpus ns cpu_start)
   in mnemonics ! OC_JMPABS cpu = mn ''jmp'' [ABS] 0x4c 0 0x5c M6502
    \<and> (if cpu_is cpu (DTV OR M65C02) then mn_name (mnemonics ! OC_BRA cpu) = ''bra'' \<and> cpu_available cpu (OC_BRA cpu)
       else OC_BRA cpu = 0)
    \<and> (if cpu_is cpu WDC65816 then
         [m \<leftarrow> mnemonics. mn_name m \<in> {''mvn'', ''mvp''}] = take (Suc (OC_LASTMV cpu) - OC_FIRSTMV cpu) (drop (OC_FIRSTMV cpu) mnemonics)
       else OC_FIRSTMV cpu = 0 \<and> OC_LASTMV cpu = 0)"
proof -
  let ?c = "select_cpus ns cpu_start"
  have "codes_unset cpu_start" by (simp add: codes_unset_def cpu_start_def cpu_is_def M6502_def)
  then have u: "codes_unset ?c" by (rule select_cpus_unset)
  then have c: "OC_JMPABS (init_codes ?c) = 209"
    "OC_BRA (init_codes ?c) = (if cpu_is ?c M65C02 then 95 else if cpu_is ?c DTV then 94 else 0)"
    "OC_FIRSTMV (init_codes ?c) = (if cpu_is ?c WDC65816 then 260 else 0)"
    "OC_LASTMV (init_codes ?c) = (if cpu_is ?c WDC65816 then 263 else 0)"
    and t: "cpu_type (init_codes ?c) = cpu_type ?c"
    using init_codes_eq [of ?c] by (simp_all add: codes_unset_def)
  have i: "cpu_is (init_codes ?c) f = cpu_is ?c f" for f by (simp add: cpu_is_def t)
  have o: "cpu_is ?c (DTV OR M65C02) \<longleftrightarrow> cpu_is ?c DTV \<or> cpu_is ?c M65C02"
    by (simp add: cpu_is_def bit.conj_disj_distrib or_eq_0_iff)
  have m: "mnemonics ! 209 = mn ''jmp'' [ABS] 0x4c 0 0x5c M6502" "mnemonics ! 94 = mn ''bra'' [REL8] 0x12 0 0 DTV"
    "mnemonics ! 95 = mn ''bra'' [REL8] 0x80 0 0 M65C02"
    "[m \<leftarrow> mnemonics. mn_name m \<in> {''mvn'', ''mvp''}] = take (Suc 263 - 260) (drop 260 mnemonics)"
    by code_simp+
  have bra: "mn_name (mnemonics ! OC_BRA (init_codes ?c)) = ''bra'' \<and> cpu_available (init_codes ?c) (OC_BRA (init_codes ?c))"
    if "cpu_is ?c (DTV OR M65C02)"
    using that unfolding o c cpu_available_def t by (auto simp: m mn_def cpu_is_def and.commute)
  have n: "OC_BRA (init_codes ?c) = 0" if "\<not> cpu_is ?c (DTV OR M65C02)" using that unfolding o c by simp
  have bras: "if cpu_is ?c (DTV OR M65C02)
      then mn_name (mnemonics ! OC_BRA (init_codes ?c)) = ''bra'' \<and> cpu_available (init_codes ?c) (OC_BRA (init_codes ?c))
      else OC_BRA (init_codes ?c) = 0"
    using bra n by (cases "cpu_is ?c (DTV OR M65C02)") simp_all
  have moves: "if cpu_is ?c WDC65816
      then [m \<leftarrow> mnemonics. mn_name m \<in> {''mvn'', ''mvp''}]
        = take (Suc (OC_LASTMV (init_codes ?c)) - OC_FIRSTMV (init_codes ?c)) (drop (OC_FIRSTMV (init_codes ?c)) mnemonics)
      else OC_FIRSTMV (init_codes ?c) = 0 \<and> OC_LASTMV (init_codes ?c) = 0"
  proof (cases "cpu_is ?c WDC65816")
    case True
    show ?thesis unfolding c if_P [OF True] by (rule m(4))
  qed (simp add: c)
  show ?thesis unfolding Let_def i by (intro conjI bras moves) (simp add: c m)
qed

text \<open>
  A cpu selected by a directive, after the initialization, leaves the codes as they are: the
  operands of a block move of the 65816 are then written in the order of the source, which is the
  wrong one.
\<close>

theorem late_selection_keeps_codes:
  "map_option (\<lambda>(cpu, _). (OC_FIRSTMV cpu, encode_ops cpu \<lparr>inst_code = 261, inst_ops = [a, b]\<rparr>))
     (set_cpu_type ''65816'' (init_codes cpu_start)) = Some (0, [a, b])
   \<and> encode_ops (init_codes (select_cpus [''65816''] cpu_start)) \<lparr>inst_code = 261, inst_ops = [a, b]\<rparr> = [b, a]"
proof -
  let ?c = "init_codes cpu_start"
  have u: "codes_unset cpu_start" and n: "\<not> cpu_is cpu_start WDC65816"
    by (simp_all add: codes_unset_def cpu_start_def cpu_is_def M6502_def WDC65816_def)
  then have c: "OC_FIRSTMV ?c = 0" "OC_LASTMV ?c = 0"
    using init_codes_eq [of cpu_start] by (simp_all add: codes_unset_def)
  have s: "set_cpu_type ''65816'' cpu = Some (cpu\<lparr>cpu_type := M6502 OR M65C02 OR WDC02ALL OR WDC65816\<rparr>, 3)" for cpu
    by (simp add: set_cpu_type_def has_prefix_def has_prefix_nc_def tolower_c_def numeral_eq_Suc or.assoc)
  let ?d = "select_cpus [''65816''] cpu_start"
  have "codes_unset ?d" by (rule select_cpus_unset [OF u])
  moreover have "cpu_is ?d WDC65816" by (simp add: s cpu_is_def available_defs)
  ultimately have d: "OC_FIRSTMV (init_codes ?d) = 260" "OC_LASTMV (init_codes ?d) = 263"
    using init_codes_eq [of ?d] by (simp_all add: codes_unset_def)
  have m: "available (mnemonics ! 261) AND M45GS02Q = 0" by code_simp
  have "encode_ops (init_codes ?d) \<lparr>inst_code = 261, inst_ops = [a, b]\<rparr> = [b, a]"
    unfolding encode_ops_def d by (simp add: m)
  then show ?thesis by (simp add: s [of ?c] c m encode_ops_def del: select_cpus.simps)
qed

end
