(* ===== verification/Evalview.thy ===== *)
theory Evalview
  imports Exprframe
begin

text \<open>
  What an evaluation depends on: the state without recorded dependencies and messages. Two
  states that agree on that give the same result, and at a position where the dummy symbol of
  the current pc already stands, an evaluation leaves it as it is; so evaluating twice gives
  the same value twice.
\<close>

definition view :: "asm \<Rightarrow> symbol list \<times> sect list \<times> symid option \<times> bool \<times> nat \<times> nat" where
  "view s = (syms s, map nodeps (secs s), cpc s, final_pass s, num_secs s, bytespertaddr s)"

definition rel_res :: "stop + asm \<times> 'a \<Rightarrow> stop + asm \<times> 'a \<Rightarrow> bool" where
  "rel_res a b \<longleftrightarrow> (case (a, b) of
      (Inl x, Inl y) \<Rightarrow> x = y
    | (Inr (s, x), Inr (t, y)) \<Rightarrow> x = y \<and> view s = view t
    | _ \<Rightarrow> False)"

definition alike :: "'a action \<Rightarrow> 'a action \<Rightarrow> bool" where
  "alike m m' \<longleftrightarrow> (\<forall>s t. view s = view t \<longrightarrow> rel_res (m s) (m' t))"

lemma alikeI: "(\<And>s t. view s = view t \<Longrightarrow> rel_res (m s) (m' t)) \<Longrightarrow> alike m m'"
  by (simp add: alike_def)

lemma alikeD:
  assumes "alike m m'" and "view s = view t" and "m s = Inr (s', x)"
  shows "\<exists>t'. m' t = Inr (t', x) \<and> view s' = view t'"
proof -
  have "rel_res (Inr (s', x)) (m' t)" using assms unfolding alike_def by metis
  then show ?thesis by (cases "m' t") (auto simp: rel_res_def)
qed

lemma nth_map_eq: "map f xs = map f ys \<Longrightarrow> f (xs ! k) = f (ys ! k)"
proof (induction xs arbitrary: ys k)
  case (Cons x xs)
  then obtain y zs where "ys = y # zs" "f x = f y" "map f xs = map f zs" by (cases ys) auto
  then show ?case using Cons.IH [of zs] by (cases k) auto
qed simp

lemma view_eqD:
  assumes "view s = view t"
  shows "syms s = syms t" and "cpc s = cpc t" and "final_pass s = final_pass t" and "num_secs s = num_secs t"
    and "bytespertaddr s = bytespertaddr t" and "sec_has (sec s k) = sec_has (sec t k)"
    and "sec_org (sec s k) = sec_org (sec t k)" and "sec_idx (sec s k) = sec_idx (sec t k)"
    and "map nodeps (secs s) = map nodeps (secs t)"
proof -
  show "syms s = syms t" "cpc s = cpc t" "final_pass s = final_pass t" "num_secs s = num_secs t"
    "bytespertaddr s = bytespertaddr t" and m: "map nodeps (secs s) = map nodeps (secs t)"
    using assms by (simp_all add: view_def)
  have n: "nodeps (sec s k) = nodeps (sec t k)" by (rule nth_map_eq [OF m])
  show "sec_org (sec s k) = sec_org (sec t k)" "sec_idx (sec s k) = sec_idx (sec t k)"
    "sec_has (sec s k) = sec_has (sec t k)"
    using arg_cong [OF n, of sec_org] arg_cong [OF n, of sec_idx] arg_cong [OF n, of sec_flags]
    by (auto simp: nodeps_def sec_has_def)
qed

lemma alike_return [intro]: "alike (return x) (return x)"
  by (rule alikeI) (simp add: rel_res_def return_def)

lemma alike_fail [intro]: "alike (fail e) (fail e)"
  by (rule alikeI) (simp add: rel_res_def fail_def)

lemma alike_bind [intro]:
  assumes m: "alike m m'" and f: "\<And>x. alike (f x) (f' x)"
  shows "alike (bind_st m f) (bind_st m' f')"
proof (rule alikeI)
  fix s t assume v: "view s = view t"
  have r: "rel_res (m s) (m' t)" using m v by (simp add: alike_def)
  show "rel_res (bind_st m f s) (bind_st m' f' t)"
  proof (cases "m s")
    case (Inl e)
    then show ?thesis using r by (auto simp: bind_st_def rel_res_def split: sum.splits)
  next
    case (Inr a)
    obtain s' x where a: "a = (s', x)" by fastforce
    then obtain t' where t': "m' t = Inr (t', x)" "view s' = view t'"
      using alikeD [OF m v] Inr by blast
    then show ?thesis using f [of x] Inr a by (simp add: bind_st_def alike_def)
  qed
qed

lemma alike_get:
  assumes "\<And>s t. view s = view t \<Longrightarrow> alike (f s) (f' t)"
  shows "alike (bind_st get f) (bind_st get f')"
  by (rule alikeI) (use assms in \<open>auto simp: bind_st_def get_def alike_def\<close>)

lemma alike_modify:
  assumes "\<And>s t. view s = view t \<Longrightarrow> view (f s) = view (f' t)"
  shows "alike (modify f) (modify f')"
  by (rule alikeI) (use assms in \<open>auto simp: modify_def rel_res_def\<close>)

lemma alike_if [intro]: "(b \<Longrightarrow> alike m m') \<Longrightarrow> (\<not> b \<Longrightarrow> alike n n') \<Longrightarrow> alike (if b then m else n) (if b then m' else n')"
  by simp

lemma view_upd_sym: "view s = view t \<Longrightarrow> view (upd_sym y f s) = view (upd_sym y f t)"
  by (simp add: view_def upd_sym_def)

lemma view_log_all: "view (log_all ms s) = view s"
  by (simp add: view_def log_all_def)

lemma view_general_error: "view (general_error n s) = view s"
  by (simp add: view_def general_error_def)

lemma view_deps: "(\<And>x. nodeps (f x) = nodeps x) \<Longrightarrow> view (upd_sec d f s) = view s"
  by (simp add: view_def upd_sec_def map_upd_same)

lemma view_update_curpc: "view s = view t \<Longrightarrow> view (update_curpc y c pc s) = view (update_curpc y c pc t)"
proof -
  assume v: "view s = view t"
  note e = view_eqD [OF v]
  show ?thesis
    unfolding update_curpc_def e(2) e(6)
    by (cases c; cases "cpc t = Some y") (simp_all add: v view_upd_sym [OF v])
qed

lemma alike_final_errors [intro]: "alike (final_errors ms) (final_errors ms)"
  unfolding final_errors_def by (rule alike_modify) (simp add: view_log_all)

text \<open>An action that reads the state, and depends on it only through the view.\<close>

lemma alike_read:
  assumes "\<And>s t. view s = view t \<Longrightarrow> f s = f t" and "\<And>s. alike (f s) (f s)"
  shows "alike (bind_st get f) (bind_st get f)"
proof (rule alike_get)
  fix s t assume "view s = view t"
  then have "f s = f t" by (rule assms(1))
  then show "alike (f s) (f t)" using assms(2) by simp
qed

lemma alike_insert_dep [intro]:
  "alike (modify (upd_sec d (\<lambda>c. c\<lparr>sec_deps := List.insert i (sec_deps c)\<rparr>)))
     (modify (upd_sec d (\<lambda>c. c\<lparr>sec_deps := List.insert i (sec_deps c)\<rparr>)))"
  by (rule alike_modify) (simp add: view_deps nodeps_def)

lemma alike_update_curpc [intro]: "alike (modify (update_curpc y c pc)) (modify (update_curpc y c pc))"
  by (rule alike_modify) (rule view_update_curpc)

lemma alike_upd_sym [intro]: "alike (modify (upd_sym y f)) (modify (upd_sym y f))"
  by (rule alike_modify) (rule view_upd_sym)

lemma alike_general_error [intro]: "alike (modify (general_error n)) (modify (general_error n))"
  by (rule alike_modify) (simp add: view_general_error)

lemma alike_add_dep [intro]: "alike (add_dep a b) (add_dep a b)"
  unfolding add_dep_def
proof (rule alike_read)
  fix s t assume "view s = view t"
  note v = view_eqD [OF this]
  show "(if num_secs s \<noteq> 0 \<and> a \<noteq> None \<and> a \<noteq> b then
         (case (a, b) of
            (Some i, Some d) \<Rightarrow> modify (upd_sec d (\<lambda>c. c\<lparr>sec_deps := List.insert (sec_idx (sec s i)) (sec_deps c)\<rparr>))
          | _ \<Rightarrow> fail Undefined) else return ())
      = (if num_secs t \<noteq> 0 \<and> a \<noteq> None \<and> a \<noteq> b then
         (case (a, b) of
            (Some i, Some d) \<Rightarrow> modify (upd_sec d (\<lambda>c. c\<lparr>sec_deps := List.insert (sec_idx (sec t i)) (sec_deps c)\<rparr>))
          | _ \<Rightarrow> fail Undefined) else return ())"
    unfolding v(4,8) by (rule refl)
qed (auto split: option.split)

lemma alike_eval_label [intro]: "alike (eval_label y c pc) (eval_label y c pc)"
  unfolding eval_label_def
proof (rule alike_read, goal_cases)
  case (1 s t)
  show ?case unfolding view_eqD(1) [OF 1] by (rule refl)
next
  case (2 s)
  have "alike (bind_st get f) (bind_st get f) \<Longrightarrow>
      alike (if b then bind_st (modify (update_curpc y c pc)) (\<lambda>_. bind_st get f) else return (0, False))
        (if b then bind_st (modify (update_curpc y c pc)) (\<lambda>_. bind_st get f) else return (0, False))" for b f
    by auto
  then show ?case
  proof this
    show "alike (bind_st get (\<lambda>s. let x = sym s y;
              cnst = (case sym_sec x of None \<Rightarrow> False | Some k \<Rightarrow> sec_has (sec s k) UNALLOCATED) \<or> sym_has x ABSLABEL
         in if cnst then bind_st (add_dep c (sym_sec x)) (\<lambda>_. return (sym_pc x, cnst)) else return (sym_pc x, cnst)))
       (bind_st get (\<lambda>s. let x = sym s y;
              cnst = (case sym_sec x of None \<Rightarrow> False | Some k \<Rightarrow> sec_has (sec s k) UNALLOCATED) \<or> sym_has x ABSLABEL
         in if cnst then bind_st (add_dep c (sym_sec x)) (\<lambda>_. return (sym_pc x, cnst)) else return (sym_pc x, cnst)))"
    proof (rule alike_read)
      fix s t assume "view s = view t"
      note v = view_eqD [OF this]
      show "(let x = sym s y;
              cnst = (case sym_sec x of None \<Rightarrow> False | Some k \<Rightarrow> sec_has (sec s k) UNALLOCATED) \<or> sym_has x ABSLABEL
         in if cnst then bind_st (add_dep c (sym_sec x)) (\<lambda>_. return (sym_pc x, cnst)) else return (sym_pc x, cnst))
         = (let x = sym t y;
              cnst = (case sym_sec x of None \<Rightarrow> False | Some k \<Rightarrow> sec_has (sec t k) UNALLOCATED) \<or> sym_has x ABSLABEL
         in if cnst then bind_st (add_dep c (sym_sec x)) (\<lambda>_. return (sym_pc x, cnst)) else return (sym_pc x, cnst))"
        unfolding v(1,6) by (rule refl)
    qed (auto simp: Let_def)
  qed
qed

lemma alike_huge_const [intro]: "alike (eval_huge_const h) (eval_huge_const h)"
  unfolding eval_huge_const_def
proof (rule alike_read, goal_cases)
  case (1 s t)
  show ?case unfolding view_eqD(3,5) [OF 1] by (rule refl)
qed (auto split: option.split)

lemma alike_diff_based [intro]: "alike (diff_based l r lb y c pc) (diff_based l r lb y c pc)"
  unfolding diff_based_def
proof (rule alike_read, goal_cases)
  case (1 s t)
  show ?case unfolding sec_org_of_def view_eqD(1,7) [OF 1] by (rule refl)
qed (auto simp: Let_def)

lemma alike_pcrel_base [intro]: "alike (pcrel_base c b rb) (pcrel_base c b rb)"
  unfolding pcrel_base_def
proof (rule alike_read, goal_cases)
  case (1 s t)
  show ?case unfolding view_eqD(1) [OF 1] by (rule refl)
qed (auto split: prod.split base.split option.split)

lemma alike_try_base [intro]: "alike m m \<Longrightarrow> alike (try_base k m) (try_base k m)"
  by (auto simp: try_base_def)

lemma alike_or_else [intro]: "alike m m \<Longrightarrow> (\<And>b. alike (f b) (f b)) \<Longrightarrow> alike (or_else m f) (or_else m f)"
  unfolding or_else_def by (intro alike_bind alike_if alike_return) simp_all

lemma alike_prod [intro]: "(\<And>a b. x = (a, b) \<Longrightarrow> alike (f a b) (f' a b)) \<Longrightarrow> alike (case x of (a, b) \<Rightarrow> f a b) (case x of (a, b) \<Rightarrow> f' a b)"
  by (cases x) simp

lemma alike_binop_rest:
  assumes "alike (findb n l c pc) (findb n l c pc)" and "alike (findb n r c pc) (findb n r c pc)"
  shows "alike (binop_rest n f l r c pc lv kl rv kr) (binop_rest n f l r c pc lv kl rv kr)"
proof -
  have "alike
      (bind_st get (\<lambda>s. case rb of
             (BASE_OK, Some rsym) \<Rightarrow>
               (if LOCREF (sym s rsym) then bind_st (findb n l c pc) (\<lambda>lb. diff_based lv rv lb rsym c pc)
                else return (lv - rv, False))
           | _ \<Rightarrow> return (lv - rv, False)))
      (bind_st get (\<lambda>s. case rb of
             (BASE_OK, Some rsym) \<Rightarrow>
               (if LOCREF (sym s rsym) then bind_st (findb n l c pc) (\<lambda>lb. diff_based lv rv lb rsym c pc)
                else return (lv - rv, False))
           | _ \<Rightarrow> return (lv - rv, False)))" for rb
  proof (rule alike_read, goal_cases)
    case (1 s t)
    show ?case unfolding view_eqD(1) [OF 1] by (rule refl)
  qed (use assms in \<open>auto split: prod.split base.split option.split\<close>)
  then show ?thesis unfolding binop_rest_def using assms by (auto split: option.split)
qed

lemma alike_eval: "alike (eval n e c pc) (eval n e c pc) \<and> alike (findb n e c pc) (findb n e c pc)"
proof (induction n e rule: fuel_expr_induct)
  case (SYM0 y)
  have "alike (eval 0 (SYM y) c pc) (eval 0 (SYM y) c pc)"
    unfolding eval.simps
  proof (rule alike_read, goal_cases)
    case (1 s t)
    show ?case unfolding view_eqD(1) [OF 1] by (rule refl)
  qed auto
  moreover have "alike (findb 0 (SYM y) c pc) (findb 0 (SYM y) c pc)"
    unfolding findb.simps
  proof (rule alike_bind, goal_cases)
    case (2 x)
    show ?case
    proof (rule alike_read, goal_cases)
      case (1 s t)
      show ?case unfolding view_eqD(1) [OF 1] by (rule refl)
    qed auto
  qed auto
  ultimately show ?case by blast
next
  case (SYM n y)
  have e: "alike (eval n e c pc) (eval n e c pc)" "alike (findb n e c pc) (findb n e c pc)" for e using SYM by blast+
  have "alike (eval (Suc n) (SYM y) c pc) (eval (Suc n) (SYM y) c pc)"
    unfolding eval.simps
  proof (rule alike_read, goal_cases)
    case (1 s t)
    show ?case unfolding view_eqD(1) [OF 1] by (rule refl)
  qed (use e in \<open>auto split: option.split\<close>)
  moreover have "alike (findb (Suc n) (SYM y) c pc) (findb (Suc n) (SYM y) c pc)"
    unfolding findb.simps
  proof (rule alike_bind, goal_cases)
    case (2 x)
    show ?case
    proof (rule alike_read, goal_cases)
      case (1 s t)
      show ?case unfolding view_eqD(1) [OF 1] by (rule refl)
    qed (use e in \<open>auto split: option.split\<close>)
  qed auto
  ultimately show ?case by blast
next
  case (BINOP n f l r)
  then have l: "alike (eval n l c pc) (eval n l c pc)" "alike (findb n l c pc) (findb n l c pc)"
    and r: "alike (eval n r c pc) (eval n r c pc)" "alike (findb n r c pc) (findb n r c pc)" by blast+
  have "alike (eval n (BINOP f l r) c pc) (eval n (BINOP f l r) c pc)"
    unfolding eval_BINOP by (intro alike_bind alike_prod alike_binop_rest l r)
  moreover have "alike (findb n (BINOP f l r) c pc) (findb n (BINOP f l r) c pc)"
  proof (cases "f = ADD \<or> f = SUB")
    case True
    then show ?thesis
    proof
      assume "f = ADD"
      then show ?thesis
        by (simp only: findb.simps)
          (intro alike_bind alike_prod alike_or_else alike_try_base alike_return l r)
    next
      assume "f = SUB"
      then show ?thesis
        by (simp only: findb.simps)
          (intro alike_bind alike_prod alike_or_else alike_try_base alike_if alike_pcrel_base alike_return l r)
    qed
  qed (auto simp: findb_other)
  ultimately show ?case by blast
qed auto

lemma alike_eval_expr [intro]: "alike (eval_expr e c pc) (eval_expr e c pc)"
  and alike_find_base [intro]: "alike (find_base e c pc) (find_base e c pc)"
proof -
  have "alike (\<lambda>s. m (fuel s) s) (\<lambda>s. m (fuel s) s)" if "\<And>n. alike (m n) (m n)" for m :: "nat \<Rightarrow> 'a action"
  proof (rule alikeI)
    fix s t assume v: "view s = view t"
    have "fuel s = fuel t" using view_eqD(1) [OF v] by (simp add: fuel_def)
    then show "rel_res (m (fuel s) s) (m (fuel t) t)" using that v by (simp add: alike_def)
  qed
  note * = this
  show "alike (eval_expr e c pc) (eval_expr e c pc)"
    using * [of "\<lambda>n. eval n e c pc"] alike_eval unfolding eval_expr_def [abs_def] by blast
  show "alike (find_base e c pc) (find_base e c pc)"
    using * [of "\<lambda>n. findb n e c pc"] alike_eval unfolding find_base_def [abs_def] by blast
qed

section \<open>Evaluating twice\<close>

text \<open>The dummy symbol of the current pc, if there is one, stands at the position of the evaluation.\<close>

definition at_position :: "secid option \<Rightarrow> taddr \<Rightarrow> asm \<Rightarrow> bool" where
  "at_position c pc s \<longleftrightarrow> cpc_ok s \<and> (\<forall>y. view (update_curpc y c pc s) = view s)"

lemma at_position_view: "view s = view t \<Longrightarrow> at_position c pc s = at_position c pc t"
proof -
  assume v: "view s = view t"
  have "cpc_ok s = cpc_ok t" using view_eqD(1,2) [OF v] by (simp add: cpc_ok_def)
  then show ?thesis using view_update_curpc [OF v] v by (simp add: at_position_def)
qed

lemma curpc_here:
  "at_position c pc s \<longleftrightarrow> cpc_ok s \<and> (\<forall>k y. c = Some k \<longrightarrow> cpc s = Some y \<longrightarrow>
     (if sec_has (sec s k) ABSOLUTE then set_flag ABSLABEL else clear_flag ABSLABEL)
       (sym s y\<lparr>sym_sec := Some k, sym_pc := pc\<rparr>) = sym s y)"
proof -
  have "view (upd_sym y f s) = view s \<longleftrightarrow> f (sym s y) = sym s y" if "y < length (syms s)" for y f
    using that by (auto simp: view_def list_update_same_conv)
  then have "(view (update_curpc y c pc s) = view s) \<longleftrightarrow> (\<forall>k. c = Some k \<longrightarrow> cpc s = Some y \<longrightarrow>
     (if sec_has (sec s k) ABSOLUTE then set_flag ABSLABEL else clear_flag ABSLABEL)
       (sym s y\<lparr>sym_sec := Some k, sym_pc := pc\<rparr>) = sym s y)" if "cpc_ok s" for y
    using that by (auto simp: update_curpc_def cpc_ok_def split: option.split)
  then show ?thesis by (auto simp: at_position_def)
qed

lemma at_position_set:
  assumes "at_position c pc s" and "sym_type (sym s y) = EXPRESSION"
  shows "at_position c pc (upd_sym y (set_flag f) s)"
proof -
  have "cpc s \<noteq> Some y" using assms by (auto simp: at_position_def cpc_ok_def)
  moreover have "cpc_ok (upd_sym y (set_flag f) s)" using assms by (simp add: at_position_def cpc_ok_set)
  ultimately show ?thesis using assms(1) unfolding curpc_here by (auto simp: nth_upd)
qed

lemma view_ineval:
  assumes "\<not> sym_has (sym s y) INEVAL" and "view (upd_sym y (set_flag INEVAL) s) = view s1"
  shows "view (upd_sym y (clear_flag INEVAL) s1) = view s"
proof -
  have e: "syms s1 = (syms s)[y := set_flag INEVAL (sym s y)]"
    and r: "map nodeps (secs s1) = map nodeps (secs s)" "cpc s1 = cpc s" "final_pass s1 = final_pass s"
      "num_secs s1 = num_secs s" "bytespertaddr s1 = bytespertaddr s"
    using view_eqD [OF assms(2)] by simp_all
  have "(syms s1)[y := clear_flag INEVAL (sym s1 y)] = syms s"
  proof (cases "y < length (syms s)")
    case True
    then have "clear_flag INEVAL (set_flag INEVAL (sym s y)) = sym s y"
      using assms(1) by (simp add: clear_flag_def set_flag_def sym_has_def flags_restore)
    then show ?thesis using True by (simp add: e)
  qed (simp add: e list_update_beyond)
  then show ?thesis by (simp add: view_def r)
qed

interpretation vw: evaluation_frame c pc "at_position c pc" "\<lambda>s s'. view s' = view s"
proof
  show "view s' = view s \<Longrightarrow> at_position c pc s \<Longrightarrow> at_position c pc s'" for s s'
    using at_position_view by blast
  show "at_position c pc s \<Longrightarrow> view (log_all ms s) = view s" for s ms by (simp add: view_log_all)
  show "at_position c pc s \<Longrightarrow> view (update_curpc y c pc s) = view s" for s y by (simp add: at_position_def)
  show "view (upd_sec d (\<lambda>x. x\<lparr>sec_deps := List.insert i (sec_deps x)\<rparr>) s) = view s" for s d i
    by (rule view_deps) (simp add: nodeps_def)
  show "\<not> sym_has (sym s y) INEVAL \<Longrightarrow> view s1 = view (upd_sym y (set_flag INEVAL) s) \<Longrightarrow>
      view (upd_sym y (clear_flag INEVAL) s1) = view s" for s s1 y
    by (rule view_ineval) simp_all
  show "at_position c pc s \<Longrightarrow> sym_type (sym s y) = EXPRESSION \<Longrightarrow> at_position c pc (upd_sym y (set_flag INEVAL) s)"
    for s y by (rule at_position_set)
qed simp_all

lemma eval_expr_view: "at_position c pc s \<Longrightarrow> eval_expr e c pc s = Inr (s', v) \<Longrightarrow> view s' = view s"
  using vw.eval_keeps unfolding eval_expr_def by blast

lemma find_base_view: "at_position c pc s \<Longrightarrow> find_base e c pc s = Inr (s', b) \<Longrightarrow> view s' = view s"
  using vw.findb_keeps unfolding find_base_def by blast

section \<open>Actions made of evaluations\<close>

text \<open>
  What holds for evaluations holds for the actions that combine them with error messages: the
  relation \<open>F\<close> between the states before and after.
\<close>

locale action_frame = evaluation_frame +
  assumes F_error: "I s \<Longrightarrow> F s (general_error n s)"
begin

definition keeps :: "'a action \<Rightarrow> bool" where
  "keeps m \<longleftrightarrow> (\<forall>s s' x. I s \<longrightarrow> m s = Inr (s', x) \<longrightarrow> F s s')"

lemma keepsD: "keeps m \<Longrightarrow> I s \<Longrightarrow> m s = Inr (s', x) \<Longrightarrow> F s s'"
  unfolding keeps_def by blast

lemma keeps_basic: "keeps (return x)" "keeps (fail e)" "keeps get"
  by (auto simp: keeps_def return_Inr get_Inr F_refl)

lemma keeps_eval: "keeps (eval_expr e c pc)" "keeps (find_base e c pc)"
  by (auto simp: keeps_def eval_expr_def find_base_def dest: eval_keeps findb_keeps)

lemma keeps_modify: "(\<And>s. I s \<Longrightarrow> F s (f s)) \<Longrightarrow> keeps (modify f)"
  by (simp add: keeps_def modify_Inr)

lemma keeps_error: "keeps (modify (general_error n))"
  by (rule keeps_modify) (rule F_error)

lemma keeps_bind:
  assumes "keeps m" and "\<And>x. keeps (f x)"
  shows "keeps (bind_st m f)"
  unfolding keeps_def
proof (intro allI impI)
  fix s s' y assume s: "I s" and e: "bind_st m f s = Inr (s', y)"
  obtain s1 x where 1: "m s = Inr (s1, x)" "f x s1 = Inr (s', y)" using e by (auto simp: bind_st_Inr)
  have f1: "F s s1" by (rule keepsD [OF assms(1) s 1(1)])
  then have "F s1 s'" using F_I s keepsD [OF assms(2) _ 1(2)] by blast
  then show "F s s'" using f1 F_trans by blast
qed

lemma keeps_if: "(b \<Longrightarrow> keeps m) \<Longrightarrow> (\<not> b \<Longrightarrow> keeps n) \<Longrightarrow> keeps (if b then m else n)"
  by simp

lemma keeps_prod: "(\<And>a b. keeps (h a b)) \<Longrightarrow> keeps (case x of (a, b) \<Rightarrow> h a b)"
  by (cases x) simp

lemma keeps_option: "keeps m \<Longrightarrow> (\<And>a. keeps (h a)) \<Longrightarrow> keeps (case x of None \<Rightarrow> m | Some a \<Rightarrow> h a)"
  by (cases x) simp_all

lemma keeps_get: "(\<And>s. I s \<Longrightarrow> keeps (f s)) \<Longrightarrow> keeps (bind_st get f)"
  by (auto simp: keeps_def action_Inr)

lemmas keeps_rules = keeps_bind keeps_prod keeps_if keeps_option keeps_basic keeps_eval keeps_error

end

interpretation frv: action_frame c pc cpc_ok frame
  by unfold_locales (auto simp: frame_def)

interpretation vwf: action_frame c pc "at_position c pc" "\<lambda>s s'. view s' = view s"
  by unfold_locales (simp add: view_general_error)

end
