(* ===== verification/Atoms.thy ===== *)
theory Atoms
  imports Cpuselect Memval Evalview
begin

text \<open>
  Atoms, the pieces a section is made of (\<open>src/atom.c\<close>, \<open>src/atom.h\<close>), with the alignment of the
  program counter (\<open>src/supp.c\<close>). An atom carries its contents, its alignment, the size it had
  when it was last looked at, how often that changed late, and its source line. The fields for
  the listing are left out, and so is the link to the next atom: a section is a list of atoms.
\<close>

section \<open>Data\<close>

definition MAXPADSIZE :: nat where "MAXPADSIZE = 8"

record sblock =
  sb_space :: nat
  space_exp :: expr
  sb_size :: nat
  sb_fill :: "u8 list"
  fill_exp :: "expr option"
  sb_relocs :: rlist
  maxalignbytes :: taddr
  sb_flags :: u32

definition SPC_UNINITIALIZED :: u32 where "SPC_UNINITIALIZED = 1"
definition SPC_DATABSS :: u32 where "SPC_DATABSS = 2"

record defblock =
  bitsize :: nat
  def_op :: operand

record reloffs =
  offset :: expr
  fillval :: "expr option"

datatype pexp_type = PEXP_HEX | PEXP_SDEC | PEXP_UDEC | PEXP_BIN | PEXP_ASC

record printexpr =
  print_exp :: expr
  pexp_type :: pexp_type
  pexp_size :: nat

record assertion =
  assert_exp :: "expr option"
  expstr :: string
  msgstr :: "string option"

record aoutnlist =
  nl_name :: "string option"
  nl_type :: int
  nl_other :: int
  nl_desc :: int
  nl_value :: "expr option"

datatype content = VASMDEBUG | LABEL symid | DATA dblock | INSTRUCTION instr | SPACE sblock | DATADEF defblock
  | LINE int | OPTS cpuopts | PRINTTEXT string | PRINTEXPR printexpr | ROFFS reloffs | RORG taddr | RORGEND
  | ASSERT assertion | NLIST aoutnlist

record atom =
  content :: content
  align :: taddr
  lastsize :: nat
  changes :: nat
  atom_src :: "nat option"
  atom_line :: int

definition MAXSIZECHANGES :: nat where "MAXSIZECHANGES = 5"

section \<open>Alignment\<close>

text \<open>\<open>%\<close> on signed operands truncates towards zero.\<close>

definition balign :: "taddr \<Rightarrow> taddr \<Rightarrow> taddr" where
  "balign addr a =
     (if a \<noteq> 0 then (let m = word_of_int (sint addr smod sint a) in if m \<noteq> 0 then a - m else 0) else 0)"

definition palign :: "taddr \<Rightarrow> nat \<Rightarrow> taddr" where
  "palign addr a = balign addr (push_bit a 1)"

definition pcalign :: "atom \<Rightarrow> taddr \<Rightarrow> taddr" where
  "pcalign a pc =
     (let n = balign pc (align a)
      in pc + (case content a of
                 SPACE sb \<Rightarrow> if maxalignbytes sb \<noteq> 0 \<and> maxalignbytes sb <s n then 0 else n
               | _ \<Rightarrow> n))"

section \<open>Sizes\<close>

text \<open>Relocations for the fill pattern of a space, one for each repetition.\<close>

fun fill_relocs :: "nat \<Rightarrow> nat \<Rightarrow> sblock \<Rightarrow> symid \<Rightarrow> taddr \<Rightarrow> rlist action" where
  "fill_relocs 0 i sb y fill = return (sb_relocs sb)"
| "fill_relocs (Suc n) i sb y fill =
     bind_st (add_extnreloc (sb_relocs sb) y fill REL_ABS 0 (sb_size sb * 8) (sb_size sb * i)) (\<lambda>(rl, _).
       fill_relocs n (i + 1) (sb\<lparr>sb_relocs := rl\<rparr>) y fill)"

definition space_fill :: "sblock \<Rightarrow> nat \<Rightarrow> expr \<Rightarrow> secid option \<Rightarrow> taddr \<Rightarrow> sblock action" where
  "space_fill sb space fe c pc =
     (if sb_size sb \<le> 4 then
        bind_st (eval_expr fe c pc) (\<lambda>(fill, cnst).
        bind_st
          (if cnst then return None
           else bind_st (find_base fe c pc) (\<lambda>(bt, base).
             if bt = BASE_ILLEGAL then bind_st (modify (general_error 38)) (\<lambda>_. return base) else return base)) (\<lambda>base.
        case copy_cpu_taddr False (sb_fill sb) fill (sb_size sb) of
          Inl x \<Rightarrow> fail x
        | Inr pat \<Rightarrow>
            (let sb = sb\<lparr>sb_fill := pat\<rparr>
             in case base of
                  None \<Rightarrow> return sb
                | Some y \<Rightarrow>
                    if sb_relocs sb \<noteq> [] then return sb
                    else if sb_size sb \<noteq> 0 then
                      bind_st (fill_relocs space 0 sb y fill) (\<lambda>rl. return (sb\<lparr>sb_relocs := rl\<rparr>))
                    else
                      bind_st (add_extnreloc [] y 0 REL_NONE 0 0 0) (\<lambda>(rl, _).
                      bind_st (modify (upd_sym y (set_flag EXPORT))) (\<lambda>_. return (sb\<lparr>sb_relocs := rl\<rparr>))))))
      else bind_st (modify (general_error 30)) (\<lambda>_. return sb))"

text \<open>The new contents of the space and its size.\<close>

definition space_size :: "sblock \<Rightarrow> secid option \<Rightarrow> taddr \<Rightarrow> (sblock \<times> nat) action" where
  "space_size sb c pc =
     bind_st (eval_expr (space_exp sb) c pc) (\<lambda>(space, cnst). bind_st get (\<lambda>s.
     bind_st
       (if cnst \<or> \<not> final_pass s then return (sb\<lparr>sb_space := unat space\<rparr>)
        else bind_st (modify (general_error 30)) (\<lambda>_. return sb)) (\<lambda>sb.
     bind_st
       (case fill_exp sb of
          Some fe \<Rightarrow> if final_pass s then space_fill sb (unat space) fe c pc else return sb
        | None \<Rightarrow> return sb) (\<lambda>sb.
     return (sb, sb_size sb * unat space)))))"

definition roffs_size :: "reloffs \<Rightarrow> secid \<Rightarrow> taddr \<Rightarrow> nat action" where
  "roffs_size r c pc =
     bind_st (eval_expr (offset r) (Some c) pc) (\<lambda>(offs, _). bind_st get (\<lambda>s.
       let e = sec_org (sec s c) + offs in return (if pc < e then unat (e - pc) else 0)))"

definition atom_size :: "cpuconf \<Rightarrow> atom \<Rightarrow> secid \<Rightarrow> taddr \<Rightarrow> (atom \<times> nat) action" where
  "atom_size cpu p c pc =
     (case content p of
        DATA db \<Rightarrow> return (p, db_size db)
      | INSTRUCTION ip \<Rightarrow> bind_st (instruction_size cpu ip (Some c) pc) (\<lambda>n. return (p, n))
      | SPACE sb \<Rightarrow> bind_st (space_size sb (Some c) pc) (\<lambda>(sb, n). return (p\<lparr>content := SPACE sb\<rparr>, n))
      | DATADEF d \<Rightarrow> return (p, (bitsize d + 7) div 8)
      | ROFFS r \<Rightarrow> bind_st (roffs_size r c pc) (\<lambda>n. return (p, n))
      | _ \<Rightarrow> return (p, 0))"

section \<open>New atoms\<close>

text \<open>
  Memory the code leaves uninitialized, such as the pattern of a space with a fill expression, is
  zero here; it is written before it is read.
\<close>

definition new_atom :: "content \<Rightarrow> taddr \<Rightarrow> atom" where
  "new_atom t a = \<lparr>content = t, align = a, lastsize = 0, changes = 0, atom_src = None, atom_line = 0\<rparr>"

definition new_sblock :: "u32 \<Rightarrow> expr \<Rightarrow> nat \<Rightarrow> expr option \<Rightarrow> sblock" where
  "new_sblock init space sz fill =
     \<lparr>sb_space = 0, space_exp = space, sb_size = sz,
      sb_fill = replicate MAXPADSIZE (case fill of None \<Rightarrow> ucast init | Some _ \<Rightarrow> 0), fill_exp = fill,
      sb_relocs = [], maxalignbytes = 0, sb_flags = 0\<rparr>"

definition new_dblock :: dblock where
  "new_dblock = \<lparr>db_size = 0, db_data = [], db_relocs = []\<rparr>"

definition new_inst_atom :: "taddr \<Rightarrow> instr \<Rightarrow> atom" where
  "new_inst_atom inst_alignment p = new_atom (INSTRUCTION p) inst_alignment"

definition new_data_atom :: "dblock \<Rightarrow> taddr \<Rightarrow> atom" where
  "new_data_atom p a = new_atom (DATA p) a"

definition new_label_atom :: "symid \<Rightarrow> atom" where
  "new_label_atom y = new_atom (LABEL y) 1"

definition new_space_atom :: "u32 \<Rightarrow> expr \<Rightarrow> nat \<Rightarrow> expr option \<Rightarrow> atom" where
  "new_space_atom init space sz fill = new_atom (SPACE (new_sblock init space sz fill)) 1"

definition new_datadef_atom :: "nat \<Rightarrow> operand \<Rightarrow> atom" where
  "new_datadef_atom bits op = new_atom (DATADEF \<lparr>bitsize = bits, def_op = op\<rparr>) 1"

definition new_srcline_atom :: "int \<Rightarrow> atom" where
  "new_srcline_atom n = new_atom (LINE n) 1"

definition new_opts_atom :: "cpuopts \<Rightarrow> atom" where
  "new_opts_atom v = new_atom (OPTS v) 1"

definition new_text_atom :: "string option \<Rightarrow> atom" where
  "new_text_atom txt = new_atom (PRINTTEXT (case txt of Some t \<Rightarrow> t | None \<Rightarrow> [char_of (10::nat)])) 1"

definition new_expr_atom :: "expr option \<Rightarrow> pexp_type \<Rightarrow> int \<Rightarrow> stop + atom" where
  "new_expr_atom e t sz =
     (case e of
        None \<Rightarrow> Inl Ierror
      | Some e \<Rightarrow> if sz < 1 \<or> 64 < sz then Inl Ierror
          else Inr (new_atom (PRINTEXPR \<lparr>print_exp = e, pexp_type = t, pexp_size = nat sz\<rparr>) 1))"

definition new_roffs_atom :: "expr \<Rightarrow> expr option \<Rightarrow> atom" where
  "new_roffs_atom offs fill = new_atom (ROFFS \<lparr>offset = offs, fillval = fill\<rparr>) 1"

definition new_rorg_atom :: "taddr \<Rightarrow> atom" where
  "new_rorg_atom a = new_atom (RORG a) 1"

definition new_rorgend_atom :: atom where
  "new_rorgend_atom = new_atom RORGEND 1"

definition new_assert_atom :: "expr option \<Rightarrow> string \<Rightarrow> string option \<Rightarrow> atom" where
  "new_assert_atom e txt msg = new_atom (ASSERT \<lparr>assert_exp = e, expstr = txt, msgstr = msg\<rparr>) 1"

definition new_nlist_atom :: "string option \<Rightarrow> int \<Rightarrow> int \<Rightarrow> int \<Rightarrow> expr option \<Rightarrow> atom" where
  "new_nlist_atom n t ot d v =
     new_atom (NLIST \<lparr>nl_name = n, nl_type = t, nl_other = ot, nl_desc = d, nl_value = v\<rparr>) 1"

text \<open>A copy has no source; its instruction or data definition is a value of its own here.\<close>

definition clone_atom :: "atom \<Rightarrow> atom" where
  "clone_atom a = a\<lparr>atom_src := None, atom_line := 0\<rparr>"

section \<open>Relocations of an atom\<close>

definition get_relocs :: "atom \<Rightarrow> rlist" where
  "get_relocs a = (case content a of DATA db \<Rightarrow> db_relocs db | SPACE sb \<Rightarrow> sb_relocs sb | _ \<Rightarrow> [])"

text \<open>The second result is whether the value could be stored.\<close>

definition patch_nreloc :: "atom \<Rightarrow> int \<times> nreloc \<Rightarrow> taddr \<Rightarrow> bool \<Rightarrow> (atom \<times> bool) action" where
  "patch_nreloc a rl val be =
     (if \<not> is_nreloc (fst rl) then
        bind_st (modify (unsupp_reloc_error (fst rl))) (\<lambda>_. return (a, False))
      else if reloc_field_overflow (fst rl) (rel_size (snd rl)) val then
        bind_st (modify (output_err 12)) (\<lambda>_. return (a, False))
      else
        (case content a of
           DATA db \<Rightarrow>
             (case patch_bytes be (db_data db) (byteoffset (snd rl)) (snd rl) val of
                Inl x \<Rightarrow> fail x
              | Inr d \<Rightarrow> return (a\<lparr>content := DATA (db\<lparr>db_data := d\<rparr>)\<rparr>, True))
         | SPACE sb \<Rightarrow>
             (case patch_bytes be (sb_fill sb) 0 (snd rl) val of
                Inl x \<Rightarrow> fail x
              | Inr d \<Rightarrow> return (a\<lparr>content := SPACE (sb\<lparr>sb_fill := d\<rparr>)\<rparr>, True))
         | _ \<Rightarrow> return (a, True)))"

end
