(* ===== verification/Sections.thy ===== *)
theory Sections
  imports Atoms
begin

text \<open>
  The program being assembled: its sections with their atoms, the current section, the stack of
  sections, and the operations on them in \<open>src/vasm.c\<close> and \<open>src/atom.c\<close>. Sections are never
  freed, so a section keeps its index in the store; \<open>order\<close> is the linked list that starts at
  \<open>first_section\<close>. The container for atoms that come before the first section is a section of
  the store that is not in the list. \<open>symlist\<close> is the linked list of symbols from
  \<open>first_symbol\<close>, and \<open>symhash\<close> their hash table (\<open>src/symbol.c\<close>).
\<close>

section \<open>The program\<close>

record prog =
  core :: asm
  cpu :: cpuconf
  atoms :: "secid \<Rightarrow> atom list"
  order :: "secid list"
  last_section :: "secid option"
  container :: secid
  current :: "secid option"
  secstack :: "secid list"
  source :: "(nat \<times> int) option"
  org_count :: nat
  offset_id :: nat
  sec_padding :: taddr
  space_init :: u32
  unnamed_sections :: bool
  secname_attr :: bool
  defsectname :: "string option"
  defsecttype :: "string option"
  defsectorg :: taddr
  symlist :: "symid list"
  symhash :: "symid hashtable"
  saved_symbol :: "symid option"
  last_global_label :: string
  nocase :: bool
  debug :: bool

definition lift :: "'a action \<Rightarrow> (prog, 'a) step" where
  "lift m p = (case m (core p) of Inl e \<Rightarrow> Inl e | Inr (s, x) \<Rightarrow> Inr (p\<lparr>core := s\<rparr>, x))"

definition error :: "nat \<Rightarrow> (prog, unit) step" where
  "error n = modify (\<lambda>p. p\<lparr>core := general_error n (core p)\<rparr>)"

definition upd_section :: "secid \<Rightarrow> (sect \<Rightarrow> sect) \<Rightarrow> (prog, unit) step" where
  "upd_section c f = modify (\<lambda>p. p\<lparr>core := upd_sec c f (core p)\<rparr>)"

definition put_atoms :: "secid \<Rightarrow> atom list \<Rightarrow> (prog, unit) step" where
  "put_atoms c as = modify (\<lambda>p. p\<lparr>atoms := (atoms p)(c := as)\<rparr>)"

abbreviation psec :: "prog \<Rightarrow> secid \<Rightarrow> sect" where
  "psec p c \<equiv> sec (core p) c"

section \<open>Adding atoms\<close>

definition same_line_label :: "atom list \<Rightarrow> atom \<Rightarrow> bool" where
  "same_line_label as a \<longleftrightarrow> as \<noteq> [] \<and>
     (case content (last as) of LABEL _ \<Rightarrow> True | _ \<Rightarrow> False) \<and> atom_line (last as) = atom_line a \<and>
     (case content a of INSTRUCTION _ \<Rightarrow> True | DATADEF _ \<Rightarrow> True | SPACE _ \<Rightarrow> True | _ \<Rightarrow> False)"

definition internal_add_atom :: "secid \<Rightarrow> atom \<Rightarrow> (prog, unit) step" where
  "internal_add_atom c a =
     bind_st get (\<lambda>p.
       let a = a\<lparr>changes := 0, atom_src := map_option fst (source p),
                 atom_line := (case source p of Some (_, n) \<Rightarrow> n | None \<Rightarrow> 0)\<rparr>;
           as = atoms p c;
           as = (if same_line_label as a then as[length as - 1 := (last as)\<lparr>align := align a\<rparr>] else as);
           pc = pcalign a (sec_pc (psec p c))
       in bind_st (upd_section c (\<lambda>x. x\<lparr>sec_pc := pc\<rparr>)) (\<lambda>_.
          bind_st (lift (atom_size (cpu p) a c pc)) (\<lambda>(a, n).
          bind_st (put_atoms c (as @ [a\<lparr>lastsize := n\<rparr>])) (\<lambda>_.
            upd_section c (\<lambda>x. x\<lparr>sec_pc := pc + of_nat n,
              sec_align := (if sec_align x <s align a then align a else sec_align x)\<rparr>)))))"

definition add_or_save_atom :: "atom \<Rightarrow> (prog, unit) step" where
  "add_or_save_atom a = bind_st get (\<lambda>p. internal_add_atom (case current p of Some c \<Rightarrow> c | None \<Rightarrow> container p) a)"

text \<open>\<open>cpu_opts_init\<close> with a section; without one it uses the current section, if there is one.\<close>

definition cpu_opts_init :: "secid option \<Rightarrow> (prog, unit) step" where
  "cpu_opts_init c = bind_st get (\<lambda>p.
     case (case c of Some k \<Rightarrow> Some k | None \<Rightarrow> current p) of
       Some k \<Rightarrow> internal_add_atom k (new_opts_atom (current_opts (cpu p)))
     | None \<Rightarrow> return ())"

section \<open>Finding and making sections\<close>

definition find_section :: "string \<Rightarrow> string \<Rightarrow> prog \<Rightarrow> secid option" where
  "find_section name attr p =
     find (\<lambda>c. sec_name (psec p c) = name \<and> (secname_attr p \<longrightarrow> sec_attr (psec p c) = attr)) (order p)"

fun name_from_attr :: "string \<Rightarrow> string" where
  "name_from_attr [] = []"
| "name_from_attr (a # as) =
     (if a = CHR ''c'' then ''text'' else if a = CHR ''d'' then ''data'' else if a = CHR ''u'' then ''bss''
      else name_from_attr as)"

definition new_sect :: "string \<Rightarrow> string \<Rightarrow> taddr \<Rightarrow> u8 list \<Rightarrow> int \<Rightarrow> nat \<Rightarrow> sect" where
  "new_sect name attr a pad padbytes i =
     \<lparr>sec_name = name, sec_attr = attr, sec_align = a, sec_pad = pad, sec_padbytes = padbytes, sec_flags = 0,
      sec_memattr = 0, sec_org = 0, sec_pc = 0, sec_rorg_pc = 0, sec_saved_pc = 0, sec_idx = i, sec_deps = []\<rparr>"

text \<open>A section is linked behind the last one; if that is not in the list any more, it is not in it either.\<close>

definition link_section :: "secid \<Rightarrow> prog \<Rightarrow> prog" where
  "link_section c p =
     p\<lparr>order := (case last_section p of
                   None \<Rightarrow> [c]
                 | Some l \<Rightarrow> if l \<in> set (order p) then order p @ [c] else order p),
       last_section := Some c,
       atoms := (atoms p)(c := atoms p (container p), container p := [])\<rparr>"

definition new_section :: "string \<Rightarrow> string \<Rightarrow> taddr \<Rightarrow> (prog, secid) step" where
  "new_section name attr a = bind_st get (\<lambda>p.
     let name = (if unnamed_sections p then name_from_attr attr else name)
     in case find_section name attr p of
          Some c \<Rightarrow> return c
        | None \<Rightarrow>
            (case (if sec_padding p \<noteq> 0 then make_padding False (sec_padding p) (replicate MAXPADSIZE 0) 64
                   else Inr (replicate MAXPADSIZE 0, 1)) of
               Inl e \<Rightarrow> fail e
             | Inr (pad, padbytes) \<Rightarrow>
                 let s = core p; c = length (secs s)
                 in bind_st (modify (\<lambda>p. link_section c
                      (p\<lparr>core := s\<lparr>secs := secs s @ [new_sect name attr a pad padbytes (num_secs s)],
                                    num_secs := num_secs s + 1\<rparr>\<rparr>))) (\<lambda>_. return c)))"

text \<open>Numbers printed by \<open>%lu\<close> and \<open>%llx\<close>, and padded with zeros to a width.\<close>

definition digit_char :: "nat \<Rightarrow> char" where
  "digit_char d = char_of (if d < 10 then 48 + d else 87 + d)"

fun digits_of :: "nat \<Rightarrow> nat \<Rightarrow> string" where
  "digits_of b n = (if n < b \<or> b < 2 then [digit_char n] else digits_of b (n div b) @ [digit_char (n mod b)])"

declare digits_of.simps [simp del]

definition zero_padded :: "nat \<Rightarrow> string \<Rightarrow> string" where
  "zero_padded w s = replicate (w - length s) (CHR ''0'') @ s"

definition new_org :: "taddr \<Rightarrow> (prog, secid) step" where
  "new_org a =
     bind_st (modify (\<lambda>p. p\<lparr>org_count := org_count p + 1\<rparr>)) (\<lambda>_. bind_st get (\<lambda>p.
     bind_st (new_section (''org'' @ zero_padded 4 (digits_of 10 (org_count p)) @ '':'' @ digits_of 16 (unat a)) ''acrwx'' 1) (\<lambda>c.
     bind_st (upd_section c (\<lambda>x. set_sec_flag ABSOLUTE (x\<lparr>sec_org := a, sec_pc := a\<rparr>))) (\<lambda>_. return c))))"

section \<open>The current section\<close>

definition occupies :: "atom \<Rightarrow> bool" where
  "occupies a \<longleftrightarrow> (case content a of
      LABEL _ \<Rightarrow> True | DATA _ \<Rightarrow> True | INSTRUCTION _ \<Rightarrow> True | SPACE _ \<Rightarrow> True | DATADEF _ \<Rightarrow> True | _ \<Rightarrow> False)"

text \<open>Taking a section out of the list; removing the first one leaves \<open>last_section\<close> as it is.\<close>

definition unlink_section :: "secid \<Rightarrow> (prog, unit) step" where
  "unlink_section os = bind_st get (\<lambda>p.
     case order p of
       [] \<Rightarrow> fail Ierror
     | f # rest \<Rightarrow>
         if f = os then modify (\<lambda>p. p\<lparr>order := rest\<rparr>)
         else if os \<notin> set rest then fail Ierror
         else modify (\<lambda>p. p\<lparr>last_section := (if last_section p = Some os then Some (last (takeWhile (\<lambda>c. c \<noteq> os) (order p))) else last_section p),
                            order := remove1 os (order p)\<rparr>))"

text \<open>
  The label is the last atom of section \<open>cs\<close>. It is found in the section of its symbol only if
  that is \<open>cs\<close>.
\<close>

definition move_label_to_sec :: "secid \<Rightarrow> atom \<Rightarrow> secid \<Rightarrow> (prog, bool) step" where
  "move_label_to_sec cs lab ns = bind_st get (\<lambda>p.
     case content lab of
       LABEL y \<Rightarrow>
         (case sym_sec (sym (core p) y) of
            None \<Rightarrow> fail Undefined
          | Some os \<Rightarrow>
              if sec_flags (psec p os) AND (LABELS_ARE_LOCAL OR ABSOLUTE) \<noteq> sec_flags (psec p ns) AND (LABELS_ARE_LOCAL OR ABSOLUTE)
              then bind_st (error 82) (\<lambda>_. return False)
              else if os \<noteq> cs then fail Ierror
              else
                bind_st (put_atoms os (butlast (atoms p os))) (\<lambda>_.
                bind_st (upd_section ns (set_sec_flag HAS_SYMBOLS)) (\<lambda>_.
                bind_st (modify (\<lambda>p. p\<lparr>core := upd_sym y (\<lambda>x. x\<lparr>sym_sec := Some ns, sym_pc := sec_pc (psec p ns)\<rparr>) (core p)\<rparr>)) (\<lambda>_.
                bind_st (internal_add_atom ns lab) (\<lambda>_.
                bind_st (if list_ex occupies (butlast (atoms p os)) then return () else unlink_section os) (\<lambda>_.
                  return True))))))
     | _ \<Rightarrow> fail Ierror)"

text \<open>
  A label stands on the line of the directive if it comes from the current source. Without a
  current source the code would follow a NULL pointer for a label that has none either.
\<close>

definition set_section :: "secid option \<Rightarrow> (prog, unit) step" where
  "set_section c = bind_st get (\<lambda>p.
     if current p = c then return ()
     else
       bind_st
         (case c of
            Some k \<Rightarrow> if sec_has (psec p k) UNALLOCATED then return () else cpu_opts_init (Some k)
          | None \<Rightarrow> return ()) (\<lambda>_.
       bind_st
         (case (c, current p) of
            (Some k, Some cs) \<Rightarrow> bind_st get (\<lambda>p.
              if atoms p cs = [] then return ()
              else let a = last (atoms p cs)
                in case content a of
                     LABEL _ \<Rightarrow>
                       if atom_src a \<noteq> map_option fst (source p) then return ()
                       else (case source p of
                          None \<Rightarrow> fail Undefined
                        | Some (_, n) \<Rightarrow>
                            if atom_line a = n then
                              bind_st (move_label_to_sec cs a k) (\<lambda>moved. if moved then error 83 else return ())
                            else return ())
                   | _ \<Rightarrow> return ())
          | _ \<Rightarrow> return ()) (\<lambda>_.
       modify (\<lambda>p. p\<lparr>current := c\<rparr>))))"

definition switch_offset_section :: "string option \<Rightarrow> taddr \<Rightarrow> (prog, unit) step" where
  "switch_offset_section name offs =
     bind_st
       (case name of
          Some n \<Rightarrow> return n
        | None \<Rightarrow>
            bind_st (modify (\<lambda>p. if offs \<noteq> - 1 then p\<lparr>offset_id := offset_id p + 1\<rparr> else p)) (\<lambda>_.
            bind_st get (\<lambda>p. return (''OFFSET'' @ zero_padded 6 (digits_of 10 (offset_id p)))))) (\<lambda>n.
     bind_st (new_section n ''u'' 1) (\<lambda>c.
     bind_st (upd_section c (set_sec_flag UNALLOCATED)) (\<lambda>_.
     bind_st (if offs \<noteq> - 1 then upd_section c (\<lambda>x. x\<lparr>sec_org := offs, sec_pc := offs\<rparr>) else return ()) (\<lambda>_.
       set_section (Some c)))))"

definition default_section :: "(prog, secid option) step" where
  "default_section = bind_st get (\<lambda>p.
     case (current p, defsecttype p) of
       (None, Some t) \<Rightarrow>
         bind_st (case defsectname p of Some n \<Rightarrow> new_section n t 1 | None \<Rightarrow> new_org (defsectorg p)) (\<lambda>c.
         bind_st (set_section (Some c)) (\<lambda>_. return (Some c)))
     | (c, _) \<Rightarrow> return c)"

definition add_atom :: "secid option \<Rightarrow> atom \<Rightarrow> (prog, unit) step" where
  "add_atom c a =
     bind_st (case c of Some k \<Rightarrow> return (Some k) | None \<Rightarrow> default_section) (\<lambda>c.
       case c of None \<Rightarrow> error 3 | Some k \<Rightarrow> internal_add_atom k a)"

definition SECSTACKSIZE :: nat where "SECSTACKSIZE = 64"

definition push_section :: "(prog, unit) step" where
  "push_section = bind_st get (\<lambda>p.
     case current p of
       None \<Rightarrow> error 3
     | Some c \<Rightarrow> if length (secstack p) < SECSTACKSIZE then modify (\<lambda>p. p\<lparr>secstack := c # secstack p\<rparr>) else error 76)"

definition pop_section :: "(prog, secid option) step" where
  "pop_section = bind_st get (\<lambda>p.
     bind_st
       (case secstack p of
          [] \<Rightarrow> error 77
        | c # st \<Rightarrow> bind_st (modify (\<lambda>p. p\<lparr>secstack := st\<rparr>)) (\<lambda>_. set_section (Some c))) (\<lambda>_.
     bind_st get (\<lambda>p. return (current p))))"

section \<open>Relocated origins\<close>

definition reset_rorg :: "secid \<Rightarrow> (prog, unit) step" where
  "reset_rorg c =
     bind_st (add_atom (Some c) new_rorgend_atom) (\<lambda>_.
     upd_section c (\<lambda>x.
       let x = (if sec_has x PREVABS then set_sec_flag ABSOLUTE x else clear_sec_flag ABSOLUTE x)
       in clear_sec_flag IN_RORG (x\<lparr>sec_pc := sec_saved_pc x + (sec_pc x - sec_rorg_pc x)\<rparr>)))"

fun cleanup_sections :: "secid list \<Rightarrow> (prog, unit) step" where
  "cleanup_sections [] = return ()"
| "cleanup_sections (c # cs) = bind_st get (\<lambda>p.
     bind_st (if sec_has (psec p c) IN_RORG then reset_rorg c else return ()) (\<lambda>_. cleanup_sections cs))"

definition cleanup_parse :: "(prog, unit) step" where
  "cleanup_parse = bind_st get (\<lambda>p. cleanup_sections (order p))"

definition end_rorg :: "(prog, bool) step" where
  "end_rorg = bind_st default_section (\<lambda>c.
     case c of
       None \<Rightarrow> bind_st (error 3) (\<lambda>_. return False)
     | Some k \<Rightarrow> bind_st get (\<lambda>p.
         if sec_has (psec p k) IN_RORG then bind_st (reset_rorg k) (\<lambda>_. return True)
         else bind_st (error 44) (\<lambda>_. return False)))"

definition try_end_rorg :: "(prog, unit) step" where
  "try_end_rorg = bind_st get (\<lambda>p.
     case current p of
       None \<Rightarrow> return ()
     | Some c \<Rightarrow> if sec_has (psec p c) IN_RORG then bind_st end_rorg (\<lambda>_. return ()) else return ())"

definition start_rorg :: "taddr \<Rightarrow> (prog, unit) step" where
  "start_rorg rorg = bind_st default_section (\<lambda>c.
     case c of
       None \<Rightarrow> error 3
     | Some k \<Rightarrow> bind_st get (\<lambda>p.
         bind_st (if sec_has (psec p k) IN_RORG then bind_st end_rorg (\<lambda>_. return ()) else return ()) (\<lambda>_.
         bind_st (add_atom (Some k) (new_rorg_atom rorg)) (\<lambda>_.
         upd_section k (\<lambda>x.
           let x = set_sec_flag IN_RORG x;
               x = (if \<not> sec_has x ABSOLUTE then set_sec_flag ABSOLUTE (clear_sec_flag PREVABS x) else set_sec_flag PREVABS x)
           in x\<lparr>sec_rorg_pc := rorg, sec_saved_pc := sec_pc x, sec_pc := rorg\<rparr>)))))"

end
