(* ===== verification/Symbols.thy ===== *)
theory Symbols
  imports Sections
begin

text \<open>
  The symbols of the program (\<open>src/symbol.c\<close>): the linked list and the hash table that find
  them, saving and restoring the list around the parsing of an instruction, and the definition
  of labels, equates and imported symbols. A symbol keeps its index in the store after it is
  removed from the list.
\<close>

section \<open>The list and the table\<close>

definition find_symbol :: "string \<Rightarrow> (prog, symid option) step" where
  "find_symbol name = bind_st get (\<lambda>p.
     case find_nc (nocase p) (symhash p) name of
       (ht, r) \<Rightarrow> bind_st (modify (\<lambda>p. p\<lparr>symhash := ht\<rparr>)) (\<lambda>_. return r))"

definition add_symbol :: "symid \<Rightarrow> (prog, unit) step" where
  "add_symbol y = modify (\<lambda>p.
     p\<lparr>symlist := y # symlist p,
       symhash := add_hashentry (debug p) (symhash p) (sym_name (sym (core p) y)) y (nocase p)\<rparr>)"

definition rem_symhash :: "string \<Rightarrow> (prog, unit) step" where
  "rem_symhash name = bind_st get (\<lambda>p.
     case rem_hashentry (symhash p) name (nocase p) of
       None \<Rightarrow> fail Ierror
     | Some ht \<Rightarrow> modify (\<lambda>p. p\<lparr>symhash := ht\<rparr>))"

definition rem_symbol :: "symid \<Rightarrow> (prog, unit) step" where
  "rem_symbol y = bind_st get (\<lambda>p.
     bind_st (modify (\<lambda>p. p\<lparr>symlist := remove1 y (symlist p)\<rparr>)) (\<lambda>_. rem_symhash (sym_name (sym (core p) y))))"

definition refer_symbol :: "symid \<Rightarrow> string \<Rightarrow> (prog, unit) step" where
  "refer_symbol y name = modify (\<lambda>p. p\<lparr>symhash := add_hashentry (debug p) (symhash p) name y (nocase p)\<rparr>)"

definition save_symbols :: "(prog, unit) step" where
  "save_symbols = modify (\<lambda>p. p\<lparr>saved_symbol := (case symlist p of [] \<Rightarrow> None | y # _ \<Rightarrow> Some y)\<rparr>)"

text \<open>
  The loop of \<open>restore_symbols\<close> down to the saved symbol, with the protected symbols it met. If
  the saved symbol is not in the list the code follows the NULL pointer at its end.
\<close>

fun restore_loop :: "symid \<Rightarrow> symid list \<Rightarrow> symid list \<Rightarrow> (prog, unit) step" where
  "restore_loop saved [] prot = fail Undefined"
| "restore_loop saved (y # ys) prot =
     (if y = saved then modify (\<lambda>p. p\<lparr>symlist := prot @ y # ys, saved_symbol := None\<rparr>)
      else bind_st get (\<lambda>p.
        if sym_has (sym (core p) y) PROTECTED then restore_loop saved ys (y # prot)
        else bind_st (rem_symhash (sym_name (sym (core p) y))) (\<lambda>_. restore_loop saved ys prot)))"

definition restore_symbols :: "(prog, unit) step" where
  "restore_symbols = bind_st get (\<lambda>p.
     case saved_symbol p of None \<Rightarrow> return () | Some y \<Rightarrow> restore_loop y (symlist p) [])"

section \<open>Names\<close>

definition set_last_global_label :: "string \<Rightarrow> (prog, string) step" where
  "set_last_global_label name = bind_st get (\<lambda>p.
     bind_st (modify (\<lambda>p. p\<lparr>last_global_label := name\<rparr>)) (\<lambda>_. return (last_global_label p)))"

definition is_local_symbol_name :: "string \<Rightarrow> bool" where
  "is_local_symbol_name name \<longleftrightarrow> (case name of c # cs \<Rightarrow> c = CHR '' '' \<and> CHR '' '' \<in> set cs | [] \<Rightarrow> False)"

definition real_symbol_name :: "string \<Rightarrow> string" where
  "real_symbol_name name =
     (if is_local_symbol_name name then tl (dropWhile (\<lambda>c. c \<noteq> CHR '' '') (tl name)) else name)"

definition make_local_label :: "string \<Rightarrow> string \<Rightarrow> prog \<Rightarrow> string" where
  "make_local_label glob loc p =
     CHR '' '' # (if glob = [] then last_global_label p else glob) @ CHR '' '' # loc"

section \<open>Defining symbols\<close>

definition check_symbol :: "string \<Rightarrow> (prog, bool) step" where
  "check_symbol name = bind_st (find_symbol name) (\<lambda>r. bind_st get (\<lambda>p.
     case r of
       Some y \<Rightarrow> if sym_type (sym (core p) y) \<noteq> IMPORT then bind_st (error 67) (\<lambda>_. return True) else return False
     | None \<Rightarrow> return False))"

definition upd_symbol :: "symid \<Rightarrow> (symbol \<Rightarrow> symbol) \<Rightarrow> (prog, unit) step" where
  "upd_symbol y f = modify (\<lambda>p. p\<lparr>core := upd_sym y f (core p)\<rparr>)"

definition alloc_symbol :: "symbol \<Rightarrow> (prog, symid) step" where
  "alloc_symbol x = bind_st get (\<lambda>p.
     bind_st (modify (\<lambda>p. p\<lparr>core := (core p)\<lparr>syms := syms (core p) @ [x]\<rparr>\<rparr>)) (\<lambda>_. return (length (syms (core p)))))"

definition blank_symbol :: "string \<Rightarrow> symtype \<Rightarrow> symbol" where
  "blank_symbol name t =
     \<lparr>sym_type = t, sym_flags = 0, sym_name = name, sym_expr = None, sym_size = None, sym_sec = None, sym_pc = 0, sym_align = 0\<rparr>"

definition new_abs :: "string \<Rightarrow> expr \<Rightarrow> (prog, symid) step" where
  "new_abs name tree = bind_st (find_symbol name) (\<lambda>r. bind_st get (\<lambda>p.
     case r of
       Some y \<Rightarrow>
         bind_st (if sym_has (sym (core p) y) EQUATE then error 67 else return ()) (\<lambda>_.
         bind_st (if sym_type (sym (core p) y) = LABSYM then error 5 else return ()) (\<lambda>_.
         bind_st (upd_symbol y (\<lambda>x. x\<lparr>sym_type := EXPRESSION, sym_sec := None, sym_expr := Some tree\<rparr>)) (\<lambda>_. return y)))
     | None \<Rightarrow>
         bind_st (alloc_symbol ((blank_symbol name EXPRESSION)\<lparr>sym_expr := Some tree\<rparr>)) (\<lambda>y.
         bind_st (add_symbol y) (\<lambda>_. return y))))"

definition new_equate :: "string \<Rightarrow> expr \<Rightarrow> (prog, symid) step" where
  "new_equate name tree =
     bind_st (check_symbol name) (\<lambda>_. bind_st (new_abs name tree) (\<lambda>y.
     bind_st (upd_symbol y (set_flag EQUATE)) (\<lambda>_. return y)))"

definition new_import :: "string \<Rightarrow> (prog, symid) step" where
  "new_import name = bind_st (find_symbol name) (\<lambda>r.
     case r of
       Some y \<Rightarrow> return y
     | None \<Rightarrow> bind_st (alloc_symbol (blank_symbol name IMPORT)) (\<lambda>y. bind_st (add_symbol y) (\<lambda>_. return y)))"

text \<open>
  The two checks of a label's name against mnemonics and directives only warn; the lookups in
  the tables of the cpu and the syntax module are arguments here, with the settings
  \<open>chklabels\<close> and \<open>dotdirs\<close> in them.
\<close>

definition name_warnings :: "(string \<Rightarrow> bool) \<Rightarrow> (string \<Rightarrow> bool) \<Rightarrow> string \<Rightarrow> (prog, unit) step" where
  "name_warnings is_mnemonic is_directive name =
     (if is_mnemonic name then error 39 else if is_directive name then error 40 else return ())"

definition label_name :: "secid \<Rightarrow> string \<Rightarrow> prog \<Rightarrow> string" where
  "label_name c name p =
     (if sec_has (psec p c) LABELS_ARE_LOCAL then make_local_label (sec_name (psec p c)) (CHR ''.'' # name) p else name)"

text \<open>A redefined label is a new symbol that is a copy of the old one, and is not in the list.\<close>

definition label_symbol :: "string \<Rightarrow> (prog, symid \<times> bool) step" where
  "label_symbol name = bind_st (find_symbol name) (\<lambda>r. bind_st get (\<lambda>p.
     case r of
       Some y \<Rightarrow>
         if sym_type (sym (core p) y) = IMPORT then
           bind_st (if sym_has (sym (core p) y) XREF then error 85 else return ()) (\<lambda>_. return (y, False))
         else bind_st (alloc_symbol (sym (core p) y)) (\<lambda>n. bind_st (error 74) (\<lambda>_. return (n, False)))
     | None \<Rightarrow> bind_st (alloc_symbol (blank_symbol name LABSYM)) (\<lambda>n. return (n, True))))"

definition new_labsym ::
  "(string \<Rightarrow> bool) \<Rightarrow> (string \<Rightarrow> bool) \<Rightarrow> secid option \<Rightarrow> string \<Rightarrow> (prog, symid) step" where
  "new_labsym is_mnemonic is_directive c name =
     bind_st (name_warnings is_mnemonic is_directive name) (\<lambda>_.
     bind_st (case c of Some k \<Rightarrow> return (Some k) | None \<Rightarrow> default_section) (\<lambda>c.
       case c of
         None \<Rightarrow> bind_st (error 3) (\<lambda>_. new_import name)
       | Some k \<Rightarrow>
           bind_st (upd_section k (set_sec_flag HAS_SYMBOLS)) (\<lambda>_. bind_st get (\<lambda>p.
           let name = label_name k name p
           in bind_st (label_symbol name) (\<lambda>(y, add).
              bind_st (upd_symbol y (\<lambda>x. x\<lparr>sym_type := LABSYM, sym_sec := Some k, sym_pc := sec_pc (psec p k)\<rparr>)) (\<lambda>_.
              bind_st (if add then add_symbol y else return ()) (\<lambda>_. bind_st get (\<lambda>q.
              bind_st (if is_local_symbol_name name then return ()
                       else modify (\<lambda>p. p\<lparr>last_global_label := sym_name (sym (core q) y)\<rparr>)) (\<lambda>_.
              bind_st (upd_symbol y (if sec_has (psec p k) ABSOLUTE then set_flag ABSLABEL else clear_flag ABSLABEL)) (\<lambda>_.
                return y))))))))))"

definition internal_abs :: "string \<Rightarrow> (prog, symid) step" where
  "internal_abs name = bind_st (find_symbol name) (\<lambda>r. bind_st get (\<lambda>p.
     case r of
       Some y \<Rightarrow>
         if sym_type (sym (core p) y) \<noteq> EXPRESSION \<or> sym_has (sym (core p) y) (EXPORT OR COMMON OR WEAK)
         then fail (Fatal_error 37) else return y
     | None \<Rightarrow> bind_st (new_abs name (NUM 0)) (\<lambda>y. bind_st (upd_symbol y (set_flag VASMINTERN)) (\<lambda>_. return y))))"

definition set_internal_abs :: "string \<Rightarrow> taddr \<Rightarrow> (prog, expr) step" where
  "set_internal_abs name newval = bind_st (internal_abs name) (\<lambda>y. bind_st get (\<lambda>p.
     case sym_expr (sym (core p) y) of
       None \<Rightarrow> fail Ierror
     | Some e \<Rightarrow> bind_st (lift (eval_expr e None 0)) (\<lambda>(oldval, _).
         bind_st (if newval \<noteq> oldval then upd_symbol y (\<lambda>x. x\<lparr>sym_expr := Some (NUM newval)\<rparr>) else return ()) (\<lambda>_.
           return e))))"

section \<open>The table holds the list\<close>

definition name_of :: "prog \<Rightarrow> symid \<Rightarrow> string" where
  "name_of p y = key (nocase p) (sym_name (sym (core p) y))"

definition lookup :: "prog \<Rightarrow> string \<Rightarrow> symid option" where
  "lookup p name = ht_map (nocase p) (symhash p) (key (nocase p) name)"

text \<open>Every symbol of the list is found by its name; other names may refer to symbols too.\<close>

definition sym_ok :: "prog \<Rightarrow> bool" where
  "sym_ok p \<longleftrightarrow> ht_ok (nocase p) (symhash p) \<and> distinct (symlist p) \<and>
     (\<forall>y \<in> set (symlist p). y < length (syms (core p)) \<and> ht_map (nocase p) (symhash p) (name_of p y) = Some y) \<and>
     (\<forall>y \<in> ran (ht_map (nocase p) (symhash p)). y < length (syms (core p)))"

lemma find_symbol_result:
  assumes "find_symbol name p = Inr (p', r)"
  shows "r = lookup p name" and "\<exists>ht. p' = p\<lparr>symhash := ht\<rparr> \<and> ht_ok (nocase p) ht = ht_ok (nocase p) (symhash p)
    \<and> ht_map (nocase p) ht = ht_map (nocase p) (symhash p)"
proof -
  obtain ht where f: "find_nc (nocase p) (symhash p) name = (ht, r)" and p': "p' = p\<lparr>symhash := ht\<rparr>"
    using assms by (auto simp: find_symbol_def action_Inr split: prod.splits)
  show "r = lookup p name" using find_nc_map(1) [of "nocase p" "symhash p" name] f by (simp add: lookup_def)
  obtain c where "ht = symhash p\<lparr>collisions := c\<rparr>" using find_nc_map(2) [of "nocase p" "symhash p" name] f by auto
  then show "\<exists>ht. p' = p\<lparr>symhash := ht\<rparr> \<and> ht_ok (nocase p) ht = ht_ok (nocase p) (symhash p)
    \<and> ht_map (nocase p) ht = ht_map (nocase p) (symhash p)"
    using p' collisions_irrelevant by metis
qed

text \<open>Programs that agree on the list, the table as a map, and the names.\<close>

definition same_syms :: "prog \<Rightarrow> prog \<Rightarrow> bool" where
  "same_syms p p' \<longleftrightarrow> nocase p' = nocase p \<and> debug p' = debug p \<and> symlist p' = symlist p \<and> ht_ok (nocase p) (symhash p') = ht_ok (nocase p) (symhash p)
     \<and> ht_map (nocase p) (symhash p') = ht_map (nocase p) (symhash p)
     \<and> map sym_name (syms (core p')) = map sym_name (syms (core p))"

lemma same_syms_ok: "same_syms p p' \<Longrightarrow> sym_ok p \<Longrightarrow> sym_ok p'" and same_syms_lookup: "same_syms p p' \<Longrightarrow> lookup p' = lookup p"
proof -
  assume s: "same_syms p p'"
  then have m: "map sym_name (syms (core p')) = map sym_name (syms (core p))" by (simp add: same_syms_def)
  have l: "length (syms (core p')) = length (syms (core p))" using m by (metis length_map)
  have "name_of p' y = name_of p y" for y
    using nth_map_eq [OF m, of y] s by (simp add: name_of_def same_syms_def)
  then show "sym_ok p \<Longrightarrow> sym_ok p'" using s l by (simp add: sym_ok_def same_syms_def)
  show "lookup p' = lookup p" using s by (simp add: lookup_def same_syms_def fun_eq_iff)
qed

lemma same_syms_trans: "same_syms p p' \<Longrightarrow> same_syms p' p'' \<Longrightarrow> same_syms p p''"
  by (simp add: same_syms_def)

lemma same_syms_find: "find_symbol name p = Inr (p', r) \<Longrightarrow> same_syms p p'"
  using find_symbol_result(2) by (fastforce simp: same_syms_def)

lemma same_syms_upd: "(\<And>x. sym_name (f x) = sym_name x) \<Longrightarrow> upd_symbol y f p = Inr (p', u) \<Longrightarrow> same_syms p p'"
  by (auto simp: upd_symbol_def modify_Inr same_syms_def map_upd_same)

lemma same_syms_error: "error n p = Inr (p', u) \<Longrightarrow> same_syms p p'"
  by (auto simp: error_def modify_Inr same_syms_def)

text \<open>A new symbol with a name that is not in the table yet.\<close>

lemma new_symbol_ok:
  assumes ok: "sym_ok p" and fresh: "lookup p (sym_name x) = None"
    and "bind_st (alloc_symbol x) (\<lambda>y. bind_st (add_symbol y) (\<lambda>_. return y)) p = Inr (p', y)"
  shows "sym_ok p' \<and> lookup p' = (\<lambda>n. if key (nocase p) n = key (nocase p) (sym_name x) then Some y else lookup p n)
    \<and> symlist p' = y # symlist p \<and> core p' = (core p)\<lparr>syms := syms (core p) @ [x]\<rparr> \<and> y = length (syms (core p)) \<and> nocase p' = nocase p"
proof -
  have y: "y = length (syms (core p))"
    and p': "p' = p\<lparr>core := (core p)\<lparr>syms := syms (core p) @ [x]\<rparr>, symlist := y # symlist p,
      symhash := add_hashentry (debug p) (symhash p) (sym_name x) y (nocase p)\<rparr>"
    using assms(3) by (auto simp: alloc_symbol_def add_symbol_def action_Inr)
  have h: "ht_ok (nocase p) (symhash p)" and f: "ht_map (nocase p) (symhash p) (key (nocase p) (sym_name x)) = None"
    using ok fresh by (simp_all add: sym_ok_def lookup_def)
  note a = add_hashentry_ok [OF h f, of "debug p" y] add_hashentry_map [OF h, of "debug p" "sym_name x" y]
  have old: "z < length (syms (core p)) \<Longrightarrow> name_of p' z = name_of p z" for z by (simp add: name_of_def p' nth_append)
  have new: "name_of p' y = key (nocase p) (sym_name x)" by (simp add: name_of_def p' y)
  have "name_of p z \<noteq> key (nocase p) (sym_name x)" if "z \<in> set (symlist p)" for z
    using ok f that by (auto simp: sym_ok_def)
  moreover have "y \<notin> set (symlist p)" using ok y by (auto simp: sym_ok_def)
  moreover have hp: "ht_ok (nocase p) (symhash p')"
    "ht_map (nocase p) (symhash p') = (ht_map (nocase p) (symhash p))(key (nocase p) (sym_name x) \<mapsto> y)"
    "symlist p' = y # symlist p" "length (syms (core p')) = Suc y" "length (syms (core p)) = y" "nocase p' = nocase p"
    using a by (simp_all add: p' y)
  ultimately have "sym_ok p'"
    using ok new old unfolding sym_ok_def hp by (auto simp: less_Suc_eq ran_def)
  moreover have "lookup p' = (\<lambda>n. if key (nocase p) n = key (nocase p) (sym_name x) then Some y else lookup p n)"
    by (rule ext) (simp add: lookup_def hp)
  ultimately show ?thesis by (simp add: p' y)
qed

lemma new_import_ok:
  assumes "sym_ok p" and "new_import name p = Inr (p', y)"
  shows "sym_ok p' \<and> lookup p' = (\<lambda>n. if key (nocase p) n = key (nocase p) name then Some y else lookup p n)"
proof -
  obtain p1 r where 1: "find_symbol name p = Inr (p1, r)"
    and rest: "(case r of Some y \<Rightarrow> return y
     | None \<Rightarrow> bind_st (alloc_symbol (blank_symbol name IMPORT)) (\<lambda>y. bind_st (add_symbol y) (\<lambda>_. return y))) p1 = Inr (p', y)"
    using assms(2) by (auto simp: new_import_def bind_st_Inr)
  note s = same_syms_find [OF 1]
  have ok1: "sym_ok p1" by (rule same_syms_ok [OF s assms(1)])
  have nc: "nocase p1 = nocase p" using s by (simp add: same_syms_def)
  have r: "r = lookup p name" by (rule find_symbol_result(1) [OF 1])
  show ?thesis
  proof (cases r)
    case (Some z)
    then have "p' = p1" "y = z" using rest by (simp_all add: return_Inr)
    then show ?thesis using ok1 same_syms_lookup [OF s] r Some by (auto simp: lookup_def)
  next
    case None
    have n: "sym_name (blank_symbol name IMPORT) = name" by (simp add: blank_symbol_def)
    have "lookup p1 (sym_name (blank_symbol name IMPORT)) = None" using None r same_syms_lookup [OF s] n by simp
    note new = new_symbol_ok [OF ok1 this rest [unfolded None option.case]]
    show ?thesis using new unfolding n nc same_syms_lookup [OF s] by blast
  qed
qed

lemma new_abs_ok:
  assumes "sym_ok p" and "new_abs name e p = Inr (p', y)"
  shows "sym_ok p' \<and> lookup p' = (\<lambda>n. if key (nocase p) n = key (nocase p) name then Some y else lookup p n)
    \<and> nocase p' = nocase p \<and> sym_type (sym (core p') y) = EXPRESSION \<and> sym_expr (sym (core p') y) = Some e"
proof -
  obtain p1 r where 1: "find_symbol name p = Inr (p1, r)"
    and rest: "(case r of
       Some y \<Rightarrow>
         bind_st (if sym_has (sym (core p1) y) EQUATE then error 67 else return ()) (\<lambda>_.
         bind_st (if sym_type (sym (core p1) y) = LABSYM then error 5 else return ()) (\<lambda>_.
         bind_st (upd_symbol y (\<lambda>x. x\<lparr>sym_type := EXPRESSION, sym_sec := None, sym_expr := Some e\<rparr>)) (\<lambda>_. return y)))
     | None \<Rightarrow>
         bind_st (alloc_symbol ((blank_symbol name EXPRESSION)\<lparr>sym_expr := Some e\<rparr>)) (\<lambda>y.
         bind_st (add_symbol y) (\<lambda>_. return y))) p1 = Inr (p', y)"
    using assms(2) by (auto simp: new_abs_def bind_st_Inr get_Inr)
  note s = same_syms_find [OF 1]
  have ok1: "sym_ok p1" by (rule same_syms_ok [OF s assms(1)])
  have nc: "nocase p1 = nocase p" using s by (simp add: same_syms_def)
  have r: "r = lookup p name" by (rule find_symbol_result(1) [OF 1])
  show ?thesis
  proof (cases r)
    case (Some z)
    obtain p2 u2 p3 u3 u4 where 2: "(if sym_has (sym (core p1) z) EQUATE then error 67 else return ()) p1 = Inr (p2, u2)"
      "(if sym_type (sym (core p1) z) = LABSYM then error 5 else return ()) p2 = Inr (p3, u3)"
      "upd_symbol z (\<lambda>x. x\<lparr>sym_type := EXPRESSION, sym_sec := None, sym_expr := Some e\<rparr>) p3 = Inr (p', u4)" "y = z"
      using rest Some by (auto simp: bind_st_Inr return_Inr)
    have e: "(if b then error n else return ()) q = Inr (q', u) \<Longrightarrow> same_syms q q'" for b n q q' u
      using same_syms_error [of n q q' u] by (cases b) (auto simp: return_Inr same_syms_def)
    have t: "same_syms p p'"
      using same_syms_trans [OF s same_syms_trans [OF e [OF 2(1)] same_syms_trans [OF e [OF 2(2)] same_syms_upd [OF _ 2(3)]]]]
      by simp
    have "Some z = lookup p name" using Some r by simp
    then have "z \<in> ran (ht_map (nocase p) (symhash p))" by (auto simp: lookup_def ran_def)
    then have "z < length (syms (core p))" using assms(1) by (simp add: sym_ok_def)
    moreover have "map sym_name (syms (core p3)) = map sym_name (syms (core p))"
      using same_syms_trans [OF s same_syms_trans [OF e [OF 2(1)] e [OF 2(2)]]] by (simp add: same_syms_def)
    ultimately have "z < length (syms (core p3))" by (metis length_map)
    then have "sym_type (sym (core p') z) = EXPRESSION \<and> sym_expr (sym (core p') z) = Some e"
      using 2(3) by (auto simp: upd_symbol_def modify_Inr)
    moreover have "lookup p' = (\<lambda>n. if key (nocase p) n = key (nocase p) name then Some y else lookup p n)"
      using same_syms_lookup [OF t] \<open>Some z = lookup p name\<close> 2(4) by (auto simp: lookup_def)
    ultimately show ?thesis using same_syms_ok [OF t assms(1)] t 2(4) by (simp add: same_syms_def)
  next
    case None
    let ?x = "(blank_symbol name EXPRESSION)\<lparr>sym_expr := Some e\<rparr>"
    have n: "sym_name ?x = name" by (simp add: blank_symbol_def)
    have "lookup p1 (sym_name ?x) = None" using None r same_syms_lookup [OF s] n by simp
    note new = new_symbol_ok [OF ok1 this rest [unfolded None option.case]]
    have "sym (core p') y = ?x" using new by simp
    then have "sym_type (sym (core p') y) = EXPRESSION \<and> sym_expr (sym (core p') y) = Some e" by (simp add: blank_symbol_def)
    then show ?thesis using new unfolding n nc same_syms_lookup [OF s] by blast
  qed
qed

text \<open>These operations always return.\<close>

lemma find_symbol_total: "\<exists>ht. find_symbol name p = Inr (p\<lparr>symhash := ht\<rparr>, lookup p name)"
  using find_nc_map(1) [of "nocase p" "symhash p" name]
  by (cases "find_nc (nocase p) (symhash p) name") (auto simp: find_symbol_def bind_st_def get_def modify_def return_def lookup_def)

lemma new_import_fresh:
  assumes "lookup p name = None"
  shows "\<exists>ht. new_import name p = Inr (p\<lparr>symhash := ht, core := (core p)\<lparr>syms := syms (core p) @ [blank_symbol name IMPORT]\<rparr>,
      symlist := length (syms (core p)) # symlist p\<rparr>, length (syms (core p)))"
proof -
  obtain ht where f: "find_symbol name p = Inr (p\<lparr>symhash := ht\<rparr>, None)" using find_symbol_total [of name p] assms by auto
  show ?thesis
    by (rule exI [where x = "add_hashentry (debug p) ht name (length (syms (core p))) (nocase p)"])
      (simp add: new_import_def f bind_st_def alloc_symbol_def add_symbol_def get_def modify_def return_def blank_symbol_def)
qed

definition returns :: "('s, 'a) step \<Rightarrow> bool" where
  "returns m \<longleftrightarrow> (\<forall>s. \<exists>s' x. m s = Inr (s', x))"

lemma returns_bind: "returns m \<Longrightarrow> (\<And>x. returns (f x)) \<Longrightarrow> returns (bind_st m f)"
  unfolding returns_def bind_st_def by (metis (mono_tags, lifting) case_prod_conv old.sum.simps(6))

lemma returns_basic: "returns (return x)" "returns get" "returns (modify f)" "returns (error n)" "returns (upd_symbol y g)"
  "returns (find_symbol name)"
  using find_symbol_total by (auto simp: returns_def return_def get_def modify_def error_def upd_symbol_def) blast

lemma returns_if: "returns m \<Longrightarrow> returns n \<Longrightarrow> returns (if b then m else n)"
  by simp

lemma returns_option: "returns m \<Longrightarrow> (\<And>x. returns (f x)) \<Longrightarrow> returns (case r of None \<Rightarrow> m | Some x \<Rightarrow> f x)"
  by (cases r) simp_all

lemmas returns_rules = returns_bind returns_basic returns_if returns_option

lemma defining_returns: "returns (new_import name)" "returns (new_abs name e)" "returns (check_symbol name)"
  unfolding new_import_def new_abs_def check_symbol_def alloc_symbol_def add_symbol_def by (intro returns_rules)+

section \<open>Restoring\<close>

definition protected :: "prog \<Rightarrow> symid \<Rightarrow> bool" where
  "protected p y \<longleftrightarrow> sym_has (sym (core p) y) PROTECTED"

text \<open>The names that leave the table.\<close>

definition dropped :: "prog \<Rightarrow> symid list \<Rightarrow> string set" where
  "dropped p new = {name_of p z | z. z \<in> set new \<and> \<not> protected p z}"

lemma restore_loop_result:
  assumes "ht_ok (nocase p) (symhash p)" and "distinct new" and "y \<notin> set new"
    and "\<forall>z \<in> set new. ht_map (nocase p) (symhash p) (name_of p z) = Some z"
  shows "\<exists>p'. restore_loop y (new @ y # old) prot p = Inr (p', ()) \<and> symlist p' = rev (filter (protected p) new) @ prot @ y # old
    \<and> saved_symbol p' = None \<and> core p' = core p \<and> nocase p' = nocase p \<and> ht_ok (nocase p) (symhash p')
    \<and> ht_map (nocase p) (symhash p') = (\<lambda>k. if k \<in> dropped p new then None else ht_map (nocase p) (symhash p) k)"
  using assms
proof (induction new arbitrary: p prot)
  case Nil
  then show ?case by (simp add: modify_def dropped_def)
next
  case (Cons z new)
  have zy: "z \<noteq> y" "y \<notin> set new" "distinct new" "z \<notin> set new" using Cons.prems by auto
  show ?case
  proof (cases "protected p z")
    case True
    then have e: "restore_loop y ((z # new) @ y # old) prot p = restore_loop y (new @ y # old) (z # prot) p"
      using zy by (simp add: bind_st_def get_def protected_def)
    have d: "dropped p (z # new) = dropped p new" using True by (auto simp: dropped_def)
    show ?thesis using Cons.IH [of p "z # prot"] Cons.prems zy True unfolding e d by simp
  next
    case False
    have ok: "ht_ok (nocase p) (symhash p)" and zm: "ht_map (nocase p) (symhash p) (name_of p z) = Some z"
      using Cons.prems by auto
    then obtain ht where ht: "rem_hashentry (symhash p) (sym_name (sym (core p) z)) (nocase p) = Some ht"
      using rem_hashentry_fails [OF ok] by (cases "rem_hashentry (symhash p) (sym_name (sym (core p) z)) (nocase p)") (auto simp: name_of_def)
    note m = rem_hashentry_map [OF ok ht]
    let ?p = "p\<lparr>symhash := ht\<rparr>"
    have e: "restore_loop y ((z # new) @ y # old) prot p = restore_loop y (new @ y # old) prot ?p"
      using zy False ht by (simp add: bind_st_def get_def protected_def rem_symhash_def modify_def)
    have n: "name_of ?p = name_of p" "protected ?p = protected p" by (simp_all add: name_of_def protected_def fun_eq_iff)
    have "\<forall>w \<in> set new. ht_map (nocase ?p) (symhash ?p) (name_of ?p w) = Some w"
    proof
      fix w assume w: "w \<in> set new"
      then have "ht_map (nocase p) (symhash p) (name_of p w) = Some w" using Cons.prems by simp
      moreover from this have "name_of p w \<noteq> name_of p z" using zm zy(4) w by (metis option.inject)
      ultimately show "ht_map (nocase ?p) (symhash ?p) (name_of ?p w) = Some w" using m by (simp add: n name_of_def)
    qed
    then have prem: "\<forall>w \<in> set new. ht_map (nocase p) ht (name_of p w) = Some w" by (simp add: n)
    have nc: "nocase ?p = nocase p" "symhash ?p = ht" "core ?p = core p" by simp_all
    from Cons.IH [of ?p prot, unfolded nc n, OF conjunct1 [OF m] zy(3,2) prem] obtain p' where p': "restore_loop y (new @ y # old) prot ?p = Inr (p', ())"
      "symlist p' = rev (filter (protected p) new) @ prot @ y # old" "saved_symbol p' = None" "core p' = core p" "nocase p' = nocase p"
      "ht_ok (nocase p) (symhash p')"
      "ht_map (nocase p) (symhash p') = (\<lambda>k. if k \<in> dropped ?p new then None else ht_map (nocase p) ht k)"
      by blast
    have d: "dropped p (z # new) = insert (name_of p z) (dropped p new)" "dropped ?p new = dropped p new"
      using False by (auto simp: dropped_def n)
    have "ht_map (nocase p) (symhash p') = (\<lambda>k. if k \<in> dropped p (z # new) then None else ht_map (nocase p) (symhash p) k)"
      unfolding p'(7) d using m by (auto simp: name_of_def)
    then show ?thesis unfolding e using p' False by auto
  qed
qed

lemma restore_exact:
  assumes "sym_ok p" and "symlist p = new @ y # old" and "saved_symbol p = Some y"
  shows "\<exists>p'. restore_symbols p = Inr (p', ()) \<and> sym_ok p' \<and> core p' = core p
    \<and> symlist p' = rev (filter (protected p) new) @ y # old
    \<and> lookup p' = (\<lambda>n. if key (nocase p) n \<in> dropped p new then None else lookup p n)"
proof -
  have ok: "ht_ok (nocase p) (symhash p)" and d: "distinct (new @ y # old)"
    and f: "\<forall>z \<in> set (new @ y # old). z < length (syms (core p)) \<and> ht_map (nocase p) (symhash p) (name_of p z) = Some z"
    and r: "\<forall>z \<in> ran (ht_map (nocase p) (symhash p)). z < length (syms (core p))"
    using assms(1) unfolding sym_ok_def assms(2) by blast+
  from restore_loop_result [OF ok, of new y old "[]"] d f obtain p' where p': "restore_loop y (new @ y # old) [] p = Inr (p', ())"
    "symlist p' = rev (filter (protected p) new) @ y # old" "core p' = core p" "nocase p' = nocase p" "ht_ok (nocase p) (symhash p')"
    "ht_map (nocase p) (symhash p') = (\<lambda>k. if k \<in> dropped p new then None else ht_map (nocase p) (symhash p) k)"
    by auto
  have n: "name_of p' = name_of p" by (simp add: name_of_def fun_eq_iff p')
  have inj: "name_of p a = name_of p b \<Longrightarrow> a \<in> set (new @ y # old) \<Longrightarrow> b \<in> set (new @ y # old) \<Longrightarrow> a = b" for a b
    using f by (metis option.inject)
  have "name_of p z \<notin> dropped p new" if z: "z \<in> set (symlist p')" for z
  proof
    assume "name_of p z \<in> dropped p new"
    then obtain w where w: "w \<in> set new" "\<not> protected p w" "name_of p z = name_of p w" by (auto simp: dropped_def)
    have "z \<in> set (new @ y # old)" using z by (auto simp: p'(2))
    then have "z = w" using inj w by auto
    then show False using z w d by (auto simp: p'(2))
  qed
  then have "\<forall>z \<in> set (symlist p'). z < length (syms (core p')) \<and> ht_map (nocase p') (symhash p') (name_of p' z) = Some z"
    using f unfolding n p'(2,3,4,6) by auto
  moreover have "distinct (symlist p')" using d by (auto simp: p'(2))
  moreover have "ran (ht_map (nocase p') (symhash p')) \<subseteq> ran (ht_map (nocase p) (symhash p))"
    unfolding p'(4,6) by (auto simp: ran_def)
  ultimately have "sym_ok p'" using r p'(3,4,5) unfolding sym_ok_def by auto
  moreover have "lookup p' = (\<lambda>n. if key (nocase p) n \<in> dropped p new then None else lookup p n)"
    by (rule ext) (simp add: lookup_def p')
  moreover have "restore_symbols p = Inr (p', ())"
    using assms(2,3) p'(1) by (simp add: restore_symbols_def bind_st_def get_def)
  ultimately show ?thesis using p' by auto
qed

text \<open>
  C10. Restoring the symbols after an operand did not match removes from the list and the table
  exactly the symbols that came after the saved one and are not protected; all others are
  still found, and it never fails.
\<close>

theorem restore_symbols_exact:
  assumes "sym_ok p" and "symlist p = new @ y # old" and "saved_symbol p = Some y"
  shows "\<exists>p'. restore_symbols p = Inr (p', ()) \<and> sym_ok p' \<and> core p' = core p
    \<and> symlist p' = rev (filter (protected p) new) @ y # old
    \<and> lookup p' = (\<lambda>n. if key (nocase p) n \<in> dropped p new then None else lookup p n)"
  by (rule restore_exact [OF assms])

definition names_prog :: "string list \<Rightarrow> prog" where
  "names_prog ns = \<lparr>core = \<lparr>syms = map (\<lambda>n. blank_symbol n IMPORT) ns, secs = [], cpc = None, final_pass = False, num_secs = 0,
      bytespertaddr = 2, msgs = []\<rparr>,
    cpu = cpu_start, atoms = (\<lambda>_. []), order = [], last_section = None, container = 0, current = None, secstack = [], source = None,
    org_count = 0, offset_id = 0, sec_padding = 0, space_init = 0, unnamed_sections = False, secname_attr = False,
    defsectname = None, defsecttype = None, defsectorg = 0, symlist = rev [0..<length ns],
    symhash = fold (\<lambda>(n, y) t. add_hashentry False t n y False) (zip ns [0..<length ns]) (new_hashtable 3),
    saved_symbol = None, last_global_label = [], nocase = False, debug = False\<rparr>"

lemma one_name_ok: "sym_ok (names_prog [''a''])"
proof -
  have n: "ht_ok False (new_hashtable 3 :: symid hashtable)" "ht_map False (new_hashtable 3 :: symid hashtable) = Map.empty"
    using new_hashtable_ok [of 3 False] by auto
  have k: "key False ''a'' = ''a''" by (simp add: key_def)
  have f: "ht_map False (new_hashtable 3 :: symid hashtable) (key False ''a'') = None" by (simp add: n)
  note a = add_hashentry_ok [OF n(1) f, of False 0] add_hashentry_map [OF n(1), of False "''a''" 0]
  show ?thesis using a n by (simp add: sym_ok_def names_prog_def name_of_def blank_symbol_def k)
qed

lemma restore_symbols_exact_witness:
  "\<exists>p1 p2 p3 u y. save_symbols (names_prog [''a'']) = Inr (p1, u) \<and> new_import ''b'' p1 = Inr (p2, y)
     \<and> restore_symbols p2 = Inr (p3, ()) \<and> symlist p2 = [1, 0] \<and> symlist p3 = [0] \<and> lookup p3 ''b'' = None"
proof -
  let ?p1 = "(names_prog [''a''])\<lparr>saved_symbol := Some 0\<rparr>"
  have 1: "save_symbols (names_prog [''a'']) = Inr (?p1, ())"
    by (simp add: save_symbols_def modify_def names_prog_def)
  have ok1: "sym_ok ?p1" using one_name_ok by (simp add: sym_ok_def name_of_def)
  have "lookup ?p1 ''b'' = None"
  proof -
    have "key False ''a'' = ''a''" "key False ''b'' = ''b''" by (simp_all add: key_def)
    moreover have "ht_map False (new_hashtable 3 :: symid hashtable) = Map.empty"
      by (rule conjunct2 [OF new_hashtable_ok]) simp
    ultimately show ?thesis
      using add_hashentry_map [OF conjunct1 [OF new_hashtable_ok [of 3 False]], of False "''a''" "0 :: nat"] new_hashtable_ok [of 3 False]
      unfolding lookup_def names_prog_def by simp
  qed
  from new_import_fresh [OF this] obtain p2 where 2: "new_import ''b'' ?p1 = Inr (p2, 1)" "symlist p2 = [1] @ 0 # []" "saved_symbol p2 = Some 0"
    "sym_flags (sym (core p2) 1) = 0" "sym_name (sym (core p2) 1) = ''b''" "\<not> nocase p2"
    by (auto simp: names_prog_def blank_symbol_def)
  have ok2: "sym_ok p2" using new_import_ok [OF ok1 2(1)] by blast
  have d: "\<not> protected p2 1" "name_of p2 1 = ''b''" using 2 by (simp_all add: protected_def sym_has_def name_of_def key_def)
  from restore_symbols_exact [OF ok2 2(2,3)] obtain p3 where "restore_symbols p2 = Inr (p3, ())" "symlist p3 = [0]"
    "lookup p3 = (\<lambda>n. if key (nocase p2) n \<in> dropped p2 [1] then None else lookup p2 n)"
    using d by auto
  then show ?thesis using 1 2 d by (auto simp: dropped_def key_def)
qed

text \<open>
  C29. Defining a symbol, as imported or as an equate, keeps the table: the new name finds the
  symbol that is returned, every other name what it found before, and every symbol of the list
  is found by its name. An equate has the given value, and reports a name that was defined.
\<close>

theorem new_symbols_found:
  assumes "sym_ok p"
  shows "(case new_import name p of
       Inl _ \<Rightarrow> False
     | Inr (p', y) \<Rightarrow> sym_ok p' \<and> lookup p' = (\<lambda>n. if key (nocase p) n = key (nocase p) name then Some y else lookup p n))
    \<and> (case new_equate name e p of
       Inl _ \<Rightarrow> False
     | Inr (p', y) \<Rightarrow> sym_ok p' \<and> lookup p' = (\<lambda>n. if key (nocase p) n = key (nocase p) name then Some y else lookup p n)
         \<and> sym_type (sym (core p') y) = EXPRESSION \<and> sym_expr (sym (core p') y) = Some e)"
proof -
  obtain p1 y where 1: "new_import name p = Inr (p1, y)" using defining_returns(1) unfolding returns_def by blast
  obtain p2 b where 2: "check_symbol name p = Inr (p2, b)" using defining_returns(3) unfolding returns_def by blast
  obtain p3 z where 3: "new_abs name e p2 = Inr (p3, z)" using defining_returns(2) unfolding returns_def by blast
  have s2: "same_syms p p2"
    using 2 same_syms_find same_syms_error same_syms_trans
    by (auto simp: check_symbol_def bind_st_Inr get_Inr return_Inr split: option.splits if_splits) blast+
  note a = new_abs_ok [OF same_syms_ok [OF s2 assms] 3]
  obtain p4 u where 4: "upd_symbol z (set_flag EQUATE) p3 = Inr (p4, u)" by (simp add: upd_symbol_def modify_def)
  have e: "new_equate name e p = Inr (p4, z)" using 2 3 4 by (simp add: new_equate_def bind_st_def return_def)
  have s4: "same_syms p3 p4" by (rule same_syms_upd [OF _ 4]) (simp add: set_flag_def)
  have "sym_type (sym (core p4) z) = sym_type (sym (core p3) z) \<and> sym_expr (sym (core p4) z) = sym_expr (sym (core p3) z)"
    using 4 by (auto simp: upd_symbol_def modify_Inr nth_upd set_flag_def)
  moreover have "nocase p2 = nocase p" using s2 by (simp add: same_syms_def)
  ultimately show ?thesis
    using new_import_ok [OF assms 1] a [unfolded same_syms_lookup [OF s2]] same_syms_ok [OF s4] same_syms_lookup [OF s4] by (simp add: 1 e)
qed

lemma new_symbols_found_witness:
  "(case new_import ''b'' (names_prog [''a'']) of Inl _ \<Rightarrow> False | Inr (p', y) \<Rightarrow> lookup p' ''b'' = Some y)"
  using new_symbols_found [OF one_name_ok, of "''b''"] by (auto split: sum.splits)

end
