(* ===== verification/Exprlex.thy ===== *)
theory Exprlex
  imports Symbols
begin

text \<open>
  The words of an expression, as the oldstyle syntax module reads them
  (\<open>src/syntax/oldstyle/syntax.c\<close>, \<open>src/parse.c\<close>). A text is the rest of a line from the current
  position; reading beyond its end gives a zero. Two functions of the code look at characters in
  front of the position they are given; what is there is said where they are defined.
\<close>

section \<open>Characters\<close>

definition ch :: "string \<Rightarrow> nat \<Rightarrow> char" where
  "ch cs i = (if i < length cs then cs ! i else CHR 0x00)"

definition code :: "char \<Rightarrow> nat" where
  "code c = of_char c"

definition isdigit :: "char \<Rightarrow> bool" where
  "isdigit c \<longleftrightarrow> 48 \<le> code c \<and> code c \<le> 57"

definition isalpha :: "char \<Rightarrow> bool" where
  "isalpha c \<longleftrightarrow> 65 \<le> code c \<and> code c \<le> 90 \<or> 97 \<le> code c \<and> code c \<le> 122"

definition isxdigit :: "char \<Rightarrow> bool" where
  "isxdigit c \<longleftrightarrow> isdigit c \<or> 65 \<le> code c \<and> code c \<le> 70 \<or> 97 \<le> code c \<and> code c \<le> 102"

definition isspace :: "char \<Rightarrow> bool" where
  "isspace c \<longleftrightarrow> code c = 32 \<or> 9 \<le> code c \<and> code c \<le> 13"

text \<open>The value of a hexadecimal digit.\<close>

definition xvalue :: "char \<Rightarrow> nat" where
  "xvalue c = (if code c \<le> 57 then code c - 48 else if code c \<le> 70 then code c - 55 else code c - 87)"

section \<open>Options\<close>

text \<open>
  The settings of the syntax module and of the expression parser, and the tables of mnemonics and
  directives that warn about the name of a label. \<open>charspertaddr\<close> is the number of bytes of an
  address.
\<close>

record expconf =
  dot_idchar :: bool
  igntrail :: bool
  commentchar :: char
  current_pc_char :: char
  nocprefix :: bool
  nointelsuffix :: bool
  esc_sequences :: bool
  unsigned_shift :: bool
  charspertaddr :: nat
  charsperexp :: nat
  anon_labno :: u32
  is_mnemonic :: "string \<Rightarrow> bool"
  is_directive :: "string \<Rightarrow> bool"

definition isidstart :: "char \<Rightarrow> bool" where
  "isidstart c \<longleftrightarrow> c = CHR ''.'' \<or> c = CHR ''_'' \<or> isalpha c"

definition isidchar :: "expconf \<Rightarrow> char \<Rightarrow> bool" where
  "isidchar o' c \<longleftrightarrow> isalpha c \<or> isdigit c \<or> c = CHR ''_'' \<or> dot_idchar o' \<and> c = CHR ''.''"

section \<open>Blanks and comments\<close>

definition skip :: "string \<Rightarrow> string" where
  "skip s = dropWhile isspace s"

text \<open>The code cuts the line at a comment, or at the first blank (\<open>igntrail\<close>).\<close>

definition exp_skip :: "expconf \<Rightarrow> string \<Rightarrow> string" where
  "exp_skip o' s =
     (if \<not> igntrail o' then (let s = skip s in if s \<noteq> [] \<and> hd s = commentchar o' then [] else s)
      else if s \<noteq> [] \<and> (isspace (hd s) \<or> hd s = commentchar o') then [] else s)"

section \<open>Constants\<close>

text \<open>
  The base that digits seen so far allow, and the one before the last digit. Without a digit the
  code looks at the character in front, which is then an operator or a blank and not a letter.
\<close>

definition next_base :: "nat \<Rightarrow> char \<Rightarrow> nat" where
  "next_base b c =
     (if b = 2 \<and> code c \<le> 49 then 2 else if b \<le> 8 \<and> code c \<le> 55 then 8 else if b \<le> 10 \<and> code c \<le> 57 then 10 else 16)"

fun intel_scan :: "string \<Rightarrow> nat \<Rightarrow> (nat \<times> char) option \<Rightarrow> nat \<times> (nat \<times> char) option \<times> char" where
  "intel_scan [] base seen = (base, seen, CHR 0x00)"
| "intel_scan (c # cs) base seen =
     (if isxdigit c then intel_scan cs (next_base base c) (Some (base, c)) else (base, seen, c))"

definition intel_suffix :: "string \<Rightarrow> nat" where
  "intel_suffix s =
     (case intel_scan s 2 None of (base, seen, c) \<Rightarrow>
        if tolower_c c = CHR ''h'' then 16
        else if (tolower_c c = CHR ''o'' \<or> tolower_c c = CHR ''q'') \<and> base \<le> 8 then 8
        else case seen of
          None \<Rightarrow> 0
        | Some (lastbase, c) \<Rightarrow>
            if tolower_c c = CHR ''d'' \<and> lastbase \<le> 10 then 10
            else if tolower_c c = CHR ''b'' \<and> lastbase \<le> 2 then 2
            else 0)"

text \<open>The text behind the prefix, and the base; base 0 is no constant.\<close>

definition const_prefix :: "expconf \<Rightarrow> string \<Rightarrow> string \<times> nat" where
  "const_prefix o' s =
     (if isdigit (ch s 0) then
        (if \<not> nointelsuffix o' \<and> intel_suffix s \<noteq> 0 then (s, intel_suffix s)
         else if \<not> nocprefix o' \<and> ch s 0 = CHR ''0'' then
           (if ch s 1 = CHR ''x'' \<or> ch s 1 = CHR ''X'' then (drop 2 s, 16)
            else if ch s 1 = CHR ''b'' \<or> ch s 1 = CHR ''B'' then (drop 2 s, 2)
            else (s, 8))
         else if \<not> nocprefix o' \<and> ch s 1 = CHR ''#'' \<and> 50 \<le> code (ch s 0) \<and> code (ch s 0) \<le> 57 then
           (drop 2 s, code (ch s 0) - 48)
         else (s, 10))
      else if ch s 0 = CHR ''$'' then
        (if isxdigit (ch s 1) then (drop 1 s, 16)
         else if isxdigit (ch s 2) \<and> ch s 1 = CHR ''-'' then (drop 2 s, 16)
         else (drop 1 s, 0))
      else if ch s 0 = CHR ''@'' then (drop 1 s, 8)
      else if ch s 0 = CHR ''%'' then (drop 1 s, 2)
      else (s, 0))"

definition const_suffix :: "string \<Rightarrow> string \<Rightarrow> string" where
  "const_suffix start end = (if intel_suffix start \<noteq> 0 then drop 1 end else end)"

text \<open>\<open>None\<close> is an overflow that the code notices: multiplying by the base, but not adding the digit.\<close>

fun read_digits :: "nat \<Rightarrow> string \<Rightarrow> taddr \<Rightarrow> (taddr \<times> string) option" where
  "read_digits base [] val = Some (val, [])"
| "read_digits base (c # cs) val =
     (if 48 \<le> code c \<and> code c < base + 48 then
        (let nval = of_nat base * val
         in if nval div of_nat base \<noteq> val then None else read_digits base cs (nval + of_nat (code c - 48)))
      else Some (val, c # cs))"

fun read_hex :: "string \<Rightarrow> taddr \<Rightarrow> (taddr \<times> string) option" where
  "read_hex [] val = Some (val, [])"
| "read_hex (c # cs) val =
     (if isxdigit c then
        (let nval = push_bit 4 val + of_nat (xvalue c)
         in if drop_bit 4 nval \<noteq> val then None else read_hex cs nval)
      else Some (val, c # cs))"

fun read_huge :: "nat \<Rightarrow> string \<Rightarrow> thuge \<Rightarrow> thuge \<times> string" where
  "read_huge base [] h = (h, [])"
| "read_huge base (c # cs) h =
     (if (if base = 16 then isxdigit c else 48 \<le> code c \<and> code c < base + 48) then
        read_huge base cs (haddi (hmuli h (of_nat base)) (of_nat (xvalue c)))
      else (h, c # cs))"

section \<open>Names\<close>

definition skip_local :: "expconf \<Rightarrow> string \<Rightarrow> string option" where
  "skip_local o' p = (if isidstart (ch p 0) \<or> isdigit (ch p 0) then Some (dropWhile (isidchar o') (drop 1 p)) else None)"

definition up_to :: "string \<Rightarrow> string \<Rightarrow> string" where
  "up_to p s = take (length s - length p) s"

text \<open>The number of an anonymous label: each sign is one label further.\<close>

fun anon_refno :: "string \<Rightarrow> u32 \<Rightarrow> u32 \<times> string" where
  "anon_refno (c # cs) n =
     (if c = CHR ''+'' then anon_refno cs (n + 1) else if c = CHR ''-'' then anon_refno cs (n - 1) else (n, c # cs))"
| "anon_refno [] n = (n, [])"

definition get_local_label :: "expconf \<Rightarrow> prog \<Rightarrow> string \<Rightarrow> (string \<times> string) option" where
  "get_local_label o' q s =
     (let anon =
        (if ch s 0 = CHR '':'' \<and> (ch s 1 = CHR ''+'' \<or> ch s 1 = CHR ''-'') then
           (case anon_refno (drop 2 s) (if ch s 1 = CHR ''+'' then anon_labno o' + 1 else anon_labno o') of
              (refno, s) \<Rightarrow> Some (make_local_label '':'' (digits_of 10 (unat refno)) q, skip s))
         else None)
      in case skip_local o' s of
        None \<Rightarrow> anon
      | Some p \<Rightarrow>
          if ch p 0 = CHR ''.'' \<and> isidchar o' (ch p 1) \<and> isidstart (ch s 0) \<and> ch s 0 \<noteq> CHR ''.'' \<and> last (up_to p s) \<noteq> CHR ''$'' then
            (let r = dropWhile (isidchar o') (drop 1 p) in Some (make_local_label (up_to p s) (up_to r p) q, skip r))
          else if 1 < length (up_to p s) \<and> ch s 0 = CHR ''.'' then Some (make_local_label [] (up_to p s) q, skip p)
          else if 0 < length (up_to p s) \<and> ch p 0 = CHR ''$'' then Some (make_local_label [] (up_to (drop 1 p) s) q, skip (drop 1 p))
          else anon)"

definition skip_identifier :: "expconf \<Rightarrow> string \<Rightarrow> string option" where
  "skip_identifier o' s =
     (if isidstart (ch s 0) then
        (let r = dropWhile (isidchar o') (drop 1 s)
         in if length (up_to r s) = 1 \<and> (ch s 0 = CHR ''.'' \<or> ch s 0 = CHR ''_'') then None else Some r)
      else None)"

definition parse_identifier :: "expconf \<Rightarrow> string \<Rightarrow> (string \<times> string) option" where
  "parse_identifier o' s = map_option (\<lambda>r. (up_to r s, r)) (skip_identifier o' s)"

section \<open>Escape sequences\<close>

fun octal_code :: "nat \<Rightarrow> string \<Rightarrow> u8 \<Rightarrow> u8 \<times> string" where
  "octal_code (Suc n) (c # cs) v = (if isdigit c then octal_code n cs (v * 8 + of_nat (code c - 48)) else (v, c # cs))"
| "octal_code n cs v = (v, cs)"

fun hex_code :: "nat \<Rightarrow> string \<Rightarrow> u8 \<Rightarrow> u8 \<times> string" where
  "hex_code (Suc n) (c # cs) v = (if isxdigit c then hex_code n cs (v * 16 + of_nat (xvalue c)) else (v, c # cs))"
| "hex_code n cs v = (v, cs)"

text \<open>
  The character behind a backslash, for the text behind it. \<open>None\<close> is an unknown sequence, for
  which the code reports an error and sets no character.
\<close>

definition escape :: "expconf \<Rightarrow> string \<Rightarrow> (u8 \<times> string) option" where
  "escape o' s =
     (if \<not> esc_sequences o' then Some (92, s)
      else
        let c = ch s 0; one = (\<lambda>v. Some (v, drop 1 s)) in
        if c = CHR ''b'' then one 8
        else if c = CHR ''f'' then one 12
        else if c = CHR ''n'' then one 10
        else if c = CHR ''r'' then one 13
        else if c = CHR ''t'' then one 9
        else if code c = 92 \<or> code c = 34 \<or> code c = 39 then one (of_nat (code c))
        else if c = CHR ''e'' then one 27
        else if isdigit c then Some (octal_code 3 s 0)
        else if c = CHR ''x'' \<or> c = CHR ''X'' then Some (hex_code 2 (drop 1 s) 0)
        else None)"

end
