(* ===== verification/Exprparse.thy ===== *)
theory Exprparse
  imports Exprlex
begin

text \<open>
  The expression parser of \<open>src/expr.c\<close>. The position \<open>s\<close>, the type of constants and the number
  of temporary labels are static variables there, and a state here. The position is the rest of a
  line \<open>px_line\<close>, whose characters in front of it are looked at once. Each level of operators is a
  function of the parser of the next level; \<open>expression\<close> ties the knot with a fuel that bounds
  the nesting of parentheses.
\<close>

section \<open>State\<close>

datatype etype = T_NUM | T_HUG

record parser =
  prg :: prog
  px_line :: string
  px_s :: string
  exp_type :: etype
  make_tmp_lab :: bool
  tmplabcnt :: nat

type_synonym 'a parse = "(parser, 'a) step"

definition on_prog :: "(prog, 'a) step \<Rightarrow> 'a parse" where
  "on_prog m x = (case m (prg x) of Inl e \<Rightarrow> Inl e | Inr (q, y) \<Rightarrow> Inr (x\<lparr>prg := q\<rparr>, y))"

definition goto :: "string \<Rightarrow> unit parse" where
  "goto s = modify (\<lambda>x. x\<lparr>px_s := s\<rparr>)"

definition EXPSKIP :: "expconf \<Rightarrow> unit parse" where
  "EXPSKIP o' = modify (\<lambda>x. x\<lparr>px_s := exp_skip o' (px_s x)\<rparr>)"

section \<open>Symbols\<close>

definition current_pc_name :: string where
  "current_pc_name = '' *current pc dummy*''"

definition curpc_expr :: "(prog, expr) step" where
  "curpc_expr = bind_st get (\<lambda>p.
     case cpc (core p) of
       Some y \<Rightarrow> return (SYM y)
     | None \<Rightarrow>
         bind_st (new_import current_pc_name) (\<lambda>y.
         bind_st (upd_symbol y (\<lambda>x. set_flag (VASMINTERN OR PROTECTED) (x\<lparr>sym_type := LABSYM\<rparr>))) (\<lambda>_.
         bind_st (modify (\<lambda>p. p\<lparr>core := (core p)\<lparr>cpc := Some y\<rparr>\<rparr>)) (\<lambda>_. return (SYM y)))))"

definition new_tmplabel :: "expconf \<Rightarrow> symid parse" where
  "new_tmplabel o' = bind_st get (\<lambda>x.
     bind_st (modify (\<lambda>x. x\<lparr>tmplabcnt := tmplabcnt x + 1\<rparr>)) (\<lambda>_.
     on_prog (new_labsym (is_mnemonic o') (is_directive o') None ('' *tmp'' @ zero_padded 9 (digits_of 10 (tmplabcnt x)) @ ''*''))))"

text \<open>A use of a symbol that has been found, or is imported: an equate stands for its expression.\<close>

definition use_symbol :: "string \<Rightarrow> (prog, expr) step" where
  "use_symbol name = bind_st (find_symbol name) (\<lambda>r.
     bind_st (case r of Some y \<Rightarrow> return y | None \<Rightarrow> new_import name) (\<lambda>y.
     bind_st (upd_symbol y (set_flag USED)) (\<lambda>_. bind_st get (\<lambda>p.
     let x = sym (core p) y
     in if sym_type x \<noteq> EXPRESSION then return (SYM y)
        else case sym_expr x of None \<Rightarrow> fail Undefined | Some e \<Rightarrow> return e))))"

section \<open>Constants\<close>

text \<open>
  A number that does not fit becomes a huge one, and so do all constants behind it. The sign of a
  hexadecimal constant (\<open>$-ff\<close>) is found in front of its digits, and applied to a small number
  only. The result is the expression with the text behind the digits.
\<close>

definition minus_in_front :: "string \<Rightarrow> string \<Rightarrow> bool" where
  "minus_in_front line m \<longleftrightarrow> (let front = take (length line - length m) line in drop (length front - 2) front = ''$-'')"

definition read_number :: "nat \<Rightarrow> bool \<Rightarrow> string \<Rightarrow> etype \<Rightarrow> expr \<times> string" where
  "read_number base msign m t =
     (let huge = (case read_huge base m \<lparr>hi = 0, lo = 0\<rparr> of (h, r) \<Rightarrow> (HUG h, r))
      in case t of
        T_HUG \<Rightarrow> huge
      | T_NUM \<Rightarrow>
          (case (if base = 16 then read_hex m 0 else read_digits base m 0) of
             None \<Rightarrow> huge
           | Some (v, r) \<Rightarrow> (NUM (if base = 16 \<and> msign then - v else v), r)))"

definition is_huge :: "expr \<Rightarrow> etype" where
  "is_huge e = (case e of HUG _ \<Rightarrow> T_HUG | _ \<Rightarrow> T_NUM)"

definition constant_expr :: "expconf \<Rightarrow> string \<Rightarrow> nat \<Rightarrow> expr parse" where
  "constant_expr o' m base = bind_st get (\<lambda>x.
     let start = px_s x
     in case read_number base (minus_in_front (px_line x) m) m (exp_type x) of (e, r) \<Rightarrow>
          bind_st (modify (\<lambda>x. x\<lparr>exp_type := is_huge e\<rparr>)) (\<lambda>_.
          if r = m then bind_st (goto r) (\<lambda>_. bind_st (on_prog (error 75)) (\<lambda>_. return (NUM (- 1))))
          else bind_st (goto (const_suffix start r)) (\<lambda>_. bind_st (EXPSKIP o') (\<lambda>_. return e))))"

text \<open>
  A character constant, without the quote it begins with. It ends at the quote, or after as many
  characters as the syntax module allows. At the end of the line the code reports an error, but
  goes on behind the end of the text.
\<close>

definition quoted_char :: "expconf \<Rightarrow> char \<Rightarrow> string \<Rightarrow> stop + (u8 \<times> string) option" where
  "quoted_char o' quote s =
     (if code (ch s 0) = 92 then
        (case escape o' (drop 1 s) of None \<Rightarrow> Inl Undefined | Some r \<Rightarrow> Inr (Some r))
      else if ch s 0 = quote then
        (if ch s 1 = quote then Inr (Some (of_char quote, drop 2 s)) else Inr None)
      else Inr (Some (of_char (ch s 0), drop 1 s)))"

fun char_constant :: "nat \<Rightarrow> expconf \<Rightarrow> char \<Rightarrow> nat \<Rightarrow> taddr \<Rightarrow> taddr parse" where
  "char_constant 0 o' quote cnt val = fail Runaway"
| "char_constant (Suc k) o' quote cnt val = bind_st get (\<lambda>x.
     let s = px_s x
     in if s = [] then fail Undefined
        else case quoted_char o' quote s of
          Inl e \<Rightarrow> fail e
        | Inr None \<Rightarrow> bind_st (goto (drop 1 s)) (\<lambda>_. return val)
        | Inr (Some (c, r)) \<Rightarrow>
            bind_st (goto r) (\<lambda>_.
            if charspertaddr o' < cnt + 1 then bind_st (on_prog (error 21)) (\<lambda>_. return val)
            else
              let val = val + push_bit (8 * cnt) (ucast c)
              in if charsperexp o' \<le> cnt + 1 \<and> ch r 0 \<noteq> quote then return val
                 else char_constant k o' quote (cnt + 1) val))"

section \<open>Operands\<close>

definition current_pc :: "expconf \<Rightarrow> expr parse" where
  "current_pc o' = bind_st (EXPSKIP o') (\<lambda>_. bind_st get (\<lambda>x.
     if make_tmp_lab x then
       bind_st (new_tmplabel o') (\<lambda>y. bind_st (on_prog (add_atom None (new_label_atom y))) (\<lambda>_. return (SYM y)))
     else on_prog curpc_expr))"

definition named_expr :: "expconf \<Rightarrow> string \<Rightarrow> string \<Rightarrow> expr parse" where
  "named_expr o' name r =
     bind_st (goto r) (\<lambda>_. bind_st (EXPSKIP o') (\<lambda>_. on_prog (use_symbol name)))"

definition quoted_expr :: "expconf \<Rightarrow> string \<Rightarrow> expr parse" where
  "quoted_expr o' m =
     bind_st (goto (drop 1 m)) (\<lambda>_.
     bind_st (char_constant (length m + 1) o' (ch m 0) 0 0) (\<lambda>v.
     bind_st (EXPSKIP o') (\<lambda>_. return (NUM v))))"

definition paren_expr :: "expconf \<Rightarrow> expr parse \<Rightarrow> expr parse" where
  "paren_expr o' expression = bind_st get (\<lambda>x.
     bind_st (goto (drop 1 (px_s x))) (\<lambda>_.
     bind_st (EXPSKIP o') (\<lambda>_.
     bind_st expression (\<lambda>e. bind_st get (\<lambda>x.
     bind_st (if ch (px_s x) 0 \<noteq> CHR '')'' then on_prog (error 6) else goto (drop 1 (px_s x))) (\<lambda>_.
     bind_st (EXPSKIP o') (\<lambda>_. return e)))))))"

definition primary_expr :: "expconf \<Rightarrow> expr parse \<Rightarrow> expr parse" where
  "primary_expr o' expression = bind_st get (\<lambda>x.
     let s = px_s x
     in if ch s 0 = CHR ''('' then paren_expr o' expression
        else case get_local_label o' (prg x) s of
          Some (name, r) \<Rightarrow> bind_st (goto r) (\<lambda>_. on_prog (use_symbol name))
        | None \<Rightarrow>
            (case const_prefix o' s of (m, base) \<Rightarrow>
               if base \<noteq> 0 then constant_expr o' m base
               else if m \<noteq> [] \<and> ch m 0 = current_pc_char o' \<and> \<not> isidchar o' (ch m 1) then
                 bind_st (goto (drop 1 m)) (\<lambda>_. current_pc o')
               else case parse_identifier o' m of
                 Some (name, r) \<Rightarrow> named_expr o' name r
               | None \<Rightarrow>
                   if code (ch m 0) = 39 \<or> code (ch m 0) = 34 then quoted_expr o' m
                   else bind_st (goto m) (\<lambda>_. bind_st (on_prog (error 9)) (\<lambda>_. return (NUM (- 1))))))"

definition unary_expr :: "expconf \<Rightarrow> expr parse \<Rightarrow> expr parse" where
  "unary_expr o' primary = bind_st get (\<lambda>x.
     let s = px_s x; c = ch s 0;
         operand = (\<lambda>f. bind_st (goto (drop 1 s)) (\<lambda>_. bind_st (EXPSKIP o') (\<lambda>_. bind_st primary (\<lambda>e. return (f e)))))
     in if c = CHR ''+'' then operand id
        else if c = CHR ''-'' then operand (UNOP NEG)
        else if c = CHR ''!'' then operand (UNOP NOT')
        else if c = CHR ''~'' then operand (UNOP CPL)
        else primary)"

section \<open>Binary operators\<close>

text \<open>
  What an operator of a level looks like: the operator and the text behind it and the blanks that
  follow. The flag is \<open>m2\<close> of \<open>relational_expr\<close>.
\<close>

type_synonym operators = "expconf \<Rightarrow> bool \<Rightarrow> string \<Rightarrow> (bool \<times> binop \<times> string) option"

fun op_loop :: "nat \<Rightarrow> expconf \<Rightarrow> operators \<Rightarrow> bool \<Rightarrow> expr parse \<Rightarrow> bool \<Rightarrow> expr \<Rightarrow> expr parse" where
  "op_loop 0 o' ops blanks next m left = fail Runaway"
| "op_loop (Suc k) o' ops blanks next m left = bind_st get (\<lambda>x.
     case ops o' m (px_s x) of
       None \<Rightarrow> return left
     | Some (m, f, r) \<Rightarrow>
         bind_st (goto r) (\<lambda>_. bind_st next (\<lambda>right.
         bind_st (if blanks then EXPSKIP o' else return ()) (\<lambda>_.
         op_loop k o' ops blanks next m (BINOP f left right)))))"

definition op_level :: "operators \<Rightarrow> bool \<Rightarrow> expconf \<Rightarrow> expr parse \<Rightarrow> expr parse" where
  "op_level ops blanks o' next =
     bind_st next (\<lambda>left. bind_st (EXPSKIP o') (\<lambda>_. bind_st get (\<lambda>x.
       op_loop (length (px_s x) + 1) o' ops blanks next False left)))"

definition shift_ops :: operators where
  "shift_ops o' m s =
     (if (ch s 0 = CHR ''<'' \<or> ch s 0 = CHR ''>'') \<and> ch s 1 = ch s 0 then
        Some (m, if ch s 0 = CHR ''<'' then LSH else if unsigned_shift o' then RSHU else RSH, exp_skip o' (drop 2 s))
      else None)"

definition shift_expr :: "expconf \<Rightarrow> expr parse \<Rightarrow> expr parse" where
  "shift_expr = op_level shift_ops True"

definition and_ops :: operators where
  "and_ops o' m s = (if ch s 0 = CHR ''&'' \<and> ch s 1 \<noteq> CHR ''&'' then Some (m, BAND, exp_skip o' (drop 1 s)) else None)"

definition and_expr :: "expconf \<Rightarrow> expr parse \<Rightarrow> expr parse" where
  "and_expr = op_level and_ops False"

definition exclusive_or_ops :: operators where
  "exclusive_or_ops o' m s =
     (if ch s 0 = CHR ''^'' \<or> ch s 0 = CHR ''~'' then Some (m, XOR', exp_skip o' (drop 1 s)) else None)"

definition exclusive_or_expr :: "expconf \<Rightarrow> expr parse \<Rightarrow> expr parse" where
  "exclusive_or_expr = op_level exclusive_or_ops False"

definition inclusive_or_ops :: operators where
  "inclusive_or_ops o' m s =
     (if ch s 0 = CHR ''|'' \<and> ch s 1 \<noteq> CHR ''|'' \<or> ch s 0 = CHR ''!'' \<and> ch s 1 \<noteq> CHR ''='' then
        Some (m, BOR, exp_skip o' (drop 1 s))
      else None)"

definition inclusive_or_expr :: "expconf \<Rightarrow> expr parse \<Rightarrow> expr parse" where
  "inclusive_or_expr = op_level inclusive_or_ops False"

text \<open>The second slash of \<open>//\<close> is behind the blanks, and no blanks are skipped after it.\<close>

definition multiplicative_ops :: operators where
  "multiplicative_ops o' m s =
     (let r = exp_skip o' (drop 1 s)
      in if ch s 0 = CHR ''*'' then Some (m, MUL, r)
         else if ch s 0 = CHR ''%'' then Some (m, MOD, r)
         else if ch s 0 = CHR ''/'' then (if ch r 0 = CHR ''/'' then Some (m, MOD, drop 1 r) else Some (m, DIV, r))
         else None)"

definition multiplicative_expr :: "expconf \<Rightarrow> expr parse \<Rightarrow> expr parse" where
  "multiplicative_expr = op_level multiplicative_ops True"

definition additive_ops :: operators where
  "additive_ops o' m s =
     (if ch s 0 = CHR ''+'' \<and> ch s 1 \<noteq> CHR ''+'' \<or> ch s 0 = CHR ''-'' \<and> ch s 1 \<noteq> CHR ''-'' then
        Some (m, if ch s 0 = CHR ''+'' then ADD else SUB, exp_skip o' (drop 1 s))
      else None)"

definition additive_expr :: "expconf \<Rightarrow> expr parse \<Rightarrow> expr parse" where
  "additive_expr = op_level additive_ops True"

definition relational_ops :: operators where
  "relational_ops o' m s =
     (if (ch s 0 = CHR ''<'' \<and> ch s 1 \<noteq> CHR ''>'' \<or> ch s 0 = CHR ''>'') \<and> ch s 1 \<noteq> ch s 0 then
        (let m = m \<or> ch s 1 = CHR ''='';
             f = if ch s 0 = CHR ''<'' then (if m then LEQ else LT) else (if m then GEQ else GT)
         in Some (m, f, exp_skip o' (drop (if ch s 1 = CHR ''='' then 2 else 1) s)))
      else None)"

definition relational_expr :: "expconf \<Rightarrow> expr parse \<Rightarrow> expr parse" where
  "relational_expr = op_level relational_ops False"

definition equality_ops :: operators where
  "equality_ops o' m s =
     (if ch s 0 = CHR ''='' then
        Some (m, EQ, exp_skip o' (drop (if ch s 1 = CHR ''='' then 2 else 1) s))
      else if ch s 0 = CHR ''!'' \<and> ch s 1 = CHR ''='' \<or> ch s 0 = CHR ''<'' \<and> ch s 1 = CHR ''>'' then
        Some (m, NEQ, exp_skip o' (drop 2 s))
      else None)"

definition equality_expr :: "expconf \<Rightarrow> expr parse \<Rightarrow> expr parse" where
  "equality_expr = op_level equality_ops False"

definition logical_and_ops :: operators where
  "logical_and_ops o' m s = (if ch s 0 = CHR ''&'' \<and> ch s 1 = CHR ''&'' then Some (m, LAND, exp_skip o' (drop 2 s)) else None)"

definition logical_and_expr :: "expconf \<Rightarrow> expr parse \<Rightarrow> expr parse" where
  "logical_and_expr = op_level logical_and_ops False"

definition logical_or_ops :: operators where
  "logical_or_ops o' m s = (if ch s 0 = CHR ''|'' \<and> ch s 1 = CHR ''|'' then Some (m, LOR, exp_skip o' (drop 2 s)) else None)"

definition logical_or_expr :: "expconf \<Rightarrow> expr parse \<Rightarrow> expr parse" where
  "logical_or_expr = op_level logical_or_ops False"

fun expression :: "nat \<Rightarrow> expconf \<Rightarrow> expr parse" where
  "expression 0 o' = fail Runaway"
| "expression (Suc n) o' =
     logical_or_expr o' (logical_and_expr o' (equality_expr o' (relational_expr o' (additive_expr o' (multiplicative_expr o'
       (inclusive_or_expr o' (exclusive_or_expr o' (and_expr o' (shift_expr o'
         (unary_expr o' (primary_expr o' (expression n o'))))))))))))"

section \<open>Parsing an expression\<close>

definition parse_as :: "expconf \<Rightarrow> etype \<Rightarrow> bool \<Rightarrow> string \<Rightarrow> expr parse" where
  "parse_as o' t tmp s =
     bind_st (modify (\<lambda>x. x\<lparr>px_s := s, make_tmp_lab := tmp, exp_type := t\<rparr>)) (\<lambda>_.
     bind_st (expression (length s + 1) o') (\<lambda>e. on_prog (lift (simplify_expr e))))"

definition parse_expr :: "expconf \<Rightarrow> string \<Rightarrow> expr parse" where
  "parse_expr o' s = parse_as o' T_NUM False s"

definition parse_expr_tmplab :: "expconf \<Rightarrow> string \<Rightarrow> expr parse" where
  "parse_expr_tmplab o' s = parse_as o' T_NUM True s"

definition parse_expr_huge :: "expconf \<Rightarrow> string \<Rightarrow> expr parse" where
  "parse_expr_huge o' s = parse_as o' T_HUG False s"

definition parse_constexpr :: "expconf \<Rightarrow> string \<Rightarrow> taddr parse" where
  "parse_constexpr o' s = bind_st (parse_expr o' s) (\<lambda>e.
     case e of
       NUM v \<Rightarrow> return v
     | HUG _ \<Rightarrow> bind_st (on_prog (error 59)) (\<lambda>_. return 0)
     | _ \<Rightarrow> bind_st (on_prog (error 30)) (\<lambda>_. return 0))"

section \<open>Constants that are misread\<close>

text \<open>Decimal constants just above 32 bits wrap around; larger ones become huge numbers.\<close>

lemma decimal_constants_wrap:
  "read_number 10 False ''4294967299'' T_NUM = (NUM 3, [])"
  "fst (read_number 10 False ''4294967300'' T_NUM) = HUG \<lparr>hi = 0, lo = 4294967300\<rparr>"
  by code_simp+

text \<open>The minus behind the local label \<open>1$\<close> is taken for the sign of the constant, too.\<close>

lemma minus_behind_local_label:
  "minus_in_front ''1$-0ffh'' ''0ffh''"
  "const_prefix o' ''0ffh'' = (''0ffh'', if nointelsuffix o' then if nocprefix o' then 10 else 8 else 16)"
  "fst (read_number 16 True ''0ffh'' T_NUM) = NUM (- 255)"
  by (code_simp, simp add: const_prefix_def intel_suffix_def isdigit_def code_def isxdigit_def next_base_def tolower_c_def ch_def, code_simp)

end
