(* ===== verification/Exprround.thy ===== *)
theory Exprround
  imports Exprparse
begin

text \<open>
  What the expression parser accepts: an expression that is printed with no more parentheses than
  its precedences ask for is read back as it was.
\<close>

section \<open>Levels of operators\<close>

text \<open>The parsers from the primary expressions (0) to the logical or (11).\<close>

definition ops_at :: "nat \<Rightarrow> operators" where
  "ops_at i = [(\<lambda>_ _ _. None), (\<lambda>_ _ _. None), shift_ops, and_ops, exclusive_or_ops, inclusive_or_ops, multiplicative_ops,
     additive_ops, relational_ops, equality_ops, logical_and_ops, logical_or_ops] ! i"

definition blanks_at :: "nat \<Rightarrow> bool" where
  "blanks_at i \<longleftrightarrow> i \<in> {2, 6, 7}"

fun levels :: "expconf \<Rightarrow> expr parse \<Rightarrow> nat \<Rightarrow> expr parse" where
  "levels o' p 0 = primary_expr o' p"
| "levels o' p (Suc i) = (if i = 0 then unary_expr o' (levels o' p i) else op_level (ops_at (Suc i)) (blanks_at (Suc i)) o' (levels o' p i))"

lemma expression_levels: "expression (Suc n) o' = levels o' (expression n o') 11"
  by (simp add: eval_nat_numeral ops_at_def blanks_at_def shift_expr_def and_expr_def exclusive_or_expr_def inclusive_or_expr_def
      multiplicative_expr_def additive_expr_def relational_expr_def equality_expr_def logical_and_expr_def logical_or_expr_def)

fun prec :: "binop \<Rightarrow> nat" where
  "prec LSH = 2" | "prec RSH = 2" | "prec RSHU = 2" | "prec BAND = 3" | "prec XOR' = 4" | "prec BOR = 5"
| "prec MUL = 6" | "prec DIV = 6" | "prec MOD = 6" | "prec ADD = 7" | "prec SUB = 7"
| "prec LT = 8" | "prec GT = 8" | "prec LEQ = 8" | "prec GEQ = 8" | "prec EQ = 9" | "prec NEQ = 9" | "prec LAND = 10" | "prec LOR = 11"

fun op_text :: "binop \<Rightarrow> string" where
  "op_text LSH = ''<<''" | "op_text RSH = ''>>''" | "op_text RSHU = ''>>''" | "op_text BAND = ''&''" | "op_text XOR' = ''^''"
| "op_text BOR = ''|''" | "op_text MUL = ''*''" | "op_text DIV = ''/''" | "op_text MOD = ''%''" | "op_text ADD = ''+''"
| "op_text SUB = ''-''" | "op_text LT = ''<''" | "op_text GT = ''>''" | "op_text LEQ = ''<=''" | "op_text GEQ = ''>=''"
| "op_text EQ = ''==''" | "op_text NEQ = ''!=''" | "op_text LAND = ''&&''" | "op_text LOR = ''||''"

fun unop_text :: "unop \<Rightarrow> string" where
  "unop_text NEG = ''-''" | "unop_text CPL = ''~''" | "unop_text NOT' = ''!''"

section \<open>Printing\<close>

definition paren_if :: "bool \<Rightarrow> string \<Rightarrow> string" where
  "paren_if b s = (if b then ''('' @ s @ '')'' else s)"

text \<open>
  The expression as an operand of level \<open>i\<close>. Comparisons do not associate, because of the flag
  that the parser keeps between them, and a minus is kept away from another one.
\<close>

fun show_expr :: "prog \<Rightarrow> nat \<Rightarrow> expr \<Rightarrow> string" where
  "show_expr q i (NUM v) = digits_of 10 (unat v)"
| "show_expr q i (HUG h) = []"
| "show_expr q i (SYM y) = sym_name (sym (core q) y)"
| "show_expr q i (UNOP f e) = paren_if (i < 1) (unop_text f @ show_expr q 0 e)"
| "show_expr q i (BINOP f l r) =
     (let j = prec f; t = show_expr q (j - 1) r
      in paren_if (i < j) (show_expr q (if j = 8 then 7 else j) l @ op_text f
           @ (if f = SUB \<and> ch t 0 = CHR ''-'' then show_expr q 0 r else t)))"

text \<open>Expressions that can be printed: no huge numbers, and symbols that a name stands for.\<close>

definition readable_name :: "expconf \<Rightarrow> string \<Rightarrow> bool" where
  "readable_name o' n \<longleftrightarrow> n \<noteq> [] \<and> (isalpha (hd n) \<or> hd n = CHR ''_'') \<and> list_all (isidchar o') n \<and> n \<noteq> ''_''"

definition readable_symbol :: "expconf \<Rightarrow> prog \<Rightarrow> symid \<Rightarrow> bool" where
  "readable_symbol o' q y \<longleftrightarrow>
     (let x = sym (core q) y
      in y < length (syms (core q)) \<and> readable_name o' (sym_name x) \<and> lookup q (sym_name x) = Some y \<and> sym_type x \<noteq> EXPRESSION)"

fun readable :: "expconf \<Rightarrow> prog \<Rightarrow> expr \<Rightarrow> bool" where
  "readable o' q (NUM v) = True"
| "readable o' q (HUG h) = False"
| "readable o' q (SYM y) = readable_symbol o' q y"
| "readable o' q (UNOP f e) = readable o' q e"
| "readable o' q (BINOP f l r) =
     (readable o' q l \<and> readable o' q r \<and> (f = RSH \<longrightarrow> \<not> unsigned_shift o') \<and> (f = RSHU \<longrightarrow> unsigned_shift o'))"

definition plain_conf :: "expconf \<Rightarrow> bool" where
  "plain_conf o' \<longleftrightarrow> \<not> igntrail o' \<and> commentchar o' = CHR '';'' \<and> current_pc_char o' = CHR ''*''"

section \<open>Characters\<close>

lemma ch_simps [simp]: "ch [] i = CHR 0x00" "ch (c # cs) 0 = c" "ch (c # cs) (Suc i) = ch cs i"
  by (simp_all add: ch_def)

lemma ch_numeral [simp]: "ch (c # cs) 1 = ch cs 0" "ch (c # cs) 2 = ch cs 1"
  by (simp_all add: ch_def numeral_2_eq_2)

lemma code_eq: "c = d \<longleftrightarrow> code c = code d"
  by (simp add: code_def)

definition start_char :: "char \<Rightarrow> bool" where
  "start_char c \<longleftrightarrow> isdigit c \<or> isalpha c \<or> c = CHR ''_'' \<or> c = CHR ''('' \<or> c = CHR ''-'' \<or> c = CHR ''!'' \<or> c = CHR ''~''"

definition delims :: string where
  "delims = ''+-*/%&|^~!=<>),]''"

definition ends :: "string \<Rightarrow> bool" where
  "ends rest \<longleftrightarrow> rest = [] \<or> hd rest \<in> set delims"

lemma start_char_not:
  "start_char c \<Longrightarrow> \<not> isspace c \<and> c \<notin> set '';<>&|=/+*%^),'' \<and> c \<noteq> CHR 0x00"
  by (auto simp: start_char_def isdigit_def isalpha_def isspace_def code_def)

lemma delim_not:
  "d \<in> set delims \<Longrightarrow> \<not> isspace d \<and> \<not> isdigit d \<and> \<not> isalpha d \<and> \<not> isxdigit d \<and> d \<notin> set '';_.$#:('' \<and> d \<noteq> CHR 0x00"
  by (auto simp: delims_def isdigit_def isalpha_def isxdigit_def isspace_def code_def)

lemma exp_skip_start: "plain_conf o' \<Longrightarrow> start_char c \<Longrightarrow> exp_skip o' (c # cs) = c # cs"
  using start_char_not [of c] by (simp add: exp_skip_def skip_def plain_conf_def Let_def)

lemma exp_skip_ends: "plain_conf o' \<Longrightarrow> ends rest \<Longrightarrow> exp_skip o' rest = rest"
  using delim_not [of "hd rest"] by (cases rest) (auto simp: exp_skip_def skip_def plain_conf_def Let_def ends_def)

lemma EXPSKIP_ends: "plain_conf o' \<Longrightarrow> ends (px_s x) \<Longrightarrow> EXPSKIP o' x = Inr (x, ())"
  by (simp add: EXPSKIP_def modify_def exp_skip_ends)

definition starts :: "string \<Rightarrow> bool" where
  "starts t \<longleftrightarrow> t \<noteq> [] \<and> start_char (hd t)"

lemma op_read:
  assumes "plain_conf o'" and "starts t" and "f = SUB \<longrightarrow> hd t \<noteq> CHR ''-''"
    and "f = RSH \<longrightarrow> \<not> unsigned_shift o'" and "f = RSHU \<longrightarrow> unsigned_shift o'"
  shows "ops_at (prec f) o' False (op_text f @ t) = Some (f = LEQ \<or> f = GEQ, f, t)"
proof -
  obtain c cs where t: "t = c # cs" and c: "start_char c" using assms(2) by (cases t) (auto simp: starts_def)
  show ?thesis
    using assms(1,3-5) start_char_not [OF c] exp_skip_start [OF assms(1) c]
    by (cases f) (simp_all add: t ops_at_def eval_nat_numeral shift_ops_def and_ops_def exclusive_or_ops_def inclusive_or_ops_def
        multiplicative_ops_def additive_ops_def relational_ops_def equality_ops_def logical_and_ops_def logical_or_ops_def Let_def)
qed

definition follows :: "expconf \<Rightarrow> nat \<Rightarrow> string \<Rightarrow> bool" where
  "follows o' i rest \<longleftrightarrow> ends rest \<and> (\<forall>j m. j \<le> i \<longrightarrow> ops_at j o' m rest = None)"

lemma op_follows:
  assumes "starts t" and "f = SUB \<longrightarrow> hd t \<noteq> CHR ''-''" and "j < prec f"
  shows "ops_at j o' m (op_text f @ t) = None"
proof -
  obtain c cs where t: "t = c # cs" and c: "start_char c" using assms(1) by (cases t) (auto simp: starts_def)
  have "prec f \<le> 11" by (cases f) simp_all
  then have "j = 0 \<or> j = 1 \<or> j = 2 \<or> j = 3 \<or> j = 4 \<or> j = 5 \<or> j = 6 \<or> j = 7 \<or> j = 8 \<or> j = 9 \<or> j = 10"
    using assms(3) by presburger
  then show ?thesis
    using assms(3) start_char_not [OF c]
    by (cases f) (auto simp: t ops_at_def eval_nat_numeral shift_ops_def and_ops_def exclusive_or_ops_def inclusive_or_ops_def
        multiplicative_ops_def additive_ops_def relational_ops_def equality_ops_def logical_and_ops_def logical_or_ops_def Let_def)
qed

lemma paren_follows: "j \<le> 11 \<Longrightarrow> ops_at j o' m ('')'' @ rest) = None"
proof -
  assume "j \<le> 11"
  then have "j = 0 \<or> j = 1 \<or> j = 2 \<or> j = 3 \<or> j = 4 \<or> j = 5 \<or> j = 6 \<or> j = 7 \<or> j = 8 \<or> j = 9 \<or> j = 10 \<or> j = 11"
    by presburger
  then show ?thesis
    by (auto simp: ops_at_def eval_nat_numeral shift_ops_def and_ops_def exclusive_or_ops_def inclusive_or_ops_def
        multiplicative_ops_def additive_ops_def relational_ops_def equality_ops_def logical_and_ops_def logical_or_ops_def Let_def)
qed

section \<open>Parsing a level\<close>

text \<open>
  A program in which more symbols are used, and more lookups were counted. A parser reads the text
  \<open>s\<close> in front of a rest it stops at, and changes only this and the position.
\<close>

definition used_since :: "prog \<Rightarrow> prog \<Rightarrow> bool" where
  "used_since q q' \<longleftrightarrow> (\<exists>zs c. q' = q\<lparr>core := (core q)\<lparr>syms := zs\<rparr>, symhash := (symhash q)\<lparr>collisions := c\<rparr>\<rparr>
     \<and> map (set_flag USED) zs = map (set_flag USED) (syms (core q)))"

lemma used_since_refl [simp]: "used_since q q"
  unfolding used_since_def by (intro exI [where x = "syms (core q)"] exI [where x = "collisions (symhash q)"]) simp

lemma used_since_trans: "used_since q q1 \<Longrightarrow> used_since q1 q2 \<Longrightarrow> used_since q q2"
  unfolding used_since_def by (elim exE conjE) (simp, blast)

definition reads :: "prog \<Rightarrow> expr parse \<Rightarrow> string \<Rightarrow> expr \<Rightarrow> (string \<Rightarrow> bool) \<Rightarrow> bool" where
  "reads q m s e F \<longleftrightarrow> (\<forall>x rest. used_since q (prg x) \<and> exp_type x = T_NUM \<and> px_s x = s @ rest \<and> F rest \<longrightarrow>
     (\<exists>q'. used_since q q' \<and> m x = Inr (x\<lparr>px_s := rest, prg := q'\<rparr>, e)))"

lemma readsD:
  assumes "reads q m s e F" and "used_since q (prg x)" and "exp_type x = T_NUM" and "px_s x = s @ rest" and "F rest"
  obtains q' where "used_since q q'" and "m x = Inr (x\<lparr>px_s := rest, prg := q'\<rparr>, e)"
  using assms unfolding reads_def by blast

lemma readsI:
  "(\<And>x rest. used_since q (prg x) \<Longrightarrow> exp_type x = T_NUM \<Longrightarrow> px_s x = s @ rest \<Longrightarrow> F rest \<Longrightarrow>
     \<exists>q'. used_since q q' \<and> m x = Inr (x\<lparr>px_s := rest, prg := q'\<rparr>, e)) \<Longrightarrow> reads q m s e F"
  by (simp add: reads_def)

lemma follows_less: "follows o' i rest \<Longrightarrow> j \<le> i \<Longrightarrow> follows o' j rest"
  by (auto simp: follows_def)

text \<open>
  After the operand \<open>e\<close> the loop of a level goes on behind it. The flag is only set behind a
  comparison.
\<close>

definition reaches :: "expconf \<Rightarrow> prog \<Rightarrow> expr parse \<Rightarrow> nat \<Rightarrow> string \<Rightarrow> expr \<Rightarrow> bool \<Rightarrow> bool" where
  "reaches o' q p j s e chained \<longleftrightarrow> (\<forall>x rest. used_since q (prg x) \<and> exp_type x = T_NUM \<and> px_s x = s @ rest \<and> follows o' (j - 1) rest \<longrightarrow>
     (\<exists>k m q'. length rest < k \<and> (chained \<or> \<not> m) \<and> used_since q q' \<and>
        levels o' p j x = op_loop k o' (ops_at j) (blanks_at j) (levels o' p (j - 1)) m e (x\<lparr>px_s := rest, prg := q'\<rparr>)))"

lemma reachesD:
  assumes "reaches o' q p j s e chained" and "used_since q (prg x)" and "exp_type x = T_NUM" and "px_s x = s @ rest" and "follows o' (j - 1) rest"
  obtains k m q' where "length rest < k" and "chained \<or> \<not> m" and "used_since q q'"
    and "levels o' p j x = op_loop k o' (ops_at j) (blanks_at j) (levels o' p (j - 1)) m e (x\<lparr>px_s := rest, prg := q'\<rparr>)"
  using assms unfolding reaches_def by blast

lemma reachesI:
  assumes "\<And>x rest. used_since q (prg x) \<Longrightarrow> exp_type x = T_NUM \<Longrightarrow> px_s x = s @ rest \<Longrightarrow> follows o' (j - 1) rest \<Longrightarrow>
     \<exists>k m q'. length rest < k \<and> (chained \<or> \<not> m) \<and> used_since q q' \<and>
        levels o' p j x = op_loop k o' (ops_at j) (blanks_at j) (levels o' p (j - 1)) m e (x\<lparr>px_s := rest, prg := q'\<rparr>)"
  shows "reaches o' q p j s e chained"
  using assms unfolding reaches_def by blast

lemma levels_op: "2 \<le> j \<Longrightarrow> levels o' p j = op_level (ops_at j) (blanks_at j) o' (levels o' p (j - 1))"
  by (cases j) simp_all

lemma reaches_operand:
  assumes "plain_conf o'" and "2 \<le> j" and "reads q (levels o' p (j - 1)) s e (follows o' (j - 1))"
  shows "reaches o' q p j s e False"
proof (rule reachesI)
  fix x :: parser and rest
  assume x: "used_since q (prg x)" "exp_type x = T_NUM" "px_s x = s @ rest" "follows o' (j - 1) rest"
  obtain q' where q': "used_since q q'" "levels o' p (j - 1) x = Inr (x\<lparr>px_s := rest, prg := q'\<rparr>, e)"
    using readsD [OF assms(3) x] .
  let ?x = "x\<lparr>px_s := rest, prg := q'\<rparr>"
  have "EXPSKIP o' ?x = Inr (?x, ())" using x(4) by (intro EXPSKIP_ends [OF assms(1)]) (simp add: follows_def)
  then have "levels o' p j x = op_loop (length rest + 1) o' (ops_at j) (blanks_at j) (levels o' p (j - 1)) False e ?x"
    using q'(2) by (simp add: levels_op [OF assms(2)] op_level_def bind_st_def get_def del: op_loop.simps)
  then show "\<exists>k m q'. length rest < k \<and> (False \<or> \<not> m) \<and> used_since q q' \<and>
        levels o' p j x = op_loop k o' (ops_at j) (blanks_at j) (levels o' p (j - 1)) m e (x\<lparr>px_s := rest, prg := q'\<rparr>)"
    using q'(1) by (intro exI [where x = "length rest + 1"] exI [where x = False] exI [where x = q'] conjI) simp_all
qed

lemma reaches_operator:
  assumes "plain_conf o'" and "reaches o' q p (prec f) s l False" and "reads q (levels o' p (prec f - 1)) t r (follows o' (prec f - 1))"
    and "starts t" and "f = SUB \<longrightarrow> hd t \<noteq> CHR ''-''" and "f = RSH \<longrightarrow> \<not> unsigned_shift o'" and "f = RSHU \<longrightarrow> unsigned_shift o'"
  shows "reaches o' q p (prec f) (s @ op_text f @ t) (BINOP f l r) (prec f = 8)"
proof (rule reachesI)
  fix x :: parser and rest
  assume x: "used_since q (prg x)" "exp_type x = T_NUM" "px_s x = (s @ op_text f @ t) @ rest" "follows o' (prec f - 1) rest"
  let ?j = "prec f" and ?u = "op_text f @ t @ rest"
  have st: "starts (t @ rest)" and hd: "hd (t @ rest) = hd t" using assms(4) by (auto simp: starts_def)
  have pos: "2 \<le> ?j" by (cases f) simp_all
  have len: "0 < length (op_text f)" by (cases f) simp_all
  have "ends ?u" by (cases f) (simp_all add: ends_def delims_def)
  moreover have "ops_at i o' m ?u = None" if "i < ?j" for i m using op_follows [OF st _ that] assms(5) hd by simp
  ultimately have "follows o' (?j - 1) ?u" using pos by (auto simp: follows_def)
  then obtain k q1 where k: "length ?u < k" and q1: "used_since q q1"
    and a: "levels o' p ?j x = op_loop k o' (ops_at ?j) (blanks_at ?j) (levels o' p (?j - 1)) False l (x\<lparr>px_s := ?u, prg := q1\<rparr>)"
    using reachesD [OF assms(2), of x ?u] x by (metis append.assoc)
  obtain k' where k': "k = Suc k'" using k by (cases k) auto
  let ?m = "f = LEQ \<or> f = GEQ"
  have o: "ops_at ?j o' False ?u = Some (?m, f, t @ rest)"
    using op_read [OF assms(1) st _ assms(6,7)] assms(5) hd by simp
  obtain q2 where q2: "used_since q q2" and n: "levels o' p (?j - 1) (x\<lparr>prg := q1, px_s := t @ rest\<rparr>) = Inr (x\<lparr>px_s := rest, prg := q2\<rparr>, r)"
    using readsD [OF assms(3), of "x\<lparr>prg := q1, px_s := t @ rest\<rparr>" rest] x q1 by auto
  let ?x = "x\<lparr>px_s := rest, prg := q2\<rparr>"
  have "EXPSKIP o' ?x = Inr (?x, ())" using x(4) by (intro EXPSKIP_ends [OF assms(1)]) (simp add: follows_def)
  with n have "levels o' p ?j x = op_loop k' o' (ops_at ?j) (blanks_at ?j) (levels o' p (?j - 1)) ?m (BINOP f l r) ?x"
    unfolding a k' by (simp add: action_defs goto_def o)
  moreover have "length rest < k'" using k len unfolding k' length_append by linarith
  moreover have "?j = 8 \<or> \<not> ?m" by auto
  ultimately show "\<exists>k m q'. length rest < k \<and> (?j = 8 \<or> \<not> m) \<and> used_since q q' \<and>
        levels o' p ?j x = op_loop k o' (ops_at ?j) (blanks_at ?j) (levels o' p (?j - 1)) m (BINOP f l r) (x\<lparr>px_s := rest, prg := q'\<rparr>)"
    using q2 by (intro exI [where x = k'] exI [where x = ?m] exI [where x = q2] conjI)
qed

lemma reaches_end:
  assumes "reaches o' q p j s e chained" and "2 \<le> j"
  shows "reads q (levels o' p j) s e (follows o' j)"
proof (rule readsI)
  fix x :: parser and rest
  assume x: "used_since q (prg x)" "exp_type x = T_NUM" "px_s x = s @ rest" "follows o' j rest"
  then have "follows o' (j - 1) rest" by (auto intro: follows_less)
  from reachesD [OF assms(1) x(1-3) this] obtain k m q' where k: "length rest < k" and q': "used_since q q'"
    and l: "levels o' p j x = op_loop k o' (ops_at j) (blanks_at j) (levels o' p (j - 1)) m e (x\<lparr>px_s := rest, prg := q'\<rparr>)"
    by metis
  have "ops_at j o' m rest = None" using x(4) by (simp add: follows_def)
  then have "levels o' p j x = Inr (x\<lparr>px_s := rest, prg := q'\<rparr>, e)" using k l by (cases k) (simp_all add: action_defs)
  then show "\<exists>q'. used_since q q' \<and> levels o' p j x = Inr (x\<lparr>px_s := rest, prg := q'\<rparr>, e)" using q' by blast
qed

lemma reads_next:
  assumes "plain_conf o'" and "2 \<le> j" and "reads q (levels o' p (j - 1)) s e (follows o' (j - 1))"
  shows "reads q (levels o' p j) s e (follows o' j)"
  using reaches_end [OF reaches_operand [OF assms] assms(2)] .

lemma reads_unary:
  assumes "reads q (levels o' p 0) s e (follows o' 0)" and "s \<noteq> []" and "hd s \<notin> set ''+-!~''"
  shows "reads q (levels o' p 1) s e (follows o' 1)"
proof (rule readsI)
  fix x :: parser and rest
  assume x: "used_since q (prg x)" "exp_type x = T_NUM" "px_s x = s @ rest" "follows o' 1 rest"
  have "follows o' 0 rest" using x(4) by (rule follows_less) simp
  then obtain q' where "used_since q q'" "primary_expr o' p x = Inr (x\<lparr>px_s := rest, prg := q'\<rparr>, e)"
    using readsD [OF assms(1) x(1-3)] by auto
  then show "\<exists>q'. used_since q q' \<and> levels o' p 1 x = Inr (x\<lparr>px_s := rest, prg := q'\<rparr>, e)"
    using assms(2,3) x(3) by (cases s) (auto simp: unary_expr_def action_defs Let_def)
qed

lemma reads_up:
  assumes "plain_conf o'" and "reads q (levels o' p i) s e (follows o' i)" and "i \<le> j" and "1 \<le> i"
  shows "reads q (levels o' p j) s e (follows o' j)"
  using assms(3)
proof (induction j rule: dec_induct)
  case base
  then show ?case using assms(2) .
next
  case (step j)
  then show ?case using reads_next [OF assms(1), of "Suc j"] assms(4) by simp
qed

section \<open>Operands\<close>

lemma digit_char_props: "d < 10 \<Longrightarrow> isdigit (digit_char d) \<and> code (digit_char d) = 48 + d"
  by (simp add: digit_char_def isdigit_def code_def)

lemma digits_all: "list_all isdigit (digits_of 10 n)"
proof (induction n rule: less_induct)
  case (less n)
  then show ?case
    by (subst digits_of.simps) (use digit_char_props [of n] digit_char_props [of "n mod 10"] in auto)
qed

lemma digits_nonempty: "digits_of b n \<noteq> []"
  by (subst digits_of.simps) simp

text \<open>A decimal number starts with a zero only when it is zero.\<close>

lemma digits_zero: "hd (digits_of 10 n) = CHR ''0'' \<Longrightarrow> n = 0"
proof (induction n rule: less_induct)
  case (less n)
  show ?case
  proof (cases "n < 10")
    case True
    then have "48 + n = 48" using less.prems digit_char_props [of n] by (simp add: digits_of.simps [of 10 n] code_def)
    then show ?thesis by simp
  next
    case False
    then have "hd (digits_of 10 (n div 10)) = CHR ''0''"
      using less.prems digits_nonempty by (simp add: digits_of.simps [of 10 n])
    then have "n div 10 = 0" using less.IH False by simp
    then show ?thesis using False by simp
  qed
qed

lemma read_digits_append:
  assumes "\<forall>c \<in> set xs. 48 \<le> code c \<and> code c < base + 48"
  shows "read_digits base (xs @ ys) v = (case read_digits base xs v of None \<Rightarrow> None | Some (v, _) \<Rightarrow> read_digits base ys v)"
  using assms by (induction xs arbitrary: v) (simp_all add: Let_def)

lemma read_decimal:
  assumes "n < 2 ^ 32"
  shows "read_digits 10 (digits_of 10 n) 0 = Some (of_nat n, [])"
  using assms
proof (induction n rule: less_induct)
  case (less n)
  show ?case
  proof (cases "n < 10")
    case True
    then show ?thesis using digit_char_props [of n] by (simp add: digits_of.simps [of 10 n])
  next
    case False
    let ?v = "of_nat (n div 10) :: taddr"
    have "unat ?v = n div 10" using less.prems by (simp add: unsigned_of_nat take_bit_nat_eq_self)
    moreover have "10 * (n div 10) < 2 ^ 32" using less.prems by linarith
    ultimately have u: "unat (10 * ?v) = 10 * (n div 10)"
      by (simp add: unat_word_ariths)
    then have "unat (10 * ?v div 10) = unat ?v" using \<open>unat ?v = n div 10\<close> by (simp only: unat_div_distrib) simp
    then have q: "10 * ?v div 10 = ?v" by (rule word_unat_eq_iff [THEN iffD2])
    have "10 * ?v + of_nat (n mod 10) = of_nat (10 * (n div 10) + n mod 10)" by (simp only: of_nat_add of_nat_mult of_nat_numeral)
    then have e: "10 * ?v + of_nat (n mod 10) = of_nat n" by (simp only: mult_div_mod_eq)
    have "read_digits 10 (digits_of 10 (n div 10)) 0 = Some (?v, [])" using less False by simp
    moreover have "\<forall>c \<in> set (digits_of 10 (n div 10)). 48 \<le> code c \<and> code c < 10 + 48"
      using digits_all [of "n div 10"] by (auto simp: list_all_iff isdigit_def)
    ultimately show ?thesis
      using False digit_char_props [of "n mod 10"] q e
      by (simp add: digits_of.simps [of 10 n] read_digits_append Let_def)
  qed
qed

lemma read_rest: "ends rest \<Longrightarrow> read_digits base rest v = Some (v, rest)" if "base \<le> 10"
  using delim_not [of "hd rest"] that by (cases rest) (auto simp: ends_def isdigit_def)

text \<open>No suffix of another base behind a decimal number.\<close>

lemma intel_scan_digits:
  "list_all isdigit ds \<Longrightarrow> ends rest \<Longrightarrow> \<exists>b s. intel_scan (ds @ rest) base seen = (b, s, ch rest 0) \<and>
     (s = seen \<or> (\<exists>l c. s = Some (l, c) \<and> isdigit c))"
proof (induction ds arbitrary: base seen)
  case Nil
  then show ?case using delim_not [of "hd rest"] by (cases rest) (auto simp: ends_def)
next
  case (Cons c cs)
  then have "isxdigit c" by (simp add: isxdigit_def)
  then show ?case using Cons.IH [of "next_base base c" "Some (base, c)"] Cons.prems by auto
qed

lemma tolower_delim: "d \<in> set delims \<Longrightarrow> tolower_c d = d"
  by (auto simp: delims_def tolower_c_def)

lemma tolower_digit: "isdigit c \<Longrightarrow> tolower_c c = c"
  by (simp add: isdigit_def tolower_c_def code_def)

lemma no_suffix: "list_all isdigit ds \<Longrightarrow> ends rest \<Longrightarrow> intel_suffix (ds @ rest) = 0"
proof -
  assume d: "list_all isdigit ds" and r: "ends rest"
  obtain b s where s: "intel_scan (ds @ rest) 2 None = (b, s, ch rest 0)" "s = None \<or> (\<exists>l c. s = Some (l, c) \<and> isdigit c)"
    using intel_scan_digits [OF d r] by blast
  have "tolower_c (ch rest 0) \<notin> set ''hoq''"
  proof (cases rest)
    case Nil
    then show ?thesis by (simp add: tolower_c_def)
  next
    case (Cons d ds)
    then have "d \<in> set delims" using r by (simp add: ends_def)
    then show ?thesis by (auto simp: Cons tolower_delim) (auto simp: delims_def)
  qed
  moreover have "tolower_c c \<noteq> CHR ''d'' \<and> tolower_c c \<noteq> CHR ''b''" if "isdigit c" for c
    using that by (auto simp: tolower_digit isdigit_def code_def)
  ultimately show ?thesis using s(2) by (auto simp: intel_suffix_def s(1))
qed

text \<open>A word of identifier characters that does not look like a local label.\<close>

definition word_of :: "expconf \<Rightarrow> string \<Rightarrow> bool" where
  "word_of o' n \<longleftrightarrow> n \<noteq> [] \<and> list_all (isidchar o') n \<and> hd n \<noteq> CHR ''.''"

lemma dropWhile_word: "list_all P n \<Longrightarrow> rest = [] \<or> \<not> P (hd rest) \<Longrightarrow> dropWhile P (n @ rest) = rest"
  by (induction n) (auto simp: dropWhile_eq_self_iff)

lemma ends_idchar: "ends rest \<Longrightarrow> rest = [] \<or> \<not> isidchar o' (hd rest)"
  using delim_not [of "hd rest"] by (auto simp: ends_def isidchar_def)

lemma ends_ch: "ends rest \<Longrightarrow> ch rest 0 \<notin> set ''_.$#:(xXbB''"
proof (cases rest)
  case (Cons d ds)
  then show "ends rest \<Longrightarrow> ?thesis" by (auto simp: ends_def delims_def)
qed simp

lemma no_local_label:
  assumes "word_of o' n" and "ends rest"
  shows "get_local_label o' q (n @ rest) = None"
proof -
  obtain c cs where n: "n = c # cs" using assms(1) by (cases n) (auto simp: word_of_def)
  have "list_all (isidchar o') cs" using assms(1) by (simp add: n word_of_def)
  then have d: "dropWhile (isidchar o') (cs @ rest) = rest" using ends_idchar [OF assms(2)] by (rule dropWhile_word)
  have "c \<noteq> CHR '':''" "c \<noteq> CHR ''.''"
    using assms(1) by (auto simp: n word_of_def isidchar_def isalpha_def isdigit_def code_def)
  then show ?thesis using ends_ch [OF assms(2)] by (auto simp: n get_local_label_def skip_local_def d Let_def)
qed

lemma digits_of_zero: "digits_of 10 0 = ''0''"
  by code_simp

lemma digits_word: "word_of o' (digits_of 10 n)"
proof -
  have d: "list_all isdigit (digits_of 10 n)" by (rule digits_all)
  then have "isdigit (hd (digits_of 10 n))" using digits_nonempty [of 10 n] by (cases "digits_of 10 n") auto
  then have "hd (digits_of 10 n) \<noteq> CHR ''.''" by (auto simp: isdigit_def code_def)
  then show ?thesis using d digits_nonempty [of 10 n] by (auto simp: word_of_def isidchar_def list_all_iff)
qed

lemma name_word: "readable_name o' n \<Longrightarrow> word_of o' n"
  by (auto simp: readable_name_def word_of_def isalpha_def code_def)

lemma decimal_prefix:
  assumes "ends rest"
  shows "const_prefix o' (digits_of 10 n @ rest) = (digits_of 10 n @ rest, if \<not> nocprefix o' \<and> n = 0 then 8 else 10)"
proof -
  have d: "list_all isdigit (digits_of 10 n)" by (rule digits_all)
  obtain c cs where n: "digits_of 10 n = c # cs" using digits_nonempty [of 10 n] by (cases "digits_of 10 n") auto
  have s: "intel_suffix (c # cs @ rest) = 0" using no_suffix [OF d assms] by (simp add: n)
  have c: "isdigit c" using d by (simp add: n)
  have z: "c = CHR ''0'' \<longleftrightarrow> n = 0"
    using digits_zero [of n] n by (auto simp: digits_of_zero)
  have "ch (cs @ rest) 0 \<notin> set ''#xXbB''"
    using d ends_ch [OF assms] by (cases cs) (auto simp: n isdigit_def code_def)
  then show ?thesis by (simp add: n const_prefix_def s c z)
qed

lemma read_decimal_number:
  assumes "ends rest"
  shows "read_number (if \<not> nocprefix o' \<and> v = 0 then 8 else 10) ms (digits_of 10 (unat v) @ rest) T_NUM = (NUM v, rest)"
proof -
  let ?ds = "digits_of 10 (unat v)"
  have "unat v < 2 ^ 32" using unsigned_less [of v, where 'a = nat] by simp
  then have "read_digits 10 ?ds 0 = Some (v, [])" using read_decimal [of "unat v"] by simp
  moreover have "\<forall>c \<in> set ?ds. 48 \<le> code c \<and> code c < 10 + 48"
    using digits_all [of "unat v"] by (auto simp: list_all_iff isdigit_def)
  ultimately have "read_digits 10 (?ds @ rest) 0 = Some (v, rest)" using read_rest [OF _ assms, of 10] by (simp add: read_digits_append)
  moreover have "read_digits 8 (CHR ''0'' # rest) 0 = Some (0, rest)" using read_rest [OF _ assms, of 8] by (simp add: code_def)
  ultimately show ?thesis by (simp add: read_number_def digits_of_zero)
qed

lemma reads_decimal:
  assumes "plain_conf o'"
  shows "reads q (levels o' p 0) (digits_of 10 (unat v)) (NUM v) (follows o' 0)"
proof (rule readsI)
  fix x :: parser and rest
  assume x: "used_since q (prg x)" "exp_type x = T_NUM" "px_s x = digits_of 10 (unat v) @ rest" "follows o' 0 rest"
  let ?ds = "digits_of 10 (unat v)"
  have r: "ends rest" using x(4) by (simp add: follows_def)
  obtain c cs where n: "?ds = c # cs" using digits_nonempty [of 10 "unat v"] by (cases ?ds) auto
  have "isdigit c" using digits_all [of "unat v"] by (simp add: n)
  then have "c \<noteq> CHR ''(''" by (auto simp: isdigit_def code_def)
  then have "ch (?ds @ rest) 0 \<noteq> CHR ''(''" by (simp add: n)
  moreover have "rest \<noteq> ?ds @ rest" by (simp add: n)
  moreover obtain b where "const_prefix o' (?ds @ rest) = (?ds @ rest, b)" "b \<noteq> 0"
    and "\<And>ms. read_number b ms (?ds @ rest) T_NUM = (NUM v, rest)"
    using decimal_prefix [OF r, of o' "unat v"] read_decimal_number [OF r, of o' v]
    by (cases "\<not> nocprefix o' \<and> v = 0") (simp_all add: unat_eq_zero)
  moreover have "EXPSKIP o' (x\<lparr>exp_type := T_NUM, px_s := rest\<rparr>) = Inr (x\<lparr>px_s := rest\<rparr>, ())"
    using EXPSKIP_ends [OF assms, of "x\<lparr>exp_type := T_NUM, px_s := rest\<rparr>"] r x(2) by simp
  ultimately have "levels o' p 0 x = Inr (x\<lparr>px_s := rest, prg := prg x\<rparr>, NUM v)"
    using no_suffix [OF digits_all r, of "unat v"]
    by (simp add: primary_expr_def action_defs Let_def x(2,3) no_local_label [OF digits_word r]
        constant_expr_def is_huge_def const_suffix_def goto_def)
  then show "\<exists>q'. used_since q q' \<and> levels o' p 0 x = Inr (x\<lparr>px_s := rest, prg := q'\<rparr>, NUM v)" using x(1) by blast
qed

lemma ht_map_collisions: "ht_map nc (ht\<lparr>collisions := c\<rparr>) k = ht_map nc ht k"
  by (simp add: ht_map_def key_index_def)

lemma use_readable:
  assumes "readable_symbol o' q y" and "used_since q q1"
  shows "\<exists>q'. used_since q q' \<and> use_symbol (sym_name (sym (core q) y)) q1 = Inr (q', SYM y)"
proof -
  let ?n = "sym_name (sym (core q) y)"
  obtain zs c where q1: "q1 = q\<lparr>core := (core q)\<lparr>syms := zs\<rparr>, symhash := (symhash q)\<lparr>collisions := c\<rparr>\<rparr>"
    and zs: "map (set_flag USED) zs = map (set_flag USED) (syms (core q))"
    using assms(2) by (auto simp: used_since_def)
  have y: "y < length (syms (core q))" and l: "lookup q ?n = Some y" and t: "sym_type (sym (core q) y) \<noteq> EXPRESSION"
    using assms(1) by (simp_all add: readable_symbol_def Let_def)
  have len: "length zs = length (syms (core q))" using arg_cong [OF zs, of length] by simp
  have "set_flag USED (zs ! y) = set_flag USED (sym (core q) y)"
    using arg_cong [OF zs, of "\<lambda>xs. xs ! y"] y len by (simp add: sym_def)
  then have t1: "sym_type (zs ! y) \<noteq> EXPRESSION" using t by (auto simp: set_flag_def dest: arg_cong [where f = sym_type])
  have "lookup q1 ?n = Some y" using l by (simp add: q1 lookup_def ht_map_collisions)
  with find_symbol_total [of ?n q1] find_nc_map(2) [of "nocase q1" "symhash q1" ?n]
  obtain c' where f: "find_symbol ?n q1 = Inr (q1\<lparr>symhash := (symhash q1)\<lparr>collisions := c'\<rparr>\<rparr>, Some y)"
    by (auto simp: find_symbol_def action_defs split: prod.splits)
  have "map (set_flag USED) (zs[y := set_flag USED (zs ! y)]) = map (set_flag USED) zs"
  proof -
    have "set_flag USED (set_flag USED z) = set_flag USED z" for z by (simp add: set_flag_def or.assoc)
    then show ?thesis using y len by (simp add: map_update list_update_same_conv)
  qed
  with zs have "map (set_flag USED) (zs[y := set_flag USED (zs ! y)]) = map (set_flag USED) (syms (core q))" by (simp only:)
  then have "used_since q (q\<lparr>core := (core q)\<lparr>syms := zs[y := set_flag USED (zs ! y)]\<rparr>, symhash := (symhash q)\<lparr>collisions := c'\<rparr>\<rparr>)"
    unfolding used_since_def by blast
  then show ?thesis
    using f y len t1 unfolding q1
    by (intro exI [where x = "q\<lparr>core := (core q)\<lparr>syms := zs[y := set_flag USED (zs ! y)]\<rparr>, symhash := (symhash q)\<lparr>collisions := c'\<rparr>\<rparr>"] conjI)
      (simp_all add: use_symbol_def upd_symbol_def upd_sym_def sym_def set_flag_def action_defs Let_def)
qed

lemma reads_symbol:
  assumes "plain_conf o'" and "readable_symbol o' q y"
  shows "reads q (levels o' p 0) (sym_name (sym (core q) y)) (SYM y) (follows o' 0)"
proof (rule readsI)
  fix x :: parser and rest
  assume x: "used_since q (prg x)" "exp_type x = T_NUM" "px_s x = sym_name (sym (core q) y) @ rest" "follows o' 0 rest"
  have r: "ends rest" using x(4) by (simp add: follows_def)
  have n: "readable_name o' (sym_name (sym (core q) y))" using assms(2) by (simp add: readable_symbol_def Let_def)
  obtain c cs where c: "sym_name (sym (core q) y) = c # cs" using n by (cases "sym_name (sym (core q) y)") (auto simp: readable_name_def)
  have w: "isidstart c" "c \<notin> set ''($@%*.''" "\<not> isdigit c" "c = CHR ''_'' \<longrightarrow> cs \<noteq> []"
    using n by (auto simp: c readable_name_def isidstart_def isalpha_def isdigit_def code_def)
  have "list_all (isidchar o') cs" using n by (simp add: c readable_name_def)
  then have d: "dropWhile (isidchar o') (cs @ rest) = rest" using ends_idchar [OF r] by (rule dropWhile_word)
  have "parse_identifier o' (c # cs @ rest) = Some (c # cs, rest)"
    using w by (auto simp: parse_identifier_def skip_identifier_def d up_to_def Let_def)
  moreover have "const_prefix o' (c # cs @ rest) = (c # cs @ rest, 0)" using w by (simp add: const_prefix_def)
  moreover have "get_local_label o' q1 (c # cs @ rest) = None" for q1 using no_local_label [OF name_word [OF n] r] by (simp add: c)
  moreover obtain q' where q': "used_since q q'" "use_symbol (c # cs) (prg x) = Inr (q', SYM y)"
    using use_readable [OF assms(2) x(1)] by (auto simp: c)
  moreover have "EXPSKIP o' (x\<lparr>px_s := rest\<rparr>) = Inr (x\<lparr>px_s := rest\<rparr>, ())" using EXPSKIP_ends [OF assms(1)] r by simp
  ultimately have "levels o' p 0 x = Inr (x\<lparr>px_s := rest, prg := q'\<rparr>, SYM y)"
    using w assms(1) by (simp add: primary_expr_def action_defs Let_def x(2,3) c goto_def named_expr_def on_prog_def plain_conf_def)
  then show "\<exists>q'. used_since q q' \<and> levels o' p 0 x = Inr (x\<lparr>px_s := rest, prg := q'\<rparr>, SYM y)" using q'(1) by blast
qed

lemma follows_paren: "follows o' 11 ('')'' @ rest)"
  using paren_follows by (auto simp: follows_def ends_def delims_def)

lemma reads_paren:
  assumes "plain_conf o'" and "starts s" and "reads q p s e (follows o' 11)"
  shows "reads q (levels o' p 0) (''('' @ s @ '')'') e (follows o' 0)"
proof (rule readsI)
  fix x :: parser and rest
  assume x: "used_since q (prg x)" "exp_type x = T_NUM" "px_s x = (''('' @ s @ '')'') @ rest" "follows o' 0 rest"
  obtain c cs where s: "s = c # cs" "start_char c" using assms(2) by (cases s) (auto simp: starts_def)
  obtain q' where q': "used_since q q'" "p (x\<lparr>px_s := s @ '')'' @ rest\<rparr>) = Inr (x\<lparr>px_s := '')'' @ rest, prg := q'\<rparr>, e)"
    using readsD [OF assms(3), of "x\<lparr>px_s := s @ '')'' @ rest\<rparr>" "'')'' @ rest"] x(1,2) follows_paren by auto
  have "exp_skip o' (s @ '')'' @ rest) = s @ '')'' @ rest" using exp_skip_start [OF assms(1) s(2)] by (simp add: s)
  moreover have "exp_skip o' rest = rest" using x(4) by (intro exp_skip_ends [OF assms(1)]) (simp add: follows_def)
  ultimately have "levels o' p 0 x = Inr (x\<lparr>px_s := rest, prg := q'\<rparr>, e)"
    using x(3) q'(2) by (simp add: primary_expr_def paren_expr_def EXPSKIP_def action_defs Let_def goto_def)
  then show "\<exists>q'. used_since q q' \<and> levels o' p 0 x = Inr (x\<lparr>px_s := rest, prg := q'\<rparr>, e)" using q'(1) by blast
qed

lemma reads_sign:
  assumes "plain_conf o'" and "starts s" and "reads q (levels o' p 0) s e (follows o' 0)"
  shows "reads q (levels o' p 1) (unop_text f @ s) (UNOP f e) (follows o' 1)"
proof (rule readsI)
  fix x :: parser and rest
  assume x: "used_since q (prg x)" "exp_type x = T_NUM" "px_s x = (unop_text f @ s) @ rest" "follows o' 1 rest"
  obtain c cs where s: "s = c # cs" "start_char c" using assms(2) by (cases s) (auto simp: starts_def)
  obtain q' where q': "used_since q q'" "levels o' p 0 (x\<lparr>px_s := s @ rest\<rparr>) = Inr (x\<lparr>px_s := rest, prg := q'\<rparr>, e)"
    using readsD [OF assms(3), of "x\<lparr>px_s := s @ rest\<rparr>" rest] x(1,2) follows_less [OF x(4), of 0] by auto
  have "exp_skip o' (s @ rest) = s @ rest" using exp_skip_start [OF assms(1) s(2)] by (simp add: s)
  then have "levels o' p 1 x = Inr (x\<lparr>px_s := rest, prg := q'\<rparr>, UNOP f e)"
    using x(3) q'(2) by (cases f) (simp_all add: unary_expr_def EXPSKIP_def action_defs Let_def goto_def)
  then show "\<exists>q'. used_since q q' \<and> levels o' p 1 x = Inr (x\<lparr>px_s := rest, prg := q'\<rparr>, UNOP f e)" using q'(1) by blast
qed

section \<open>Reading back what is printed\<close>

lemma show_starts: "readable o' q e \<Longrightarrow> starts (show_expr q i e)"
proof (induction e arbitrary: i)
  case (NUM v)
  then show ?case using digits_all [of "unat v"] digits_nonempty [of 10 "unat v"]
    by (cases "digits_of 10 (unat v)") (auto simp: starts_def start_char_def)
next
  case (SYM y)
  then show ?case by (auto simp: readable_symbol_def readable_name_def starts_def start_char_def Let_def)
next
  case (UNOP f e)
  then show ?case by (cases f) (auto simp: starts_def start_char_def paren_if_def)
next
  case (BINOP f l r)
  then have "starts (show_expr q j l)" for j by simp
  then show ?case by (auto simp: starts_def start_char_def paren_if_def Let_def)
qed simp

lemma show_operand: "readable o' q e \<Longrightarrow> hd (show_expr q 0 e) \<notin> set ''+-!~''"
proof (induction e)
  case (NUM v)
  then show ?case using digits_all [of "unat v"] digits_nonempty [of 10 "unat v"]
    by (cases "digits_of 10 (unat v)") (auto simp: isdigit_def code_def)
next
  case (SYM y)
  then show ?case by (auto simp: readable_symbol_def readable_name_def isalpha_def code_def Let_def)
next
  case (BINOP f l r)
  have "0 < prec f" by (cases f) simp_all
  then show ?case by (simp add: paren_if_def Let_def)
qed (simp_all add: paren_if_def)

text \<open>The text \<open>s\<close> is read as \<open>e\<close> by the parser of level \<open>i\<close>, and more operators may follow it there.\<close>

definition good :: "expconf \<Rightarrow> prog \<Rightarrow> expr parse \<Rightarrow> nat \<Rightarrow> string \<Rightarrow> expr \<Rightarrow> bool" where
  "good o' q p i s e \<longleftrightarrow> reads q (levels o' p i) s e (follows o' i) \<and> (2 \<le> i \<longrightarrow> reaches o' q p i s e (i = 8))"

lemma reaches_chained: "reaches o' q p j s e False \<Longrightarrow> reaches o' q p j s e c"
  unfolding reaches_def by blast

lemma good_next: "plain_conf o' \<Longrightarrow> reads q (levels o' p i) s e (follows o' i) \<Longrightarrow> 1 \<le> i \<Longrightarrow> good o' q p (Suc i) s e"
  using reaches_operand [of o' "Suc i"] reads_next [of o' "Suc i"] by (auto simp: good_def intro: reaches_chained)

lemma good_up:
  assumes "plain_conf o'" and "good o' q p i s e" and "i \<le> j" and "1 \<le> i"
  shows "good o' q p j s e"
proof (cases "j = i")
  case False
  then obtain k where k: "j = Suc k" "i \<le> k" using assms(3) by (cases j) auto
  have "reads q (levels o' p i) s e (follows o' i)" using assms(2) by (simp add: good_def)
  then have "reads q (levels o' p k) s e (follows o' k)" using k(2) assms(4) by (rule reads_up [OF assms(1)])
  then show ?thesis using good_next [OF assms(1)] k assms(4) by simp
qed (use assms in simp)

lemma good_operand:
  assumes "plain_conf o'" and "reads q (levels o' p 0) s e (follows o' 0)" and "s \<noteq> []" and "hd s \<notin> set ''+-!~''"
  shows "good o' q p i s e"
proof (cases "i = 0")
  case False
  have "good o' q p 1 s e" using reads_unary [OF assms(2-4)] by (simp add: good_def)
  then show ?thesis using good_up [OF assms(1)] False by simp
qed (use assms in \<open>simp add: good_def\<close>)

text \<open>Operands in parentheses: what is between them is read with less fuel.\<close>

lemma good_paren:
  assumes "plain_conf o'" and "starts s" and "1 \<le> j" and "j \<le> 11" and "good o' q (expression n o') j s e"
  shows "good o' q (expression (Suc n) o') i (''('' @ s @ '')'') e"
proof -
  have "good o' q (expression n o') 11 s e" using good_up [OF assms(1,5,4,3)] .
  then have "reads q (expression (Suc n) o') s e (follows o' 11)" by (simp add: good_def expression_levels del: expression.simps)
  from good_operand [OF assms(1) reads_paren [OF assms(1,2) this]] show ?thesis by simp
qed

lemma good_unop:
  assumes "plain_conf o'" and "starts s" and "good o' q p 0 s e" and "1 \<le> i"
  shows "good o' q p i (unop_text f @ s) (UNOP f e)"
proof -
  have "good o' q p 1 (unop_text f @ s) (UNOP f e)" using reads_sign [OF assms(1,2)] assms(3) by (simp add: good_def)
  then show ?thesis using good_up [OF assms(1)] assms(4) by simp
qed

lemma good_binop:
  assumes "plain_conf o'" and "starts t" and "f = SUB \<longrightarrow> hd t \<noteq> CHR ''-''" and "f = RSH \<longrightarrow> \<not> unsigned_shift o'" "f = RSHU \<longrightarrow> unsigned_shift o'"
    and "good o' q p (if prec f = 8 then 7 else prec f) s l" and "good o' q p (prec f - 1) t r" and "prec f \<le> i"
  shows "good o' q p i (s @ op_text f @ t) (BINOP f l r)"
proof -
  let ?j = "prec f"
  have j: "2 \<le> ?j" by (cases f) simp_all
  have "reaches o' q p ?j s l False"
  proof (cases "?j = 8")
    case True
    then have "reads q (levels o' p 7) s l (follows o' 7)" using assms(6) by (simp add: good_def)
    then show ?thesis using reaches_operand [OF assms(1), of 8] True by simp
  qed (use assms(6) j in \<open>simp add: good_def\<close>)
  moreover have "reads q (levels o' p (?j - 1)) t r (follows o' (?j - 1))" using assms(7) by (simp add: good_def)
  ultimately have "reaches o' q p ?j (s @ op_text f @ t) (BINOP f l r) (?j = 8)"
    using assms(2-5) by (intro reaches_operator [OF assms(1)])
  then have "good o' q p ?j (s @ op_text f @ t) (BINOP f l r)" using reaches_end [OF _ j] by (simp add: good_def)
  then show ?thesis using good_up [OF assms(1)] assms(8) j by simp
qed

text \<open>The right operand, with the parentheses that keep a minus away from another one.\<close>

definition right_operand :: "prog \<Rightarrow> binop \<Rightarrow> expr \<Rightarrow> string" where
  "right_operand q f r = (let t = show_expr q (prec f - 1) r in if f = SUB \<and> ch t 0 = CHR ''-'' then show_expr q 0 r else t)"

lemma right_operand_starts:
  assumes "readable o' q r"
  shows "starts (right_operand q f r)" and "f = SUB \<longrightarrow> hd (right_operand q f r) \<noteq> CHR ''-''"
proof -
  show s: "starts (right_operand q f r)" using show_starts [OF assms] by (simp add: right_operand_def Let_def)
  show "f = SUB \<longrightarrow> hd (right_operand q f r) \<noteq> CHR ''-''"
    using show_operand [OF assms] show_starts [OF assms, of "prec f - 1"]
    by (cases "show_expr q (prec f - 1) r") (auto simp: right_operand_def starts_def Let_def)
qed

lemma good_right:
  assumes "plain_conf o'" and "readable o' q r"
    and "\<And>i. i \<le> 11 \<Longrightarrow> length (show_expr q i r) \<le> n \<Longrightarrow> good o' q p i (show_expr q i r) r"
    and "length (right_operand q f r) \<le> n"
  shows "good o' q p (prec f - 1) (right_operand q f r) r"
proof (cases "f = SUB \<and> ch (show_expr q (prec f - 1) r) 0 = CHR ''-''")
  case True
  then have r: "right_operand q f r = show_expr q 0 r" by (auto simp: right_operand_def Let_def)
  then have "reads q (levels o' p 0) (show_expr q 0 r) r (follows o' 0)" using assms(3) [of 0] assms(4) by (simp add: good_def)
  then show ?thesis
    using show_starts [OF assms(2), of 0] show_operand [OF assms(2)] unfolding r
    by (intro good_operand [OF assms(1)]) (auto simp: starts_def)
next
  case False
  then have "right_operand q f r = show_expr q (prec f - 1) r" by (auto simp: right_operand_def Let_def)
  moreover have "prec f - 1 \<le> 11" by (cases f) simp_all
  ultimately show ?thesis using assms(3,4) by simp
qed

lemma show_binop:
  "show_expr q i (BINOP f l r) =
     paren_if (i < prec f) (show_expr q (if prec f = 8 then 7 else prec f) l @ op_text f @ right_operand q f r)"
  by (simp add: right_operand_def Let_def)

lemma show_good:
  assumes "plain_conf o'"
  shows "readable o' q e \<Longrightarrow> i \<le> 11 \<Longrightarrow> length (show_expr q i e) \<le> n \<Longrightarrow> good o' q (expression n o') i (show_expr q i e) e"
proof (induction n arbitrary: e i)
  case 0
  then show ?case using show_starts [OF 0(1), of i] by (simp add: starts_def)
next
  case (Suc n)
  show ?case
    using Suc.prems
  proof (induction e arbitrary: i)
    case (NUM v)
    then show ?case using good_operand [OF assms reads_decimal [OF assms]] show_starts [OF NUM(1), of 0] show_operand [OF NUM(1)]
      by (simp add: starts_def del: expression.simps)
  next
    case (SYM y)
    then show ?case using good_operand [OF assms reads_symbol [OF assms]] show_starts [OF SYM(1), of 0] show_operand [OF SYM(1)]
      by (simp add: starts_def del: expression.simps)
  next
    case (UNOP f e)
    have r: "readable o' q e" and st: "starts (show_expr q 0 e)" using UNOP.prems(1) show_starts by auto
    show ?case
    proof (cases "i < 1")
      case True
      let ?s = "unop_text f @ show_expr q 0 e"
      have "good o' q (expression n o') 1 (show_expr q 1 (UNOP f e)) (UNOP f e)"
        using UNOP.prems True by (intro Suc.IH) (simp_all add: paren_if_def)
      then have g: "good o' q (expression n o') 1 ?s (UNOP f e)" by (simp add: paren_if_def)
      have "starts ?s" by (cases f) (simp_all add: starts_def start_char_def)
      from good_paren [OF assms this _ _ g] show ?thesis using True by (simp add: paren_if_def del: expression.simps)
    next
      case False
      then have "length (show_expr q 0 e) \<le> Suc n" using UNOP.prems(3) by (simp add: paren_if_def)
      then have "good o' q (expression (Suc n) o') 0 (show_expr q 0 e) e" using UNOP.IH r by simp
      then show ?thesis using good_unop [OF assms st] False by (simp add: paren_if_def del: expression.simps)
    qed
  next
    case (BINOP f l r)
    let ?k = "if prec f = 8 then 7 else prec f"
    let ?s = "show_expr q ?k l @ op_text f @ right_operand q f r"
    have lr: "readable o' q l" "readable o' q r" and f: "f = RSH \<longrightarrow> \<not> unsigned_shift o'" "f = RSHU \<longrightarrow> unsigned_shift o'"
      using BINOP.prems(1) by auto
    have j: "1 \<le> prec f" "prec f \<le> 11" by (cases f; simp)+
    note start = right_operand_starts [OF lr(2)]
    show ?case
    proof (cases "i < prec f")
      case True
      have "good o' q (expression n o') (prec f) (show_expr q (prec f) (BINOP f l r)) (BINOP f l r)"
        using BINOP.prems j True by (intro Suc.IH) (simp_all only: show_binop paren_if_def, auto)
      then have "good o' q (expression n o') (prec f) ?s (BINOP f l r)" by (simp only: show_binop paren_if_def less_irrefl if_False)
      moreover have "starts ?s" using show_starts [OF lr(1), of ?k] by (auto simp: starts_def)
      ultimately show ?thesis using good_paren [OF assms _ j] True by (simp only: show_binop paren_if_def if_True)
    next
      case False
      then have len: "length ?s \<le> Suc n" using BINOP.prems(3) by (simp only: show_binop paren_if_def if_False)
      have "good o' q (expression (Suc n) o') ?k (show_expr q ?k l) l"
        using len j by (intro BINOP.IH(1) lr) simp_all
      moreover have "length (right_operand q f r) \<le> Suc n" using len by simp
      then have "good o' q (expression (Suc n) o') (prec f - 1) (right_operand q f r) r"
        using BINOP.IH(2) [OF lr(2)] by (intro good_right [OF assms lr(2)])
      ultimately have "good o' q (expression (Suc n) o') i ?s (BINOP f l r)"
        using False by (intro good_binop [OF assms start f]) simp_all
      then show ?thesis using False by (simp only: show_binop paren_if_def if_False)
    qed
  qed simp
qed

lemma parse_show:
  assumes "plain_conf o'" and "readable o' (prg x) e" and "follows o' 11 rest"
  shows "\<exists>q'. used_since (prg x) q' \<and> parse_expr o' (show_expr (prg x) 11 e @ rest) x =
    on_prog (lift (simplify_expr e)) (x\<lparr>make_tmp_lab := False, exp_type := T_NUM, px_s := rest, prg := q'\<rparr>)"
proof -
  let ?s = "show_expr (prg x) 11 e" and ?x = "x\<lparr>px_s := show_expr (prg x) 11 e @ rest, make_tmp_lab := False, exp_type := T_NUM\<rparr>"
  have "good o' (prg x) (expression (length (?s @ rest)) o') 11 ?s e" by (rule show_good [OF assms(1,2)]) simp_all
  then have r: "reads (prg x) (expression (Suc (length (?s @ rest))) o') ?s e (follows o' 11)"
    by (simp add: good_def expression_levels del: expression.simps)
  obtain q' where "used_since (prg x) q'" "expression (Suc (length (?s @ rest))) o' ?x = Inr (?x\<lparr>px_s := rest, prg := q'\<rparr>, e)"
    by (rule readsD [OF r, of ?x rest]) (use assms(3) in simp_all)
  then show ?thesis by (intro exI [where x = q']) (simp add: parse_expr_def parse_as_def action_defs del: expression.simps)
qed

text \<open>
  C11. Reading an expression in the oldstyle syntax inverts printing it: for all numbers, symbols
  and operators, parentheses are only needed where the precedences of the parser ask for them, and
  what the parser builds from the text is the expression that was printed, which it then simplifies.
  The position is left at the first character behind it, and of the program only the use of symbols
  is changed.
\<close>

theorem expression_roundtrip:
  assumes "plain_conf o'" and "readable o' (prg x) e" and "follows o' 11 rest"
  shows "\<exists>q'. used_since (prg x) q' \<and> parse_expr o' (show_expr (prg x) 11 e @ rest) x =
    on_prog (lift (simplify_expr e)) (x\<lparr>make_tmp_lab := False, exp_type := T_NUM, px_s := rest, prg := q'\<rparr>)"
  by (rule parse_show [OF assms])

text \<open>The settings of the oldstyle module for the 6502, and a parser at rest.\<close>

definition plain :: expconf where
  "plain = \<lparr>dot_idchar = False, igntrail = False, commentchar = CHR '';'', current_pc_char = CHR ''*'', nocprefix = False,
     nointelsuffix = False, esc_sequences = True, unsigned_shift = False, charspertaddr = 2, charsperexp = 2, anon_labno = 0,
     is_mnemonic = (\<lambda>_. False), is_directive = (\<lambda>_. False)\<rparr>"

definition parser_start :: "prog \<Rightarrow> parser" where
  "parser_start q = \<lparr>prg = q, px_line = [], px_s = [], exp_type = T_NUM, make_tmp_lab = False, tmplabcnt = 0\<rparr>"

lemma follows_end: "follows o' 11 []"
proof -
  have "ops_at j o' m [] = None" if "j \<le> 11" for j m
  proof -
    have "j = 0 \<or> j = 1 \<or> j = 2 \<or> j = 3 \<or> j = 4 \<or> j = 5 \<or> j = 6 \<or> j = 7 \<or> j = 8 \<or> j = 9 \<or> j = 10 \<or> j = 11"
      using that by presburger
    then show ?thesis
      by (auto simp: ops_at_def eval_nat_numeral shift_ops_def and_ops_def exclusive_or_ops_def inclusive_or_ops_def
          multiplicative_ops_def additive_ops_def relational_ops_def equality_ops_def logical_and_ops_def logical_or_ops_def Let_def)
  qed
  then show ?thesis by (simp add: follows_def ends_def)
qed

lemma readable_a: "readable_symbol plain (names_prog [''a'']) 0"
proof -
  have "lookup (names_prog [''a'']) ''a'' = Some 0"
    using one_name_ok by (simp add: sym_ok_def name_of_def names_prog_def blank_symbol_def lookup_def sym_def key_def)
  then show ?thesis
    by (simp add: readable_symbol_def readable_name_def names_prog_def sym_def blank_symbol_def isalpha_def isidchar_def code_def)
qed

lemma expression_roundtrip_witness:
  "\<exists>q'. used_since (names_prog [''a'']) q' \<and> parse_expr plain ''(10-(a-(-1)))*2'' (parser_start (names_prog [''a''])) =
     on_prog (lift (simplify_expr (BINOP MUL (BINOP SUB (NUM 10) (BINOP SUB (SYM 0) (UNOP NEG (NUM 1)))) (NUM 2))))
       (parser_start q')"
proof -
  let ?q = "names_prog [''a'']" and ?e = "BINOP MUL (BINOP SUB (NUM 10) (BINOP SUB (SYM 0) (UNOP NEG (NUM 1)))) (NUM 2)"
  have "digits_of 10 10 = ''10''" "digits_of 10 1 = ''1''" "digits_of 10 2 = ''2''" by code_simp+
  then have "show_expr ?q 11 ?e = ''(10-(a-(-1)))*2''"
    by (simp add: paren_if_def names_prog_def sym_def blank_symbol_def)
  moreover have "plain_conf plain" by (simp add: plain_conf_def plain_def)
  moreover have "readable plain ?q ?e" by (simp add: readable_a)
  ultimately show ?thesis
    using expression_roundtrip [of plain "parser_start ?q" ?e "[]"] follows_end by (simp add: parser_start_def)
qed

end
