(* ===== verification/Exprends.thy ===== *)
theory Exprends
  imports Exprparse "HOL-Library.Sublist"
begin

text \<open>
  The expression parser ends on every text: the levels of operators call each other, but every
  parenthesis and every operator takes a character, and no part of the parser goes back in the text.
\<close>

section \<open>Going forward\<close>

definition behind :: "string \<Rightarrow> string \<Rightarrow> bool" where
  "behind r s \<longleftrightarrow> suffix r s \<and> length r < length s"

lemma behind_drop:
  assumes "s \<noteq> []" and "0 < k" and "suffix r (drop k s)"
  shows "behind r s"
proof -
  have "length r \<le> length s - k" using suffix_length_le [OF assms(3)] by simp
  moreover have "suffix r s" using assms(3) suffix_drop by (rule suffix_order.trans)
  ultimately show ?thesis using assms(1,2) by (cases s) (auto simp: behind_def)
qed

lemma suffix_exp_skip: "suffix (exp_skip o' s) s"
  by (auto simp: exp_skip_def skip_def Let_def suffix_dropWhile)

text \<open>
  What may change of the program while an expression is parsed: there are more symbols, and the
  table finds them, more messages, and the symbol of the current address may have been made.
\<close>

definition parsed :: "prog \<Rightarrow> prog \<Rightarrow> bool" where
  "parsed p p' \<longleftrightarrow> (\<exists>ys c ms new ht. p' = p\<lparr>core := (core p)\<lparr>syms := ys, cpc := c, msgs := msgs (core p) @ ms\<rparr>,
       symlist := new @ symlist p, symhash := ht\<rparr>)
     \<and> (sym_ok p \<longrightarrow> sym_ok p')"

lemma parsedI:
  "p' = p\<lparr>core := (core p)\<lparr>syms := ys, cpc := c, msgs := msgs (core p) @ ms\<rparr>, symlist := new @ symlist p, symhash := ht\<rparr> \<Longrightarrow>
   (sym_ok p \<Longrightarrow> sym_ok p') \<Longrightarrow> parsed p p'"
  unfolding parsed_def by blast

lemma parsed_refl [simp]: "parsed p p"
  by (rule parsedI [where ys = "syms (core p)" and c = "cpc (core p)" and ms = "[]" and new = "[]" and ht = "symhash p"]) simp_all

lemma parsed_trans:
  assumes "parsed p q" and "parsed q r"
  shows "parsed p r"
proof -
  obtain ys c ms new ht where q: "q = p\<lparr>core := (core p)\<lparr>syms := ys, cpc := c, msgs := msgs (core p) @ ms\<rparr>, symlist := new @ symlist p, symhash := ht\<rparr>"
    using assms(1) unfolding parsed_def by blast
  obtain ys' c' ms' new' ht' where r: "r = q\<lparr>core := (core q)\<lparr>syms := ys', cpc := c', msgs := msgs (core q) @ ms'\<rparr>, symlist := new' @ symlist q, symhash := ht'\<rparr>"
    using assms(2) unfolding parsed_def by blast
  have "sym_ok p \<Longrightarrow> sym_ok r" using assms unfolding parsed_def by blast
  then show ?thesis
    by (intro parsedI [where ys = ys' and c = c' and ms = "ms @ ms'" and new = "new' @ new" and ht = ht']) (simp_all add: q r)
qed

lemma parsed_cpu: "parsed p p' \<Longrightarrow> cpu p' = cpu p"
  by (auto simp: parsed_def)

definition harmless :: "(prog, 'a) step \<Rightarrow> bool" where
  "harmless m \<longleftrightarrow> (\<forall>p. case m p of Inl e \<Rightarrow> e \<noteq> Runaway | Inr (p', _) \<Rightarrow> parsed p p')"

text \<open>An action that does not run out, and leaves the position in the text \<open>s\<close>.\<close>

definition goes :: "string \<Rightarrow> 'a parse \<Rightarrow> parser \<Rightarrow> bool" where
  "goes s m x \<longleftrightarrow> (case m x of Inl e \<Rightarrow> e \<noteq> Runaway | Inr (x', _) \<Rightarrow> \<not> make_tmp_lab x' \<and> suffix (px_s x') s \<and> parsed (prg x) (prg x'))"

definition forward :: "nat \<Rightarrow> 'a parse \<Rightarrow> bool" where
  "forward n m \<longleftrightarrow> (\<forall>x. \<not> make_tmp_lab x \<and> length (px_s x) \<le> n \<longrightarrow> goes (px_s x) m x)"

lemma forwardI: "(\<And>x. \<not> make_tmp_lab x \<Longrightarrow> length (px_s x) \<le> n \<Longrightarrow> goes (px_s x) m x) \<Longrightarrow> forward n m"
  by (simp add: forward_def)

lemma goes_weaken: "goes s m x \<Longrightarrow> suffix s t \<Longrightarrow> goes t m x"
  by (auto simp: goes_def split: sum.splits intro: suffix_order.trans)

lemma goes_forward: "forward n m \<Longrightarrow> \<not> make_tmp_lab x \<Longrightarrow> length (px_s x) \<le> n \<Longrightarrow> suffix (px_s x) s \<Longrightarrow> goes s m x"
  unfolding forward_def by (blast intro: goes_weaken)

lemma goes_bind:
  assumes "goes s m x" and "\<And>x' y. \<not> make_tmp_lab x' \<Longrightarrow> suffix (px_s x') s \<Longrightarrow> goes t (f y) x'"
  shows "goes t (bind_st m f) x"
proof (cases "m x")
  case (Inl e)
  then show ?thesis using assms(1) by (simp add: goes_def bind_st_def)
next
  case (Inr r)
  then obtain x' y where m: "m x = Inr (x', y)" by (cases r) auto
  then have "goes t (f y) x'" "parsed (prg x) (prg x')" using assms by (auto simp: goes_def [of s])
  then show ?thesis using parsed_trans by (auto simp: goes_def bind_st_def m split: sum.splits)
qed

lemma goes_get: "goes s (f x) x \<Longrightarrow> goes s (bind_st get f) x"
  by (simp add: goes_def bind_st_def get_def)

lemma goes_goto: "goes s (f ()) (x\<lparr>px_s := r\<rparr>) \<Longrightarrow> goes s (bind_st (goto r) f) x"
  by (auto simp: goes_def bind_st_def goto_def modify_def split: sum.splits)

lemma goes_modify: "goes s (f ()) (g x) \<Longrightarrow> prg (g x) = prg x \<Longrightarrow> goes s (bind_st (modify g) f) x"
  by (auto simp: goes_def bind_st_def modify_def split: sum.splits)

lemma goes_return: "\<not> make_tmp_lab x \<Longrightarrow> suffix (px_s x) s \<Longrightarrow> goes s (return y) x"
  by (simp add: goes_def return_def)

lemma goes_fail: "e \<noteq> Runaway \<Longrightarrow> goes s (fail e) x"
  by (simp add: goes_def fail_def)

lemma goes_EXPSKIP: "\<not> make_tmp_lab x \<Longrightarrow> suffix (px_s x) s \<Longrightarrow> goes s (EXPSKIP o') x"
  using suffix_order.trans [OF suffix_exp_skip] by (simp add: goes_def EXPSKIP_def modify_def)

lemma goes_on_prog: "harmless m \<Longrightarrow> \<not> make_tmp_lab x \<Longrightarrow> suffix (px_s x) s \<Longrightarrow> goes s (on_prog m) x"
  unfolding harmless_def goes_def on_prog_def by (drule spec [where x = "prg x"]) (auto split: sum.splits)

lemma goes_end: "suffix r s \<Longrightarrow> \<not> make_tmp_lab x \<Longrightarrow> goes s (goto r) x"
  by (simp add: goes_def goto_def modify_def)

section \<open>Words\<close>

lemma suffix_read_digits: "read_digits base s v = Some (w, r) \<Longrightarrow> suffix r s"
  by (induction base s v rule: read_digits.induct) (auto simp: Let_def suffix_ConsI split: if_splits)

lemma suffix_read_hex: "read_hex s v = Some (w, r) \<Longrightarrow> suffix r s"
  by (induction s v rule: read_hex.induct) (auto simp: Let_def suffix_ConsI split: if_splits)

lemma suffix_read_huge: "read_huge base s h = (w, r) \<Longrightarrow> suffix r s"
  by (induction base s h rule: read_huge.induct) (auto simp: suffix_ConsI split: if_splits)

lemma suffix_const_prefix: "const_prefix o' s = (m, b) \<Longrightarrow> suffix m s"
  by (auto simp: const_prefix_def suffix_drop split: if_splits)

lemma suffix_anon_refno: "anon_refno s n = (k, r) \<Longrightarrow> suffix r s"
  by (induction s n rule: anon_refno.induct) (auto simp: suffix_ConsI split: if_splits)

lemma suffix_skip: "suffix r s \<Longrightarrow> suffix (skip r) s"
  unfolding skip_def by (metis suffix_dropWhile suffix_order.trans)

lemma suffix_dropWhile_drop: "suffix r s \<Longrightarrow> suffix (dropWhile P (drop k r)) s"
  by (metis suffix_dropWhile suffix_drop suffix_order.trans)

lemma suffix_skip_local: "skip_local o' s = Some r \<Longrightarrow> suffix r s"
  by (auto simp: skip_local_def intro: suffix_dropWhile_drop split: if_splits)

lemma suffix_get_local_label: "get_local_label o' q s = Some (n, r) \<Longrightarrow> suffix r s"
proof -
  assume g: "get_local_label o' q s = Some (n, r)"
  have a: "suffix (skip r') s" if "anon_refno (drop 2 s) k = (w, r')" for k w r'
    using suffix_anon_refno [OF that] suffix_drop by (metis suffix_skip suffix_order.trans)
  have l: "suffix (skip p) s" "suffix (skip (drop 1 p)) s" "suffix (skip (dropWhile (isidchar o') (drop 1 p))) s"
    if "skip_local o' s = Some p" for p
    using suffix_skip_local [OF that] suffix_drop by (auto intro!: suffix_skip suffix_dropWhile_drop intro: suffix_order.trans)
  show ?thesis using g a l by (auto simp: get_local_label_def Let_def split: option.splits if_splits prod.splits)
qed

lemma suffix_parse_identifier: "parse_identifier o' s = Some (n, r) \<Longrightarrow> suffix r s"
  by (auto simp: parse_identifier_def skip_identifier_def Let_def intro: suffix_dropWhile_drop split: if_splits)

lemma suffix_octal: "octal_code n s v = (w, r) \<Longrightarrow> suffix r s"
  by (induction n s v rule: octal_code.induct) (auto simp: suffix_ConsI split: if_splits)

lemma suffix_hex: "hex_code n s v = (w, r) \<Longrightarrow> suffix r s"
  by (induction n s v rule: hex_code.induct) (auto simp: suffix_ConsI split: if_splits)

lemma suffix_escape: "escape o' s = Some (v, r) \<Longrightarrow> suffix r s"
proof -
  assume e: "escape o' s = Some (v, r)"
  have "suffix r' s" if "hex_code 2 (drop 1 s) 0 = (w, r')" for w r'
    using suffix_hex [OF that] suffix_drop by (rule suffix_order.trans)
  then show ?thesis using e suffix_octal [of 3 s 0] suffix_drop [of 1 s]
    by (cases "octal_code 3 s 0"; cases "hex_code 2 (drop 1 s) 0") (auto simp: escape_def Let_def split: if_splits)
qed

lemma behind_quoted: "quoted_char o' q s = Inr (Some (c, r)) \<Longrightarrow> s \<noteq> [] \<Longrightarrow> behind r s"
proof -
  assume q: "quoted_char o' q s = Inr (Some (c, r))" and s: "s \<noteq> []"
  have "drop 2 s = drop 1 (drop 1 s)" by (simp add: numeral_2_eq_2)
  then have "suffix (drop 2 s) (drop 1 s)" using suffix_drop [of 1 "drop 1 s"] by simp
  then have "suffix r (drop 1 s)" using q suffix_escape [of o' "drop 1 s" c r]
    by (auto simp: quoted_char_def suffix_drop split: option.splits if_splits)
  with s show ?thesis by (intro behind_drop [of s 1]) simp_all
qed

section \<open>The parser\<close>

lemma harmlessI: "(\<And>p e. m p = Inl e \<Longrightarrow> e \<noteq> Runaway) \<Longrightarrow> (\<And>p p' y. m p = Inr (p', y) \<Longrightarrow> parsed p p') \<Longrightarrow> harmless m"
  unfolding harmless_def by (auto split: sum.splits)

lemma harmless_bind:
  assumes "harmless m" and "\<And>y. harmless (f y)"
  shows "harmless (bind_st m f)"
proof (rule harmlessI)
  show "e \<noteq> Runaway" if "bind_st m f p = Inl e" for p e
    using that assms unfolding harmless_def bind_st_def by (force split: sum.splits)
  show "parsed p p'" if b: "bind_st m f p = Inr (p', y)" for p p' y
  proof -
    obtain q x where q: "m p = Inr (q, x)" "f x q = Inr (p', y)" using b unfolding bind_st_Inr by blast
    have "parsed p q" using spec [OF assms(1) [unfolded harmless_def], of p] q(1) by simp
    moreover have "parsed q p'" using spec [OF assms(2) [of x, unfolded harmless_def], of q] q(2) by simp
    ultimately show ?thesis by (rule parsed_trans)
  qed
qed

lemma harmless_basic: "harmless get" "harmless (return y)" "e \<noteq> Runaway \<Longrightarrow> harmless (fail e)"
  by (simp_all add: harmless_def get_def return_def fail_def)

lemma returns_stop: "returns m \<Longrightarrow> m p \<noteq> Inl e"
  unfolding returns_def by (metis Inl_Inr_False)

lemma harmless_log: "harmless (modify (\<lambda>p. p\<lparr>core := (core p)\<lparr>msgs := msgs (core p) @ ms\<rparr>\<rparr>))"
proof (rule harmlessI)
  fix p p' :: prog and y
  assume "modify (\<lambda>p. p\<lparr>core := (core p)\<lparr>msgs := msgs (core p) @ ms\<rparr>\<rparr>) p = Inr (p', y)"
  then have p': "p' = p\<lparr>core := (core p)\<lparr>msgs := msgs (core p) @ ms\<rparr>\<rparr>" by (simp add: modify_def)
  then have "same_syms p p'" by (simp add: same_syms_def)
  then show "parsed p p'" using same_syms_ok p'
    by (intro parsedI [where ys = "syms (core p)" and c = "cpc (core p)" and ms = ms and new = "[]" and ht = "symhash p"]) simp_all
qed (simp add: modify_def)

lemma harmless_error: "harmless (error n)"
  using harmless_log [of "[n]"] by (simp add: error_def general_error_def)

lemma harmless_find: "harmless (find_symbol name)"
proof (rule harmlessI)
  fix p p' y
  assume f: "find_symbol name p = Inr (p', y)"
  obtain ht where "p' = p\<lparr>symhash := ht\<rparr>" using find_symbol_total [of name p] f by auto
  then show "parsed p p'" using same_syms_ok [OF same_syms_find [OF f]]
    by (intro parsedI [where ys = "syms (core p)" and c = "cpc (core p)" and ms = "[]" and new = "[]" and ht = ht]) simp_all
qed (use returns_stop [OF returns_basic(6)] in blast)

lemma harmless_upd: "(\<And>x. sym_name (f x) = sym_name x) \<Longrightarrow> harmless (upd_symbol y f)"
proof (rule harmlessI)
  fix p p' u
  assume n: "\<And>x. sym_name (f x) = sym_name x" and u: "upd_symbol y f p = Inr (p', u)"
  have "p' = p\<lparr>core := (core p)\<lparr>syms := (syms (core p))[y := f (sym (core p) y)]\<rparr>\<rparr>"
    using u by (simp add: upd_symbol_def modify_def upd_sym_def)
  then show "parsed p p'" using same_syms_ok [OF same_syms_upd [OF n u]]
    by (intro parsedI [where ys = "(syms (core p))[y := f (sym (core p) y)]" and c = "cpc (core p)" and ms = "[]" and new = "[]"
        and ht = "symhash p"]) simp_all
qed (simp add: upd_symbol_def modify_def)

lemma harmless_import: "harmless (new_import name)"
proof (rule harmlessI)
  fix p p' y
  assume n: "new_import name p = Inr (p', y)"
  obtain ht where f: "find_symbol name p = Inr (p\<lparr>symhash := ht\<rparr>, lookup p name)" using find_symbol_total [of name p] by auto
  have "\<exists>ys new ht. p' = p\<lparr>core := (core p)\<lparr>syms := ys\<rparr>, symlist := new @ symlist p, symhash := ht\<rparr>"
  proof (cases "lookup p name")
    case None
    let ?y = "length (syms (core p))"
    have "p' = p\<lparr>core := (core p)\<lparr>syms := syms (core p) @ [blank_symbol name IMPORT]\<rparr>, symlist := [?y] @ symlist p,
        symhash := add_hashentry (debug p) ht name ?y (nocase p)\<rparr>"
      using n f None by (auto simp: new_import_def alloc_symbol_def add_symbol_def action_defs sym_def blank_symbol_def)
    then show ?thesis by blast
  next
    case (Some z)
    then have "p' = p\<lparr>core := (core p)\<lparr>syms := syms (core p)\<rparr>, symlist := [] @ symlist p, symhash := ht\<rparr>"
      using n f by (simp add: new_import_def action_defs)
    then show ?thesis by blast
  qed
  then obtain ys new ht where "p' = p\<lparr>core := (core p)\<lparr>syms := ys\<rparr>, symlist := new @ symlist p, symhash := ht\<rparr>" by blast
  then show "parsed p p'" using new_import_ok [OF _ n]
    by (intro parsedI [where ys = ys and c = "cpc (core p)" and ms = "[]" and new = new and ht = ht]) simp_all
qed (use returns_stop [OF defining_returns(1)] in blast)

lemma harmless_cpc: "harmless (modify (\<lambda>p. p\<lparr>core := (core p)\<lparr>cpc := c\<rparr>\<rparr>))"
proof (rule harmlessI)
  fix p p' :: prog and y
  assume "modify (\<lambda>p. p\<lparr>core := (core p)\<lparr>cpc := c\<rparr>\<rparr>) p = Inr (p', y)"
  then have p': "p' = p\<lparr>core := (core p)\<lparr>cpc := c\<rparr>\<rparr>" by (simp add: modify_def)
  then have "same_syms p p'" by (simp add: same_syms_def)
  then show "parsed p p'" using same_syms_ok p'
    by (intro parsedI [where ys = "syms (core p)" and c = c and ms = "[]" and new = "[]" and ht = "symhash p"]) simp_all
qed (simp add: modify_def)

lemmas harmless_rules = harmless_bind harmless_basic harmless_error harmless_find harmless_import harmless_cpc

lemma harmless_use: "harmless (use_symbol name)"
proof -
  have "harmless (case r of None \<Rightarrow> new_import name | Some y \<Rightarrow> return y)" for r
    by (cases r) (simp_all add: harmless_rules)
  then show ?thesis unfolding use_symbol_def
    by (intro harmless_rules harmless_upd) (auto simp: set_flag_def Let_def harmless_basic split: option.splits)
qed

lemma harmless_curpc: "harmless curpc_expr"
  unfolding curpc_expr_def
  by (intro harmless_rules) (auto simp: harmless_basic split: option.splits intro!: harmless_rules harmless_upd simp: set_flag_def)

lemma goes_error: "\<not> make_tmp_lab x \<Longrightarrow> suffix (px_s x) s \<Longrightarrow> goes s (on_prog (error n)) x"
  by (rule goes_on_prog [OF harmless_error])

lemma suffix_read_number: "read_number base ms m t = (e, r) \<Longrightarrow> suffix r m"
  using suffix_read_huge [of base m] suffix_read_hex [of m 0] suffix_read_digits [of base m 0]
  by (auto simp: read_number_def Let_def split: etype.splits option.splits prod.splits if_splits)

lemma goes_error_return:
  assumes "\<not> make_tmp_lab x" and "suffix (px_s x) s"
  shows "goes s (bind_st (on_prog (error n)) (\<lambda>_. return y)) x"
  using goes_error [OF assms] by (rule goes_bind) (rule goes_return)

lemma goes_EXPSKIP_return:
  assumes "\<not> make_tmp_lab x" and "suffix (px_s x) s"
  shows "goes s (bind_st (EXPSKIP o') (\<lambda>_. return y)) x"
  using goes_EXPSKIP [OF assms] by (rule goes_bind) (rule goes_return)

lemma goes_constant:
  assumes "\<not> make_tmp_lab x" and "suffix m s"
  shows "goes s (constant_expr o' m base) x"
proof -
  obtain e r where n: "read_number base (minus_in_front (px_line x) m) m (exp_type x) = (e, r)" by fastforce
  have r: "suffix r s" using suffix_read_number [OF n] assms(2) by (rule suffix_order.trans)
  let ?r = "const_suffix (px_s x) r"
  have cs: "suffix ?r s" using r suffix_drop by (auto simp: const_suffix_def intro: suffix_order.trans)
  let ?x = "x\<lparr>exp_type := is_huge e\<rparr>"
  have "goes s (if r = m then bind_st (goto r) (\<lambda>_. bind_st (on_prog (error 75)) (\<lambda>_. return (NUM (- 1))))
       else bind_st (goto ?r) (\<lambda>_. bind_st (EXPSKIP o') (\<lambda>_. return e))) ?x"
    using assms(1) r cs by (auto intro!: goes_goto goes_error_return goes_EXPSKIP_return)
  then show ?thesis unfolding constant_expr_def by (intro goes_get) (simp add: Let_def n goes_modify)
qed

lemma goes_char_constant:
  assumes "\<not> make_tmp_lab x" and "length (px_s x) < k"
  shows "goes (px_s x) (char_constant k o' q cnt v) x"
  using assms
proof (induction k arbitrary: x cnt v)
  case (Suc k)
  let ?s = "px_s x"
  have end1: "goes ?s (bind_st (goto (drop 1 ?s)) (\<lambda>_. return v)) x"
    using Suc.prems(1) suffix_drop by (intro goes_goto goes_return) simp_all
  have step: "goes ?s (bind_st (goto r) (\<lambda>_.
        if charspertaddr o' < cnt + 1 then bind_st (on_prog (error 21)) (\<lambda>_. return v)
        else let v = v + push_bit (8 * cnt) (ucast c)
          in if charsperexp o' \<le> cnt + 1 \<and> ch r 0 \<noteq> q then return v else char_constant k o' q (cnt + 1) v)) x"
    if "quoted_char o' q ?s = Inr (Some (c, r))" "?s \<noteq> []" for c r
  proof -
    have b: "suffix r ?s" "length r < length ?s" using behind_quoted [OF that] by (simp_all add: behind_def)
    have "goes r (char_constant k o' q (cnt + 1) w) (x\<lparr>px_s := r\<rparr>)" for w
      using Suc.IH [of "x\<lparr>px_s := r\<rparr>" "cnt + 1" w] Suc.prems b(2) by simp
    then show ?thesis using Suc.prems(1) b(1)
      by (intro goes_goto) (auto simp: Let_def intro: goes_error_return goes_return goes_weaken)
  qed
  show ?case
    unfolding char_constant.simps
    by (rule goes_get) (use end1 step in \<open>auto simp: Let_def goes_fail quoted_char_def split: sum.splits option.splits\<close>)
qed simp

lemma goes_quoted:
  assumes "\<not> make_tmp_lab x" and "suffix m s"
  shows "goes s (quoted_expr o' m) x"
proof -
  have "suffix (drop 1 m) s" using suffix_drop assms(2) by (rule suffix_order.trans)
  moreover have "goes (drop 1 m) (char_constant (length m + 1) o' (ch m 0) 0 0) (x\<lparr>px_s := drop 1 m\<rparr>)"
    using goes_char_constant [of "x\<lparr>px_s := drop 1 m\<rparr>" "length m + 1"] assms(1) by simp
  ultimately have "goes s (char_constant (length m + 1) o' (ch m 0) 0 0) (x\<lparr>px_s := drop 1 m\<rparr>)" using goes_weaken by blast
  then have "goes s (bind_st (char_constant (length m + 1) o' (ch m 0) 0 0) (\<lambda>v. bind_st (EXPSKIP o') (\<lambda>_. return (NUM v)))) (x\<lparr>px_s := drop 1 m\<rparr>)"
    by (rule goes_bind) (rule goes_EXPSKIP_return)
  then show ?thesis unfolding quoted_expr_def by (rule goes_goto)
qed

lemma goes_use: "\<not> make_tmp_lab x \<Longrightarrow> suffix (px_s x) s \<Longrightarrow> goes s (on_prog (use_symbol name)) x"
  by (rule goes_on_prog [OF harmless_use])

lemma goes_named: "\<not> make_tmp_lab x \<Longrightarrow> suffix r s \<Longrightarrow> goes s (named_expr o' name r) x"
  unfolding named_expr_def by (intro goes_goto goes_bind [OF goes_EXPSKIP] goes_use) auto

lemma goes_current_pc: "\<not> make_tmp_lab x \<Longrightarrow> suffix (px_s x) s \<Longrightarrow> goes s (current_pc o') x"
  unfolding current_pc_def
  by (rule goes_bind [OF goes_EXPSKIP], assumption, assumption, rule goes_get) (simp add: goes_on_prog [OF harmless_curpc])

lemma goes_paren:
  assumes "\<not> make_tmp_lab x" and "px_s x \<noteq> []" and "forward n p" and "length (px_s x) \<le> Suc n"
  shows "goes (px_s x) (paren_expr o' p) x"
proof -
  let ?s = "px_s x"
  have d: "suffix (drop 1 ?s) ?s" by (rule suffix_drop)
  have "goes (drop 1 ?s) (bind_st (EXPSKIP o') (\<lambda>_. bind_st p (\<lambda>e. bind_st get (\<lambda>x.
      bind_st (if ch (px_s x) 0 \<noteq> CHR '')'' then on_prog (error 6) else goto (drop 1 (px_s x))) (\<lambda>_. bind_st (EXPSKIP o') (\<lambda>_. return e))))))
      (x\<lparr>px_s := drop 1 ?s\<rparr>)"
  proof (rule goes_bind [OF goes_EXPSKIP])
    fix x' :: parser and u
    assume x': "\<not> make_tmp_lab x'" "suffix (px_s x') (drop 1 ?s)"
    have "length (px_s x') \<le> n" using suffix_length_le [OF x'(2)] assms(4) by simp
    then have "goes (drop 1 ?s) p x'" using goes_forward [OF assms(3)] x' by blast
    then show "goes (drop 1 ?s) (bind_st p (\<lambda>e. bind_st get (\<lambda>x.
      bind_st (if ch (px_s x) 0 \<noteq> CHR '')'' then on_prog (error 6) else goto (drop 1 (px_s x))) (\<lambda>_. bind_st (EXPSKIP o') (\<lambda>_. return e))))) x'"
    proof (rule goes_bind)
      fix y :: parser and e
      assume y: "\<not> make_tmp_lab y" "suffix (px_s y) (drop 1 ?s)"
      have "suffix (drop 1 (px_s y)) (drop 1 ?s)" using suffix_drop y(2) by (rule suffix_order.trans)
      then have "goes (drop 1 ?s) (if ch (px_s y) 0 \<noteq> CHR '')'' then on_prog (error 6) else goto (drop 1 (px_s y))) y"
        using y by (simp add: goes_error goes_end)
      then have "goes (drop 1 ?s) (bind_st (if ch (px_s y) 0 \<noteq> CHR '')'' then on_prog (error 6) else goto (drop 1 (px_s y)))
          (\<lambda>_. bind_st (EXPSKIP o') (\<lambda>_. return e))) y"
        by (rule goes_bind) (rule goes_EXPSKIP_return)
      then show "goes (drop 1 ?s) (bind_st get (\<lambda>x. bind_st (if ch (px_s x) 0 \<noteq> CHR '')'' then on_prog (error 6) else goto (drop 1 (px_s x)))
          (\<lambda>_. bind_st (EXPSKIP o') (\<lambda>_. return e)))) y"
        by (intro goes_get)
    qed
  qed (use assms(1) in simp_all)
  then show ?thesis using d unfolding paren_expr_def by (intro goes_get goes_goto) (rule goes_weaken)
qed

lemma forward_primary:
  assumes "\<And>k. n = Suc k \<Longrightarrow> forward k p"
  shows "forward n (primary_expr o' p)"
proof (rule forwardI)
  fix x :: parser
  assume x: "\<not> make_tmp_lab x" "length (px_s x) \<le> n"
  let ?s = "px_s x"
  obtain m b where m: "const_prefix o' ?s = (m, b)" by fastforce
  have sm: "suffix m ?s" by (rule suffix_const_prefix [OF m])
  have paren: "goes ?s (paren_expr o' p) x" if c: "ch ?s 0 = CHR ''(''"
  proof -
    have ne: "?s \<noteq> []" using c by (auto simp: ch_def)
    then obtain k where k: "n = Suc k" using x(2) by (cases n) auto
    show ?thesis using goes_paren [OF x(1) ne assms [OF k]] x(2) k by simp
  qed
  have local: "goes ?s (bind_st (goto r) (\<lambda>_. on_prog (use_symbol name))) x" if "get_local_label o' (prg x) ?s = Some (name, r)" for name r
    using suffix_get_local_label [OF that] x(1) by (intro goes_goto goes_use) simp_all
  have pc: "goes ?s (bind_st (goto (drop 1 m)) (\<lambda>_. current_pc o')) x"
    using x(1) suffix_order.trans [OF suffix_drop sm] by (intro goes_goto goes_current_pc) simp_all
  have name: "goes ?s (named_expr o' name r) x" if "parse_identifier o' m = Some (name, r)" for name r
    using x(1) suffix_order.trans [OF suffix_parse_identifier [OF that] sm] by (rule goes_named)
  have bad: "goes ?s (bind_st (goto m) (\<lambda>_. bind_st (on_prog (error 9)) (\<lambda>_. return (NUM (- 1))))) x"
    using x(1) sm by (intro goes_goto goes_error_return) simp_all
  show "goes ?s (primary_expr o' p) x"
    unfolding primary_expr_def
    by (rule goes_get) (use paren local pc name bad goes_constant [OF x(1) sm] goes_quoted [OF x(1) sm] in
        \<open>auto simp: Let_def m split: option.splits\<close>)
qed

lemma forward_unary: "forward n p \<Longrightarrow> forward n (unary_expr o' p)"
proof (rule forwardI)
  fix x :: parser
  assume p: "forward n p" and x: "\<not> make_tmp_lab x" "length (px_s x) \<le> n"
  let ?s = "px_s x"
  have op: "goes ?s (bind_st (goto (drop 1 ?s)) (\<lambda>_. bind_st (EXPSKIP o') (\<lambda>_. bind_st p (\<lambda>e. return (f e))))) x" for f
  proof (intro goes_goto goes_bind [OF goes_EXPSKIP, where t = ?s])
    fix x' :: parser and u
    assume x': "\<not> make_tmp_lab x'" "suffix (px_s x') ?s"
    then have "goes ?s p x'" using goes_forward [OF p] suffix_length_le [OF x'(2)] x(2) by simp
    then show "goes ?s (bind_st p (\<lambda>e. return (f e))) x'" by (rule goes_bind) (rule goes_return)
  qed (use x(1) suffix_drop in simp_all)
  then show "goes ?s (unary_expr o' p) x"
    unfolding unary_expr_def by (intro goes_get) (use goes_forward [OF p x] op [of id] op [of "UNOP NEG"] op [of "UNOP NOT'"] op [of "UNOP CPL"] in \<open>simp add: Let_def\<close>)
qed

section \<open>The levels of operators\<close>

text \<open>An operator takes at least a character.\<close>

definition consumes :: "operators \<Rightarrow> bool" where
  "consumes ops \<longleftrightarrow> (\<forall>o' m s m' f r. ops o' m s = Some (m', f, r) \<longrightarrow> behind r s)"

lemma behind_exp_skip: "ch s 0 \<noteq> CHR 0x00 \<Longrightarrow> 0 < k \<Longrightarrow> behind (exp_skip o' (drop k s)) s"
  by (rule behind_drop [OF _ _ suffix_exp_skip]) (auto simp: ch_def)

lemma behind_further: "behind r s \<Longrightarrow> behind (drop k r) s"
  using suffix_order.trans [OF suffix_drop] by (auto simp: behind_def)

lemma operators_consume:
  "consumes shift_ops" "consumes and_ops" "consumes exclusive_or_ops" "consumes inclusive_or_ops" "consumes multiplicative_ops"
  "consumes additive_ops" "consumes relational_ops" "consumes equality_ops" "consumes logical_and_ops" "consumes logical_or_ops"
  by (auto simp: consumes_def shift_ops_def and_ops_def exclusive_or_ops_def inclusive_or_ops_def multiplicative_ops_def
      additive_ops_def relational_ops_def equality_ops_def logical_and_ops_def logical_or_ops_def Let_def
      split: if_splits intro!: behind_exp_skip behind_further)

lemma goes_op_loop:
  assumes "consumes ops" and "forward n next"
  shows "\<not> make_tmp_lab x \<Longrightarrow> length (px_s x) \<le> n \<Longrightarrow> length (px_s x) < k \<Longrightarrow> goes (px_s x) (op_loop k o' ops blanks next m e) x"
proof (induction k arbitrary: x m e)
  case (Suc k)
  let ?s = "px_s x"
  have operand: "goes r (bind_st next (\<lambda>right. bind_st (if blanks then EXPSKIP o' else return ()) (\<lambda>_. op_loop k o' ops blanks next m' (BINOP f e right))))
      (x\<lparr>px_s := r\<rparr>)" if b: "behind r ?s" for m' f r
  proof (rule goes_bind [where s = r])
    show "goes r next (x\<lparr>px_s := r\<rparr>)"
      using goes_forward [OF assms(2), of "x\<lparr>px_s := r\<rparr>" r] Suc.prems b by (simp add: behind_def)
    fix y :: parser and right
    assume y: "\<not> make_tmp_lab y" "suffix (px_s y) r"
    have "goes r (if blanks then EXPSKIP o' else return ()) y" using y by (simp add: goes_EXPSKIP goes_return)
    then show "goes r (bind_st (if blanks then EXPSKIP o' else return ()) (\<lambda>_. op_loop k o' ops blanks next m' (BINOP f e right))) y"
    proof (rule goes_bind)
      fix z :: parser and u
      assume z: "\<not> make_tmp_lab z" "suffix (px_s z) r"
      have "length (px_s z) \<le> length r" using suffix_length_le [OF z(2)] .
      then show "goes r (op_loop k o' ops blanks next m' (BINOP f e right)) z"
        using Suc.IH [OF z(1)] Suc.prems b z(2) by (auto simp: behind_def intro: goes_weaken)
    qed
  qed
  have "goes ?s (bind_st (goto r) (\<lambda>_. bind_st next (\<lambda>right.
         bind_st (if blanks then EXPSKIP o' else return ()) (\<lambda>_. op_loop k o' ops blanks next m' (BINOP f e right))))) x"
    if "ops o' m ?s = Some (m', f, r)" for m' f r
  proof (rule goes_goto)
    have b: "behind r ?s" using that assms(1) unfolding consumes_def by blast
    then have "suffix r ?s" by (simp add: behind_def)
    with operand [OF b] show "goes ?s (bind_st next (\<lambda>right.
         bind_st (if blanks then EXPSKIP o' else return ()) (\<lambda>_. op_loop k o' ops blanks next m' (BINOP f e right)))) (x\<lparr>px_s := r\<rparr>)"
      by (rule goes_weaken)
  qed
  then show ?case using Suc.prems(1)
    unfolding op_loop.simps by (intro goes_get) (cases "ops o' m ?s"; auto intro: goes_return split del: if_split)
qed simp

lemma forward_level:
  assumes "consumes ops" and "forward n next"
  shows "forward n (op_level ops blanks o' next)"
proof (rule forwardI)
  fix x :: parser
  assume x: "\<not> make_tmp_lab x" "length (px_s x) \<le> n"
  let ?s = "px_s x"
  show "goes ?s (op_level ops blanks o' next) x"
    unfolding op_level_def
  proof (rule goes_bind [where s = ?s])
    show "goes ?s next x" using goes_forward [OF assms(2) x] by simp
    fix y :: parser and left
    assume y: "\<not> make_tmp_lab y" "suffix (px_s y) ?s"
    show "goes ?s (bind_st (EXPSKIP o') (\<lambda>_. bind_st get (\<lambda>x. op_loop (length (px_s x) + 1) o' ops blanks next False left))) y"
    proof (rule goes_bind [OF goes_EXPSKIP [OF y]])
      fix z :: parser and u
      assume z: "\<not> make_tmp_lab z" "suffix (px_s z) ?s"
      have "goes (px_s z) (op_loop (length (px_s z) + 1) o' ops blanks next False left) z"
        using suffix_length_le [OF z(2)] x(2) by (intro goes_op_loop [OF assms] z) simp_all
      then show "goes ?s (bind_st get (\<lambda>x. op_loop (length (px_s x) + 1) o' ops blanks next False left)) z"
        using z(2) by (intro goes_get) (rule goes_weaken)
    qed
  qed
qed

lemma forward_expression: "forward n (expression (Suc n) o')"
proof (induction n)
  case 0
  show ?case unfolding expression.simps shift_expr_def and_expr_def exclusive_or_expr_def inclusive_or_expr_def multiplicative_expr_def
      additive_expr_def relational_expr_def equality_expr_def logical_and_expr_def logical_or_expr_def
    by (intro forward_level operators_consume forward_unary forward_primary) simp
next
  case (Suc n)
  show ?case unfolding expression.simps(2) [of "Suc n"] shift_expr_def and_expr_def exclusive_or_expr_def inclusive_or_expr_def
      multiplicative_expr_def additive_expr_def relational_expr_def equality_expr_def logical_and_expr_def logical_or_expr_def
    by (intro forward_level operators_consume forward_unary forward_primary) (use Suc in simp)
qed

section \<open>Parsing ends\<close>

lemma divmod_ends: "divmod a b \<noteq> Inl Runaway"
  by (auto simp: divmod_def Let_def split: prod.splits)

lemma huge_op_ends: "huge_op f l r \<noteq> Inl Runaway"
  using divmod_ends by (cases f) (auto simp: huge_shift_def hdiv_guarded_def hdiv_def hmod_def Let_def split: option.splits sum.splits if_splits)

lemma fold_bin_ends: "fold_bin f l r \<noteq> Inl Runaway"
  using huge_op_ends by (cases "(f, l, r)" rule: fold_bin.cases) (auto split: option.splits sum.splits)

lemma fold_node_ends: "fold_node e s \<noteq> Inl Runaway"
  using fold_bin_ends by (cases e) (auto simp: fold_node_def action_defs split: sum.splits)

lemma simplify_ends: "simplify_expr e s \<noteq> Inl Runaway"
proof (induction e arbitrary: s)
  case (SYM y)
  then show ?case by (auto simp: action_defs split: option.splits expr.splits)
next
  case (UNOP f l)
  then show ?case using fold_node_ends by (auto simp: bind_st_def split: sum.splits)
next
  case (BINOP f l r)
  then show ?case using fold_node_ends by (auto simp: bind_st_def split: sum.splits)
qed (simp_all add: return_def)

lemma logs_none: "\<exists>ms. s = s\<lparr>msgs := msgs s @ ms\<rparr>"
  by (rule exI [where x = "[]"]) simp

lemma fold_node_logs: "fold_node e s = Inr (s', e') \<Longrightarrow> \<exists>ms. s' = s\<lparr>msgs := msgs s @ ms\<rparr>"
  by (cases e) (auto simp: fold_node_def action_defs log_all_def logs_none split: sum.splits)

lemma simplify_logs: "simplify_expr e s = Inr (s', e') \<Longrightarrow> \<exists>ms. s' = s\<lparr>msgs := msgs s @ ms\<rparr>"
proof (induction e arbitrary: s s' e')
  case (SYM y)
  then have "s' = s" by (auto simp: action_defs split: option.splits expr.splits if_splits)
  then show ?case using logs_none by simp
next
  case (UNOP f l)
  obtain s1 l' where "simplify_expr l s = Inr (s1, l')" "fold_node (UNOP f l') s1 = Inr (s', e')"
    using UNOP.prems by (auto simp: bind_st_Inr)
  then show ?case using UNOP.IH fold_node_logs by fastforce
next
  case (BINOP f l r)
  obtain s1 l' s2 r' where "simplify_expr l s = Inr (s1, l')" "simplify_expr r s1 = Inr (s2, r')"
    "fold_node (rearrange (BINOP f l' r')) s2 = Inr (s', e')"
    using BINOP.prems by (auto simp: bind_st_Inr)
  then show ?case using BINOP.IH(1) [of s s1 l'] BINOP.IH(2) [of s1 s2 r'] fold_node_logs by fastforce
qed (auto simp: return_def logs_none)

lemma harmless_simplify: "harmless (lift (simplify_expr e))"
proof (rule harmlessI)
  fix p p' y
  assume "lift (simplify_expr e) p = Inr (p', y)"
  then obtain ms where "p' = p\<lparr>core := (core p)\<lparr>msgs := msgs (core p) @ ms\<rparr>\<rparr>"
    using simplify_logs by (fastforce simp: lift_def split: sum.splits)
  then show "parsed p p'" using harmless_log [of ms] unfolding harmless_def modify_def by simp
qed (use simplify_ends in \<open>auto simp: lift_def split: sum.splits\<close>)

lemma goes_parse_as: "suffix s t \<Longrightarrow> goes t (parse_as o' ty False s) x"
proof -
  assume t: "suffix s t"
  let ?x = "x\<lparr>px_s := s, make_tmp_lab := False, exp_type := ty\<rparr>"
  have "goes s (expression (length s + 1) o') ?x" using goes_forward [OF forward_expression, of ?x "length s"] by simp
  then have "goes s (bind_st (expression (length s + 1) o') (\<lambda>e. on_prog (lift (simplify_expr e)))) ?x"
    by (rule goes_bind) (rule goes_on_prog [OF harmless_simplify])
  then have "goes t (bind_st (expression (length s + 1) o') (\<lambda>e. on_prog (lift (simplify_expr e)))) ?x" using t by (rule goes_weaken)
  then show ?thesis unfolding parse_as_def by (rule goes_modify) simp
qed


end
