(* ===== verification/Cpusize.thy ===== *)
theory Cpusize
  imports Cpu6502 Evalview
begin

text \<open>
  The size of an instruction: the encoder writes exactly the bytes of the size it announces,
  and that is the size \<open>instruction_size\<close> gave for the same position before.
\<close>

section \<open>The bytes written\<close>

text \<open>An operand without a value has an addressing mode without operand bytes.\<close>

definition wf_operand :: "operand \<Rightarrow> bool" where
  "wf_operand op \<longleftrightarrow> (op_value op = None \<longrightarrow> opsize (op_type op) = 0)"

definition wf_instr :: "instr \<Rightarrow> bool" where
  "wf_instr ip \<longleftrightarrow> list_all wf_operand (inst_ops ip)"

lemma length_value_bytes [simp]: "length (value_bytes n v) = n"
  by (simp add: value_bytes_def)

lemma write_operand_length:
  "write_operand t val d = Inr (d', errs) \<Longrightarrow> d \<noteq> [] \<Longrightarrow> length d' = length d + opsize t \<and> d' \<noteq> []"
  by (cases t) (auto simp: write_operand_def opsize_def Let_def split: if_splits)

definition grows :: "nat \<Rightarrow> u8 list \<Rightarrow> u8 list \<times> rlist \<Rightarrow> bool" where
  "grows n d r \<longleftrightarrow> length (fst r) = length d + n \<and> fst r \<noteq> []"

lemma eval_operand_grows:
  assumes "wf_operand op" and "d \<noteq> []"
  shows "gives (grows (opsize (op_type op)) d) (eval_operand cpu op c pc d rl)"
proof (cases "op_value op")
  case None
  then show ?thesis using assms by (simp add: eval_operand_def gives_return grows_def wf_operand_def)
next
  case (Some e)
  have "gives (grows (opsize (op_type op)) d)
     (case write_operand (op_type op) val d of
        Inl x \<Rightarrow> fail x | Inr (d, errs) \<Rightarrow> bind_st (modify (cpu_errs errs)) (\<lambda>_. return (d, rl)))" for val rl
  proof (cases "write_operand (op_type op) val d")
    case (Inr r)
    obtain d' errs where r: "r = (d', errs)" by fastforce
    show ?thesis
      using write_operand_length [OF Inr [unfolded r] assms(2)]
      by (simp add: Inr r gives_after gives_return grows_def)
  qed (simp add: gives_fail)
  then show ?thesis
    unfolding eval_operand_def Some option.case
    by (intro gives_after gives_split)
qed

lemma eval_operands_grows:
  "list_all wf_operand ops \<Longrightarrow> d \<noteq> [] \<Longrightarrow>
     gives (grows (sum_list (map (\<lambda>op. opsize (op_type op)) ops)) d) (eval_operands cpu ops c pc d rl)"
proof (induction ops arbitrary: d rl)
  case (Cons op ops)
  then have w: "wf_operand op" by simp
  show ?case
    unfolding eval_operands.simps
  proof (rule gives_bind [OF eval_operand_grows [OF w Cons.prems(2)]], rule gives_prod)
    fix r d1 rl1 assume "grows (opsize (op_type op)) d r" "r = (d1, rl1)"
    then have g: "grows (opsize (op_type op)) d (d1, rl1)" and "d1 \<noteq> []" by (simp_all add: grows_def)
    then have "gives (grows (sum_list (map (\<lambda>op. opsize (op_type op)) ops)) d1) (eval_operands cpu ops c pc d1 rl1)"
      using Cons.IH Cons.prems(1) by simp
    moreover have "grows (sum_list (map (\<lambda>op. opsize (op_type op)) ops)) d1 =
      grows (sum_list (map (\<lambda>op. opsize (op_type op)) (op # ops))) d"
      using g by (auto simp: grows_def fun_eq_iff)
    ultimately show "gives (grows (sum_list (map (\<lambda>op. opsize (op_type op)) (op # ops))) d)
        (eval_operands cpu ops c pc d1 rl1)" by simp
  qed
qed (simp add: gives_return grows_def)

lemma encode_ops_size:
  "sum_list (map f (encode_ops cpu ip)) = sum_list (map f (inst_ops ip))" for f :: "operand \<Rightarrow> nat"
  by (auto simp: encode_ops_def split: list.split)

lemma encode_ops_wf: "wf_instr ip \<Longrightarrow> list_all wf_operand (encode_ops cpu ip)"
  by (auto simp: encode_ops_def wf_instr_def split: list.splits)

lemma optimize_operand_wf:
  assumes "wf_operand op"
  shows "gives (\<lambda>r. wf_operand (snd r)) (optimize_operand cpu m code op c pc final)"
proof (cases "op_value op")
  case None
  then show ?thesis using assms by (simp add: optimize_operand_def gives_return)
next
  case (Some e)
  have w: "gives (\<lambda>r. wf_operand (snd r)) (return (n, op\<lparr>op_type := t\<rparr>))"
    "gives (\<lambda>r. wf_operand (snd r)) (return (n, op))" for n t
    using Some by (simp_all add: gives_return wf_operand_def)
  show ?thesis
    unfolding optimize_operand_def Some option.case Let_def
    by (intro gives_after gives_split gives_if w)
qed

lemma optimize_ops_wf:
  "list_all wf_operand ops \<Longrightarrow> gives (\<lambda>r. list_all wf_operand (snd r)) (optimize_ops cpu m code ops c pc final)"
proof (induction ops arbitrary: code)
  case (Cons op ops)
  then have w: "wf_operand op" and v: "list_all wf_operand ops" by simp_all
  show ?case
    unfolding optimize_ops.simps
    by (rule gives_bind [OF optimize_operand_wf [OF w]], rule gives_prod, rule gives_bind [OF Cons.IH [OF v]],
        rule gives_prod, rule gives_return) simp_all
qed (simp add: gives_return)

lemma optimize_instruction_wf: "wf_instr ip \<Longrightarrow> gives wf_instr (optimize_instruction cpu ip c pc final)"
  unfolding optimize_instruction_def
  by (rule gives_bind [OF optimize_ops_wf], simp add: wf_instr_def, rule gives_prod, rule gives_return)
    (simp_all add: wf_instr_def)

lemma eval_instruction_size:
  assumes "wf_instr ip"
  shows "gives (\<lambda>db. length (db_data db) = db_size db) (eval_instruction cpu ip c pc)"
  unfolding eval_instruction_def Let_def
proof (rule gives_bind [OF optimize_instruction_wf [OF assms]], rule gives_bind [OF eval_operands_grows])
  fix ip :: instr and r :: "u8 list \<times> rlist"
  assume "wf_instr ip"
  then show "list_all wf_operand (encode_ops cpu ip)" by (rule encode_ops_wf)
next
  fix ip :: instr and r :: "u8 list \<times> rlist"
  let ?m = "mnemonics ! inst_code ip"
  let ?pre = "if available ?m AND M45GS02Q \<noteq> 0 then [0x42, 0x42] else [] :: u8 list"
  assume "grows (\<Sum>op\<leftarrow>encode_ops cpu ip. opsize (op_type op)) (?pre @ [opcode_for ?m (inst_ops ip) (opcode ?m)]) r"
  then have "length (fst r) = get_inst_size ip"
    by (simp add: grows_def get_inst_size_def encode_ops_size split: if_splits)
  then show "gives (\<lambda>db. length (db_data db) = db_size db)
      (case r of (d, rl) \<Rightarrow> return \<lparr>db_size = get_inst_size ip, db_data = d, db_relocs = rl\<rparr>)"
    by (cases r) (simp add: gives_return)
qed simp

section \<open>The same size twice\<close>

lemma view_cpu_errs: "view (cpu_errs ns s) = view s"
  by (induction ns arbitrary: s) (simp_all add: cpu_err_def view_general_error)

lemma alike_eval_base [intro]: "alike (eval_base e c pc) (eval_base e c pc)"
  unfolding eval_base_def by (intro alike_bind alike_prod alike_if alike_eval_expr alike_find_base alike_return)

lemma alike_is_pc_reloc [intro]: "alike (is_pc_reloc y c) (is_pc_reloc y c)"
  unfolding is_pc_reloc_def
proof (rule alike_read, goal_cases)
  case (1 s t)
  show ?case unfolding view_eqD(1,6) [OF 1] by (rule refl)
qed (auto split: option.split)

lemma alike_no_pc_reloc [intro]: "alike (no_pc_reloc b c) (no_pc_reloc b c)"
  unfolding no_pc_reloc_def by (cases b) (simp_all add: alike_return alike_bind alike_is_pc_reloc)

lemma wanted_view:
  assumes "view s = view t"
  shows "zp_wanted cpu m op v b s = zp_wanted cpu m op v b t" and "long_wanted cpu m op v b s = long_wanted cpu m op v b t"
  unfolding zp_wanted_def long_wanted_def base_in_def view_eqD(1,6) [OF assms] by (rule refl)+

lemma alike_optimize_operand:
  "alike (optimize_operand cpu m code op c pc f) (optimize_operand cpu m code op c pc f')"
proof (cases "op_value op")
  case None
  then show ?thesis by (simp add: optimize_operand_def alike_return)
next
  case (Some e)
  have d: "alike
     (bind_st get (\<lambda>s. if zp_wanted cpu m op val base s then return (code, op\<lparr>op_type := to_dpage (op_type op)\<rparr>)
            else if long_wanted cpu m op val base s then return (code, op\<lparr>op_type := to_long (op_type op)\<rparr>)
            else return (code, op)))
     (bind_st get (\<lambda>s. if zp_wanted cpu m op val base s then return (code, op\<lparr>op_type := to_dpage (op_type op)\<rparr>)
            else if long_wanted cpu m op val base s then return (code, op\<lparr>op_type := to_long (op_type op)\<rparr>)
            else return (code, op)))" for val base
  proof (rule alike_read, goal_cases)
    case (1 s t)
    show ?case unfolding wanted_view [OF 1] by (rule refl)
  next
    case (2 s)
    show ?case by (intro alike_if alike_return)
  qed
  have m: "alike (modify (\<lambda>s. if f then cpu_errs es s else s)) (modify (\<lambda>s. if f' then cpu_errs es s else s))" for es
    by (rule alike_modify) (simp add: view_cpu_errs)
  show ?thesis
    unfolding optimize_operand_def Some option.case Let_def
    by (intro alike_bind alike_prod alike_if alike_eval_base alike_no_pc_reloc alike_return d m)
qed

lemma alike_optimize_ops:
  "alike (optimize_ops cpu m code ops c pc f) (optimize_ops cpu m code ops c pc f')"
  by (induction ops arbitrary: code) (auto intro!: alike_bind alike_prod alike_optimize_operand alike_return)

lemma alike_optimize_instruction:
  "alike (optimize_instruction cpu ip c pc f) (optimize_instruction cpu ip c pc f')"
  unfolding optimize_instruction_def by (intro alike_bind alike_prod alike_optimize_ops alike_return)

context action_frame
begin

lemma keeps_cpu_errs: "keeps (modify (\<lambda>s. if b then cpu_errs es s else s))"
proof (rule keeps_modify)
  have "I s \<Longrightarrow> F s (cpu_errs es s)" for s
  proof (induction es arbitrary: s)
    case (Cons n es)
    have "F s (cpu_err n s)" unfolding cpu_err_def by (rule F_error [OF Cons.prems])
    then show ?case using Cons.IH F_I Cons.prems F_trans by fastforce
  qed (simp add: F_refl)
  then show "I s \<Longrightarrow> F s (if b then cpu_errs es s else s)" for s by (simp add: F_refl)
qed

lemma keeps_no_pc_reloc: "keeps (no_pc_reloc b c')"
  unfolding no_pc_reloc_def is_pc_reloc_def
  by (intro keeps_option keeps_bind keeps_basic keeps_if)

lemma keeps_optimize_operand: "keeps (optimize_operand cpu m code op c pc f)"
  unfolding optimize_operand_def eval_base_def Let_def
  by (intro keeps_rules keeps_no_pc_reloc keeps_cpu_errs)

lemma keeps_optimize_ops: "keeps (optimize_ops cpu m code ops c pc f)"
proof (induction ops arbitrary: code)
  case (Cons op ops)
  show ?case unfolding optimize_ops.simps by (intro keeps_bind keeps_prod keeps_optimize_operand Cons.IH keeps_basic)
qed (simp add: keeps_basic)

lemma keeps_optimize_instruction: "keeps (optimize_instruction cpu ip c pc f)"
  unfolding optimize_instruction_def by (intro keeps_bind keeps_prod keeps_optimize_ops keeps_basic)

lemma keeps_instruction_size: "keeps (instruction_size cpu ip c pc)"
  unfolding instruction_size_def by (intro keeps_bind keeps_optimize_instruction keeps_basic)

end

section \<open>Size and encoding agree\<close>

lemma size_same:
  assumes w: "wf_instr ip" and here: "at_position c pc s"
    and size: "instruction_size cpu ip c pc s = Inr (s1, n)"
    and ev: "eval_instruction cpu ip c pc s1 = Inr (s2, db)"
  shows "db_size db = n \<and> length (db_data db) = n"
proof -
  obtain ip1 where o: "optimize_instruction cpu ip c pc False s = Inr (s1, ip1)" and n: "n = get_inst_size ip1"
    using size by (auto simp: instruction_size_def action_Inr)
  have v: "view s = view s1" using vwf.keepsD [OF vwf.keeps_optimize_instruction here o] by simp
  obtain s3 where o2: "optimize_instruction cpu ip c pc True s1 = Inr (s3, ip1)"
    using alikeD [OF alike_optimize_instruction v o] by blast
  have "db_size db = get_inst_size ip1"
    using ev o2 by (auto simp: eval_instruction_def action_Inr Let_def)
  moreover have "length (db_data db) = db_size db"
    by (rule givesD [OF eval_instruction_size [OF w] ev])
  ultimately show ?thesis by (simp add: n)
qed

text \<open>
  C7. The size of an instruction, computed without reporting errors, is the size of its
  encoding at the same position, and the encoding has that many bytes: the layout computed from
  sizes is the layout of the output.
\<close>

theorem instruction_size_agrees:
  assumes "wf_instr ip" and "at_position c pc s"
    and "instruction_size cpu ip c pc s = Inr (s1, n)" and "eval_instruction cpu ip c pc s1 = Inr (s2, db)"
  shows "db_size db = n \<and> length (db_data db) = n"
  by (rule size_same [OF assms])

text \<open>\<open>lda\<close> of an address in the zero page, at the start of a section.\<close>

definition cpu0 :: cpuconf where
  "cpu0 = \<lparr>cpu_type = M6502, auto_mask = False, branchopt = True, dp_offset = False, dpage = 0, asize = 8, xsize = 8,
     OC_JMPABS = 0, OC_BRA = 0, OC_FIRSTMV = 0, OC_LASTMV = 0\<rparr>"

definition no_symbols :: asm where
  "no_symbols = \<lparr>syms = [], secs = [], cpc = None, final_pass = True, num_secs = 0, bytespertaddr = 2, msgs = []\<rparr>"

definition adc_zp :: instr where
  "adc_zp = \<lparr>inst_code = 1, inst_ops = [\<lparr>op_type = ABS, op_flags = 0, op_value = Some (NUM 0x12)\<rparr>]\<rparr>"

lemma instruction_size_agrees_witness:
  "\<exists>s1 s2 db. instruction_size cpu0 adc_zp None 0x1000 no_symbols = Inr (s1, 2) \<and>
     eval_instruction cpu0 adc_zp None 0x1000 s1 = Inr (s2, db) \<and> length (db_data db) = 2"
proof -
  have 1: "instruction_size cpu0 adc_zp None 0x1000 no_symbols = Inr (no_symbols, 2)" by code_simp
  have 2: "eval_instruction cpu0 adc_zp None 0x1000 no_symbols =
    Inr (no_symbols, \<lparr>db_size = 2, db_data = [0x65, 0x12], db_relocs = []\<rparr>)" by code_simp
  have "wf_instr adc_zp" by (simp add: wf_instr_def adc_zp_def wf_operand_def)
  moreover have "at_position None 0x1000 no_symbols" by (simp add: curpc_here cpc_ok_def no_symbols_def)
  ultimately show ?thesis using instruction_size_agrees [OF _ _ 1 2] 1 2 by blast
qed

end
