(* ===== verification/Operands.thy ===== *)
theory Operands
  imports Exprends Exprround Cpusize Mnemotab
begin

text \<open>
  From the text of an instruction to the instruction: splitting the operand field
  (\<open>src/syntax/oldstyle/syntax.c\<close>), the operand parser of the 6502 (\<open>src/cpus/6502/cpu.c\<close>), and
  the search for the mnemonic whose operands match (\<open>src/atom.c\<close>). An operand is the rest of the
  line it starts in and its length. A text that the expression parser cut at a comment has ended
  there for what follows, too.
\<close>

section \<open>Settings\<close>

record synconf =
  exprs :: expconf
  lo_c :: char
  hi_c :: char
  allow_trailing_comments :: bool
  dotdirs :: bool

definition toupper_c :: "char \<Rightarrow> char" where
  "toupper_c c = (if 97 \<le> code c \<and> code c \<le> 122 then char_of (code c - 32) else c)"

definition cpu_message :: "nat \<Rightarrow> (prog, unit) step" where
  "cpu_message n = error (2000 + n)"

definition ISEOL :: "synconf \<Rightarrow> string \<Rightarrow> bool" where
  "ISEOL o' s \<longleftrightarrow> s = [] \<or> hd s = commentchar (exprs o')"

section \<open>Parentheses around an operand\<close>

text \<open>The text behind the closing parenthesis, what is left up to the end of the operand, and the nesting.\<close>

fun indir_scan :: "char \<Rightarrow> char \<Rightarrow> string \<Rightarrow> nat \<Rightarrow> nat \<Rightarrow> string \<times> nat \<times> nat" where
  "indir_scan p1 p2 (c # cs) (Suc left) (Suc n) =
     indir_scan p1 p2 cs left (if c = p1 then Suc (Suc n) else if c = p2 then n else Suc n)"
| "indir_scan p1 p2 cs left n = (cs, left, n)"

definition check_indir :: "string \<Rightarrow> nat \<Rightarrow> char \<Rightarrow> char \<Rightarrow> bool" where
  "check_indir p left p1 p2 =
     (let r = skip p; left = left - (length p - length r)
      in ch r 0 = p1 \<and>
         (case indir_scan p1 p2 (drop 1 r) (left - 1) 1 of
            (r, left, n) \<Rightarrow> n = 0 \<and> (if 0 < left then left - (length r - length (skip r)) else left) = 0))"

section \<open>The operand parser\<close>

datatype po = PO_CORRUPT | PO_NOMATCH | PO_MATCH | PO_SKIP | PO_COMB_OPT | PO_COMB_REQ | PO_NEXT

definition IS_INDIR :: "optype \<Rightarrow> bool" where
  "IS_INDIR t \<longleftrightarrow> t \<in> {INDIR, DPINDX, DPINDY, DPINDZ, DPIND, SRINDY, INDIRX}"

definition IS_SQIND :: "optype \<Rightarrow> bool" where
  "IS_SQIND t \<longleftrightarrow> t \<in> {LINDIR, LDPINDY, QDPINDZ, LDPIND, QDPIND}"

text \<open>
  Whether an operand of the required type may begin like this, where \<open>indir\<close> is 1 in
  parentheses and 2 in brackets: the kind of selectors that are allowed, and the text behind \<open>#\<close>.
\<close>

definition operand_start :: "optype \<Rightarrow> nat \<Rightarrow> string \<Rightarrow> (nat \<times> string) option" where
  "operand_start required indir p =
     (let hash = (if ch p 0 = CHR ''#'' then skip (drop 1 p) else p) in
      if required \<in> {IMMED, IMMEDX, IMMED8, IMMED16} then
        (if ch p 0 \<noteq> CHR ''#'' \<or> indir \<noteq> 0 then None else Some (1, hash))
      else if required \<in> {DATAOP, ABS, ABSX, ABSY, ABSZ, LABS, LABSX} then (if indir \<noteq> 0 then None else Some (1, p))
      else if IS_INDIR required then (if indir \<noteq> 1 then None else Some (2, p))
      else if IS_SQIND required then (if indir \<noteq> 2 then None else Some (2, p))
      else if indir \<noteq> 0 then None
      else if required = WBIT then Some (0, hash)
      else if required \<in> {MVBANK, REL8, REL16, ACCU} then Some (0, p)
      else Some (2, p))"

definition selector :: "synconf \<Rightarrow> nat \<Rightarrow> string \<Rightarrow> u32 \<times> string" where
  "selector o' pfx p =
     (let c = ch p 0; r = skip (drop 1 p) in
      if pfx \<noteq> 0 \<and> c = lo_c o' then (OF_LO, r)
      else if pfx \<noteq> 0 \<and> c = hi_c o' then (OF_HI, r)
      else if pfx = 1 \<and> (c = CHR ''^'' \<or> code c = 96) then (OF_BK, r)
      else if pfx = 1 \<and> c = CHR ''?'' then (OF_ID, r)
      else if pfx = 2 \<and> (c = CHR ''!'' \<or> c = CHR ''|'') then (OF_WA, r)
      else (0, p))"

text \<open>What has to follow the expression; \<open>None\<close> is no match.\<close>

definition index_register :: "char \<Rightarrow> string \<Rightarrow> string option" where
  "index_register x p =
     (if ch p 0 = CHR '','' \<and> toupper_c (ch (skip (drop 1 p)) 0) = x then Some (drop 1 (skip (drop 1 p))) else None)"

definition closing :: "char \<Rightarrow> string \<Rightarrow> string option" where
  "closing c p = (if ch (skip p) 0 = c then Some (drop 1 (skip p)) else None)"

definition operand_end :: "optype \<Rightarrow> nat \<Rightarrow> string \<Rightarrow> string option" where
  "operand_end required len p =
     Option.bind
       (if required = DPINDX \<or> required = INDIRX then index_register (CHR ''X'') p
        else if required = SRINDY then index_register (CHR ''S'') p
        else if required = ACCU \<and> len \<noteq> 0 then
          (if len = 1 \<and> toupper_c (ch p 0) = CHR ''A'' then Some (drop 1 p) else None)
        else Some p)
       (\<lambda>p. if IS_INDIR required then closing (CHR '')'') p
            else if IS_SQIND required then closing (CHR '']'') p
            else Some p)"

definition final_type :: "cpuconf \<Rightarrow> optype \<Rightarrow> optype" where
  "final_type conf required =
     (if required = IMMED then (if asize conf = 16 then IMMED16 else IMMED8)
      else if required = IMMEDX then (if xsize conf = 16 then IMMED16 else IMMED8)
      else required)"

text \<open>The modes whose index register is read in a second pass, and the register.\<close>

definition second_register :: "optype \<Rightarrow> char option" where
  "second_register t =
     (if t = ABSX then Some (CHR ''X'')
      else if t \<in> {ABSY, DPINDY, LDPINDY, SRINDY} then Some (CHR ''Y'')
      else if t \<in> {ABSZ, DPINDZ, QDPINDZ} then Some (CHR ''Z'')
      else if t = SR then Some (CHR ''S'')
      else None)"

text \<open>Text that is left in the operand.\<close>

definition trailing :: "synconf \<Rightarrow> string \<Rightarrow> nat \<Rightarrow> string \<Rightarrow> unit parse" where
  "trailing o' start len p =
     (let p = skip p in
      if p \<noteq> [] \<and> length start - length p < len \<and> \<not> allow_trailing_comments o' then on_prog (cpu_message 1) else return ())"

text \<open>An operand that does not match is thrown away by all callers, and not returned here.\<close>

definition parse_operand :: "synconf \<Rightarrow> string \<Rightarrow> nat \<Rightarrow> operand \<Rightarrow> optype \<Rightarrow> (po \<times> operand) parse" where
  "parse_operand o' start len op required =
     (let p = skip start; nomatch = return (PO_NOMATCH, op) in
      if op_type op = IMPLIED then
        (let left = len - (length start - length p);
             open = 0 < len \<and> required \<noteq> DATAOP \<and>
               (check_indir p left (CHR ''('') (CHR '')'') \<or> check_indir p left (CHR ''['') (CHR '']''));
             indir = (if open then if ch p 0 = CHR ''['' then 2 else 1 else 0)
         in case operand_start required indir (if open then skip (drop 1 p) else p) of
              None \<Rightarrow> nomatch
            | Some (pfx, p) \<Rightarrow>
                bind_st
                  (if required \<noteq> ACCU then
                     (case selector o' pfx p of
                        (fl, p) \<Rightarrow> bind_st (parse_expr (exprs o') p) (\<lambda>e. bind_st get (\<lambda>x.
                          return (op\<lparr>op_flags := op_flags op OR fl, op_value := Some e\<rparr>, px_s x))))
                   else return (op\<lparr>op_value := None\<rparr>, p)) (\<lambda>(op, p). bind_st get (\<lambda>x.
                case operand_end required len p of
                  None \<Rightarrow> nomatch
                | Some p \<Rightarrow>
                    bind_st (trailing o' start len p) (\<lambda>_.
                    return (if second_register required \<noteq> None then PO_COMB_REQ else PO_MATCH,
                            op\<lparr>op_type := final_type (cpu (prg x)) required\<rparr>)))))
      else
        (case second_register (op_type op) of
           None \<Rightarrow> nomatch
         | Some r \<Rightarrow>
             if toupper_c (ch p 0) \<noteq> r then nomatch
             else bind_st (trailing o' start len (drop 1 p)) (\<lambda>_. return (PO_MATCH, op))))"

section \<open>Matching the operands of a mnemonic\<close>

text \<open>
  The position in the operand types (\<open>j\<close>) and in the operands of the source (\<open>k\<close>), what has been
  parsed, and the number of types that were skipped. \<open>again\<close> is the type that may take another
  operand. No operand of the 6502 is optional. \<open>None\<close> is a corrupt operand. Every round moves
  \<open>j\<close> or \<open>k\<close> forward; their sum bounds the rounds.
\<close>

definition empty_operand :: operand where
  "empty_operand = \<lparr>op_type = IMPLIED, op_flags = 0, op_value = None\<rparr>"

fun match_operands ::
  "nat \<Rightarrow> synconf \<Rightarrow> optype list \<Rightarrow> (string \<times> nat) list \<Rightarrow> nat \<Rightarrow> nat \<Rightarrow> nat option \<Rightarrow> nat \<Rightarrow> operand list
     \<Rightarrow> (nat \<times> nat \<times> nat \<times> operand list) option parse" where
  "match_operands 0 o' types args j k again skipped ops = fail Runaway"
| "match_operands (Suc n) o' types args j k again skipped ops =
     (if length types \<le> j then return (Some (j, k, skipped, ops))
      else if length args \<le> k then return (Some (if again = Some j then j + 1 else j, k, skipped, ops))
      else case args ! k of (s, len) \<Rightarrow>
        bind_st (parse_operand o' s len (ops ! j) (types ! j)) (\<lambda>(rc, op).
        let ops = ops[j := op] in
        case rc of
          PO_CORRUPT \<Rightarrow> return None
        | PO_NOMATCH \<Rightarrow> return (Some (j, k, skipped, ops))
        | PO_NEXT \<Rightarrow> match_operands n o' types args (j + 1) k again skipped ops
        | PO_MATCH \<Rightarrow> match_operands n o' types args (j + 1) (k + 1) again skipped ops
        | PO_SKIP \<Rightarrow> match_operands n o' types args (j + 2) (k + 1) again (skipped + 1) ops
        | PO_COMB_REQ \<Rightarrow> match_operands n o' types args j (k + 1) again skipped ops
        | PO_COMB_OPT \<Rightarrow> match_operands n o' types args j (k + 1) (Some j) skipped ops))"

definition match_mnemonic :: "synconf \<Rightarrow> nat \<Rightarrow> (string \<times> nat) list \<Rightarrow> instr option option parse" where
  "match_mnemonic o' i args =
     (let types = operand_type (mnemonics ! i) in
      bind_st (on_prog save_symbols) (\<lambda>_.
      bind_st (match_operands (length types + length args + 2) o' types args 0 0 None 0 (replicate (length types) empty_operand)) (\<lambda>r.
      case r of
        None \<Rightarrow> bind_st (on_prog restore_symbols) (\<lambda>_. return None)
      | Some (j, k, skipped, ops) \<Rightarrow>
          if (\<not> igntrail (exprs o') \<or> 0 < length types) \<and> (j < length types \<or> k < length args)
          then bind_st (on_prog restore_symbols) (\<lambda>_. return (Some None))
          else return (Some (Some \<lparr>inst_code = i, inst_ops = take (length types - skipped) ops\<rparr>)))))"

text \<open>
  The mnemonics of one name, from the first one. The flag says whether the last one is available
  for the cpu, which decides about the message.
\<close>

definition same_name :: "nat \<Rightarrow> nat list" where
  "same_name i = takeWhile (\<lambda>j. mn_name (mnemonics ! j) = mn_name (mnemonics ! i)) [i..<length mnemonics]"

fun try_mnemonics :: "synconf \<Rightarrow> (string \<times> nat) list \<Rightarrow> bool \<Rightarrow> nat list \<Rightarrow> instr option parse" where
  "try_mnemonics o' args found [] = bind_st (on_prog (error (if found then 0 else 8))) (\<lambda>_. return None)"
| "try_mnemonics o' args found (i # js) = bind_st get (\<lambda>x.
     if \<not> cpu_available (cpu (prg x)) i then try_mnemonics o' args False js
     else bind_st (match_mnemonic o' i args) (\<lambda>r.
       case r of None \<Rightarrow> return None | Some (Some ip) \<Rightarrow> return (Some ip) | Some None \<Rightarrow> try_mnemonics o' args True js))"

definition MNEMOHTABSIZE :: nat where "MNEMOHTABSIZE = 0x1000"

definition mnemohash :: "nat hashtable" where
  "mnemohash = init_mnemohash False MNEMOHTABSIZE (map mn_name mnemonics)"

definition new_inst :: "synconf \<Rightarrow> string \<Rightarrow> (string \<times> nat) list \<Rightarrow> instr option parse" where
  "new_inst o' inst args =
     (case snd (find_namelen_nc mnemohash inst (length inst)) of
        None \<Rightarrow> bind_st (on_prog (error 1)) (\<lambda>_. return None)
      | Some i \<Rightarrow> try_mnemonics o' args False (same_name i))"

section \<open>Instructions that are accepted\<close>

text \<open>What holds of the results of a part of the parser for the cpu \<open>c\<close>, which also ends.\<close>

definition yields :: "cpuconf \<Rightarrow> 'a parse \<Rightarrow> ('a \<Rightarrow> bool) \<Rightarrow> bool" where
  "yields c m Q \<longleftrightarrow> (\<forall>x. cpu (prg x) = c \<longrightarrow>
     (case m x of Inl e \<Rightarrow> e \<noteq> Runaway | Inr (x', y) \<Rightarrow> parsed (prg x) (prg x') \<and> Q y))"

lemma yieldsD: "yields c m Q \<Longrightarrow> cpu (prg x) = c \<Longrightarrow> m x = Inr (x', y) \<Longrightarrow> parsed (prg x) (prg x') \<and> Q y"
  and yields_stop: "yields c m Q \<Longrightarrow> cpu (prg x) = c \<Longrightarrow> m x = Inl e \<Longrightarrow> e \<noteq> Runaway"
  unfolding yields_def by (force split: sum.splits)+

lemma yieldsI:
  "(\<And>x e. cpu (prg x) = c \<Longrightarrow> m x = Inl e \<Longrightarrow> e \<noteq> Runaway) \<Longrightarrow>
   (\<And>x x' y. cpu (prg x) = c \<Longrightarrow> m x = Inr (x', y) \<Longrightarrow> parsed (prg x) (prg x') \<and> Q y) \<Longrightarrow> yields c m Q"
  unfolding yields_def by (auto split: sum.splits)

lemma yields_bind:
  assumes "yields c m P" and "\<And>y. P y \<Longrightarrow> yields c (f y) Q"
  shows "yields c (bind_st m f) Q"
proof (rule yieldsI)
  fix x :: parser and e
  assume x: "cpu (prg x) = c" "bind_st m f x = Inl e"
  show "e \<noteq> Runaway"
  proof (cases "m x")
    case (Inl e')
    then show ?thesis using yields_stop [OF assms(1) x(1)] x(2) by (simp add: bind_st_def)
  next
    case (Inr r)
    obtain x1 y where "r = (x1, y)" by (cases r)
    then have m: "m x = Inr (x1, y)" using Inr by simp
    note p = yieldsD [OF assms(1) x(1) m]
    then show ?thesis using yields_stop [OF assms(2)] parsed_cpu x m by (fastforce simp: bind_st_def)
  qed
next
  fix x x' :: parser and z
  assume x: "cpu (prg x) = c" "bind_st m f x = Inr (x', z)"
  then obtain x1 y where m: "m x = Inr (x1, y)" "f y x1 = Inr (x', z)" unfolding bind_st_Inr by blast
  note p = yieldsD [OF assms(1) x(1) m(1)]
  then have "cpu (prg x1) = c" using parsed_cpu x(1) by metis
  then show "parsed (prg x) (prg x') \<and> Q z" using yieldsD [OF assms(2) _ m(2)] p parsed_trans by blast
qed

lemma yields_return: "Q y \<Longrightarrow> yields c (return y) Q"
  by (simp add: yields_def return_def)

lemma yields_get: "(\<And>x. cpu (prg x) = c \<Longrightarrow> yields c (f x) Q) \<Longrightarrow> yields c (bind_st get f) Q"
  unfolding yields_def bind_st_def get_def by simp

lemma yields_on_prog: "harmless m \<Longrightarrow> yields c (on_prog m) (\<lambda>_. True)"
  unfolding harmless_def yields_def on_prog_def by (force split: sum.splits)

lemma yields_parse_expr: "yields c (parse_expr o' s) (\<lambda>_. True)"
  using goes_parse_as [OF suffix_order.refl, of s o' T_NUM] unfolding parse_expr_def yields_def goes_def by (force split: sum.splits)

text \<open>An operand as the type of the mnemonic asks for it.\<close>

definition fits :: "cpuconf \<Rightarrow> optype \<Rightarrow> operand \<Rightarrow> bool" where
  "fits conf required op \<longleftrightarrow> op_type op = final_type conf required \<and> (op_value op = None \<longleftrightarrow> required = ACCU)"

definition accepted :: "cpuconf \<Rightarrow> optype \<Rightarrow> po \<times> operand \<Rightarrow> bool" where
  "accepted conf required r \<longleftrightarrow> fst r = PO_NOMATCH \<or> (fst r = PO_MATCH \<or> fst r = PO_COMB_REQ) \<and> fits conf required (snd r)"

lemma yields_trailing: "yields c (trailing o' start len p) (\<lambda>_. True)"
  unfolding trailing_def cpu_message_def Let_def
  by (auto intro: yields_on_prog [OF harmless_error] yields_return)

lemma yields_operand:
  assumes "op_type op \<noteq> IMPLIED \<Longrightarrow> fits c required op"
  shows "yields c (parse_operand o' start len op required) (accepted c required)"
proof (cases "op_type op = IMPLIED")
  case False
  have "yields c (bind_st (trailing o' start len p) (\<lambda>_. return (PO_MATCH, op))) (accepted c required)" for p
    by (rule yields_bind [OF yields_trailing], rule yields_return) (use assms False in \<open>simp add: accepted_def\<close>)
  moreover have "yields c (return (PO_NOMATCH, op)) (accepted c required)" by (rule yields_return) (simp add: accepted_def)
  ultimately show ?thesis using False by (auto simp: parse_operand_def Let_def split: option.splits)
next
  case True
  let ?oper = "\<lambda>pfx p. if required \<noteq> ACCU then
                   (case selector o' pfx p of
                      (fl, p) \<Rightarrow> bind_st (parse_expr (exprs o') p) (\<lambda>e. bind_st get (\<lambda>x.
                        return (op\<lparr>op_flags := op_flags op OR fl, op_value := Some e\<rparr>, px_s x))))
                 else return (op\<lparr>op_value := None\<rparr>, p)"
  have v: "yields c (?oper pfx p) (\<lambda>(op, p). op_value op = None \<longleftrightarrow> required = ACCU)" for pfx p
    by (auto split: prod.splits intro!: yields_return yields_bind [OF yields_parse_expr] yields_get)
  have b: "yields c (bind_st (?oper pfx p) (\<lambda>(op1, p). bind_st get (\<lambda>x.
              case operand_end required len p of
                None \<Rightarrow> return (PO_NOMATCH, op)
              | Some p \<Rightarrow>
                  bind_st (trailing o' start len p) (\<lambda>_.
                  return (if second_register required \<noteq> None then PO_COMB_REQ else PO_MATCH,
                          op1\<lparr>op_type := final_type (cpu (prg x)) required\<rparr>)))))
      (accepted c required)" for pfx p
  proof (rule yields_bind [OF v])
    fix y :: "operand \<times> string"
    assume "case y of (op, p) \<Rightarrow> (op_value op = None) = (required = ACCU)"
    then obtain op1 p1 where y: "y = (op1, p1)" "op_value op1 = None \<longleftrightarrow> required = ACCU" by (cases y) auto
    show "yields c (case y of (op1, p) \<Rightarrow> bind_st get (\<lambda>x.
              case operand_end required len p of
                None \<Rightarrow> return (PO_NOMATCH, op)
              | Some p \<Rightarrow>
                  bind_st (trailing o' start len p) (\<lambda>_.
                  return (if second_register required \<noteq> None then PO_COMB_REQ else PO_MATCH,
                          op1\<lparr>op_type := final_type (cpu (prg x)) required\<rparr>))))
        (accepted c required)"
      unfolding y(1) prod.case
      by (rule yields_get, cases "operand_end required len p1")
        (use y(2) in \<open>auto simp: accepted_def fits_def intro!: yields_return yields_bind [OF yields_trailing]\<close>)
  qed
  have n: "yields c (return (PO_NOMATCH, op)) (accepted c required)" by (rule yields_return) (simp add: accepted_def)
  have "yields c (case operand_start required indir q of
        None \<Rightarrow> return (PO_NOMATCH, op)
      | Some (pfx, p) \<Rightarrow> bind_st (?oper pfx p) (\<lambda>(op1, p). bind_st get (\<lambda>x.
              case operand_end required len p of
                None \<Rightarrow> return (PO_NOMATCH, op)
              | Some p \<Rightarrow>
                  bind_st (trailing o' start len p) (\<lambda>_.
                  return (if second_register required \<noteq> None then PO_COMB_REQ else PO_MATCH,
                          op1\<lparr>op_type := final_type (cpu (prg x)) required\<rparr>))))) (accepted c required)" for indir q
  proof (cases "operand_start required indir q")
    case None
    then show ?thesis using n by simp
  next
    case (Some r)
    show ?thesis unfolding Some option.case by (cases r) (simp only: prod.case b)
  qed
  then show ?thesis unfolding parse_operand_def Let_def if_P [OF True] .
qed

definition matched :: "cpuconf \<Rightarrow> optype list \<Rightarrow> nat \<Rightarrow> operand list \<Rightarrow> bool" where
  "matched conf types j ops \<longleftrightarrow> length ops = length types \<and> j \<le> length types \<and>
     (\<forall>i < j. fits conf (types ! i) (ops ! i)) \<and> (j < length types \<longrightarrow> op_type (ops ! j) = IMPLIED \<or> fits conf (types ! j) (ops ! j)) \<and>
     (\<forall>i. j < i \<and> i < length types \<longrightarrow> op_type (ops ! i) = IMPLIED)"

definition match_result :: "cpuconf \<Rightarrow> optype list \<Rightarrow> (nat \<times> nat \<times> nat \<times> operand list) option \<Rightarrow> bool" where
  "match_result conf types r \<longleftrightarrow>
     (case r of None \<Rightarrow> False | Some (j, k, skipped, ops) \<Rightarrow> skipped = 0 \<and> length ops = length types \<and>
        (length types \<le> j \<longrightarrow> list_all2 (fits conf) types ops))"

lemma matched_step:
  assumes "matched conf types j ops" and "j < length types" and "fits conf (types ! j) op"
  shows "matched conf types (j + 1) (ops[j := op])" and "matched conf types j (ops[j := op])"
  using assms unfolding matched_def by (auto simp: nth_list_update less_Suc_eq)

lemma matched_all: "matched conf types j ops \<Longrightarrow> length types \<le> j \<Longrightarrow> list_all2 (fits conf) types ops"
  by (simp add: matched_def list_all2_conv_all_nth)

lemma yields_match_operands:
  "matched c types j ops \<Longrightarrow> k \<le> length args \<Longrightarrow> length types + length args < n + j + k \<Longrightarrow>
   yields c (match_operands n o' types args j k None 0 ops) (match_result c types)"
proof (induction n arbitrary: j k ops)
  case 0
  then show ?case by (simp add: matched_def)
next
  case (Suc n)
  have len: "length ops = length types" "j \<le> length types" using Suc.prems(1) by (simp_all add: matched_def)
  consider "length types \<le> j" | "j < length types" "length args \<le> k" | "j < length types" "k < length args" by linarith
  then show ?case
  proof cases
    case 1
    then show ?thesis using matched_all [OF Suc.prems(1)] len by (auto simp: match_result_def intro!: yields_return)
  next
    case 2
    then show ?thesis using len by (auto simp: match_result_def intro!: yields_return)
  next
    case 3
    obtain s l where a: "args ! k = (s, l)" by (cases "args ! k")
    let ?rest = "\<lambda>(rc, op). let ops = ops[j := op] in
        case rc of
          PO_CORRUPT \<Rightarrow> return None
        | PO_NOMATCH \<Rightarrow> return (Some (j, k, 0, ops))
        | PO_NEXT \<Rightarrow> match_operands n o' types args (j + 1) k None 0 ops
        | PO_MATCH \<Rightarrow> match_operands n o' types args (j + 1) (k + 1) None 0 ops
        | PO_SKIP \<Rightarrow> match_operands n o' types args (j + 2) (k + 1) None (0 + 1) ops
        | PO_COMB_REQ \<Rightarrow> match_operands n o' types args j (k + 1) None 0 ops
        | PO_COMB_OPT \<Rightarrow> match_operands n o' types args j (k + 1) (Some j) 0 ops"
    have "yields c (bind_st (parse_operand o' s l (ops ! j) (types ! j)) ?rest) (match_result c types)"
    proof (rule yields_bind [OF yields_operand])
      show "fits c (types ! j) (ops ! j)" if "op_type (ops ! j) \<noteq> IMPLIED"
        using that Suc.prems(1) 3 by (simp add: matched_def)
      fix y
      assume acc: "accepted c (types ! j) y"
      obtain rc op where y: "y = (rc, op)" by (cases y)
      show "yields c (?rest y) (match_result c types)"
      proof (cases "rc = PO_NOMATCH")
        case True
        then show ?thesis using 3 len by (auto simp: y match_result_def intro!: yields_return)
      next
        case False
        then have rc: "rc = PO_MATCH \<or> rc = PO_COMB_REQ" and f: "fits c (types ! j) op" using acc by (auto simp: y accepted_def)
        have "yields c (match_operands n o' types args (j + 1) (k + 1) None 0 (ops[j := op])) (match_result c types)"
          "yields c (match_operands n o' types args j (k + 1) None 0 (ops[j := op])) (match_result c types)"
          using Suc.IH [OF matched_step(1) [OF Suc.prems(1) 3(1) f]] Suc.IH [OF matched_step(2) [OF Suc.prems(1) 3(1) f]] Suc.prems(3) 3 by simp_all
        then show ?thesis using rc by (auto simp: y Let_def)
      qed
    qed
    then show ?thesis using 3 a by (simp add: case_prod_beta)
  qed
qed

declare match_operands.simps [simp del]

section \<open>Trying the mnemonics\<close>

text \<open>
  What a search may change of the program. The symbols that were in the list before stay in it,
  and messages are not lost.
\<close>

definition tried :: "prog \<Rightarrow> prog \<Rightarrow> bool" where
  "tried p p' \<longleftrightarrow> sym_ok p' \<and> (\<exists>ys c ms new ht sv. p' = p\<lparr>core := (core p)\<lparr>syms := ys, cpc := c, msgs := msgs (core p) @ ms\<rparr>,
     symlist := new @ symlist p, symhash := ht, saved_symbol := sv\<rparr>)"

lemma triedI:
  "sym_ok p' \<Longrightarrow> p' = p\<lparr>core := (core p)\<lparr>syms := ys, cpc := c, msgs := msgs (core p) @ ms\<rparr>, symlist := new @ symlist p,
     symhash := ht, saved_symbol := sv\<rparr> \<Longrightarrow> tried p p'"
  unfolding tried_def by blast

lemma tried_refl: "sym_ok p \<Longrightarrow> tried p p"
  by (rule triedI [where ys = "syms (core p)" and c = "cpc (core p)" and ms = "[]" and new = "[]" and ht = "symhash p"
        and sv = "saved_symbol p"]) simp_all

lemma tried_trans:
  assumes "tried p q" and "tried q r"
  shows "tried p r"
proof -
  obtain ys c ms new ht sv where q: "q = p\<lparr>core := (core p)\<lparr>syms := ys, cpc := c, msgs := msgs (core p) @ ms\<rparr>, symlist := new @ symlist p,
      symhash := ht, saved_symbol := sv\<rparr>"
    using assms(1) unfolding tried_def by blast
  obtain ys' c' ms' new' ht' sv' where r: "r = q\<lparr>core := (core q)\<lparr>syms := ys', cpc := c', msgs := msgs (core q) @ ms'\<rparr>, symlist := new' @ symlist q,
      symhash := ht', saved_symbol := sv'\<rparr>"
    using assms(2) unfolding tried_def by blast
  have "sym_ok r" using assms(2) unfolding tried_def by blast
  then show ?thesis
    by (rule triedI [where ys = ys' and c = c' and ms = "ms @ ms'" and new = "new' @ new" and ht = ht' and sv = sv']) (simp add: q r)
qed

lemma parsed_tried:
  assumes "sym_ok p" and "parsed p p'"
  shows "tried p p'"
proof -
  obtain ys c ms new ht where "p' = p\<lparr>core := (core p)\<lparr>syms := ys, cpc := c, msgs := msgs (core p) @ ms\<rparr>, symlist := new @ symlist p, symhash := ht\<rparr>"
    using assms(2) unfolding parsed_def by blast
  moreover have "sym_ok p'" using assms unfolding parsed_def by blast
  ultimately show ?thesis
    by (intro triedI [where ys = ys and c = c and ms = ms and new = new and ht = ht and sv = "saved_symbol p"]) simp_all
qed

lemma tried_keeps: "tried p p' \<Longrightarrow> sym_ok p' \<and> cpu p' = cpu p \<and> (symlist p \<noteq> [] \<longrightarrow> symlist p' \<noteq> []) \<and> length (msgs (core p)) \<le> length (msgs (core p'))"
  unfolding tried_def by auto

lemma sym_ok_saved [simp]: "sym_ok (p\<lparr>saved_symbol := sv\<rparr>) \<longleftrightarrow> sym_ok p"
  by (simp add: sym_ok_def name_of_def)

text \<open>Restoring changes nothing but the list and the table.\<close>

lemma rem_symhash_frame: "rem_symhash name p = Inr (p', u) \<Longrightarrow> \<exists>ht. p' = p\<lparr>symhash := ht\<rparr>"
  by (auto simp: rem_symhash_def action_defs split: option.splits)

lemma restore_loop_frame:
  "restore_loop y zs prot p = Inr (p', u) \<Longrightarrow> \<exists>zs ht sv. p' = p\<lparr>symlist := zs, symhash := ht, saved_symbol := sv\<rparr>"
proof (induction y zs prot arbitrary: p rule: restore_loop.induct)
  case (2 saved y ys prot)
  show ?case
  proof (cases "y = saved")
    case True
    then have "p' = p\<lparr>symlist := prot @ y # ys, symhash := symhash p, saved_symbol := None\<rparr>" using 2(3) by (simp add: modify_def)
    then show ?thesis by blast
  next
    case False
    show ?thesis
    proof (cases "sym_has (sym (core p) y) PROTECTED")
      case True
      then show ?thesis using 2(1) [OF False True] 2(3) False by (simp add: bind_st_def get_def)
    next
      case P: False
      then obtain q v where q: "rem_symhash (sym_name (sym (core p) y)) p = Inr (q, v)" "restore_loop saved ys prot q = Inr (p', u)"
        using 2(3) False by (auto simp: bind_st_Inr get_Inr)
      obtain ht where "q = p\<lparr>symhash := ht\<rparr>" using rem_symhash_frame [OF q(1)] by blast
      moreover obtain zs ht' sv where "p' = q\<lparr>symlist := zs, symhash := ht', saved_symbol := sv\<rparr>" using 2(2) [OF False P q(2)] by blast
      ultimately have "p' = p\<lparr>symlist := zs, symhash := ht', saved_symbol := sv\<rparr>" by simp
      then show ?thesis by blast
    qed
  qed
qed simp

text \<open>An attempt that is undone: the symbols of the attempt are gone, apart from protected ones.\<close>

lemma restore_tried:
  assumes "sym_ok p" and "symlist p \<noteq> []" and "parsed (p\<lparr>saved_symbol := Some (hd (symlist p))\<rparr>) q"
  shows "\<exists>p'. restore_symbols q = Inr (p', ()) \<and> tried p p'"
proof -
  let ?p = "p\<lparr>saved_symbol := Some (hd (symlist p))\<rparr>"
  obtain ys c ms new ht where q: "q = ?p\<lparr>core := (core p)\<lparr>syms := ys, cpc := c, msgs := msgs (core p) @ ms\<rparr>, symlist := new @ symlist p, symhash := ht\<rparr>"
    using assms(3) unfolding parsed_def by auto
  have ok: "sym_ok q" using assms(1,3) unfolding parsed_def by simp
  have l: "symlist q = new @ hd (symlist p) # tl (symlist p)" "saved_symbol q = Some (hd (symlist p))" using assms(2) by (simp_all add: q)
  from restore_exact [OF ok l] obtain p' where p': "restore_symbols q = Inr (p', ())" "sym_ok p'" "core p' = core q"
    "symlist p' = rev (filter (protected q) new) @ symlist p" using assms(2) by auto
  then have "restore_loop (hd (symlist p)) (symlist q) [] q = Inr (p', ())" by (simp add: restore_symbols_def bind_st_def get_def l(2))
  from restore_loop_frame [OF this] obtain zs ht' sv where f: "p' = q\<lparr>symlist := zs, symhash := ht', saved_symbol := sv\<rparr>" by blast
  have "tried p p'"
    by (rule triedI [where ys = ys and c = c and ms = ms and new = "rev (filter (protected q) new)" and ht = ht' and sv = sv, OF p'(2)])
      (use f p'(4) in \<open>simp add: q\<close>)
  then show ?thesis using p'(1) by blast
qed

text \<open>An instruction with the operands that its mnemonic asks for.\<close>

definition typed_instr :: "cpuconf \<Rightarrow> instr \<Rightarrow> bool" where
  "typed_instr conf ip \<longleftrightarrow> cpu_available conf (inst_code ip) \<and> list_all2 (fits conf) (operand_type (mnemonics ! inst_code ip)) (inst_ops ip)"

lemma typed_wf: "typed_instr conf ip \<Longrightarrow> wf_instr ip"
  unfolding typed_instr_def wf_instr_def
  by (auto simp: list_all_length list_all2_conv_all_nth fits_def wf_operand_def final_type_def opsize_def split: if_splits)

lemma match_mnemonic_result:
  assumes "sym_ok (prg x)" and "symlist (prg x) \<noteq> []" and "cpu_available (cpu (prg x)) i"
  shows "case match_mnemonic o' i args x of
      Inl e \<Rightarrow> e \<noteq> Runaway
    | Inr (x', r) \<Rightarrow> tried (prg x) (prg x') \<and>
        (case r of None \<Rightarrow> False | Some None \<Rightarrow> True | Some (Some ip) \<Rightarrow> inst_code ip = i \<and> typed_instr (cpu (prg x)) ip)"
proof -
  let ?types = "operand_type (mnemonics ! i)" and ?c = "cpu (prg x)"
  let ?p = "(prg x)\<lparr>saved_symbol := Some (hd (symlist (prg x)))\<rparr>"
  let ?m = "match_operands (length ?types + length args + 2) o' ?types args 0 0 None 0 (replicate (length ?types) empty_operand)"
  have s: "on_prog save_symbols x = Inr (x\<lparr>prg := ?p\<rparr>, ())"
    using assms(2) by (cases "symlist (prg x)") (simp_all add: on_prog_def save_symbols_def modify_def)
  have "matched ?c ?types 0 (replicate (length ?types) empty_operand)" by (simp add: matched_def empty_operand_def)
  then have y: "yields ?c ?m (match_result ?c ?types)" by (rule yields_match_operands) simp_all
  show ?thesis
  proof (cases "?m (x\<lparr>prg := ?p\<rparr>)")
    case (Inl e)
    then show ?thesis using yields_stop [OF y _ Inl] s by (simp add: match_mnemonic_def Let_def bind_st_def)
  next
    case (Inr b)
    obtain x1 r where "b = (x1, r)" by (cases b)
    then have m: "?m (x\<lparr>prg := ?p\<rparr>) = Inr (x1, r)" using Inr by simp
    have p: "parsed ?p (prg x1)" and r: "match_result ?c ?types r" using yieldsD [OF y _ m] by simp_all
    obtain j k ops where r': "r = Some (j, k, 0, ops)" "length ops = length ?types" "length ?types \<le> j \<longrightarrow> list_all2 (fits ?c) ?types ops"
      using r by (auto simp: match_result_def split: option.splits)
    show ?thesis
    proof (cases "(\<not> igntrail (exprs o') \<or> 0 < length ?types) \<and> (j < length ?types \<or> k < length args)")
      case True
      obtain p' where p': "restore_symbols (prg x1) = Inr (p', ())" "tried (prg x) p'" using restore_tried [OF assms(1,2) p] by blast
      have "on_prog restore_symbols x1 = Inr (x1\<lparr>prg := p'\<rparr>, ())" by (simp add: on_prog_def p'(1))
      then have "match_mnemonic o' i args x = Inr (x1\<lparr>prg := p'\<rparr>, Some None)"
        using True m by (simp add: match_mnemonic_def Let_def bind_st_def s r'(1) return_def)
      then show ?thesis using p'(2) by simp
    next
      case False
      have "match_mnemonic o' i args x = Inr (x1, Some (Some \<lparr>inst_code = i, inst_ops = ops\<rparr>))"
        using False m by (auto simp: match_mnemonic_def Let_def bind_st_def s r' return_def)
      moreover have "length ?types \<le> j" using False r'(2) by auto
      moreover have "tried (prg x) ?p" by (rule triedI [where ys = "syms (core (prg x))" and c = "cpc (core (prg x))" and ms = "[]" and new = "[]"
            and ht = "symhash (prg x)" and sv = "Some (hd (symlist (prg x)))"]) (use assms(1) in simp_all)
      then have "tried (prg x) (prg x1)" using parsed_tried [OF _ p] assms(1) tried_trans by simp
      ultimately show ?thesis using r' assms(3) by (simp add: typed_instr_def)
    qed
  qed
qed

lemma try_mnemonics_result:
  "sym_ok (prg x) \<Longrightarrow> symlist (prg x) \<noteq> [] \<Longrightarrow>
   (case try_mnemonics o' args found js x of
      Inl e \<Rightarrow> e \<noteq> Runaway
    | Inr (x', r) \<Rightarrow> tried (prg x) (prg x') \<and>
        (case r of None \<Rightarrow> length (msgs (core (prg x))) < length (msgs (core (prg x')))
         | Some ip \<Rightarrow> inst_code ip \<in> set js \<and> typed_instr (cpu (prg x)) ip))"
proof (induction js arbitrary: x found)
  case Nil
  have "tried (prg x) ((prg x)\<lparr>core := general_error n (core (prg x))\<rparr>)" for n
    using harmless_error [of n] Nil(1) by (intro parsed_tried) (simp_all add: harmless_def error_def modify_def)
  then show ?case by (simp add: on_prog_def error_def action_defs general_error_def)
next
  case (Cons i js)
  show ?case
  proof (cases "cpu_available (cpu (prg x)) i")
    case False
    then show ?thesis using Cons.IH [OF Cons.prems, of False] by (auto simp: bind_st_def get_def split: sum.splits option.splits)
  next
    case True
    note m = match_mnemonic_result [OF Cons.prems True, of o' args]
    show ?thesis
    proof (cases "match_mnemonic o' i args x")
      case (Inl e)
      then show ?thesis using True m by (simp add: bind_st_def get_def)
    next
      case (Inr b)
      obtain x1 r where "b = (x1, r)" by (cases b)
      then have b: "match_mnemonic o' i args x = Inr (x1, r)" using Inr by simp
      then have t: "tried (prg x) (prg x1)" using m by simp
      consider "r = Some None" | ip where "r = Some (Some ip)" "inst_code ip = i" "typed_instr (cpu (prg x)) ip"
        using m b by (auto split: option.splits)
      then show ?thesis
      proof cases
        case 1
        have "sym_ok (prg x1)" "symlist (prg x1) \<noteq> []" "cpu (prg x1) = cpu (prg x)" "length (msgs (core (prg x))) \<le> length (msgs (core (prg x1)))"
          using tried_keeps [OF t] Cons.prems(2) by simp_all
        then show ?thesis using Cons.IH [of x1 True] True b 1 tried_trans [OF t]
          by (auto simp: bind_st_def get_def split: sum.splits option.splits)
      next
        case (2 ip)
        then show ?thesis using True b t by (simp add: bind_st_def get_def return_def)
      qed
    qed
  qed
qed

text \<open>The table of mnemonics has every name in one place.\<close>

lemma same_name_names: "j \<in> set (same_name i) \<Longrightarrow> j < length mnemonics \<and> mn_name (mnemonics ! j) = mn_name (mnemonics ! i)"
  by (auto simp: same_name_def dest: set_takeWhileD)

lemma new_inst_result:
  assumes "sym_ok (prg x)" and "symlist (prg x) \<noteq> []"
  shows "case new_inst o' inst args x of
      Inl e \<Rightarrow> e \<noteq> Runaway
    | Inr (x', None) \<Rightarrow> tried (prg x) (prg x') \<and> length (msgs (core (prg x))) < length (msgs (core (prg x')))
    | Inr (x', Some ip) \<Rightarrow> tried (prg x) (prg x') \<and> typed_instr (cpu (prg x)) ip \<and>
        (\<exists>i. snd (find_namelen_nc mnemohash inst (length inst)) = Some i \<and> inst_code ip \<in> set (same_name i))"
proof (cases "snd (find_namelen_nc mnemohash inst (length inst))")
  case None
  have "tried (prg x) ((prg x)\<lparr>core := general_error 1 (core (prg x))\<rparr>)"
    using harmless_error [of 1] assms(1) by (intro parsed_tried) (simp_all add: harmless_def error_def modify_def)
  then show ?thesis by (simp add: new_inst_def None on_prog_def error_def action_defs general_error_def)
next
  case (Some i)
  then show ?thesis using try_mnemonics_result [OF assms, where o' = o' and args = args and found = False and js = "same_name i"]
    by (auto simp: new_inst_def split: sum.splits option.splits)
qed

text \<open>
  C13. An instruction that is read from the text is one the rest of the assembler can work with: it
  is available for the selected cpu, it has the name that was looked up, its operands have the
  types of its entry in the table, with a value for each that needs one, so that it is well-formed
  for the encoder. If there is none, an error has been reported. Symbols that were known before are
  still in the list, the table of symbols is well-formed, and the search always ends.
\<close>

theorem instruction_read_is_typed:
  assumes "sym_ok (prg x)" and "symlist (prg x) \<noteq> []"
  shows "case new_inst o' inst args x of
      Inl e \<Rightarrow> e \<noteq> Runaway
    | Inr (x', None) \<Rightarrow> tried (prg x) (prg x') \<and> length (msgs (core (prg x))) < length (msgs (core (prg x')))
    | Inr (x', Some ip) \<Rightarrow> tried (prg x) (prg x') \<and> typed_instr (cpu (prg x)) ip \<and> wf_instr ip \<and>
        (\<exists>i. snd (find_namelen_nc mnemohash inst (length inst)) = Some i
           \<and> mn_name (mnemonics ! inst_code ip) = mn_name (mnemonics ! i))"
  using new_inst_result [OF assms, where o' = o' and inst = inst and args = args] typed_wf same_name_names by (auto split: sum.splits option.splits)

definition oldstyle :: synconf where
  "oldstyle = \<lparr>exprs = plain, lo_c = CHR ''<'', hi_c = CHR ''>'', allow_trailing_comments = False, dotdirs = False\<rparr>"

lemma instruction_read_is_typed_witness:
  "case new_inst oldstyle ''lda'' [(''(5),y'', 3), (''y'', 1)] (parser_start (names_prog [''a''])) of
      Inl e \<Rightarrow> e \<noteq> Runaway
    | Inr (x', None) \<Rightarrow> msgs (core (prg x')) \<noteq> []
    | Inr (x', Some ip) \<Rightarrow> typed_instr cpu_start ip \<and> wf_instr ip"
proof -
  have "sym_ok (prg (parser_start (names_prog [''a''])))" using one_name_ok by (simp add: parser_start_def)
  moreover have "symlist (prg (parser_start (names_prog [''a'']))) \<noteq> []" "cpu (prg (parser_start (names_prog [''a'']))) = cpu_start"
    "msgs (core (prg (parser_start (names_prog [''a''])))) = []"
    by (simp_all add: parser_start_def names_prog_def)
  ultimately show ?thesis
    using instruction_read_is_typed [of "parser_start (names_prog [''a''])" "''lda''" oldstyle "[(''(5),y'', 3), (''y'', 1)]"]
    by (auto split: sum.splits option.splits)
qed

end
