(* ===== verification/Texts.thy ===== *)
theory Texts
  imports Operands
begin

text \<open>
  What the statements of a source are cut into: names, strings, operands and the label field
  (\<open>src/parse.c\<close>, \<open>src/syntax/oldstyle/syntax.c\<close>). The functions are pure: they give the numbers of
  the messages they report, those of the syntax module counted from 1000, with their results.
\<close>

section \<open>Names\<close>

definition eol :: "synconf \<Rightarrow> string \<Rightarrow> nat list" where
  "eol o' s =
     (if igntrail (exprs o') then (if \<not> ISEOL o' s \<and> \<not> isspace (ch s 0) then [1006] else [])
      else if ISEOL o' (skip s) then [] else [1006])"

definition is_quote :: "char \<Rightarrow> bool" where
  "is_quote c \<longleftrightarrow> code c = 34 \<or> code c = 39"

definition parse_name :: "synconf \<Rightarrow> string \<Rightarrow> (string \<times> string) option" where
  "parse_name o' s =
     (if is_quote (ch s 0) then
        (let r = dropWhile (\<lambda>c. c \<noteq> hd s) (tl s)
         in Some (takeWhile (\<lambda>c. c \<noteq> hd s) (tl s), if r = [] then [] else skip (tl r)))
      else
        (let in_name = (\<lambda>c. c \<noteq> commentchar (exprs o') \<and> \<not> isspace c \<and> c \<noteq> CHR '','')
         in if takeWhile in_name s = [] then None else Some (takeWhile in_name s, skip (dropWhile in_name s))))"

definition get_raw_string :: "string \<Rightarrow> char \<Rightarrow> nat list \<times> (string \<times> string) option" where
  "get_raw_string s delim =
     (if ch s 0 \<noteq> delim \<or> delim \<notin> set (drop 1 s) then ([6], None)
      else ([], Some (takeWhile (\<lambda>c. c \<noteq> delim) (drop 1 s), drop 1 (dropWhile (\<lambda>c. c \<noteq> delim) (drop 1 s)))))"

definition parse_symbol :: "expconf \<Rightarrow> prog \<Rightarrow> string \<Rightarrow> (string \<times> string) option" where
  "parse_symbol o' q s = (case get_local_label o' q s of Some r \<Rightarrow> Some r | None \<Rightarrow> parse_identifier o' s)"

section \<open>Strings\<close>

text \<open>
  The character behind a backslash, and the text behind it. An unknown sequence is reported, does
  not set the character (\<open>None\<close>), and goes on with the character after the backslash.
\<close>

definition escaped :: "expconf \<Rightarrow> string \<Rightarrow> nat list \<times> u8 option \<times> string" where
  "escaped o' s = (case escape o' s of Some (v, r) \<Rightarrow> ([], Some v, r) | None \<Rightarrow> ([35], None, s))"

lemma dropWhile_length [simp]: "length (dropWhile P xs) \<le> length xs"
  by (induction xs) auto

lemma octal_code_length: "length (snd (octal_code n s v)) \<le> length s"
  by (induction n s v rule: octal_code.induct) auto

lemma hex_code_length: "length (snd (hex_code n s v)) \<le> length s"
  by (induction n s v rule: hex_code.induct) auto

lemma escape_length: "escape o' s = Some (v, r) \<Longrightarrow> length r \<le> length s"
  using octal_code_length [of 3 s 0] hex_code_length [of 2 "drop 1 s" 0]
  by (auto simp: escape_def Let_def split: if_splits)

lemma escaped_length: "escaped o' s = (es, v, r) \<Longrightarrow> length r \<le> length s"
  by (auto simp: escaped_def escape_length split: option.splits)

text \<open>
  The characters of a string up to its closing delimiter, which is doubled inside, and whether
  the last character that was read is a delimiter.
\<close>

function string_loop :: "expconf \<Rightarrow> char \<Rightarrow> char \<Rightarrow> string \<Rightarrow> nat list \<times> u8 option list \<times> bool \<times> string" where
  "string_loop o' delim prev [] = ([], [], prev = delim, [])"
| "string_loop o' delim prev (c # cs) =
     (if code c = 92 then
        (case escaped o' cs of (es, v, r) \<Rightarrow>
         case string_loop o' delim (last (c # take (length cs - length r) cs)) r of (es', vs, closed, r) \<Rightarrow> (es @ es', v # vs, closed, r))
      else if c \<noteq> delim then
        (case string_loop o' delim c cs of (es, vs, closed, r) \<Rightarrow> (es, Some (of_char c) # vs, closed, r))
      else if ch cs 0 = delim \<and> cs \<noteq> [] then
        (case string_loop o' delim c (tl cs) of (es, vs, closed, r) \<Rightarrow> (es, Some (of_char c) # vs, closed, r))
      else ([], [], True, cs))"
  by pat_completeness auto
termination
  by (relation "measure (\<lambda>(o', delim, prev, s). length s)") (auto dest!: escaped_length [OF sym] simp: le_imp_less_Suc)

declare string_loop.simps(2) [simp del]

text \<open>The number of characters; a string without an end counts as one character.\<close>

definition skip_string :: "expconf \<Rightarrow> string \<Rightarrow> char \<Rightarrow> nat list \<times> nat \<times> string" where
  "skip_string o' s delim =
     (case (if ch s 0 \<noteq> delim then string_loop o' delim (CHR 0x00) s else string_loop o' delim delim (drop 1 s)) of
        (es, vs, closed, r) \<Rightarrow> ((if ch s 0 \<noteq> delim then [6] else []) @ es, if closed then length vs else 1, r))"

definition read_string :: "expconf \<Rightarrow> string \<Rightarrow> char \<Rightarrow> nat list \<times> u8 option list \<times> string" where
  "read_string o' s delim =
     (case string_loop o' delim delim (if ch s 0 = delim then drop 1 s else s) of (es, vs, closed, r) \<Rightarrow> (es, vs, r))"

text \<open>
  A string of \<open>width\<close> bits for a character; one character is not a string. For a wider character
  than a byte the size of the block is divided by zero. An unknown escape sequence leaves the
  variable for the character as it is, which is undefined at the beginning of a string.
\<close>

fun keep_last :: "u8 option \<Rightarrow> u8 option list \<Rightarrow> u8 option list" where
  "keep_last c [] = []"
| "keep_last c (v # vs) = (case v of None \<Rightarrow> c # keep_last c vs | Some x \<Rightarrow> Some x # keep_last (Some x) vs)"

definition parse_string :: "synconf \<Rightarrow> string \<Rightarrow> char \<Rightarrow> nat \<Rightarrow> stop + nat list \<times> (u8 list \<times> string) option" where
  "parse_string o' s delim width =
     (if width mod 8 \<noteq> 0 then Inl Ierror
      else if ISEOL o' s then Inr ([], None)
      else case skip_string (exprs o') s delim of (es, n, r) \<Rightarrow>
        if n = 1 then Inr (es, None)
        else if 8 div width = 0 then Inl Undefined
        else case read_string (exprs o') s delim of (es', vs, r) \<Rightarrow>
          let vs = keep_last None vs
          in if None \<in> set vs then Inl Undefined else Inr (es @ es', Some (map the vs, r)))"

section \<open>Operands\<close>

text \<open>Behind a quote: one character, and a closing quote, if there is one.\<close>

definition quote_end :: "expconf \<Rightarrow> char \<Rightarrow> string \<Rightarrow> nat list \<times> string" where
  "quote_end o' c s =
     (case (if s = [] then ([], s)
            else if code (hd s) = 92 then (case escaped o' (tl s) of (es, v, r) \<Rightarrow> (es, r))
            else if hd s = c \<and> ch s 1 = c then ([], drop 2 s)
            else ([], tl s)) of
        (es, r) \<Rightarrow> (es, if r \<noteq> [] \<and> hd r = c then tl r else r))"

lemma quote_end_length: "quote_end o' c s = (es, r) \<Longrightarrow> length r \<le> length s"
  by (auto simp: quote_end_def split: if_splits prod.splits dest: escaped_length)

function skip_operand_loop :: "synconf \<Rightarrow> nat \<Rightarrow> string \<Rightarrow> nat list \<times> string" where
  "skip_operand_loop o' par_cnt [] = (if par_cnt \<noteq> 0 then [1004] else [], [])"
| "skip_operand_loop o' par_cnt (c # cs) =
     (if c = CHR ''('' then skip_operand_loop o' (par_cnt + 1) cs
      else if c = CHR '')'' then
        (if 0 < par_cnt then skip_operand_loop o' (par_cnt - 1) cs
         else (case skip_operand_loop o' 0 cs of (es, r) \<Rightarrow> (1003 # es, r)))
      else if is_quote c then
        (case quote_end (exprs o') c cs of (es, r) \<Rightarrow> case skip_operand_loop o' par_cnt r of (es', r) \<Rightarrow> (es @ es', r))
      else if c = CHR '','' \<and> par_cnt = 0 \<or> igntrail (exprs o') \<and> isspace c \<and> par_cnt = 0 \<or> c = commentchar (exprs o') then
        (if par_cnt \<noteq> 0 then [1004] else [], c # cs)
      else skip_operand_loop o' par_cnt cs)"
  by pat_completeness auto
termination
  by (relation "measure (\<lambda>(o', par_cnt, s). length s)") (auto dest!: quote_end_length [OF sym] simp: le_imp_less_Suc)

declare skip_operand_loop.simps(2) [simp del]

definition skip_operand :: "synconf \<Rightarrow> string \<Rightarrow> nat list \<times> string" where
  "skip_operand o' s = skip_operand_loop o' 0 s"

text \<open>The length of the text from \<open>s\<close> to \<open>e\<close>, without the blanks at its end.\<close>

definition oplen :: "string \<Rightarrow> string \<Rightarrow> nat" where
  "oplen e s = length (dropWhile isspace (rev (up_to e s)))"

section \<open>The label field\<close>

datatype asn = ASN_NONE | ASN_EQ1 | ASN_EQ2 | ASN_EQ3 | ASN_SET

definition asn_len :: "asn \<Rightarrow> nat" where
  "asn_len a = (case a of ASN_NONE \<Rightarrow> 0 | ASN_EQ1 \<Rightarrow> 1 | ASN_EQ2 \<Rightarrow> 3 | ASN_EQ3 \<Rightarrow> 2 | ASN_SET \<Rightarrow> 3)"

definition symassigns :: "(asn \<times> string) list" where
  "symassigns = [(ASN_EQ2, ''equ''), (ASN_EQ3, ''eq''), (ASN_SET, ''set'')]"

definition find_assign :: "synconf \<Rightarrow> string \<Rightarrow> asn" where
  "find_assign o' p =
     (case filter (\<lambda>(a, n). strnicmp_eq p n (length n) \<and> isspace (ch p (length n)) \<and> \<not> ISEOL o' (skip (drop (length n) p)))
             symassigns of
        [] \<Rightarrow> ASN_NONE | (a, n) # _ \<Rightarrow> a)"

text \<open>
  The name in the label field, if there is one, what is assigned to it, and the text behind it.
  \<open>define\<close> says that an anonymous label is to be given its number.
\<close>

definition label_field :: "synconf \<Rightarrow> u32 \<Rightarrow> prog \<Rightarrow> bool \<Rightarrow> string \<Rightarrow> string option \<times> asn \<times> string \<times> u32" where
  "label_field o' anon q define line =
     (let spaced = isspace (ch line 0); s = skip line; ex = (exprs o')\<lparr>anon_labno := anon\<rparr>
      in if ch s 0 = CHR '':'' then
           (if define then (Some (make_local_label '':'' (digits_of 10 (unat (anon + 1))) q), ASN_NONE, skip (drop 1 s), anon + 1)
            else (Some s, ASN_NONE, skip (drop 1 s), anon))
         else
           (case (case parse_symbol ex q s of
                    Some r \<Rightarrow> Some r
                  | None \<Rightarrow>
                      if s \<noteq> [] \<and> ch s 0 = current_pc_char ex \<and> \<not> isidchar ex (ch s 1) then Some ([current_pc_char ex], drop 1 s) else None) of
              None \<Rightarrow> (None, ASN_NONE, s, anon)
            | Some (name, r) \<Rightarrow>
                (let r = skip r; colon = ch r 0 = CHR '':'' \<and> ch r 1 \<noteq> CHR ''+'' \<and> ch r 1 \<noteq> CHR ''-'';
                     spaced = spaced \<and> \<not> colon; r = (if colon then skip (drop 1 r) else r);
                     assign = (if ch r 0 = CHR ''='' then ASN_EQ1
                               else if \<not> dotdirs o' then find_assign o' r
                               else if ch r 0 = CHR ''.'' then find_assign o' (drop 1 r)
                               else ASN_NONE);
                     spaced = (if assign = ASN_NONE then spaced else spaced \<and> assign \<noteq> ASN_EQ1 \<and> igntrail ex)
                 in (if spaced then None else Some name, assign, if spaced then s else r, anon))))"

end
