(* ===== verification/Frontend.thy ===== *)
theory Frontend
  imports Texts Cond
begin

text \<open>
  Where the statements come from: the stack of source texts, include files, macros and
  repetitions (\<open>src/source.c\<close>, \<open>src/parse.c\<close>), for the oldstyle syntax. Files are reached through
  the functions of the host. A text is a string, and a position in it is what is left of it, so
  that two positions of one text bound the text between them. Lines are of any length. A source
  knows the name of the source it was defined in. Left out are default values and qualifiers of
  macro arguments, and repetitions over values, which this syntax does not have, and the listing.
\<close>

section \<open>State\<close>

record host =
  host_open :: "string \<Rightarrow> string option"
  convert_path :: "string \<Rightarrow> string"
  abs_path :: "string \<Rightarrow> bool"
  append_path_delimiter :: "string \<Rightarrow> string"
  filenamecmp :: "string \<Rightarrow> string \<Rightarrow> bool"

record frontconf =
  syn :: synconf
  files :: host
  relpath :: bool
  nocompdir :: bool
  compile_dir :: "string option"
  ignore_multinc :: bool
  nocase_macros :: bool
  maxmacparams :: nat
  maxmacrecurs :: nat
  autoexport :: bool
  astcomment :: bool
  sect_directives :: bool

record macro =
  mac_name :: string
  mac_text :: string
  mac_from :: string
  mac_defline :: int
  argnames :: "string list option"
  recursions :: nat

record src =
  src_name :: string
  src_text :: string
  srcptr :: string
  src_line :: int
  src_defsrc :: "string option"
  src_defline :: int
  src_macro :: "nat option"
  src_repeat :: nat
  src_reptn :: taddr
  reptcntname :: "string option"
  src_cond_level :: nat
  src_argnames :: "string list"
  num_params :: int
  param :: "string list"
  src_id :: nat

text \<open>
  A definition that is being read: a macro, or a repetition with its count and the name of its
  counter, from a position in the source with that number.
\<close>

datatype definition_kind = Macro_def macro bool | Repeat_def nat "string option" "string \<times> int"

record pending =
  pend_kind :: definition_kind
  pend_start :: string
  pend_src :: nat
  pend_ends :: "string list"
  pend_repts :: "string list"

record front =
  par :: parser
  conds :: cond_state_rec
  sources :: "src list"
  next_id :: nat
  macros :: "macro list"
  macrohash :: "nat hashtable"
  structhash :: "secid hashtable"
  pending_def :: "pending option"
  cur_struct :: "secid option"
  struct_prevsect :: "secid option"
  source_files :: "(string \<times> string) list"
  incpaths :: "string list"
  anon_no :: u32
  parse_end :: bool
  last_alloc_sect :: "secid option"
  dsect_offs :: taddr
  dsect_active :: bool
  inline_stack :: "nat list"
  inline_id :: nat
  saved_last_global :: string

type_synonym 'a fstep = "(front, 'a) step"

definition on_par :: "'a parse \<Rightarrow> 'a fstep" where
  "on_par m f = (case m (par f) of Inl e \<Rightarrow> Inl e | Inr (x, y) \<Rightarrow> Inr (f\<lparr>par := x\<rparr>, y))"

definition on_core :: "(prog, 'a) step \<Rightarrow> 'a fstep" where
  "on_core m = on_par (on_prog m)"

definition message :: "nat \<Rightarrow> unit fstep" where
  "message n = on_core (error n)"

fun each :: "('a \<Rightarrow> ('s, unit) step) \<Rightarrow> 'a list \<Rightarrow> ('s, unit) step" where
  "each f [] = return ()"
| "each f (x # xs) = bind_st (f x) (\<lambda>_. each f xs)"

definition report :: "nat list \<Rightarrow> unit fstep" where
  "report es = each message es"

definition front_prog :: "front \<Rightarrow> prog" where
  "front_prog f = prg (par f)"

text \<open>The conditions keep the numbers of their messages; they are reported at once here.\<close>

definition on_cond :: "(cond_state_rec \<Rightarrow> stop + cond_state_rec) \<Rightarrow> unit fstep" where
  "on_cond m = bind_st get (\<lambda>f.
     case m ((conds f)\<lparr>cerrors := []\<rparr>) of
       Inl e \<Rightarrow> fail e
     | Inr c \<Rightarrow> bind_st (modify (\<lambda>f. f\<lparr>conds := c\<rparr>)) (\<lambda>_. report (cerrors c)))"

text \<open>The current source and its line are what atoms and messages refer to.\<close>

definition set_sources :: "src list \<Rightarrow> unit fstep" where
  "set_sources ss =
     bind_st (modify (\<lambda>f. f\<lparr>sources := ss\<rparr>)) (\<lambda>_.
     on_core (modify (\<lambda>p. p\<lparr>source := (case ss of [] \<Rightarrow> None | s # _ \<Rightarrow> Some (src_id s, src_line s))\<rparr>)))"

section \<open>Sources\<close>

definition cut_eof :: "string \<Rightarrow> string" where
  "cut_eof t = (if CHR 0x1A \<in> set t then takeWhile (\<lambda>c. c \<noteq> CHR 0x1A) t @ [CHR 0x0A] else t)"

definition new_source :: "string \<Rightarrow> string \<Rightarrow> src fstep" where
  "new_source name txt = bind_st get (\<lambda>f.
     bind_st (modify (\<lambda>f. f\<lparr>next_id := next_id f + 1\<rparr>)) (\<lambda>_.
     return \<lparr>src_name = name, src_text = cut_eof txt, srcptr = cut_eof txt, src_line = 0, src_defsrc = None, src_defline = 0,
             src_macro = None, src_repeat = 1, src_reptn = (case sources f of [] \<Rightarrow> - 1 | s # _ \<Rightarrow> src_reptn s), reptcntname = None,
             src_cond_level = clev (conds f), src_argnames = [], num_params = - 1, param = [], src_id = next_id f\<rparr>))"

definition end_source :: "unit fstep" where
  "end_source = bind_st get (\<lambda>f.
     case sources f of
       [] \<Rightarrow> return ()
     | s # ss \<Rightarrow>
         bind_st (set_sources (s\<lparr>srcptr := [], src_repeat := 1\<rparr> # ss)) (\<lambda>_.
         modify (\<lambda>f. f\<lparr>conds := end_source_level (src_cond_level s) (conds f)\<rparr>)))"

definition leave_macro :: "unit fstep" where
  "leave_macro = bind_st get (\<lambda>f.
     case sources f of
       [] \<Rightarrow> fail Undefined
     | s # ss \<Rightarrow> if src_macro s \<noteq> None then end_source else message 36)"

definition MAXPATHLEN :: nat where "MAXPATHLEN = 1024"

definition open_path :: "frontconf \<Rightarrow> string \<Rightarrow> string \<Rightarrow> string \<Rightarrow> string option" where
  "open_path o' compdir path name =
     (if length compdir + length path + length name + 1 \<le> MAXPATHLEN then host_open (files o') (compdir @ path @ name) else None)"

fun search_paths :: "frontconf \<Rightarrow> string \<Rightarrow> string list \<Rightarrow> string option" where
  "search_paths o' name [] = None"
| "search_paths o' name (p # ps) =
     (case open_path o' [] p name of
        Some t \<Rightarrow> Some t
      | None \<Rightarrow>
          (case (if \<not> nocompdir o' \<and> \<not> abs_path (files o') p then compile_dir o' else None) of
             None \<Rightarrow> search_paths o' name ps
           | Some d \<Rightarrow> (case open_path o' d p name of Some t \<Rightarrow> Some t | None \<Rightarrow> search_paths o' name ps)))"

text \<open>A file that is not found ends the program.\<close>

definition locate_file :: "frontconf \<Rightarrow> string \<Rightarrow> string fstep" where
  "locate_file o' name = bind_st get (\<lambda>f.
     case (if \<not> relpath o' \<and> abs_path (files o') name then host_open (files o') name else search_paths o' name (incpaths f)) of
       Some t \<Rightarrow> return t
     | None \<Rightarrow> fail (Fatal_error 12))"

definition read_source_file :: "string \<Rightarrow> string" where
  "read_source_file t = (if t = [] then [CHR 0x0A] else t @ [CHR 0x0A])"

definition include_source :: "frontconf \<Rightarrow> string \<Rightarrow> unit fstep" where
  "include_source o' inc_name = bind_st get (\<lambda>f.
     let filename = convert_path (files o') inc_name
     in case find (\<lambda>(n, t). filenamecmp (files o') n filename) (source_files f) of
          Some (n, t) \<Rightarrow>
            if ignore_multinc o' then return ()
            else bind_st (new_source n t) (\<lambda>s. set_sources (s # sources f))
        | None \<Rightarrow>
            bind_st (locate_file o' filename) (\<lambda>t.
            let t = read_source_file t
            in bind_st (modify (\<lambda>f. f\<lparr>source_files := source_files f @ [(filename, t)]\<rparr>)) (\<lambda>_.
               bind_st (new_source filename t) (\<lambda>s. set_sources (s # sources f)))))"

text \<open>The part of a file behind \<open>nbskip\<close> bytes, with at most \<open>nbkeep\<close> bytes, if that is not zero.\<close>

definition include_binary_file :: "frontconf \<Rightarrow> string \<Rightarrow> nat \<Rightarrow> nat \<Rightarrow> unit fstep" where
  "include_binary_file o' inname nbskip nbkeep =
     bind_st (locate_file o' (convert_path (files o') inname)) (\<lambda>t.
     if t = [] then return ()
     else if nbskip \<le> length t then
       (let n = (if length t - nbskip < nbkeep \<or> nbkeep = 0 then length t - nbskip else nbkeep)
        in on_core (add_atom None (new_data_atom (new_dblock\<lparr>db_size := n, db_data := map of_char (take n (drop nbskip t))\<rparr>) 1)))
     else message 46)"

definition new_include_path :: "frontconf \<Rightarrow> string \<Rightarrow> unit fstep" where
  "new_include_path o' pathname =
     (let path = append_path_delimiter (files o') (convert_path (files o') pathname)
      in modify (\<lambda>f. if list_ex (filenamecmp (files o') path) (incpaths f) then f else f\<lparr>incpaths := incpaths f @ [path]\<rparr>))"

section \<open>Definitions of macros and repetitions\<close>

definition find_macro :: "frontconf \<Rightarrow> string \<Rightarrow> nat \<Rightarrow> front \<Rightarrow> nat option" where
  "find_macro o' name len f =
     snd (if nocase_macros o' then find_namelen_nc (macrohash f) name len else find_namelen (macrohash f) name len)"

definition upd_macro :: "nat \<Rightarrow> (macro \<Rightarrow> macro) \<Rightarrow> unit fstep" where
  "upd_macro m g = modify (\<lambda>f. f\<lparr>macros := (macros f)[m := g (macros f ! m)]\<rparr>)"

text \<open>A backslash in front of the name of an argument becomes a part of the name.\<close>

definition my_skip_macro_arg :: "expconf \<Rightarrow> string \<Rightarrow> string option" where
  "my_skip_macro_arg o' s = skip_identifier o' (if code (ch s 0) = 92 then drop 1 s else s)"

lemma skip_length [simp]: "length (skip s) \<le> length s"
  by (simp add: skip_def)

lemma skip_identifier_length: "skip_identifier o' s = Some r \<Longrightarrow> length r < length s"
  by (cases s) (auto simp: le_imp_less_Suc skip_identifier_def isidstart_def isalpha_def ch_def code_def Let_def split: if_splits)

lemma my_skip_macro_arg_length: "my_skip_macro_arg o' s = Some r \<Longrightarrow> length r < length s"
  by (auto simp: my_skip_macro_arg_def split: if_splits dest!: skip_identifier_length)

function macro_args :: "synconf \<Rightarrow> string \<Rightarrow> string list \<Rightarrow> nat list \<times> string list" where
  "macro_args o' args names =
     (if ISEOL o' args then ([], names)
      else case my_skip_macro_arg (exprs o') args of
        None \<Rightarrow> ([42], names)
      | Some e \<Rightarrow>
          let names = names @ [up_to e args]; r = skip e
          in if ch r 0 = CHR '','' then macro_args o' (skip (drop 1 r)) names else ([], names))"
  by pat_completeness auto
termination
proof (relation "measure (\<lambda>(o', args, names). length args)")
  fix o' :: synconf and args names e x xa
  assume "my_skip_macro_arg (exprs o') args = Some e" and "xa = skip e"
  then have "length e < length args" "length (skip (drop 1 xa)) \<le> length (drop 1 xa)" "length xa \<le> length e"
    using skip_length [of "drop 1 xa"] skip_length [of e] by (simp_all add: my_skip_macro_arg_length)
  then show "((o', skip (drop 1 xa), x), (o', args, names)) \<in> measure (\<lambda>(o', args, names). length args)" by simp
qed simp

declare macro_args.simps [simp del]

definition pend_is_macro :: "pending \<Rightarrow> bool" where
  "pend_is_macro d \<longleftrightarrow> (case pend_kind d of Macro_def _ _ \<Rightarrow> True | Repeat_def _ _ _ \<Rightarrow> False)"

definition name_conflict :: "frontconf \<Rightarrow> nat hashtable \<Rightarrow> string \<Rightarrow> cpuconf \<Rightarrow> nat option" where
  "name_conflict o' dirhash name c =
     (case snd (find_name_nc mnemohash name) of
        Some i \<Rightarrow>
          if list_ex (cpu_available c) (takeWhile (\<lambda>j. stricmp_eq (mn_name (mnemonics ! j)) name) [i..<length mnemonics])
          then Some 51 else None
      | None \<Rightarrow>
          if (if dotdirs (syn o') then ch name 0 = CHR ''.'' \<and> snd (find_name_nc dirhash (drop 1 name)) \<noteq> None
              else snd (find_name_nc dirhash name) \<noteq> None)
          then Some 52 else None)"

definition new_macro :: "frontconf \<Rightarrow> nat hashtable \<Rightarrow> string \<Rightarrow> string list \<Rightarrow> string option \<Rightarrow> unit fstep" where
  "new_macro o' dirhash name endmlist args = bind_st get (\<lambda>f.
     case sources f of
       [] \<Rightarrow> fail Ierror
     | s # ss \<Rightarrow>
         if pending_def f \<noteq> None then fail Ierror
         else
           bind_st
             (if find_macro o' name (length name) f = None then return ()
              else bind_st (message 88) (\<lambda>_.
                case rem_hashentry (macrohash f) name (nocase_macros o') of
                  None \<Rightarrow> fail Ierror
                | Some ht \<Rightarrow> modify (\<lambda>f. f\<lparr>macrohash := ht\<rparr>))) (\<lambda>_.
           if src_defsrc s \<noteq> None then fail (Fatal_error 26)
           else
             let conflict = name_conflict o' dirhash name (cpu (front_prog f));
                 parsed = map_option (\<lambda>a. macro_args (syn o') (skip a) []) args;
                 m = \<lparr>mac_name = (if nocase_macros o' then map tolower_c name else name), mac_text = [], mac_from = src_name s,
                      mac_defline = src_line s, argnames = map_option snd parsed, recursions = 0\<rparr>
             in bind_st (case conflict of None \<Rightarrow> return () | Some n \<Rightarrow> message n) (\<lambda>_.
                bind_st (modify (\<lambda>f. f\<lparr>pending_def := Some \<lparr>pend_kind = Macro_def m (conflict = None), pend_start = srcptr s,
                           pend_src = src_id s, pend_ends = endmlist, pend_repts = []\<rparr>\<rparr>)) (\<lambda>_.
                  report (case parsed of None \<Rightarrow> [] | Some (es, _) \<Rightarrow> es)))))"

definition new_repeat :: "nat \<Rightarrow> string option \<Rightarrow> string list \<Rightarrow> string list \<Rightarrow> unit fstep" where
  "new_repeat rcnt name reptlist endrlist = bind_st get (\<lambda>f.
     case sources f of
       [] \<Rightarrow> fail Ierror
     | s # ss \<Rightarrow>
         if pending_def f \<noteq> None then fail Ierror
         else modify (\<lambda>f. f\<lparr>pending_def := Some
           \<lparr>pend_kind = Repeat_def rcnt name
              (case src_defsrc s of Some d \<Rightarrow> (d, src_defline s + src_line s) | None \<Rightarrow> (src_name s, src_line s)),
            pend_start = srcptr s, pend_src = src_id s, pend_ends = endrlist, pend_repts = reptlist\<rparr>\<rparr>))"

text \<open>\<open>text\<close> is what is left of the source at the directive that ends the macro.\<close>

definition add_macro :: "frontconf \<Rightarrow> macro \<Rightarrow> bool \<Rightarrow> string \<Rightarrow> unit fstep" where
  "add_macro o' m valid txt = modify (\<lambda>f.
     if valid then f\<lparr>macros := macros f @ [m\<lparr>mac_text := txt\<rparr>],
                    macrohash := add_hashentry (debug (front_prog f)) (macrohash f) (mac_name m) (length (macros f)) (nocase_macros o')\<rparr>
     else f)"

definition REPTNSYM :: string where "REPTNSYM = ''__RPTCNT''"

definition start_repeat :: "nat \<Rightarrow> string option \<Rightarrow> string \<times> int \<Rightarrow> string \<Rightarrow> unit fstep" where
  "start_repeat rcnt name from txt = bind_st get (\<lambda>f.
     case sources f of
       [] \<Rightarrow> fail Ierror
     | cur # ss \<Rightarrow>
         if MAXPATHLEN \<le> length (src_name cur) + 24 then fail Ierror
         else if rcnt = 0 then return ()
         else
           bind_st (new_source (''REPEAT:'' @ fst from @ '':line '' @ digits_of 10 (nat (snd from))) txt) (\<lambda>s.
           bind_st (on_core (set_internal_abs REPTNSYM 0)) (\<lambda>_.
           bind_st (case name of None \<Rightarrow> return () | Some n \<Rightarrow> on_core (bind_st (new_abs n (NUM 0)) (\<lambda>_. return ()))) (\<lambda>_.
           let s = s\<lparr>src_defsrc := Some (fst from), src_defline := snd from, src_reptn := 0, src_repeat := rcnt, reptcntname := name\<rparr>;
               s = (if 0 \<le> num_params cur
                    then s\<lparr>num_params := num_params cur, param := param cur, src_argnames := src_argnames cur\<rparr> else s)
           in set_sources (s # cur # ss)))))"

section \<open>The end of a definition\<close>

definition dirlist_match :: "expconf \<Rightarrow> char \<Rightarrow> string \<Rightarrow> string list \<Rightarrow> string option" where
  "dirlist_match o' prevc r ds =
     (let dot = ch r 0 = CHR ''.''; prevc = (if dot then CHR ''.'' else prevc); r = (if dot then drop 1 r else r)
      in if \<not> isidstart (ch r 0) \<or> \<not> (isspace prevc \<or> prevc = CHR 0x00 \<or> prevc = CHR ''.'') then None
         else
           let e = dropWhile (isidchar o') (drop 1 r); name = up_to e r
           in if \<not> isspace (ch e 0) \<and> ch e 0 \<noteq> CHR 0x00 then None
              else find (\<lambda>d. length d = length name \<and> strnicmp_eq name d (length d)) ds)"

definition dirlist_minlen :: "string list \<Rightarrow> nat" where
  "dirlist_minlen ds = (case ds of [] \<Rightarrow> 0 | d # _ \<Rightarrow> foldr (\<lambda>d n. min (length d) n) ds (length d))"

definition is_newline :: "char \<Rightarrow> bool" where
  "is_newline c \<longleftrightarrow> c = CHR 0x0A \<or> c = CHR 0x0D"

definition skip_eol :: "string \<Rightarrow> string" where
  "skip_eol s = dropWhile (\<lambda>c. c \<noteq> CHR 0x00 \<and> \<not> is_newline c) s"

fun skip_quoted :: "expconf \<Rightarrow> nat \<Rightarrow> char \<Rightarrow> string \<Rightarrow> string" where
  "skip_quoted o' minlen c [] = []"
| "skip_quoted o' minlen c (x # xs) =
     (if length (x # xs) < minlen \<or> x = c \<or> is_newline x then x # xs
      else if code x = 92 \<and> is_quote (ch xs 0) then
        (if esc_sequences o' then (case xs of [] \<Rightarrow> [] | y # ys \<Rightarrow> skip_quoted o' minlen c ys) else skip_quoted o' minlen c xs)
      else skip_quoted o' minlen c xs)"

text \<open>One step of the search: behind a string, and at the end of the line behind a comment.\<close>

definition scan_to :: "expconf \<Rightarrow> nat \<Rightarrow> string \<Rightarrow> string" where
  "scan_to o' minlen t =
     (let t = (if is_quote (ch t 0) then skip_quoted o' minlen (ch t 0) (drop 1 t) else t)
      in if t = [] \<or> ch t 0 = CHR 0x00 \<or> ch t 0 = commentchar o' then skip_eol t else t)"

declare skip_quoted.simps(2) [simp del]

lemma skip_quoted_length: "length (skip_quoted o' minlen c s) \<le> length s"
proof (induction o' minlen c s rule: skip_quoted.induct)
  case (2 o' minlen c x xs)
  then show ?case
    by (cases xs) (auto simp: skip_quoted.simps(2) [of o' minlen c x] intro: le_SucI)
qed simp

lemma scan_to_length: "length (scan_to o' minlen t) \<le> length t"
proof -
  define u where "u = (if is_quote (ch t 0) then skip_quoted o' minlen (ch t 0) (drop 1 t) else t)"
  have "length u \<le> length t" using skip_quoted_length [of o' minlen "ch t 0" "drop 1 t"] unfolding u_def by (cases "is_quote (ch t 0)") auto
  moreover have "scan_to o' minlen t = (if u = [] \<or> ch u 0 = CHR 0x00 \<or> ch u 0 = commentchar o' then skip_eol u else u)"
    by (simp only: scan_to_def Let_def u_def)
  moreover have "length (skip_eol u) \<le> length u" by (simp add: skip_eol_def)
  ultimately show ?thesis by (cases "u = [] \<or> ch u 0 = CHR 0x00 \<or> ch u 0 = commentchar o'") simp_all
qed

text \<open>Where the search goes on, with the nesting of repetitions; \<open>None\<close> is the end directive.\<close>

definition scan_step :: "expconf \<Rightarrow> bool \<Rightarrow> string list \<Rightarrow> string list \<Rightarrow> nat \<Rightarrow> char \<Rightarrow> string \<Rightarrow> (string \<times> nat) option" where
  "scan_step o' is_macro stops repts nest prevc r =
     (case dirlist_match o' prevc r stops of
        Some d \<Rightarrow> if is_macro \<or> nest = 1 then None else Some (drop (length d) r, nest - 1)
      | None \<Rightarrow>
          (case (if is_macro then None else dirlist_match o' prevc r repts) of
             Some d \<Rightarrow> Some (drop (length d) r, nest + 1)
           | None \<Rightarrow> Some (r, nest)))"

lemma scan_step_length: "scan_step o' m stops repts nest prevc r = Some (t, k) \<Longrightarrow> length t \<le> length r"
  by (auto simp: scan_step_def split: option.splits if_splits)

text \<open>
  The text from the end directive on, if there is one, with the beginning of its line and the
  number of lines read. \<open>prevc\<close> is the character in front of the text.
\<close>

function scan_def ::
  "expconf \<Rightarrow> bool \<Rightarrow> string list \<Rightarrow> string list \<Rightarrow> nat \<Rightarrow> char \<Rightarrow> string \<Rightarrow> string \<Rightarrow> int \<Rightarrow> string option \<times> string \<times> int" where
  "scan_def o' is_macro stops repts nest prevc r line n =
     (if r = [] \<or> length r < dirlist_minlen stops then (None, line, n)
      else case scan_step o' is_macro stops repts nest prevc r of
        None \<Rightarrow> (Some r, line, n)
      | Some (t0, nest) \<Rightarrow>
          let t = scan_to o' (dirlist_minlen stops) t0; c = ch t 0;
              prev = (if up_to t r = [] then prevc else last (up_to t r));
              nl = c = CHR 0x0A \<or> c = CHR 0x0D \<and> prev \<noteq> CHR 0x0A \<and> (length t \<le> 1 \<or> ch t 1 \<noteq> CHR 0x0A)
          in scan_def o' is_macro stops repts nest c (drop 1 t) (if nl then drop 1 t else line) (if nl then n + 1 else n))"
  by pat_completeness auto
termination
proof (relation "measure (\<lambda>(o', m, stops, repts, nest, prevc, r, line, n). length r)", goal_cases)
  case 1
  then show ?case by simp
next
  case (2 o' m stops repts nest prevc r line n b t0 k t c prev nl)
  then have "length t0 \<le> length r" "r \<noteq> []" using scan_step_length by fastforce+
  moreover have "length t \<le> length t0" using 2(4) scan_to_length by simp
  ultimately show ?case by (cases r) simp_all
qed

declare scan_def.simps [simp del]

section \<open>Lines\<close>

definition find_macarg_name :: "frontconf \<Rightarrow> src \<Rightarrow> string \<Rightarrow> nat option" where
  "find_macarg_name o' s name =
     (if src_macro s = None then None
      else find (\<lambda>i. src_argnames s ! i = name) [0..<min (maxmacparams o') (length (src_argnames s))])"

definition copy_macro_param :: "frontconf \<Rightarrow> src \<Rightarrow> nat \<Rightarrow> string" where
  "copy_macro_param o' s n = (if int n < num_params s \<and> n < maxmacparams o' then param s ! n else [])"

text \<open>
  What a backslash in a macro stands for, and the text behind it. The text stays where it is if
  nothing is expanded.
\<close>

definition exprs_now :: "frontconf \<Rightarrow> front \<Rightarrow> expconf" where
  "exprs_now o' f = (exprs (syn o'))\<lparr>anon_labno := anon_no f\<rparr>"

definition expand_symbol :: "frontconf \<Rightarrow> string \<Rightarrow> (string \<times> string) option fstep" where
  "expand_symbol o' t = bind_st get (\<lambda>f.
     case parse_symbol (exprs_now o' f) (front_prog f) t of
       None \<Rightarrow> bind_st (message 1010) (\<lambda>_. return None)
     | Some (name, u) \<Rightarrow>
         bind_st (on_core (find_symbol name)) (\<lambda>r. bind_st get (\<lambda>f.
         bind_st
           (case r of
              None \<Rightarrow> return []
            | Some y \<Rightarrow>
                let x = sym (core (front_prog f)) y
                in if sym_type x \<noteq> EXPRESSION then return []
                   else case sym_expr x of
                     None \<Rightarrow> fail Undefined
                   | Some e \<Rightarrow> bind_st (on_core (lift (eval_expr e None 0))) (\<lambda>(val, cnst).
                       return (if cnst then digits_of 10 (unat val) else []))) (\<lambda>txt.
         if ch u 0 \<noteq> CHR ''>'' then bind_st (message 1011) (\<lambda>_. return None) else return (Some (txt, drop 1 u))))))"

definition expand_macro :: "frontconf \<Rightarrow> src \<Rightarrow> string \<Rightarrow> (string \<times> string) fstep" where
  "expand_macro o' s r =
     (let t = drop 1 r; c = ch t 0; backslash = char_of (92::nat)
      in if ch r 0 \<noteq> backslash then return ([], r)
         else if c = backslash then return (if esc_sequences (exprs (syn o')) then [backslash, backslash] else [backslash], drop 1 t)
         else if c = CHR ''@'' then return (CHR ''_'' # zero_padded 6 (digits_of 10 (src_id s)), drop 1 t)
         else if c = CHR ''('' \<and> ch t 1 = CHR '')'' then return ([], drop 2 t)
         else if c = CHR ''<'' then
           bind_st (expand_symbol o' (drop 1 t)) (\<lambda>x. return (case x of None \<Rightarrow> ([], r) | Some y \<Rightarrow> y))
         else if isdigit c then
           return (copy_macro_param o' s (if c = CHR ''0'' then 0 else code c - 49), drop 1 t)
         else case skip_identifier (exprs (syn o')) t of
           None \<Rightarrow> return ([], r)
         | Some e \<Rightarrow>
             (case find_macarg_name o' s (up_to e t) of
                None \<Rightarrow> return ([], r)
              | Some n \<Rightarrow> return (copy_macro_param o' s n, e)))"

text \<open>
  The next line of a source with the arguments of a macro in it, and the text behind the line.
  \<open>start\<close> is the position of the source, and every round moves forward. When an argument is
  empty, the next character is copied as it is.
\<close>

fun copy_line :: "nat \<Rightarrow> frontconf \<Rightarrow> src \<Rightarrow> string \<Rightarrow> string \<Rightarrow> string \<Rightarrow> (string \<times> string) fstep" where
  "copy_line 0 o' s start r d = fail Runaway"
| "copy_line (Suc k) o' s start r d =
     (if r = [] \<or> hd r = CHR 0x00 then return (d, r)
      else
        bind_st (if 0 \<le> num_params s then expand_macro o' s r else return ([], r)) (\<lambda>(x, t).
        if x \<noteq> [] then copy_line k o' s start t (d @ x)
        else if t = [] then fail Undefined
        else if hd t = CHR 0x0D then
          (if length t < length start \<and> last (up_to t start) = CHR 0x0A \<or> ch t 1 = CHR 0x0A
           then copy_line k o' s start (tl t) d else return (d, tl t))
        else if hd t = CHR 0x0A then return (d, tl t)
        else copy_line k o' s start (tl t) (d @ [hd t])))"

text \<open>
  Whether there is another line: a source that has ended is repeated or left. The number of
  rounds is bounded by the repetitions that are left.
\<close>

fun next_source :: "nat \<Rightarrow> bool fstep" where
  "next_source 0 = fail Runaway"
| "next_source (Suc k) = bind_st get (\<lambda>f.
     case sources f of
       [] \<Rightarrow> fail Undefined
     | s # ss \<Rightarrow>
         if srcptr s \<noteq> [] \<and> hd (srcptr s) \<noteq> CHR 0x00 then return True
         else if 1 < src_repeat s then
           bind_st (set_sources (s\<lparr>srcptr := src_text s, src_line := 0, src_repeat := src_repeat s - 1, src_reptn := src_reptn s + 1\<rparr> # ss)) (\<lambda>_.
           bind_st (case reptcntname s of
                      None \<Rightarrow> return ()
                    | Some n \<Rightarrow> on_core (bind_st (new_abs n (NUM (src_reptn s + 1))) (\<lambda>_. return ()))) (\<lambda>_.
           bind_st (on_core (set_internal_abs REPTNSYM (src_reptn s + 1))) (\<lambda>_. next_source k)))
         else
           bind_st (case src_macro s of
                      None \<Rightarrow> return ()
                    | Some m \<Rightarrow> if recursions (macros f ! m) = 0 then fail Ierror
                                else upd_macro m (\<lambda>m. m\<lparr>recursions := recursions m - 1\<rparr>)) (\<lambda>_.
           case ss of
             [] \<Rightarrow> return False
           | q # qs \<Rightarrow>
               bind_st (set_sources ss) (\<lambda>_.
               bind_st (on_core (set_internal_abs REPTNSYM (src_reptn q))) (\<lambda>_. next_source k))))"

definition rounds_left :: "src list \<Rightarrow> nat" where
  "rounds_left ss = sum_list (map src_repeat ss) + length ss + 1"

text \<open>The end of a definition that is being read: it becomes a macro, or is returned to be repeated.\<close>

definition read_definition :: "frontconf \<Rightarrow> pending \<Rightarrow> src \<Rightarrow> src list \<Rightarrow> (string \<times> (unit fstep)) fstep" where
  "read_definition o' d s ss =
     (let front = up_to (srcptr s) (src_text s); is_macro = pend_is_macro d
      in if is_macro \<and> 0 \<le> num_params s then fail (Fatal_error 26)
         else if front = [] then fail Undefined
         else case scan_def (exprs (syn o')) is_macro (pend_ends d) (pend_repts d) 1 (last front) (srcptr s) (srcptr s) 0 of
           (None, _, _) \<Rightarrow> fail (Fatal_error (if is_macro then 25 else 32))
         | (Some r, line, n) \<Rightarrow>
             if pend_src d \<noteq> src_id s then fail Undefined
             else
               bind_st (set_sources (s\<lparr>srcptr := line, src_line := src_line s + n\<rparr> # ss)) (\<lambda>_.
               bind_st (modify (\<lambda>f. f\<lparr>pending_def := None\<rparr>)) (\<lambda>_.
               case pend_kind d of
                 Macro_def m valid \<Rightarrow>
                   bind_st (add_macro o' m valid (up_to line (pend_start d))) (\<lambda>_. return (skip_eol r, return ()))
               | Repeat_def rcnt name from \<Rightarrow>
                   return (skip_eol r, start_repeat rcnt name from (up_to r (pend_start d))))))"

definition read_next_line :: "frontconf \<Rightarrow> string option fstep" where
  "read_next_line o' = bind_st get (\<lambda>f.
     bind_st (next_source (rounds_left (sources f))) (\<lambda>more.
     if \<not> more then return None
     else bind_st get (\<lambda>f. case sources f of [] \<Rightarrow> fail Undefined | s # ss \<Rightarrow>
       let s = s\<lparr>src_line := src_line s + 1\<rparr>
       in bind_st (set_sources (s # ss)) (\<lambda>_.
          bind_st
            (case pending_def f of
               Some d \<Rightarrow> if dirlist_minlen (pend_ends d) < length (srcptr s) then read_definition o' d s ss else return (srcptr s, return ())
             | None \<Rightarrow> return (srcptr s, return ())) (\<lambda>(r, repeat).
          bind_st get (\<lambda>f. case sources f of [] \<Rightarrow> fail Undefined | s # ss \<Rightarrow>
          bind_st (copy_line (length r + 1) o' s (srcptr s) r []) (\<lambda>(line, r).
          bind_st (set_sources (s\<lparr>srcptr := r\<rparr> # ss)) (\<lambda>_.
          bind_st (on_par (modify (\<lambda>x. x\<lparr>px_line := line\<rparr>))) (\<lambda>_.
          bind_st repeat (\<lambda>_. return (Some line)))))))))))"

section \<open>Executing a macro\<close>

function macro_params :: "frontconf \<Rightarrow> string \<Rightarrow> nat \<Rightarrow> string list \<Rightarrow> nat list \<times> nat \<times> string list" where
  "macro_params o' s n ps =
     (if ISEOL (syn o') s \<or> maxmacparams o' \<le> n then ([], n, ps)
      else case skip_operand (syn o') s of (es, e) \<Rightarrow>
        let p = up_to e s; ps = (if p = [] then ps else ps[n := p]); r = skip e
        in if ch r 0 = CHR '','' then
             (case macro_params o' (skip (drop 1 r)) (n + 1) ps of (es', n, ps) \<Rightarrow> (es @ es', n, ps))
           else (es, n + 1, ps))"
  by pat_completeness auto
termination by (relation "measure (\<lambda>(o', s, n, ps). maxmacparams o' - n)") (auto simp: not_le)

declare macro_params.simps [simp del]

definition execute_macro :: "frontconf \<Rightarrow> string \<Rightarrow> nat \<Rightarrow> string \<Rightarrow> bool fstep" where
  "execute_macro o' name len s = bind_st get (\<lambda>f.
     case find_macro o' name len f of
       None \<Rightarrow> return False
     | Some i \<Rightarrow>
         let m = macros f ! i
         in if maxmacrecurs o' \<le> recursions m then fail (Fatal_error 56)
            else
              bind_st (upd_macro i (\<lambda>m. m\<lparr>recursions := recursions m + 1\<rparr>)) (\<lambda>_.
              bind_st (new_source (mac_name m) (mac_text m)) (\<lambda>x.
              case macro_params o' (skip s) 0 (replicate (maxmacparams o') []) of (es, n, ps) \<Rightarrow>
              bind_st (report es) (\<lambda>_.
              bind_st (case argnames m of
                         Some ns \<Rightarrow> if length ns < n then message 87 else return ()
                       | None \<Rightarrow> return ()) (\<lambda>_.
              let n = (case argnames m of Some ns \<Rightarrow> length ns | None \<Rightarrow> n)
              in bind_st (if maxmacparams o' < n then message 27 else return ()) (\<lambda>_.
                 bind_st (set_sources (x\<lparr>src_macro := Some i, src_defsrc := Some (mac_from m), src_defline := mac_defline m,
                            src_argnames := (case argnames m of Some ns \<Rightarrow> ns | None \<Rightarrow> []),
                            num_params := int (min n (maxmacparams o')), param := ps\<rparr> # sources f)) (\<lambda>_. return True)))))))"

end
