(* ===== verification/Directives.thy ===== *)
theory Directives
  imports Frontend
begin

text \<open>
  The directives of the oldstyle syntax (\<open>src/syntax/oldstyle/syntax.c\<close>) and of the 6502
  (\<open>src/cpus/6502/cpu.c\<close>). A handler gets the text behind the name of its directive.
\<close>

section \<open>Parsing in the front end\<close>

definition syn_now :: "frontconf \<Rightarrow> front \<Rightarrow> synconf" where
  "syn_now o' f = (syn o')\<lparr>exprs := exprs_now o' f\<rparr>"

text \<open>The result of a parser with the text behind what it has read.\<close>

definition read_with :: "(expconf \<Rightarrow> string \<Rightarrow> 'a parse) \<Rightarrow> frontconf \<Rightarrow> string \<Rightarrow> ('a \<times> string) fstep" where
  "read_with p o' s = bind_st get (\<lambda>f. on_par (bind_st (p (exprs_now o' f) s) (\<lambda>e. bind_st get (\<lambda>x. return (e, px_s x)))))"

definition check_eol :: "frontconf \<Rightarrow> string \<Rightarrow> unit fstep" where
  "check_eol o' s = report (eol (syn o') s)"

definition name_at :: "frontconf \<Rightarrow> string \<Rightarrow> (string \<times> string) option" where
  "name_at o' s = parse_identifier (exprs (syn o')) s"

definition append_atom :: "atom \<Rightarrow> unit fstep" where
  "append_atom a = on_core (add_atom None a)"

definition fill_atom :: "expr \<Rightarrow> nat \<Rightarrow> expr option \<Rightarrow> front \<Rightarrow> atom" where
  "fill_atom cnt sz fill f = new_space_atom (space_init (front_prog f)) cnt sz fill"

definition do_space :: "nat \<Rightarrow> expr \<Rightarrow> expr option \<Rightarrow> unit fstep" where
  "do_space bits cnt fill = bind_st get (\<lambda>f. append_atom (fill_atom cnt (bits div 8) fill f))"

section \<open>Data\<close>

text \<open>The symbol that stands for the data, and the expression around it; the root is not looked at.\<close>

fun find_sym_expr :: "(symid \<Rightarrow> bool) \<Rightarrow> expr \<Rightarrow> (symid \<times> (expr \<Rightarrow> expr)) option" where
  "find_sym_expr P (UNOP u a) =
     (case a of
        SYM y \<Rightarrow> if P y then Some (y, UNOP u) else None
      | _ \<Rightarrow> map_option (\<lambda>(y, g). (y, \<lambda>x. UNOP u (g x))) (find_sym_expr P a))"
| "find_sym_expr P (BINOP b l r) =
     (case (case l of SYM y \<Rightarrow> if P y then Some (y, \<lambda>x. x) else None | _ \<Rightarrow> find_sym_expr P l) of
        Some (y, g) \<Rightarrow> Some (y, \<lambda>x. BINOP b (g x) r)
      | None \<Rightarrow> map_option (\<lambda>(y, g). (y, \<lambda>x. BINOP b l (g x)))
          (case r of SYM y \<Rightarrow> if P y then Some (y, \<lambda>x. x) else None | _ \<Rightarrow> find_sym_expr P r))"
| "find_sym_expr P e = None"

definition modifier :: "expr \<Rightarrow> (expr \<Rightarrow> expr) fstep" where
  "modifier tree = bind_st get (\<lambda>f.
     let name = make_local_label [] ''_'' (front_prog f)
     in case find_sym_expr (\<lambda>y. sym_name (sym (core (front_prog f)) y) = name) tree of
          Some (y, g) \<Rightarrow> bind_st (on_core (upd_symbol y (\<lambda>x. x\<lparr>sym_type := LABSYM\<rparr>))) (\<lambda>_. return g)
        | None \<Rightarrow> return (\<lambda>x. BINOP ADD x tree))"

definition data_operand :: "frontconf \<Rightarrow> nat \<Rightarrow> (expr \<Rightarrow> expr) option \<Rightarrow> string \<Rightarrow> nat \<Rightarrow> stop + nat \<Rightarrow> unit fstep" where
  "data_operand o' bits md s len bad = bind_st get (\<lambda>f.
     bind_st (on_par (parse_operand (syn_now o' f) s len empty_operand DATAOP)) (\<lambda>(rc, op).
     if rc \<noteq> PO_NOMATCH then
       append_atom (new_datadef_atom bits (case md of None \<Rightarrow> op | Some g \<Rightarrow> op\<lparr>op_value := map_option g (op_value op)\<rparr>))
     else case bad of Inl e \<Rightarrow> fail e | Inr n \<Rightarrow> message n))"

definition string_block :: "u8 list \<Rightarrow> dblock" where
  "string_block bs = new_dblock\<lparr>db_size := length bs, db_data := bs\<rparr>"

definition data_string :: "frontconf \<Rightarrow> nat \<Rightarrow> (expr \<Rightarrow> expr) option \<Rightarrow> u8 list \<Rightarrow> unit fstep" where
  "data_string o' bits md bs =
     (if md \<noteq> None \<and> bits = 8 then
        each (\<lambda>b. let t = digits_of 10 (unat b) in data_operand o' 8 md t (length t) (Inl Ierror)) bs
      else append_atom (new_data_atom (string_block bs) 1))"

fun data_loop :: "nat \<Rightarrow> frontconf \<Rightarrow> nat \<Rightarrow> (expr \<Rightarrow> expr) option \<Rightarrow> string \<Rightarrow> unit fstep" where
  "data_loop 0 o' bits md s = fail Runaway"
| "data_loop (Suc k) o' bits md s =
     (let goes_on = (\<lambda>r. let r = skip r in
            if ch r 0 = CHR '','' then data_loop k o' bits md (skip (drop 1 r))
            else if ISEOL (syn o') r then check_eol o' r
            else message 1009)
      in case (if is_quote (ch s 0) then parse_string (syn o') s (ch s 0) bits else Inr ([], None)) of
           Inl e \<Rightarrow> fail e
         | Inr (es, Some (bs, r)) \<Rightarrow> bind_st (report es) (\<lambda>_. bind_st (data_string o' bits md bs) (\<lambda>_. goes_on r))
         | Inr (es, None) \<Rightarrow>
             bind_st (report es) (\<lambda>_.
             case skip_operand (syn o') s of (es, r) \<Rightarrow>
               bind_st (report es) (\<lambda>_.
               bind_st (data_operand o' bits md s (length s - length r) (Inr 1008)) (\<lambda>_. goes_on r))))"

definition handle_data :: "frontconf \<Rightarrow> nat \<Rightarrow> string \<Rightarrow> unit fstep" where
  "handle_data o' bits s = data_loop (length s + 1) o' bits None s"

definition handle_data_mod :: "frontconf \<Rightarrow> nat \<Rightarrow> expr \<Rightarrow> string \<Rightarrow> unit fstep" where
  "handle_data_mod o' bits tree s = bind_st (modifier tree) (\<lambda>g. data_loop (length s + 1) o' bits (Some g) s)"

text \<open>Without an operand a data directive reserves space.\<close>

definition data_or_space :: "frontconf \<Rightarrow> nat \<Rightarrow> string \<Rightarrow> unit fstep" where
  "data_or_space o' bits s =
     (let s = skip s in if ISEOL (syn o') s then bind_st (do_space 8 (NUM (of_nat (bits div 8))) None) (\<lambda>_. check_eol o' s) else handle_data o' bits s)"

definition handle_dblbyt :: "frontconf \<Rightarrow> string \<Rightarrow> unit fstep" where
  "handle_dblbyt o' s =
     (let s = skip s in if ISEOL (syn o') s then do_space 8 (NUM 2) None else handle_data o' 16 s)"

definition handle_taddr :: "frontconf \<Rightarrow> string \<Rightarrow> unit fstep" where
  "handle_taddr o' s = bind_st get (\<lambda>f. data_or_space o' (8 * bytespertaddr (core (front_prog f))) s)"

definition handle_d8_mod :: "frontconf \<Rightarrow> string \<Rightarrow> unit fstep" where
  "handle_d8_mod o' s = bind_st (read_with parse_expr o' s) (\<lambda>(e, s).
     let s = skip s in if ch s 0 = CHR '','' then handle_data_mod o' 8 e (skip (drop 1 s)) else message 1009)"

definition handle_space :: "frontconf \<Rightarrow> nat \<Rightarrow> string \<Rightarrow> unit fstep" where
  "handle_space o' bits s = bind_st (read_with parse_expr_tmplab o' s) (\<lambda>(cnt, s).
     let s = skip s
     in bind_st (if ch s 0 = CHR '','' then
                   bind_st (read_with parse_expr_tmplab o' (skip (drop 1 s))) (\<lambda>(fill, s). return (Some fill, s))
                 else return (None, s)) (\<lambda>(fill, s).
        bind_st (do_space bits cnt fill) (\<lambda>_. check_eol o' s)))"

definition uninitialized :: "atom \<Rightarrow> atom" where
  "uninitialized a = (case content a of SPACE sb \<Rightarrow> a\<lparr>content := SPACE (sb\<lparr>sb_flags := sb_flags sb OR SPC_UNINITIALIZED\<rparr>)\<rparr> | _ \<Rightarrow> a)"

definition handle_uspace :: "frontconf \<Rightarrow> nat \<Rightarrow> string \<Rightarrow> unit fstep" where
  "handle_uspace o' bits s = bind_st (read_with parse_expr_tmplab o' s) (\<lambda>(cnt, s). bind_st get (\<lambda>f.
     bind_st (append_atom (uninitialized (fill_atom cnt (bits div 8) None f))) (\<lambda>_. check_eol o' s)))"

text \<open>A string between two equal characters, or one character; \<open>add\<close> is added to the last one.\<close>

definition do_text :: "frontconf \<Rightarrow> u8 \<Rightarrow> string \<Rightarrow> unit fstep" where
  "do_text o' add s =
     (case parse_string (syn o') s (ch s 0) 8 of
        Inl e \<Rightarrow> fail e
      | Inr (es, Some (bs, r)) \<Rightarrow>
          bind_st (report es) (\<lambda>_.
          bind_st (if bs = [] then return () else append_atom (new_data_atom (string_block (butlast bs @ [last bs + add])) 1)) (\<lambda>_.
          check_eol o' r))
      | Inr (es, None) \<Rightarrow>
          bind_st (report es) (\<lambda>_.
          if \<not> ISEOL (syn o') s \<and> \<not> ISEOL (syn o') (drop 1 s)
          then append_atom (new_data_atom (string_block [of_char (ch s 1) + add]) 1)
          else message 1008))"

definition handle_string :: "frontconf \<Rightarrow> expr option \<Rightarrow> string \<Rightarrow> unit fstep" where
  "handle_string o' fill s = bind_st (handle_data o' 8 s) (\<lambda>_. do_space 8 (NUM 1) fill)"

definition do_alignment :: "taddr \<Rightarrow> expr \<Rightarrow> unit fstep" where
  "do_alignment a offs = bind_st get (\<lambda>f. append_atom ((fill_atom offs 1 None f)\<lparr>align := a\<rparr>))"

definition handle_align :: "frontconf \<Rightarrow> string \<Rightarrow> unit fstep" where
  "handle_align o' s = bind_st (read_with parse_constexpr o' s) (\<lambda>(a, s).
     bind_st (if 63 < sint a then message 1021 else return ()) (\<lambda>_.
     if sint a < 0 \<or> 63 < sint a then fail Undefined
     else bind_st (do_alignment (ucast (push_bit (unat a) 1 :: u64)) (NUM 0)) (\<lambda>_. check_eol o' s)))"

definition handle_even :: "frontconf \<Rightarrow> string \<Rightarrow> unit fstep" where
  "handle_even o' s = bind_st (do_alignment 2 (NUM 0)) (\<lambda>_. check_eol o' s)"

definition handle_symdepend :: "frontconf \<Rightarrow> string \<Rightarrow> unit fstep" where
  "handle_symdepend o' s = bind_st (read_with parse_expr o' s) (\<lambda>(e, s).
     bind_st (do_space 0 (NUM 0) (Some e)) (\<lambda>_. check_eol o' s))"

section \<open>Sections\<close>

definition textattr :: string where "textattr = ''acrx''"
definition dataattr :: string where "dataattr = ''adrw''"
definition rodataattr :: string where "rodataattr = ''adr''"
definition bssattr :: string where "bssattr = ''aurw''"
definition zeroattr :: string where "zeroattr = ''aurwz''"

definition dotted :: "frontconf \<Rightarrow> string \<Rightarrow> string" where
  "dotted o' name = (if dotdirs (syn o') then CHR ''.'' # name else name)"

definition switch_to :: "string \<Rightarrow> string \<Rightarrow> unit fstep" where
  "switch_to name attr = on_core (bind_st (new_section name attr 1) (\<lambda>c. set_section (Some c)))"

definition handle_sect :: "frontconf \<Rightarrow> string \<Rightarrow> string \<Rightarrow> (string \<Rightarrow> unit fstep) \<Rightarrow> string \<Rightarrow> unit fstep" where
  "handle_sect o' name attr other s =
     (if sect_directives o' then bind_st (switch_to (dotted o' name) attr) (\<lambda>_. check_eol o' s) else other s)"

definition section_attr :: "string \<Rightarrow> prog \<Rightarrow> string option" where
  "section_attr name p =
     (let named = (\<lambda>n. name = n \<or> name = CHR ''.'' # n)
      in if named ''text'' then Some textattr
         else if named ''data'' then Some dataattr
         else if named ''rodata'' then Some rodataattr
         else if named ''bss'' then Some bssattr
         else if named ''zero'' then Some zeroattr
         else defsecttype p)"

definition handle_section :: "frontconf \<Rightarrow> string \<Rightarrow> unit fstep" where
  "handle_section o' s =
     (case parse_name (syn o') s of
        None \<Rightarrow> return ()
      | Some (name, r) \<Rightarrow>
          let r = skip r;
              (es, attr) = (if ch r 0 = CHR '','' then get_raw_string (skip (drop 1 r)) (char_of (34::nat)) else ([], None));
              r = (case attr of Some (a, r) \<Rightarrow> skip r | None \<Rightarrow> if ch r 0 = CHR '','' then skip (drop 1 r) else r)
          in bind_st (report es) (\<lambda>_. bind_st get (\<lambda>f.
             case (case attr of Some (a, _) \<Rightarrow> Some a | None \<Rightarrow> section_attr name (front_prog f)) of
               None \<Rightarrow> fail Undefined
             | Some attr \<Rightarrow>
                 bind_st (on_core (new_section name attr 1)) (\<lambda>c.
                 bind_st (on_core (if CHR ''z'' \<in> set attr then upd_section c (set_sec_flag NEAR_ADDRESSING)
                                   else if CHR ''f'' \<in> set attr then upd_section c (set_sec_flag FAR_ADDRESSING) else return ())) (\<lambda>_.
                 bind_st (on_core (set_section (Some c))) (\<lambda>_. check_eol o' r))))))"

definition handle_org :: "frontconf \<Rightarrow> string \<Rightarrow> unit fstep" where
  "handle_org o' s =
     (if s \<noteq> [] \<and> ch s 0 = current_pc_char (exprs (syn o')) \<and> \<not> isxdigit (ch s 1) then
        (let t = skip (drop 1 s) in if ch t 0 = CHR ''+'' then handle_uspace o' 8 (skip (drop 1 t)) else check_eol o' s)
      else
        bind_st (read_with parse_constexpr o' (if ch s 0 = CHR ''#'' then skip (drop 1 s) else s)) (\<lambda>(a, s).
        bind_st get (\<lambda>f.
        bind_st (on_core (if dsect_active f then switch_offset_section None a else bind_st (new_org a) (\<lambda>c. set_section (Some c)))) (\<lambda>_.
          check_eol o' s))))"

definition handle_rorg :: "frontconf \<Rightarrow> string \<Rightarrow> unit fstep" where
  "handle_rorg o' s = bind_st (read_with parse_constexpr o' s) (\<lambda>(a, s). bind_st (on_core (start_rorg a)) (\<lambda>_. check_eol o' s))"

definition handle_rend :: "frontconf \<Rightarrow> string \<Rightarrow> unit fstep" where
  "handle_rend o' s = bind_st (on_core end_rorg) (\<lambda>ok. if ok then check_eol o' s else return ())"

definition handle_roffs :: "frontconf \<Rightarrow> string \<Rightarrow> unit fstep" where
  "handle_roffs o' s = bind_st (read_with parse_expr_tmplab o' s) (\<lambda>(e, s). append_atom (new_roffs_atom e None))"

definition handle_dsect :: "frontconf \<Rightarrow> string \<Rightarrow> unit fstep" where
  "handle_dsect o' s = bind_st get (\<lambda>f.
     bind_st (if dsect_active f then message 1013
              else modify (\<lambda>f. f\<lparr>last_alloc_sect := current (front_prog f), dsect_active := True\<rparr>)) (\<lambda>_.
     bind_st (on_core (switch_offset_section None (dsect_offs f))) (\<lambda>_. check_eol o' s)))"

definition handle_dend :: "frontconf \<Rightarrow> string \<Rightarrow> unit fstep" where
  "handle_dend o' s = bind_st get (\<lambda>f.
     bind_st
       (if dsect_active f then
          (case current (front_prog f) of
             None \<Rightarrow> fail Undefined
           | Some c \<Rightarrow>
               bind_st (modify (\<lambda>f. f\<lparr>dsect_offs := sec_pc (psec (front_prog f) c)\<rparr>)) (\<lambda>_.
               bind_st (on_core (set_section (last_alloc_sect f))) (\<lambda>_.
                 modify (\<lambda>f. f\<lparr>last_alloc_sect := None, dsect_active := False\<rparr>))))
        else message 1014) (\<lambda>_. check_eol o' s))"

section \<open>Symbols\<close>

definition LOCAL :: u32 where "LOCAL = 128"

text \<open>
  The names of a list. What is compared with the binding is the lowest bit of the flags, since
  \<open>!=\<close> binds tighter than \<open>&\<close>.
\<close>

definition bind_symbol :: "u32 \<Rightarrow> string \<Rightarrow> unit fstep" where
  "bind_symbol bnd name = bind_st (on_core (new_import name)) (\<lambda>y. bind_st get (\<lambda>f.
     if sym_flags (sym (core (front_prog f)) y) AND 1 \<noteq> 0 then message 62
     else on_core (upd_symbol y (set_flag bnd))))"

fun do_binding :: "nat \<Rightarrow> frontconf \<Rightarrow> u32 \<Rightarrow> string \<Rightarrow> unit fstep" where
  "do_binding 0 o' bnd s = fail Runaway"
| "do_binding (Suc k) o' bnd s =
     (case name_at o' s of
        None \<Rightarrow> return ()
      | Some (name, r) \<Rightarrow>
          bind_st (bind_symbol bnd name) (\<lambda>_.
          let r = skip r in if ch r 0 = CHR '','' then do_binding k o' bnd (skip (drop 1 r)) else check_eol o' r))"

definition handle_binding :: "frontconf \<Rightarrow> u32 \<Rightarrow> string \<Rightarrow> unit fstep" where
  "handle_binding o' bnd s = do_binding (length s + 1) o' bnd s"

definition handle_defc :: "frontconf \<Rightarrow> string \<Rightarrow> unit fstep" where
  "handle_defc o' s =
     (case name_at o' (skip s) of
        None \<Rightarrow> message 1010
      | Some (name, r) \<Rightarrow>
          let r = skip r
          in if ch r 0 = CHR ''='' then
               bind_st (read_with parse_expr_tmplab o' (skip (drop 1 r))) (\<lambda>(e, _).
               on_core (bind_st (new_abs name e) (\<lambda>_. return ())))
             else return ())"

section \<open>Conditions\<close>

definition start_if :: "bool \<Rightarrow> unit fstep" where
  "start_if b = bind_st get (\<lambda>f.
     case sources f of [] \<Rightarrow> fail Undefined | s # _ \<Rightarrow> on_cond (cond_if (src_name s, src_line s) b))"

definition symbol_type :: "string \<Rightarrow> symtype option fstep" where
  "symbol_type name = bind_st (on_core (find_symbol name)) (\<lambda>r. bind_st get (\<lambda>f.
     return (map_option (\<lambda>y. sym_type (sym (core (front_prog f)) y)) r)))"

definition ifdef :: "frontconf \<Rightarrow> bool \<Rightarrow> string \<Rightarrow> unit fstep" where
  "ifdef o' b s = bind_st get (\<lambda>f.
     case parse_symbol (exprs_now o' f) (front_prog f) s of
       None \<Rightarrow> message 1010
     | Some (name, r) \<Rightarrow>
         bind_st (symbol_type name) (\<lambda>t.
         bind_st (start_if ((case t of None \<Rightarrow> False | Some t \<Rightarrow> t \<noteq> IMPORT) = b)) (\<lambda>_. check_eol o' r)))"

definition ifused :: "frontconf \<Rightarrow> bool \<Rightarrow> string \<Rightarrow> unit fstep" where
  "ifused o' b s =
     (case name_at o' s of
        None \<Rightarrow> message 1010
      | Some (name, r) \<Rightarrow>
          bind_st (symbol_type name) (\<lambda>t.
          bind_st (case t of Some t \<Rightarrow> if t \<noteq> IMPORT then message 1022 else return () | None \<Rightarrow> return ()) (\<lambda>_.
          bind_st (start_if ((t = Some IMPORT) = b)) (\<lambda>_. check_eol o' r))))"

definition ifblank :: "frontconf \<Rightarrow> bool \<Rightarrow> string \<Rightarrow> unit fstep" where
  "ifblank o' b s = start_if (ISEOL (syn o') s = b)"

datatype comparison = C_EQ | C_NE | C_GT | C_GE | C_LT | C_LE

fun compares :: "comparison \<Rightarrow> int \<Rightarrow> bool" where
  "compares C_EQ v \<longleftrightarrow> v = 0"
| "compares C_NE v \<longleftrightarrow> v \<noteq> 0"
| "compares C_GT v \<longleftrightarrow> 0 < v"
| "compares C_GE v \<longleftrightarrow> 0 \<le> v"
| "compares C_LT v \<longleftrightarrow> v < 0"
| "compares C_LE v \<longleftrightarrow> v \<le> 0"

definition ifexp :: "frontconf \<Rightarrow> comparison \<Rightarrow> string \<Rightarrow> unit fstep" where
  "ifexp o' c s = bind_st (read_with parse_expr_tmplab o' s) (\<lambda>(e, s).
     bind_st (on_core (lift (eval_expr e None 0))) (\<lambda>(val, cnst).
     bind_st (if cnst then return (compares c (sint val)) else bind_st (message 30) (\<lambda>_. return False)) (\<lambda>b.
     bind_st (start_if b) (\<lambda>_. check_eol o' s))))"

definition handle_else :: "frontconf \<Rightarrow> string \<Rightarrow> unit fstep" where
  "handle_else o' s = bind_st (check_eol o' s) (\<lambda>_. on_cond (\<lambda>c. Inr (cond_skipelse c)))"

definition handle_endif :: "frontconf \<Rightarrow> string \<Rightarrow> unit fstep" where
  "handle_endif o' s = bind_st (check_eol o' s) (\<lambda>_. on_cond (\<lambda>c. Inr (cond_endif c)))"

text \<open>The text of an assertion is only printed; here it includes a comment that follows it.\<close>

definition handle_assert :: "frontconf \<Rightarrow> string \<Rightarrow> unit fstep" where
  "handle_assert o' s = bind_st (read_with parse_expr o' s) (\<lambda>(e, r).
     let t = skip r;
         msg = (if ch t 0 = CHR '','' then map_option fst (parse_name (syn o') (skip (drop 1 t))) else None)
     in append_atom (new_assert_atom (Some e) (up_to r (skip s)) msg))"

definition handle_fail :: "string \<Rightarrow> unit fstep" where
  "handle_fail s = append_atom (new_assert_atom None [] (Some s))"

end
