(* ===== verification/Statements.thy ===== *)
theory Statements
  imports Directives
begin

text \<open>
  Macros, structures and files, the tables of directives, and the lines of a source
  (\<open>parse\<close> in \<open>src/syntax/oldstyle/syntax.c\<close>, \<open>parse_cpu_special\<close> in \<open>src/cpus/6502/cpu.c\<close>).
\<close>

section \<open>Files\<close>

definition handle_incdir :: "frontconf \<Rightarrow> string \<Rightarrow> unit fstep" where
  "handle_incdir o' s =
     (case parse_name (syn o') s of
        None \<Rightarrow> check_eol o' s
      | Some (name, r) \<Rightarrow> bind_st (new_include_path o' name) (\<lambda>_. check_eol o' r))"

definition handle_include :: "frontconf \<Rightarrow> string \<Rightarrow> unit fstep" where
  "handle_include o' s =
     (case parse_name (syn o') s of
        None \<Rightarrow> return ()
      | Some (name, r) \<Rightarrow> bind_st (check_eol o' r) (\<lambda>_. include_source o' name))"

text \<open>Numbers of bytes: a negative offset is zero, a negative length is a large one.\<close>

definition handle_incbin :: "frontconf \<Rightarrow> string \<Rightarrow> unit fstep" where
  "handle_incbin o' s =
     (case parse_name (syn o') s of
        None \<Rightarrow> return ()
      | Some (name, r) \<Rightarrow>
          let r = skip r
          in bind_st
               (if ch r 0 = CHR '','' then
                  bind_st (read_with parse_constexpr o' (skip (drop 1 r))) (\<lambda>(delta, r).
                  let r = skip r
                  in if ch r 0 = CHR '','' then
                       bind_st (read_with parse_constexpr o' (skip (drop 1 r))) (\<lambda>(n, r).
                       return (nat (sint delta), unat (scast n :: u64), r))
                     else return (nat (sint delta), 0, r))
                else return (0, 0, r)) (\<lambda>(delta, n, r).
             bind_st (check_eol o' r) (\<lambda>_. include_binary_file o' name delta n)))"

section \<open>Macros and repetitions\<close>

definition endm_dirs :: "frontconf \<Rightarrow> string list" where
  "endm_dirs o' = map (dotted o') [''endm'', ''endmac'', ''endmacro'']"

definition rept_dirs :: "frontconf \<Rightarrow> string list" where
  "rept_dirs o' = map (dotted o') [''rept'', ''repeat'']"

definition endr_dirs :: "frontconf \<Rightarrow> string list" where
  "endr_dirs o' = map (dotted o') [''endr'', ''endrep'', ''endrepeat'']"

definition handle_rept :: "frontconf \<Rightarrow> string \<Rightarrow> unit fstep" where
  "handle_rept o' s = bind_st (read_with parse_constexpr o' s) (\<lambda>(cnt, s).
     let s = skip s;
         r = (if \<not> ISEOL (syn o') s \<and> ch s 0 = CHR '','' then skip (drop 1 s) else s);
         name = (if \<not> ISEOL (syn o') s \<and> ch s 0 = CHR '','' then name_at o' r else None)
     in bind_st (new_repeat (nat (sint cnt)) (map_option fst name) (rept_dirs o') (endr_dirs o')) (\<lambda>_.
        check_eol o' (case name of Some (_, t) \<Rightarrow> t | None \<Rightarrow> r)))"

definition handle_macro :: "frontconf \<Rightarrow> nat hashtable \<Rightarrow> string \<Rightarrow> unit fstep" where
  "handle_macro o' dirhash s =
     (case name_at o' s of
        None \<Rightarrow> message 1010
      | Some (name, r) \<Rightarrow>
          let r = skip r
          in if ch r 0 = CHR '','' then new_macro o' dirhash name (endm_dirs o') (Some (drop 1 r))
             else bind_st (check_eol o' r) (\<lambda>_. new_macro o' dirhash name (endm_dirs o') None))"

definition handle_exitmacro :: "frontconf \<Rightarrow> string \<Rightarrow> unit fstep" where
  "handle_exitmacro o' s = bind_st leave_macro (\<lambda>_. check_eol o' s)"

section \<open>Structures\<close>

definition new_structure :: "frontconf \<Rightarrow> string \<Rightarrow> bool fstep" where
  "new_structure o' name = bind_st get (\<lambda>f.
     if cur_struct f \<noteq> None then bind_st (message 48) (\<lambda>_. return False)
     else
       bind_st (modify (\<lambda>f. f\<lparr>struct_prevsect := current (front_prog f)\<rparr>)) (\<lambda>_.
       bind_st (on_core (switch_offset_section (Some name) (- 1))) (\<lambda>_. bind_st get (\<lambda>f.
       case current (front_prog f) of
         None \<Rightarrow> fail Undefined
       | Some c \<Rightarrow>
           bind_st (modify (\<lambda>f. f\<lparr>cur_struct := Some c,
             structhash := add_hashentry (debug (front_prog f)) (structhash f) (sec_name (psec (front_prog f) c)) c (nocase_macros o')\<rparr>)) (\<lambda>_.
           return True)))))"

definition handle_struct :: "frontconf \<Rightarrow> string \<Rightarrow> unit fstep" where
  "handle_struct o' s =
     (case name_at o' s of
        None \<Rightarrow> message 1010
      | Some (name, r) \<Rightarrow>
          bind_st (check_eol o' (skip r)) (\<lambda>_. bind_st (new_structure o' name) (\<lambda>ok. bind_st get (\<lambda>f.
          case current (front_prog f) of
            Some c \<Rightarrow> if ok then on_core (upd_section c (set_sec_flag LABELS_ARE_LOCAL)) else return ()
          | None \<Rightarrow> return ()))))"

definition handle_endstruct :: "frontconf \<Rightarrow> string \<Rightarrow> unit fstep" where
  "handle_endstruct o' s = bind_st get (\<lambda>f.
     bind_st
       (if cur_struct f = None then message 49
        else case current (front_prog f) of
          None \<Rightarrow> fail Undefined
        | Some c \<Rightarrow>
            bind_st (modify (\<lambda>f. f\<lparr>cur_struct := None, struct_prevsect := None\<rparr>)) (\<lambda>_.
            bind_st (on_core (upd_section c (clear_sec_flag LABELS_ARE_LOCAL))) (\<lambda>_.
            bind_st (on_core (new_labsym (is_mnemonic (exprs (syn o'))) (is_directive (exprs (syn o'))) None (sec_name (psec (front_prog f) c)))) (\<lambda>y.
            bind_st (on_core (set_section (struct_prevsect f))) (\<lambda>_.
              on_core (add_atom (Some c) (new_label_atom y))))))) (\<lambda>_. check_eol o' s))"

text \<open>The name is compared with the rest of the line.\<close>

definition find_structure :: "frontconf \<Rightarrow> string \<Rightarrow> nat \<Rightarrow> secid option fstep" where
  "find_structure o' name len = bind_st get (\<lambda>f.
     if (case cur_struct f of Some c \<Rightarrow> sec_name (psec (front_prog f) c) = name | None \<Rightarrow> False) then fail (Fatal_error 55)
     else return (snd (if nocase_macros o' then find_namelen_nc (structhash f) name len else find_namelen (structhash f) name len)))"

text \<open>Constant data for a block of a structure; a constant is four bytes, whatever the size of the block is.\<close>

definition struct_data :: "frontconf \<Rightarrow> nat \<Rightarrow> string \<Rightarrow> u8 list fstep" where
  "struct_data o' n s =
     (if n = 0 then return []
      else if is_quote (ch s 0) then
        (case parse_string (syn o') s (ch s 0) 8 of
           Inl e \<Rightarrow> fail e
         | Inr (es, None) \<Rightarrow> bind_st (report es) (\<lambda>_. return (replicate n 0))
         | Inr (es, Some (bs, r)) \<Rightarrow>
             bind_st (report (es @ (if n < length bs then [1024] else []))) (\<lambda>_. return (take n (bs @ replicate n 0))))
      else
        bind_st (read_with parse_constexpr o' s) (\<lambda>(v, r).
        if n < 4 then fail Undefined
        else return (map (\<lambda>i. ucast (drop_bit (8 * i) v)) [0..<4] @ replicate (n - 4) 0)))"

definition struct_field :: "frontconf \<Rightarrow> atom \<Rightarrow> string \<Rightarrow> nat \<Rightarrow> unit fstep" where
  "struct_field o' a s len = bind_st get (\<lambda>f.
     if len = 0 then append_atom (clone_atom a)
     else case content a of
       DATADEF d \<Rightarrow>
         bind_st (on_par (parse_operand (syn_now o' f) s len empty_operand DATAOP)) (\<lambda>(rc, op).
         if rc \<noteq> PO_NOMATCH then append_atom ((new_datadef_atom (bitsize d) op)\<lparr>align := align a\<rparr>) else message 1008)
     | SPACE sb \<Rightarrow>
         bind_st (read_with parse_expr_tmplab o' s) (\<lambda>(fill, _).
         append_atom ((clone_atom a)\<lparr>content :=
           SPACE ((new_sblock (space_init (front_prog f)) (space_exp sb) (sb_size sb) (Some fill))\<lparr>sb_space := sb_space sb\<rparr>)\<rparr>))
     | DATA db \<Rightarrow>
         bind_st (struct_data o' (db_size db) s) (\<lambda>bs. append_atom (new_data_atom (string_block bs) (align a)))
     | _ \<Rightarrow> return ())"

text \<open>The atoms of the structure from the \<open>i\<close>-th on, which grow while the structure is inserted into itself.\<close>

fun struct_atoms :: "nat \<Rightarrow> frontconf \<Rightarrow> secid \<Rightarrow> nat \<Rightarrow> string \<Rightarrow> unit fstep" where
  "struct_atoms 0 o' c i s = fail Runaway"
| "struct_atoms (Suc k) o' c i s = bind_st get (\<lambda>f.
     if length (atoms (front_prog f) c) \<le> i then check_eol o' s
     else
       let a = atoms (front_prog f) c ! i
       in case content a of
            INSTRUCTION _ \<Rightarrow> bind_st (message 1023) (\<lambda>_. struct_atoms k o' c (i + 1) s)
          | _ \<Rightarrow>
              if (case content a of DATA _ \<Rightarrow> True | SPACE _ \<Rightarrow> True | DATADEF _ \<Rightarrow> True | _ \<Rightarrow> False) then
                (let s = skip s
                 in case skip_operand (syn o') s of (es, r) \<Rightarrow>
                      bind_st (report es) (\<lambda>_.
                      bind_st (struct_field o' a s (oplen r s)) (\<lambda>_.
                      let r = skip r in struct_atoms k o' c (i + 1) (if ch r 0 = CHR '','' then drop 1 r else r))))
              else struct_atoms k o' c (i + 1) s)"

definition execute_struct :: "frontconf \<Rightarrow> string \<Rightarrow> nat \<Rightarrow> string \<Rightarrow> bool fstep" where
  "execute_struct o' name len s = bind_st (find_structure o' name len) (\<lambda>r.
     case r of
       None \<Rightarrow> return False
     | Some c \<Rightarrow> bind_st get (\<lambda>f.
         bind_st (struct_atoms (length (atoms (front_prog f) c) + 1) o' c 0 s) (\<lambda>_. return True)))"

section \<open>Blocks of local labels\<close>

definition INLSTACKSIZE :: nat where "INLSTACKSIZE = 100"

definition inline_label :: "nat \<Rightarrow> string" where
  "inline_label n = CHR ''='' # zero_padded 6 (digits_of 10 n)"

definition handle_inline :: "unit fstep" where
  "handle_inline = bind_st get (\<lambda>f.
     if length (inline_stack f) < INLSTACKSIZE then
       bind_st (on_core (set_last_global_label (inline_label (inline_id f)))) (\<lambda>last.
       modify (\<lambda>f. f\<lparr>saved_last_global := (if inline_stack f = [] then last else saved_last_global f),
                    inline_stack := inline_id f # inline_stack f, inline_id := inline_id f + 1\<rparr>))
     else message 1016)"

definition handle_einline :: "unit fstep" where
  "handle_einline = bind_st get (\<lambda>f.
     case inline_stack f of
       [] \<Rightarrow> message 1017
     | _ # st \<Rightarrow>
         bind_st (modify (\<lambda>f. f\<lparr>inline_stack := st\<rparr>)) (\<lambda>_.
         bind_st (on_core (set_last_global_label (case st of [] \<Rightarrow> saved_last_global f | n # _ \<Rightarrow> inline_label n))) (\<lambda>_. return ())))"

section \<open>The table of directives\<close>

datatype directive =
    D_org | D_rorg | D_rend | D_roffs | D_align | D_even | D_data | D_text | D_bss | D_abyte | D_ascii | D_string | D_str
  | D_defm | D_fcs | D_byte | D_dblbyt | D_def nat | D_taddr | D_space nat | D_assert | D_ifd bool | D_ifblank bool
  | D_ifcmp comparison | D_ifused bool | D_else | D_endif | D_incbin | D_incdir | D_include | D_rept | D_endr | D_macro | D_endm
  | D_end | D_exitmacro | D_fail | D_section | D_dsect | D_dend | D_defc | D_global | D_local | D_weak | D_symdepend | D_listing
  | D_struct | D_endstruct | D_inline | D_einline

definition directives :: "(string \<times> directive) list" where
  "directives =
    [(''org'', D_org), (''rorg'', D_rorg), (''rend'', D_rend), (''phase'', D_rorg), (''dephase'', D_rend), (''roffs'', D_roffs),
     (''align'', D_align), (''even'', D_even), (''data'', D_data), (''text'', D_text), (''bss'', D_bss), (''abyte'', D_abyte),
     (''asc'', D_ascii), (''ascii'', D_ascii), (''asciiz'', D_string), (''string'', D_string), (''str'', D_str), (''defm'', D_defm),
     (''fcc'', D_defm), (''fcs'', D_fcs), (''fcb'', D_byte), (''byt'', D_byte), (''byte'', D_byte), (''db'', D_byte), (''dfb'', D_byte),
     (''defb'', D_byte), (''byt'', D_byte), (''fdb'', D_dblbyt), (''wrd'', D_def 16), (''wor'', D_def 16), (''word'', D_def 16),
     (''wrd'', D_def 16), (''dw'', D_def 16), (''dfw'', D_def 16), (''defw'', D_def 16), (''dl'', D_def 24), (''defl'', D_def 24),
     (''dd'', D_def 32), (''addr'', D_taddr), (''da'', D_taddr), (''defp'', D_taddr), (''ds'', D_space 8), (''dsb'', D_space 8),
     (''fill'', D_space 8), (''reserve'', D_space 8), (''spc'', D_space 8), (''defs'', D_space 8), (''bsz'', D_space 8), (''zmb'', D_space 8),
     (''dc'', D_space 8), (''blk'', D_space 8), (''dsw'', D_space 16), (''blkw'', D_space 16), (''dsl'', D_space 24), (''blkl'', D_space 24),
     (''di8'', D_byte), (''di16'', D_def 16), (''di24'', D_def 24), (''di32'', D_def 32), (''di64'', D_def 64), (''ds8'', D_space 8),
     (''ds16'', D_space 16), (''ds24'', D_space 24), (''ds32'', D_space 32), (''ds64'', D_space 64), (''assert'', D_assert),
     (''ifdef'', D_ifd True), (''ifndef'', D_ifd False), (''ifblank'', D_ifblank True), (''ifnblank'', D_ifblank False),
     (''ifd'', D_ifd True), (''ifnd'', D_ifd False), (''ifeq'', D_ifcmp C_EQ), (''ifne'', D_ifcmp C_NE), (''ifgt'', D_ifcmp C_GT),
     (''ifge'', D_ifcmp C_GE), (''iflt'', D_ifcmp C_LT), (''ifle'', D_ifcmp C_LE), (''ifused'', D_ifused True), (''ifnused'', D_ifused False),
     (''if'', D_ifcmp C_NE), (''else'', D_else), (''el'', D_else), (''endif'', D_endif), (''ei'', D_endif), (''fi'', D_endif),
     (''incbin'', D_incbin), (''mdat'', D_incbin), (''incdir'', D_incdir), (''include'', D_include), (''rept'', D_rept), (''repeat'', D_rept),
     (''endr'', D_endr), (''endrep'', D_endr), (''endrepeat'', D_endr), (''mac'', D_macro), (''macro'', D_macro), (''endm'', D_endm),
     (''endmac'', D_endm), (''endmacro'', D_endm), (''end'', D_end), (''exitmacro'', D_exitmacro), (''fail'', D_fail), (''section'', D_section),
     (''dsect'', D_dsect), (''dend'', D_dend), (''binary'', D_incbin), (''defc'', D_defc), (''xdef'', D_global), (''xref'', D_global),
     (''lib'', D_global), (''xlib'', D_global), (''global'', D_global), (''extern'', D_global), (''local'', D_local), (''weak'', D_weak),
     (''needs'', D_symdepend), (''symdepend'', D_symdepend), (''list'', D_listing), (''nolist'', D_listing), (''struct'', D_struct),
     (''structure'', D_struct), (''endstruct'', D_endstruct), (''endstructure'', D_endstruct), (''inline'', D_inline), (''einline'', D_einline),
     (''nam'', D_listing), (''subttl'', D_listing), (''page'', D_listing), (''space'', D_listing)]"

definition dirhash :: "nat hashtable" where
  "dirhash = fold (\<lambda>(i, n) ht. add_hashentry False ht n i True) (zip [0..<length directives] (map fst directives)) (new_hashtable 0x1000)"

fun run_directive :: "frontconf \<Rightarrow> directive \<Rightarrow> string \<Rightarrow> unit fstep" where
  "run_directive o' D_org s = handle_org o' s"
| "run_directive o' D_rorg s = handle_rorg o' s"
| "run_directive o' D_rend s = handle_rend o' s"
| "run_directive o' D_roffs s = handle_roffs o' s"
| "run_directive o' D_align s = handle_align o' s"
| "run_directive o' D_even s = handle_even o' s"
| "run_directive o' D_data s = handle_sect o' ''data'' dataattr (handle_data o' 8) s"
| "run_directive o' D_text s = handle_sect o' ''text'' textattr (do_text o' 0) s"
| "run_directive o' D_bss s = handle_sect o' ''bss'' bssattr (handle_space o' 8) s"
| "run_directive o' D_abyte s = handle_d8_mod o' s"
| "run_directive o' D_ascii s = handle_data o' 8 s"
| "run_directive o' D_string s = handle_string o' None s"
| "run_directive o' D_str s = handle_string o' (Some (NUM 13)) s"
| "run_directive o' D_defm s = do_text o' 0 s"
| "run_directive o' D_fcs s = do_text o' 0x80 s"
| "run_directive o' D_byte s = data_or_space o' 8 s"
| "run_directive o' D_dblbyt s = handle_dblbyt o' s"
| "run_directive o' (D_def n) s = data_or_space o' n s"
| "run_directive o' D_taddr s = handle_taddr o' s"
| "run_directive o' (D_space n) s = handle_space o' n s"
| "run_directive o' D_assert s = handle_assert o' s"
| "run_directive o' (D_ifd b) s = ifdef o' b s"
| "run_directive o' (D_ifblank b) s = ifblank o' b s"
| "run_directive o' (D_ifcmp c) s = ifexp o' c s"
| "run_directive o' (D_ifused b) s = ifused o' b s"
| "run_directive o' D_else s = handle_else o' s"
| "run_directive o' D_endif s = handle_endif o' s"
| "run_directive o' D_incbin s = handle_incbin o' s"
| "run_directive o' D_incdir s = handle_incdir o' s"
| "run_directive o' D_include s = handle_include o' s"
| "run_directive o' D_rept s = handle_rept o' s"
| "run_directive o' D_endr s = message 1012"
| "run_directive o' D_macro s = handle_macro o' dirhash s"
| "run_directive o' D_endm s = message 1012"
| "run_directive o' D_end s = bind_st (modify (\<lambda>f. f\<lparr>parse_end := True\<rparr>)) (\<lambda>_. check_eol o' s)"
| "run_directive o' D_exitmacro s = handle_exitmacro o' s"
| "run_directive o' D_fail s = handle_fail s"
| "run_directive o' D_section s = handle_section o' s"
| "run_directive o' D_dsect s = handle_dsect o' s"
| "run_directive o' D_dend s = handle_dend o' s"
| "run_directive o' D_defc s = handle_defc o' s"
| "run_directive o' D_global s = handle_binding o' EXPORT s"
| "run_directive o' D_local s = handle_binding o' LOCAL s"
| "run_directive o' D_weak s = handle_binding o' WEAK s"
| "run_directive o' D_symdepend s = handle_symdepend o' s"
| "run_directive o' D_listing s = return ()"
| "run_directive o' D_struct s = handle_struct o' s"
| "run_directive o' D_endstruct s = handle_endstruct o' s"
| "run_directive o' D_inline s = handle_inline"
| "run_directive o' D_einline s = handle_einline"

definition check_directive :: "frontconf \<Rightarrow> string \<Rightarrow> (nat \<times> string) option" where
  "check_directive o' line =
     (let s = skip line; e = dropWhile (isidchar (exprs (syn o'))) (drop 1 s);
          name = (if ch s 0 = CHR ''.'' \<and> dotdirs (syn o') then drop 1 s else s)
      in if \<not> isidstart (ch s 0) then None
         else map_option (\<lambda>i. (i, e)) (snd (find_namelen_nc dirhash name (length name - length e))))"

definition handle_directive :: "frontconf \<Rightarrow> string \<Rightarrow> bool fstep" where
  "handle_directive o' line =
     (case check_directive o' line of
        None \<Rightarrow> return False
      | Some (i, e) \<Rightarrow> bind_st (run_directive o' (snd (directives ! i)) (skip e)) (\<lambda>_. return True))"

section \<open>Directives of the 6502\<close>

definition set_cpu :: "(cpuconf \<Rightarrow> cpuconf) \<Rightarrow> unit fstep" where
  "set_cpu g = on_core (modify (\<lambda>p. p\<lparr>cpu := g (cpu p)\<rparr>))"

text \<open>The rest of the line is the name of the cpu.\<close>

definition handle_cpu :: "string \<Rightarrow> string fstep" where
  "handle_cpu s = bind_st get (\<lambda>f.
     if current (front_prog f) = None then
       (case set_cpu_type s (cpu (front_prog f)) of
          None \<Rightarrow> bind_st (message 2014) (\<lambda>_. return [])
        | Some (c, bpt) \<Rightarrow>
            bind_st (on_core (modify (\<lambda>p. p\<lparr>cpu := c, core := (core p)\<lparr>bytespertaddr := bpt\<rparr>\<rparr>))) (\<lambda>_. return []))
     else bind_st (message 2013) (\<lambda>_. return []))"

definition handle_setdp :: "frontconf \<Rightarrow> string \<Rightarrow> string fstep" where
  "handle_setdp o' s = bind_st (read_with parse_constexpr o' s) (\<lambda>(v, s).
     bind_st (set_cpu (\<lambda>c. c\<lparr>dpage := ucast v\<rparr>)) (\<lambda>_. bind_st (on_core (cpu_opts_init None)) (\<lambda>_. return s)))"

fun handle_zpage :: "nat \<Rightarrow> frontconf \<Rightarrow> string \<Rightarrow> string fstep" where
  "handle_zpage 0 o' s = fail Runaway"
| "handle_zpage (Suc k) o' s =
     bind_st
       (case name_at o' s of
          Some (name, r) \<Rightarrow> bind_st (on_core (bind_st (new_import name) (\<lambda>y. upd_symbol y (set_flag ZPAGESYM)))) (\<lambda>_. return r)
        | None \<Rightarrow> bind_st (message 2008) (\<lambda>_. return s)) (\<lambda>s.
     let s = skip s in if ch s 0 = CHR '','' then handle_zpage k o' (skip (drop 1 s)) else return s)"

definition handle_zero :: "frontconf \<Rightarrow> string \<Rightarrow> string fstep" where
  "handle_zero o' s =
     bind_st (on_core (bind_st (new_section (dotted o' ''zero'') zeroattr 1) (\<lambda>c.
       bind_st (upd_section c (set_sec_flag NEAR_ADDRESSING)) (\<lambda>_. set_section (Some c))))) (\<lambda>_. return s)"

definition handle_asize :: "u8 \<Rightarrow> string \<Rightarrow> string fstep" where
  "handle_asize n s = bind_st (set_cpu (\<lambda>c. c\<lparr>asize := n\<rparr>)) (\<lambda>_. bind_st (on_core (cpu_opts_init None)) (\<lambda>_. return s))"

definition handle_xsize :: "u8 \<Rightarrow> string \<Rightarrow> string fstep" where
  "handle_xsize n s = bind_st (set_cpu (\<lambda>c. c\<lparr>xsize := n\<rparr>)) (\<lambda>_. bind_st (on_core (cpu_opts_init None)) (\<lambda>_. return s))"

definition handle_long :: "(u8 \<Rightarrow> string \<Rightarrow> string fstep) \<Rightarrow> string \<Rightarrow> string fstep" where
  "handle_long h s =
     (if strnicmp_eq s ''on'' 2 then h 16 (drop 2 s)
      else if strnicmp_eq s ''off'' 3 then h 8 (drop 3 s)
      else bind_st (message 2009) (\<lambda>_. return s))"

datatype cpu_directive = C_cpu | C_setdp | C_zpage | C_zero | C_asize u8 | C_xsize u8 | C_longa | C_longi

definition cpudirs :: "(string \<times> u16 \<times> cpu_directive) list" where
  "cpudirs =
    [(''cpu'', - 1, C_cpu), (''setdp'', - 1, C_setdp), (''zpage'', - 1, C_zpage), (''zero'', - 1, C_zero),
     (''a8'', WDC65816, C_asize 8), (''a16'', WDC65816, C_asize 16), (''x8'', WDC65816, C_xsize 8), (''x16'', WDC65816, C_xsize 16),
     (''as'', WDC65816, C_asize 8), (''al'', WDC65816, C_asize 16), (''xs'', WDC65816, C_xsize 8), (''xl'', WDC65816, C_xsize 16),
     (''longa'', WDC65816, C_longa), (''longi'', WDC65816, C_longi)]"

definition cpudirhash :: "nat hashtable" where
  "cpudirhash = fold (\<lambda>(i, n) ht. add_hashentry False ht n i True) (zip [0..<length cpudirs] (map fst cpudirs)) (new_hashtable 0x100)"

fun run_cpu_directive :: "frontconf \<Rightarrow> cpu_directive \<Rightarrow> string \<Rightarrow> string fstep" where
  "run_cpu_directive o' C_cpu s = handle_cpu s"
| "run_cpu_directive o' C_setdp s = handle_setdp o' s"
| "run_cpu_directive o' C_zpage s = handle_zpage (length s + 1) o' s"
| "run_cpu_directive o' C_zero s = handle_zero o' s"
| "run_cpu_directive o' (C_asize n) s = handle_asize n s"
| "run_cpu_directive o' (C_xsize n) s = handle_xsize n s"
| "run_cpu_directive o' C_longa s = handle_long handle_asize s"
| "run_cpu_directive o' C_longi s = handle_long handle_xsize s"

definition parse_cpu_special :: "frontconf \<Rightarrow> string \<Rightarrow> string fstep" where
  "parse_cpu_special o' start = bind_st get (\<lambda>f.
     let name = (if dotdirs (syn o') \<and> ch start 0 = CHR ''.'' then drop 1 start else start);
         e = dropWhile (isidchar (exprs (syn o'))) (drop 1 name)
     in if \<not> isidstart (ch name 0) then return start
        else case snd (find_namelen_nc cpudirhash name (length name - length e)) of
          None \<Rightarrow> return start
        | Some i \<Rightarrow>
            (case cpudirs ! i of (_, avail, d) \<Rightarrow>
               if cpu_type (cpu (front_prog f)) AND avail \<noteq> 0 then
                 bind_st (run_cpu_directive o' d (skip e)) (\<lambda>s. bind_st (check_eol o' s) (\<lambda>_. return []))
               else return start))"

text \<open>A label on the zero page (\<open>ezp\<close>).\<close>

definition parse_cpu_label :: "frontconf \<Rightarrow> string \<Rightarrow> string \<Rightarrow> bool fstep" where
  "parse_cpu_label o' labname start =
     (let e = dropWhile (isidchar (exprs (syn o'))) (drop 1 start);
          dir = (if dotdirs (syn o') \<and> ch start 0 = CHR ''.'' then drop 1 start else start)
      in if isidstart (ch start 0) \<and> length dir - length e = 3 \<and> strnicmp_eq dir ''ezp'' 3 then
           bind_st (read_with parse_expr_tmplab o' (skip e)) (\<lambda>(x, s).
           bind_st (on_core (bind_st (new_equate labname x) (\<lambda>y. upd_symbol y (set_flag ZPAGESYM)))) (\<lambda>_.
           bind_st (check_eol o' s) (\<lambda>_. return True)))
         else return False)"

section \<open>Statements\<close>

text \<open>While a conditional block is skipped only conditional directives are looked at.\<close>

definition skipped_line :: "frontconf \<Rightarrow> string \<Rightarrow> unit fstep" where
  "skipped_line o' line = bind_st get (\<lambda>f.
     case label_field (syn_now o' f) (anon_no f) (front_prog f) False line of (_, _, s, _) \<Rightarrow>
       case check_directive o' s of
         None \<Rightarrow> return ()
       | Some (i, _) \<Rightarrow>
           (case directives ! i of (name, d) \<Rightarrow>
              if take 2 name = ''if'' then on_cond (\<lambda>c. Inr (cond_skipif c))
              else if d = D_else then on_cond (\<lambda>c. Inr (cond_else c))
              else if d = D_endif then on_cond (\<lambda>c. Inr (cond_endif c))
              else return ()))"

text \<open>The operands of an instruction, up to three of them.\<close>

fun operands :: "nat \<Rightarrow> frontconf \<Rightarrow> string \<Rightarrow> (string \<times> nat) list \<Rightarrow> nat list \<times> (string \<times> nat) list \<times> string" where
  "operands 0 o' s ops = ([], ops, s)"
| "operands (Suc k) o' s ops =
     (if ISEOL (syn o') s \<or> 3 \<le> length ops then ([], ops, s)
      else case skip_operand (syn o') s of (es, r) \<Rightarrow>
        let len = oplen r s; es = es @ (if len = 0 then [1005] else []); ops = (if len = 0 then ops else ops @ [(s, len)])
        in if igntrail (exprs (syn o')) then
             (if ch r 0 = CHR '','' then (case operands k o' (drop 1 r) ops of (es', x) \<Rightarrow> (es @ es', x)) else (es, ops, r))
           else
             let r = skip r
             in if ch r 0 = CHR '','' then (case operands k o' (skip (drop 1 r)) ops of (es', x) \<Rightarrow> (es @ es', x)) else (es, ops, r))"

definition parse_instruction_line :: "frontconf \<Rightarrow> string \<Rightarrow> unit fstep" where
  "parse_instruction_line o' inst =
     (if \<not> isidstart (ch inst 0) then message 1010
      else
        let e = dropWhile (\<lambda>c. \<not> isspace c) inst; inst_len = length inst - length e; s = skip e
        in bind_st (execute_macro o' inst inst_len s) (\<lambda>done. if done then return () else
           bind_st (execute_struct o' inst inst_len s) (\<lambda>done. if done then return () else
           case operands (length s + 1) o' s [] of (es, ops, r) \<Rightarrow>
             bind_st (report es) (\<lambda>_.
             bind_st (check_eol o' r) (\<lambda>_. bind_st get (\<lambda>f.
             bind_st (on_par (new_inst (syn_now o' f) (take inst_len inst) ops)) (\<lambda>ip.
             case ip of
               None \<Rightarrow> return ()
             | Some ip \<Rightarrow>
                 bind_st (if \<not> igntrail (exprs (syn o')) \<and> inst_ops ip = [] \<and> ops \<noteq> [] then message 1006 else return ()) (\<lambda>_.
                 append_atom (new_inst_atom 1 ip)))))))))"

text \<open>What follows the label field. A directive of the cpu uses up the line.\<close>

definition parse_statement :: "frontconf \<Rightarrow> string \<Rightarrow> unit fstep" where
  "parse_statement o' s =
     (if ISEOL (syn o') s then return ()
      else
        bind_st (parse_cpu_special o' s) (\<lambda>s.
        if ISEOL (syn o') s then return ()
        else if ch s 0 = current_pc_char (exprs (syn o')) \<and> ch s 1 = CHR ''='' then handle_org o' (skip (drop 2 s))
        else bind_st (handle_directive o' s) (\<lambda>done.
          if done then return ()
          else let s = skip s in if ISEOL (syn o') s then return () else parse_instruction_line o' s)))"

text \<open>Whether the text behind a label begins the definition of a macro, and its parameters.\<close>

definition macro_word :: "frontconf \<Rightarrow> string \<Rightarrow> string option" where
  "macro_word o' s =
     (let w = (\<lambda>n. strnicmp_eq s (dotted o' ''macro'') n \<and> (ch s n = CHR 0x00 \<or> isspace (ch s n)));
          d = (if dotdirs (syn o') then 1 else 0)
      in if w (3 + d) \<or> w (5 + d) then Some (skip (drop (if tolower_c (ch s (3 + d)) = CHR ''r'' then 5 + d else 3 + d) s)) else None)"

text \<open>
  The label field of a line, with the text that is left for the statement; \<open>None\<close> is a line that
  is finished. \<open>label\<close> in the result of the branches is the symbol that \<open>-autoexp\<close> exports; the code
  does not set it on every path.
\<close>

definition define_label :: "frontconf \<Rightarrow> string \<Rightarrow> string \<Rightarrow> asn \<Rightarrow> string \<Rightarrow> (symid option \<times> string) option fstep" where
  "define_label o' line labname a s =
     (if a \<noteq> ASN_NONE then
        (let s = skip (drop (asn_len a) (if dotdirs (syn o') \<and> a \<noteq> ASN_EQ1 then drop 1 s else s));
             pc = ch labname 0 = current_pc_char (exprs (syn o'))
         in if a \<noteq> ASN_SET then
              (if pc then bind_st (handle_org o' s) (\<lambda>_. return None)
               else bind_st (read_with parse_expr_tmplab o' s) (\<lambda>(e, s). bind_st (on_core (new_equate labname e)) (\<lambda>y. return (Some (Some y, s)))))
            else if pc then bind_st (message 1010) (\<lambda>_. return (Some (None, s)))
            else bind_st (read_with parse_expr_tmplab o' s) (\<lambda>(e, s). bind_st (on_core (new_abs labname e)) (\<lambda>y. return (Some (Some y, s)))))
      else case macro_word o' s of
        Some params \<Rightarrow>
          (case name_at o' line of
             None \<Rightarrow> fail Ierror
           | Some (name, _) \<Rightarrow>
               bind_st (new_macro o' dirhash name (endm_dirs o') (if ISEOL (syn o') params then None else Some params)) (\<lambda>_. return None))
      | None \<Rightarrow>
          bind_st (parse_cpu_label o' labname s) (\<lambda>done.
          if done then return (Some (None, []))
          else
            bind_st (on_core (new_labsym (is_mnemonic (exprs (syn o'))) (is_directive (exprs (syn o'))) None labname)) (\<lambda>y.
            bind_st (append_atom (new_label_atom y)) (\<lambda>_. return (Some (Some y, s))))))"

definition parse_source_line :: "frontconf \<Rightarrow> string \<Rightarrow> unit fstep" where
  "parse_source_line o' line = bind_st get (\<lambda>f.
     if parse_end f \<or> astcomment o' \<and> ch line 0 = CHR ''*'' then return ()
     else if \<not> cond_state (conds f) then skipped_line o' line
     else case label_field (syn_now o' f) (anon_no f) (front_prog f) True line of (labname, a, s, anon) \<Rightarrow>
       bind_st (modify (\<lambda>f. f\<lparr>anon_no := anon\<rparr>)) (\<lambda>_.
       case labname of
         None \<Rightarrow> parse_statement o' s
       | Some name \<Rightarrow>
           bind_st (define_label o' line name a s) (\<lambda>r.
           case r of
             None \<Rightarrow> return ()
           | Some (y, s) \<Rightarrow>
               bind_st
                 (if autoexport o' \<and> \<not> is_local_symbol_name name then
                    (case y of None \<Rightarrow> fail Undefined | Some y \<Rightarrow> on_core (upd_symbol y (set_flag EXPORT)))
                  else return ()) (\<lambda>_.
               parse_statement o' s))))"

text \<open>All lines. A program may repeat macros for a very long time; the number of lines is a parameter.\<close>

fun parse_lines_of :: "nat \<Rightarrow> frontconf \<Rightarrow> unit fstep" where
  "parse_lines_of 0 o' = fail Runaway"
| "parse_lines_of (Suc n) o' = bind_st (read_next_line o') (\<lambda>line.
     case line of None \<Rightarrow> return () | Some line \<Rightarrow> bind_st (parse_source_line o' line) (\<lambda>_. parse_lines_of n o'))"

definition parse :: "nat \<Rightarrow> frontconf \<Rightarrow> unit fstep" where
  "parse n o' =
     bind_st (parse_lines_of n o') (\<lambda>_.
     bind_st (on_cond (\<lambda>c. Inr (fst (cond_check c)))) (\<lambda>_. bind_st get (\<lambda>f.
     if dsect_active f then message 1015 else return ())))"

section \<open>From the main source to the end of the parser\<close>

text \<open>The order of \<open>main\<close>: the conditions and the internal symbols are set up when the source is open.\<close>

definition init_syntax :: "taddr option \<Rightarrow> unit fstep" where
  "init_syntax orgmode =
     bind_st (modify (\<lambda>f. f\<lparr>conds := cond_init (conds f)\<rparr>)) (\<lambda>_.
     bind_st (on_core (set_internal_abs REPTNSYM (- 1))) (\<lambda>_.
     case orgmode of
       None \<Rightarrow> return ()
     | Some a \<Rightarrow> on_core (bind_st (new_org a) (\<lambda>c. set_section (Some c)))))"

definition set_defaults :: "unit fstep" where
  "set_defaults = on_core (modify (\<lambda>p.
     if defsecttype p = None then p\<lparr>defsectname := Some ''.text'', defsecttype := Some ''acrx''\<rparr> else p))"

definition parse_main :: "frontconf \<Rightarrow> nat \<Rightarrow> taddr option \<Rightarrow> string \<Rightarrow> unit fstep" where
  "parse_main o' n orgmode inname =
     bind_st (include_source o' inname) (\<lambda>_.
     bind_st (on_core (internal_abs ''__VASM'')) (\<lambda>_.
     bind_st (init_syntax orgmode) (\<lambda>_.
     bind_st (set_cpu init_codes) (\<lambda>_.
     bind_st set_defaults (\<lambda>_. parse n o')))))"

end
