(* ===== verification/Resolve.thy ===== *)
theory Resolve
  imports Sections Errors Cpusize
begin

text \<open>
  The resolver of \<open>src/vasm.c\<close>: passes over the atoms of a section until no label moves and no
  atom changes its size, and the worklist of sections that depend on each other. A pass
  works on the list of atoms and returns the changed ones.
\<close>

section \<open>Errors so far\<close>

text \<open>A recorded message counts as an error by the flags of its table.\<close>

definition is_error :: "nat \<Rightarrow> bool" where
  "is_error n =
     (let (t, i) = (if n < 1000 then (general_err_out, n) else if n < 2000 then (syntax_err_out, n - 1000)
                    else if n < 3000 then (cpu_err_out, n - 2000) else (output_err_out, n - 3000))
      in i < length t \<and> has (t ! i) ERROR)"

definition no_errors :: "prog \<Rightarrow> bool" where
  "no_errors p \<longleftrightarrow> \<not> list_ex is_error (msgs (core p))"

section \<open>A pass over a section\<close>

definition FASTOPTPHASE :: nat where "FASTOPTPHASE = 200"

definition is_instruction :: "atom \<Rightarrow> bool" where
  "is_instruction a \<longleftrightarrow> (case content a of INSTRUCTION _ \<Rightarrow> True | _ \<Rightarrow> False)"

definition set_source :: "atom \<Rightarrow> (prog, unit) step" where
  "set_source a = modify (\<lambda>p. p\<lparr>source := map_option (\<lambda>k. (k, atom_line a)) (atom_src a)\<rparr>)"

text \<open>What an atom does before its size is asked for; the result is whether a label has moved.\<close>

definition enter_rorg :: "taddr \<Rightarrow> sect \<Rightarrow> sect" where
  "enter_rorg a x = set_sec_flag (ABSOLUTE OR IN_RORG) (x\<lparr>sec_saved_pc := sec_pc x, sec_pc := a, sec_rorg_pc := a\<rparr>)"

definition leave_rorg :: "sect \<Rightarrow> sect" where
  "leave_rorg x = clear_sec_flag (ABSOLUTE OR IN_RORG) (x\<lparr>sec_pc := sec_saved_pc x + (sec_pc x - sec_rorg_pc x)\<rparr>)"

definition resolve_content :: "secid \<Rightarrow> atom \<Rightarrow> (prog, bool) step" where
  "resolve_content c a =
     (case content a of
        OPTS v \<Rightarrow> bind_st (modify (\<lambda>p. p\<lparr>cpu := cpu_opts v (cpu p)\<rparr>)) (\<lambda>_. return False)
      | RORG r \<Rightarrow> bind_st get (\<lambda>p.
          bind_st (if sec_has (psec p c) IN_RORG then fail (Fatal_error 43) else return ()) (\<lambda>_.
          bind_st (upd_section c (enter_rorg r)) (\<lambda>_. return False)))
      | RORGEND \<Rightarrow> bind_st get (\<lambda>p.
          if sec_has (psec p c) IN_RORG then bind_st (upd_section c leave_rorg) (\<lambda>_. return False) else return False)
      | LABEL y \<Rightarrow> bind_st get (\<lambda>p.
          if sym_type (sym (core p) y) \<noteq> LABSYM then fail Ierror
          else if sym_pc (sym (core p) y) \<noteq> sec_pc (psec p c) then
            bind_st (modify (\<lambda>p. p\<lparr>core := upd_sym y (\<lambda>x. x\<lparr>sym_pc := sec_pc (psec p c)\<rparr>) (core p)\<rparr>)) (\<lambda>_. return True)
          else return False)
      | _ \<Rightarrow> return False)"

text \<open>The size, with the warning flag set for an atom that changed too often.\<close>

definition size_warned :: "atom \<Rightarrow> secid \<Rightarrow> (prog, atom \<times> nat) step" where
  "size_warned a c = bind_st get (\<lambda>p.
     if MAXSIZECHANGES < changes a then
       bind_st (upd_section c (set_sec_flag RESOLVE_WARN)) (\<lambda>_.
       bind_st (lift (atom_size (cpu p) a c (sec_pc (psec p c)))) (\<lambda>r.
       bind_st (upd_section c (clear_sec_flag RESOLVE_WARN)) (\<lambda>_. return r)))
     else lift (atom_size (cpu p) a c (sec_pc (psec p c))))"

definition advance :: "secid \<Rightarrow> nat \<Rightarrow> (prog, unit) step" where
  "advance c n = upd_section c (\<lambda>x. x\<lparr>sec_pc := sec_pc x + of_nat n\<rparr>)"

text \<open>The size of an atom against its last one; \<open>safe\<close> is the phase after the fast one.\<close>

definition note_size :: "bool \<Rightarrow> atom \<times> nat \<Rightarrow> bool \<Rightarrow> bool \<Rightarrow> atom \<times> bool \<times> bool" where
  "note_size safe r done extra =
     (case r of (a, n) \<Rightarrow>
        if n \<noteq> lastsize a then
          (if safe then a\<lparr>changes := changes a + 1, lastsize := n\<rparr> else a\<lparr>lastsize := n\<rparr>,
           False, if \<not> safe \<and> lastsize a < n then False else extra)
        else (a, done, extra))"

definition resolve_atom :: "bool \<Rightarrow> secid \<Rightarrow> atom \<Rightarrow> bool \<times> bool \<Rightarrow> (prog, atom \<times> bool \<times> bool) step" where
  "resolve_atom safe c a f =
     (case f of (done, extra) \<Rightarrow>
     bind_st (upd_section c (\<lambda>x. x\<lparr>sec_pc := pcalign a (sec_pc x)\<rparr>)) (\<lambda>_.
     bind_st (set_source a) (\<lambda>_.
     bind_st (resolve_content c a) (\<lambda>moved.
       let done = done \<and> \<not> moved
       in if safe \<and> \<not> done \<and> is_instruction a then
            bind_st (advance c (lastsize a)) (\<lambda>_. return (a, done, extra))
          else
            bind_st (size_warned a c) (\<lambda>r.
            bind_st (advance c (snd r)) (\<lambda>_. return (note_size safe r done extra)))))))"

fun resolve_atoms :: "bool \<Rightarrow> secid \<Rightarrow> atom list \<Rightarrow> bool \<times> bool \<Rightarrow> (prog, atom list \<times> bool \<times> bool) step" where
  "resolve_atoms safe c [] f = return ([], f)"
| "resolve_atoms safe c (a # as) f =
     bind_st (resolve_atom safe c a f) (\<lambda>(a, f).
     bind_st (resolve_atoms safe c as f) (\<lambda>(as, f). return (a # as, f)))"

definition resolve_pass :: "bool \<Rightarrow> secid \<Rightarrow> (prog, bool \<times> bool) step" where
  "resolve_pass safe c =
     bind_st (upd_section c (\<lambda>x. x\<lparr>sec_pc := sec_org x\<rparr>)) (\<lambda>_. bind_st get (\<lambda>p.
     bind_st (resolve_atoms safe c (atoms p c) (True, \<not> safe)) (\<lambda>(as, f).
     bind_st (put_atoms c as) (\<lambda>_. bind_st get (\<lambda>p.
     bind_st (if sec_has (psec p c) IN_RORG then upd_section c leave_rorg else return ()) (\<lambda>_. return f))))))"

section \<open>Resolving a section\<close>

text \<open>The loop of the passes; \<open>left\<close> is what is left of \<open>maxpasses\<close>. The result is the number of passes.\<close>

fun resolve_loop :: "nat \<Rightarrow> nat \<Rightarrow> nat \<Rightarrow> secid \<Rightarrow> (prog, nat) step" where
  "resolve_loop 0 pass fastphase c = fail (Fatal_error 7)"
| "resolve_loop (Suc left) pass fastphase c =
     bind_st (resolve_pass (fastphase < pass) c) (\<lambda>(done, extra). bind_st get (\<lambda>p.
       if no_errors p \<and> \<not> done then resolve_loop left (pass + 1) (if extra then fastphase + 1 else fastphase) c
       else return pass))"

definition resolve_section :: "nat \<Rightarrow> secid \<Rightarrow> (prog, nat) step" where
  "resolve_section maxpasses c = resolve_loop (maxpasses - 1) 1 FASTOPTPHASE c"

section \<open>All sections\<close>

text \<open>
  The sections to resolve are a set of indices. The worklist need not get empty, so the rounds
  are bounded: the model ends with \<open>Runaway\<close> where the code would go on for more rounds.
\<close>

definition MAXPASSES :: nat where "MAXPASSES = 1500"

fun resolve_round :: "nat \<Rightarrow> secid list \<Rightarrow> bool \<Rightarrow> (nat \<Rightarrow> bool) \<Rightarrow> (prog, bool \<times> (nat \<Rightarrow> bool)) step" where
  "resolve_round maxpasses [] finished todo = return (finished, todo)"
| "resolve_round maxpasses (c # cs) finished todo = bind_st get (\<lambda>p.
     let i = sec_idx (psec p c)
     in if todo i then
          bind_st (resolve_section maxpasses c) (\<lambda>passes. bind_st get (\<lambda>p.
            resolve_round maxpasses cs False
              (let todo = todo(i := False)
               in if 1 < passes then (\<lambda>j. todo j \<or> j \<in> set (sec_deps (psec p c))) else todo)))
        else resolve_round maxpasses cs finished todo)"

fun resolve_rounds :: "nat \<Rightarrow> nat \<Rightarrow> (nat \<Rightarrow> bool) \<Rightarrow> (prog, unit) step" where
  "resolve_rounds 0 maxpasses todo = fail Runaway"
| "resolve_rounds (Suc rounds) maxpasses todo = bind_st get (\<lambda>p.
     bind_st (resolve_round maxpasses (order p) True todo) (\<lambda>(finished, todo).
       if finished then return () else resolve_rounds rounds maxpasses todo))"

definition resolve :: "nat \<Rightarrow> nat \<Rightarrow> (prog, unit) step" where
  "resolve rounds maxpasses =
     bind_st (modify (\<lambda>p. p\<lparr>core := (core p)\<lparr>final_pass := False\<rparr>\<rparr>)) (\<lambda>_.
       resolve_rounds rounds maxpasses (\<lambda>_. True))"

section \<open>What a pass keeps\<close>

context action_frame
begin

text \<open>Before the final pass a size only evaluates.\<close>

lemma keeps_atom_size:
  assumes "\<And>s. I s \<Longrightarrow> \<not> final_pass s" and "c = Some k"
  shows "keeps (atom_size cf a k pc)"
proof -
  have space: "keeps (space_size sb c pc)" for sb
    unfolding space_size_def
  proof (rule keeps_bind [OF keeps_eval(1)], rule keeps_prod, rule keeps_get)
    fix space cnst s assume "I s"
    then have "\<not> final_pass s" by (rule assms(1))
    then show "keeps (bind_st (if cnst \<or> \<not> final_pass s then return (sb\<lparr>sb_space := unat space\<rparr>)
        else bind_st (modify (general_error 30)) (\<lambda>_. return sb)) (\<lambda>sb.
      bind_st (case fill_exp sb of
          Some fe \<Rightarrow> if final_pass s then space_fill sb (unat space) fe c pc else return sb | None \<Rightarrow> return sb)
        (\<lambda>sb. return (sb, sb_size sb * unat space))))"
      by (intro keeps_bind keeps_if keeps_option keeps_basic keeps_error) simp_all
  qed
  have roffs: "keeps (roffs_size r k pc)" for r
    unfolding roffs_size_def assms(2) [symmetric] by (intro keeps_rules) (simp add: Let_def keeps_basic)
  show ?thesis
    unfolding atom_size_def assms(2) [symmetric]
    by (cases "content a") (simp_all, (intro keeps_bind keeps_prod keeps_instruction_size space roffs keeps_basic)+)
qed

end

text \<open>The same for the frame, while no pass is the final one.\<close>

definition ready :: "asm \<Rightarrow> bool" where
  "ready s \<longleftrightarrow> cpc_ok s \<and> \<not> final_pass s"

interpretation rdy: action_frame c pc ready frame
proof
  show "frame s s' \<Longrightarrow> ready s \<Longrightarrow> ready s'" for s s'
    using frame_cpc_ok by (auto simp: ready_def frame_def)
qed (auto simp: ready_def intro: fr.F_trans fr.F_log fr.F_curpc fr.F_deps fr.F_ineval cpc_ok_set frv.F_error)

lemma atom_size_frame: "ready s \<Longrightarrow> atom_size cf a c pc s = Inr (s', r) \<Longrightarrow> frame s s'"
  using rdy.keepsD [OF rdy.keeps_atom_size [of "Some c" c]] by (simp add: ready_def)

end
