(* ===== verification/Layout.thy ===== *)
theory Layout
  imports Resolve
begin

text \<open>
  What the resolver establishes: the layout of a section as a function of its atoms and
  their sizes, and the agreement of the labels with it after the last pass.
\<close>

section \<open>The layout\<close>

text \<open>The program counter, and those to return to from a relocated origin.\<close>

record lay =
  l_pc :: taddr
  l_saved :: taddr
  l_rorg :: taddr
  l_in :: bool

definition lay_of :: "sect \<Rightarrow> lay" where
  "lay_of x = \<lparr>l_pc = sec_pc x, l_saved = sec_saved_pc x, l_rorg = sec_rorg_pc x, l_in = sec_has x IN_RORG\<rparr>"

definition lay_end :: "lay \<Rightarrow> lay" where
  "lay_end l = (if l_in l then l\<lparr>l_pc := l_saved l + (l_pc l - l_rorg l), l_in := False\<rparr> else l)"

text \<open>The address of an atom: the aligned program counter, where a label stands.\<close>

definition addr :: "atom \<Rightarrow> lay \<Rightarrow> taddr" where
  "addr a l = pcalign a (l_pc l)"

definition lay_content :: "content \<Rightarrow> lay \<Rightarrow> lay" where
  "lay_content t l = (case t of
      RORG r \<Rightarrow> l\<lparr>l_saved := l_pc l, l_pc := r, l_rorg := r, l_in := True\<rparr>
    | RORGEND \<Rightarrow> lay_end l
    | _ \<Rightarrow> l)"

definition lay_enter :: "atom \<Rightarrow> lay \<Rightarrow> lay" where
  "lay_enter a l = lay_content (content a) (l\<lparr>l_pc := addr a l\<rparr>)"

definition lay_step :: "atom \<Rightarrow> lay \<Rightarrow> lay" where
  "lay_step a l = (let l = lay_enter a l in l\<lparr>l_pc := l_pc l + of_nat (lastsize a)\<rparr>)"

fun addrs :: "atom list \<Rightarrow> lay \<Rightarrow> taddr list" where
  "addrs [] l = []"
| "addrs (a # as) l = addr a l # addrs as (lay_step a l)"

definition lay_all :: "atom list \<Rightarrow> lay \<Rightarrow> lay" where
  "lay_all as l = lay_end (fold lay_step as l)"

definition lay_start :: "taddr \<Rightarrow> lay" where
  "lay_start org = \<lparr>l_pc = org, l_saved = 0, l_rorg = 0, l_in = False\<rparr>"

section \<open>Steps of a pass\<close>

text \<open>What every step of a pass keeps of the program.\<close>

definition same_shape :: "prog \<Rightarrow> prog \<Rightarrow> bool" where
  "same_shape p p' \<longleftrightarrow> cpc (core p') = cpc (core p) \<and> final_pass (core p') = final_pass (core p)
     \<and> map sym_type (syms (core p')) = map sym_type (syms (core p)) \<and> length (secs (core p')) = length (secs (core p))
     \<and> map sec_org (secs (core p')) = map sec_org (secs (core p)) \<and> atoms p' = atoms p \<and> order p' = order p"

lemma same_shape_refl [simp]: "same_shape p p"
  by (simp add: same_shape_def)

lemma same_shape_trans: "same_shape p p' \<Longrightarrow> same_shape p' p'' \<Longrightarrow> same_shape p p''"
  by (simp add: same_shape_def)

lemma same_shape_ready:
  assumes "same_shape p p'" and "ready (core p)"
  shows "ready (core p')"
proof -
  have m: "map sym_type (syms (core p')) = map sym_type (syms (core p))" using assms(1) by (simp add: same_shape_def)
  then have "length (syms (core p')) = length (syms (core p))" by (metis length_map)
  moreover have "sym_type (sym (core p') y) = sym_type (sym (core p) y)" for y by (rule nth_map_eq [OF m])
  ultimately show ?thesis using assms by (simp add: same_shape_def ready_def cpc_ok_def)
qed

text \<open>A step keeps the shape, and the places of labels and the layout of a section as told.\<close>

definition places :: "prog \<Rightarrow> symid \<Rightarrow> taddr" where
  "places p y = sym_pc (sym (core p) y)"

definition stands :: "prog \<Rightarrow> prog \<Rightarrow> bool" where
  "stands p p' \<longleftrightarrow> (\<forall>y < length (syms (core p)). cpc (core p) \<noteq> Some y \<longrightarrow> places p' y = places p y)"

lemma frame_shape:
  assumes "frame (core p) s'"
  shows "same_shape p (p\<lparr>core := s'\<rparr>)" and "stands p (p\<lparr>core := s'\<rparr>)" and "lay_of (sec s' c) = lay_of (sec (core p) c)"
proof -
  have len: "length (syms s') = length (syms (core p))" and c: "cpc s' = cpc (core p)" "final_pass s' = final_pass (core p)"
    and y: "\<And>y. y < length (syms (core p)) \<Longrightarrow> (cpc (core p) \<noteq> Some y \<longrightarrow> sym s' y = sym (core p) y)
      \<and> unplaced (sym s' y) = unplaced (sym (core p) y)"
    and d: "map nodeps (secs s') = map nodeps (secs (core p))"
    using assms by (auto simp: frame_def)
  have t: "sym_type x = sym_type (unplaced x)" for x by (simp add: unplaced_def)
  have "map sym_type (syms s') = map sym_type (syms (core p))"
    by (rule nth_equalityI) (use len y t in \<open>auto, metis\<close>)
  moreover have "map sec_org (map nodeps (secs s')) = map sec_org (map nodeps (secs (core p)))" by (simp add: d)
  then have "map sec_org (secs s') = map sec_org (secs (core p))" by (simp add: nodeps_def comp_def)
  moreover have "length (secs s') = length (secs (core p))" using d by (metis length_map)
  ultimately show "same_shape p (p\<lparr>core := s'\<rparr>)" using c by (simp add: same_shape_def)
  show "stands p (p\<lparr>core := s'\<rparr>)" using y by (simp add: stands_def places_def)
  have n: "nodeps (sec s' c) = nodeps (sec (core p) c)" by (rule nth_map_eq [OF d])
  have l: "lay_of x = lay_of (nodeps x)" for x by (simp add: lay_of_def nodeps_def sec_has_def)
  show "lay_of (sec s' c) = lay_of (sec (core p) c)" using n l by metis
qed

lemma stands_trans: "stands p p' \<Longrightarrow> stands p' p'' \<Longrightarrow> same_shape p p' \<Longrightarrow> stands p p''"
  by (auto simp: stands_def same_shape_def dest: map_eq_imp_length_eq)

lemma upd_section_shape:
  assumes "upd_section c f p = Inr (p', u)" and "\<And>x. sec_org (f x) = sec_org x"
  shows "same_shape p p'" and "stands p p'"
    and "c < length (secs (core p)) \<Longrightarrow> psec p' c = f (psec p c)"
  using assms by (auto simp: upd_section_def modify_Inr same_shape_def stands_def places_def map_upd_same)

text \<open>A part of a pass: the shape is kept, and the layout of the section changes by a function.\<close>

definition lays :: "secid \<Rightarrow> (lay \<Rightarrow> lay) \<Rightarrow> prog \<Rightarrow> prog \<Rightarrow> bool" where
  "lays c f p p' \<longleftrightarrow> same_shape p p' \<and> stands p p' \<and> lay_of (psec p' c) = f (lay_of (psec p c))"

lemma lays_refl [simp]: "lays c (\<lambda>l. l) p p"
  by (simp add: lays_def stands_def)

lemma lays_trans: "lays c f p p' \<Longrightarrow> lays c g p' p'' \<Longrightarrow> lays c (\<lambda>l. g (f l)) p p''"
  unfolding lays_def using same_shape_trans stands_trans by metis

lemma lays_upd:
  assumes "upd_section c f p = Inr (p', u)" and "c < length (secs (core p))"
    and "\<And>x. sec_org (f x) = sec_org x" and "\<And>x. lay_of (f x) = g (lay_of x)"
  shows "lays c g p p'"
  using upd_section_shape [OF assms(1,3)] assms(2,4) by (simp add: lays_def)

lemma lays_source: "set_source a p = Inr (p', u) \<Longrightarrow> lays c (\<lambda>l. l) p p'"
  by (auto simp: set_source_def modify_Inr lays_def same_shape_def stands_def places_def)

lemma sec_has_IN_RORG: "sec_has x IN_RORG \<longleftrightarrow> bit (sec_flags x) 6"
  using and_exp_eq_0_iff_not_bit [of "sec_flags x" 6] by (simp add: sec_has_def IN_RORG_def)

lemma flag_bits:
  "bit IN_RORG 6" "\<not> bit (NOT IN_RORG) 6" "\<not> bit RESOLVE_WARN 6" "bit (NOT RESOLVE_WARN) 6"
  by code_simp+

lemma in_rorg_flags:
  "lay_of (enter_rorg r x) = (lay_of x)\<lparr>l_saved := sec_pc x, l_pc := r, l_rorg := r, l_in := True\<rparr>"
  "sec_has x IN_RORG \<Longrightarrow> lay_of (leave_rorg x) = lay_end (lay_of x)"
  "lay_of (set_sec_flag RESOLVE_WARN x) = lay_of x" "lay_of (clear_sec_flag RESOLVE_WARN x) = lay_of x"
  by (simp_all add: lay_of_def lay_end_def enter_rorg_def leave_rorg_def sec_has_IN_RORG set_sec_flag_def clear_sec_flag_def
      bit_or_iff bit_and_iff flag_bits del: word_not_simps)

lemma resolve_content_shape:
  assumes "resolve_content c a p = Inr (p', moved)"
  shows "same_shape p p'"
proof -
  have u: "upd_section c f p = Inr (p', u) \<Longrightarrow> (\<And>x. sec_org (f x) = sec_org x) \<Longrightarrow> same_shape p p'" for f u
    by (rule upd_section_shape(1))
  show ?thesis
  proof (cases "content a")
    case (LABEL y)
    have "map sym_type (syms (upd_sym y (\<lambda>x. x\<lparr>sym_pc := v\<rparr>) (core p))) = map sym_type (syms (core p))" for v
      by (simp add: map_upd_same)
    then show ?thesis using assms LABEL
      by (auto simp: resolve_content_def action_Inr same_shape_def split: if_splits)
  next
    case (RORG r)
    then show ?thesis using assms u [of "enter_rorg r" "()"]
      by (auto simp: resolve_content_def bind_st_Inr return_Inr get_Inr enter_rorg_def set_sec_flag_def split: if_splits)
  next
    case RORGEND
    then show ?thesis using assms u [of leave_rorg "()"]
      by (auto simp: resolve_content_def bind_st_Inr return_Inr get_Inr leave_rorg_def clear_sec_flag_def split: if_splits)
  qed (use assms in \<open>auto simp: resolve_content_def action_Inr same_shape_def\<close>)
qed

lemma resolve_content_calm:
  assumes "resolve_content c a p = Inr (p', False)" and "c < length (secs (core p))"
  shows "lays c (lay_content (content a)) p p'"
    and "content a = LABEL y \<Longrightarrow> places p y = sec_pc (psec p c)"
proof -
  have o: "\<And>x. sec_org (enter_rorg r x) = sec_org x" "\<And>x. sec_org (leave_rorg x) = sec_org x" for r
    by (simp_all add: enter_rorg_def leave_rorg_def set_sec_flag_def clear_sec_flag_def)
  have n: "(\<lambda>l. lay_content t l) = (\<lambda>l. l)" if "\<And>r. t \<noteq> RORG r" "t \<noteq> RORGEND" for t
    using that by (cases t) (auto simp: lay_content_def)
  show "lays c (lay_content (content a)) p p'"
  proof (cases "content a")
    case (LABEL y)
    then show ?thesis using assms(1) n by (auto simp: resolve_content_def action_Inr split: if_splits)
  next
    case (OPTS v)
    then have "p' = p\<lparr>cpu := cpu_opts v (cpu p)\<rparr>" using assms(1) by (simp add: resolve_content_def action_Inr)
    then show ?thesis using OPTS n by (simp add: lays_def same_shape_def stands_def places_def)
  next
    case (RORG r)
    have l: "lay_of (enter_rorg r x) = lay_content (RORG r) (lay_of x)" for x
      unfolding in_rorg_flags lay_content_def by (simp add: lay_of_def)
    from RORG assms(1) obtain u where "upd_section c (enter_rorg r) p = Inr (p', u)"
      by (auto simp: resolve_content_def bind_st_Inr return_Inr get_Inr split: if_splits)
    from lays_upd [OF this assms(2) o(1) l] RORG show ?thesis by simp
  next
    case RORGEND
    show ?thesis
    proof (cases "sec_has (psec p c) IN_RORG")
      case True
      then obtain u where u: "upd_section c leave_rorg p = Inr (p', u)"
        using assms(1) RORGEND by (auto simp: resolve_content_def bind_st_Inr return_Inr get_Inr)
      show ?thesis
        using upd_section_shape [OF u o(2)] assms(2) in_rorg_flags(2) [OF True] RORGEND
        by (simp add: lays_def lay_content_def)
    next
      case False
      then have "p' = p" using assms(1) RORGEND by (auto simp: resolve_content_def action_Inr)
      then show ?thesis using False RORGEND
        by (simp add: lays_def stands_def lay_content_def lay_end_def lay_of_def)
    qed
  qed (use assms(1) n in \<open>auto simp: resolve_content_def action_Inr\<close>)
  show "content a = LABEL y \<Longrightarrow> places p y = sec_pc (psec p c)"
    using assms(1) by (auto simp: resolve_content_def action_Inr places_def split: if_splits)
qed


text \<open>The size of an atom, with the frame of the evaluation lifted to the program.\<close>

lemma lift_size_lays:
  assumes "lift (atom_size cf a c pc) p = Inr (p', r)" and "ready (core p)"
  shows "lays c (\<lambda>l. l) p p'"
proof -
  obtain s' where e: "atom_size cf a c pc (core p) = Inr (s', r)" and p': "p' = p\<lparr>core := s'\<rparr>"
    using assms(1) by (auto simp: lift_def split: sum.splits)
  show ?thesis using frame_shape [OF atom_size_frame [OF assms(2) e]] by (simp add: lays_def p')
qed

lemma size_warned_lays:
  assumes "size_warned a c p = Inr (p', r)" and "ready (core p)" and "c < length (secs (core p))"
  shows "lays c (\<lambda>l. l) p p'"
proof (cases "MAXSIZECHANGES < changes a")
  case False
  then show ?thesis using assms lift_size_lays by (auto simp: size_warned_def bind_st_Inr get_Inr)
next
  case True
  have o: "sec_org (set_sec_flag f x) = sec_org x" "sec_org (clear_sec_flag f x) = sec_org x" for f x
    by (simp_all add: set_sec_flag_def clear_sec_flag_def)
  obtain p1 u1 p2 u2 where 1: "upd_section c (set_sec_flag RESOLVE_WARN) p = Inr (p1, u1)"
    "lift (atom_size (cpu p) a c (sec_pc (psec p c))) p1 = Inr (p2, r)"
    "upd_section c (clear_sec_flag RESOLVE_WARN) p2 = Inr (p', u2)"
    using assms(1) True by (auto simp: size_warned_def bind_st_Inr get_Inr return_Inr)
  have l1: "lays c (\<lambda>l. l) p p1" by (rule lays_upd [OF 1(1) assms(3) o(1) in_rorg_flags(3)])
  then have r1: "ready (core p1)" "c < length (secs (core p1))"
    using same_shape_ready assms(2,3) by (auto simp: lays_def same_shape_def)
  have l2: "lays c (\<lambda>l. l) p1 p2" by (rule lift_size_lays [OF 1(2) r1(1)])
  then have "c < length (secs (core p2))" using r1(2) by (simp add: lays_def same_shape_def)
  then have "lays c (\<lambda>l. l) p2 p'" by (rule lays_upd [OF 1(3) _ o(2) in_rorg_flags(4)])
  then show ?thesis using lays_trans [OF lays_trans [OF l1 l2]] by simp
qed

lemma advance_lays:
  assumes "advance c n p = Inr (p', u)" and "c < length (secs (core p))"
  shows "lays c (\<lambda>l. l\<lparr>l_pc := l_pc l + of_nat n\<rparr>) p p'"
  by (rule lays_upd [OF assms(1) [unfolded advance_def] assms(2)]) (simp_all add: lay_of_def sec_has_def)

lemma align_lays:
  assumes "upd_section c (\<lambda>x. x\<lparr>sec_pc := pcalign a (sec_pc x)\<rparr>) p = Inr (p', u)" and "c < length (secs (core p))"
  shows "lays c (\<lambda>l. l\<lparr>l_pc := addr a l\<rparr>) p p'"
  by (rule lays_upd [OF assms]) (simp_all add: lay_of_def sec_has_def addr_def)


section \<open>Atoms in a pass\<close>

text \<open>A size may change what a space has noted about itself, but not where it is placed.\<close>

definition placed_alike :: "atom \<Rightarrow> atom \<Rightarrow> bool" where
  "placed_alike a a' \<longleftrightarrow> align a' = align a \<and>
     (content a' = content a \<or>
      (\<exists>sb sb'. content a = SPACE sb \<and> content a' = SPACE sb' \<and> maxalignbytes sb' = maxalignbytes sb))"

lemma placed_alike_refl [simp]: "placed_alike a a"
  by (simp add: placed_alike_def)

lemma placed_alike_addr: "placed_alike a a' \<Longrightarrow> addr a' l = addr a l"
  by (auto simp: placed_alike_def addr_def pcalign_def)

lemma placed_alike_step: "placed_alike a a' \<Longrightarrow> lastsize a' = lastsize a \<Longrightarrow> lay_step a' l = lay_step a l"
  using placed_alike_addr [of a a' l]
  by (auto simp: placed_alike_def lay_step_def lay_enter_def lay_content_def)

lemma placed_alike_label: "placed_alike a a' \<Longrightarrow> content a' = LABEL y \<longleftrightarrow> content a = LABEL y"
  by (auto simp: placed_alike_def)

lemma space_fill_places: "gives (\<lambda>sb'. maxalignbytes sb' = maxalignbytes sb) (space_fill sb n fe c pc)"
proof -
  have "gives (\<lambda>sb'. maxalignbytes sb' = maxalignbytes sb)
     (case copy_cpu_taddr False (sb_fill sb) fill (sb_size sb) of
          Inl x \<Rightarrow> fail x
        | Inr pat \<Rightarrow>
            (let sb = sb\<lparr>sb_fill := pat\<rparr>
             in case base of
                  None \<Rightarrow> return sb
                | Some y \<Rightarrow>
                    if sb_relocs sb \<noteq> [] then return sb
                    else if sb_size sb \<noteq> 0 then
                      bind_st (fill_relocs n 0 sb y fill) (\<lambda>rl. return (sb\<lparr>sb_relocs := rl\<rparr>))
                    else
                      bind_st (add_extnreloc [] y 0 REL_NONE 0 0 0) (\<lambda>(rl, _).
                      bind_st (modify (upd_sym y (set_flag EXPORT))) (\<lambda>_. return (sb\<lparr>sb_relocs := rl\<rparr>)))))" for fill base
    by (cases "copy_cpu_taddr False (sb_fill sb) fill (sb_size sb)"; cases base)
      (auto simp: Let_def intro!: gives_fail gives_return gives_after gives_split)
  then show ?thesis
    unfolding space_fill_def by (intro gives_if gives_after gives_split gives_return) auto
qed

lemma space_size_places: "gives (\<lambda>r. maxalignbytes (fst r) = maxalignbytes sb) (space_size sb c pc)"
proof -
  have f: "gives (\<lambda>sb'. maxalignbytes sb' = maxalignbytes sb)
      (case fill_exp sb' of Some fe \<Rightarrow> if b then space_fill sb' n fe c pc else return sb' | None \<Rightarrow> return sb')"
    if "maxalignbytes sb' = maxalignbytes sb" for sb' b n
    using that space_fill_places [of sb' n] by (auto simp: gives_return split: option.split)
  show ?thesis
    unfolding space_size_def
    by (intro gives_after gives_split gives_bind [where Q = "\<lambda>sb'. maxalignbytes sb' = maxalignbytes sb"] gives_if
        gives_return f) auto
qed

lemma atom_size_places: "gives (\<lambda>r. placed_alike a (fst r) \<and> lastsize (fst r) = lastsize a) (atom_size cf a c pc)"
proof (cases "content a")
  case (SPACE sb)
  show ?thesis
    unfolding atom_size_def SPACE content.case
    by (rule gives_bind [OF space_size_places], rule gives_prod, rule gives_return) (simp add: placed_alike_def SPACE)
qed (auto simp: atom_size_def intro!: gives_return gives_after)

lemma size_warned_places: "gives (\<lambda>r. placed_alike a (fst r) \<and> lastsize (fst r) = lastsize a) (size_warned a c)"
proof -
  have "gives (\<lambda>r. placed_alike a (fst r) \<and> lastsize (fst r) = lastsize a) (lift (atom_size cf a c pc))" for cf pc
    using atom_size_places unfolding gives_def lift_def by (auto split: sum.splits)
  then show ?thesis
    unfolding size_warned_def
    by (intro gives_after gives_if gives_bind [of _ "lift _"] gives_return)
qed


text \<open>An atom of a pass: its place is kept, the shape too, and once something changed it stays changed.\<close>

lemma resolve_atom_shape:
  assumes "resolve_atom safe c a (dn, extra) p = Inr (p', a', dn', extra')"
    and r: "ready (core p)" and c: "c < length (secs (core p))"
  shows "same_shape p p'" and "placed_alike a a'" and "dn' \<Longrightarrow> dn"
    and "dn' \<Longrightarrow> lastsize a' = lastsize a \<and> lays c (lay_step a) p p'
      \<and> (\<forall>y. content a = LABEL y \<longrightarrow> places p y = addr a (lay_of (psec p c)) \<or> cpc (core p) = Some y \<or> length (syms (core p)) \<le> y)"
proof -
  obtain p1 u1 p2 u2 p3 moved where 1: "upd_section c (\<lambda>x. x\<lparr>sec_pc := pcalign a (sec_pc x)\<rparr>) p = Inr (p1, u1)"
    "set_source a p1 = Inr (p2, u2)" "resolve_content c a p2 = Inr (p3, moved)"
    and rest: "(if safe \<and> \<not> (dn \<and> \<not> moved) \<and> is_instruction a then
            bind_st (advance c (lastsize a)) (\<lambda>_. return (a, dn \<and> \<not> moved, extra))
          else
            bind_st (size_warned a c) (\<lambda>r.
            bind_st (advance c (snd r)) (\<lambda>_. return (note_size safe r (dn \<and> \<not> moved) extra)))) p3
       = Inr (p', a', dn', extra')"
    using assms(1) by (auto simp: resolve_atom_def bind_st_Inr Let_def)
  have l1: "lays c (\<lambda>l. l\<lparr>l_pc := addr a l\<rparr>) p p1" by (rule align_lays [OF 1(1) c])
  have l2: "lays c (\<lambda>l. l) p1 p2" by (rule lays_source [OF 1(2)])
  have l12: "lays c (\<lambda>l. l\<lparr>l_pc := addr a l\<rparr>) p p2" using lays_trans [OF l1 l2] .
  then have s2: "same_shape p p2" by (simp add: lays_def)
  then have c2: "c < length (secs (core p2))" using c by (simp add: same_shape_def)
  have s3: "same_shape p p3" using s2 resolve_content_shape [OF 1(3)] same_shape_trans by blast
  then have r3: "ready (core p3)" and c3: "c < length (secs (core p3))"
    using same_shape_ready [OF s3 r] c by (simp_all add: same_shape_def)
  have adv: "lays c (\<lambda>l. l\<lparr>l_pc := l_pc l + of_nat n\<rparr>) q q'" if "advance c n q = Inr (q', u)" "same_shape p q" for n q q' u
    by (rule advance_lays [OF that(1)]) (use that(2) c in \<open>simp add: same_shape_def\<close>)
  have calm: "lays c (lay_enter a) p p3" "\<forall>y. content a = LABEL y \<longrightarrow> places p y = addr a (lay_of (psec p c)) \<or> cpc (core p) = Some y \<or> length (syms (core p)) \<le> y"
    if "\<not> moved"
  proof -
    have m: "moved = False" using that by simp
    show "lays c (lay_enter a) p p3"
      using lays_trans [OF l12 resolve_content_calm(1) [OF 1(3) [unfolded m] c2]]
      by (simp add: lay_enter_def [abs_def])
    have "lay_of (psec p2 c) = (lay_of (psec p c))\<lparr>l_pc := addr a (lay_of (psec p c))\<rparr>" and "stands p p2"
      using l12 by (simp_all add: lays_def)
    then have "sec_pc (psec p2 c) = addr a (lay_of (psec p c))" by (simp add: lay_of_def)
    then show "\<forall>y. content a = LABEL y \<longrightarrow> places p y = addr a (lay_of (psec p c)) \<or> cpc (core p) = Some y \<or> length (syms (core p)) \<le> y"
      using resolve_content_calm(2) [OF 1(3) [unfolded m] c2] \<open>stands p p2\<close> by (auto simp: stands_def not_le)
  qed
  have step: "lays c (lay_step a) p p'" if "\<not> moved" "lays c (\<lambda>l. l\<lparr>l_pc := l_pc l + of_nat (lastsize a)\<rparr>) p3 p'"
    using lays_trans [OF calm(1) that(2)] that(1) by (simp add: lay_step_def [abs_def] Let_def)
  have "same_shape p p' \<and> placed_alike a a' \<and> (dn' \<longrightarrow> dn \<and> lastsize a' = lastsize a \<and> \<not> moved \<and> lays c (lay_step a) p p')"
  proof (cases "safe \<and> \<not> (dn \<and> \<not> moved) \<and> is_instruction a")
    case True
    then obtain u where u: "advance c (lastsize a) p3 = Inr (p', u)" and e: "a' = a" "dn' = (dn \<and> \<not> moved)"
      using rest by (auto simp: bind_st_Inr return_Inr)
    then show ?thesis using adv [OF u s3] True same_shape_trans [OF s3] by (auto simp: lays_def)
  next
    case False
    then obtain p4 r' u where 4: "size_warned a c p3 = Inr (p4, r')" "advance c (snd r') p4 = Inr (p', u)"
      and e: "(a', dn', extra') = note_size safe r' (dn \<and> \<not> moved) extra"
      using rest by (auto simp: bind_st_Inr return_Inr)
    have l4: "lays c (\<lambda>l. l) p3 p4" by (rule size_warned_lays [OF 4(1) r3 c3])
    then have s4: "same_shape p p4" using same_shape_trans [OF s3] by (simp add: lays_def)
    have l5: "lays c (\<lambda>l. l\<lparr>l_pc := l_pc l + of_nat (snd r')\<rparr>) p3 p'" using lays_trans [OF l4 adv [OF 4(2) s4]] .
    have al: "placed_alike a (fst r')" "lastsize (fst r') = lastsize a" using givesD [OF size_warned_places 4(1)] by simp_all
    have n: "snd r' = lastsize a \<and> a' = fst r' \<and> dn \<and> \<not> moved" if "dn'"
      using e that al(2) by (auto simp: note_size_def split: prod.splits if_splits)
    have "placed_alike a a'" using e al(1) by (auto simp: note_size_def placed_alike_def split: prod.splits if_splits)
    moreover have "same_shape p p'" using l5 same_shape_trans [OF s3] by (auto simp: lays_def)
    ultimately show ?thesis using n step l5 al(2) by auto
  qed
  then show "same_shape p p'" and "placed_alike a a'" and "dn' \<Longrightarrow> dn"
    and "dn' \<Longrightarrow> lastsize a' = lastsize a \<and> lays c (lay_step a) p p'
      \<and> (\<forall>y. content a = LABEL y \<longrightarrow> places p y = addr a (lay_of (psec p c)) \<or> cpc (core p) = Some y \<or> length (syms (core p)) \<le> y)"
    using calm(2) by blast+
qed


section \<open>Passes\<close>

text \<open>Labels stand at given addresses, except the dummy of the current pc.\<close>

definition label_at_addr :: "prog \<Rightarrow> atom \<Rightarrow> taddr \<Rightarrow> bool" where
  "label_at_addr p a t \<longleftrightarrow> (case content a of
      LABEL y \<Rightarrow> places p y = t \<or> cpc (core p) = Some y \<or> length (syms (core p)) \<le> y | _ \<Rightarrow> True)"

lemma label_at_addrI:
  "(\<And>y. content a = LABEL y \<Longrightarrow> places p y = t \<or> cpc (core p) = Some y \<or> length (syms (core p)) \<le> y) \<Longrightarrow> label_at_addr p a t"
  by (auto simp: label_at_addr_def split: content.split)

lemma label_at_addr_stands:
  assumes "label_at_addr p a t" and "stands p p'" and "same_shape p p'"
  shows "label_at_addr p' a t"
proof -
  have "length (syms (core p')) = length (syms (core p))" "cpc (core p') = cpc (core p)"
    using assms(3) by (auto simp: same_shape_def dest: map_eq_imp_length_eq)
  then show ?thesis using assms(1,2) by (auto simp: label_at_addr_def stands_def not_le split: content.splits)
qed

lemma label_at_addr_alike: "placed_alike a a' \<Longrightarrow> label_at_addr p a t \<Longrightarrow> label_at_addr p a' t"
  using placed_alike_label by (auto simp: label_at_addr_def split: content.splits)

lemma resolve_atoms_layout:
  assumes "resolve_atoms safe c as (dn, extra) p = Inr (p', as', dn', extra')"
    and "ready (core p)" and "c < length (secs (core p))"
  shows "same_shape p p' \<and> list_all2 placed_alike as as' \<and>
    (dn' \<longrightarrow> dn \<and> map lastsize as' = map lastsize as \<and> lays c (fold lay_step as) p p' \<and>
      list_all2 (label_at_addr p') as (addrs as (lay_of (psec p c))))"
  using assms
proof (induction as arbitrary: p as' dn extra)
  case (Cons a as)
  obtain p1 a1 done1 extra1 as1 where 1: "resolve_atom safe c a (dn, extra) p = Inr (p1, a1, done1, extra1)"
    "resolve_atoms safe c as (done1, extra1) p1 = Inr (p', as1, dn', extra')" "as' = a1 # as1"
    using Cons.prems(1) by (auto simp: bind_st_Inr return_Inr)
  note a = resolve_atom_shape [OF 1(1) Cons.prems(2,3)]
  have p1: "ready (core p1)" "c < length (secs (core p1))"
    using same_shape_ready [OF a(1) Cons.prems(2)] a(1) Cons.prems(3) by (simp_all add: same_shape_def)
  note ih = Cons.IH [OF 1(2) p1]
  have "lays c (fold lay_step (a # as)) p p' \<and> list_all2 (label_at_addr p') (a # as) (addrs (a # as) (lay_of (psec p c)))
      \<and> lastsize a1 = lastsize a \<and> dn" if d: "dn'"
  proof -
    have r: "done1" "lays c (fold lay_step as) p1 p'" "list_all2 (label_at_addr p') as (addrs as (lay_of (psec p1 c)))"
      using ih d by blast+
    have l: "lays c (lay_step a) p p1" "lastsize a1 = lastsize a" and dn
      using a(3,4) r(1) by blast+
    have "label_at_addr p a (addr a (lay_of (psec p c)))"
      by (rule label_at_addrI) (use a(4) r(1) in blast)
    moreover have lp: "lays c (fold lay_step (a # as)) p p'" using lays_trans [OF l(1) r(2)] by (simp add: comp_def)
    ultimately have "label_at_addr p' a (addr a (lay_of (psec p c)))"
      using label_at_addr_stands by (simp add: lays_def)
    moreover have "lay_of (psec p1 c) = lay_step a (lay_of (psec p c))" using l(1) by (simp add: lays_def)
    ultimately show ?thesis using r(3) lp l(2) \<open>dn\<close> by (simp add: comp_def)
  qed
  moreover have "same_shape p p'" using ih same_shape_trans [OF a(1)] by blast
  ultimately show ?case using ih a(2) 1(3) by (auto simp: comp_def)
qed (auto simp: return_Inr lays_def stands_def)

text \<open>Outside a relocated origin the addresses to return to do not matter.\<close>

definition lay_eq :: "lay \<Rightarrow> lay \<Rightarrow> bool" where
  "lay_eq l l' \<longleftrightarrow> l_pc l = l_pc l' \<and> l_in l = l_in l' \<and> (l_in l \<longrightarrow> l_saved l = l_saved l' \<and> l_rorg l = l_rorg l')"

lemma lay_eq_step: "lay_eq l l' \<Longrightarrow> lay_eq (lay_step a l) (lay_step a l')" and lay_eq_addr: "lay_eq l l' \<Longrightarrow> addr a l = addr a l'"
  by (auto simp: lay_eq_def lay_step_def lay_enter_def lay_content_def lay_end_def addr_def Let_def split: content.split)

lemma lay_eq_addrs: "lay_eq l l' \<Longrightarrow> addrs as l = addrs as l'"
  by (induction as arbitrary: l l') (auto dest: lay_eq_step lay_eq_addr)

lemma lay_eq_all: "lay_eq l l' \<Longrightarrow> lay_eq (lay_all as l) (lay_all as l')"
proof -
  have "lay_eq l l' \<Longrightarrow> lay_eq (fold lay_step as l) (fold lay_step as l')"
    by (induction as arbitrary: l l') (auto dest: lay_eq_step)
  then show "lay_eq l l' \<Longrightarrow> lay_eq (lay_all as l) (lay_all as l')"
    by (auto simp: lay_all_def lay_eq_def lay_end_def)
qed

lemma placed_alike_layout:
  "list_all2 placed_alike as as' \<Longrightarrow> map lastsize as' = map lastsize as \<Longrightarrow>
     addrs as' l = addrs as l \<and> fold lay_step as' l = fold lay_step as l"
proof (induction as as' arbitrary: l rule: list_all2_induct)
  case (Cons a as a' as')
  then show ?case using placed_alike_step [of a a'] placed_alike_addr [of a a'] by simp
qed simp


text \<open>What a pass needs, and leaves behind.\<close>

definition pass_ok :: "secid \<Rightarrow> prog \<Rightarrow> bool" where
  "pass_ok c p \<longleftrightarrow> ready (core p) \<and> c < length (secs (core p)) \<and> \<not> sec_has (psec p c) IN_RORG"

text \<open>The section is laid out: its end and its labels are where its atoms put them.\<close>

definition laid_out :: "secid \<Rightarrow> prog \<Rightarrow> bool" where
  "laid_out c p \<longleftrightarrow> (let l = lay_start (sec_org (psec p c))
     in sec_pc (psec p c) = l_pc (lay_all (atoms p c) l) \<and> list_all2 (label_at_addr p) (atoms p c) (addrs (atoms p c) l))"

lemma leave_pass:
  assumes "bind_st get (\<lambda>p. if sec_has (psec p c) IN_RORG then upd_section c leave_rorg else return ()) p = Inr (p', u)"
    and "c < length (secs (core p))"
  shows "lays c lay_end p p'"
proof (cases "sec_has (psec p c) IN_RORG")
  case True
  then have u: "upd_section c leave_rorg p = Inr (p', u)" using assms(1) by (simp add: bind_st_Inr get_Inr)
  have o: "sec_org (leave_rorg x) = sec_org x" for x by (simp add: leave_rorg_def clear_sec_flag_def)
  show ?thesis using upd_section_shape [OF u o] assms(2) in_rorg_flags(2) [OF True] by (simp add: lays_def)
next
  case False
  then show ?thesis using assms(1)
    by (simp add: bind_st_Inr get_Inr return_Inr lays_def stands_def lay_end_def lay_of_def)
qed

lemma resolve_pass_layout:
  assumes "resolve_pass safe c p = Inr (p', dn, extra)" and ok: "pass_ok c p"
  shows "pass_ok c p'" and "dn \<Longrightarrow> laid_out c p'"
proof -
  have r: "ready (core p)" and c: "c < length (secs (core p))" and n: "\<not> sec_has (psec p c) IN_RORG"
    using ok by (simp_all add: pass_ok_def)
  obtain p1 u1 p2 as p3 u3 u4 where 1: "upd_section c (\<lambda>x. x\<lparr>sec_pc := sec_org x\<rparr>) p = Inr (p1, u1)"
    "resolve_atoms safe c (atoms p1 c) (True, \<not> safe) p1 = Inr (p2, as, dn, extra)" "put_atoms c as p2 = Inr (p3, u3)"
    "bind_st get (\<lambda>p. if sec_has (psec p c) IN_RORG then upd_section c leave_rorg else return ()) p3 = Inr (p', u4)"
    using assms(1) by (auto simp: resolve_pass_def bind_st_Inr get_Inr return_Inr)
  have s1: "same_shape p p1" and x1: "psec p1 c = (psec p c)\<lparr>sec_pc := sec_org (psec p c)\<rparr>"
    using upd_section_shape [OF 1(1)] c by simp_all
  have r1: "ready (core p1)" and c1: "c < length (secs (core p1))"
    using same_shape_ready [OF s1 r] s1 c by (simp_all add: same_shape_def)
  note a = resolve_atoms_layout [OF 1(2) r1 c1]
  have s2: "same_shape p p2" using same_shape_trans [OF s1] a by blast
  have p3: "p3 = p2\<lparr>atoms := (atoms p2)(c := as)\<rparr>" using 1(3) by (simp add: put_atoms_def modify_Inr)
  then have c3: "c < length (secs (core p3))" and k3: "core p3 = core p2" using s2 c by (simp_all add: same_shape_def)
  have l: "lays c lay_end p3 p'" by (rule leave_pass [OF 1(4) c3])
  have s': "same_shape p3 p'" and st: "stands p3 p'" and le: "lay_of (psec p' c) = lay_end (lay_of (psec p2 c))"
    using l by (simp_all add: lays_def k3)
  have "ready (core p3)" using same_shape_ready [OF s2 r] by (simp add: k3)
  then have "ready (core p')" using same_shape_ready [OF s'] by blast
  moreover have "l_in (lay_of (psec p' c)) = False" by (simp add: le lay_end_def)
  ultimately show "pass_ok c p'" using s' c3 by (simp add: pass_ok_def same_shape_def lay_of_def)
  assume dn
  then have d: "lays c (fold lay_step (atoms p1 c)) p1 p2" "map lastsize as = map lastsize (atoms p1 c)"
    "list_all2 (label_at_addr p2) (atoms p1 c) (addrs (atoms p1 c) (lay_of (psec p1 c)))" "list_all2 placed_alike (atoms p1 c) as"
    using a by blast+
  have a': "atoms p' c = as" using s' by (simp add: same_shape_def p3)
  have org: "map sec_org (secs (core p')) = map sec_org (secs (core p))"
    using s' s2 by (simp add: same_shape_def k3)
  have o: "sec_org (psec p' c) = sec_org (psec p c)" by (rule nth_map_eq [OF org])
  have e: "lay_eq (lay_start (sec_org (psec p c))) (lay_of (psec p1 c))"
    using n by (simp add: lay_eq_def lay_start_def lay_of_def x1 sec_has_def)
  note same = placed_alike_layout [OF d(4,2)]
  have "lay_of (psec p2 c) = fold lay_step as (lay_of (psec p1 c))" using d(1) same by (simp add: lays_def)
  then have "sec_pc (psec p' c) = l_pc (lay_all as (lay_of (psec p1 c)))"
    using le by (simp add: lay_all_def) (metis lay.select_convs(1) lay_of_def)
  also have "\<dots> = l_pc (lay_all as (lay_start (sec_org (psec p' c))))"
    using lay_eq_all [OF e, of as] by (simp add: lay_eq_def o)
  finally have end_pc: "sec_pc (psec p' c) = l_pc (lay_all as (lay_start (sec_org (psec p' c))))" .
  have "label_at_addr p2 a t \<Longrightarrow> label_at_addr p' a t" for a t
  proof -
    assume "label_at_addr p2 a t"
    then have "label_at_addr p3 a t" by (auto simp: label_at_addr_def places_def k3 split: content.splits)
    then show "label_at_addr p' a t" by (rule label_at_addr_stands [OF _ st s'])
  qed
  then have "list_all2 (label_at_addr p') (atoms p1 c) (addrs as (lay_start (sec_org (psec p' c))))"
    using d(3) same lay_eq_addrs [OF e, of as] by (auto simp: o intro: list_all2_mono)
  then have "list_all2 (label_at_addr p') as (addrs as (lay_start (sec_org (psec p' c))))"
    using d(4) label_at_addr_alike unfolding list_all2_conv_all_nth by (metis (no_types))
  then show "laid_out c p'" using end_pc by (simp add: laid_out_def a')
qed


section \<open>Resolving\<close>

lemma resolve_loop_layout:
  assumes "resolve_loop left pass fastphase c p = Inr (p', n)" and "pass_ok c p"
  shows "pass_ok c p' \<and> pass \<le> n \<and> n < pass + left \<and> (no_errors p' \<longrightarrow> laid_out c p')"
  using assms
proof (induction left arbitrary: pass fastphase p)
  case (Suc left)
  obtain p1 dn extra where 1: "resolve_pass (fastphase < pass) c p = Inr (p1, dn, extra)"
    and rest: "(if no_errors p1 \<and> \<not> dn then resolve_loop left (pass + 1) (if extra then fastphase + 1 else fastphase) c
       else return pass) p1 = Inr (p', n)"
    using Suc.prems(1) by (auto simp: bind_st_Inr get_Inr)
  note l = resolve_pass_layout [OF 1 Suc.prems(2)]
  show ?case
  proof (cases "no_errors p1 \<and> \<not> dn")
    case True
    then have "resolve_loop left (pass + 1) (if extra then fastphase + 1 else fastphase) c p1 = Inr (p', n)"
      using rest by simp
    from Suc.IH [OF this l(1)] show ?thesis by auto
  next
    case False
    then have "p' = p1" "n = pass" using rest unfolding if_not_P [OF False] by (simp_all add: return_Inr)
    then show ?thesis using False l by auto
  qed
qed simp

text \<open>
  C5. When a section is resolved without an error, it is laid out: every label stands at the
  address that the alignments and sizes of the atoms before it give, relocated origins
  included, and the end of the section is where they lead. This takes fewer than the maximal
  number of passes; when they are not enough, the program ends with a fatal error.
\<close>

theorem resolved_section_laid_out:
  assumes "pass_ok c p" and "resolve_section maxpasses c p = Inr (p', n)"
  shows "1 \<le> n \<and> n < maxpasses \<and> pass_ok c p' \<and> (no_errors p' \<longrightarrow> laid_out c p')"
  using resolve_loop_layout [OF assms(2) [unfolded resolve_section_def] assms(1)] by auto

text \<open>A label, a jump back to it, and a label behind the jump that does not stand there yet.\<close>

definition loop_prog :: prog where
  "loop_prog = \<lparr>core = \<lparr>syms = [\<lparr>sym_type = LABSYM, sym_flags = 0, sym_name = ''a'', sym_expr = None, sym_size = None,
        sym_sec = Some 0, sym_pc = 0x1000, sym_align = 0\<rparr>,
        \<lparr>sym_type = LABSYM, sym_flags = 0, sym_name = ''b'', sym_expr = None, sym_size = None,
        sym_sec = Some 0, sym_pc = 0, sym_align = 0\<rparr>],
      secs = [(new_sect ''org0001:1000'' ''acrwx'' 1 [0,0,0,0,0,0,0,0] 1 0)\<lparr>sec_org := 0x1000, sec_flags := 16\<rparr>], cpc = None,
      final_pass = False, num_secs = 1, bytespertaddr = 2, msgs = []\<rparr>,
    cpu = cpu0, 
    atoms = (\<lambda>c. if c = 0 then [new_label_atom 0,
        new_inst_atom 1 \<lparr>inst_code = 209, inst_ops = [\<lparr>op_type = ABS, op_flags = 0, op_value = Some (SYM 0)\<rparr>]\<rparr>, new_label_atom 1] else []),
    order = [0], last_section = Some 0, container = 1, current = Some 0, secstack = [], source = None, org_count = 1, offset_id = 0,
    sec_padding = 0, space_init = 0, unnamed_sections = False, secname_attr = False, defsectname = None, defsecttype = None,
    defsectorg = 0, symlist = [1, 0], symhash = new_hashtable 1, saved_symbol = None, last_global_label = [], nocase = False,
    debug = False\<rparr>"

lemma resolved_section_laid_out_witness:
  "\<exists>p' n. resolve_section 4 0 loop_prog = Inr (p', n) \<and> places p' 1 = 0x1003 \<and> laid_out 0 p'"
proof -
  have "case resolve_section 4 0 loop_prog of Inl _ \<Rightarrow> False | Inr (p', n) \<Rightarrow> places p' 1 = 0x1003 \<and> msgs (core p') = []"
    by code_simp
  then obtain p' n where r: "resolve_section 4 0 loop_prog = Inr (p', n)" "places p' 1 = 0x1003" "msgs (core p') = []"
    by (auto split: sum.splits)
  have "pass_ok 0 loop_prog"
    by (simp add: pass_ok_def ready_def cpc_ok_def loop_prog_def sec_has_def IN_RORG_def)
  then show ?thesis using resolved_section_laid_out [OF _ r(1)] r by (auto simp: no_errors_def)
qed

end
