(* ===== verification/Worklist.thy ===== *)
theory Worklist
  imports Layout
begin

text \<open>
  The worklist of the resolver: resolving a section leaves the layout of the others as it is,
  so that in the end all of them are laid out.
\<close>

section \<open>What resolving a section does to the others\<close>

definition labels :: "atom list \<Rightarrow> symid set" where
  "labels as = {y. \<exists>a \<in> set as. content a = LABEL y}"

definition others :: "secid \<Rightarrow> symid set \<Rightarrow> prog \<Rightarrow> prog \<Rightarrow> bool" where
  "others c L p p' \<longleftrightarrow> cpc (core p') = cpc (core p) \<and> final_pass (core p') = final_pass (core p)
     \<and> map sym_type (syms (core p')) = map sym_type (syms (core p)) \<and> length (secs (core p')) = length (secs (core p))
     \<and> map sec_idx (secs (core p')) = map sec_idx (secs (core p)) \<and> order p' = order p
     \<and> (\<forall>d. d \<noteq> c \<longrightarrow> atoms p' d = atoms p d \<and> nodeps (psec p' d) = nodeps (psec p d))
     \<and> (\<forall>y < length (syms (core p)). cpc (core p) \<noteq> Some y \<longrightarrow> y \<notin> L \<longrightarrow> places p' y = places p y)
     \<and> (\<exists>ms. msgs (core p') = msgs (core p) @ ms)"

lemma others_refl [simp]: "others c L p p"
  by (simp add: others_def)

lemma others_trans:
  assumes "others c L p p'" and "others c L p' p''"
  shows "others c L p p''"
proof -
  have "length (syms (core p')) = length (syms (core p))" "cpc (core p') = cpc (core p)"
    using assms(1) by (auto simp: others_def dest: map_eq_imp_length_eq)
  then show ?thesis using assms by (auto simp: others_def)
qed

lemma others_ready: "others c L p p' \<Longrightarrow> ready (core p) \<Longrightarrow> ready (core p')"
proof -
  assume o: "others c L p p'" and r: "ready (core p)"
  have m: "map sym_type (syms (core p')) = map sym_type (syms (core p))" using o by (simp add: others_def)
  then have "length (syms (core p')) = length (syms (core p))" by (metis length_map)
  moreover have "sym_type (sym (core p') y) = sym_type (sym (core p) y)" for y by (rule nth_map_eq [OF m])
  ultimately show ?thesis using o r by (simp add: others_def ready_def cpc_ok_def)
qed

definition only :: "secid \<Rightarrow> symid set \<Rightarrow> (prog, 'a) step \<Rightarrow> bool" where
  "only c L m \<longleftrightarrow> (\<forall>p p' x. ready (core p) \<longrightarrow> m p = Inr (p', x) \<longrightarrow> others c L p p')"

lemma onlyD: "only c L m \<Longrightarrow> ready (core p) \<Longrightarrow> m p = Inr (p', x) \<Longrightarrow> others c L p p'"
  unfolding only_def by blast

lemma only_return: "only c L (return x)" and only_fail: "only c L (fail e)" and only_get: "only c L get"
  by (simp_all add: only_def return_Inr get_Inr)

lemma only_bind:
  assumes "only c L m" and "\<And>x. only c L (f x)"
  shows "only c L (bind_st m f)"
  unfolding only_def
proof (intro allI impI)
  fix p p' y assume r: "ready (core p)" and "bind_st m f p = Inr (p', y)"
  then obtain p1 x where 1: "m p = Inr (p1, x)" "f x p1 = Inr (p', y)" by (auto simp: bind_st_Inr)
  have o: "others c L p p1" by (rule onlyD [OF assms(1) r 1(1)])
  show "others c L p p'" using others_trans [OF o onlyD [OF assms(2) others_ready [OF o r] 1(2)]] .
qed

lemma only_if: "(b \<Longrightarrow> only c L m) \<Longrightarrow> (\<not> b \<Longrightarrow> only c L n) \<Longrightarrow> only c L (if b then m else n)"
  by simp

lemma only_prod: "(\<And>a b. only c L (h a b)) \<Longrightarrow> only c L (case x of (a, b) \<Rightarrow> h a b)"
  by (cases x) simp

lemma only_upd_section: "(\<And>x. sec_idx (f x) = sec_idx x) \<Longrightarrow> only c L (upd_section c f)"
  by (auto simp: only_def upd_section_def modify_Inr others_def places_def map_upd_same)

lemma only_put_atoms: "only c L (put_atoms c as)"
  by (simp add: only_def put_atoms_def modify_Inr others_def places_def)

lemma only_outside: "(\<And>p. core (f p) = core p \<and> atoms (f p) = atoms p \<and> order (f p) = order p) \<Longrightarrow> only c L (modify f)"
  by (simp add: only_def modify_Inr others_def places_def)

lemma only_size: "only c L (lift (atom_size cf a c pc))"
  unfolding only_def
proof (intro allI impI)
  fix p p' x assume r: "ready (core p)" and "lift (atom_size cf a c pc) p = Inr (p', x)"
  then obtain s' where e: "atom_size cf a c pc (core p) = Inr (s', x)" and p': "p' = p\<lparr>core := s'\<rparr>"
    by (auto simp: lift_def split: sum.splits)
  note f = atom_size_frame [OF r e]
  have d: "map nodeps (secs s') = map nodeps (secs (core p))" using f by (simp add: frame_def)
  have "map sec_idx (map nodeps (secs s')) = map sec_idx (map nodeps (secs (core p)))" by (simp add: d)
  then have i: "map sec_idx (secs s') = map sec_idx (secs (core p))" by (simp add: nodeps_def comp_def)
  show "others c L p p'"
    using frame_shape(1,2) [OF f] i nth_map_eq [OF d] f
    by (simp add: others_def same_shape_def stands_def p' places_def frame_def)
qed

lemmas only_rules = only_bind only_if only_prod only_return only_fail only_get only_upd_section only_size

lemma only_resolve_content:
  assumes "labels [a] \<subseteq> L"
  shows "only c L (resolve_content c a)"
proof -
  have i: "sec_idx (enter_rorg r x) = sec_idx x" "sec_idx (leave_rorg x) = sec_idx x" for r x
    by (simp_all add: enter_rorg_def leave_rorg_def set_sec_flag_def clear_sec_flag_def)
  have m: "only c L (modify (\<lambda>p. p\<lparr>core := upd_sym y (\<lambda>x. x\<lparr>sym_pc := sec_pc (psec p c)\<rparr>) (core p)\<rparr>))" if "y \<in> L" for y
    using that by (auto simp: only_def modify_Inr others_def places_def nth_upd map_upd_same)
  have o: "only c L (modify (\<lambda>p. p\<lparr>cpu := cpu_opts v (cpu p)\<rparr>))" for v by (rule only_outside) simp
  show ?thesis
  proof (cases "content a")
    case (LABEL y)
    then have "y \<in> L" using assms by (auto simp: labels_def)
    then show ?thesis unfolding resolve_content_def LABEL content.case by (intro only_rules m)
  next
    case (RORG r)
    then show ?thesis unfolding resolve_content_def RORG content.case by (intro only_rules i)
  next
    case RORGEND
    then show ?thesis unfolding resolve_content_def RORGEND content.case by (intro only_rules i)
  qed (simp_all add: resolve_content_def only_return only_bind o)
qed

lemma only_size_warned: "only c L (size_warned a c)"
  unfolding size_warned_def by (intro only_rules) (simp_all add: set_sec_flag_def clear_sec_flag_def)

lemma only_resolve_atom:
  assumes "labels [a] \<subseteq> L"
  shows "only c L (resolve_atom safe c a f)"
proof -
  have s: "only c L (set_source a)" unfolding set_source_def by (rule only_outside) simp
  show ?thesis
    unfolding resolve_atom_def advance_def Let_def
    by (intro only_rules s only_resolve_content [OF assms] only_size_warned) simp_all
qed

lemma only_resolve_atoms: "labels as \<subseteq> L \<Longrightarrow> only c L (resolve_atoms safe c as f)"
proof (induction as arbitrary: f)
  case (Cons a as)
  have l: "labels [a] \<subseteq> L" "labels as \<subseteq> L" using Cons.prems by (auto simp: labels_def)
  show ?case unfolding resolve_atoms.simps by (intro only_rules only_resolve_atom l Cons.IH)
qed (simp add: only_return)


lemma labels_alike: "list_all2 placed_alike as as' \<Longrightarrow> labels as' = labels as"
proof (induction as as' rule: list_all2_induct)
  case (Cons a as a' as')
  then have "labels (a' # as') = labels [a'] \<union> labels as'" by (auto simp: labels_def)
  also have "labels [a'] = labels [a]" using placed_alike_label [OF Cons.hyps(1)] by (simp add: labels_def)
  finally show ?case using Cons.IH by (auto simp: labels_def)
qed (simp add: labels_def)

lemma resolve_pass_others:
  assumes "resolve_pass safe c p = Inr (p', f)" and "pass_ok c p"
  shows "others c (labels (atoms p c)) p p' \<and> labels (atoms p' c) = labels (atoms p c)"
proof -
  let ?L = "labels (atoms p c)"
  have r: "ready (core p)" using assms(2) by (simp add: pass_ok_def)
  obtain p1 u1 p2 as p3 u3 u4 where 1: "upd_section c (\<lambda>x. x\<lparr>sec_pc := sec_org x\<rparr>) p = Inr (p1, u1)"
    "resolve_atoms safe c (atoms p1 c) (True, \<not> safe) p1 = Inr (p2, as, f)" "put_atoms c as p2 = Inr (p3, u3)"
    "bind_st get (\<lambda>p. if sec_has (psec p c) IN_RORG then upd_section c leave_rorg else return ()) p3 = Inr (p', u4)"
    using assms(1) by (auto simp: resolve_pass_def bind_st_Inr get_Inr return_Inr)
  have a1: "atoms p1 c = atoms p c" "c < length (secs (core p1))"
    using 1(1) assms(2) by (auto simp: upd_section_def modify_Inr pass_ok_def)
  have o1: "others c ?L p p1" by (rule onlyD [OF only_upd_section r 1(1)]) simp
  note r1 = others_ready [OF o1 r]
  have o2: "others c ?L p1 p2" by (rule onlyD [OF only_resolve_atoms r1 1(2)]) (simp add: a1)
  note r2 = others_ready [OF o2 r1]
  have o3: "others c ?L p2 p3" by (rule onlyD [OF only_put_atoms r2 1(3)])
  have i: "sec_idx (leave_rorg x) = sec_idx x" for x by (simp add: leave_rorg_def clear_sec_flag_def)
  have "only c ?L (bind_st get (\<lambda>p. if sec_has (psec p c) IN_RORG then upd_section c leave_rorg else return ()))"
    by (intro only_rules i)
  from onlyD [OF this others_ready [OF o3 r2] 1(4)] have o4: "others c ?L p3 p'" .
  obtain dn extra where f: "f = (dn, extra)" by fastforce
  have al: "list_all2 placed_alike (atoms p c) as"
    using resolve_atoms_layout [OF 1(2) [unfolded f] r1] a1 by simp
  have "atoms p' c = as"
    using 1(3,4) by (auto simp: put_atoms_def upd_section_def modify_Inr bind_st_Inr get_Inr return_Inr split: if_splits)
  then show ?thesis
    using others_trans [OF others_trans [OF others_trans [OF o1 o2] o3] o4] labels_alike [OF al] by simp
qed

lemma resolve_loop_others:
  assumes "resolve_loop left pass fastphase c p = Inr (p', n)" and "pass_ok c p"
  shows "others c (labels (atoms p c)) p p' \<and> labels (atoms p' c) = labels (atoms p c)"
  using assms
proof (induction left arbitrary: pass fastphase p)
  case (Suc left)
  obtain p1 dn extra where 1: "resolve_pass (fastphase < pass) c p = Inr (p1, dn, extra)"
    and rest: "(if no_errors p1 \<and> \<not> dn then resolve_loop left (pass + 1) (if extra then fastphase + 1 else fastphase) c
       else return pass) p1 = Inr (p', n)"
    using Suc.prems(1) by (auto simp: bind_st_Inr get_Inr)
  note o = resolve_pass_others [OF 1 Suc.prems(2)] and ok = resolve_pass_layout(1) [OF 1 Suc.prems(2)]
  show ?case
  proof (cases "no_errors p1 \<and> \<not> dn")
    case True
    from rest [unfolded if_P [OF True]] Suc.IH [OF _ ok] o show ?thesis using others_trans by metis
  next
    case False
    then show ?thesis using rest o unfolding if_not_P [OF False] by (simp add: return_Inr)
  qed
qed simp

section \<open>The worklist\<close>

text \<open>The sections of a program that is ready to be resolved.\<close>

definition sections_ok :: "prog \<Rightarrow> bool" where
  "sections_ok p \<longleftrightarrow> (\<forall>c \<in> set (order p). pass_ok c p)
     \<and> (\<forall>c \<in> set (order p). \<forall>d \<in> set (order p). c \<noteq> d \<longrightarrow>
          labels (atoms p c) \<inter> labels (atoms p d) = {} \<and> sec_idx (psec p c) \<noteq> sec_idx (psec p d))"

lemma others_laid_out:
  assumes "others c L p p'" and "d \<noteq> c" and "labels (atoms p d) \<inter> L = {}" and "laid_out d p"
  shows "laid_out d p'"
proof -
  have a: "atoms p' d = atoms p d" and n: "nodeps (psec p' d) = nodeps (psec p d)"
    using assms(1,2) by (auto simp: others_def)
  have e: "sec_org x = sec_org (nodeps x)" "sec_pc x = sec_pc (nodeps x)" for x by (simp_all add: nodeps_def)
  have s: "sec_org (psec p' d) = sec_org (psec p d)" "sec_pc (psec p' d) = sec_pc (psec p d)"
    unfolding e(1) [of "psec p' d"] e(2) [of "psec p' d"] n by (simp_all add: nodeps_def)
  have len: "length (syms (core p')) = length (syms (core p))" "cpc (core p') = cpc (core p)"
    using assms(1) by (auto simp: others_def dest: map_eq_imp_length_eq)
  have "label_at_addr p' x t" if "x \<in> set (atoms p d)" "label_at_addr p x t" for x t
  proof (rule label_at_addrI)
    fix y assume l: "content x = LABEL y"
    then have "y \<notin> L" using that(1) assms(3) by (auto simp: labels_def)
    then show "places p' y = t \<or> cpc (core p') = Some y \<or> length (syms (core p')) \<le> y"
      using that(2) l assms(1) by (auto simp: label_at_addr_def others_def len not_le)
  qed
  then have "list_all2 (label_at_addr p') (atoms p d) ts" if "list_all2 (label_at_addr p) (atoms p d) ts" for ts
    using that by (auto simp: list_all2_conv_all_nth)
  then show ?thesis using assms(4) by (simp add: laid_out_def Let_def a s)
qed

lemma others_sections_ok:
  assumes o: "others c (labels (atoms p c)) p p'" and l: "labels (atoms p' c) = labels (atoms p c)"
    and ok: "sections_ok p" and c: "pass_ok c p'"
  shows "sections_ok p'"
proof -
  have ord: "order p' = order p" and len: "length (secs (core p')) = length (secs (core p))"
    and m: "map sec_idx (secs (core p')) = map sec_idx (secs (core p))" using o by (simp_all add: others_def)
  have idx: "sec_idx (psec p' d) = sec_idx (psec p d)" for d by (rule nth_map_eq [OF m])
  have lab: "labels (atoms p' d) = labels (atoms p d)" for d using o l by (cases "d = c") (auto simp: others_def)
  have "pass_ok d p'" if "d \<in> set (order p)" for d
  proof (cases "d = c")
    case False
    then have n: "nodeps (psec p' d) = nodeps (psec p d)" using o by (simp add: others_def)
    have f: "sec_has x f = sec_has (nodeps x) f" for x f by (simp add: nodeps_def sec_has_def)
    have "pass_ok d p" using ok that by (simp add: sections_ok_def)
    then show ?thesis using n f others_ready [OF o] len unfolding pass_ok_def by metis
  qed (use c in simp)
  then show ?thesis using ok by (simp add: sections_ok_def ord idx lab)
qed

lemma others_errors: "others c L p p' \<Longrightarrow> no_errors p' \<Longrightarrow> no_errors p"
  by (auto simp: others_def no_errors_def)

text \<open>Every section is on the worklist or laid out, unless there was an error.\<close>

definition covered :: "prog \<Rightarrow> (nat \<Rightarrow> bool) \<Rightarrow> bool" where
  "covered p todo \<longleftrightarrow> (no_errors p \<longrightarrow> (\<forall>c \<in> set (order p). todo (sec_idx (psec p c)) \<or> laid_out c p))"

lemma resolve_one:
  assumes "resolve_section mp c p = Inr (p', n)" and "sections_ok p" and "covered p todo" and c: "c \<in> set (order p)"
    and "\<And>i. i \<noteq> sec_idx (psec p c) \<Longrightarrow> todo i \<Longrightarrow> todo' i"
  shows "sections_ok p' \<and> covered p' todo' \<and> order p' = order p"
proof -
  have ok: "pass_ok c p" using assms(2) c by (simp add: sections_ok_def)
  note r = resolve_loop_layout [OF assms(1) [unfolded resolve_section_def] ok]
  note o = resolve_loop_others [OF assms(1) [unfolded resolve_section_def] ok]
  then have ord: "order p' = order p" and m: "map sec_idx (secs (core p')) = map sec_idx (secs (core p))"
    by (simp_all add: others_def)
  have idx: "sec_idx (psec p' d) = sec_idx (psec p d)" for d by (rule nth_map_eq [OF m])
  have "todo' (sec_idx (psec p' d)) \<or> laid_out d p'" if e: "no_errors p'" and d: "d \<in> set (order p)" for d
  proof (cases "d = c")
    case False
    have dis: "labels (atoms p d) \<inter> labels (atoms p c) = {}" "sec_idx (psec p d) \<noteq> sec_idx (psec p c)"
      using assms(2) c d False by (auto simp: sections_ok_def)
    have "no_errors p" using others_errors o e by blast
    then have "todo (sec_idx (psec p d)) \<or> laid_out d p" using assms(3) d by (simp add: covered_def)
    then show ?thesis using assms(5) dis others_laid_out [OF conjunct1 [OF o] False dis(1)] by (auto simp: idx)
  qed (use r e in simp)
  then have "covered p' todo'" by (simp add: covered_def ord)
  moreover have "sections_ok p'" using others_sections_ok o assms(2) r by blast
  ultimately show ?thesis using ord by simp
qed


lemma resolve_round_covered:
  assumes "resolve_round mp cs fin todo p = Inr (p', fin', todo')"
    and "sections_ok p" and "covered p todo" and "set cs \<subseteq> set (order p)"
  shows "sections_ok p' \<and> covered p' todo' \<and> order p' = order p \<and>
    (fin' \<longrightarrow> fin \<and> p' = p \<and> todo' = todo \<and> (\<forall>c \<in> set cs. \<not> todo (sec_idx (psec p c))))"
  using assms
proof (induction cs arbitrary: p fin todo)
  case (Cons c cs)
  show ?case
  proof (cases "todo (sec_idx (psec p c))")
    case False
    then have "resolve_round mp cs fin todo p = Inr (p', fin', todo')"
      using Cons.prems(1) by (simp add: bind_st_Inr get_Inr Let_def)
    from Cons.IH [OF this] Cons.prems False show ?thesis by auto
  next
    case True
    define todo1 where "todo1 q n = (let t = todo(sec_idx (psec p c) := False)
       in if 1 < n then (\<lambda>j. t j \<or> j \<in> set (sec_deps (psec q c))) else t)" for n :: nat and q :: prog
    obtain p1 n where 1: "resolve_section mp c p = Inr (p1, n)" "resolve_round mp cs False (todo1 p1 n) p1 = Inr (p', fin', todo')"
      using Cons.prems(1) True by (auto simp: bind_st_Inr get_Inr Let_def todo1_def)
    have "i \<noteq> sec_idx (psec p c) \<Longrightarrow> todo i \<Longrightarrow> todo1 p1 n i" for i by (simp add: todo1_def Let_def)
    with resolve_one [OF 1(1) Cons.prems(2,3)] Cons.prems(4)
    have o: "sections_ok p1 \<and> covered p1 (todo1 p1 n) \<and> order p1 = order p" by auto
    with Cons.IH [OF 1(2)] Cons.prems(4) show ?thesis by auto
  qed
qed (auto simp: return_Inr)

lemma resolve_rounds_covered:
  "resolve_rounds k mp todo p = Inr (p', u) \<Longrightarrow> sections_ok p \<Longrightarrow> covered p todo \<Longrightarrow>
     sections_ok p' \<and> order p' = order p \<and> (no_errors p' \<longrightarrow> (\<forall>c \<in> set (order p'). laid_out c p'))"
proof (induction k arbitrary: todo p)
  case (Suc k)
  obtain p1 fin todo1 where 1: "resolve_round mp (order p) True todo p = Inr (p1, fin, todo1)"
    and rest: "(if fin then return () else resolve_rounds k mp todo1) p1 = Inr (p', u)"
    using Suc.prems(1) by (auto simp: bind_st_Inr get_Inr)
  note r = resolve_round_covered [OF 1 Suc.prems(2,3) subset_refl]
  show ?case
  proof (cases fin)
    case True
    then have "p' = p" using rest r by (simp add: return_Inr)
    then show ?thesis using r True Suc.prems(2,3) by (auto simp: covered_def)
  next
    case False
    then show ?thesis using Suc.IH [of todo1 p1] rest r by auto
  qed
qed simp



end
