(* ===== verification/Stepframe.thy ===== *)
theory Stepframe
  imports Symbols
begin

text \<open>
  Relations between the program before and after a step, as an interface: a reflexive and
  transitive relation that holds across the steps an operation is made of holds across the
  operation. The second interface is for relations that do not look at the core, the symbols
  and sections themselves.
\<close>

locale step_frame =
  fixes R :: "'s \<Rightarrow> 's \<Rightarrow> bool"
  assumes R_refl: "R p p"
    and R_trans: "R p p' \<Longrightarrow> R p' p'' \<Longrightarrow> R p p''"
begin

definition holds :: "('s, 'a) step \<Rightarrow> bool" where
  "holds m \<longleftrightarrow> (\<forall>p p' x. m p = Inr (p', x) \<longrightarrow> R p p')"

lemma holdsD: "holds m \<Longrightarrow> m p = Inr (p', x) \<Longrightarrow> R p p'"
  unfolding holds_def by blast

lemma holds_basic: "holds (return x)" "holds (fail e)" "holds get"
  by (simp_all add: holds_def return_Inr get_Inr R_refl)

lemma holds_modify: "(\<And>p. R p (f p)) \<Longrightarrow> holds (modify f)"
  by (simp add: holds_def modify_Inr)

lemma holds_bind:
  assumes "holds m" and "\<And>x. holds (f x)"
  shows "holds (bind_st m f)"
  unfolding holds_def
proof (intro allI impI)
  fix p p' y assume "bind_st m f p = Inr (p', y)"
  then obtain p1 x where 1: "m p = Inr (p1, x)" "f x p1 = Inr (p', y)" by (auto simp: bind_st_Inr)
  show "R p p'" using R_trans [OF holdsD [OF assms(1) 1(1)] holdsD [OF assms(2) 1(2)]] .
qed

lemma holds_if: "holds m \<Longrightarrow> holds n \<Longrightarrow> holds (if b then m else n)"
  by simp

lemma holds_prod: "(\<And>a b. holds (h a b)) \<Longrightarrow> holds (case x of (a, b) \<Rightarrow> h a b)"
  by (cases x) simp

lemma holds_option: "holds m \<Longrightarrow> (\<And>x. holds (f x)) \<Longrightarrow> holds (case r of None \<Rightarrow> m | Some x \<Rightarrow> f x)"
  by (cases r) simp_all

lemma holds_sum: "(\<And>x. holds (f x)) \<Longrightarrow> (\<And>x. holds (g x)) \<Longrightarrow> holds (case r of Inl x \<Rightarrow> g x | Inr x \<Rightarrow> f x)"
  by (cases r) simp_all

lemma holds_list: "holds m \<Longrightarrow> (\<And>x xs. holds (f x xs)) \<Longrightarrow> holds (case r of [] \<Rightarrow> m | x # xs \<Rightarrow> f x xs)"
  by (cases r) simp_all

lemmas holds_rules = holds_bind holds_basic holds_if holds_prod holds_option holds_sum holds_list

end

locale prog_frame = step_frame R for R :: "prog \<Rightarrow> prog \<Rightarrow> bool" +
  assumes R_core: "R p (p\<lparr>core := s\<rparr>)"
begin

lemma holds_lift: "holds (lift m)"
  by (auto simp: holds_def lift_def R_core split: sum.splits)

lemma holds_core: "holds (error n)" "holds (upd_section c f)" "holds (upd_symbol y g)"
  by (auto simp: error_def upd_section_def upd_symbol_def R_core intro!: holds_modify)

end

text \<open>Steps that leave the atoms of the sections and the list of sections alone.\<close>

definition same_atoms :: "prog \<Rightarrow> prog \<Rightarrow> bool" where
  "same_atoms p p' \<longleftrightarrow> atoms p' = atoms p \<and> order p' = order p"

interpretation sat: prog_frame same_atoms
  by unfold_locales (simp_all add: same_atoms_def)

text \<open>Steps that leave everything but the core alone.\<close>

definition same_outside :: "prog \<Rightarrow> prog \<Rightarrow> bool" where
  "same_outside p p' \<longleftrightarrow> (\<exists>s. p' = p\<lparr>core := s\<rparr>)"

interpretation out: prog_frame same_outside
proof
  show "same_outside p p" for p unfolding same_outside_def by (rule exI [where x = "core p"]) simp
qed (auto simp: same_outside_def)

lemma same_outsideD: "same_outside p p' \<Longrightarrow> same_atoms p p'"
  by (auto simp: same_outside_def same_atoms_def)

end
