(* ===== verification/Assemble.thy ===== *)
theory Assemble
  imports Worklist Stepframe
begin

text \<open>
  The final pass of \<open>src/vasm.c\<close>: the atoms of every section are assembled at their addresses,
  instructions and data definitions become data, relative origins and alignments become space,
  and the symbols are fixed afterwards. The listing and DWARF output are left out.
\<close>

section \<open>Settings and results\<close>

record settings =
  pic_check :: bool
  auto_import :: bool
  add_uscore :: bool
  output_indirect :: bool
  warn_unalloc_ini_dat :: bool
  nostdout :: bool

record stabdef =
  stab_name :: "string option"
  stab_type :: int
  stab_other :: int
  stab_desc :: int
  stab_base :: "symid option"
  stab_value :: taddr

text \<open>
  What the loop over the atoms keeps: whether the address space is full, the source and line
  of the last error on initialized data, the list of nlist definitions and the text printed.
\<close>

record loop =
  ovflw :: bool
  lasterrsrc :: "nat option"
  lasterrline :: int
  stabs :: "stabdef list"
  stdout :: string

section \<open>Before the pass\<close>

definition offset_label :: "prog \<Rightarrow> symbol \<Rightarrow> symbol" where
  "offset_label p y =
     (case sym_sec y of
        Some c \<Rightarrow> if sym_type y = LABSYM \<and> sec_has (psec p c) UNALLOCATED
          then y\<lparr>sym_type := EXPRESSION, sym_expr := Some (NUM (sym_pc y)), sym_sec := None\<rparr> else y
      | None \<Rightarrow> y)"

definition convert_offset_labels :: "(prog, unit) step" where
  "convert_offset_labels = modify (\<lambda>p.
     p\<lparr>core := fold (\<lambda>y. upd_sym y (offset_label p)) (symlist p) (core p)\<rparr>)"

definition remove_unalloc_sects :: "(prog, unit) step" where
  "remove_unalloc_sects = modify (\<lambda>p.
     let cs = filter (\<lambda>c. \<not> sec_has (psec p c) UNALLOCATED) (order p)
     in p\<lparr>order := cs, last_section := (if cs = [] then None else Some (last cs)),
          core := (core p)\<lparr>num_secs := num_secs (core p) - (length (order p) - length cs)\<rparr>\<rparr>)"

section \<open>Atoms that become space\<close>

text \<open>
  When the space is no multiple of the pattern, the code puts a new atom behind this one that
  the loop visits next, with its source never initialized.
\<close>

definition space_atom :: "u32 \<Rightarrow> atom \<Rightarrow> taddr \<Rightarrow> u8 list \<Rightarrow> nat \<Rightarrow> atom" where
  "space_atom init a n padding sz =
     (let sb = new_sblock init (NUM n) sz None
      in a\<lparr>content := SPACE (sb\<lparr>sb_fill := take sz padding @ drop sz (sb_fill sb)\<rparr>)\<rparr>)"

definition pad_space :: "secid \<Rightarrow> atom \<Rightarrow> taddr \<Rightarrow> u8 list \<Rightarrow> int \<Rightarrow> (prog, atom) step" where
  "pad_space c a space padding padbytes = bind_st get (\<lambda>p.
     if word_of_int padbytes \<le> space then
       let n = balign (sec_pc (psec p c)) (word_of_int padbytes);
           space = space - n
       in bind_st (upd_section c (\<lambda>x. x\<lparr>sec_pc := sec_pc x + n\<rparr>)) (\<lambda>_.
          if space mod word_of_int padbytes \<noteq> 0 then fail Undefined
          else return ((space_atom (space_init p) a (space div word_of_int padbytes) padding (nat padbytes))
                 \<lparr>align := word_of_int padbytes\<rparr>))
     else return (a\<lparr>content := SPACE (new_sblock (space_init p) (NUM space) 1 None)\<rparr>))"

definition roffs_to_space :: "secid \<Rightarrow> reloffs \<Rightarrow> atom \<Rightarrow> (prog, atom) step" where
  "roffs_to_space c r a = bind_st get (\<lambda>p.
     bind_st (lift (eval_expr (offset r) (Some c) (sec_pc (psec p c)))) (\<lambda>(offs, ok).
     bind_st
       (case fillval r of
          Some e \<Rightarrow> if ok then lift (eval_expr e (Some c) (sec_pc (psec p c))) else return (0, False)
        | None \<Rightarrow> return (0, ok)) (\<lambda>(fill, ok).
     if \<not> ok then bind_st (error 30) (\<lambda>_. return a)
     else bind_st get (\<lambda>p.
       let x = psec p c
       in if sec_pc x < sec_org x + offs then
            (case (case fillval r of
                     None \<Rightarrow> Inr (sec_pad x, sec_padbytes x)
                   | Some _ \<Rightarrow> make_padding False fill (replicate MAXPADSIZE 0) 64) of
               Inl e \<Rightarrow> fail e
             | Inr (padding, padbytes) \<Rightarrow> pad_space c a (sec_org x + offs - sec_pc x) padding padbytes)
          else return a))))"

definition align_space :: "u32 \<Rightarrow> taddr \<Rightarrow> atom \<Rightarrow> stop + atom" where
  "align_space init nb a =
     (case content a of
        SPACE sb \<Rightarrow>
          if sb_space sb \<noteq> 0 then Inr (new_space_atom init (NUM nb) 1 None)
          else if sb_size sb = 0 then Inl Undefined
          else if unat nb mod sb_size sb = 0
            then Inr (new_space_atom init (NUM (word_of_nat (unat nb div sb_size sb))) (sb_size sb) (fill_exp sb))
          else Inr (new_space_atom init (NUM nb) 1 None)
      | _ \<Rightarrow> Inr (new_space_atom init (NUM nb) 1 None))"

text \<open>The result is the new atom before \<open>a\<close>, the alignment of which is reset by the caller.\<close>

definition alignment_to_space :: "taddr \<Rightarrow> secid \<Rightarrow> bool \<Rightarrow> atom \<Rightarrow> (prog, atom) step" where
  "alignment_to_space nb c first a = bind_st get (\<lambda>p.
     if first \<or> nb \<le>s 0 then fail Ierror
     else case align_space (space_init p) nb a of
       Inl e \<Rightarrow> fail e
     | Inr sa \<Rightarrow>
         bind_st (lift (atom_size (cpu p) sa c (sec_pc (psec p c)))) (\<lambda>(sa, n).
           if n \<noteq> unat nb then fail Ierror else return sa))"

section \<open>Printing and nlist\<close>

definition new_stabdef :: "aoutnlist \<Rightarrow> secid \<Rightarrow> (prog, stabdef) step" where
  "new_stabdef nl c = bind_st get (\<lambda>p.
     let new = \<lparr>stab_name = nl_name nl, stab_type = nl_type nl, stab_other = nl_other nl, stab_desc = nl_desc nl,
                stab_base = None, stab_value = 0\<rparr>;
         pc = sec_pc (psec p c)
     in case nl_value nl of
          None \<Rightarrow> return new
        | Some e \<Rightarrow>
            bind_st (lift (eval_expr e (Some c) pc)) (\<lambda>(v, ok).
            if ok then return (new\<lparr>stab_value := v\<rparr>)
            else
              bind_st (lift (find_base e (Some c) pc)) (\<lambda>(bt, base).
              if bt = BASE_ILLEGAL \<or> bt = BASE_PCREL then bind_st (error 38) (\<lambda>_. return (new\<lparr>stab_value := v\<rparr>))
              else
                bind_st (case base of Some y \<Rightarrow> upd_symbol y (set_flag REFERENCED) | None \<Rightarrow> return ()) (\<lambda>_.
                  return (new\<lparr>stab_value := v, stab_base := base\<rparr>)))))"

definition upper_hex :: "nat \<Rightarrow> string" where
  "upper_hex n = map (\<lambda>ch. if of_char ch \<ge> (97::nat) then char_of (of_char ch - (32::nat)) else ch) (digits_of 16 n)"

definition printable :: "nat \<Rightarrow> bool" where
  "printable n \<longleftrightarrow> 32 \<le> n \<and> n < 127"

definition print_value :: "pexp_type \<Rightarrow> u64 \<Rightarrow> nat \<Rightarrow> string" where
  "print_value t v sz =
     (case t of
        PEXP_HEX \<Rightarrow> upper_hex (unat v)
      | PEXP_SDEC \<Rightarrow> if sint v < 0 then CHR ''-'' # digits_of 10 (nat (- sint v)) else digits_of 10 (nat (sint v))
      | PEXP_UDEC \<Rightarrow> digits_of 10 (unat v)
      | PEXP_BIN \<Rightarrow> map (\<lambda>i. if bit v i then CHR ''1'' else CHR ''0'') (rev [0..<sz])
      | PEXP_ASC \<Rightarrow> map (\<lambda>i. let n = unat (drop_bit (8 * i) v AND 0xff) in if printable n then char_of n else CHR ''.'')
          (rev [0..<(sz + 7) div 8]))"

definition print_bits :: "pexp_type \<Rightarrow> taddr \<Rightarrow> nat \<Rightarrow> u64" where
  "print_bits t v sz =
     (if t = PEXP_SDEC \<and> bit (scast v :: u64) (sz - 1) then NOT (MAKEMASK sz) else 0) OR (scast v AND MAKEMASK sz)"

text \<open>The text, and the expression, which is printed as a signed number from now on after an undefined symbol.\<close>

definition atom_printexpr :: "printexpr \<Rightarrow> secid \<Rightarrow> (prog, string \<times> printexpr) step" where
  "atom_printexpr pe c = bind_st get (\<lambda>p.
     let pc = sec_pc (psec p c)
     in bind_st (lift (eval_expr (print_exp pe) (Some c) pc)) (\<lambda>(v, ok).
        bind_st
          (if ok then return False
           else bind_st (lift (find_base (print_exp pe) (Some c) pc)) (\<lambda>(bt, base). bind_st get (\<lambda>p.
             return (case base of
                 Some y \<Rightarrow> sym_type (sym (core p) y) = IMPORT \<and> \<not> sym_has (sym (core p) y) (EXPORT OR COMMON OR WEAK)
               | None \<Rightarrow> False)))) (\<lambda>undefd.
        if undefd \<and> v = 0 then return (''<undefined>'', pe)
        else
          let pe = (if undefd then pe\<lparr>pexp_type := PEXP_SDEC\<rparr> else pe);
              pre = (if undefd then ''<undefined>'' @ (if 0 <s v then ''+'' else []) else [])
          in return (pre @ print_value (pexp_type pe) (print_bits (pexp_type pe) v (pexp_size pe)) (pexp_size pe), pe))))"

section \<open>One atom\<close>

definition auto_aligned :: "atom \<Rightarrow> atom list \<Rightarrow> (prog, unit) step" where
  "auto_aligned a rest =
     (let aa = (case (content a, rest) of
                  (LABEL _, b # _) \<Rightarrow> if atom_line b = atom_line a then b else a
                | _ \<Rightarrow> a)
      in case content aa of
           INSTRUCTION _ \<Rightarrow> error 50
         | DATA _ \<Rightarrow> error 57
         | DATADEF _ \<Rightarrow> error 57
         | _ \<Rightarrow> return ())"

text \<open>The atom at its aligned address, with the space put before it in a relocated block.\<close>

definition assemble_align :: "secid \<Rightarrow> bool \<Rightarrow> atom \<Rightarrow> atom list \<Rightarrow> (prog, atom list \<times> atom) step" where
  "assemble_align c first a rest = bind_st get (\<lambda>p.
     let basepc = sec_pc (psec p c); pc = pcalign a basepc
     in bind_st (upd_section c (\<lambda>x. x\<lparr>sec_pc := pc\<rparr>)) (\<lambda>_.
        bind_st (set_source a) (\<lambda>_.
        bind_st (if MAXSIZECHANGES < changes a then upd_section c (set_sec_flag RESOLVE_WARN) else return ()) (\<lambda>_.
        if pc \<noteq> basepc then
          bind_st (auto_aligned a rest) (\<lambda>_.
          if sec_has (psec p c) IN_RORG then
            bind_st (alignment_to_space (pc - basepc) c first a) (\<lambda>sa. return ([sa], a\<lparr>align := 1\<rparr>))
          else return ([], a))
        else return ([], if sec_has (psec p c) IN_RORG then a\<lparr>align := 1\<rparr> else a)))))"

definition check_pic :: "bool \<Rightarrow> rlist \<Rightarrow> (prog, unit) step" where
  "check_pic b rl = modify (\<lambda>p. if b then p\<lparr>core := do_pic_check rl (core p)\<rparr> else p)"

definition assemble_instruction :: "settings \<Rightarrow> secid \<Rightarrow> instr \<Rightarrow> (prog, dblock) step" where
  "assemble_instruction opts c ip = bind_st get (\<lambda>p.
     let pc = sec_pc (psec p c)
     in bind_st
          (if debug p then
             bind_st (lift (instruction_size (cpu p) ip (Some c) pc)) (\<lambda>n.
             bind_st (lift (eval_instruction (cpu p) ip (Some c) pc)) (\<lambda>db.
               if db_size db \<noteq> n then fail Ierror else return db))
           else lift (eval_instruction (cpu p) ip (Some c) pc)) (\<lambda>db.
        bind_st (check_pic (pic_check opts) (db_relocs db)) (\<lambda>_. return db)))"

definition assemble_assert :: "secid \<Rightarrow> assertion \<Rightarrow> (prog, unit) step" where
  "assemble_assert c as = bind_st get (\<lambda>p.
     case assert_exp as of
       Some e \<Rightarrow> bind_st (lift (eval_expr e (Some c) (sec_pc (psec p c)))) (\<lambda>(v, _). if v = 0 then error 47 else return ())
     | None \<Rightarrow> error 19)"

definition assemble_content :: "settings \<Rightarrow> secid \<Rightarrow> atom \<Rightarrow> loop \<Rightarrow> (prog, atom \<times> loop) step" where
  "assemble_content opts c a l = bind_st get (\<lambda>p.
     case content a of
       RORG r \<Rightarrow> bind_st (upd_section c (enter_rorg r)) (\<lambda>_. return (a, l))
     | RORGEND \<Rightarrow> bind_st (if sec_has (psec p c) IN_RORG then upd_section c leave_rorg else error 44) (\<lambda>_. return (a, l))
     | INSTRUCTION ip \<Rightarrow> bind_st (assemble_instruction opts c ip) (\<lambda>db. return (a\<lparr>content := DATA db\<rparr>, l))
     | DATADEF d \<Rightarrow>
         bind_st (lift (eval_data (cpu p) (def_op d) (bitsize d) (Some c) (sec_pc (psec p c)))) (\<lambda>db.
         bind_st (check_pic (pic_check opts) (db_relocs db)) (\<lambda>_. return (a\<lparr>content := DATA db\<rparr>, l)))
     | ROFFS r \<Rightarrow> bind_st (roffs_to_space c r a) (\<lambda>a. return (a, l))
     | OPTS v \<Rightarrow> bind_st (modify (\<lambda>p. p\<lparr>cpu := cpu_opts v (cpu p)\<rparr>)) (\<lambda>_. return (a, l))
     | PRINTTEXT t \<Rightarrow> return (a, if nostdout opts then l else l\<lparr>stdout := stdout l @ t\<rparr>)
     | PRINTEXPR pe \<Rightarrow>
         if nostdout opts then return (a, l)
         else bind_st (atom_printexpr pe c) (\<lambda>(t, pe). return (a\<lparr>content := PRINTEXPR pe\<rparr>, l\<lparr>stdout := stdout l @ t\<rparr>))
     | ASSERT as \<Rightarrow> bind_st (assemble_assert c as) (\<lambda>_. return (a, l))
     | NLIST nl \<Rightarrow> bind_st (new_stabdef nl c) (\<lambda>st. return (a, l\<lparr>stabs := stabs l @ [st]\<rparr>))
     | _ \<Rightarrow> return (a, l))"

definition initialized :: "atom \<Rightarrow> bool" where
  "initialized a \<longleftrightarrow> (case content a of
      DATA db \<Rightarrow> db_size db \<noteq> 0 | SPACE sb \<Rightarrow> sb_size sb \<noteq> 0 \<and> fill_exp sb \<noteq> None | _ \<Rightarrow> False)"

definition check_bss :: "settings \<Rightarrow> secid \<Rightarrow> atom \<Rightarrow> loop \<Rightarrow> (prog, loop) step" where
  "check_bss opts c a l = bind_st get (\<lambda>p.
     if CHR ''u'' \<in> set (sec_attr (psec p c)) \<and> initialized a \<and> (lasterrsrc l \<noteq> atom_src a \<or> lasterrline l \<noteq> atom_line a) then
       bind_st
         (if sec_has (psec p c) UNALLOCATED then (if warn_unalloc_ini_dat opts then error 54 else return ()) else error 31)
         (\<lambda>_. return (l\<lparr>lasterrsrc := atom_src a, lasterrline := atom_line a\<rparr>))
     else return l)"

text \<open>Going on to the end of the atom; addresses are compared as unsigned numbers.\<close>

definition assemble_advance :: "secid \<Rightarrow> atom \<Rightarrow> loop \<Rightarrow> (prog, atom \<times> loop) step" where
  "assemble_advance c a l = bind_st get (\<lambda>p.
     let oldpc = sec_pc (psec p c)
     in bind_st (lift (atom_size (cpu p) a c oldpc)) (\<lambda>(a, n).
        let pc = oldpc + word_of_nat n
        in bind_st (upd_section c (\<lambda>x. x\<lparr>sec_pc := pc\<rparr>)) (\<lambda>_.
           if pc \<noteq> oldpc then
             bind_st (if pc - 1 < oldpc \<or> ovflw l then error 45 else return ()) (\<lambda>_. return (a, l\<lparr>ovflw := (pc = 0)\<rparr>))
           else return (a, l))))"

definition assemble_atom :: "settings \<Rightarrow> secid \<Rightarrow> bool \<Rightarrow> atom \<Rightarrow> atom list \<Rightarrow> loop \<Rightarrow> (prog, atom list \<times> loop) step" where
  "assemble_atom opts c first a rest l =
     bind_st (assemble_align c first a rest) (\<lambda>(before, a).
     bind_st (assemble_content opts c a l) (\<lambda>(a, l).
     bind_st (assemble_advance c a l) (\<lambda>(a, l).
     bind_st (check_bss opts c a l) (\<lambda>l.
     bind_st (upd_section c (clear_sec_flag RESOLVE_WARN)) (\<lambda>_.
       return (before @ [a], l))))))"

section \<open>The pass\<close>

fun assemble_atoms :: "settings \<Rightarrow> secid \<Rightarrow> bool \<Rightarrow> atom list \<Rightarrow> loop \<Rightarrow> (prog, atom list \<times> loop) step" where
  "assemble_atoms opts c first [] l = return ([], l)"
| "assemble_atoms opts c first (a # as) l =
     bind_st (assemble_atom opts c first a as l) (\<lambda>(bs, l).
     bind_st (assemble_atoms opts c False as l) (\<lambda>(as, l). return (bs @ as, l)))"

definition assemble_section :: "settings \<Rightarrow> secid \<Rightarrow> loop \<Rightarrow> (prog, loop) step" where
  "assemble_section opts c l =
     bind_st (upd_section c (\<lambda>x. x\<lparr>sec_pc := sec_org x\<rparr>)) (\<lambda>_. bind_st get (\<lambda>p.
     bind_st (assemble_atoms opts c True (atoms p c) (l\<lparr>ovflw := False, lasterrsrc := None, lasterrline := 0\<rparr>)) (\<lambda>(as, l).
     bind_st (put_atoms c as) (\<lambda>_. bind_st get (\<lambda>p.
     bind_st (if sec_has (psec p c) IN_RORG then upd_section c leave_rorg else return ()) (\<lambda>_. return l))))))"

fun assemble_sections :: "settings \<Rightarrow> secid list \<Rightarrow> loop \<Rightarrow> (prog, loop) step" where
  "assemble_sections opts [] l = return l"
| "assemble_sections opts (c # cs) l = bind_st (assemble_section opts c l) (assemble_sections opts cs)"

definition no_loop :: loop where
  "no_loop = \<lparr>ovflw = False, lasterrsrc = None, lasterrline = 0, stabs = [], stdout = []\<rparr>"

definition assemble :: "settings \<Rightarrow> (prog, loop) step" where
  "assemble opts =
     bind_st convert_offset_labels (\<lambda>_.
     bind_st (modify (\<lambda>p. p\<lparr>core := (core p)\<lparr>final_pass := True\<rparr>\<rparr>)) (\<lambda>_.
     bind_st get (\<lambda>p. assemble_sections opts (order p) no_loop)))"


section \<open>What is left is data\<close>

text \<open>Atoms as the parser makes them, and atoms as the output modules expect them.\<close>

definition atom_ok :: "atom \<Rightarrow> bool" where
  "atom_ok a \<longleftrightarrow> (case content a of
      INSTRUCTION ip \<Rightarrow> wf_instr ip | DATA db \<Rightarrow> length (db_data db) = db_size db | _ \<Rightarrow> True)"

definition emitted :: "atom \<Rightarrow> bool" where
  "emitted a \<longleftrightarrow> (case content a of
      INSTRUCTION _ \<Rightarrow> False | DATADEF _ \<Rightarrow> False | DATA db \<Rightarrow> length (db_data db) = db_size db | _ \<Rightarrow> True)"

lemma emitted_simps [simp]:
  "content a = DATA db \<Longrightarrow> emitted a = (length (db_data db) = db_size db)" "content a = SPACE sb \<Longrightarrow> emitted a"
  by (simp_all add: emitted_def)

lemma gives_get: "(\<And>s. gives P (f s)) \<Longrightarrow> gives P (bind_st get f)"
  by (rule gives_after)

lemma gives_lift: "gives P m \<Longrightarrow> gives P (lift m)"
  by (auto simp: gives_def lift_def split: sum.splits)

lemma gives_option: "gives P m \<Longrightarrow> (\<And>x. gives P (f x)) \<Longrightarrow> gives P (case r of None \<Rightarrow> m | Some x \<Rightarrow> f x)"
  by (cases r) simp_all

lemma gives_stop: "(\<And>x. r = Inr x \<Longrightarrow> gives P (f x)) \<Longrightarrow> gives P (case r of Inl e \<Rightarrow> fail e | Inr x \<Rightarrow> f x)"
  by (cases r) (simp_all add: gives_fail)

lemma atom_size_emitted:
  assumes "emitted a"
  shows "gives (\<lambda>r. emitted (fst r)) (atom_size cf a c pc)"
proof -
  have "gives (\<lambda>r. emitted (fst r)) (bind_st (space_size sb (Some c) pc) (\<lambda>(sb, n). return (a\<lparr>content := SPACE sb\<rparr>, n)))" for sb
    by (rule gives_after, rule gives_split, rule gives_return) (simp add: emitted_def)
  then show ?thesis
    using assms unfolding atom_size_def
    by (cases "content a") (simp_all add: gives_return gives_after emitted_def)
qed

lemma pad_space_emitted: "gives emitted (pad_space c a n padding k)"
  unfolding pad_space_def Let_def space_atom_def
  by (intro gives_get gives_if gives_after gives_fail gives_return) (simp_all add: emitted_def)

lemma roffs_to_space_emitted: "emitted a \<Longrightarrow> gives emitted (roffs_to_space c r a)"
  unfolding roffs_to_space_def Let_def
  by (rule gives_get, rule gives_after, rule gives_split, rule gives_after, rule gives_split, rule gives_if,
      rule gives_after, erule gives_return, rule gives_get, rule gives_if, rule gives_stop, rule gives_split,
      rule pad_space_emitted, erule gives_return)

lemma alignment_to_space_emitted: "gives emitted (alignment_to_space nb c first a)"
proof -
  have e: "emitted sa" if "align_space init nb a = Inr sa" for init sa
    using that by (auto simp: align_space_def emitted_def new_space_atom_def new_atom_def split: content.splits if_splits)
  show ?thesis
    unfolding alignment_to_space_def
    by (intro gives_get gives_if gives_fail gives_stop)
      (rule gives_bind [OF gives_lift [OF atom_size_emitted [OF e]]], assumption,
       rule gives_prod, intro gives_if gives_fail gives_return, simp)
qed

lemma assemble_align_ok:
  assumes "atom_ok a"
  shows "gives (\<lambda>r. list_all emitted (fst r) \<and> atom_ok (snd r)) (assemble_align c first a rest)"
proof -
  have ok: "atom_ok (a\<lparr>align := n\<rparr>)" for n using assms by (simp add: atom_ok_def)
  show ?thesis
    unfolding assemble_align_def Let_def
    by (rule gives_get, rule gives_after, rule gives_after, rule gives_after, intro gives_if, rule gives_after, intro gives_if,
        rule gives_bind [OF alignment_to_space_emitted]) (auto intro!: gives_return simp: assms ok)
qed

lemma value_bytes_gives:
  "gives (\<lambda>db. length (db_data db) = db_size db) (eval_data cf op n c pc)"
  unfolding eval_data_def
  by (rule gives_after, rule gives_option, rule gives_fail, rule gives_after, rule gives_split, rule gives_after,
      rule gives_split, rule gives_prod, simp, rule gives_prod, rule gives_after, rule gives_if, rule gives_fail, rule gives_return)
    simp

lemma assemble_instruction_length:
  "wf_instr ip \<Longrightarrow> gives (\<lambda>db. length (db_data db) = db_size db) (assemble_instruction opts c ip)"
  unfolding assemble_instruction_def Let_def
  by (rule gives_get, rule gives_bind [where Q = "\<lambda>db. length (db_data db) = db_size db"], rule gives_if, rule gives_after,
      rule gives_bind [OF gives_lift [OF eval_instruction_size]], assumption, rule gives_if, rule gives_fail, erule gives_return,
      rule gives_lift, erule eval_instruction_size, rule gives_after, erule gives_return)

lemma assemble_content_emitted:
  assumes "atom_ok a"
  shows "gives (\<lambda>r. emitted (fst r)) (assemble_content opts c a l)"
  unfolding assemble_content_def
proof (rule gives_get)
  fix p :: prog
  note e = assms [unfolded atom_ok_def]
  show "gives (\<lambda>r. emitted (fst r)) (case content a of
       RORG r \<Rightarrow> bind_st (upd_section c (enter_rorg r)) (\<lambda>_. return (a, l))
     | RORGEND \<Rightarrow> bind_st (if sec_has (psec p c) IN_RORG then upd_section c leave_rorg else error 44) (\<lambda>_. return (a, l))
     | INSTRUCTION ip \<Rightarrow> bind_st (assemble_instruction opts c ip) (\<lambda>db. return (a\<lparr>content := DATA db\<rparr>, l))
     | DATADEF d \<Rightarrow>
         bind_st (lift (eval_data (cpu p) (def_op d) (bitsize d) (Some c) (sec_pc (psec p c)))) (\<lambda>db.
         bind_st (check_pic (pic_check opts) (db_relocs db)) (\<lambda>_. return (a\<lparr>content := DATA db\<rparr>, l)))
     | ROFFS r \<Rightarrow> bind_st (roffs_to_space c r a) (\<lambda>a. return (a, l))
     | OPTS v \<Rightarrow> bind_st (modify (\<lambda>p. p\<lparr>cpu := cpu_opts v (cpu p)\<rparr>)) (\<lambda>_. return (a, l))
     | PRINTTEXT t \<Rightarrow> return (a, if nostdout opts then l else l\<lparr>stdout := stdout l @ t\<rparr>)
     | PRINTEXPR pe \<Rightarrow>
         if nostdout opts then return (a, l)
         else bind_st (atom_printexpr pe c) (\<lambda>(t, pe). return (a\<lparr>content := PRINTEXPR pe\<rparr>, l\<lparr>stdout := stdout l @ t\<rparr>))
     | ASSERT as \<Rightarrow> bind_st (assemble_assert c as) (\<lambda>_. return (a, l))
     | NLIST nl \<Rightarrow> bind_st (new_stabdef nl c) (\<lambda>st. return (a, l\<lparr>stabs := stabs l @ [st]\<rparr>))
     | _ \<Rightarrow> return (a, l))"
  proof (cases "content a")
    case (INSTRUCTION ip)
    then have "wf_instr ip" using e by simp
    then show ?thesis
      using INSTRUCTION by (simp, intro gives_bind [OF assemble_instruction_length] gives_return) simp_all
  next
    case (DATADEF d)
    then show ?thesis
      by (simp, intro gives_bind [OF gives_lift [OF value_bytes_gives]] gives_after gives_return) simp
  next
    case (ROFFS r)
    then have "emitted a" by (simp add: emitted_def)
    then show ?thesis
      using ROFFS by (simp, intro gives_bind [OF roffs_to_space_emitted] gives_return) simp_all
  next
    case (PRINTEXPR pe)
    then show ?thesis
      by (simp, intro conjI impI gives_return gives_after gives_split) (simp_all add: emitted_def)
  qed (use e in \<open>simp_all add: gives_after gives_return emitted_def\<close>)
qed

lemma assemble_atom_emitted:
  assumes "atom_ok a"
  shows "gives (\<lambda>r. list_all emitted (fst r)) (assemble_atom opts c first a rest l)"
  unfolding assemble_atom_def
proof (rule gives_bind [OF assemble_align_ok [OF assms]], rule gives_prod, rule gives_bind [OF assemble_content_emitted], simp,
    rule gives_prod)
  fix x before a' y a2 and l' :: loop
  assume "list_all emitted (fst x) \<and> atom_ok (snd x)" "x = (before, a')" "emitted (fst y)" "y = (a2, l')"
  then have b: "list_all emitted before" and e: "emitted a2" by simp_all
  have "gives (\<lambda>r. emitted (fst r)) (assemble_advance c a2 l')"
    unfolding assemble_advance_def Let_def
    by (rule gives_get, rule gives_bind [OF gives_lift [OF atom_size_emitted [OF e]]], rule gives_prod, rule gives_after,
        rule gives_if, rule gives_after) (rule gives_return, simp)+
  then show "gives (\<lambda>r. list_all emitted (fst r)) (bind_st (assemble_advance c a2 l') (\<lambda>(a, l).
     bind_st (check_bss opts c a l) (\<lambda>l. bind_st (upd_section c (clear_sec_flag RESOLVE_WARN)) (\<lambda>_. return (before @ [a], l)))))"
    by (rule gives_bind) (rule gives_prod, intro gives_after gives_return, simp add: b)
qed

lemma assemble_atoms_emitted:
  "list_all atom_ok as \<Longrightarrow> gives (\<lambda>r. list_all emitted (fst r)) (assemble_atoms opts c first as l)"
proof (induction as arbitrary: first l)
  case (Cons a as)
  then have a: "atom_ok a" and as: "list_all atom_ok as" by simp_all
  show ?case
    unfolding assemble_atoms.simps
    by (rule gives_bind [OF assemble_atom_emitted [OF a]], rule gives_prod, rule gives_bind [OF Cons.IH [OF as]], rule gives_prod,
        rule gives_return) simp
qed (simp add: gives_return)

section \<open>All sections\<close>

lemma assemble_content_atoms: "sat.holds (assemble_content opts c a l)"
proof -
  have r: "sat.holds (roffs_to_space c r a)" for r
    unfolding roffs_to_space_def pad_space_def Let_def by (intro sat.holds_rules sat.holds_lift sat.holds_core)
  have n: "sat.holds (new_stabdef nl c)" for nl
    unfolding new_stabdef_def Let_def by (intro sat.holds_rules sat.holds_lift sat.holds_core)
  have x: "sat.holds (atom_printexpr pe c)" for pe
    unfolding atom_printexpr_def Let_def by (intro sat.holds_rules sat.holds_lift sat.holds_core)
  have k: "sat.holds (check_pic b rl)" for b rl
    unfolding check_pic_def by (rule sat.holds_modify) (simp add: same_atoms_def)
  have i: "sat.holds (assemble_instruction opts c ip)" for ip
    unfolding assemble_instruction_def Let_def by (intro sat.holds_rules sat.holds_lift sat.holds_core k)
  have t: "sat.holds (assemble_assert c as)" for as
    unfolding assemble_assert_def by (intro sat.holds_rules sat.holds_lift sat.holds_core)
  have o: "sat.holds (modify (\<lambda>p. p\<lparr>cpu := cpu_opts v (cpu p)\<rparr>))" for v
    by (rule sat.holds_modify) (simp add: same_atoms_def)
  show ?thesis
    unfolding assemble_content_def
    by (cases "content a") (simp_all only: content.case, (intro sat.holds_rules sat.holds_lift sat.holds_core r n x k i t o)+)
qed

lemma assemble_atom_atoms: "sat.holds (assemble_atom opts c first a rest l)"
proof -
  have s: "sat.holds (set_source a)"
    unfolding set_source_def by (rule sat.holds_modify) (simp add: same_atoms_def)
  have w: "sat.holds (auto_aligned a rest)"
    unfolding auto_aligned_def by (simp split: content.split add: sat.holds_basic sat.holds_core)
  have b: "sat.holds (assemble_align c first a rest)"
    unfolding assemble_align_def alignment_to_space_def Let_def by (intro sat.holds_rules sat.holds_lift sat.holds_core s w)
  have v: "sat.holds (assemble_advance c a l)" for a l
    unfolding assemble_advance_def Let_def by (intro sat.holds_rules sat.holds_lift sat.holds_core)
  have u: "sat.holds (check_bss opts c a l)" for a l
    unfolding check_bss_def by (intro sat.holds_rules sat.holds_core)
  show ?thesis
    unfolding assemble_atom_def by (intro sat.holds_rules sat.holds_core assemble_content_atoms b v u)
qed

lemma assemble_atoms_atoms: "sat.holds (assemble_atoms opts c first as l)"
proof (induction as arbitrary: first l)
  case (Cons a as)
  show ?case unfolding assemble_atoms.simps by (intro sat.holds_rules assemble_atom_atoms Cons.IH)
qed (simp add: sat.holds_basic)

lemma assemble_section_atoms:
  assumes "assemble_section opts c l p = Inr (p', l')" and "list_all atom_ok (atoms p c)"
  shows "order p' = order p \<and> list_all emitted (atoms p' c) \<and> (\<forall>d. d \<noteq> c \<longrightarrow> atoms p' d = atoms p d)"
proof -
  obtain p1 p2 p3 u as where 1: "upd_section c (\<lambda>x. x\<lparr>sec_pc := sec_org x\<rparr>) p = Inr (p1, u)"
    and 2: "assemble_atoms opts c True (atoms p1 c) (l\<lparr>ovflw := False, lasterrsrc := None, lasterrline := 0\<rparr>) p1 = Inr (p2, as, l')"
    and 3: "put_atoms c as p2 = Inr (p3, ())"
    and 4: "(if sec_has (psec p3 c) IN_RORG then upd_section c leave_rorg else return ()) p3 = Inr (p', ())"
    using assms(1) by (auto simp: assemble_section_def bind_st_Inr get_Inr return_Inr)
  have s1: "same_atoms p p1" by (rule sat.holdsD [OF sat.holds_core(2) 1])
  have s2: "same_atoms p1 p2" by (rule sat.holdsD [OF assemble_atoms_atoms 2])
  have "sat.holds (if sec_has (psec p3 c) IN_RORG then upd_section c leave_rorg else return ())"
    by (intro sat.holds_rules sat.holds_core)
  then have s4: "same_atoms p3 p'" using 4 by (rule sat.holdsD)
  have "list_all atom_ok (atoms p1 c)" using assms(2) s1 by (simp add: same_atoms_def)
  then have "list_all emitted as" using givesD [OF assemble_atoms_emitted 2] by simp
  then show ?thesis using s1 s2 s4 3 by (simp add: same_atoms_def put_atoms_def modify_Inr)
qed

lemma assemble_sections_atoms:
  assumes "assemble_sections opts cs l p = Inr (p', l')" and "\<forall>c \<in> set cs. list_all atom_ok (atoms p c)"
    and "distinct cs"
  shows "order p' = order p \<and> (\<forall>c \<in> set cs. list_all emitted (atoms p' c)) \<and> (\<forall>d. d \<notin> set cs \<longrightarrow> atoms p' d = atoms p d)"
  using assms
proof (induction cs arbitrary: l p)
  case (Cons c cs)
  obtain p1 l1 where 1: "assemble_section opts c l p = Inr (p1, l1)" and 2: "assemble_sections opts cs l1 p1 = Inr (p', l')"
    using Cons.prems(1) by (auto simp: bind_st_Inr)
  have s: "order p1 = order p \<and> list_all emitted (atoms p1 c) \<and> (\<forall>d. d \<noteq> c \<longrightarrow> atoms p1 d = atoms p d)"
    using assemble_section_atoms [OF 1] Cons.prems(2) by simp
  have c: "c \<notin> set cs" using Cons.prems(3) by simp
  have "\<forall>d \<in> set cs. atoms p1 d = atoms p d" using s c by auto
  then have "\<forall>d \<in> set cs. list_all atom_ok (atoms p1 d)" using Cons.prems(2) by simp
  then show ?case using Cons.IH [OF 2] Cons.prems(3) s c by auto
qed (simp add: return_Inr)

text \<open>
  C6. After the final pass every section of the program consists of atoms the output modules
  can write: no instruction and no data definition is left, and every block of data has as
  many bytes as its size says, for instructions the size the resolver reckoned with.
\<close>

theorem assembled_is_data:
  assumes "assemble opts p = Inr (p', l)" and "distinct (order p)"
    and "\<forall>c \<in> set (order p). list_all atom_ok (atoms p c)"
  shows "order p' = order p \<and> (\<forall>c \<in> set (order p'). list_all emitted (atoms p' c))"
proof -
  obtain p1 p2 where 1: "convert_offset_labels p = Inr (p1, ())"
    and 2: "p2 = p1\<lparr>core := (core p1)\<lparr>final_pass := True\<rparr>\<rparr>"
    and 3: "assemble_sections opts (order p2) no_loop p2 = Inr (p', l)"
    using assms(1) by (auto simp: assemble_def action_Inr)
  have "order p2 = order p" "atoms p2 = atoms p" using 1 2 by (simp_all add: convert_offset_labels_def modify_Inr)
  then show ?thesis using assemble_sections_atoms [OF 3] assms(2,3) by simp
qed

definition plain_settings :: settings where
  "plain_settings = \<lparr>pic_check = False, auto_import = True, add_uscore = False, output_indirect = False,
     warn_unalloc_ini_dat = False, nostdout = False\<rparr>"

definition data_of :: "atom \<Rightarrow> u8 list" where
  "data_of a = (case content a of DATA db \<Rightarrow> db_data db | _ \<Rightarrow> [])"

lemma assembled_is_data_witness:
  "\<exists>p' l. assemble plain_settings loop_prog = Inr (p', l)
     \<and> map data_of (atoms p' 0) = [[], [0x4c, 0x00, 0x10], []]
     \<and> list_all emitted (atoms p' 0)"
proof -
  have "case assemble plain_settings loop_prog of Inl _ \<Rightarrow> False
    | Inr (p', l) \<Rightarrow> map data_of (atoms p' 0) = [[], [0x4c, 0x00, 0x10], []]"
    by code_simp
  then obtain p' l where r: "assemble plain_settings loop_prog = Inr (p', l)"
    "map data_of (atoms p' 0) = [[], [0x4c, 0x00, 0x10], []]"
    by (auto split: sum.splits)
  have "order p' = order loop_prog \<and> (\<forall>c \<in> set (order p'). list_all emitted (atoms p' c))"
    by (rule assembled_is_data [OF r(1)])
      (simp_all add: loop_prog_def atom_ok_def wf_instr_def wf_operand_def new_label_atom_def new_inst_atom_def new_atom_def)
  then show ?thesis using r by (simp add: loop_prog_def)
qed

end
