(* ===== verification/Finish.thy ===== *)
theory Finish
  imports Assemble
begin

text \<open>
  After the final pass (\<open>src/vasm.c\<close>, \<open>src/supp.c\<close>): undefined symbols are reported, symbols
  that depend on labels are fixed, uninitialized space at the end of a section is left out, and
  sections are joined at ascending addresses with their relocations done. At the end all phases
  are composed as \<open>main\<close> does after parsing.
\<close>

section \<open>Undefined symbols\<close>

definition undef_sym :: "settings \<Rightarrow> symid \<Rightarrow> (prog, unit) step" where
  "undef_sym opts y = bind_st get (\<lambda>p.
     let x = sym (core p) y
     in if sym_type x = IMPORT then
          (if \<not> auto_import opts \<and> \<not> sym_has x (EXPORT OR COMMON OR WEAK) then error 22
           else if sym_has x XDEF then error 86
           else if \<not> sym_has x (REFERENCED OR COMMON OR WEAK OR VASMINTERN) then error 61
           else return ())
        else return ())"

fun for_each :: "('a \<Rightarrow> (prog, unit) step) \<Rightarrow> 'a list \<Rightarrow> (prog, unit) step" where
  "for_each f [] = return ()"
| "for_each f (x # xs) = bind_st (f x) (\<lambda>_. for_each f xs)"

definition undef_syms :: "settings \<Rightarrow> (prog, unit) step" where
  "undef_syms opts = bind_st get (\<lambda>p. for_each (undef_sym opts) (symlist p))"

section \<open>Fixing symbols\<close>

definition TYPE_MASK :: u32 where "TYPE_MASK = 7"
definition SYMINDIR :: u32 where "SYMINDIR = 0x40000"

definition absolute_label :: "symbol \<Rightarrow> symbol" where
  "absolute_label x = clear_flag (TYPE_MASK OR COMMON)
     (x\<lparr>sym_type := EXPRESSION, sym_sec := None, sym_size := None, sym_align := 0, sym_expr := Some (NUM (sym_pc x))\<rparr>)"

definition fix_based :: "settings \<Rightarrow> symid \<Rightarrow> symid \<Rightarrow> taddr \<Rightarrow> (prog, unit) step" where
  "fix_based opts y b val = bind_st get (\<lambda>p.
     let x = sym (core p) y; base = sym (core p) b
     in if output_indirect opts \<and> sym_has x EXPORT \<and> sym_type base = IMPORT then
          bind_st (upd_symbol y (set_flag SYMINDIR)) (\<lambda>_. upd_symbol b (set_flag REFERENCED))
        else if sym_type base = IMPORT then
          (if \<not> sym_has x EXPORT then rem_symbol y else error 81)
        else
          upd_symbol y (\<lambda>x. x\<lparr>sym_type := sym_type base, sym_sec := sym_sec base, sym_pc := val, sym_align := 0\<rparr>))"

definition fix_expression :: "settings \<Rightarrow> symid \<Rightarrow> expr \<Rightarrow> (prog, unit) step" where
  "fix_expression opts y e =
     bind_st (lift (type_of_expr e)) (\<lambda>t.
     if t \<noteq> 1 then return ()
     else
       bind_st (lift (eval_expr e None 0)) (\<lambda>(val, cnst).
       if cnst then return ()
       else
         bind_st (lift (find_base e None 0)) (\<lambda>(bt, base).
         if bt = BASE_OK then (case base of None \<Rightarrow> fail Undefined | Some b \<Rightarrow> fix_based opts y b val)
         else error 53)))"

definition fix_label :: "settings \<Rightarrow> symid \<Rightarrow> (prog, unit) step" where
  "fix_label opts y = bind_st get (\<lambda>p.
     let x = sym (core p) y
     in bind_st
          (if add_uscore opts \<and> (sym_type x = IMPORT \<or> sym_has x (EXPORT OR COMMON OR WEAK))
           then upd_symbol y (\<lambda>x. x\<lparr>sym_name := CHR ''_'' # sym_name x\<rparr>) else return ()) (\<lambda>_.
        if sym_has x ABSLABEL \<and> sym_type x = LABSYM then upd_symbol y absolute_label
        else if sym_type x = EXPRESSION then
          (case sym_expr x of None \<Rightarrow> return () | Some e \<Rightarrow> fix_expression opts y e)
        else return ()))"

text \<open>Only the symbol at hand is ever removed from the list, so the rest is visited as it was.\<close>

definition fix_labels :: "settings \<Rightarrow> (prog, unit) step" where
  "fix_labels opts = bind_st get (\<lambda>p. for_each (fix_label opts) (symlist p))"

section \<open>Trimming\<close>

text \<open>
  The end of the written atoms of a section is the number of atoms up to its last initialized
  one; the program counter of the section goes back to there. No atom means it stays.
\<close>

definition writes :: "atom \<Rightarrow> bool" where
  "writes a \<longleftrightarrow> (case content a of DATA _ \<Rightarrow> True | SPACE sb \<Rightarrow> sb_flags sb AND SPC_UNINITIALIZED = 0 | _ \<Rightarrow> False)"

fun trim_atoms :: "secid \<Rightarrow> atom list \<Rightarrow> taddr \<Rightarrow> nat \<Rightarrow> nat \<Rightarrow> (prog, atom list \<times> nat) step" where
  "trim_atoms c [] pc i n = return ([], n)"
| "trim_atoms c (a # as) pc i n = bind_st get (\<lambda>p.
     let pc = pcalign a pc
     in bind_st (lift (atom_size (cpu p) a c pc)) (\<lambda>(a, sz).
        let pc = pc + word_of_nat sz
        in bind_st (if writes a then upd_section c (\<lambda>x. x\<lparr>sec_pc := pc\<rparr>) else return ()) (\<lambda>_.
           bind_st (trim_atoms c as pc (i + 1) (if writes a then i + 1 else n)) (\<lambda>(as, n). return (a # as, n)))))"

fun trim_uninitialized :: "secid list \<Rightarrow> (prog, (secid \<times> nat) list) step" where
  "trim_uninitialized [] = return []"
| "trim_uninitialized (c # cs) = bind_st get (\<lambda>p.
     bind_st (trim_atoms c (atoms p c) (sec_org (psec p c)) 0 0) (\<lambda>(as, n).
     bind_st (put_atoms c as) (\<lambda>_.
     bind_st (trim_uninitialized cs) (\<lambda>ns. return ((c, n) # ns)))))"

section \<open>Values of symbols and sections\<close>

definition get_sym_value :: "symid \<Rightarrow> taddr action" where
  "get_sym_value y = bind_st get (\<lambda>s.
     let x = sym s y
     in if sym_has x COMMON then return (sym_align x)
        else case sym_type x of
               LABSYM \<Rightarrow> return (sym_pc x)
             | EXPRESSION \<Rightarrow>
                 (case sym_expr x of
                    None \<Rightarrow> fail Ierror
                  | Some e \<Rightarrow> bind_st (eval_expr e None 0) (\<lambda>(v, _). return v))
             | IMPORT \<Rightarrow> return 0)"

definition get_sym_size :: "symid \<Rightarrow> taddr action" where
  "get_sym_size y = bind_st get (\<lambda>s.
     case sym_size (sym s y) of
       None \<Rightarrow> return 0
     | Some e \<Rightarrow> bind_st (eval_expr e None 0) (\<lambda>(v, _). return v))"

definition get_sec_size :: "sect option \<Rightarrow> taddr" where
  "get_sec_size c = (case c of None \<Rightarrow> 0 | Some x \<Rightarrow> sec_pc x - sec_org x)"

datatype sectype = S_MISS | S_TEXT | S_DATA | S_BSS | S_ABS

fun type_by_attr :: "string \<Rightarrow> sectype" where
  "type_by_attr [] = S_MISS"
| "type_by_attr (a # as) =
     (if a = CHR ''c'' then S_TEXT else if a = CHR ''d'' then S_DATA else if a = CHR ''u'' then S_BSS else type_by_attr as)"

definition get_sec_type :: "sect \<Rightarrow> sectype" where
  "get_sec_type x = (if sec_has x ABSOLUTE then S_ABS else type_by_attr (sec_attr x))"

section \<open>Joining sections\<close>

fun join_sizes :: "secid \<Rightarrow> atom list \<Rightarrow> taddr \<Rightarrow> (prog, atom list \<times> taddr) step" where
  "join_sizes c [] pc = return ([], pc)"
| "join_sizes c (a # as) pc = bind_st get (\<lambda>p.
     bind_st (lift (atom_size (cpu p) a c (pcalign a pc))) (\<lambda>(a, sz).
     bind_st (join_sizes c as (pc + word_of_nat sz)) (\<lambda>(as, pc). return (a # as, pc))))"

fun join_places :: "secid list \<Rightarrow> taddr \<Rightarrow> (prog, unit) step" where
  "join_places [] pc = return ()"
| "join_places (c # cs) pc = bind_st get (\<lambda>p.
     if sec_has (psec p c) ABSOLUTE then join_places cs pc
     else
       let pc = pc + balign pc (sec_align (psec p c))
       in bind_st (upd_section c (\<lambda>x. x\<lparr>sec_org := pc\<rparr>)) (\<lambda>_.
          bind_st (join_sizes c (atoms p c) pc) (\<lambda>(as, pc).
          bind_st (put_atoms c as) (\<lambda>_.
          bind_st (upd_section c (\<lambda>x. x\<lparr>sec_pc := pc\<rparr>)) (\<lambda>_. join_places cs pc)))))"

definition join_symbol :: "symid \<Rightarrow> (prog, unit) step" where
  "join_symbol y = bind_st get (\<lambda>p.
     let x = sym (core p) y
     in if sym_type x = LABSYM \<and> \<not> sym_has x ABSLABEL then
          (case sym_sec x of
             None \<Rightarrow> fail Undefined
           | Some c \<Rightarrow> upd_symbol y (\<lambda>x. set_flag ABSLABEL (x\<lparr>sym_pc := sym_pc x + sec_org (psec p c)\<rparr>)))
        else return ())"

definition reloc_value :: "int \<Rightarrow> nreloc \<Rightarrow> taddr \<Rightarrow> taddr action" where
  "reloc_value t r pc = bind_st (get_sym_value (rel_sym r)) (\<lambda>v. bind_st get (\<lambda>s.
     case nreloc_real_addend s r of
       None \<Rightarrow> fail Undefined
     | Some a \<Rightarrow> return (if std_reloc t = REL_PC then (v + a) - (pc + word_of_nat (byteoffset r)) else v + a)))"

fun join_relocs :: "atom \<Rightarrow> taddr \<Rightarrow> rlist \<Rightarrow> atom action" where
  "join_relocs a pc [] = return a"
| "join_relocs a pc (rl # rls) =
     bind_st
       (if std_reloc (fst rl) = REL_PC \<or> std_reloc (fst rl) = REL_ABS then
          bind_st (checkdefined rl) (\<lambda>_.
          bind_st (reloc_value (fst rl) (snd rl) pc) (\<lambda>v.
          bind_st (patch_nreloc a rl v False) (\<lambda>(a, _). return a)))
        else bind_st (modify (unsupp_reloc_error (fst rl))) (\<lambda>_. return a)) (\<lambda>a. join_relocs a pc rls)"

fun join_atoms :: "secid \<Rightarrow> atom list \<Rightarrow> taddr \<Rightarrow> (prog, atom list \<times> taddr) step" where
  "join_atoms c [] pc = return ([], pc)"
| "join_atoms c (a # as) pc = bind_st get (\<lambda>p.
     let pc = pcalign a pc
     in bind_st (lift (join_relocs a pc (get_relocs a))) (\<lambda>a.
        bind_st (lift (atom_size (cpu p) a c pc)) (\<lambda>(a, sz).
        bind_st (join_atoms c as (pc + word_of_nat sz)) (\<lambda>(as, pc). return (a # as, pc)))))"

definition join_section :: "secid \<Rightarrow> (prog, unit) step" where
  "join_section c = bind_st get (\<lambda>p.
     if sec_has (psec p c) ABSOLUTE then return ()
     else
       bind_st (join_atoms c (atoms p c) (sec_org (psec p c))) (\<lambda>(as, pc).
       bind_st (put_atoms c as) (\<lambda>_.
         upd_section c (\<lambda>x. set_sec_flag ABSOLUTE (x\<lparr>sec_pc := pc\<rparr>)))))"

definition join_sections :: "taddr \<Rightarrow> (prog, unit) step" where
  "join_sections pc = bind_st get (\<lambda>p.
     bind_st (join_places (order p) pc) (\<lambda>_.
     bind_st (for_each join_symbol (symlist p)) (\<lambda>_. for_each join_section (order p))))"

section \<open>All phases\<close>

text \<open>
  From the end of the parser to the output module, without a listing and dependencies. The
  result is \<open>None\<close> when an error keeps the object file from being written.
\<close>

definition phases ::
  "settings \<Rightarrow> nat \<Rightarrow> nat \<Rightarrow> ((secid \<times> nat) list \<Rightarrow> (prog, 'a) step) \<Rightarrow> (prog, 'a option) step" where
  "phases opts rounds maxpasses write_object =
     bind_st cleanup_parse (\<lambda>_. bind_st get (\<lambda>p.
     bind_st (if no_errors p then resolve rounds maxpasses else return ()) (\<lambda>_. bind_st get (\<lambda>p.
     bind_st (if no_errors p then bind_st (assemble opts) (\<lambda>_. return ()) else return ()) (\<lambda>_.
     bind_st (modify (\<lambda>p. p\<lparr>source := None\<rparr>)) (\<lambda>_. bind_st get (\<lambda>p.
     bind_st (if no_errors p then bind_st (fix_labels opts) (\<lambda>_. undef_syms opts) else return ()) (\<lambda>_.
     bind_st remove_unalloc_sects (\<lambda>_. bind_st get (\<lambda>p.
     if no_errors p then
       bind_st (trim_uninitialized (order p)) (\<lambda>ends. bind_st (write_object ends) (\<lambda>r. return (Some r)))
     else return None))))))))))"

end
