(* ===== verification/Report.thy ===== *)
theory Report
  imports Finish
begin

text \<open>
  No phase loses a message: every operation of the core and of the program only adds to the
  messages reported. So a program without errors at the end had none in between, and an object
  file is written only for a program that was resolved, assembled and fixed without an error.
\<close>

section \<open>The core\<close>

text \<open>
  The interface: a relation that holds across messages, changes of the flags of a symbol, of its
  address, and changes of a section holds across every operation of the core.
\<close>

locale core_frame = step_frame R for R :: "asm \<Rightarrow> asm \<Rightarrow> bool" +
  assumes R_log: "R s (log_all ms s)"
    and R_curpc: "R s (update_curpc y c pc s)"
    and R_sym: "(\<And>x. sym_name (f x) = sym_name x) \<Longrightarrow> R s (upd_sym y f s)"
    and R_sec: "R s (upd_sec d g s)"

sublocale core_frame \<subseteq> acf: action_frame c pc "\<lambda>_. True" R for c pc
proof
  show "R s s' \<Longrightarrow> R s' s'' \<Longrightarrow> R s s''" for s s' s'' by (rule R_trans)
  have flag: "R s (upd_sym y (set_flag m) s)" "R s (upd_sym y (clear_flag m) s)" for y m s
    by (rule R_sym, simp add: set_flag_def clear_flag_def)+
  show "R (upd_sym y (set_flag INEVAL) s) s1 \<Longrightarrow> R s (upd_sym y (clear_flag INEVAL) s1)" for y s s1
    by (rule R_trans [OF R_trans [OF flag(1)] flag(2)])
  have "general_error n s = log_all [n] s" for n s by (simp add: general_error_def log_all_def)
  then show "R s (general_error n s)" for n s using R_log by simp
qed (simp_all add: R_refl R_log R_curpc R_sec)

context core_frame
begin

lemma holds_keeps: "acf.keeps m \<Longrightarrow> holds m"
  by (simp add: acf.keeps_def holds_def)

lemma R_error: "R s (general_error n s)"
  by (rule acf.F_error) simp

lemma R_cpu_errs: "R s (cpu_errs es s)"
proof (induction es arbitrary: s)
  case (Cons n es)
  have "R s (cpu_err n s)" by (simp add: cpu_err_def R_error)
  then show ?case using R_trans [OF _ Cons.IH] by simp
qed (simp add: R_refl)

lemmas core_rules = holds_bind holds_basic holds_prod holds_if holds_option holds_keeps [OF acf.keeps_eval(1)]
  holds_keeps [OF acf.keeps_eval(2)]

lemma holds_errors: "holds (modify (general_error n))" "holds (modify (cpu_errs es))" "holds (modify (cpu_err n))"
  "holds (modify (output_err n))" "holds (modify (unsupp_reloc_error t))"
  "holds (modify (upd_sym y (set_flag m)))" "holds (modify (upd_sym y (clear_flag m)))"
  by (rule holds_modify, simp add: R_cpu_errs R_error R_refl R_sym set_flag_def clear_flag_def cpu_err_def output_err_def
    unsupp_reloc_error_def)+

lemma holds_add_extnreloc: "holds (add_extnreloc rl y a t bo sz by)"
  unfolding add_extnreloc_def Let_def by (intro core_rules holds_errors)

lemma holds_eval_operand: "holds (eval_operand cf op c pc d rl)"
proof -
  have p: "holds (is_pc_reloc y c)" for y
    unfolding is_pc_reloc_def by (intro core_rules)
  have m: "holds (add_extnreloc_masked rl y a t bo sz by m)" for rl y a t bo sz "by" m
    unfolding add_extnreloc_masked_def by (intro core_rules holds_add_extnreloc)
  have r: "holds (relocate_operand cf op v b offs rl c pc)" for v b offs rl
    unfolding relocate_operand_def Let_def by (intro core_rules holds_errors p m)
  show ?thesis
    unfolding eval_operand_def by (intro core_rules holds_errors r holds_sum)
qed

lemma holds_eval_instruction: "holds (eval_instruction cf ip c pc)"
proof -
  have "holds (eval_operands cf ops c pc d rl)" for ops d rl
  proof (induction ops arbitrary: d rl)
    case (Cons op ops)
    show ?case unfolding eval_operands.simps by (intro core_rules holds_eval_operand Cons.IH)
  qed (simp add: holds_basic)
  then show ?thesis
    unfolding eval_instruction_def Let_def by (intro core_rules holds_keeps [OF acf.keeps_optimize_instruction])
qed

lemma holds_eval_data: "holds (eval_data cf op n c pc)"
proof -
  have e: "holds (modify (\<lambda>s. if b then cpu_err 3 s else s))" for b
    by (rule holds_modify) (simp add: cpu_err_def R_error R_refl)
  show ?thesis
    unfolding eval_data_def Let_def by (intro core_rules holds_errors holds_add_extnreloc e)
qed

lemma holds_atom_size: "holds (atom_size cf a c pc)"
proof -
  have l: "holds (fill_relocs n i sb y v)" for n i sb y v
  proof (induction n arbitrary: i sb)
    case (Suc n)
    show ?case unfolding fill_relocs.simps by (intro core_rules holds_add_extnreloc Suc.IH)
  qed (simp add: holds_basic)
  have f: "holds (space_fill sb n fe c' pc)" for sb n fe c'
    unfolding space_fill_def Let_def by (intro core_rules holds_errors holds_sum holds_add_extnreloc l)
  have s: "holds (space_size sb c' pc)" for sb c'
    unfolding space_size_def by (intro core_rules holds_errors f)
  have r: "holds (roffs_size r c pc)" for r
    unfolding roffs_size_def Let_def by (intro core_rules)
  show ?thesis
    unfolding atom_size_def
    by (cases "content a") (simp_all only: content.case, (intro core_rules s r holds_keeps [OF acf.keeps_instruction_size])+)
qed

lemma holds_type_of: "holds (type_of n e)"
proof (induction n arbitrary: e)
  case 0
  show ?case by (induction e) (simp_all only: type_of.simps, (intro core_rules | assumption)+)
next
  case (Suc n)
  show ?case by (induction e) (simp_all only: type_of.simps, (intro core_rules holds_errors Suc.IH | assumption)+)
qed

end

text \<open>Messages are only added, and the number of sections and the names of symbols stay as they are.\<close>

definition reports :: "asm \<Rightarrow> asm \<Rightarrow> bool" where
  "reports s s' \<longleftrightarrow> (\<exists>ms. msgs s' = msgs s @ ms) \<and> length (secs s') = length (secs s)
     \<and> map sym_name (syms s') = map sym_name (syms s)"

lemma reports_simps [simp]: "reports s s" "reports s (general_error n s)" "reports s (log_all ms s)"
  "reports (upd_sec c g s) s' = reports s s'" "reports s (upd_sec c g s') = reports s s'"
  by (simp_all add: reports_def log_all_def)

lemma reports_trans: "reports s s' \<Longrightarrow> reports s' s'' \<Longrightarrow> reports s s''"
  by (auto simp: reports_def)

lemma reports_sym: "(\<And>x. sym_name (f x) = sym_name x) \<Longrightarrow> reports s (upd_sym y f s)"
  by (simp add: reports_def map_upd_same)

interpretation act: core_frame reports
proof
  show "reports s s' \<Longrightarrow> reports s' s'' \<Longrightarrow> reports s s''" for s s' s'' by (rule reports_trans)
  show "reports s (update_curpc y c pc s)" for s y c pc
    by (simp add: update_curpc_def reports_sym set_flag_def clear_flag_def split: option.split)
qed (simp_all add: reports_sym)

lemma reports_do_pic_check: "reports s (do_pic_check rl s)"
proof (induction rl arbitrary: s)
  case (Cons x rl)
  obtain t r where x: "x = (t, r)" by (cases x)
  have "reports s (if t = REL_ABS \<or> t = REL_UABS then
          (if sym_type (sym s (rel_sym r)) = LABSYM
              \<or> (sym_type (sym s (rel_sym r)) = IMPORT \<and> sym_has (sym s (rel_sym r)) EXPORT)
           then general_error 34 s else s)
        else s)" by simp
  then show ?case unfolding x do_pic_check.simps using reports_trans [OF _ Cons.IH] by blast
qed simp

section \<open>The program\<close>

definition more_messages :: "prog \<Rightarrow> prog \<Rightarrow> bool" where
  "more_messages p p' \<longleftrightarrow> (\<exists>ms. msgs (core p') = msgs (core p) @ ms)"

interpretation pgm: step_frame more_messages
  by unfold_locales (auto simp: more_messages_def)

lemma no_errors_before: "more_messages p p' \<Longrightarrow> no_errors p' \<Longrightarrow> no_errors p"
  by (auto simp: more_messages_def no_errors_def)

lemma pgm_lift: "act.holds m \<Longrightarrow> pgm.holds (lift m)"
  by (auto simp: pgm.holds_def act.holds_def lift_def more_messages_def reports_def split: sum.splits)

lemma pgm_basic: "pgm.holds (error n)" "pgm.holds (upd_section c f)" "pgm.holds (upd_symbol y g)" "pgm.holds (put_atoms c as)"
  by (auto simp: error_def upd_section_def upd_symbol_def put_atoms_def more_messages_def intro!: pgm.holds_modify)

lemma pgm_outside: "(\<And>p. msgs (core (f p)) = msgs (core p)) \<Longrightarrow> pgm.holds (modify f)"
  by (rule pgm.holds_modify) (simp add: more_messages_def)

lemmas pgm_rules = pgm.holds_bind pgm.holds_basic pgm.holds_prod pgm.holds_if pgm.holds_option pgm.holds_sum pgm.holds_list
  pgm_basic pgm_lift [OF act.holds_atom_size] pgm_lift [OF act.holds_keeps [OF act.acf.keeps_eval(1)]] pgm_lift [OF act.holds_keeps [OF act.acf.keeps_eval(2)]]

lemma pgm_type_of_expr: "pgm.holds (lift (type_of_expr e))"
  by (rule pgm_lift) (auto simp: act.holds_def type_of_expr_def dest: act.holdsD [OF act.holds_type_of])

lemma pgm_cleanup_parse: "pgm.holds cleanup_parse"
proof -
  have a: "pgm.holds (internal_add_atom c a)" for c a
    unfolding internal_add_atom_def Let_def by (intro pgm_rules)
  have r: "pgm.holds (reset_rorg c)" for c
    unfolding reset_rorg_def add_atom_def option.case by (intro pgm_rules a)
  have "pgm.holds (cleanup_sections cs)" for cs
  proof (induction cs)
    case (Cons c cs)
    show ?case unfolding cleanup_sections.simps by (intro pgm_rules r Cons.IH)
  qed (simp add: pgm.holds_basic)
  then show ?thesis unfolding cleanup_parse_def by (intro pgm_rules)
qed

lemma pgm_resolve_section: "pgm.holds (resolve_section mp c)"
proof -
  have o: "pgm.holds (modify (\<lambda>p. p\<lparr>cpu := cpu_opts v (cpu p)\<rparr>))" for v by (rule pgm_outside) simp
  have m: "pgm.holds (modify (\<lambda>p. p\<lparr>core := upd_sym y (f p) (core p)\<rparr>))" for y f by (rule pgm_outside) simp
  have s: "pgm.holds (set_source a)" for a unfolding set_source_def by (rule pgm_outside) simp
  have t: "pgm.holds (resolve_content c a)" for a
    unfolding resolve_content_def by (cases "content a") (simp_all only: content.case, (intro pgm_rules o m)+)
  have w: "pgm.holds (size_warned a c)" for a unfolding size_warned_def by (intro pgm_rules)
  have a: "pgm.holds (resolve_atom safe c a f)" for safe a f
    unfolding resolve_atom_def advance_def Let_def by (intro pgm_rules s t w)
  have as: "pgm.holds (resolve_atoms safe c as f)" for safe as f
  proof (induction as arbitrary: f)
    case (Cons a as)
    show ?case unfolding resolve_atoms.simps by (intro pgm_rules a Cons.IH)
  qed (simp add: pgm.holds_basic)
  have p: "pgm.holds (resolve_pass safe c)" for safe unfolding resolve_pass_def by (intro pgm_rules as)
  have "pgm.holds (resolve_loop left pass fp c)" for left pass fp
  proof (induction left arbitrary: pass fp)
    case (Suc left)
    show ?case unfolding resolve_loop.simps by (intro pgm_rules p Suc.IH)
  qed (simp add: pgm.holds_basic)
  then show ?thesis unfolding resolve_section_def .
qed

lemma pgm_resolve: "pgm.holds (resolve k mp)"
proof -
  have o: "pgm.holds (modify (\<lambda>p. p\<lparr>core := (core p)\<lparr>final_pass := False\<rparr>\<rparr>))" by (rule pgm_outside) simp
  have r: "pgm.holds (resolve_round mp cs fin todo)" for cs fin todo
  proof (induction cs arbitrary: fin todo)
    case (Cons c cs)
    show ?case unfolding resolve_round.simps Let_def by (intro pgm_rules pgm_resolve_section Cons.IH)
  qed (simp add: pgm.holds_basic)
  have "pgm.holds (resolve_rounds k mp todo)" for todo
  proof (induction k arbitrary: todo)
    case (Suc k)
    show ?case unfolding resolve_rounds.simps by (intro pgm_rules r Suc.IH)
  qed (simp add: pgm.holds_basic)
  then show ?thesis unfolding resolve_def by (intro pgm_rules o)
qed

lemma pgm_assemble_atom: "pgm.holds (assemble_atom opts c first a rest l)"
proof -
  have o: "pgm.holds (modify (\<lambda>p. p\<lparr>cpu := cpu_opts v (cpu p)\<rparr>))" for v by (rule pgm_outside) simp
  have s: "pgm.holds (set_source a)" for a unfolding set_source_def by (rule pgm_outside) simp
  have r: "pgm.holds (roffs_to_space c r a)" for r a
    unfolding roffs_to_space_def pad_space_def Let_def by (intro pgm_rules)
  have n: "pgm.holds (new_stabdef nl c)" for nl unfolding new_stabdef_def Let_def by (intro pgm_rules)
  have x: "pgm.holds (atom_printexpr pe c)" for pe unfolding atom_printexpr_def Let_def by (intro pgm_rules)
  have k: "pgm.holds (check_pic b rl)" for b rl
    unfolding check_pic_def by (rule pgm.holds_modify) (use reports_do_pic_check in \<open>simp add: more_messages_def reports_def\<close>)
  have i: "pgm.holds (assemble_instruction opts c ip)" for ip
    unfolding assemble_instruction_def Let_def
    by (intro pgm_rules pgm_lift [OF act.holds_eval_instruction] pgm_lift [OF act.holds_keeps [OF act.acf.keeps_instruction_size]] k)
  have t: "pgm.holds (assemble_assert c as)" for as unfolding assemble_assert_def by (intro pgm_rules)
  have e: "pgm.holds (assemble_content opts c a l)" for a l
    unfolding assemble_content_def
    by (cases "content a") (simp_all only: content.case, (intro pgm_rules pgm_lift [OF act.holds_eval_data] r n x k i t o)+)
  have w: "pgm.holds (auto_aligned a rest)"
    unfolding auto_aligned_def by (simp split: content.split add: pgm_basic pgm.holds_basic)
  have b: "pgm.holds (assemble_align c first a rest)"
    unfolding assemble_align_def alignment_to_space_def Let_def by (intro pgm_rules s w)
  have v: "pgm.holds (assemble_advance c a l)" for a l unfolding assemble_advance_def Let_def by (intro pgm_rules)
  have u: "pgm.holds (check_bss opts c a l)" for a l unfolding check_bss_def by (intro pgm_rules)
  show ?thesis unfolding assemble_atom_def by (intro pgm_rules e b v u)
qed

lemma pgm_assemble: "pgm.holds (assemble opts)"
proof -
  have as: "pgm.holds (assemble_atoms opts c first as l)" for c first as l
  proof (induction as arbitrary: first l)
    case (Cons a as)
    show ?case unfolding assemble_atoms.simps by (intro pgm_rules pgm_assemble_atom Cons.IH)
  qed (simp add: pgm.holds_basic)
  have s: "pgm.holds (assemble_section opts c l)" for c l unfolding assemble_section_def by (intro pgm_rules as)
  have ss: "pgm.holds (assemble_sections opts cs l)" for cs l
  proof (induction cs arbitrary: l)
    case (Cons c cs)
    show ?case unfolding assemble_sections.simps by (intro pgm_rules s Cons.IH)
  qed (simp add: pgm.holds_basic)
  have "msgs (fold (\<lambda>y. upd_sym y f) ys s) = msgs s" for f ys s
    by (induction ys arbitrary: s) simp_all
  then have c: "pgm.holds convert_offset_labels" unfolding convert_offset_labels_def by (intro pgm_outside) simp
  have f: "pgm.holds (modify (\<lambda>p. p\<lparr>core := (core p)\<lparr>final_pass := True\<rparr>\<rparr>))" by (rule pgm_outside) simp
  show ?thesis unfolding assemble_def by (intro pgm_rules c f ss)
qed

lemma pgm_for_each: "(\<And>x. pgm.holds (f x)) \<Longrightarrow> pgm.holds (for_each f xs)"
  by (induction xs) (simp_all add: pgm.holds_basic pgm.holds_bind)

lemma pgm_fix_labels: "pgm.holds (fix_labels opts)"
proof -
  have "pgm.holds (rem_symbol y)" for y
    unfolding rem_symbol_def rem_symhash_def by (intro pgm_rules pgm_outside) simp_all
  then have "pgm.holds (fix_based opts y b v)" for y b v unfolding fix_based_def Let_def by (intro pgm_rules)
  then have "pgm.holds (fix_expression opts y e)" for y e
    unfolding fix_expression_def by (intro pgm_rules pgm_type_of_expr)
  then show ?thesis unfolding fix_labels_def fix_label_def Let_def by (intro pgm_rules pgm_for_each)
qed

lemma pgm_undef_syms: "pgm.holds (undef_syms opts)"
  unfolding undef_syms_def undef_sym_def Let_def by (intro pgm_rules pgm_for_each)

lemma pgm_remove_unalloc: "pgm.holds remove_unalloc_sects"
  unfolding remove_unalloc_sects_def by (rule pgm_outside) (simp add: Let_def)

end
