(* ===== verification/Phases.thy ===== *)
theory Phases
  imports Report
begin

text \<open>
  The phases of the assembler together: what the output module is given. Also what the report
  of undefined symbols means, and what joining sections does to aligned atoms.
\<close>

section \<open>Atoms through the phases\<close>

text \<open>Steps that keep the list of sections and do not spoil an atom of a section.\<close>

definition keeps_ok :: "prog \<Rightarrow> prog \<Rightarrow> bool" where
  "keeps_ok p p' \<longleftrightarrow> order p' = order p \<and> (\<forall>c. list_all atom_ok (atoms p c) \<longrightarrow> list_all atom_ok (atoms p' c))"

interpretation kok: prog_frame keeps_ok
  by unfold_locales (simp_all add: keeps_ok_def)

lemma atom_size_ok: "atom_ok a \<Longrightarrow> gives (\<lambda>r. atom_ok (fst r)) (atom_size cf a c pc)"
proof -
  assume a: "atom_ok a"
  have "gives (\<lambda>r. atom_ok (fst r)) (bind_st (space_size sb (Some c) pc) (\<lambda>(sb, n). return (a\<lparr>content := SPACE sb\<rparr>, n)))" for sb
    by (rule gives_after, rule gives_split, rule gives_return) (simp add: atom_ok_def)
  then show ?thesis
    using a unfolding atom_size_def
    by (cases "content a") (simp_all add: gives_return gives_after)
qed

lemma internal_add_atom_ok:
  assumes "atom_ok a"
  shows "kok.holds (internal_add_atom c a)"
  unfolding kok.holds_def
proof (intro allI impI)
  fix p p' x assume e: "internal_add_atom c a p = Inr (p', x)"
  let ?b = "a\<lparr>changes := 0, atom_src := map_option fst (source p),
                 atom_line := (case source p of Some (_, n) \<Rightarrow> n | None \<Rightarrow> 0)\<rparr>"
  let ?as = "(if same_line_label (atoms p c) ?b then (atoms p c)[length (atoms p c) - 1 := (last (atoms p c))\<lparr>align := align ?b\<rparr>] else atoms p c)"
  obtain p1 p2 a2 n u p3 where 1: "upd_section c (\<lambda>x. x\<lparr>sec_pc := pcalign ?b (sec_pc (psec p c))\<rparr>) p = Inr (p1, u)"
    and 2: "lift (atom_size (cpu p) ?b c (pcalign ?b (sec_pc (psec p c)))) p1 = Inr (p2, a2, n)"
    and 3: "put_atoms c (?as @ [a2\<lparr>lastsize := n\<rparr>]) p2 = Inr (p3, ())"
    and 4: "upd_section c (\<lambda>x. x\<lparr>sec_pc := pcalign ?b (sec_pc (psec p c)) + of_nat n,
              sec_align := (if sec_align x <s align a2 then align a2 else sec_align x)\<rparr>) p3 = Inr (p', x)"
    using e unfolding internal_add_atom_def Let_def by (fastforce simp: bind_st_Inr get_Inr)
  have s: "same_atoms p p1" "same_atoms p1 p2" "same_atoms p3 p'"
    using sat.holdsD [OF sat.holds_core(2) 1] sat.holdsD [OF sat.holds_lift 2] sat.holdsD [OF sat.holds_core(2) 4] by simp_all
  have "atom_ok ?b" using assms by (simp add: atom_ok_def)
  then have a2: "atom_ok (a2\<lparr>lastsize := n\<rparr>)"
    using givesD [OF gives_lift [OF atom_size_ok] 2] by (simp add: atom_ok_def)
  have "list_all atom_ok ?as" if l: "list_all atom_ok (atoms p c)"
  proof (cases "same_line_label (atoms p c) ?b")
    case True
    then have "last (atoms p c) \<in> set (atoms p c)" by (simp add: same_line_label_def)
    then have "atom_ok ((last (atoms p c))\<lparr>align := align ?b\<rparr>)" using l by (simp add: atom_ok_def list_all_iff)
    then show ?thesis using l True by (auto simp: list_all_iff dest: subsetD [OF set_update_subset_insert])
  qed (use l in simp)
  then show "keeps_ok p p'" using s a2 3 by (auto simp: keeps_ok_def same_atoms_def put_atoms_def modify_Inr)
qed

lemma cleanup_parse_ok: "kok.holds cleanup_parse"
proof -
  have "atom_ok new_rorgend_atom" by (simp add: atom_ok_def new_rorgend_atom_def new_atom_def)
  then have "kok.holds (reset_rorg c)" for c
    unfolding reset_rorg_def add_atom_def option.case by (intro kok.holds_rules kok.holds_core internal_add_atom_ok)
  then have "kok.holds (cleanup_sections cs)" for cs
  proof (induction cs)
    case (Cons c cs)
    show ?case unfolding cleanup_sections.simps by (intro kok.holds_rules Cons)
  qed (simp add: kok.holds_basic)
  then show ?thesis unfolding cleanup_parse_def by (intro kok.holds_rules)
qed

lemma resolve_atoms_ok:
  "list_all atom_ok as \<Longrightarrow> gives (\<lambda>r. list_all atom_ok (fst r)) (resolve_atoms safe c as f)"
proof (induction as arbitrary: f)
  case (Cons a as)
  then have a: "atom_ok a" and as: "list_all atom_ok as" by simp_all
  have n: "atom_ok (fst r) \<Longrightarrow> atom_ok (fst (note_size safe r dn extra))" for r dn extra
    by (auto simp: note_size_def atom_ok_def split: prod.split)
  have w: "gives (\<lambda>r. atom_ok (fst r)) (size_warned a c)"
    unfolding size_warned_def
    by (rule gives_get, rule gives_if, rule gives_after, rule gives_bind [OF gives_lift [OF atom_size_ok [OF a]]], rule gives_after,
        rule gives_return, assumption, rule gives_lift [OF atom_size_ok [OF a]])
  have "gives (\<lambda>r. atom_ok (fst r)) (resolve_atom safe c a f)" for f
    unfolding resolve_atom_def Let_def
    by (rule gives_split, rule gives_after, rule gives_after, rule gives_after, rule gives_if, rule gives_after, rule gives_return,
        simp add: a, rule gives_bind [OF w], rule gives_after, rule gives_return, rule n)
  then show ?case
    unfolding resolve_atoms.simps
    by (rule gives_bind) (rule gives_prod, rule gives_bind [OF Cons.IH [OF as]], rule gives_prod, rule gives_return, simp)
qed (simp add: gives_return)

lemma resolve_atoms_atoms: "sat.holds (resolve_atoms safe c as f)"
proof (induction as arbitrary: f)
  case (Cons a as)
  have o: "sat.holds (modify (\<lambda>p. p\<lparr>cpu := cpu_opts v (cpu p)\<rparr>))" for v
    by (rule sat.holds_modify) (simp add: same_atoms_def)
  have m: "sat.holds (modify (\<lambda>p. p\<lparr>core := g p\<rparr>))" for g
    by (rule sat.holds_modify) (simp add: same_atoms_def)
  have s: "sat.holds (set_source a)" unfolding set_source_def by (rule sat.holds_modify) (simp add: same_atoms_def)
  have t: "sat.holds (resolve_content c a)"
    unfolding resolve_content_def
    by (cases "content a") (simp_all only: content.case, (intro sat.holds_rules sat.holds_core o m)+)
  have w: "sat.holds (size_warned a c)" unfolding size_warned_def by (intro sat.holds_rules sat.holds_core sat.holds_lift)
  have "sat.holds (resolve_atom safe c a f)"
    unfolding resolve_atom_def advance_def Let_def by (intro sat.holds_rules sat.holds_core s t w)
  then show ?case unfolding resolve_atoms.simps by (intro sat.holds_rules Cons.IH)
qed (simp add: sat.holds_basic)

lemma leave_block_atoms: "sat.holds (if sec_has (psec p c) IN_RORG then upd_section c leave_rorg else return ())"
  by (intro sat.holds_rules sat.holds_core)

lemma resolve_pass_ok: "kok.holds (resolve_pass safe c)"
  unfolding kok.holds_def
proof (intro allI impI)
  fix p p' x assume e: "resolve_pass safe c p = Inr (p', x)"
  obtain p1 u p2 as f p3 where 1: "upd_section c (\<lambda>x. x\<lparr>sec_pc := sec_org x\<rparr>) p = Inr (p1, u)"
    and 2: "resolve_atoms safe c (atoms p1 c) (True, \<not> safe) p1 = Inr (p2, as, f)" and 3: "put_atoms c as p2 = Inr (p3, ())"
    and 4: "(if sec_has (psec p3 c) IN_RORG then upd_section c leave_rorg else return ()) p3 = Inr (p', ())"
    using e unfolding resolve_pass_def by (auto simp: bind_st_Inr get_Inr return_Inr)
  have "same_atoms p3 p'" using leave_block_atoms 4 by (rule sat.holdsD)
  then have s: "same_atoms p p1" "same_atoms p1 p2" "same_atoms p3 p'"
    using sat.holdsD [OF sat.holds_core(2) 1] sat.holdsD [OF resolve_atoms_atoms 2] by simp_all
  have "list_all atom_ok (atoms p1 c) \<Longrightarrow> list_all atom_ok as" using givesD [OF resolve_atoms_ok 2] by simp
  then show "keeps_ok p p'" using s 3 by (auto simp: keeps_ok_def same_atoms_def put_atoms_def modify_Inr)
qed

lemma resolve_ok: "kok.holds (resolve k mp)"
proof -
  have "kok.holds (resolve_loop left pass fp c)" for left pass fp c
  proof (induction left arbitrary: pass fp)
    case (Suc left)
    show ?case unfolding resolve_loop.simps by (intro kok.holds_rules resolve_pass_ok Suc.IH)
  qed (simp add: kok.holds_basic)
  then have r: "kok.holds (resolve_round mp cs fin todo)" for cs fin todo
  proof (induction cs arbitrary: fin todo)
    case (Cons c cs)
    show ?case unfolding resolve_round.simps resolve_section_def Let_def by (intro kok.holds_rules Cons.prems Cons.IH)
  qed (simp add: kok.holds_basic)
  have "kok.holds (resolve_rounds k mp todo)" for todo
  proof (induction k arbitrary: todo)
    case (Suc k)
    show ?case unfolding resolve_rounds.simps by (intro kok.holds_rules r Suc.IH)
  qed (simp add: kok.holds_basic)
  moreover have "kok.holds (modify (\<lambda>p. p\<lparr>core := (core p)\<lparr>final_pass := False\<rparr>\<rparr>))"
    by (rule kok.holds_modify) (simp add: keeps_ok_def)
  ultimately show ?thesis unfolding resolve_def by (intro kok.holds_rules)
qed

lemma fix_labels_atoms: "sat.holds (fix_labels opts)" and undef_syms_atoms: "sat.holds (undef_syms opts)"
proof -
  have e: "(\<And>x. sat.holds (f x)) \<Longrightarrow> sat.holds (for_each f xs)" for f :: "symid \<Rightarrow> (prog, unit) step" and xs
    by (induction xs) (simp_all add: sat.holds_basic sat.holds_bind)
  have "sat.holds (rem_symbol y)" for y
    unfolding rem_symbol_def rem_symhash_def
    by (intro sat.holds_rules sat.holds_modify) (simp_all add: same_atoms_def)
  then have "sat.holds (fix_based opts y b v)" for y b v
    unfolding fix_based_def Let_def by (intro sat.holds_rules sat.holds_core)
  then have "sat.holds (fix_expression opts y x)" for y x
    unfolding fix_expression_def by (intro sat.holds_rules sat.holds_core sat.holds_lift)
  then show "sat.holds (fix_labels opts)"
    unfolding fix_labels_def fix_label_def Let_def by (intro sat.holds_rules sat.holds_core e)
  show "sat.holds (undef_syms opts)"
    unfolding undef_syms_def undef_sym_def Let_def by (intro sat.holds_rules sat.holds_core e)
qed

section \<open>Trimmed atoms\<close>

lemma trim_atoms_emitted:
  "list_all emitted as \<Longrightarrow> gives (\<lambda>r. list_all emitted (fst r)) (trim_atoms c as pc i n)"
proof (induction as arbitrary: pc i n)
  case (Cons a as)
  then have a: "emitted a" and as: "list_all emitted as" by simp_all
  show ?case
    unfolding trim_atoms.simps Let_def
    by (rule gives_get, rule gives_bind [OF gives_lift [OF atom_size_emitted [OF a]]], rule gives_prod, rule gives_after,
        rule gives_bind [OF Cons.IH [OF as]], rule gives_prod, rule gives_return) simp
qed (simp add: gives_return)

lemma trim_uninitialized_emitted:
  assumes "trim_uninitialized cs p = Inr (p', ends)" and "\<forall>c \<in> set cs. list_all emitted (atoms p c)"
  shows "order p' = order p \<and> map fst ends = cs \<and> (\<forall>c. list_all emitted (atoms p c) \<longrightarrow> list_all emitted (atoms p' c))"
  using assms
proof (induction cs arbitrary: p ends)
  case (Cons c cs)
  obtain p1 as n p2 ns where 1: "trim_atoms c (atoms p c) (sec_org (psec p c)) 0 0 p = Inr (p1, as, n)"
    and 2: "put_atoms c as p1 = Inr (p2, ())" and 3: "trim_uninitialized cs p2 = Inr (p', ns)" and e: "ends = (c, n) # ns"
    using Cons.prems(1) by (auto simp: bind_st_Inr get_Inr return_Inr)
  have t: "sat.holds (trim_atoms c as pc i n)" for as pc i n
  proof (induction as arbitrary: pc i n)
    case (Cons a as)
    show ?case unfolding trim_atoms.simps Let_def by (intro sat.holds_rules sat.holds_core sat.holds_lift Cons.IH)
  qed (simp add: sat.holds_basic)
  have s: "same_atoms p p1" by (rule sat.holdsD [OF t 1])
  have "list_all emitted as" using givesD [OF trim_atoms_emitted 1] Cons.prems(2) by simp
  then have k: "order p2 = order p" "list_all emitted (atoms p d) \<Longrightarrow> list_all emitted (atoms p2 d)" for d
    using s 2 by (auto simp: same_atoms_def put_atoms_def modify_Inr)
  have "\<forall>c \<in> set cs. list_all emitted (atoms p2 c)" using Cons.prems(2) k(2) by simp
  then show ?case using Cons.IH [OF 3] k e by auto
qed (simp add: return_Inr)

text \<open>
  An object file is written only when the program was resolved and assembled and its
  symbols were fixed without an error in any of these phases. The output module is then given
  the allocated sections, all of whose atoms are ready to be written.
\<close>

theorem object_written_without_errors:
  assumes "phases opts rounds maxpasses write p = Inr (p', Some r)"
    and "distinct (order p)" and "\<forall>c \<in> set (order p). list_all atom_ok (atoms p c)"
  shows "\<exists>p1 p2 p3 l p4 q ends. cleanup_parse p = Inr (p1, ()) \<and> no_errors p1
    \<and> resolve rounds maxpasses p1 = Inr (p2, ()) \<and> no_errors p2 \<and> assemble opts p2 = Inr (p3, l) \<and> no_errors p3
    \<and> no_errors p4 \<and> order q = filter (\<lambda>c. \<not> sec_has (psec p4 c) UNALLOCATED) (order p) \<and> map fst ends = order q
    \<and> (\<forall>c \<in> set (order q). list_all emitted (atoms q c)) \<and> write ends q = Inr (p', r)"
proof -
  obtain p1 p2 p3 p4 p5 where 1: "cleanup_parse p = Inr (p1, ())"
    and 2: "(if no_errors p1 then resolve rounds maxpasses else return ()) p1 = Inr (p2, ())"
    and 3: "(if no_errors p2 then bind_st (assemble opts) (\<lambda>_. return ()) else return ()) p2 = Inr (p3, ())"
    and 4: "(if no_errors (p3\<lparr>source := None\<rparr>) then bind_st (fix_labels opts) (\<lambda>_. undef_syms opts) else return ()) (p3\<lparr>source := None\<rparr>) = Inr (p4, ())"
    and 5: "remove_unalloc_sects p4 = Inr (p5, ())"
    and rest: "(if no_errors p5 then bind_st (trim_uninitialized (order p5)) (\<lambda>ends. bind_st (write ends) (\<lambda>r. return (Some r)))
       else return None) p5 = Inr (p', Some r)"
    using assms(1) unfolding phases_def by (auto simp: bind_st_Inr get_Inr modify_Inr)
  have n5: "no_errors p5" using rest by (cases "no_errors p5") (auto simp: return_Inr)
  have n4: "no_errors p4" by (rule no_errors_before [OF pgm.holdsD [OF pgm_remove_unalloc 5] n5])
  have "pgm.holds (if no_errors (p3\<lparr>source := None\<rparr>) then bind_st (fix_labels opts) (\<lambda>_. undef_syms opts) else return ())"
    by (intro pgm_rules pgm_fix_labels pgm_undef_syms)
  from no_errors_before [OF pgm.holdsD [OF this 4] n4] have n3: "no_errors p3" by (simp add: no_errors_def)
  have "pgm.holds (if no_errors p2 then bind_st (assemble opts) (\<lambda>_. return ()) else return ())"
    by (intro pgm_rules pgm_assemble)
  from no_errors_before [OF pgm.holdsD [OF this 3] n3] have n2: "no_errors p2" .
  have "pgm.holds (if no_errors p1 then resolve rounds maxpasses else return ())" by (intro pgm_rules pgm_resolve)
  from no_errors_before [OF pgm.holdsD [OF this 2] n2] have n1: "no_errors p1" .
  have r: "resolve rounds maxpasses p1 = Inr (p2, ())" using 2 n1 by simp
  obtain l where a: "assemble opts p2 = Inr (p3, l)" using 3 n2 by (auto simp: bind_st_Inr return_Inr)
  have k: "keeps_ok p p1" "keeps_ok p1 p2" using kok.holdsD [OF cleanup_parse_ok 1] kok.holdsD [OF resolve_ok r] by simp_all
  then have o2: "order p2 = order p" and ok: "\<forall>c \<in> set (order p2). list_all atom_ok (atoms p2 c)" using assms(3) by (simp_all add: keeps_ok_def)
  obtain pe le where c: "convert_offset_labels p2 = Inr (pe, ())"
    and s: "assemble_sections opts (order pe) no_loop (pe\<lparr>core := (core pe)\<lparr>final_pass := True\<rparr>\<rparr>) = Inr (p3, le)"
    using a by (auto simp: assemble_def action_Inr)
  have "order pe = order p2" "atoms pe = atoms p2" using c by (simp_all add: convert_offset_labels_def modify_Inr)
  then have em: "order p3 = order p \<and> (\<forall>c \<in> set (order p3). list_all emitted (atoms p3 c))"
    using assemble_sections_atoms [OF s] ok o2 assms(2) by simp
  have "sat.holds (if no_errors (p3\<lparr>source := None\<rparr>) then bind_st (fix_labels opts) (\<lambda>_. undef_syms opts) else return ())"
    by (intro sat.holds_rules fix_labels_atoms undef_syms_atoms)
  then have "same_atoms (p3\<lparr>source := None\<rparr>) p4" using 4 by (rule sat.holdsD)
  moreover have o5: "order p5 = filter (\<lambda>c. \<not> sec_has (psec p4 c) UNALLOCATED) (order p4)" "atoms p5 = atoms p4"
    using 5 by (simp_all add: remove_unalloc_sects_def modify_Inr Let_def)
  ultimately have o: "order p5 = filter (\<lambda>c. \<not> sec_has (psec p4 c) UNALLOCATED) (order p)"
    and e5: "\<forall>c \<in> set (order p5). list_all emitted (atoms p5 c)" using em by (auto simp: same_atoms_def)
  obtain q ends where 6: "trim_uninitialized (order p5) p5 = Inr (q, ends)" and w: "write ends q = Inr (p', r)"
    using rest n5 by (auto simp: bind_st_Inr return_Inr)
  note t = trim_uninitialized_emitted [OF 6 e5]
  then have q: "order q = filter (\<lambda>c. \<not> sec_has (psec p4 c) UNALLOCATED) (order p)" "map fst ends = order q"
    "\<forall>c \<in> set (order q). list_all emitted (atoms q c)" using o e5 by simp_all
  show ?thesis
    by (intro exI conjI) (rule 1 n1 r n2 a n3 n4 q(1) q(2) q(3) w)+
qed

text \<open>The jump back to the label, through all phases; its bytes are the object file.\<close>

lemma object_written_without_errors_witness:
  "\<exists>p' p1 p2 p3 l. phases plain_settings 3 4 (\<lambda>_. bind_st get (\<lambda>p. return (concat (map data_of (atoms p 0))))) loop_prog
       = Inr (p', Some [0x4c, 0x00, 0x10])
     \<and> resolve 3 4 p1 = Inr (p2, ()) \<and> assemble plain_settings p2 = Inr (p3, l) \<and> no_errors p3"
proof -
  let ?w = "\<lambda>_ :: (secid \<times> nat) list. bind_st get (\<lambda>p. return (concat (map data_of (atoms p 0))))"
  have "case phases plain_settings 3 4 ?w loop_prog of Inl _ \<Rightarrow> False | Inr (_, r) \<Rightarrow> r = Some [0x4c, 0x00, 0x10]"
    by code_simp
  then obtain p' where r: "phases plain_settings 3 4 ?w loop_prog = Inr (p', Some [0x4c, 0x00, 0x10])"
    by (auto split: sum.splits)
  have "distinct (order loop_prog)" "\<forall>c \<in> set (order loop_prog). list_all atom_ok (atoms loop_prog c)"
    by (simp_all add: loop_prog_def atom_ok_def wf_instr_def wf_operand_def new_label_atom_def new_inst_atom_def new_atom_def)
  from object_written_without_errors [OF r this] show ?thesis using r by blast
qed

section \<open>Undefined symbols\<close>

lemma undef_sym_result:
  "\<exists>ms. undef_sym opts y p = Inr (p\<lparr>core := (core p)\<lparr>msgs := msgs (core p) @ ms\<rparr>\<rparr>, ())
    \<and> (list_ex is_error ms \<longleftrightarrow> sym_type (sym (core p) y) = IMPORT \<and> \<not> auto_import opts \<and> \<not> sym_has (sym (core p) y) (EXPORT OR COMMON OR WEAK))"
proof -
  have e: "is_error 22" "\<not> is_error 86" "\<not> is_error 61" by code_simp+
  have n: "p = p\<lparr>core := (core p)\<lparr>msgs := msgs (core p) @ []\<rparr>\<rparr>" by simp
  show ?thesis
    unfolding undef_sym_def bind_st_def get_def Let_def
    by (cases "sym_type (sym (core p) y) = IMPORT"; cases "\<not> auto_import opts \<and> \<not> sym_has (sym (core p) y) (EXPORT OR COMMON OR WEAK)")
      (use e n in \<open>auto simp: error_def modify_def return_def general_error_def intro: exI [where x = "[]"] exI [where x = "[22]"]
        exI [where x = "[86]"] exI [where x = "[61]"]\<close>)
qed

lemma undef_syms_result:
  "\<exists>ms. for_each (undef_sym opts) ys p = Inr (p\<lparr>core := (core p)\<lparr>msgs := msgs (core p) @ ms\<rparr>\<rparr>, ())
    \<and> (list_ex is_error ms \<longleftrightarrow> \<not> auto_import opts \<and>
        (\<exists>y \<in> set ys. sym_type (sym (core p) y) = IMPORT \<and> \<not> sym_has (sym (core p) y) (EXPORT OR COMMON OR WEAK)))"
proof (induction ys arbitrary: p)
  case Nil
  show ?case by (rule exI [where x = "[]"]) (simp add: return_def)
next
  case (Cons y ys)
  obtain ms where 1: "undef_sym opts y p = Inr (p\<lparr>core := (core p)\<lparr>msgs := msgs (core p) @ ms\<rparr>\<rparr>, ())"
    and m: "list_ex is_error ms \<longleftrightarrow> sym_type (sym (core p) y) = IMPORT \<and> \<not> auto_import opts \<and> \<not> sym_has (sym (core p) y) (EXPORT OR COMMON OR WEAK)"
    using undef_sym_result by blast
  from Cons.IH [of "p\<lparr>core := (core p)\<lparr>msgs := msgs (core p) @ ms\<rparr>\<rparr>"] obtain ms' where
    2: "for_each (undef_sym opts) ys (p\<lparr>core := (core p)\<lparr>msgs := msgs (core p) @ ms\<rparr>\<rparr>) =
       Inr (p\<lparr>core := (core p)\<lparr>msgs := msgs (core p) @ ms @ ms'\<rparr>\<rparr>, ())"
    and m': "list_ex is_error ms' \<longleftrightarrow> \<not> auto_import opts \<and>
        (\<exists>y \<in> set ys. sym_type (sym (core p) y) = IMPORT \<and> \<not> sym_has (sym (core p) y) (EXPORT OR COMMON OR WEAK))"
    by auto
  have "for_each (undef_sym opts) (y # ys) p = Inr (p\<lparr>core := (core p)\<lparr>msgs := msgs (core p) @ ms @ ms'\<rparr>\<rparr>, ())"
    by (simp add: bind_st_def 1 2)
  moreover have "list_ex is_error (ms @ ms') \<longleftrightarrow> \<not> auto_import opts \<and>
        (\<exists>y \<in> set (y # ys). sym_type (sym (core p) y) = IMPORT \<and> \<not> sym_has (sym (core p) y) (EXPORT OR COMMON OR WEAK))"
    unfolding list_ex_append m m' by auto
  ultimately show ?case by blast
qed


section \<open>Joining aligned atoms\<close>

text \<open>
  \<open>join_sections\<close> adds up the sizes of the atoms without their alignment when it assigns the
  addresses. Here the first section ends at \<open>0x1005\<close>, and the second one starts at \<open>0x1002\<close>.
\<close>

definition data_atom :: "taddr \<Rightarrow> u8 list \<Rightarrow> atom" where
  "data_atom a d = new_data_atom \<lparr>db_size = length d, db_data = d, db_relocs = []\<rparr> a"

definition two_texts :: prog where
  "two_texts = \<lparr>core = \<lparr>syms = [],
      secs = [new_sect ''.text'' ''acrx'' 4 [0,0,0,0,0,0,0,0] 1 0, new_sect ''.data'' ''adrw'' 1 [0,0,0,0,0,0,0,0] 1 1], cpc = None,
      final_pass = True, num_secs = 2, bytespertaddr = 2, msgs = []\<rparr>,
    cpu = cpu0,
    atoms = (\<lambda>c. if c = 0 then [data_atom 1 [1], data_atom 4 [2]] else if c = 1 then [data_atom 1 [3]] else []),
    order = [0, 1], last_section = Some 1, container = 2, current = None, secstack = [], source = None, org_count = 0, offset_id = 0,
    sec_padding = 0, space_init = 0, unnamed_sections = False, secname_attr = False, defsectname = None, defsecttype = None,
    defsectorg = 0, symlist = [], symhash = new_hashtable 1, saved_symbol = None, last_global_label = [], nocase = False,
    debug = False\<rparr>"

theorem join_ignores_alignment:
  "case join_sections 0x1000 two_texts of Inl _ \<Rightarrow> False
   | Inr (p, _) \<Rightarrow> map (\<lambda>x. (sec_org x, sec_pc x)) (secs (core p)) = [(0x1000, 0x1005), (0x1002, 0x1003)] \<and> msgs (core p) = []"
  by code_simp

text \<open>
  The resolver ends a relocated block with the section no longer absolute, even when it was
  absolute before the block; the parser's \<open>reset_rorg\<close> goes back to what it was.
\<close>

theorem resolver_forgets_absolute:
  "\<not> sec_has (leave_rorg (enter_rorg r x)) ABSOLUTE"
proof -
  have "((f OR (a OR b)) AND NOT (a OR b)) AND a = 0" for f a b :: u32
    by (rule bit_word_eqI) (simp add: bit_or_iff bit_and_iff bit_not_iff, blast)
  moreover have "sec_flags (leave_rorg (enter_rorg r x)) = (sec_flags x OR (ABSOLUTE OR IN_RORG)) AND NOT (ABSOLUTE OR IN_RORG)"
    by (simp add: leave_rorg_def enter_rorg_def set_sec_flag_def clear_sec_flag_def)
  ultimately show ?thesis by (simp only: sec_has_def)
qed

end
