(* ===== verification/Building.thy ===== *)
theory Building
  imports Statements Phases
begin

text \<open>
  What every step of the front end does to the program: the table of symbols stays well-formed and
  no symbol leaves the list, every section is in the list once, atoms are as the later phases want
  them, and messages are only added.
\<close>

section \<open>The invariant\<close>

definition prog_ok :: "prog \<Rightarrow> bool" where
  "prog_ok p \<longleftrightarrow> sym_ok p \<and> symlist p \<noteq> [] \<and> distinct (order p) \<and> (\<forall>c \<in> set (order p). c < length (secs (core p)))
     \<and> (\<forall>c. list_all atom_ok (atoms p c))"

definition advances :: "prog \<Rightarrow> prog \<Rightarrow> bool" where
  "advances p p' \<longleftrightarrow> (prog_ok p \<longrightarrow> prog_ok p' \<and> (\<exists>new. symlist p' = new @ symlist p) \<and> more_messages p p')"

lemma advancesI:
  "(prog_ok p \<Longrightarrow> prog_ok p') \<Longrightarrow> (prog_ok p \<Longrightarrow> \<exists>new. symlist p' = new @ symlist p) \<Longrightarrow> (prog_ok p \<Longrightarrow> more_messages p p') \<Longrightarrow> advances p p'"
  by (simp add: advances_def)

lemma advances_refl: "advances p p"
  by (simp add: advances_def more_messages_def)

lemma advances_trans: "advances p p' \<Longrightarrow> advances p' p'' \<Longrightarrow> advances p p''"
  by (auto simp: advances_def more_messages_def)

text \<open>A relation of this kind says nothing about a program that is not well-formed to begin with.\<close>

locale guarded_frame = step_frame R for R :: "'s \<Rightarrow> 's \<Rightarrow> bool" +
  fixes view :: "'s \<Rightarrow> prog"
  assumes R_view: "R s s' \<longleftrightarrow> advances (view s) (view s')"
begin

lemma holds_when: "(\<And>s. prog_ok (view s) \<Longrightarrow> holds (f s)) \<Longrightarrow> holds (bind_st get f)"
  unfolding holds_def bind_st_Inr get_Inr R_view advances_def by blast

text \<open>A step whose result has a property for well-formed programs.\<close>

lemma holds_result:
  assumes "holds m" and "\<And>s s' x. prog_ok (view s) \<Longrightarrow> m s = Inr (s', x) \<Longrightarrow> P x" and "\<And>x. P x \<Longrightarrow> holds (f x)"
  shows "holds (bind_st m f)"
  unfolding holds_def
proof (intro allI impI)
  fix s s' y assume "bind_st m f s = Inr (s', y)"
  then obtain s1 x where 1: "m s = Inr (s1, x)" "f x s1 = Inr (s', y)" by (auto simp: bind_st_Inr)
  show "R s s'"
  proof (cases "prog_ok (view s)")
    case True
    from R_trans [OF holdsD [OF assms(1) 1(1)] holdsD [OF assms(3) [OF assms(2) [OF True 1(1)]] 1(2)]] show ?thesis .
  qed (simp add: R_view advances_def)
qed

lemma holds_same: "(\<And>s. view (g s) = view s) \<Longrightarrow> holds (modify g)"
  by (rule holds_modify) (simp add: R_view advances_refl)

end

interpretation adv: guarded_frame advances id
  by unfold_locales (simp_all add: advances_refl, rule advances_trans)

section \<open>Symbols\<close>

lemma parsed_advances: "parsed p p' \<Longrightarrow> advances p p'"
  by (auto simp: advances_def prog_ok_def parsed_def more_messages_def)

lemma tried_advances: "(sym_ok p \<Longrightarrow> tried p p') \<Longrightarrow> advances p p'"
  by (auto simp: advances_def prog_ok_def tried_def more_messages_def)

lemma adv_harmless: "harmless m \<Longrightarrow> adv.holds m"
  unfolding adv.holds_def harmless_def using parsed_advances by (fastforce split: sum.splits)

lemma harmless_alloc: "harmless (alloc_symbol x)"
proof (rule harmlessI)
  fix p p' y
  assume "alloc_symbol x p = Inr (p', y)"
  then have p': "p' = p\<lparr>core := (core p)\<lparr>syms := syms (core p) @ [x]\<rparr>\<rparr>" by (auto simp: alloc_symbol_def action_Inr)
  have "name_of p' z = name_of p z" if "z < length (syms (core p))" for z using that by (simp add: p' name_of_def nth_append)
  then have "sym_ok p \<Longrightarrow> sym_ok p'" by (auto simp: sym_ok_def p' less_SucI)
  then show "parsed p p'" using p'
    by (intro parsedI [where ys = "syms (core p) @ [x]" and c = "cpc (core p)" and ms = "[]" and new = "[]" and ht = "symhash p"]) simp_all
qed (simp add: alloc_symbol_def action_defs)

lemma parsed_new_symbol:
  assumes "lookup p (sym_name x) = None" and n: "bind_st (alloc_symbol x) (\<lambda>y. bind_st (add_symbol y) (\<lambda>_. return y)) p = Inr (p', y)"
  shows "parsed p p'"
proof (rule parsedI)
  show "p' = p\<lparr>core := (core p)\<lparr>syms := syms (core p) @ [x], cpc := cpc (core p), msgs := msgs (core p) @ []\<rparr>,
      symlist := [length (syms (core p))] @ symlist p,
      symhash := add_hashentry (debug p) (symhash p) (sym_name x) (length (syms (core p))) (nocase p)\<rparr>"
    using n by (auto simp: alloc_symbol_def add_symbol_def action_Inr)
  show "sym_ok p \<Longrightarrow> sym_ok p'" using new_symbol_ok [OF _ assms] by blast
qed

lemma parsed_new_abs: "new_abs name e p = Inr (p', y) \<Longrightarrow> parsed p p'"
proof -
  assume n: "new_abs name e p = Inr (p', y)"
  let ?old = "\<lambda>p1 y. bind_st (if sym_has (sym (core p1) y) EQUATE then error 67 else return ()) (\<lambda>_.
         bind_st (if sym_type (sym (core p1) y) = LABSYM then error 5 else return ()) (\<lambda>_.
         bind_st (upd_symbol y (\<lambda>x. x\<lparr>sym_type := EXPRESSION, sym_sec := None, sym_expr := Some e\<rparr>)) (\<lambda>_. return y)))"
  obtain p1 r where 1: "find_symbol name p = Inr (p1, r)"
    and rest: "(case r of Some y \<Rightarrow> ?old p1 y
     | None \<Rightarrow> bind_st (alloc_symbol ((blank_symbol name EXPRESSION)\<lparr>sym_expr := Some e\<rparr>)) (\<lambda>y. bind_st (add_symbol y) (\<lambda>_. return y))) p1 = Inr (p', y)"
    using n by (auto simp: new_abs_def bind_st_Inr get_Inr)
  have p1: "parsed p p1" using harmless_find [of name] 1 unfolding harmless_def by (metis (no_types, lifting) case_prod_conv old.sum.simps(6))
  have e: "harmless (if b then error n else return ())" for b n by (simp add: harmless_rules)
  have "parsed p1 p'"
  proof (cases r)
    case None
    have "lookup p1 name = None" using find_symbol_result(1) [OF 1] same_syms_lookup [OF same_syms_find [OF 1]] None by simp
    moreover have "sym_name ((blank_symbol name EXPRESSION)\<lparr>sym_expr := Some e\<rparr>) = name" by (simp add: blank_symbol_def)
    ultimately show ?thesis using rest None by (intro parsed_new_symbol) simp_all
  next
    case (Some z)
    have "harmless (?old p1 z)" by (intro harmless_bind e harmless_upd harmless_basic) simp
    then show ?thesis using rest Some unfolding harmless_def by (fastforce split: sum.splits)
  qed
  then show ?thesis using p1 by (rule parsed_trans [rotated])
qed

lemma adv_new_abs: "adv.holds (new_abs name e)"
  unfolding adv.holds_def using parsed_advances parsed_new_abs by blast

lemmas adv_symbols = adv_harmless [OF harmless_find] adv_harmless [OF harmless_import] adv_harmless [OF harmless_use]
  adv_harmless [OF harmless_curpc] adv_harmless [OF harmless_error] adv_harmless [OF harmless_alloc]
  adv_harmless [OF harmless_simplify] adv_new_abs

lemma adv_upd: "(\<And>x. sym_name (f x) = sym_name x) \<Longrightarrow> adv.holds (upd_symbol y f)"
  by (rule adv_harmless) (rule harmless_upd)

lemma set_flag_name [simp]: "sym_name (set_flag m x) = sym_name x" "sym_name (clear_flag m x) = sym_name x"
  by (simp_all add: set_flag_def clear_flag_def)

lemma adv_flag: "adv.holds (upd_symbol y (set_flag m))" "adv.holds (upd_symbol y (clear_flag m))"
  by (rule adv_upd, simp)+

lemma adv_check_symbol: "adv.holds (check_symbol name)"
  unfolding check_symbol_def by (intro adv.holds_rules adv_symbols)

lemma adv_new_equate: "adv.holds (new_equate name e)"
  unfolding new_equate_def by (intro adv.holds_rules adv_symbols adv_upd adv_check_symbol) simp

text \<open>A label: the symbol is in the table when it is put into the list.\<close>

lemma adv_label:
  assumes F: "\<And>x. sym_name (F x) = sym_name x" and g: "\<And>y. adv.holds (g y)"
  shows "adv.holds (bind_st (label_symbol name) (\<lambda>(y, add). bind_st (upd_symbol y F) (\<lambda>_.
    bind_st (if add then add_symbol y else return ()) (\<lambda>_. g y))))"
  unfolding adv.holds_def
proof (intro allI impI)
  fix p p' z
  assume e: "bind_st (label_symbol name) (\<lambda>(y, add). bind_st (upd_symbol y F) (\<lambda>_.
    bind_st (if add then add_symbol y else return ()) (\<lambda>_. g y))) p = Inr (p', z)"
  let ?rest = "\<lambda>(y, add). bind_st (upd_symbol y F) (\<lambda>_. bind_st (if add then add_symbol y else return ()) (\<lambda>_. g y))"
  let ?old = "\<lambda>p y. if sym_type (sym (core p) y) = IMPORT then
           bind_st (if sym_has (sym (core p) y) XREF then error 85 else return ()) (\<lambda>_. return (y, False))
         else bind_st (alloc_symbol (sym (core p) y)) (\<lambda>n. bind_st (error 74) (\<lambda>_. return (n, False)))"
  let ?new = "blank_symbol name LABSYM"
  obtain p1 r where 1: "find_symbol name p = Inr (p1, r)"
    and 2: "bind_st (case r of Some y \<Rightarrow> ?old p1 y | None \<Rightarrow> bind_st (alloc_symbol ?new) (\<lambda>n. return (n, True))) ?rest p1 = Inr (p', z)"
    using e unfolding label_symbol_def by (fastforce simp: bind_st_Inr get_Inr)
  have p1: "advances p p1" by (rule adv.holdsD [OF adv_symbols(1) 1])
  have "advances p1 p'"
  proof (cases r)
    case None
    have n: "sym_name (F ?new) = name" by (simp add: F blank_symbol_def)
    have "lookup p1 (sym_name (F ?new)) = None"
      using find_symbol_result(1) [OF 1] same_syms_lookup [OF same_syms_find [OF 1]] None n by simp
    then have add: "bind_st (alloc_symbol (F ?new)) (\<lambda>y. bind_st (add_symbol y) (\<lambda>_. return y)) p1 = Inr (q, y) \<Longrightarrow> parsed p1 q" for q y
      by (rule parsed_new_symbol)
    have "bind_st (bind_st (alloc_symbol ?new) (\<lambda>n. return (n, True))) ?rest p1 =
        bind_st (bind_st (alloc_symbol (F ?new)) (\<lambda>y. bind_st (add_symbol y) (\<lambda>_. return y))) g p1"
      by (simp add: alloc_symbol_def add_symbol_def upd_symbol_def upd_sym_def sym_def action_defs)
    then obtain q y where q: "bind_st (alloc_symbol (F ?new)) (\<lambda>y. bind_st (add_symbol y) (\<lambda>_. return y)) p1 = Inr (q, y)" "g y q = Inr (p', z)"
      using 2 None by (auto simp: bind_st_Inr)
    show ?thesis using advances_trans [OF parsed_advances [OF add [OF q(1)]] adv.holdsD [OF g q(2)]] .
  next
    case (Some y)
    have o: "adv.holds (?old p1 y)" by (intro adv.holds_rules adv_symbols)
    obtain q y' b where q: "?old p1 y p1 = Inr (q, y', b)" "?rest (y', b) q = Inr (p', z)"
      using 2 Some by (auto simp: bind_st_Inr)
    have "\<not> b" using q(1) by (auto simp: action_Inr split: if_splits)
    then have "adv.holds (?rest (y', b))" by (simp add: adv.holds_bind adv_upd F g adv.holds_basic)
    then have "advances q p'" using q(2) unfolding adv.holds_def by blast
    then show ?thesis using adv.holdsD [OF o q(1)] by (rule advances_trans [rotated])
  qed
  then show "advances p p'" using p1 by (rule advances_trans [rotated])
qed

section \<open>Sections\<close>

text \<open>Steps that leave the list of symbols alone, together with steps that leave the sections alone.\<close>

definition quiet :: "prog \<Rightarrow> prog \<Rightarrow> bool" where
  "quiet p p' \<longleftrightarrow> reports (core p) (core p') \<and> symlist p' = symlist p \<and> symhash p' = symhash p \<and> nocase p' = nocase p \<and> debug p' = debug p"

interpretation qt: step_frame quiet
  by unfold_locales (simp add: quiet_def, use reports_trans in \<open>auto simp: quiet_def\<close>)

lemma qt_lift: "act.holds m \<Longrightarrow> qt.holds (lift m)"
  by (auto simp: qt.holds_def act.holds_def lift_def quiet_def split: sum.splits)

lemma qt_basic: "qt.holds (error n)" "qt.holds (upd_section c f)" "qt.holds (put_atoms c as)"
  by (auto simp: error_def upd_section_def put_atoms_def quiet_def intro!: qt.holds_modify)

lemma adv_quiet: "qt.holds m \<Longrightarrow> kok.holds m \<Longrightarrow> adv.holds m"
proof -
  assume m: "qt.holds m" "kok.holds m"
  have "advances p p'" if q: "quiet p p'" and k: "keeps_ok p p'" for p p'
  proof (rule advancesI)
    have "same_syms p p'" using q by (simp add: same_syms_def quiet_def reports_def)
    then show "prog_ok p \<Longrightarrow> prog_ok p'"
      using q k same_syms_ok by (simp add: prog_ok_def quiet_def reports_def keeps_ok_def)
  qed (use q in \<open>simp_all add: quiet_def reports_def more_messages_def\<close>)
  then show ?thesis using m unfolding adv.holds_def qt.holds_def kok.holds_def by blast
qed

lemma adv_lift: "act.holds m \<Longrightarrow> adv.holds (lift m)"
  by (rule adv_quiet [OF qt_lift kok.holds_lift])

lemma adv_core: "adv.holds (error n)" "adv.holds (upd_section c f)"
  by (rule adv_quiet [OF qt_basic(1) kok.holds_core(1)], rule adv_quiet [OF qt_basic(2) kok.holds_core(2)])

lemma adv_eval: "adv.holds (lift (eval_expr e c pc))"
  by (rule adv_lift) (rule act.core_rules)

lemma adv_put_atoms: "list_all atom_ok as \<Longrightarrow> adv.holds (put_atoms c as)"
  by (rule adv_quiet [OF qt_basic(3)]) (simp add: put_atoms_def kok.holds_modify keeps_ok_def)

lemma adv_internal_add_atom: "atom_ok a \<Longrightarrow> adv.holds (internal_add_atom c a)"
proof (rule adv_quiet [OF _ internal_add_atom_ok])
  show "qt.holds (internal_add_atom c a)"
    unfolding internal_add_atom_def Let_def by (intro qt.holds_rules qt_basic qt_lift act.holds_atom_size)
qed

text \<open>Changes of other parts of the program.\<close>

lemma adv_other:
  assumes "\<And>p. core (f p) = core p \<and> atoms (f p) = atoms p \<and> order (f p) = order p \<and> symlist (f p) = symlist p \<and> symhash (f p) = symhash p
    \<and> nocase (f p) = nocase p \<and> debug (f p) = debug p"
  shows "adv.holds (modify f)"
  using assms by (intro adv_quiet qt.holds_modify kok.holds_modify) (simp_all add: quiet_def keeps_ok_def)

lemma new_atoms_ok [simp]: "atom_ok (new_label_atom y)" "atom_ok new_rorgend_atom" "atom_ok (new_rorg_atom a)" "atom_ok (new_opts_atom v)"
  "atom_ok (new_space_atom i n k fl)" "atom_ok (new_datadef_atom b op)" "atom_ok (new_assert_atom e s m)" "atom_ok (new_roffs_atom x f)"
  by (simp_all add: atom_ok_def new_label_atom_def new_rorgend_atom_def new_rorg_atom_def new_opts_atom_def new_space_atom_def
    new_datadef_atom_def new_assert_atom_def new_roffs_atom_def new_atom_def)

lemma adv_cpu_opts_init: "adv.holds (cpu_opts_init c)"
  unfolding cpu_opts_init_def by (intro adv.holds_rules adv_internal_add_atom) simp

lemma adv_new_section: "adv.holds (new_section name attr a)"
  unfolding adv.holds_def
proof (intro allI impI)
  fix p p' c
  assume e: "new_section name attr a p = Inr (p', c)"
  let ?n = "length (secs (core p))"
  consider "p' = p" | x where "p' = link_section ?n (p\<lparr>core := (core p)\<lparr>secs := secs (core p) @ [x], num_secs := num_secs (core p) + 1\<rparr>\<rparr>)"
    using e by (auto simp: new_section_def action_Inr Let_def split: option.splits sum.splits prod.splits if_splits)
  then show "advances p p'"
  proof cases
    case (2 x)
    have "same_syms p p'" by (simp add: 2 same_syms_def link_section_def)
    then have "prog_ok p \<Longrightarrow> prog_ok p'"
      using same_syms_ok by (auto simp: 2 prog_ok_def link_section_def less_SucI split: option.splits)
    then show ?thesis by (intro advancesI) (simp_all add: 2 more_messages_def link_section_def)
  qed (simp add: advances_refl)
qed

lemma adv_new_org: "adv.holds (new_org a)"
  unfolding new_org_def by (intro adv.holds_rules adv_new_section adv_core adv_other) simp

lemma adv_unlink_section: "adv.holds (unlink_section c)"
  unfolding adv.holds_def
proof (intro allI impI)
  fix p p' u
  assume e: "unlink_section c p = Inr (p', u)"
  obtain l ls where p': "p' = p\<lparr>last_section := l, order := ls\<rparr>" "set ls \<subseteq> set (order p)" "distinct (order p) \<longrightarrow> distinct ls"
  proof (cases "order p")
    case (Cons f rest)
    show ?thesis
    proof (cases "f = c")
      case True
      show ?thesis by (rule that [where l = "last_section p" and ls = rest]) (use e Cons True in \<open>auto simp: unlink_section_def action_Inr\<close>)
    next
      case False
      show ?thesis
        by (rule that [where ls = "remove1 c (order p)" and l = "if last_section p = Some c then Some (last (takeWhile (\<lambda>d. d \<noteq> c) (order p))) else last_section p"])
          (use e Cons False set_remove1_subset [of c "order p"] in \<open>auto simp: unlink_section_def action_Inr split: if_splits\<close>)
    qed
  qed (use e in \<open>simp add: unlink_section_def action_Inr\<close>)
  have "same_syms p p'" by (simp add: p'(1) same_syms_def)
  then have "prog_ok p \<Longrightarrow> prog_ok p'" using same_syms_ok p' by (auto simp: prog_ok_def)
  then show "advances p p'" by (intro advancesI) (simp_all add: p'(1) more_messages_def)
qed

lemma adv_move_label: "adv.holds (move_label_to_sec cs lab ns)"
proof -
  have "adv.holds (modify (\<lambda>p. p\<lparr>core := upd_sym y (f p) (core p)\<rparr>))" if "\<And>p x. sym_name (f p x) = sym_name x" for y f
    using that by (intro adv_quiet qt.holds_modify kok.holds_modify) (simp_all add: quiet_def keeps_ok_def reports_sym)
  then have m: "adv.holds (modify (\<lambda>p. p\<lparr>core := upd_sym y (\<lambda>x. x\<lparr>sym_sec := Some ns, sym_pc := sec_pc (psec p ns)\<rparr>) (core p)\<rparr>))" for y
    by simp
  have l: "content lab = LABEL y \<Longrightarrow> atom_ok lab" for y by (simp add: atom_ok_def)
  have b: "list_all atom_ok as \<Longrightarrow> list_all atom_ok (butlast as)" for as by (auto simp: list_all_iff dest: in_set_butlastD)
  show ?thesis
    unfolding move_label_to_sec_def
    by (rule adv.holds_when, cases "content lab")
      (simp_all only: content.case adv.holds_basic,
       intro adv.holds_rules adv_core adv_put_atoms m adv_internal_add_atom adv_unlink_section l b, simp_all add: prog_ok_def)
qed

lemma adv_set_section: "adv.holds (set_section c)"
proof -
  have o: "adv.holds (modify (\<lambda>p. p\<lparr>current := c\<rparr>))" by (rule adv_other) simp
  have l: "adv.holds (case content a of LABEL y \<Rightarrow> m | _ \<Rightarrow> return ())" if "adv.holds m" for a m
    using that by (cases "content a") (simp_all add: adv.holds_basic)
  show ?thesis
    unfolding set_section_def Let_def by (intro adv.holds_rules adv_cpu_opts_init adv_move_label adv_core o l)
qed
lemma adv_switch_offset_section: "adv.holds (switch_offset_section name offs)"
proof -
  have "adv.holds (modify (\<lambda>p. if offs \<noteq> - 1 then p\<lparr>offset_id := offset_id p + 1\<rparr> else p))" by (rule adv_other) simp
  then show ?thesis
    unfolding switch_offset_section_def by (intro adv.holds_rules adv_new_section adv_core adv_set_section)
qed

lemma adv_default_section: "adv.holds default_section"
proof -
  have "adv.holds (case (a, b) of (None, Some t) \<Rightarrow> m t | (c, _) \<Rightarrow> return c)" if "\<And>t. adv.holds (m t)"
    for a :: "secid option" and b :: "string option" and m
    using that by (cases a; cases b) (simp_all add: adv.holds_basic)
  then show ?thesis
    unfolding default_section_def by (intro adv.holds_rules adv_new_section adv_new_org adv_set_section)
qed

lemma adv_add_atom: "atom_ok a \<Longrightarrow> adv.holds (add_atom c a)"
  unfolding add_atom_def by (intro adv.holds_rules adv_default_section adv_core adv_internal_add_atom)

lemma adv_reset_rorg: "adv.holds (reset_rorg c)"
  unfolding reset_rorg_def by (intro adv.holds_rules adv_core adv_add_atom new_atoms_ok)

lemma adv_end_rorg: "adv.holds end_rorg"
  unfolding end_rorg_def by (intro adv.holds_rules adv_core adv_default_section adv_reset_rorg)

lemma adv_start_rorg: "adv.holds (start_rorg a)"
  unfolding start_rorg_def by (intro adv.holds_rules adv_core adv_default_section adv_end_rorg adv_add_atom new_atoms_ok)

lemma adv_new_labsym: "adv.holds (new_labsym m d c name)"
proof -
  have n: "adv.holds (name_warnings m d name)" unfolding name_warnings_def by (intro adv.holds_rules adv_core)
  have g: "adv.holds (modify (\<lambda>p. p\<lparr>last_global_label := l\<rparr>))" for l by (rule adv_other) simp
  show ?thesis
    unfolding new_labsym_def Let_def
    by (intro adv.holds_bind [OF n] adv_label adv.holds_rules adv_core adv_default_section adv_symbols adv_upd g) simp_all
qed

lemma adv_internal_abs: "adv.holds (internal_abs name)"
  unfolding internal_abs_def by (intro adv.holds_rules adv_symbols adv_upd) simp

lemma adv_set_internal_abs: "adv.holds (set_internal_abs name v)"
  unfolding set_internal_abs_def by (intro adv.holds_rules adv_internal_abs adv_eval adv_upd) simp

section \<open>Expressions and instructions\<close>

interpretation pad: guarded_frame "\<lambda>x x'. advances (prg x) (prg x')" prg
  by unfold_locales (simp_all add: advances_refl, rule advances_trans)

lemma pad_on_prog: "adv.holds m \<Longrightarrow> pad.holds (on_prog m)"
  by (auto simp: pad.holds_def adv.holds_def on_prog_def split: sum.splits)

lemma pad_moves: "pad.holds (goto s)" "pad.holds (EXPSKIP o')"
  unfolding goto_def EXPSKIP_def by (rule pad.holds_same, simp)+

lemmas pad_rules = pad.holds_rules pad_moves pad_on_prog adv_symbols

lemma pad_primary_expr:
  assumes "pad.holds e"
  shows "pad.holds (primary_expr o' e)"
proof -
  have t: "pad.holds (modify (\<lambda>x. x\<lparr>exp_type := t\<rparr>))" for t by (rule pad.holds_same) simp
  have n: "pad.holds (modify (\<lambda>x. x\<lparr>tmplabcnt := tmplabcnt x + 1\<rparr>))" by (rule pad.holds_same) simp
  have c: "pad.holds (constant_expr o' m b)" for m b unfolding constant_expr_def Let_def by (intro pad_rules t)
  have q: "pad.holds (char_constant k o' c n v)" for k c n v
  proof (induction k arbitrary: n v)
    case (Suc k)
    show ?case unfolding char_constant.simps Let_def by (intro pad_rules Suc)
  qed (simp add: pad.holds_basic)
  have p: "pad.holds (current_pc o')"
    unfolding current_pc_def new_tmplabel_def by (intro pad_rules n adv_new_labsym adv_add_atom new_atoms_ok)
  show ?thesis
    unfolding primary_expr_def paren_expr_def named_expr_def quoted_expr_def Let_def by (intro pad_rules assms c q p)
qed

lemma pad_op_level: "pad.holds m \<Longrightarrow> pad.holds (op_level ops b o' m)"
proof -
  assume m: "pad.holds m"
  have "pad.holds (op_loop k o' ops b m f e)" for k f e
  proof (induction k arbitrary: f e)
    case (Suc k)
    show ?case unfolding op_loop.simps by (intro pad_rules m Suc)
  qed (simp add: pad.holds_basic)
  then show ?thesis unfolding op_level_def by (intro pad_rules m)
qed

lemma pad_expression: "pad.holds (expression n o')"
proof (induction n)
  case (Suc n)
  have u: "pad.holds m \<Longrightarrow> pad.holds (unary_expr o' m)" for m unfolding unary_expr_def Let_def by (intro pad_rules)
  show ?case
    unfolding expression.simps logical_or_expr_def logical_and_expr_def equality_expr_def relational_expr_def additive_expr_def
      multiplicative_expr_def inclusive_or_expr_def exclusive_or_expr_def and_expr_def shift_expr_def
    by (intro pad_op_level u pad_primary_expr Suc)
qed (simp add: pad.holds_basic)

lemma pad_parse_as: "pad.holds (parse_as o' t tmp s)"
proof -
  have "pad.holds (modify (\<lambda>x. x\<lparr>px_s := s, make_tmp_lab := tmp, exp_type := t\<rparr>))" by (rule pad.holds_same) simp
  then show ?thesis unfolding parse_as_def by (intro pad_rules pad_expression)
qed

lemma pad_parse_expr: "pad.holds (parse_expr o' s)" "pad.holds (parse_expr_tmplab o' s)" "pad.holds (parse_constexpr o' s)"
proof -
  show e: "pad.holds (parse_expr o' s)" "pad.holds (parse_expr_tmplab o' s)"
    unfolding parse_expr_def parse_expr_tmplab_def by (rule pad_parse_as)+
  show "pad.holds (parse_constexpr o' s)"
    unfolding parse_constexpr_def
    by (rule pad.holds_bind [OF e(1)], split expr.split) (intro conjI allI impI pad_rules)
qed

lemma pad_parse_operand: "pad.holds (parse_operand o' s n op t)"
proof -
  have "pad.holds (trailing o' s n p)" for p
    unfolding trailing_def Let_def cpu_message_def by (intro pad_rules)
  then show ?thesis unfolding parse_operand_def Let_def by (intro pad_rules pad_parse_expr)
qed

lemma pad_new_inst: "pad.holds (new_inst o' inst args)"
  unfolding pad.holds_def
proof (intro allI impI)
  fix x x' r assume n: "new_inst o' inst args x = Inr (x', r)"
  show "advances (prg x) (prg x')"
  proof (cases "prog_ok (prg x)")
    case True
    then have "tried (prg x) (prg x')"
      using new_inst_result [where x = x and o' = o' and inst = inst and args = args] n by (auto simp: prog_ok_def split: option.splits)
    then show ?thesis using tried_advances by blast
  qed (simp add: advances_def)
qed

lemma new_inst_wf: "prog_ok (prg x) \<Longrightarrow> new_inst o' inst args x = Inr (x', r) \<Longrightarrow> pred_option wf_instr r"
  using new_inst_result [where x = x and o' = o' and inst = inst and args = args] typed_wf by (auto simp: prog_ok_def split: option.splits)

end
