(* ===== verification/Linetext.thy ===== *)
theory Linetext
  imports Statements
begin

text \<open>
  What the texts of a line stand for: strings, lists of operands, lines of a macro, and lines that
  are skipped by conditional assembly.
\<close>

section \<open>A small source\<close>

text \<open>The hash value is reduced to the size of the table before it becomes a natural number.\<close>

lemma find_name_code [code]:
  "find_name ht name = find_at (\<lambda>n. name = n) (nat (uint (hashcode name) mod int (ht_size ht))) ht"
  by (simp add: find_name_def nat_mod_distrib)

lemma bucket_index_code [code]:
  "bucket_index ht no_case name =
     nat (uint (if no_case then hashcode_nc name else hashcode name) mod int (ht_size ht))"
  by (simp add: bucket_index_def nat_mod_distrib)

lemma init_codes_start: "init_codes cpu_start = cpu_start\<lparr>OC_JMPABS := 209\<rparr>"
proof -
  have u: "cpu_is cpu_start M6502" "\<not> cpu_is cpu_start M65C02" "\<not> cpu_is cpu_start DTV" "\<not> cpu_is cpu_start WDC65816"
    by code_simp+
  have o: "OC_FIRSTMV cpu_start = 0" "OC_LASTMV cpu_start = 0" "OC_BRA cpu_start = 0" by (simp_all add: cpu_start_def)
  have i: "init_step x c = c\<lparr>OC_JMPABS := OC_JMPABS (init_step x c), OC_BRA := OC_BRA (init_step x c),
      OC_FIRSTMV := OC_FIRSTMV (init_step x c), OC_LASTMV := OC_LASTMV (init_step x c)\<rparr>" for x c
    by (cases x) (simp add: init_step_def)
  have f: "\<exists>a b d e. fold init_step xs c = c\<lparr>OC_JMPABS := a, OC_BRA := b, OC_FIRSTMV := d, OC_LASTMV := e\<rparr>" for xs c
  proof (induction xs arbitrary: c)
    case Nil
    show ?case by (intro exI [where x = "OC_JMPABS c"] exI [where x = "OC_BRA c"] exI [where x = "OC_FIRSTMV c"] exI [where x = "OC_LASTMV c"]) simp
  next
    case (Cons x xs)
    from Cons [of "init_step x c"] obtain a b d e where
      "fold init_step xs (init_step x c) = (init_step x c)\<lparr>OC_JMPABS := a, OC_BRA := b, OC_FIRSTMV := d, OC_LASTMV := e\<rparr>" by blast
    moreover have "(init_step x c)\<lparr>OC_JMPABS := a, OC_BRA := b, OC_FIRSTMV := d, OC_LASTMV := e\<rparr>
        = c\<lparr>OC_JMPABS := a, OC_BRA := b, OC_FIRSTMV := d, OC_LASTMV := e\<rparr>"
      by (subst i) simp
    ultimately show ?case by auto
  qed
  obtain a b d e where r: "init_codes cpu_start = cpu_start\<lparr>OC_JMPABS := a, OC_BRA := b, OC_FIRSTMV := d, OC_LASTMV := e\<rparr>"
    using f unfolding init_codes_def init_from_specials by blast
  then have "a = 209" "b = 0" "d = 0" "e = 0" using init_codes_eq(1-4) [OF u(1) o(1,2,3)] u by simp_all
  then show ?thesis unfolding r by (simp add: cpu_start_def)
qed

lemma init_codes_code [code]:
  "init_codes conf = (if conf = cpu_start then cpu_start\<lparr>OC_JMPABS := 209\<rparr> else init_from 0 mnemonics conf)"
  by (simp add: init_codes_start) (simp add: init_codes_def)

definition small_source :: string where
  "small_source = ''; nothing'' @ [CHR 0x0A]"

definition one_file :: frontconf where
  "one_file = \<lparr>syn = oldstyle, files = \<lparr>host_open = (\<lambda>n. if n = ''a.s'' then Some small_source else None), convert_path = id,
      abs_path = (\<lambda>_. False), append_path_delimiter = id, filenamecmp = (=)\<rparr>,
    relpath = False, nocompdir = False, compile_dir = None, ignore_multinc = False, nocase_macros = False, maxmacparams = 9,
    maxmacrecurs = 1000, autoexport = False, astcomment = False, sect_directives = False\<rparr>"

definition front_of :: "prog \<Rightarrow> front" where
  "front_of p = \<lparr>par = parser_start p, conds = \<lparr>cond = [1, 0], condsrc = [], clev = 0, ifnesting = 0, cerrors = []\<rparr>,
    sources = [], next_id = 0, macros = [], macrohash = new_hashtable 3, structhash = new_hashtable 3, pending_def = None, cur_struct = None,
    struct_prevsect = None, source_files = [], incpaths = [[]], anon_no = 0, parse_end = False, last_alloc_sect = None, dsect_offs = 0,
    dsect_active = False, inline_stack = [], inline_id = 0, saved_last_global = []\<rparr>"

definition source_of :: "string \<Rightarrow> int \<Rightarrow> string list \<Rightarrow> src" where
  "source_of t n ps = \<lparr>src_name = ''a.s'', src_text = t, srcptr = t, src_line = 0, src_defsrc = None, src_defline = 0, src_macro = None,
    src_repeat = 1, src_reptn = - 1, reptcntname = None, src_cond_level = 0, src_argnames = [], num_params = n, param = ps, src_id = 12\<rparr>"

section \<open>Strings\<close>

text \<open>A string between two delimiters, which are doubled inside, as the backslash is where it has a meaning.\<close>

definition quoted_letter :: "expconf \<Rightarrow> char \<Rightarrow> char \<Rightarrow> string" where
  "quoted_letter o' q c = (if c = q \<or> code c = 92 \<and> esc_sequences o' then [c, c] else [c])"

definition quoted :: "expconf \<Rightarrow> char \<Rightarrow> string \<Rightarrow> string" where
  "quoted o' q s = q # concat (map (quoted_letter o' q) s) @ [q]"

definition ends_before :: "char \<Rightarrow> string \<Rightarrow> bool" where
  "ends_before q rest \<longleftrightarrow> rest = [] \<or> hd rest \<noteq> q"

lemma of_char_code: "of_char c = (of_nat (code c) :: u8)"
  by (simp add: code_def of_char_def)

lemma string_loop_quoted:
  assumes "code q \<noteq> 92" and "ends_before q rest"
  shows "string_loop o' q prev (concat (map (quoted_letter o' q) s) @ q # rest) = ([], map (\<lambda>c. Some (of_char c)) s, True, rest)"
proof (induction s arbitrary: prev)
  case Nil
  have "\<not> (ch rest 0 = q \<and> rest \<noteq> [])" using assms(2) by (cases rest) (auto simp: ends_before_def ch_def)
  then have "(if ch rest 0 = q \<and> rest \<noteq> [] then x else y) = y" for x y :: "nat list \<times> u8 option list \<times> bool \<times> string" by auto
  then show ?case using assms(1) by (simp only: string_loop.simps(2) [of o' q prev q] list.map concat.simps append_Nil if_False not_True_eq_False simp_thms)
next
  case (Cons c s)
  define r where "r = concat (map (quoted_letter o' q) s) @ q # rest"
  have IH: "string_loop o' q p r = ([], map (\<lambda>c. Some (of_char c)) s, True, rest)" for p unfolding r_def by (rule Cons.IH)
  have w: "concat (map (quoted_letter o' q) (c # s)) @ q # rest = quoted_letter o' q c @ r" by (simp add: r_def)
  note step = string_loop.simps(2) [of o' q prev c]
  consider "c = q" | "code c = 92" "c \<noteq> q" "esc_sequences o'" | "code c = 92" "c \<noteq> q" "\<not> esc_sequences o'" | "code c \<noteq> 92" "c \<noteq> q" by blast
  then show ?case
  proof cases
    case 1
    then show ?thesis unfolding w using assms(1) IH by (simp add: quoted_letter_def step [unfolded 1] ch_def)
  next
    case 2
    have "c \<noteq> CHR ''b''" "c \<noteq> CHR ''f''" "c \<noteq> CHR ''n''" "c \<noteq> CHR ''r''" "c \<noteq> CHR ''t''" using 2(1) by (auto simp: code_def)
    then have "escaped o' (c # r) = ([], Some (of_char c), r)" using 2 by (simp add: escaped_def escape_def ch_def Let_def of_char_code)
    moreover have "quoted_letter o' q c = [c, c]" using 2 by (simp add: quoted_letter_def)
    ultimately show ?thesis unfolding w using 2(1) IH by (simp add: step)
  next
    case 3
    have "escaped o' r = ([], Some (of_char c), r)" using 3 by (simp add: escaped_def escape_def of_char_code)
    moreover have "quoted_letter o' q c = [c]" using 3 by (simp add: quoted_letter_def)
    ultimately show ?thesis unfolding w using 3(1) IH by (simp add: step)
  next
    case 4
    then have "quoted_letter o' q c = [c]" by (simp add: quoted_letter_def)
    then show ?thesis unfolding w using 4 IH by (simp add: step)
  qed
qed

lemma keep_last_some: "keep_last c (map (\<lambda>x. Some (f x)) xs) = map (\<lambda>x. Some (f x)) xs"
  by (induction xs arbitrary: c) simp_all

text \<open>
  C16. A string of bytes that is written between two delimiters, with the delimiter doubled inside,
  and the backslash where escape sequences are allowed, is read back exactly, and the text behind it
  is left. A string of one character is not one: it is left to the expression parser.
\<close>

theorem string_roundtrip:
  assumes "code q \<noteq> 92" and "q \<noteq> commentchar (exprs o')" and "ends_before q rest"
  shows "parse_string o' (quoted (exprs o') q s @ rest) q 8
    = Inr ([], if length s = 1 then None else Some (map of_char s, rest))"
proof -
  note l = string_loop_quoted [OF assms(1,3), of "exprs o'" q s]
  have "skip_string (exprs o') (quoted (exprs o') q s @ rest) q = ([], length s, rest)"
    by (simp add: skip_string_def quoted_def ch_def l)
  moreover have "read_string (exprs o') (quoted (exprs o') q s @ rest) q = ([], map (\<lambda>c. Some (of_char c)) s, rest)"
    by (simp add: read_string_def quoted_def ch_def l)
  moreover have "\<not> ISEOL o' (quoted (exprs o') q s @ rest)" using assms(2) by (simp add: ISEOL_def quoted_def)
  ultimately show ?thesis by (auto simp: parse_string_def keep_last_some Let_def comp_def)
qed

lemma string_roundtrip_witness:
  "parse_string oldstyle ''\"say \"\"hi\"\"\",0'' (CHR 0x22) 8 = Inr ([], Some ([115, 97, 121, 32, 34, 104, 105, 34], '',0''))"
proof -
  have q: "code (CHR 0x22) \<noteq> 92" "CHR 0x22 \<noteq> commentchar (exprs oldstyle)" "ends_before (CHR 0x22) '',0''"
    by (simp_all add: code_def oldstyle_def plain_def ends_before_def)
  have "quoted (exprs oldstyle) (CHR 0x22) ''say \"hi\"'' @ '',0'' = ''\"say \"\"hi\"\"\",0''"
    by (simp add: quoted_def quoted_letter_def oldstyle_def plain_def code_def)
  moreover have "map of_char ''say \"hi\"'' = ([115, 97, 121, 32, 34, 104, 105, 34] :: u8 list)" by (simp add: of_char_def)
  ultimately show ?thesis using string_roundtrip [OF q, of "''say \"hi\"''"] by simp
qed

section \<open>Operands\<close>

text \<open>The text of an operand: no quotes, balanced parentheses, and commas only inside of them.\<close>

fun operand_text :: "synconf \<Rightarrow> nat \<Rightarrow> string \<Rightarrow> bool" where
  "operand_text o' n [] \<longleftrightarrow> n = 0"
| "operand_text o' n (c # cs) \<longleftrightarrow>
     (if c = CHR ''('' then operand_text o' (n + 1) cs
      else if c = CHR '')'' then 0 < n \<and> operand_text o' (n - 1) cs
      else \<not> is_quote c \<and> c \<noteq> commentchar (exprs o') \<and> \<not> (n = 0 \<and> (c = CHR '','' \<or> igntrail (exprs o') \<and> isspace c)) \<and> operand_text o' n cs)"

lemma skip_operand_loop_text:
  "operand_text o' n t \<Longrightarrow> r = [] \<or> hd r = CHR '','' \<or> hd r = commentchar (exprs o') \<Longrightarrow>
   commentchar (exprs o') \<notin> {CHR ''('', CHR '')''} \<Longrightarrow> \<not> is_quote (commentchar (exprs o')) \<Longrightarrow>
   skip_operand_loop o' n (t @ r) = ([], r)"
proof (induction o' n t rule: operand_text.induct)
  case (1 o' n)
  then show ?case by (cases r) (auto simp: skip_operand_loop.simps(2) is_quote_def code_def)
next
  case (2 o' n c cs)
  then show ?case by (auto simp: skip_operand_loop.simps(2) [of o' n c] split: if_splits)
qed

text \<open>The texts of a list, with commas between them.\<close>

fun separated :: "string list \<Rightarrow> string" where
  "separated [] = []"
| "separated [t] = t"
| "separated (t # ts) = t @ CHR '','' # separated ts"

definition field_text :: "synconf \<Rightarrow> string \<Rightarrow> bool" where
  "field_text o' t \<longleftrightarrow> operand_text o' 0 t \<and> t \<noteq> [] \<and> \<not> isspace (hd t) \<and> \<not> isspace (last t)"

definition comment_ok :: "synconf \<Rightarrow> bool" where
  "comment_ok o' \<longleftrightarrow> commentchar (exprs o') \<notin> {CHR ''('', CHR '')'', CHR '',''} \<and> \<not> is_quote (commentchar (exprs o'))
     \<and> \<not> isspace (commentchar (exprs o'))"

lemma up_to_append: "up_to r (t @ r) = t"
  by (simp add: up_to_def)

lemma oplen_text: "t \<noteq> [] \<Longrightarrow> \<not> isspace (last t) \<Longrightarrow> oplen r (t @ r) = length t"
  unfolding oplen_def up_to_append by (cases t rule: rev_cases) simp_all

lemma skip_nonblank: "s = [] \<or> \<not> isspace (hd s) \<Longrightarrow> skip s = s"
  by (cases s) (auto simp: skip_def)

lemma field_not_eol: "field_text o' t \<Longrightarrow> comment_ok o' \<Longrightarrow> \<not> ISEOL o' (t @ r)"
  by (cases t) (auto simp: field_text_def ISEOL_def comment_ok_def split: if_splits)

lemma operands_fields:
  assumes "list_all (field_text (syn o')) ts" and "comment_ok (syn o')" and "ISEOL (syn o') rest"
    and "length ts + length ops \<le> 3" and "length ts < k"
  shows "\<exists>fs. operands k o' (separated ts @ rest) ops = ([], ops @ fs, rest) \<and> map (\<lambda>(s, n). take n s) fs = ts"
  using assms
proof (induction ts arbitrary: k ops rule: separated.induct)
  case 1
  then show ?case by (cases k) simp_all
next
  case (2 t)
  then obtain j where k: "k = Suc j" by (cases k) simp_all
  have f: "field_text (syn o') t" using 2 by simp
  have r: "rest = [] \<or> hd rest = CHR '','' \<or> hd rest = commentchar (exprs (syn o'))" "ch rest 0 \<noteq> CHR '',''" "skip rest = rest"
    using 2(2,3) skip_nonblank [of rest] by (cases rest; auto simp: ISEOL_def comment_ok_def ch_def)+
  have s: "skip_operand (syn o') (t @ rest) = ([], rest)" "oplen rest (t @ rest) = length t"
    using f 2(2) r(1) by (simp_all add: skip_operand_def skip_operand_loop_text oplen_text field_text_def comment_ok_def)
  have n: "\<not> ISEOL (syn o') (t @ rest)" "\<not> 3 \<le> length ops" "length t \<noteq> 0"
    using f 2 field_not_eol by (auto simp: field_text_def)
  then have "operands k o' (separated [t] @ rest) ops = ([], ops @ [(t @ rest, length t)], rest)"
    using s r by (simp add: k Let_def)
  then show ?case by (intro exI [where x = "[(t @ rest, length t)]"]) simp
next
  case (3 t u us)
  let ?more = "separated (u # us) @ rest"
  obtain j where k: "k = Suc j" using 3 by (cases k) simp_all
  have f: "field_text (syn o') t" "field_text (syn o') u" using 3(2) by simp_all
  have s: "skip_operand (syn o') (t @ CHR '','' # ?more) = ([], CHR '','' # ?more)" "oplen (CHR '','' # ?more) (t @ CHR '','' # ?more) = length t"
    using f 3(3) by (simp_all add: skip_operand_def skip_operand_loop_text oplen_text field_text_def comment_ok_def)
  have n: "\<not> ISEOL (syn o') (t @ CHR '','' # ?more)" "\<not> 3 \<le> length ops" "length t \<noteq> 0"
    using f 3 field_not_eol by (auto simp: field_text_def)
  have "hd (separated (u # us)) = hd u" using f(2) by (cases us; cases u) (simp_all add: field_text_def)
  then have b: "skip ?more = ?more" "skip (CHR '','' # ?more) = CHR '','' # ?more"
    using f(2) skip_nonblank [of ?more] skip_nonblank [of "CHR '','' # ?more"]
    by (cases us; cases u; auto simp: field_text_def isspace_def code_def)+
  obtain fs where i: "operands j o' ?more (ops @ [(t @ CHR '','' # ?more, length t)]) = ([], (ops @ [(t @ CHR '','' # ?more, length t)]) @ fs, rest)"
    "map (\<lambda>(s, n). take n s) fs = u # us"
    using 3(1) [of "ops @ [(t @ CHR '','' # ?more, length t)]" j] 3(2-) k by auto
  have "operands k o' (separated (t # u # us) @ rest) ops = operands j o' ?more (ops @ [(t @ CHR '','' # ?more, length t)])"
    using s n b by (simp add: k Let_def split: prod.split)
  then show ?case using i
    by (intro exI [where x = "(t @ CHR '','' # ?more, length t) # fs"]) simp
qed



section \<open>Lines of a macro\<close>

text \<open>What the text of a macro consists of, how it is written, and what a call puts in its place.\<close>

datatype piece = Letter char | Argument nat | Serial | Backslash

fun piece_text :: "piece \<Rightarrow> string" where
  "piece_text (Letter c) = [c]"
| "piece_text (Argument n) = [char_of (92::nat), digit_char n]"
| "piece_text Serial = [char_of (92::nat), CHR ''@'']"
| "piece_text Backslash = [char_of (92::nat), char_of (92::nat)]"

fun put_in :: "frontconf \<Rightarrow> src \<Rightarrow> piece \<Rightarrow> string" where
  "put_in o' s (Letter c) = [c]"
| "put_in o' s (Argument n) = copy_macro_param o' s (if n = 0 then 0 else n - 1)"
| "put_in o' s Serial = CHR ''_'' # zero_padded 6 (digits_of 10 (src_id s))"
| "put_in o' s Backslash = (if esc_sequences (exprs (syn o')) then [char_of (92::nat), char_of (92::nat)] else [char_of (92::nat)])"

text \<open>
  Pieces that are expanded one by one: letters are no backslashes and do not end the line, and an
  argument that is empty is not directly in front of another backslash.
\<close>

fun expandable :: "frontconf \<Rightarrow> src \<Rightarrow> piece list \<Rightarrow> bool" where
  "expandable o' s [] \<longleftrightarrow> True"
| "expandable o' s (Letter c # ps) \<longleftrightarrow> code c \<noteq> 92 \<and> c \<notin> {CHR 0x00, CHR 0x0A, CHR 0x0D} \<and> expandable o' s ps"
| "expandable o' s (Argument n # ps) \<longleftrightarrow> n < 10 \<and> expandable o' s ps \<and>
     (put_in o' s (Argument n) = [] \<longrightarrow> (case ps of [] \<Rightarrow> True | Letter c # _ \<Rightarrow> True | _ \<Rightarrow> False))"
| "expandable o' s (p # ps) \<longleftrightarrow> expandable o' s ps"

lemma code_inj: "code c = code d \<Longrightarrow> c = d"
  unfolding code_def by (metis char_of_char)

lemma backslash_char: "char_of (92::nat) = CHR 0x5C"
  by (rule code_inj) (simp add: code_def)

lemma backslash_code: "code (char_of (92::nat)) = 92"
  by (simp add: code_def)

lemma digit_char_small: "n < 10 \<Longrightarrow> isdigit (digit_char n) \<and> code (digit_char n) = 48 + n"
  by (auto simp: isdigit_def digit_char_def code_def)

lemma expand_argument:
  "n < 10 \<Longrightarrow> expand_macro o' s (char_of (92::nat) # digit_char n # r) f = Inr (f, put_in o' s (Argument n), r)"
proof -
  assume n: "n < 10"
  have c: "code (digit_char n) = 48 + n" "isdigit (digit_char n)" using digit_char_small [OF n] by simp_all
  then have "digit_char n \<notin> {char_of (92::nat), CHR ''@'', CHR ''('', CHR ''<''}" using n by (auto simp: code_def)
  moreover have "digit_char n = CHR ''0'' \<longleftrightarrow> n = 0"
    using c(1) code_inj [of "digit_char n" "CHR ''0''"] by (auto simp: code_def)
  ultimately show ?thesis using c by (auto simp: expand_macro_def ch_def Let_def return_def)
qed

lemma expand_others:
  "expand_macro o' s (char_of (92::nat) # CHR ''@'' # r) f = Inr (f, put_in o' s Serial, r)"
  "expand_macro o' s (char_of (92::nat) # char_of (92::nat) # r) f = Inr (f, put_in o' s Backslash, r)"
  by (simp_all add: expand_macro_def ch_def Let_def return_def backslash_char)

lemma expand_nothing: "ch r 0 \<noteq> char_of (92::nat) \<Longrightarrow> expand_macro o' s r f = Inr (f, [], r)"
  by (simp add: expand_macro_def return_def)

lemma copy_round:
  assumes "r \<noteq> []" and "hd r \<noteq> CHR 0x00" and "0 \<le> num_params s" and "expand_macro o' s r f = Inr (f, x, t)"
    and "x = [] \<Longrightarrow> t \<noteq> [] \<and> hd t \<noteq> CHR 0x0D"
  shows "copy_line (Suc k) o' s start r d f =
    (if x \<noteq> [] then copy_line k o' s start t (d @ x) f
     else if hd t = CHR 0x0A then Inr (f, d, tl t) else copy_line k o' s start (tl t) (d @ [hd t]) f)"
  using assms by (simp add: bind_st_def return_def)

lemma copy_letter:
  assumes "code c \<noteq> 92" and "c \<notin> {CHR 0x00, CHR 0x0A, CHR 0x0D}" and "0 \<le> num_params s"
  shows "copy_line (Suc k) o' s start (c # r) d f = copy_line k o' s start r (d @ [c]) f"
proof -
  have "expand_macro o' s (c # r) f = Inr (f, [], c # r)"
    using assms(1) by (intro expand_nothing) (auto simp: ch_def code_def)
  from copy_round [OF _ _ assms(3) this, of k start d] assms(2) show ?thesis by simp
qed

lemma copy_pieces:
  assumes "expandable o' s ps" and "0 \<le> num_params s" and "length (concat (map piece_text ps)) < k"
  shows "copy_line k o' s start (concat (map piece_text ps) @ CHR 0x0A # rest) d f = Inr (f, d @ concat (map (put_in o' s) ps), rest)"
  using assms
proof (induction ps arbitrary: k d rule: length_induct)
  case (1 ps)
  let ?t = "\<lambda>ps. concat (map piece_text ps) @ CHR 0x0A # rest"
  obtain j where k: "k = Suc j" using 1(4) by (cases k) simp_all
  have IH: "copy_line j o' s start (?t qs) e f = Inr (f, e @ concat (map (put_in o' s) qs), rest)"
    if "length qs < length ps" "expandable o' s qs" "length (concat (map piece_text qs)) < j" for qs e
    using 1(1,3) that by blast
  have nl: "expand_macro o' s (CHR 0x0A # rest) f = Inr (f, [], CHR 0x0A # rest)"
    by (rule expand_nothing) (simp add: ch_def backslash_char)
  have b: "char_of (92::nat) \<noteq> CHR 0x00" by (simp add: backslash_char)
  show ?case
  proof (cases ps)
    case Nil
    then show ?thesis using copy_round [OF _ _ 1(3) nl, of j start d] k by simp
  next
    case (Cons p qs)
    show ?thesis
    proof (cases p)
      case (Letter c)
      then have c: "code c \<noteq> 92" "c \<notin> {CHR 0x00, CHR 0x0A, CHR 0x0D}" using 1(2) Cons by simp_all
      show ?thesis using copy_letter [OF c 1(3), of j o' start "?t qs" d f] IH [of qs "d @ [c]"] 1(2,4) Cons Letter k by simp
    next
      case (Argument n)
      then have n: "n < 10" "expandable o' s qs" using 1(2) Cons by simp_all
      note e = expand_argument [OF n(1), of o' s "?t qs" f]
      show ?thesis
      proof (cases "put_in o' s (Argument n) = []")
        case False
        then show ?thesis using copy_round [OF _ _ 1(3) e, of j start d] IH [of qs "d @ put_in o' s (Argument n)"] n b 1(4) Cons Argument k by simp
      next
        case empty: True
        then consider "qs = []" | c rs where "qs = Letter c # rs" using 1(2) Cons Argument by (auto split: list.splits piece.splits)
        then show ?thesis
        proof cases
          case 1
          then show ?thesis using copy_round [OF _ _ \<open>0 \<le> num_params s\<close> e, of j start d] empty b Cons Argument k by simp
        next
          case (2 c rs)
          then have c: "c \<notin> {CHR 0x00, CHR 0x0A, CHR 0x0D}" "expandable o' s rs" using n(2) by simp_all
          then show ?thesis
            using copy_round [OF _ _ \<open>0 \<le> num_params s\<close> e, of j start d] IH [of rs "d @ [c]"] empty b 1(4) Cons Argument k 2 by simp
        qed
      qed
    next
      case Serial
      then show ?thesis
        using copy_round [OF _ _ 1(3) expand_others(1) [of o' s "?t qs" f], of j start d] IH [of qs "d @ put_in o' s Serial"] b 1(2,4) Cons k by simp
    next
      case Backslash
      have "put_in o' s Backslash \<noteq> []" by simp
      then show ?thesis
        using copy_round [OF _ _ 1(3) expand_others(2) [of o' s "?t qs" f], of j start d] IH [of qs "d @ put_in o' s Backslash"] b 1(2,4) Cons k Backslash
        by (simp del: put_in.simps)
    qed
  qed
qed



section \<open>Skipped lines\<close>

definition with_messages :: "nat list \<Rightarrow> front \<Rightarrow> front" where
  "with_messages es f = f\<lparr>par := (par f)\<lparr>prg := (prg (par f))\<lparr>core := (core (prg (par f)))\<lparr>msgs := msgs (core (prg (par f))) @ es\<rparr>\<rparr>\<rparr>\<rparr>"

lemma report_result: "report es f = Inr (with_messages es f, ())"
proof -
  have m: "message n f = Inr (with_messages [n] f, ())" for n f
    by (simp add: message_def on_core_def on_par_def on_prog_def error_def modify_def general_error_def with_messages_def)
  have "with_messages xs (with_messages ys f) = with_messages (ys @ xs) f" for xs ys f by (simp add: with_messages_def)
  then have "each message es f = Inr (with_messages es f, ())"
    by (induction es arbitrary: f) (simp_all add: return_def bind_st_def m, simp add: with_messages_def)
  then show ?thesis unfolding report_def .
qed

lemma on_cond_result:
  "on_cond (\<lambda>c. Inr (g c)) f = Inr (let c = g ((conds f)\<lparr>cerrors := []\<rparr>) in with_messages (cerrors c) (f\<lparr>conds := c\<rparr>), ())"
  by (simp add: on_cond_def bind_st_def get_def modify_def report_result Let_def)

text \<open>
  C15. A line in a block that conditional assembly skips does nothing but keep count of the
  conditionals: whatever it contains, it is passed over without a failure, and the program with its
  symbols, sections and atoms, the macros, the sources and all other state stay as they are.
\<close>

theorem skipped_line_harmless:
  assumes "\<not> cond_state (conds f)"
  shows "\<exists>f'. parse_source_line o' line f = Inr (f', ()) \<and>
    (f' = f \<or> (\<exists>g \<in> {cond_skipif, cond_else, cond_endif}.
       let c = g ((conds f)\<lparr>cerrors := []\<rparr>) in f' = with_messages (cerrors c) (f\<lparr>conds := c\<rparr>)))"
proof -
  have "\<exists>f'. skipped_line o' line f = Inr (f', ()) \<and>
    (f' = f \<or> (\<exists>g \<in> {cond_skipif, cond_else, cond_endif}.
       let c = g ((conds f)\<lparr>cerrors := []\<rparr>) in f' = with_messages (cerrors c) (f\<lparr>conds := c\<rparr>)))"
    by (auto simp: skipped_line_def bind_st_def get_def on_cond_result return_def Let_def split: prod.splits option.splits)
  then show ?thesis using assms by (auto simp: parse_source_line_def bind_st_def get_def return_def)
qed

lemma skipped_line_harmless_witness:
  "\<exists>f'. parse_source_line one_file '' lda #1'' ((front_of (names_prog []))\<lparr>conds := \<lparr>cond = [1, 0], condsrc = [], clev = 1, ifnesting = 0, cerrors = []\<rparr>\<rparr>)
     = Inr (f', ()) \<and> order (front_prog f') = []"
proof -
  let ?f = "(front_of (names_prog []))\<lparr>conds := \<lparr>cond = [1, 0], condsrc = [], clev = 1, ifnesting = 0, cerrors = []\<rparr>\<rparr>"
  have "\<not> cond_state (conds ?f)" by (simp add: cond_state_def)
  from skipped_line_harmless [OF this, of one_file "'' lda #1''"] obtain f' where
    f: "parse_source_line one_file '' lda #1'' ?f = Inr (f', ())" and
    c: "f' = ?f \<or> (\<exists>g \<in> {cond_skipif, cond_else, cond_endif}.
       let c = g ((conds ?f)\<lparr>cerrors := []\<rparr>) in f' = with_messages (cerrors c) (?f\<lparr>conds := c\<rparr>))" by blast
  have "order (front_prog ?f) = []" by (simp add: front_of_def front_prog_def parser_start_def names_prog_def)
  then have "order (front_prog f') = []" using c by (auto simp: with_messages_def front_prog_def Let_def)
  then show ?thesis using f by blast
qed

end
