(* ===== verification/Frontsafe.thy ===== *)
theory Frontsafe
  imports Building Linetext
begin

text \<open>
  The front end keeps the program well-formed, line after line, and an object file is written
  only for a source that was read without an error.
\<close>

section \<open>Sources and lines\<close>

interpretation frt: guarded_frame "\<lambda>f f'. advances (front_prog f) (front_prog f')" front_prog
  by unfold_locales (simp_all add: advances_refl, rule advances_trans)

lemma frt_on_par: "pad.holds m \<Longrightarrow> frt.holds (on_par m)"
proof -
  assume m: "pad.holds m"
  have "advances (front_prog f) (front_prog f')" if r: "on_par m f = Inr (f', x)" for f f' x
  proof -
    obtain y where y: "m (par f) = Inr (y, x)" "f' = f\<lparr>par := y\<rparr>" using r by (auto simp: on_par_def split: sum.splits)
    show ?thesis using pad.holdsD [OF m y(1)] by (simp add: y(2) front_prog_def)
  qed
  then show ?thesis unfolding frt.holds_def by blast
qed

lemma frt_on_core: "adv.holds m \<Longrightarrow> frt.holds (on_core m)"
  unfolding on_core_def by (intro frt_on_par pad_on_prog)

lemma frt_same: "(\<And>f. par (g f) = par f) \<Longrightarrow> frt.holds (modify g)"
  by (rule frt.holds_same) (simp add: front_prog_def)

lemma frt_message: "frt.holds (message n)"
  unfolding message_def by (intro frt_on_core adv_core)

lemma frt_each: "(\<And>x. frt.holds (f x)) \<Longrightarrow> frt.holds (each f xs)"
  by (induction xs) (simp_all add: frt.holds_basic frt.holds_bind)

lemma frt_report: "frt.holds (report es)"
  unfolding report_def by (intro frt_each frt_message)

lemma frt_on_cond: "frt.holds (on_cond m)"
proof -
  have c: "frt.holds (modify (\<lambda>f. f\<lparr>conds := c\<rparr>))" for c by (rule frt_same) simp
  show ?thesis unfolding on_cond_def by (intro frt.holds_rules c frt_report)
qed

lemma frt_set_sources: "frt.holds (set_sources ss)"
proof -
  have s: "frt.holds (modify (\<lambda>f. f\<lparr>sources := ss\<rparr>))" by (rule frt_same) simp
  have p: "adv.holds (modify (\<lambda>p. p\<lparr>source := x\<rparr>))" for x by (rule adv_other) simp
  show ?thesis unfolding set_sources_def by (intro frt.holds_rules s frt_on_core p)
qed

lemmas frt_rules = frt.holds_rules adv.holds_rules frt_on_core frt_message frt_report frt_set_sources frt_on_cond adv_core adv_symbols adv_eval
  adv_set_internal_abs adv_flag

lemma frt_new_source: "frt.holds (new_source name txt)"
proof -
  have n: "frt.holds (modify (\<lambda>f. f\<lparr>next_id := next_id f + 1\<rparr>))" by (rule frt_same) simp
  show ?thesis unfolding new_source_def by (intro frt_rules n)
qed

lemma frt_end_source: "frt.holds end_source" and frt_leave_macro: "frt.holds leave_macro"
proof -
  have c: "frt.holds (modify (\<lambda>f. f\<lparr>conds := end_source_level n (conds f)\<rparr>))" for n by (rule frt_same) simp
  show e: "frt.holds end_source" unfolding end_source_def by (intro frt_rules c)
  show "frt.holds leave_macro" unfolding leave_macro_def by (intro frt_rules e)
qed

lemma frt_locate_file: "frt.holds (locate_file o' name)"
  unfolding locate_file_def by (intro frt_rules)

lemma frt_include_source: "frt.holds (include_source o' name)"
proof -
  have s: "frt.holds (modify (\<lambda>f. f\<lparr>source_files := source_files f @ xs\<rparr>))" for xs by (rule frt_same) simp
  show ?thesis unfolding include_source_def Let_def by (intro frt_rules s frt_new_source frt_locate_file)
qed

lemma frt_include_binary_file: "frt.holds (include_binary_file o' name m n)"
proof -
  have a: "atom_ok (new_data_atom (new_dblock\<lparr>db_size := n, db_data := map of_char (take n t)\<rparr>) 1)" if "n \<le> length t" for n t
    using that by (simp add: atom_ok_def new_data_atom_def new_atom_def)
  show ?thesis
    unfolding include_binary_file_def Let_def by (intro frt_rules frt_locate_file adv_add_atom a) simp
qed

lemma frt_new_include_path: "frt.holds (new_include_path o' name)"
  unfolding new_include_path_def Let_def by (rule frt_same) simp

lemma frt_upd_macro: "frt.holds (upd_macro m g)"
  unfolding upd_macro_def by (rule frt_same) simp

lemma frt_new_macro: "frt.holds (new_macro o' ht name es args)"
proof -
  have h: "frt.holds (modify (\<lambda>f. f\<lparr>macrohash := x\<rparr>))" "frt.holds (modify (\<lambda>f. f\<lparr>pending_def := d\<rparr>))" for x d
    by (rule frt_same, simp)+
  show ?thesis unfolding new_macro_def Let_def by (intro frt_rules h)
qed

lemma frt_new_repeat: "frt.holds (new_repeat n name rs es)"
proof -
  have h: "frt.holds (modify (\<lambda>f. f\<lparr>pending_def := d\<rparr>))" for d by (rule frt_same) simp
  show ?thesis unfolding new_repeat_def by (intro frt_rules h)
qed

lemma frt_start_repeat: "frt.holds (start_repeat n name from txt)"
  unfolding start_repeat_def Let_def by (intro frt_rules frt_new_source)

lemma frt_copy_line: "frt.holds (copy_line k o' s start r d)"
proof -
  have x: "frt.holds (expand_symbol o' t)" for t
    unfolding expand_symbol_def Let_def by (intro frt_rules)
  have e: "frt.holds (expand_macro o' s r)" for r
    unfolding expand_macro_def Let_def by (intro frt_rules x)
  show ?thesis
  proof (induction k arbitrary: r d)
    case (Suc k)
    show ?case unfolding copy_line.simps by (intro frt_rules e Suc)
  qed (simp add: frt.holds_basic)
qed

lemma frt_next_source: "frt.holds (next_source k)"
proof (induction k)
  case (Suc k)
  show ?case unfolding next_source.simps by (intro frt_rules frt_upd_macro Suc)
qed (simp add: frt.holds_basic)

lemma read_definition_repeat: "read_definition o' d s ss f = Inr (f', r, rep) \<Longrightarrow> frt.holds rep"
  by (auto simp: read_definition_def action_Inr Let_def frt.holds_basic intro: frt_start_repeat
      split: if_splits prod.splits option.splits definition_kind.splits)

lemma frt_read_definition: "frt.holds (read_definition o' d s ss)"
proof -
  have p: "frt.holds (modify (\<lambda>f. f\<lparr>pending_def := None\<rparr>))" by (rule frt_same) simp
  have m: "frt.holds (add_macro o' m v t)" for m v t unfolding add_macro_def by (rule frt_same) simp
  show ?thesis
    unfolding read_definition_def Let_def
    by (cases "pend_kind d") (simp_all only: definition_kind.case, (intro frt_rules p m)+)
qed

lemma frt_read_next_line: "frt.holds (read_next_line o')"
proof -
  have l: "frt.holds (on_par (modify (\<lambda>x. x\<lparr>px_line := line\<rparr>)))" for line
    by (rule frt_on_par, rule pad.holds_same) simp
  have c: "frt.holds (case z of (r, rep) \<Rightarrow> bind_st get (\<lambda>f. case sources f of [] \<Rightarrow> fail Undefined | s # ss \<Rightarrow>
          bind_st (copy_line (length r + 1) o' s (srcptr s) r []) (\<lambda>(line, r).
          bind_st (set_sources (s\<lparr>srcptr := r\<rparr> # ss)) (\<lambda>_.
          bind_st (on_par (modify (\<lambda>x. x\<lparr>px_line := line\<rparr>))) (\<lambda>_.
          bind_st rep (\<lambda>_. return (Some line)))))))" if "frt.holds (snd z)" for z
    using that by (cases z) (simp only: prod.case snd_conv, intro frt_rules l frt_copy_line)
  show ?thesis
    unfolding read_next_line_def Let_def
    by (intro frt_rules frt_next_source frt.holds_result [where P = "\<lambda>z. frt.holds (snd z)"] c frt_read_definition)
      (auto simp: return_Inr frt.holds_basic dest: read_definition_repeat split: option.splits if_splits)
qed

lemma frt_execute_macro: "frt.holds (execute_macro o' name n s)"
  unfolding execute_macro_def Let_def by (intro frt_rules frt_upd_macro frt_new_source)

section \<open>Directives\<close>

lemma frt_read_with:
  assumes "\<And>o' s. pad.holds (p o' s)"
  shows "frt.holds (read_with p o' s)"
  unfolding read_with_def by (intro frt.holds_rules frt_on_par pad.holds_rules assms)

lemmas frt_reading = frt_read_with [of parse_expr, OF pad_parse_expr(1)] frt_read_with [of parse_expr_tmplab, OF pad_parse_expr(2)]
  frt_read_with [of parse_constexpr, OF pad_parse_expr(3)]

lemma frt_check_eol: "frt.holds (check_eol o' s)"
  unfolding check_eol_def by (rule frt_report)

lemma frt_append_atom: "atom_ok a \<Longrightarrow> frt.holds (append_atom a)"
  unfolding append_atom_def by (intro frt_on_core adv_add_atom)

lemma front_atoms_ok [simp]: "atom_ok (fill_atom cnt k fl f)" "atom_ok a \<Longrightarrow> atom_ok (a\<lparr>align := n\<rparr>)" "atom_ok a \<Longrightarrow> atom_ok (clone_atom a)"
  "atom_ok (new_data_atom (string_block bs) n)" "atom_ok a \<Longrightarrow> atom_ok (uninitialized a)" "atom_ok (a\<lparr>content := SPACE sb\<rparr>)"
  by (auto simp: fill_atom_def new_space_atom_def atom_ok_def clone_atom_def new_data_atom_def new_atom_def string_block_def uninitialized_def split: content.splits)

lemma frt_do_space: "frt.holds (do_space n e fl)"
  unfolding do_space_def by (intro frt_rules frt_append_atom) simp

lemmas frt_handling = frt_rules frt_reading frt_check_eol frt_append_atom frt_do_space new_atoms_ok front_atoms_ok

lemma frt_data_loop: "frt.holds (data_loop k o' bits md s)"
proof -
  have o: "frt.holds (data_operand o' bits md s n bad)" for bits md s n bad
    unfolding data_operand_def by (intro frt_handling frt_on_par pad_parse_operand)
  have t: "frt.holds (data_string o' bits md bs)" for bits md bs
    unfolding data_string_def Let_def by (intro frt_handling frt_each o)
  show ?thesis
  proof (induction k arbitrary: s)
    case (Suc k)
    show ?case unfolding data_loop.simps Let_def by (intro frt_handling o t Suc)
  qed (simp add: frt.holds_basic)
qed

lemma frt_handle_data: "frt.holds (handle_data o' bits s)" and frt_data_or_space: "frt.holds (data_or_space o' bits s)"
  and frt_handle_dblbyt: "frt.holds (handle_dblbyt o' s)" and frt_handle_taddr: "frt.holds (handle_taddr o' s)"
  and frt_handle_d8_mod: "frt.holds (handle_d8_mod o' s)" and frt_handle_string: "frt.holds (handle_string o' fl s)"
proof -
  show d: "frt.holds (handle_data o' bits s)" for bits s unfolding handle_data_def by (rule frt_data_loop)
  show s: "frt.holds (data_or_space o' bits s)" for bits s unfolding data_or_space_def Let_def by (intro frt_handling d)
  show "frt.holds (handle_dblbyt o' s)" unfolding handle_dblbyt_def Let_def by (intro frt_handling d)
  show "frt.holds (handle_taddr o' s)" unfolding handle_taddr_def by (intro frt_handling s)
  show "frt.holds (handle_string o' fl s)" unfolding handle_string_def by (intro frt_handling d)
  have "frt.holds (modifier t)" for t
    unfolding modifier_def Let_def by (intro frt_handling adv_upd) simp
  then have "frt.holds (handle_data_mod o' bits t s)" for bits t s
    unfolding handle_data_mod_def by (intro frt_handling frt_data_loop)
  then show "frt.holds (handle_d8_mod o' s)" unfolding handle_d8_mod_def Let_def by (intro frt_handling)
qed

lemma frt_spaces: "frt.holds (handle_space o' bits s)" "frt.holds (handle_uspace o' bits s)" "frt.holds (handle_align o' s)"
  "frt.holds (handle_even o' s)" "frt.holds (handle_symdepend o' s)" "frt.holds (do_text o' v s)"
proof -
  have a: "frt.holds (do_alignment n e)" for n e unfolding do_alignment_def by (intro frt_handling)
  show "frt.holds (handle_space o' bits s)" unfolding handle_space_def Let_def by (intro frt_handling)
  show "frt.holds (handle_uspace o' bits s)" unfolding handle_uspace_def by (intro frt_handling)
  show "frt.holds (handle_align o' s)" unfolding handle_align_def by (intro frt_handling a)
  show "frt.holds (handle_even o' s)" unfolding handle_even_def by (intro frt_handling a)
  show "frt.holds (handle_symdepend o' s)" unfolding handle_symdepend_def by (intro frt_handling)
  show "frt.holds (do_text o' v s)" unfolding do_text_def by (intro frt_handling)
qed

lemma frt_switch_to: "frt.holds (switch_to name attr)"
  unfolding switch_to_def by (intro frt_handling adv.holds_rules adv_new_section adv_set_section)

lemma frt_handle_sect: "(\<And>s. frt.holds (h s)) \<Longrightarrow> frt.holds (handle_sect o' name attr h s)"
  unfolding handle_sect_def by (intro frt_handling frt_switch_to)

lemma frt_handle_section: "frt.holds (handle_section o' s)"
  unfolding handle_section_def Let_def by (intro frt_handling adv.holds_rules adv_new_section adv_set_section)

lemma frt_handle_org: "frt.holds (handle_org o' s)"
  unfolding handle_org_def Let_def
  by (intro frt_handling frt_spaces adv.holds_rules adv_switch_offset_section adv_new_org adv_set_section)

lemma frt_origins: "frt.holds (handle_rorg o' s)" "frt.holds (handle_rend o' s)" "frt.holds (handle_roffs o' s)"
  unfolding handle_rorg_def handle_rend_def handle_roffs_def by (intro frt_handling adv_start_rorg adv_end_rorg)+

lemma frt_dsect: "frt.holds (handle_dsect o' s)" "frt.holds (handle_dend o' s)"
proof -
  have m: "frt.holds (modify (\<lambda>f. f\<lparr>last_alloc_sect := current (front_prog f), dsect_active := True\<rparr>))"
    "frt.holds (modify (\<lambda>f. f\<lparr>dsect_offs := sec_pc (psec (front_prog f) c)\<rparr>))"
    "frt.holds (modify (\<lambda>f. f\<lparr>last_alloc_sect := None, dsect_active := False\<rparr>))" for c
    by (rule frt_same, simp)+
  show "frt.holds (handle_dsect o' s)" unfolding handle_dsect_def by (intro frt_handling m adv_switch_offset_section)
  show "frt.holds (handle_dend o' s)" unfolding handle_dend_def by (intro frt_handling m adv_set_section)
qed

lemma frt_handle_binding: "frt.holds (handle_binding o' b s)"
proof -
  have s: "frt.holds (bind_symbol b n)" for n unfolding bind_symbol_def by (intro frt_handling)
  have "frt.holds (do_binding k o' b s)" for k s
  proof (induction k arbitrary: s)
    case (Suc k)
    show ?case unfolding do_binding.simps Let_def by (intro frt_handling s Suc)
  qed (simp add: frt.holds_basic)
  then show ?thesis unfolding handle_binding_def .
qed

lemma frt_handle_defc: "frt.holds (handle_defc o' s)"
  unfolding handle_defc_def Let_def by (intro frt_handling adv.holds_rules)

lemma frt_conditions: "frt.holds (ifdef o' b s)" "frt.holds (ifused o' b s)" "frt.holds (ifblank o' b s)" "frt.holds (ifexp o' c s)"
  "frt.holds (handle_else o' s)" "frt.holds (handle_endif o' s)"
proof -
  have i: "frt.holds (start_if b)" for b unfolding start_if_def by (intro frt_handling)
  have t: "frt.holds (symbol_type n)" for n unfolding symbol_type_def by (intro frt_handling)
  show "frt.holds (ifdef o' b s)" unfolding ifdef_def by (intro frt_handling i t)
  show "frt.holds (ifused o' b s)" unfolding ifused_def by (intro frt_handling i t)
  show "frt.holds (ifblank o' b s)" unfolding ifblank_def by (rule i)
  show "frt.holds (ifexp o' c s)" unfolding ifexp_def by (intro frt_handling i)
  show "frt.holds (handle_else o' s)" unfolding handle_else_def by (intro frt_handling)
  show "frt.holds (handle_endif o' s)" unfolding handle_endif_def by (intro frt_handling)
qed

lemma frt_asserts: "frt.holds (handle_assert o' s)" "frt.holds (handle_fail s)"
  unfolding handle_assert_def handle_fail_def Let_def by (intro frt_handling)+

section \<open>Files, macros and structures\<close>

lemma frt_files: "frt.holds (handle_incdir o' s)" "frt.holds (handle_include o' s)" "frt.holds (handle_incbin o' s)"
  unfolding handle_incdir_def handle_include_def handle_incbin_def Let_def
  by (intro frt_handling frt_new_include_path frt_include_source frt_include_binary_file)+

lemma frt_macros: "frt.holds (handle_rept o' s)" "frt.holds (handle_macro o' ht s)" "frt.holds (handle_exitmacro o' s)"
  unfolding handle_rept_def handle_macro_def handle_exitmacro_def Let_def
  by (intro frt_handling frt_new_repeat frt_new_macro frt_leave_macro)+

lemma frt_structs: "frt.holds (handle_struct o' s)" "frt.holds (handle_endstruct o' s)"
proof -
  have m: "frt.holds (modify (\<lambda>f. f\<lparr>struct_prevsect := current (front_prog f)\<rparr>))"
    "frt.holds (modify (\<lambda>f. f\<lparr>cur_struct := x, structhash := h f\<rparr>))"
    "frt.holds (modify (\<lambda>f. f\<lparr>cur_struct := None, struct_prevsect := None\<rparr>))" for x h
    by (rule frt_same, simp)+
  have n: "frt.holds (new_structure o' name)" for name
    unfolding new_structure_def by (intro frt_handling m adv_switch_offset_section)
  show "frt.holds (handle_struct o' s)" unfolding handle_struct_def by (intro frt_handling n)
  show "frt.holds (handle_endstruct o' s)"
    unfolding handle_endstruct_def by (intro frt_handling m adv_new_labsym adv_set_section adv_add_atom)
qed

lemma frt_struct_field: "atom_ok a \<Longrightarrow> frt.holds (struct_field o' a s n)"
proof -
  assume a: "atom_ok a"
  have d: "frt.holds (struct_data o' n s)" for n unfolding struct_data_def by (intro frt_handling)
  show ?thesis
    unfolding struct_field_def
    by (cases "content a") (simp_all only: content.case, (intro frt_handling d frt_on_par pad_parse_operand a)+)
qed

lemma frt_struct_atoms: "frt.holds (struct_atoms k o' c i s)"
proof (induction k arbitrary: i s)
  case (Suc k)
  have "frt.holds (if length (atoms (front_prog f) c) \<le> i then check_eol o' s
     else
       let a = atoms (front_prog f) c ! i
       in case content a of
            INSTRUCTION _ \<Rightarrow> bind_st (message 1023) (\<lambda>_. struct_atoms k o' c (i + 1) s)
          | _ \<Rightarrow>
              if (case content a of DATA _ \<Rightarrow> True | SPACE _ \<Rightarrow> True | DATADEF _ \<Rightarrow> True | _ \<Rightarrow> False) then
                (let s = skip s
                 in case skip_operand (syn o') s of (es, r) \<Rightarrow>
                      bind_st (report es) (\<lambda>_.
                      bind_st (struct_field o' a s (oplen r s)) (\<lambda>_.
                      let r = skip r in struct_atoms k o' c (i + 1) (if ch r 0 = CHR '','' then drop 1 r else r))))
              else struct_atoms k o' c (i + 1) s)" if ok: "prog_ok (front_prog f)" for f
  proof (cases "length (atoms (front_prog f) c) \<le> i")
    case False
    then have a: "atom_ok (atoms (front_prog f) c ! i)" using ok by (simp add: prog_ok_def list_all_length)
    show ?thesis
      unfolding Let_def
      by (cases "content (atoms (front_prog f) c ! i)")
        (simp_all only: content.case if_True if_False, (intro frt_handling frt_struct_field a Suc)+)
  qed (simp add: frt_check_eol)
  then show ?case unfolding struct_atoms.simps by (rule frt.holds_when)
qed (simp add: frt.holds_basic)

lemma frt_execute_struct: "frt.holds (execute_struct o' name n s)"
proof -
  have "frt.holds (find_structure o' name n)" unfolding find_structure_def by (intro frt_handling)
  then show ?thesis unfolding execute_struct_def by (intro frt_handling frt_struct_atoms)
qed

lemma frt_inline: "frt.holds handle_inline" "frt.holds handle_einline"
proof -
  have l: "adv.holds (set_last_global_label n)" for n
    unfolding set_last_global_label_def by (intro adv.holds_rules adv_other) simp
  have m: "frt.holds (modify (\<lambda>f. f\<lparr>saved_last_global := a f, inline_stack := b f, inline_id := c f\<rparr>))"
    "frt.holds (modify (\<lambda>f. f\<lparr>inline_stack := st\<rparr>))" for a b c st by (rule frt_same, simp)+
  show "frt.holds handle_inline" unfolding handle_inline_def by (intro frt_handling l m)
  show "frt.holds handle_einline" unfolding handle_einline_def by (intro frt_handling l m)
qed

lemma frt_handle_directive: "frt.holds (handle_directive o' s)"
proof -
  have e: "frt.holds (modify (\<lambda>f. f\<lparr>parse_end := True\<rparr>))" by (rule frt_same) simp
  have "frt.holds (run_directive o' d s)" for d s
    by (cases d) (simp_all only: run_directive.simps,
      (intro frt_handle_org frt_origins frt_spaces frt_handle_sect frt_handle_data frt_data_or_space frt_handle_dblbyt frt_handle_taddr
        frt_handle_d8_mod frt_handle_string frt_asserts frt_conditions frt_files frt_macros frt_handle_section frt_dsect frt_handle_defc
        frt_handle_binding frt_structs frt_inline e frt_handling)+)
  then show ?thesis unfolding handle_directive_def by (intro frt_handling)
qed

section \<open>Directives of the 6502\<close>

lemma frt_set_cpu: "frt.holds (set_cpu g)"
  unfolding set_cpu_def by (rule frt_on_core, rule adv_other) simp

lemma adv_cpu_and_size: "adv.holds (modify (\<lambda>p. p\<lparr>cpu := c, core := (core p)\<lparr>bytespertaddr := b\<rparr>\<rparr>))"
  by (intro adv_quiet qt.holds_modify kok.holds_modify) (simp_all add: quiet_def keeps_ok_def reports_def)

lemma frt_parse_cpu_special: "frt.holds (parse_cpu_special o' s)"
proof -
  have a: "frt.holds (handle_asize n s)" "frt.holds (handle_xsize n s)" for n s
    unfolding handle_asize_def handle_xsize_def by (intro frt_handling frt_set_cpu adv_cpu_opts_init)+
  have l: "(\<And>n s. frt.holds (h n s)) \<Longrightarrow> frt.holds (handle_long h s)" for h s unfolding handle_long_def by (intro frt_handling)
  have c: "frt.holds (handle_cpu s)" for s unfolding handle_cpu_def by (intro frt_handling adv_cpu_and_size)
  have d: "frt.holds (handle_setdp o' s)" for s unfolding handle_setdp_def by (intro frt_handling frt_set_cpu adv_cpu_opts_init)
  have p: "frt.holds (handle_zpage k o' s)" for k s
  proof (induction k arbitrary: s)
    case (Suc k)
    show ?case unfolding handle_zpage.simps Let_def by (intro frt_handling Suc)
  qed (simp add: frt.holds_basic)
  have z: "frt.holds (handle_zero o' s)" for s
    unfolding handle_zero_def by (intro frt_handling adv.holds_rules adv_new_section adv_set_section)
  have "frt.holds (run_cpu_directive o' d' s)" for d' s
    by (cases d') (simp_all only: run_cpu_directive.simps a l c d p z)
  then show ?thesis unfolding parse_cpu_special_def Let_def by (intro frt_handling)
qed

lemma frt_parse_cpu_label: "frt.holds (parse_cpu_label o' name s)"
  unfolding parse_cpu_label_def Let_def by (intro frt_handling adv_new_equate)

section \<open>Statements\<close>

lemma frt_skipped_line: "frt.holds (skipped_line o' line)"
  unfolding skipped_line_def by (intro frt_handling)

lemma frt_parse_instruction_line: "frt.holds (parse_instruction_line o' inst)"
proof -
  have i: "frt.holds (on_par (new_inst sc name ops))" for sc name ops by (intro frt_on_par pad_new_inst)
  have w: "pred_option wf_instr r" if "prog_ok (front_prog f)" and "on_par (new_inst sc name ops) f = Inr (f', r)" for f f' sc name ops r
    using that new_inst_wf by (auto simp: on_par_def front_prog_def split: sum.splits)
  have g: "frt.holds (case ip of None \<Rightarrow> return () | Some ip \<Rightarrow> bind_st (if b ip then message 1006 else return ()) (\<lambda>_.
      append_atom (new_inst_atom 1 ip)))" if "pred_option wf_instr ip" for ip b
    using that by (cases ip) (auto simp: atom_ok_def new_inst_atom_def new_atom_def intro!: frt_handling)
  show ?thesis
    unfolding parse_instruction_line_def Let_def
    by (intro frt_handling frt_execute_macro frt_execute_struct frt.holds_result [where P = "pred_option wf_instr", OF i w g])
qed

lemma frt_parse_statement: "frt.holds (parse_statement o' s)"
  unfolding parse_statement_def Let_def
  by (intro frt_handling frt_parse_cpu_special frt_handle_org frt_handle_directive frt_parse_instruction_line)

lemma frt_parse_source_line: "frt.holds (parse_source_line o' line)"
proof -
  have d: "frt.holds (define_label o' line name a s)" for name a s
    unfolding define_label_def Let_def
    by (intro frt_handling frt_handle_org frt_new_macro frt_parse_cpu_label adv_new_equate adv_new_labsym)
  have m: "frt.holds (modify (\<lambda>f. f\<lparr>anon_no := n\<rparr>))" for n by (rule frt_same) simp
  show ?thesis
    unfolding parse_source_line_def by (intro frt_handling frt_skipped_line m d frt_parse_statement)
qed

lemma frt_parse: "frt.holds (parse n o')"
proof -
  have "frt.holds (parse_lines_of n o')" for n
  proof (induction n)
    case (Suc n)
    show ?case unfolding parse_lines_of.simps by (intro frt_handling frt_read_next_line frt_parse_source_line Suc)
  qed (simp add: frt.holds_basic)
  then show ?thesis unfolding parse_def by (intro frt_handling)
qed

text \<open>
  C4. Reading source text keeps the program well-formed, whatever the text is: the table of symbols
  stays in agreement with the list, no symbol leaves the list, no section is linked twice, every
  instruction is one that the encoder accepts and every block of data has as many bytes as it says.
  No message is lost.
\<close>

theorem parser_keeps_program:
  assumes "parse n o' f = Inr (f', ())" and "prog_ok (front_prog f)"
  shows "prog_ok (front_prog f') \<and> (\<exists>new. symlist (front_prog f') = new @ symlist (front_prog f))
    \<and> (\<exists>ms. msgs (core (front_prog f')) = msgs (core (front_prog f)) @ ms)"
  using frt.holdsD [OF frt_parse assms(1)] assms(2) by (auto simp: advances_def more_messages_def)

lemma parser_keeps_program_witness:
  "\<exists>f'. parse 5 one_file ((front_of (names_prog [''a'']))\<lparr>sources := [source_of small_source (- 1) []]\<rparr>) = Inr (f', ())
     \<and> prog_ok (front_prog f')"
proof -
  let ?f = "(front_of (names_prog [''a'']))\<lparr>sources := [source_of small_source (- 1) []]\<rparr>"
  have "case parse 5 one_file ?f of Inl _ \<Rightarrow> False | Inr _ \<Rightarrow> True" by code_simp
  then obtain f' where f: "parse 5 one_file ?f = Inr (f', ())" by (auto split: sum.splits)
  have p: "front_prog ?f = names_prog [''a'']" by (simp add: front_of_def front_prog_def parser_start_def)
  have "prog_ok (front_prog ?f)" unfolding p prog_ok_def using one_name_ok by (simp add: names_prog_def)
  from parser_keeps_program [OF f this] f show ?thesis by blast
qed

section \<open>From the source to the object file\<close>

text \<open>The program before the first symbol is made.\<close>

definition nothing_yet :: "prog \<Rightarrow> bool" where
  "nothing_yet p \<longleftrightarrow> sym_ok p \<and> ht_map (nocase p) (symhash p) = Map.empty \<and> order p = [] \<and> (\<forall>c. atoms p c = [])"

definition only_source :: "front \<Rightarrow> front \<Rightarrow> bool" where
  "only_source f f' \<longleftrightarrow> (\<exists>x. front_prog f' = (front_prog f)\<lparr>source := x\<rparr>)"

interpretation sbs: step_frame only_source
proof
  show "only_source f f" for f unfolding only_source_def by (rule exI [where x = "source (front_prog f)"]) simp
qed (auto simp: only_source_def)

lemma sbs_modify: "(\<And>f. par (g f) = par f) \<Longrightarrow> sbs.holds (modify g)"
proof (rule sbs.holds_modify)
  fix f assume "\<And>f. par (g f) = par f"
  then show "only_source f (g f)"
    unfolding only_source_def by (intro exI [where x = "source (front_prog f)"]) (simp add: front_prog_def)
qed

lemma sbs_include_source: "sbs.holds (include_source o' name)"
proof -
  have c: "sbs.holds (on_core (modify (\<lambda>p. p\<lparr>source := x\<rparr>)))" for x
    by (auto simp: sbs.holds_def only_source_def on_core_def on_par_def on_prog_def modify_def front_prog_def)
  have s: "sbs.holds (set_sources ss)" for ss unfolding set_sources_def by (intro sbs.holds_rules c sbs_modify) simp
  have n: "sbs.holds (new_source m t)" for m t unfolding new_source_def by (intro sbs.holds_rules sbs_modify) simp
  have l: "sbs.holds (locate_file o' m)" for m unfolding locate_file_def by (intro sbs.holds_rules)
  show ?thesis unfolding include_source_def Let_def by (intro sbs.holds_rules s n l sbs_modify) simp
qed

lemma first_symbol_ok:
  assumes "nothing_yet p" and "internal_abs name p = Inr (p', y)"
  shows "prog_ok p'"
proof -
  have l: "lookup p name = None" using assms(1) by (simp add: nothing_yet_def lookup_def)
  obtain p1 ht p2 u where 1: "p1 = p\<lparr>symhash := ht\<rparr>" "find_symbol name p = Inr (p1, None)"
    and 2: "new_abs name (NUM 0) p1 = Inr (p2, y)" "upd_symbol y (set_flag VASMINTERN) p2 = Inr (p', u)"
    using find_symbol_total [of name p] l assms(2) by (auto simp: internal_abs_def action_Inr)
  have "parsed p p1" using harmless_find [of name] 1(2) unfolding harmless_def by (metis (no_types, lifting) case_prod_conv old.sum.simps(6))
  moreover have "parsed p1 p2" by (rule parsed_new_abs [OF 2(1)])
  moreover have "parsed p2 p'" using harmless_upd [of "set_flag VASMINTERN" y] 2(2) unfolding harmless_def
    by (metis (no_types, lifting) case_prod_conv old.sum.simps(6) set_flag_name(1))
  ultimately have q: "parsed p p'" using parsed_trans by blast
  have "lookup p1 name = None" using l same_syms_lookup [OF same_syms_find [OF 1(2)]] by simp
  then have "symlist p2 \<noteq> []"
    using 2(1) find_symbol_total [of name p1] by (auto simp: new_abs_def alloc_symbol_def add_symbol_def action_Inr)
  then have "symlist p' \<noteq> []" using \<open>parsed p2 p'\<close> by (auto simp: parsed_def)
  then show ?thesis using q assms(1) by (auto simp: parsed_def prog_ok_def nothing_yet_def)
qed

lemma parse_main_ok:
  assumes "parse_main o' n orgmode inname f = Inr (f', ())" and "nothing_yet (front_prog f)"
  shows "prog_ok (front_prog f')"
proof -
  let ?rest = "bind_st (init_syntax orgmode) (\<lambda>_. bind_st (set_cpu init_codes) (\<lambda>_. bind_st set_defaults (\<lambda>_. parse n o')))"
  obtain f1 f2 y where 1: "include_source o' inname f = Inr (f1, ())" and 2: "on_core (internal_abs ''__VASM'') f1 = Inr (f2, y)"
    and 3: "?rest f2 = Inr (f', ())"
    using assms(1) unfolding parse_main_def by (auto simp: bind_st_Inr)
  obtain x where "front_prog f1 = (front_prog f)\<lparr>source := x\<rparr>" using sbs.holdsD [OF sbs_include_source 1] unfolding only_source_def by blast
  moreover from this have "same_syms (front_prog f) (front_prog f1)" by (simp add: same_syms_def)
  then have "sym_ok (front_prog f1)" using same_syms_ok assms(2) unfolding nothing_yet_def by blast
  ultimately have "nothing_yet (front_prog f1)" using assms(2) by (simp add: nothing_yet_def)
  moreover have "\<exists>y. internal_abs ''__VASM'' (front_prog f1) = Inr (front_prog f2, y)"
    using 2 by (auto simp: on_core_def on_par_def on_prog_def front_prog_def split: sum.splits)
  ultimately have ok: "prog_ok (front_prog f2)" using first_symbol_ok by blast
  have c: "frt.holds (modify (\<lambda>f. f\<lparr>conds := cond_init (conds f)\<rparr>))" by (rule frt_same) simp
  have i: "frt.holds (init_syntax orgmode)"
    unfolding init_syntax_def by (intro frt_handling c adv.holds_bind [OF adv_set_internal_abs] adv_new_org adv_set_section)
  have d: "frt.holds set_defaults" unfolding set_defaults_def by (rule frt_on_core, rule adv_other) simp
  have "frt.holds ?rest" by (intro frt.holds_rules i d frt_set_cpu frt_parse)
  from frt.holdsD [OF this 3] ok show ?thesis by (simp add: advances_def)
qed


definition empty_program :: prog where
  "empty_program = (names_prog [])\<lparr>core := (core (names_prog []))\<lparr>secs := [new_sect [] [] 0 [] 0 0]\<rparr>\<rparr>"

lemma empty_program_start: "nothing_yet empty_program"
proof -
  have n: "ht_ok False (new_hashtable 3 :: symid hashtable)" "ht_map False (new_hashtable 3 :: symid hashtable) = Map.empty"
    using new_hashtable_ok [of 3 False] by auto
  then show ?thesis by (simp add: nothing_yet_def sym_ok_def empty_program_def names_prog_def)
qed


end
