(* ===== verification/Nodelist.thy ===== *)
theory Nodelist
  imports Prelude
begin

text \<open>
  The doubly linked lists of \<open>src/supp.c\<close>, on a heap of cells. A node at \<open>n\<close> has the field
  \<open>next\<close> in cell \<open>n\<close> and \<open>pred\<close> in cell \<open>n + 1\<close>; a list header at \<open>l\<close> has \<open>first\<close>, \<open>dummy\<close> and
  \<open>last\<close> in three consecutive cells, so that it overlays two nodes that the code uses as the
  ends of the list: one at \<open>l\<close> and one at \<open>l + 1\<close>. The pointer 0 is NULL.
\<close>

type_synonym heap = "nat \<Rightarrow> nat"

section \<open>Operations\<close>

definition initlist :: "nat \<Rightarrow> heap \<Rightarrow> heap" where
  "initlist l h = h(l := l + 1, l + 1 := 0, l + 2 := l)"

definition addtail :: "nat \<Rightarrow> nat \<Rightarrow> heap \<Rightarrow> heap" where
  "addtail l n h =
     (let ln = h (l + 2);
          h = h(n := h ln);
          h = h(ln := n);
          h = h(n + 1 := ln)
      in h(l + 2 := n))"

definition remnode :: "nat \<Rightarrow> heap \<Rightarrow> heap \<times> nat" where
  "remnode n h =
     (let h = h(h n + 1 := h (n + 1));
          h = h(h (n + 1) := h n)
      in (h, n))"

definition remhead :: "nat \<Rightarrow> heap \<Rightarrow> heap \<times> nat option" where
  "remhead l h =
     (let n = h l
      in if h n \<noteq> 0 then
           (let h = h(l := h n); h = h(h n + 1 := h (n + 1)) in (h, Some n))
         else (h, None))"

section \<open>The list in the heap\<close>

text \<open>Neighbours point at each other.\<close>

fun links :: "heap \<Rightarrow> nat list \<Rightarrow> bool" where
  "links h (a # b # xs) \<longleftrightarrow> h a = b \<and> h (b + 1) = a \<and> links h (b # xs)"
| "links h _ \<longleftrightarrow> True"

definition cells :: "nat \<Rightarrow> nat list \<Rightarrow> nat list" where
  "cells l as = concat (map (\<lambda>a. [a, a + 1]) as) @ [l, l + 1, l + 2]"

definition nodelist :: "heap \<Rightarrow> nat \<Rightarrow> nat list \<Rightarrow> bool" where
  "nodelist h l as \<longleftrightarrow> links h (l # as @ [l + 1]) \<and> h (l + 1) = 0 \<and> distinct (cells l as) \<and> 0 \<notin> set as"

lemma links_append: "links h (xs @ a # ys) \<longleftrightarrow> links h (xs @ [a]) \<and> links h (a # ys)"
proof (induction xs)
  case (Cons x xs)
  then show ?case by (cases xs) auto
qed simp

lemma links_upd:
  "c \<notin> set (butlast xs) \<Longrightarrow> c \<notin> Suc ` set (tl xs) \<Longrightarrow> links (h(c := v)) xs = links h xs"
  by (induction h xs rule: links.induct) (auto split: if_splits)

lemma set_cells: "set (cells l as) = set as \<union> Suc ` set as \<union> {l, l + 1, l + 2}"
  by (auto simp: cells_def)

lemma distinct_cells_iff:
  "distinct (cells l as) \<longleftrightarrow> distinct as \<and> set as \<inter> Suc ` set as = {}
     \<and> (set as \<union> Suc ` set as) \<inter> {l, l + 1, l + 2} = {}"
proof (induction as)
  case (Cons a as)
  have c: "cells l (a # as) = a # Suc a # cells l as" by (simp add: cells_def)
  show ?case unfolding c using Cons by (auto simp: set_cells)
qed (simp add: cells_def)

lemma initlist_nodelist: "nodelist (initlist l h) l []"
  by (simp add: nodelist_def initlist_def cells_def)

lemma nodelist_last:
  assumes "nodelist h l as"
  shows "h (l + 2) = last (l # as)"
proof -
  have "l # as @ [l + 1] = butlast (l # as) @ last (l # as) # [l + 1]" by (cases as rule: rev_cases) auto
  then have "links h (last (l # as) # [l + 1])"
    using assms links_append unfolding nodelist_def by metis
  then show ?thesis by simp
qed

text \<open>The list split at a node, with the neighbours of the gap.\<close>

lemma nodelist_split:
  assumes "nodelist h l (xs @ n # ys)"
  shows "links h (l # xs)" and "h (last (l # xs)) = n" and "h (n + 1) = last (l # xs)"
    and "h n = hd (ys @ [l + 1])" and "h (hd (ys @ [l + 1]) + 1) = n" and "links h (ys @ [l + 1])"
proof -
  let ?p = "last (l # xs)" and ?q = "hd (ys @ [l + 1])"
  have eq: "l # (xs @ n # ys) @ [l + 1] = butlast (l # xs) @ ?p # (n # ys @ [l + 1])"
    by (cases xs rule: rev_cases) auto
  have "links h (butlast (l # xs) @ ?p # (n # ys @ [l + 1]))" using assms unfolding nodelist_def eq by blast
  then have "links h (butlast (l # xs) @ [?p])" "links h (?p # n # ys @ [l + 1])"
    using links_append by blast+
  moreover have "butlast (l # xs) @ [?p] = l # xs" by simp
  moreover have "n # ys @ [l + 1] = n # ?q # tl (ys @ [l + 1])" by (cases ys) auto
  moreover have "ys @ [l + 1] = ?q # tl (ys @ [l + 1])" by (cases ys) auto
  ultimately have "links h (l # xs) \<and> h ?p = n \<and> h (n + 1) = ?p \<and> h n = ?q \<and> h (?q + 1) = n
      \<and> links h (ys @ [l + 1])"
    by (metis links.simps(1))
  then show "links h (l # xs)" "h ?p = n" "h (n + 1) = ?p" "h n = ?q" "h (?q + 1) = n" "links h (ys @ [l + 1])"
    by blast+
qed

text \<open>Closing the gap between two parts of the list.\<close>

lemma links_join:
  assumes x: "links h (l # xs)" and y: "links h (ys @ [e])"
    and p: "h (last (l # xs)) = hd (ys @ [e])" "h (hd (ys @ [e]) + 1) = last (l # xs)"
  shows "links h (l # xs @ ys @ [e])"
proof -
  let ?p = "last (l # xs)" and ?q = "hd (ys @ [e])"
  have eq: "l # xs @ ys @ [e] = butlast (l # xs) @ ?p # (?q # tl (ys @ [e]))"
    by (cases xs rule: rev_cases; cases ys) auto
  have "links h (butlast (l # xs) @ [?p])" using x by simp
  moreover have "links h (?p # ?q # tl (ys @ [e]))" using y p by (cases ys) auto
  ultimately show ?thesis unfolding eq using links_append by blast
qed

lemma links_upd2:
  assumes "links h xs" and "c \<notin> set (butlast xs)" and "c \<notin> Suc ` set (tl xs)"
    and "d \<notin> set (butlast xs)" and "d \<notin> Suc ` set (tl xs)"
  shows "links (h(c := v, d := w)) xs"
  using assms by (simp add: links_upd)

lemma gap_closed:
  assumes nl: "nodelist h l (xs @ n # ys)"
  defines "p \<equiv> last (l # xs)" and "q \<equiv> hd (ys @ [l + 1])"
  shows "nodelist (h(q + 1 := p, p := q)) l (xs @ ys)"
proof -
  note sp = nodelist_split [OF nl]
  let ?h = "h(q + 1 := p, p := q)"
  have d: "distinct (xs @ n # ys)" and ap: "\<And>a b. a \<in> set (xs @ n # ys) \<Longrightarrow> b \<in> set (xs @ n # ys) \<Longrightarrow> b + 1 \<noteq> a"
    and hd: "\<And>a. a \<in> set (xs @ n # ys) \<Longrightarrow> a \<noteq> l \<and> a \<noteq> l + 1 \<and> a + 1 \<noteq> l \<and> a \<noteq> l + 2"
    using nl by (force simp: nodelist_def distinct_cells_iff)+
  have q: "q \<in> set ys \<or> q = l + 1 \<and> ys = []" by (cases ys; simp add: q_def)
  have p: "p \<in> set xs \<or> p = l \<and> xs = []" by (simp add: p_def)
  have q1: "q + 1 \<noteq> a" if "a \<in> set (xs @ n # ys) \<or> a = l \<or> a = l + 1" for a
    using q that ap [of a q] hd [of q] hd [of a] by auto
  have p1: "p \<noteq> a + 1" if "a \<in> set (xs @ n # ys) \<or> a = l + 1" for a
    using p that ap [of p a] hd [of p] hd [of a] by auto
  have px: "p \<notin> set (butlast (l # xs))"
    using d hd unfolding p_def by (cases xs rule: rev_cases) auto
  have qx: "q + 1 \<notin> set (butlast (l # xs))" using q1 by (auto dest: in_set_butlastD split: if_splits)
  have qn: "q \<notin> set xs" using q d hd by auto
  have x: "links ?h (l # xs)"
    by (rule links_upd2 [OF sp(1) qx _ px]) (use qn p1 in auto)
  have pn: "p \<notin> set ys" "p \<noteq> l + 1" using p d hd by auto
  have y1: "q + 1 \<notin> set (butlast (ys @ [l + 1]))" "p \<notin> set (butlast (ys @ [l + 1]))"
    using q1 pn by (auto simp: butlast_append)
  have "q \<notin> set (tl (ys @ [l + 1]))" using d hd unfolding q_def by (cases ys) auto
  then have y2: "q + 1 \<notin> Suc ` set (tl (ys @ [l + 1]))" by auto
  have "set (tl (ys @ [l + 1])) \<subseteq> insert (l + 1) (set ys)" by (cases ys) auto
  then have y3: "p \<notin> Suc ` set (tl (ys @ [l + 1]))" using p1 by auto
  have y: "links ?h (ys @ [l + 1])" by (rule links_upd2 [OF sp(6) y1(1) y2 y1(2) y3])
  have qp: "q + 1 \<noteq> p" using q1 p by auto
  have "links ?h (l # xs @ ys @ [l + 1])"
    using links_join [OF x y] qp unfolding p_def q_def by simp
  moreover have "?h (l + 1) = 0" using nl q1 [of "l + 1"] pn by (simp add: nodelist_def)
  moreover have "distinct (cells l (xs @ ys))" using nl by (auto simp: nodelist_def distinct_cells_iff)
  ultimately show ?thesis using nl by (simp add: nodelist_def)
qed

lemma remnode_nodelist:
  assumes nl: "nodelist h l (xs @ n # ys)"
  shows "\<exists>h'. remnode n h = (h', n) \<and> nodelist h' l (xs @ ys)"
proof -
  note sp = nodelist_split [OF nl]
  have d: "distinct (xs @ n # ys)" "set (xs @ n # ys) \<inter> Suc ` set (xs @ n # ys) = {}"
    "(set (xs @ n # ys) \<union> Suc ` set (xs @ n # ys)) \<inter> {l, l + 1, l + 2} = {}"
    using nl by (auto simp: nodelist_def distinct_cells_iff)
  have "hd (ys @ [l + 1]) \<noteq> n" "hd (ys @ [l + 1]) + 1 \<noteq> n" using d by (cases ys; auto)+
  then show ?thesis using gap_closed [OF nl] sp by (simp add: remnode_def Let_def)
qed

lemma remhead_nodelist:
  assumes nl: "nodelist h l as"
  shows "case as of [] \<Rightarrow> remhead l h = (h, None)
         | n # ys \<Rightarrow> \<exists>h'. remhead l h = (h', Some n) \<and> nodelist h' l ys"
proof (cases as)
  case Nil
  then show ?thesis using nl by (simp add: remhead_def nodelist_def Let_def)
next
  case (Cons n ys)
  have nl': "nodelist h l ([] @ n # ys)" using nl Cons by simp
  note sp = nodelist_split [OF nl']
  have d: "distinct (n # ys)" "set (n # ys) \<inter> Suc ` set (n # ys) = {}"
    "(set (n # ys) \<union> Suc ` set (n # ys)) \<inter> {l, l + 1, l + 2} = {}" "0 \<notin> set (n # ys)"
    using nl Cons by (auto simp: nodelist_def distinct_cells_iff)
  let ?q = "hd (ys @ [l + 1])"
  have "?q \<noteq> 0" "?q + 1 \<noteq> l" "?q \<noteq> n" "n \<noteq> l" "n + 1 \<noteq> l" using d by (cases ys; auto)+
  then show ?thesis
    using gap_closed [OF nl'] sp Cons by (simp add: remhead_def Let_def fun_upd_twist)
qed

lemma addtail_nodelist:
  assumes nl: "nodelist h l as" and n: "distinct (cells l (as @ [n]))" "n \<noteq> 0"
  shows "nodelist (addtail l n h) l (as @ [n])"
proof -
  let ?p = "last (l # as)"
  have d: "distinct (as @ [n])" and ap: "\<And>a b. a \<in> set (as @ [n]) \<Longrightarrow> b \<in> set (as @ [n]) \<Longrightarrow> b + 1 \<noteq> a"
    and hd: "\<And>a. a \<in> set (as @ [n]) \<Longrightarrow> a \<noteq> l \<and> a \<noteq> l + 1 \<and> a + 1 \<noteq> l \<and> a \<noteq> l + 2"
    using n by (force simp: distinct_cells_iff)+
  have p: "?p \<in> set as \<or> ?p = l \<and> as = []" by simp
  have eq: "l # as @ [l + 1] = butlast (l # as) @ ?p # [l + 1]" by (cases as rule: rev_cases) auto
  have "links h (butlast (l # as) @ ?p # [l + 1])" using nl unfolding nodelist_def eq by blast
  then have "links h (butlast (l # as) @ [?p]) \<and> links h (?p # [l + 1])"
    using links_append [of h "butlast (l # as)" ?p "[l + 1]"] by blast
  moreover have "butlast (l # as) @ [?p] = l # as" by (rule append_butlast_last_id) simp
  ultimately have l1: "links h (l # as)" "h ?p = l + 1" by simp_all
  define h' where "h' = h(n := l + 1, ?p := n, n + 1 := ?p, l + 2 := n)"
  have a: "addtail l n h = h'"
    using nodelist_last [OF nl] l1 by (simp add: addtail_def Let_def h'_def)
  have px: "?p \<notin> set (butlast (l # as))"
    using d hd by (cases as rule: rev_cases) auto
  have bl: "set (butlast (l # as)) \<subseteq> insert l (set as)" by (auto dest: in_set_butlastD split: if_splits)
  have n1: "n \<notin> set (butlast (l # as))" "n \<notin> Suc ` set (tl (l # as))" using bl d hd [of n] ap [of n] by auto
  have "?p \<noteq> x + 1" if "x \<in> set as" for x using p ap [of ?p x] hd [of x] that by auto
  then have "?p \<noteq> Suc x" if "x \<in> set as" for x using that by (metis Suc_eq_plus1)
  then have p1: "?p \<notin> Suc ` set (tl (l # as))" unfolding list.sel by blast
  have n2: "n + 1 \<notin> set (butlast (l # as))" "n + 1 \<notin> Suc ` set (tl (l # as))"
    using bl d hd [of n] ap [of _ n] by (auto dest: in_set_butlastD)
  have l2: "l + 2 \<notin> set (butlast (l # as))" "l + 2 \<notin> Suc ` set (tl (l # as))"
    using bl hd by (auto dest: in_set_butlastD)
  have ne: "?p \<noteq> n" "?p \<noteq> n + 1" "?p \<noteq> l + 2" "?p \<noteq> l + 1" "n \<noteq> l + 2" "n \<noteq> l + 1" "n + 1 \<noteq> l + 1" "n + 1 \<noteq> l + 2"
    using p d hd [of n] hd [of ?p] ap [of ?p n] by auto
  have x: "links h' (l # as)"
    by (simp only: h'_def links_upd [OF n1] links_upd [OF px p1] links_upd [OF n2] links_upd [OF l2] l1(1))
  have y: "links h' ([n] @ [l + 1])" using ne by (auto simp: h'_def)
  have "h' ?p = n" "h' (n + 1) = ?p" using ne by (simp_all add: h'_def)
  then have "links h' (l # as @ [n] @ [l + 1])" by (intro links_join [OF x y]) simp_all
  moreover have "h' (l + 1) = 0" using nl ne by (simp add: h'_def nodelist_def)
  ultimately show ?thesis using n nl by (simp add: nodelist_def a)
qed

section \<open>Property\<close>

text \<open>
  C38. The doubly linked lists implement lists of nodes: a fresh header is the empty list,
  \<open>addtail\<close> appends a node that shares no cell with the list, \<open>remnode\<close> takes a node out
  wherever it is, and \<open>remhead\<close> takes the first one, or is NULL exactly for the empty list.
\<close>

theorem nodelist_operations:
  assumes "nodelist h l as" and "distinct (cells l (as @ [n]))" and "n \<noteq> 0"
  shows "nodelist (initlist l h) l []
    \<and> nodelist (addtail l n h) l (as @ [n])
    \<and> (\<forall>xs m ys. as = xs @ m # ys \<longrightarrow> (\<exists>h'. remnode m h = (h', m) \<and> nodelist h' l (xs @ ys)))
    \<and> (case as of [] \<Rightarrow> remhead l h = (h, None)
       | m # ys \<Rightarrow> \<exists>h'. remhead l h = (h', Some m) \<and> nodelist h' l ys)"
  using initlist_nodelist addtail_nodelist [OF assms] remnode_nodelist remhead_nodelist [OF assms(1)] assms(1)
  by blast

lemma nodelist_operations_witness:
  "nodelist (addtail 1 7 (addtail 1 5 (initlist 1 (\<lambda>_. 0)))) 1 [5, 7]"
proof -
  have "nodelist (initlist 1 (\<lambda>_. 0)) 1 []" by (rule initlist_nodelist)
  from nodelist_operations [OF this, of 5]
  have "nodelist (addtail 1 5 (initlist 1 (\<lambda>_. 0))) 1 [5]" by (simp add: cells_def)
  from nodelist_operations [OF this, of 7] show ?thesis by (simp add: cells_def)
qed

end
