(* ===== verification/Cpubranch.thy ===== *)
theory Cpubranch
  imports Cpusize
begin

text \<open>
  Relative branches of the 6502 back end (\<open>src/cpus/6502/cpu.c\<close>): where the bytes written for a
  branch lead, with and without branch optimization, and what reversing a condition does to the
  entries of the table of mnemonics.
\<close>

definition branch :: "nat \<Rightarrow> expr \<Rightarrow> instr" where
  "branch k e = \<lparr>inst_code = k, inst_ops = [\<lparr>op_type = REL8, op_flags = 0, op_value = Some e\<rparr>]\<rparr>"

definition is_quad :: "nat \<Rightarrow> bool" where
  "is_quad k \<longleftrightarrow> available (mnemonics ! k) AND M45GS02Q \<noteq> 0"

text \<open>What a branch becomes by optimization.\<close>

definition optimized_branch :: "cpuconf \<Rightarrow> nat \<Rightarrow> expr \<Rightarrow> taddr \<Rightarrow> instr" where
  "optimized_branch cpu k e bd =
     (if branchopt cpu \<and> \<not> in_range bd (- 0x80) 0x7f then
        (if opcode (mnemonics ! k) = 0x80 \<or> opcode (mnemonics ! k) = 0x12 then
           \<lparr>inst_code = OC_JMPABS cpu, inst_ops = [\<lparr>op_type = ABS, op_flags = 0, op_value = Some e\<rparr>]\<rparr>
         else \<lparr>inst_code = k, inst_ops = [\<lparr>op_type = RELJMP, op_flags = 0, op_value = Some e\<rparr>]\<rparr>)
      else branch k e)"

lemma optimize_branch:
  assumes "eval_expr e c pc s = Inr (s1, dest, True)" and "k \<noteq> OC_JMPABS cpu"
  shows "optimize_instruction cpu (branch k e) c pc final s = Inr (s1, optimized_branch cpu k e (dest - (pc + 2)))"
  using assms
  by (simp add: optimize_instruction_def branch_def optimize_operand_def eval_base_def no_pc_reloc_def
      action_defs IS_ABS_def Let_def optimized_branch_def)

lemma cpu_errs_msgs: "msgs (cpu_errs es s) = msgs s @ map ((+) 2000) es"
  by (induction es arbitrary: s) (simp_all add: cpu_err_def)

lemma write_single:
  assumes "eval_expr e c pc s = Inr (s1, dest, True)"
    and "const_value cpu \<lparr>op_type = t, op_flags = 0, op_value = Some e\<rparr> dest pc (length d) = (val, [])"
    and "write_operand t val d = Inr (d', [])"
  shows "eval_operands cpu [\<lparr>op_type = t, op_flags = 0, op_value = Some e\<rparr>] c pc d [] s =
    Inr (cpu_errs (rangecheck False val t) s1, d', [])"
  using assms by (simp add: eval_operand_def action_defs)

lemma encode_single: "encode_ops cpu \<lparr>inst_code = k, inst_ops = [op]\<rparr> = [op]"
  by (simp add: encode_ops_def)

text \<open>The bytes of a branch, and the value its range is checked for.\<close>

definition far_branch :: "cpuconf \<Rightarrow> taddr \<Rightarrow> bool" where
  "far_branch cpu bd \<longleftrightarrow> branchopt cpu \<and> \<not> in_range bd (- 0x80) 0x7f"

definition far_value :: "cpuconf \<Rightarrow> taddr \<Rightarrow> taddr" where
  "far_value cpu dest = (if cpu_is cpu WDC65816 then dest AND 0xffff else dest)"

definition branch_code :: "cpuconf \<Rightarrow> nat \<Rightarrow> taddr \<Rightarrow> taddr \<Rightarrow> u8 list" where
  "branch_code cpu k bd dest =
    (let oc = opcode (mnemonics ! k)
     in if far_branch cpu bd then
          (if oc = 0x80 \<or> oc = 0x12 then [opcode (mnemonics ! OC_JMPABS cpu)] else [oc XOR 0x20, 3, 0x4c])
          @ value_bytes 2 (far_value cpu dest)
        else [oc, ucast (bd AND 0xff)])"

lemma eval_branch:
  assumes e: "eval_expr e c pc s = Inr (s1, dest, True)" and v: "view s1 = view s" and k: "k \<noteq> OC_JMPABS cpu"
    and q: "\<not> is_quad k" "\<not> is_quad (OC_JMPABS cpu)"
  shows "\<exists>s2. eval_instruction cpu (branch k e) c pc s =
    (let bd = dest - (pc + 2); d = branch_code cpu k bd dest
     in Inr (cpu_errs (if far_branch cpu bd then rangecheck False (far_value cpu dest) ABS else rangecheck False bd REL8) s2,
          \<lparr>db_size = length d, db_data = d, db_relocs = []\<rparr>))"
    (is "\<exists>s2. _ = ?r s2")
proof -
  obtain s2 where e2: "eval_expr e c pc s1 = Inr (s2, dest, True)"
    using alikeD [OF alike_eval_expr v [symmetric] e] by blast
  have c: "const_value cpu \<lparr>op_type = REL8, op_flags = 0, op_value = Some e\<rparr> dest pc (Suc 0) = (dest - (pc + 2), [])"
    "t \<in> {ABS, RELJMP} \<Longrightarrow> const_value cpu \<lparr>op_type = t, op_flags = 0, op_value = Some e\<rparr> dest pc (Suc 0)
      = (far_value cpu dest, [])" for t
    by (auto simp: const_value_def far_value_def oflag_def ignored_def Let_def add.assoc)
  have r: "rangecheck False val RELJMP = rangecheck False val ABS" for val by (simp add: rangecheck_def)
  have b: "bind_st (optimize_instruction cpu (branch k e) c pc True) f s
      = f (optimized_branch cpu k e (dest - (pc + 2))) s1" for f :: "instr \<Rightarrow> dblock action"
    by (simp add: bind_st_def optimize_branch [OF e k])
  have w: "bind_st (eval_operands cpu [\<lparr>op_type = t, op_flags = 0, op_value = Some e\<rparr>] c pc d []) f s1
      = f (d', []) (cpu_errs (rangecheck False val t) s2)"
    if "const_value cpu \<lparr>op_type = t, op_flags = 0, op_value = Some e\<rparr> dest pc (length d) = (val, [])"
      "write_operand t val d = Inr (d', [])" for t val d d' and f :: "u8 list \<times> rlist \<Rightarrow> dblock action"
    by (simp add: bind_st_def write_single [OF e2 that] del: eval_operands.simps)
  show ?thesis
  proof (intro exI [of _ s2], cases "far_branch cpu (dest - (pc + 2))")
    case False
    then have o: "optimized_branch cpu k e (dest - (pc + 2)) = branch k e"
      by (auto simp: optimized_branch_def far_branch_def)
    show "eval_instruction cpu (branch k e) c pc s = ?r s2"
      unfolding eval_instruction_def b o Let_def branch_code_def if_not_P [OF False] using q(1)
      by (simp add: branch_def encode_single is_quad_def c w write_operand_def return_def get_inst_size_def opsize_def
        del: eval_operands.simps)
  next
    case True
    show "eval_instruction cpu (branch k e) c pc s = ?r s2"
      unfolding eval_instruction_def b Let_def branch_code_def if_P [OF True] optimized_branch_def
        if_P [OF True [unfolded far_branch_def]]
      using q
      by (simp add: encode_single is_quad_def c w r write_operand_def return_def get_inst_size_def opsize_def
        del: eval_operands.simps)
  qed
qed

lemma low_byte: "(ucast (v AND 0xff) :: u8) = ucast v" for v :: taddr
proof -
  have "(0xff :: taddr) = mask 8" by (simp add: mask_eq_exp_minus_1)
  then have "v AND 0xff = take_bit 8 v" by (simp add: take_bit_eq_mask)
  then show ?thesis by (simp only:) (rule bit_word_eqI, auto simp: bit_simps)
qed

lemma scast_low_byte: "in_range v (- 0x80) 0x7f \<Longrightarrow> scast (ucast (v AND 0xff) :: u8) = v"
proof -
  assume r: "in_range v (- 0x80) 0x7f"
  have "sint (ucast v :: u8) = signed_take_bit 7 (sint v)"
    by (rule bit_eqI) (auto simp: bit_simps min_def)
  also have "\<dots> = sint v"
    using r by (simp add: in_range_def signed_take_bit_int_eq_self)
  finally have "scast (ucast v :: u8) = v" by (simp add: scast_eq)
  then show ?thesis by (simp add: low_byte)
qed

lemma value_bytes_2: "value_bytes 2 v = [ucast v, ucast (drop_bit 8 v)]"
  by (simp add: value_bytes_def numeral_2_eq_2) (auto intro!: bit_word_eqI simp: bit_simps)

lemma two_bytes:
  assumes "in_range v 0 0xffff"
  shows "ucast (ucast v :: u8) + 256 * ucast (ucast (drop_bit 8 v) :: u8) = (v :: taddr)"
proof -
  have v: "uint v \<le> 0xffff"
    using assms uint_lt2p [of v] by (simp add: in_range_def sint_uint_if split: if_splits)
  have "uint (ucast v :: u8) = uint v mod 256"
    by (simp add: unsigned_ucast_eq take_bit_eq_mod)
  moreover have "uint v div 256 < 256" by (rule int_div_less) (use v in simp_all)
  then have "uint (ucast (drop_bit 8 v) :: u8) = uint v div 256"
    by (simp add: unsigned_ucast_eq take_bit_eq_mod uint_drop_bit_div mod_pos_pos_trivial pos_imp_zdiv_nonneg_iff)
  ultimately have "uint (ucast (ucast v :: u8) + 256 * ucast (ucast (drop_bit 8 v) :: u8) :: taddr) = uint v"
    using v by (simp add: uint_word_ariths uint_ucast_up mod_add_right_eq mod_pos_pos_trivial)
  then show ?thesis by (simp only: word_uint_eq_iff)
qed


lemma out_of_range_error:
  "\<not> in_range v (- 0x80) 0x7f \<Longrightarrow> 6 \<in> set (rangecheck False v REL8)"
  "\<not> in_range v 0 0xffff \<Longrightarrow> 5 \<in> set (rangecheck False v ABS)"
  by (simp_all add: rangecheck_def)

lemma branch_code_right:
  assumes jmp: "opcode (mnemonics ! OC_JMPABS cpu) = 0x4c"
  shows "if far_branch cpu bd then
      5 \<in> set (rangecheck False (far_value cpu dest) ABS) \<or>
      (\<exists>l h. far_value cpu dest = ucast l + 256 * ucast h \<and> branch_code cpu k bd dest =
        (if opcode (mnemonics ! k) = 0x80 \<or> opcode (mnemonics ! k) = 0x12 then [0x4c, l, h]
         else [opcode (mnemonics ! k) XOR 0x20, 3, 0x4c, l, h]))
    else
      6 \<in> set (rangecheck False bd REL8) \<or> (\<exists>b. scast b = bd \<and> branch_code cpu k bd dest = [opcode (mnemonics ! k), b])"
proof (cases "far_branch cpu bd")
  case True
  have "\<exists>l h. far_value cpu dest = ucast l + 256 * ucast h \<and> value_bytes 2 (far_value cpu dest) = [l, h]"
    if "in_range (far_value cpu dest) 0 0xffff"
    using two_bytes [OF that] unfolding value_bytes_2 by metis
  then show ?thesis
    using True jmp out_of_range_error(2) by (auto simp: branch_code_def Let_def)
next
  case False
  have "\<exists>b. scast b = bd \<and> ucast (bd AND 0xff) = (b :: u8)" if "in_range bd (- 0x80) 0x7f"
    using scast_low_byte [OF that] by blast
  then show ?thesis
    using False out_of_range_error(1) by (auto simp: branch_code_def)
qed




definition one_branch :: "mnemonic \<Rightarrow> bool" where
  "one_branch m \<longleftrightarrow> operand_type m = [REL8]"

text \<open>
  Reversing the condition of an optimized branch flips one bit of its opcode; for the eight
  conditional branches with one operand that gives the branch on the opposite condition, whatever
  cpu they are for. The other branches with one operand are \<open>bra\<close>, which becomes a jump, and \<open>bsr\<close> of
  the HuC6280, whose opcode becomes that of \<open>stz\<close>.
\<close>

theorem reversed_conditions:
  "list_all (\<lambda>m. case [p \<leftarrow> [(''bcc'', ''bcs''), (''bne'', ''beq''), (''bpl'', ''bmi''), (''bvc'', ''bvs''), (''blt'', ''bge'')].
            mn_name m \<in> {fst p, snd p}] of
        [(a, b)] \<Rightarrow> [opcode n. n \<leftarrow> mnemonics, one_branch n, mn_name n \<in> {a, b} - {mn_name m}] = [opcode m XOR 0x20]
      | _ \<Rightarrow> mn_name m = ''bra'' \<and> opcode m \<in> {0x80, 0x12} \<or> mn_name m = ''bsr'' \<and> opcode m XOR 0x20 = 0x64) [m \<leftarrow> mnemonics. one_branch m]"
  by code_simp

end
