(* ===== verification/Output.thy ===== *)
theory Output
  imports Phases
begin

text \<open>
  What the output modules share (\<open>src/supp.c\<close>): writing numbers, the padding in front of an
  aligned atom and the bytes of an atom, and the check that sections do not overlap. A target
  byte has eight bits, so that \<open>OCTETS(n)\<close> is \<open>n\<close> and \<open>output_bytes_le\<close> has no effect. Write errors of the host are not modelled.
\<close>

section \<open>Numbers\<close>

definition fw8 :: "u8 \<Rightarrow> u8 list" where
  "fw8 x = [x]"

definition fw16 :: "u16 \<Rightarrow> bool \<Rightarrow> u8 list" where
  "fw16 x be = (if be then fw8 (ucast (drop_bit 8 x)) @ fw8 (ucast x) else fw8 (ucast x) @ fw8 (ucast (drop_bit 8 x)))"

definition fw24 :: "u32 \<Rightarrow> bool \<Rightarrow> u8 list" where
  "fw24 x be = (if be then fw8 (ucast (drop_bit 16 x)) @ fw16 (ucast x) True else fw16 (ucast x) False @ fw8 (ucast (drop_bit 16 x)))"

definition fw32 :: "u32 \<Rightarrow> bool \<Rightarrow> u8 list" where
  "fw32 x be =
     (if be then fw8 (ucast (drop_bit 24 x)) @ fw8 (ucast (drop_bit 16 x)) @ fw8 (ucast (drop_bit 8 x)) @ fw8 (ucast x)
      else fw8 (ucast x) @ fw8 (ucast (drop_bit 8 x)) @ fw8 (ucast (drop_bit 16 x)) @ fw8 (ucast (drop_bit 24 x)))"

section \<open>Atoms\<close>

text \<open>The two loops of \<open>fwpattern\<close> for a positive number of bytes; the third one then has nothing left.\<close>

function fw_zeros :: "nat \<Rightarrow> nat \<Rightarrow> u8 list \<times> nat" where
  "fw_zeros n k = (if n mod k \<noteq> 0 \<and> n \<noteq> 0 then (case fw_zeros (n - 1) k of (zs, m) \<Rightarrow> (0 # zs, m)) else ([], n))"
  by pat_completeness auto
termination by (relation "measure fst") auto

function fw_patterns :: "nat \<Rightarrow> u8 list \<Rightarrow> nat \<Rightarrow> u8 list \<times> nat" where
  "fw_patterns n pat k =
     (if k \<le> n \<and> k \<noteq> 0 then (case fw_patterns (n - k) pat k of (bs, m) \<Rightarrow> (take k pat @ bs, m)) else ([], n))"
  by pat_completeness auto
termination by (relation "measure fst") auto

declare fw_zeros.simps [simp del] fw_patterns.simps [simp del]

text \<open>
  A negative count never ends within the range of the type, a pattern of no bytes is a division
  by zero, and a pattern longer than its memory is read out of bounds.
\<close>

definition fwpattern :: "taddr \<Rightarrow> u8 list \<Rightarrow> int \<Rightarrow> stop + u8 list" where
  "fwpattern n pat patlen =
     (if n <s 0 then Inl Runaway
      else if patlen \<le> 0 \<or> int (length pat) < patlen then Inl Undefined
      else case fw_zeros (unat n) (nat patlen) of
        (zs, m) \<Rightarrow> (case fw_patterns m pat (nat patlen) of (bs, m) \<Rightarrow> Inr (zs @ bs @ replicate m 0)))"

text \<open>The bytes that align an atom, and the aligned address.\<close>

definition fwpcalign :: "atom \<Rightarrow> sect \<Rightarrow> taddr \<Rightarrow> stop + u8 list \<times> taddr" where
  "fwpcalign a x pc =
     (let n = balign pc (align a);
          pad = bind_stop (fwpattern n (sec_pad x) (sec_padbytes x)) (\<lambda>bs. Inr (bs, pc + n))
      in if n = 0 then Inr ([], pc)
         else case content a of
           SPACE sb \<Rightarrow>
             if sb_space sb \<noteq> 0 then pad
             else if maxalignbytes sb \<noteq> 0 \<and> maxalignbytes sb <s n then Inr ([], pc)
             else bind_stop (fwpattern n (sb_fill sb) (int (sb_size sb))) (\<lambda>bs. Inr (bs, pc + n))
         | _ \<Rightarrow> pad)"

definition fwdblock :: "dblock \<Rightarrow> stop + u8 list" where
  "fwdblock db = (if length (db_data db) < db_size db then Inl Undefined else Inr (take (db_size db) (db_data db)))"

definition fwsblock :: "sblock \<Rightarrow> stop + u8 list" where
  "fwsblock sb =
     (if sb_space sb = 0 then Inr []
      else if length (sb_fill sb) < sb_size sb then Inl Undefined
      else Inr (concat (replicate (sb_space sb) (take (sb_size sb) (sb_fill sb)))))"

definition atom_bytes :: "atom \<Rightarrow> stop + u8 list" where
  "atom_bytes a = (case content a of DATA db \<Rightarrow> fwdblock db | SPACE sb \<Rightarrow> fwsblock sb | _ \<Rightarrow> Inr [])"

section \<open>Overlapping sections\<close>

definition overlap :: "asm \<Rightarrow> sect \<Rightarrow> sect \<Rightarrow> bool" where
  "overlap s x x2 \<longleftrightarrow>
     (ULLTADDR s (sec_org x) \<le> ULLTADDR s (sec_org x2) \<and> ULLTADDR s (sec_org x2) < ULLTADDR s (sec_pc x)) \<or>
     (ULLTADDR s (sec_org x) < ULLTADDR s (sec_pc x2) \<and> ULLTADDR s (sec_pc x2) < ULLTADDR s (sec_pc x))"

fun chk_sec_overlap :: "asm \<Rightarrow> secid list \<Rightarrow> stop + nat" where
  "chk_sec_overlap s [] = Inr 0"
| "chk_sec_overlap s (c # cs) =
     (if sec_has (sec s c) UNALLOCATED then chk_sec_overlap s cs
      else if list_ex (\<lambda>d. \<not> sec_has (sec s d) UNALLOCATED \<and> overlap s (sec s c) (sec s d)) cs then Inl (Fatal_output 0)
      else bind_stop (chk_sec_overlap s cs) (\<lambda>n. Inr (n + 1)))"

section \<open>Padding\<close>

lemma fw_zeros_result: "0 < k \<Longrightarrow> fw_zeros n k = (replicate (n mod k) 0, n - n mod k)"
proof (induction n rule: less_induct)
  case (less n)
  show ?case
  proof (cases "n mod k = 0")
    case True
    then show ?thesis by (subst fw_zeros.simps) simp
  next
    case False
    then obtain m where m: "n = Suc m" by (cases n) auto
    then have r: "n mod k = Suc (m mod k)" using False by (simp add: mod_Suc split: if_splits)
    have "fw_zeros m k = (replicate (m mod k) 0, m - m mod k)" using less m by simp
    then show ?thesis using False r by (subst fw_zeros.simps) (simp add: m)
  qed
qed

lemma fw_patterns_result: "0 < k \<Longrightarrow> fw_patterns n pat k = (concat (replicate (n div k) (take k pat)), n mod k)"
proof (induction n rule: less_induct)
  case (less n)
  show ?case
  proof (cases "k \<le> n")
    case True
    then have "fw_patterns (n - k) pat k = (concat (replicate ((n - k) div k) (take k pat)), (n - k) mod k)"
      using less by simp
    moreover have "n div k = Suc ((n - k) div k)" "(n - k) mod k = n mod k" using True less.prems by (simp_all add: le_div_geq le_mod_geq)
    ultimately show ?thesis using True less.prems by (subst fw_patterns.simps) simp
  next
    case False
    then show ?thesis by (subst fw_patterns.simps) simp
  qed
qed

text \<open>Padding is zeros up to a multiple of the pattern, and then the pattern.\<close>

lemma fwpattern_result:
  assumes "fwpattern n pat k = Inr bs"
  shows "0 < k \<and> bs = replicate (unat n mod nat k) 0 @ concat (replicate (unat n div nat k) (take (nat k) pat))"
proof -
  have k: "0 < k" using assms by (auto simp: fwpattern_def split: if_splits)
  have "(unat n - unat n mod nat k) div nat k = unat n div nat k" "(unat n - unat n mod nat k) mod nat k = 0"
    by (simp_all add: minus_mod_eq_mult_div [symmetric] k)
      (use k in \<open>simp_all add: minus_mod_eq_mult_div\<close>)
  then show ?thesis
    using assms k by (auto simp: fwpattern_def fw_zeros_result fw_patterns_result split: if_splits)
qed

lemma fwpattern_length:
  assumes "fwpattern n pat k = Inr bs"
  shows "length bs = unat n"
proof -
  have l: "nat k \<le> length pat" using assms by (auto simp: fwpattern_def split: if_splits)
  have r: "sum_list (replicate m c) = m * c" for m c :: nat by (induction m) simp_all
  show ?thesis
    using fwpattern_result [OF assms] l by (simp add: length_concat r min_absorb2)
qed

lemma fwpcalign_address:
  "fwpcalign a x pc = Inr (bs, pc') \<Longrightarrow> pc' = pc + of_nat (length bs)"
  by (auto simp: fwpcalign_def Let_def fwpattern_length split: if_splits sum.splits content.splits)

section \<open>What the check for overlaps shows\<close>

definition sec_range :: "asm \<Rightarrow> secid \<Rightarrow> u64 \<times> u64" where
  "sec_range s c = (ULLTADDR s (sec_org (sec s c)), ULLTADDR s (sec_pc (sec s c)))"

definition allocated_secs :: "asm \<Rightarrow> secid list \<Rightarrow> secid list" where
  "allocated_secs s cs = filter (\<lambda>c. \<not> sec_has (sec s c) UNALLOCATED) cs"

lemma overlap_ordered:
  assumes "fst (sec_range s c) \<le> fst (sec_range s d)" and "fst (sec_range s d) \<le> snd (sec_range s d)"
  shows "overlap s (sec s c) (sec s d) \<longleftrightarrow> \<not> snd (sec_range s c) \<le> fst (sec_range s d)"
  using assms by (auto simp: overlap_def sec_range_def)

text \<open>
  C22. For sections in ascending order of their addresses the check for overlaps succeeds, with
  the number of allocated sections, exactly when no two allocated sections share an address;
  otherwise the program ends with the fatal error that they overlap.
\<close>

theorem overlap_check_exact:
  assumes "sorted_wrt (\<lambda>c d. fst (sec_range s c) \<le> fst (sec_range s d)) cs"
    and "\<forall>c \<in> set cs. fst (sec_range s c) \<le> snd (sec_range s c)"
  shows "chk_sec_overlap s cs =
    (if sorted_wrt (\<lambda>c d. snd (sec_range s c) \<le> fst (sec_range s d)) (allocated_secs s cs)
     then Inr (length (allocated_secs s cs)) else Inl (Fatal_output 0))"
  using assms
proof (induction cs)
  case (Cons c cs)
  then have IH: "chk_sec_overlap s cs =
    (if sorted_wrt (\<lambda>c d. snd (sec_range s c) \<le> fst (sec_range s d)) (allocated_secs s cs)
     then Inr (length (allocated_secs s cs)) else Inl (Fatal_output 0))" by simp
  have o: "overlap s (sec s c) (sec s d) \<longleftrightarrow> \<not> snd (sec_range s c) \<le> fst (sec_range s d)" if "d \<in> set cs" for d
    using that Cons.prems by (intro overlap_ordered) auto
  have e: "list_ex (\<lambda>d. \<not> sec_has (sec s d) UNALLOCATED \<and> overlap s (sec s c) (sec s d)) cs \<longleftrightarrow>
      \<not> (\<forall>d \<in> set (allocated_secs s cs). snd (sec_range s c) \<le> fst (sec_range s d))"
    using o by (auto simp: list_ex_iff allocated_secs_def)
  show ?case
    unfolding chk_sec_overlap.simps IH e by (auto simp: allocated_secs_def)
qed (simp add: allocated_secs_def)

definition range_sect :: "taddr \<Rightarrow> taddr \<Rightarrow> sect" where
  "range_sect a b = (new_sect ''a'' ''acrx'' 1 [0,0,0,0,0,0,0,0] 1 0)\<lparr>sec_org := a, sec_pc := b\<rparr>"

definition ranges :: "(taddr \<times> taddr) list \<Rightarrow> asm" where
  "ranges rs = \<lparr>syms = [], secs = map (\<lambda>(a, b). range_sect a b) rs, cpc = None, final_pass = True, num_secs = length rs,
     bytespertaddr = 2, msgs = []\<rparr>"

lemma overlap_check_exact_witness:
  "chk_sec_overlap (ranges [(0, 16), (16, 20)]) [0, 1] = Inr 2 \<and> chk_sec_overlap (ranges [(0, 17), (16, 20)]) [0, 1] = Inl (Fatal_output 0)"
proof -
  have 1: "sorted_wrt (\<lambda>c d. fst (sec_range s c) \<le> fst (sec_range s d)) [0, 1] \<and> (\<forall>c \<in> set [0, 1]. fst (sec_range s c) \<le> snd (sec_range s c))"
    if "s = ranges [(0, 16), (16, 20)] \<or> s = ranges [(0, 17), (16, 20)]" for s
    using that by (auto simp: sec_range_def ranges_def range_sect_def ULLTADDR_def taddrmask_def)
  have 2: "sorted_wrt (\<lambda>c d. snd (sec_range (ranges [(0, 16), (16, 20)]) c) \<le> fst (sec_range (ranges [(0, 16), (16, 20)]) d))
      (allocated_secs (ranges [(0, 16), (16, 20)]) [0, 1]) \<and> length (allocated_secs (ranges [(0, 16), (16, 20)]) [0, 1]) = 2"
    by code_simp
  have 3: "\<not> sorted_wrt (\<lambda>c d. snd (sec_range (ranges [(0, 17), (16, 20)]) c) \<le> fst (sec_range (ranges [(0, 17), (16, 20)]) d))
      (allocated_secs (ranges [(0, 17), (16, 20)]) [0, 1])"
    by code_simp
  show ?thesis
    using overlap_check_exact [OF conjunct1 [OF 1] conjunct2 [OF 1], of "ranges [(0, 16), (16, 20)]"]
      overlap_check_exact [OF conjunct1 [OF 1] conjunct2 [OF 1], of "ranges [(0, 17), (16, 20)]"] 2 3
    by simp
qed

text \<open>A section that encloses one that comes before it in the list is not noticed.\<close>

theorem enclosing_section_accepted:
  "chk_sec_overlap (ranges [(0x1000, 0x1100), (0x0800, 0x2000)]) [0, 1] = Inr 2"
  by code_simp

end
