(* ===== verification/Image.thy ===== *)
theory Image
  imports Output
begin

text \<open>
  The memory image of the sections, which is what an output format has to convey, and what the
  writers of such formats share.
\<close>

section \<open>Images\<close>

text \<open>
  The memory image of a section from its origin: every atom behind its padding. 
\<close>

fun image :: "sect \<Rightarrow> atom list \<Rightarrow> taddr \<Rightarrow> stop + u8 list" where
  "image x [] pc = Inr []"
| "image x (a # as) pc =
     bind_stop (fwpcalign a x pc) (\<lambda>(pad, pc).
     bind_stop (atom_bytes a) (\<lambda>bs.
     bind_stop (image x as (pc + of_nat (length bs))) (\<lambda>rest. Inr (pad @ bs @ rest))))"

definition section_data :: "prog \<Rightarrow> (sect \<times> atom list) list" where
  "section_data p = map (\<lambda>c. (psec p c, atoms p c)) (order p)"

text \<open>The images of all sections, and the memory they stand for.\<close>

fun images :: "(sect \<times> atom list) list \<Rightarrow> stop + (u32 \<times> u8 list) list" where
  "images [] = Inr []"
| "images ((x, as) # xas) =
     bind_stop (image x as (sec_org x)) (\<lambda>bs. bind_stop (images xas) (\<lambda>bss. Inr ((sec_org x, bs) # bss)))"

text \<open>The memory, as a list of addresses and bytes.\<close>

fun bytes_at :: "u32 \<Rightarrow> u8 list \<Rightarrow> (u32 \<times> u8) list" where
  "bytes_at a [] = []"
| "bytes_at a (b # bs) = (a, b) # bytes_at (a + 1) bs"

definition memory :: "(u32 \<times> u8 list) list \<Rightarrow> (u32 \<times> u8) list" where
  "memory ms = concat (map (\<lambda>(a, bs). bytes_at a bs) ms)"

lemma bytes_at_append: "bytes_at a (xs @ ys) = bytes_at a xs @ bytes_at (a + of_nat (length xs)) ys"
  by (induction xs arbitrary: a) (simp_all add: add.assoc)

section \<open>Writers\<close>

text \<open>Each undefined symbol is a message.\<close>

definition undefined_messages :: "prog \<Rightarrow> nat list" where
  "undefined_messages p = concat (map (\<lambda>y. if sym_type (sym (core p) y) = IMPORT then [3006] else []) (symlist p))"

definition from_stop :: "stop + 'a \<Rightarrow> ('s, 'a) step" where
  "from_stop r = (case r of Inl e \<Rightarrow> fail e | Inr x \<Rightarrow> return x)"

lemma from_stop_Inr: "from_stop (Inr x) = return x"
  by (simp add: from_stop_def)

lemma bind_return: "bind_st (return x) f = f x"
  by (simp add: bind_st_def return_def fun_eq_iff)

lemma bind_assoc: "bind_st (bind_st m f) g = bind_st m (\<lambda>x. bind_st (f x) g)"
  by (auto simp: bind_st_def fun_eq_iff split: sum.split)

section \<open>Programs of data\<close>

definition data_prog :: "(taddr \<times> taddr \<times> atom list) list \<Rightarrow> prog" where
  "data_prog xs = (names_prog [])\<lparr>core := ranges (map (\<lambda>(a, b, _). (a, b)) xs), order := [0..<length xs],
     atoms := (\<lambda>c. if c < length xs then snd (snd (xs ! c)) else [])\<rparr>"

text \<open>Two sections with one atom each.\<close>

definition data_sections :: prog where
  "data_sections = data_prog
     [(0x1000, 0x1003, [new_data_atom \<lparr>db_size = 3, db_data = [1, 2, 3], db_relocs = []\<rparr> 1]),
      (0x2000, 0x2001, [new_data_atom \<lparr>db_size = 1, db_data = [4], db_relocs = []\<rparr> 1])]"

end
