(* ===== verification/Hextext.thy ===== *)
theory Hextext
  imports Prelude
begin

text \<open>
  Text files of hexadecimal numbers, as lists of bytes: what the writers of Intel HEX files, of
  S-records and of paper tapes share, and a reader of such records that the formats are read
  back with.
\<close>

section \<open>Hexadecimal text\<close>

definition tohex :: "u8 \<Rightarrow> u8" where
  "tohex v = (let n = v AND 0xf in if n < 10 then 0x30 + n else 0x37 + n)"

definition hex_byte :: "u8 \<Rightarrow> u8 list" where
  "hex_byte b = [tohex (drop_bit 4 b), tohex b]"

definition hex_bytes :: "u8 list \<Rightarrow> u8 list" where
  "hex_bytes bs = concat (map hex_byte bs)"

definition hex16 :: "u16 \<Rightarrow> u8 list" where
  "hex16 v = hex_byte (ucast (drop_bit 8 v)) @ hex_byte (ucast v)"

text \<open>The value of a digit, and the bytes at the start of a text; what is read back below.\<close>

definition fromhex :: "u8 \<Rightarrow> u8 option" where
  "fromhex d = (if 0x30 \<le> d \<and> d \<le> 0x39 then Some (d - 0x30) else if 0x41 \<le> d \<and> d \<le> 0x46 then Some (d - 0x37) else None)"

fun unhex :: "u8 list \<Rightarrow> u8 list \<times> u8 list" where
  "unhex (a # b # cs) =
     (case (fromhex a, fromhex b) of
        (Some x, Some y) \<Rightarrow> (case unhex cs of (bs, rest) \<Rightarrow> ((push_bit 4 x OR y) # bs, rest))
      | _ \<Rightarrow> ([], a # b # cs))"
| "unhex cs = ([], cs)"

lemma all_bytes: "(\<forall>n < 256. P (of_nat n :: u8)) \<Longrightarrow> P b"
proof -
  assume "\<forall>n < 256. P (of_nat n :: u8)"
  moreover have "unat b < 2 ^ LENGTH(8)" by (rule unsigned_less)
  ultimately have "P (of_nat (unat b))" by (auto simp del: unsigned_less)
  then show "P b" by simp
qed

lemma fromhex_tohex: "fromhex (tohex b) = Some (b AND 0xf)"
proof (rule all_bytes [where P = "\<lambda>b. fromhex (tohex b) = Some (b AND 0xf)"])
  have "list_all (\<lambda>n. fromhex (tohex (of_nat n)) = Some (of_nat n AND 0xf)) [0..<256]" by code_simp
  then show "\<forall>n < 256. fromhex (tohex (of_nat n)) = Some (of_nat n AND 0xf)" by (simp add: list_all_iff)
qed

lemma nibbles: "push_bit 4 (drop_bit 4 b AND 0xf) OR (b AND 0xf) = (b :: u8)"
proof -
  have m: "(0xf :: u8) = mask 4" by (simp add: mask_eq_decr_exp)
  show ?thesis unfolding m by (rule bit_word_eqI) (auto simp: bit_simps)
qed

lemma unhex_hex: "rest = [] \<or> fromhex (hd rest) = None \<Longrightarrow> unhex (hex_bytes bs @ rest) = (bs, rest)"
proof (induction bs)
  case Nil
  then show ?case by (cases rest rule: unhex.cases) (auto simp: hex_bytes_def split: option.split)
next
  case (Cons b bs)
  then show ?case using nibbles [of b] by (simp add: hex_bytes_def hex_byte_def fromhex_tohex)
qed

text \<open>A carriage return comes first unless the text is for the host (\<open>asciiout\<close>).\<close>

definition new_line :: "bool \<Rightarrow> u8 list" where
  "new_line cr = (if cr then [13] else []) @ [10]"

text \<open>The end of a line; a carriage return before it is skipped.\<close>

fun line_end :: "u8 list \<Rightarrow> u8 list option" where
  "line_end (a # b # cs) = (if a = 10 then Some (b # cs) else if a = 13 \<and> b = 10 then Some cs else None)"
| "line_end [a] = (if a = 10 then Some [] else None)"
| "line_end [] = None"

lemma line_end_new_line: "line_end (new_line cr @ rest) = Some rest"
  by (cases rest) (simp_all add: new_line_def)

section \<open>A reader of records\<close>

text \<open>
  A text of records, each with a header that is read by \<open>h\<close>, bytes in hexadecimal, and an end
  that is read by \<open>e\<close>.
\<close>

fun read_recs :: "(u8 list \<Rightarrow> ('t \<times> u8 list) option) \<Rightarrow> (u8 list \<Rightarrow> u8 list option) \<Rightarrow> nat \<Rightarrow> u8 list \<Rightarrow> ('t \<times> u8 list) list option" where
  "read_recs h e 0 cs = (if cs = [] then Some [] else None)"
| "read_recs h e (Suc n) cs =
     (if cs = [] then Some []
      else case h cs of
        None \<Rightarrow> None
      | Some (t, cs) \<Rightarrow> (case unhex cs of
          (bs, rest) \<Rightarrow> (case e rest of None \<Rightarrow> None | Some rest \<Rightarrow> map_option ((#) (t, bs)) (read_recs h e n rest))))"

lemma read_recs_lines:
  assumes "\<And>t rest. h (pre t @ rest) = Some (t, rest)" and "\<And>rest. e (post @ rest) = Some rest"
    and "\<And>t. pre t \<noteq> []" and "fromhex (hd post) = None" and "post \<noteq> []" and "length rs \<le> n"
  shows "read_recs h e n (concat (map (\<lambda>(t, bs). pre t @ hex_bytes bs @ post) rs)) = Some rs"
  using assms(6)
proof (induction rs arbitrary: n)
  case Nil
  then show ?case by (cases n) simp_all
next
  case (Cons r rs)
  obtain t bs where r: "r = (t, bs)" by (cases r)
  obtain m where n: "n = Suc m" using Cons.prems by (cases n) auto
  let ?rest = "concat (map (\<lambda>(t, bs). pre t @ hex_bytes bs @ post) rs)"
  have "unhex (hex_bytes bs @ post @ ?rest) = (bs, post @ ?rest)"
    using assms(4,5) by (intro unhex_hex) (cases post, simp_all)
  moreover have "read_recs h e m ?rest = Some rs" using Cons n by simp
  ultimately show ?case by (simp add: r n assms(1-3))
qed

end
