(* ===== verification/Ihex.thy ===== *)
theory Ihex
  imports Image Hextext
begin

text \<open>
  The Intel HEX output module (\<open>src/output_ihex.c\<close>), and a reader of the format: what a
  loader puts into memory is the image of every section at its address.
\<close>

section \<open>The writer\<close>

datatype ihex_fmt = I8HEX | I16HEX | I32HEX

text \<open>\<open>record_size\<close> is \<open>buffer_s\<close>; \<open>crlf\<close> is the negation of \<open>asciiout\<close>.\<close>

record ihex_opts =
  ihex_fmt :: ihex_fmt
  record_size :: nat
  crlf :: bool

record ihex =
  ih_file :: "u8 list"
  ih_buffer :: "u8 list"
  ih_addr :: u32
  ext_addr :: u16
  ih_msgs :: "nat list"

definition emit :: "u8 list \<Rightarrow> (ihex, unit) step" where
  "emit bs = modify (\<lambda>s. s\<lparr>ih_file := ih_file s @ bs\<rparr>)"

definition write_eof_record :: "ihex_opts \<Rightarrow> (ihex, unit) step" where
  "write_eof_record o' = emit (0x3a # hex_bytes [0, 0, 0, 1, 0xff] @ new_line (crlf o'))"

text \<open>In 8-bit mode the code uses a type and an address it never sets.\<close>

definition write_extended_record :: "ihex_opts \<Rightarrow> (ihex, unit) step" where
  "write_extended_record o' = bind_st get (\<lambda>s.
     let put = (\<lambda>ext type.
           let csum = NOT (type + 2 + ucast (drop_bit 8 ext) + ucast ext) + 1
           in emit (0x3a # hex_bytes [2, 0, 0] @ hex_byte type @ hex16 ext @ hex_byte csum @ new_line (crlf o')))
     in case ihex_fmt o' of
          I8HEX \<Rightarrow> fail Undefined
        | I16HEX \<Rightarrow> put (push_bit 4 (ext_addr s)) 2
        | I32HEX \<Rightarrow> put (ext_addr s) 4)"

definition out_of_range :: "ihex_opts \<Rightarrow> u32 \<Rightarrow> bool" where
  "out_of_range o' a \<longleftrightarrow> (ihex_fmt o' = I8HEX \<and> 0xffff < a) \<or> (ihex_fmt o' = I16HEX \<and> 0xfffff < a)"

definition write_data_record :: "ihex_opts \<Rightarrow> (ihex, unit) step" where
  "write_data_record o' = bind_st get (\<lambda>s.
     if ih_buffer s = [] then return ()
     else
       let n = of_nat (length (ih_buffer s)) :: u8;
           start = ih_addr s - ucast n;
           ext = ucast (drop_bit 16 start) :: u16;
           start = ucast start :: u16;
           csum = NOT (ucast start + ucast (drop_bit 8 start) + n + sum_list (ih_buffer s)) + 1
       in bind_st (if out_of_range o' (ih_addr s - 1) then modify (\<lambda>s. s\<lparr>ih_msgs := ih_msgs s @ [3011]\<rparr>) else return ()) (\<lambda>_.
          bind_st
            (if ext \<noteq> ext_addr s then
               bind_st (modify (\<lambda>s. s\<lparr>ext_addr := ext\<rparr>)) (\<lambda>_. write_extended_record o')
             else return ()) (\<lambda>_.
          bind_st (emit (0x3a # hex_byte n @ hex16 start @ hex_byte 0 @ hex_bytes (ih_buffer s) @ hex_byte csum @ new_line (crlf o'))) (\<lambda>_.
            modify (\<lambda>s. s\<lparr>ih_buffer := []\<rparr>)))))"

definition buffer_data :: "ihex_opts \<Rightarrow> u8 \<Rightarrow> (ihex, unit) step" where
  "buffer_data o' b =
     bind_st (modify (\<lambda>s. s\<lparr>ih_buffer := ih_buffer s @ [b], ih_addr := ih_addr s + 1\<rparr>)) (\<lambda>_. bind_st get (\<lambda>s.
       if length (ih_buffer s) = record_size o' then write_data_record o' else return ()))"

fun buffer_all :: "ihex_opts \<Rightarrow> u8 list \<Rightarrow> (ihex, unit) step" where
  "buffer_all o' [] = return ()"
| "buffer_all o' (b # bs) = bind_st (buffer_data o' b) (\<lambda>_. buffer_all o' bs)"

fun ihex_atoms :: "ihex_opts \<Rightarrow> sect \<Rightarrow> atom list \<Rightarrow> taddr \<Rightarrow> (ihex, unit) step" where
  "ihex_atoms o' x [] pc = return ()"
| "ihex_atoms o' x (a # as) pc =
     bind_st (from_stop (fwpcalign a x pc)) (\<lambda>(pad, pc).
     bind_st (buffer_all o' pad) (\<lambda>_.
     bind_st (from_stop (atom_bytes a)) (\<lambda>bs.
     bind_st (buffer_all o' bs) (\<lambda>_. ihex_atoms o' x as (pc + of_nat (length bs))))))"

definition ihex_section :: "ihex_opts \<Rightarrow> sect \<times> atom list \<Rightarrow> (ihex, unit) step" where
  "ihex_section o' xa =
     bind_st (modify (\<lambda>s. s\<lparr>ih_addr := sec_org (fst xa)\<rparr>)) (\<lambda>_.
     bind_st (ihex_atoms o' (fst xa) (snd xa) (sec_org (fst xa))) (\<lambda>_. write_data_record o'))"

fun ihex_sections :: "ihex_opts \<Rightarrow> (sect \<times> atom list) list \<Rightarrow> (ihex, unit) step" where
  "ihex_sections o' [] = return ()"
| "ihex_sections o' (xa # xas) = bind_st (ihex_section o' xa) (\<lambda>_. ihex_sections o' xas)"

text \<open>The result is the file and all messages.\<close>

definition write_ihex :: "ihex_opts \<Rightarrow> prog \<Rightarrow> stop + u8 list \<times> nat list" where
  "write_ihex o' p =
     (if order p = [] then Inr ([], [])
      else bind_stop (chk_sec_overlap (core p) (order p)) (\<lambda>_.
           bind_stop
             (bind_st (ihex_sections o' (section_data p)) (\<lambda>_. write_eof_record o')
               \<lparr>ih_file = [], ih_buffer = [], ih_addr = 0, ext_addr = 0, ih_msgs = undefined_messages p\<rparr>) (\<lambda>(s, _).
             Inr (ih_file s, ih_msgs s))))"

section \<open>The reader\<close>

definition ihex_head :: "u8 list \<Rightarrow> (unit \<times> u8 list) option" where
  "ihex_head cs = (case cs of c # cs \<Rightarrow> if c = 0x3a then Some ((), cs) else None | [] \<Rightarrow> None)"

text \<open>
  The linear base address, and the memory written so far. The offset of a byte is added to the
  base of an extended linear address, but it stays in the segment of a segment address. Here
  \<open>lin\<close> says which one is in effect.
\<close>

definition place :: "bool \<Rightarrow> u32 \<Rightarrow> u16 \<Rightarrow> u8 list \<Rightarrow> (u32 \<times> u8) list" where
  "place lin base off bs =
     map (\<lambda>i. (base + (if lin then ucast off + of_nat i else ucast (off + of_nat i)), bs ! i)) [0..<length bs]"

fun ihex_record :: "u8 list \<Rightarrow> bool \<times> u32 \<times> (u32 \<times> u8) list \<Rightarrow> (bool \<times> u32 \<times> (u32 \<times> u8) list) option" where
  "ihex_record (n # h # l # t # bs) (lin, base, mem) =
     (let off = push_bit 8 (ucast h) OR ucast l :: u16; d = butlast bs;
          v = (case d of [a, b] \<Rightarrow> push_bit 8 (ucast a) OR ucast b | _ \<Rightarrow> 0) :: u32
      in if length bs \<noteq> unat n + 1 \<or> sum_list (n # h # l # t # bs) \<noteq> 0 then None
         else if t = 0 then Some (lin, base, mem @ place lin base off d)
         else if t = 1 then Some (lin, base, mem)
         else if t = 2 then Some (False, push_bit 4 v, mem)
         else if t = 4 then Some (True, push_bit 16 v, mem)
         else None)"
| "ihex_record bs st = None"

fun ihex_records :: "u8 list list \<Rightarrow> bool \<times> u32 \<times> (u32 \<times> u8) list \<Rightarrow> (bool \<times> u32 \<times> (u32 \<times> u8) list) option" where
  "ihex_records [] st = Some st"
| "ihex_records (r # rs) st = (case ihex_record r st of None \<Rightarrow> None | Some st \<Rightarrow> ihex_records rs st)"

definition read_ihex :: "u8 list \<Rightarrow> (u32 \<times> u8) list option" where
  "read_ihex cs =
     (case read_recs ihex_head line_end (length cs) cs of
        None \<Rightarrow> None
      | Some rs \<Rightarrow> map_option (snd \<circ> snd) (ihex_records (map snd rs) (True, 0, [])))"

lemma ihex_records_append:
  "ihex_records (rs @ rs') st = (case ihex_records rs st of None \<Rightarrow> None | Some st \<Rightarrow> ihex_records rs' st)"
  by (induction rs arbitrary: st) (simp_all split: option.split)

section \<open>Reading back what was written\<close>

definition ihex_line :: "ihex_opts \<Rightarrow> u8 list \<Rightarrow> u8 list" where
  "ihex_line o' bs = 0x3a # hex_bytes bs @ new_line (crlf o')"

text \<open>
  The file is a list of lines, which a reader has taken to linear base address \<open>ext_addr\<close> and to
  all the memory \<open>E\<close> given so far, but for the bytes in the buffer.
\<close>

definition ihex_inv :: "ihex_opts \<Rightarrow> ihex \<Rightarrow> (u32 \<times> u8) list \<Rightarrow> bool" where
  "ihex_inv o' s E \<longleftrightarrow> (\<exists>rs mem. ih_file s = concat (map (ihex_line o') rs) \<and>
     ihex_records rs (True, 0, []) = Some (True, push_bit 16 (ucast (ext_addr s)), mem) \<and>
     E = mem @ place True (ih_addr s - of_nat (length (ih_buffer s))) 0 (ih_buffer s))"

lemma bytes_of_16: "push_bit 8 (ucast (ucast (drop_bit 8 v) :: u8)) OR ucast (ucast v :: u8) = (v :: u16)"
  by (rule bit_word_eqI) (auto simp: bit_simps)

lemma bytes_of_16_32: "push_bit 8 (ucast (ucast (drop_bit 8 v) :: u8)) OR ucast (ucast v :: u8) = (ucast (v :: u16) :: u32)"
  by (rule bit_word_eqI) (auto simp: bit_simps dest: bit_imp_le_length)

lemma halves_of_32: "push_bit 16 (ucast (ucast (drop_bit 16 v) :: u16)) + ucast (ucast v :: u16) = (v :: u32)"
proof -
  have "push_bit 16 (ucast (ucast (drop_bit 16 v) :: u16)) = push_bit 16 (drop_bit 16 v)"
    by (rule bit_word_eqI) (auto simp: bit_simps)
  moreover have "ucast (ucast v :: u16) = take_bit 16 v"
    by (rule bit_word_eqI) (auto simp: bit_simps)
  ultimately show ?thesis by (simp add: bits_ident)
qed

lemma sum_list_bytes: "sum_list (xs @ [NOT (sum_list xs) + 1]) = (0 :: u8)"
  by (simp add: minus_eq_not_plus_1 [symmetric])

lemma data_record_read:
  fixes start :: u32
  defines "w \<equiv> ucast start :: u16"
  assumes "length bs \<le> 255" and "c = NOT (ucast w + ucast (drop_bit 8 w) + of_nat (length bs) + sum_list bs) + 1"
  shows "ihex_record (of_nat (length bs) # ucast (drop_bit 8 w) # ucast w # 0 # bs @ [c])
      (True, push_bit 16 (ucast (ucast (drop_bit 16 start) :: u16)), mem)
    = Some (True, push_bit 16 (ucast (ucast (drop_bit 16 start) :: u16)), mem @ place True start 0 bs)"
proof -
  have n: "unat (of_nat (length bs) :: u8) = length bs" using assms(2) by (simp add: unsigned_of_nat take_bit_nat_eq_self)
  have z: "sum_list (of_nat (length bs) # ucast (drop_bit 8 w) # ucast w # 0 # bs @ [c]) = 0"
    unfolding assms(3) minus_eq_not_plus_1 [symmetric] by simp
  have p: "place True (push_bit 16 (ucast (ucast (drop_bit 16 start) :: u16))) w bs = place True start 0 bs"
    unfolding place_def w_def using halves_of_32 [of start] by (simp add: add.assoc [symmetric])
  show ?thesis
    using n z by (simp add: Let_def bytes_of_16 p)
qed

lemma extended_record_read:
  assumes "c = NOT (4 + 2 + ucast (drop_bit 8 ext) + ucast ext) + 1"
  shows "ihex_record [2, 0, 0, 4, ucast (drop_bit 8 ext), ucast ext, c] st = Some (True, push_bit 16 (ucast (ext :: u16)), snd (snd st))"
proof -
  obtain lin base mem where st: "st = (lin, base, mem)" by (cases st)
  have "sum_list [2, 0, 0, 4, ucast (drop_bit 8 ext), ucast ext, c] = 0"
    unfolding assms minus_eq_not_plus_1 [symmetric] by simp
  then show ?thesis by (simp add: st Let_def bytes_of_16_32)
qed

declare ihex_record.simps [simp del]

lemma flush_inv:
  assumes inv: "ihex_inv o' s E" and len: "length (ih_buffer s) \<le> 255"
    and fmt: "ihex_fmt o' = I32HEX \<or> ucast (drop_bit 16 (ih_addr s - of_nat (length (ih_buffer s)))) = ext_addr s"
  shows "\<exists>s'. write_data_record o' s = Inr (s', ()) \<and> ihex_inv o' s' E \<and> ih_buffer s' = [] \<and> ih_addr s' = ih_addr s \<and>
    (ihex_fmt o' = I32HEX \<or> ext_addr s' = ext_addr s)"
proof (cases "ih_buffer s = []")
  case True
  then show ?thesis using inv by (simp add: write_data_record_def bind_st_def get_def return_def)
next
  case False
  let ?start = "ih_addr s - of_nat (length (ih_buffer s))"
  let ?ext = "ucast (drop_bit 16 ?start) :: u16"
  let ?lo = "ucast ?start :: u16"
  let ?c = "NOT (ucast ?lo + ucast (drop_bit 8 ?lo) + of_nat (length (ih_buffer s)) + sum_list (ih_buffer s)) + 1 :: u8"
  let ?data = "of_nat (length (ih_buffer s)) # ucast (drop_bit 8 ?lo) # ucast ?lo # 0 # ih_buffer s @ [?c]"
  let ?x = "NOT (4 + 2 + ucast (drop_bit 8 ?ext) + ucast ?ext) + 1 :: u8"
  let ?e = "if ?ext = ext_addr s then [] else [[2, 0, 0, 4, ucast (drop_bit 8 ?ext), ucast ?ext, ?x]]"
  obtain rs mem where f: "ih_file s = concat (map (ihex_line o') rs)"
    and r: "ihex_records rs (True, 0, []) = Some (True, push_bit 16 (ucast (ext_addr s)), mem)"
    and E: "E = mem @ place True ?start 0 (ih_buffer s)"
    using inv by (auto simp: ihex_inv_def)
  have n: "ucast (of_nat (length (ih_buffer s)) :: u8) = (of_nat (length (ih_buffer s)) :: u32)"
    using len by (simp add: unsigned_of_nat take_bit_nat_eq_self)
  obtain s' where w: "write_data_record o' s = Inr (s', ())" and s': "ih_file s' = ih_file s @ concat (map (ihex_line o') (?e @ [?data]))" "ext_addr s' = ?ext" "ih_buffer s' = []" "ih_addr s' = ih_addr s"
    using fmt False
    by (cases "?ext = ext_addr s"; cases "out_of_range o' (ih_addr s - 1)")
      (auto simp: write_data_record_def Let_def n action_defs emit_def write_extended_record_def ihex_line_def hex_bytes_def hex16_def)
  have "ihex_records ?e (True, push_bit 16 (ucast (ext_addr s)), mem) = Some (True, push_bit 16 (ucast ?ext), mem)"
    using extended_record_read [OF refl, of ?ext "(True, push_bit 16 (ucast (ext_addr s)), mem)"]
    by (cases "?ext = ext_addr s") (simp_all only: if_True if_False simp_thms ihex_records.simps option.case snd_conv)
  moreover have "ihex_records [?data] (True, push_bit 16 (ucast ?ext), mem)
      = Some (True, push_bit 16 (ucast ?ext), mem @ place True ?start 0 (ih_buffer s))"
    by (simp only: ihex_records.simps data_record_read [OF len refl] option.case)
  ultimately have "ihex_records (rs @ ?e @ [?data]) (True, 0, []) = Some (True, push_bit 16 (ucast ?ext), E)"
    unfolding ihex_records_append r E by simp
  then have "ihex_inv o' s' E"
    unfolding ihex_inv_def s' f by (intro exI [where x = "rs @ ?e @ [?data]"] exI [where x = E]) (simp add: place_def)
  then show ?thesis using s' w fmt by auto
qed

lemma place_Cons: "place True a 0 (b # bs) = (a, b) # place True (a + 1) 0 bs"
proof -
  have "[0..<length (b # bs)] = 0 # map Suc [0..<length bs]" by (simp add: map_Suc_upt upt_conv_Cons del: upt_Suc)
  then show ?thesis by (simp add: place_def comp_def add.assoc del: upt_Suc)
qed

lemma place_append: "place True a 0 (xs @ ys) = place True a 0 xs @ place True (a + of_nat (length xs)) 0 ys"
  by (induction xs arbitrary: a) (simp_all add: place_Cons place_def [of _ _ _ "[]"] add.assoc)

text \<open>In the formats without a linear address all sections have to lie in the first 64 KB.\<close>

definition ihex_ok :: "ihex_opts \<Rightarrow> ihex \<Rightarrow> bool" where
  "ihex_ok o' s \<longleftrightarrow> length (ih_buffer s) < record_size o' \<and>
     (ihex_fmt o' = I32HEX \<or> (ext_addr s = 0 \<and> length (ih_buffer s) \<le> unat (ih_addr s) \<and> unat (ih_addr s) \<le> 65536))"

definition in_reach :: "ihex_opts \<Rightarrow> u32 \<Rightarrow> nat \<Rightarrow> bool" where
  "in_reach o' a n \<longleftrightarrow> ihex_fmt o' = I32HEX \<or> unat a + n \<le> 65536"

lemma unat_next: "unat a < 2 ^ 32 - 1 \<Longrightarrow> unat (a + 1) = unat a + 1" for a :: u32
  using iffD1 [OF unat_add_lem, of a 1] by simp

lemma high_half_zero:
  fixes a :: u32
  assumes "0 < n" and "n \<le> unat a" and "unat a \<le> 65536"
  shows "ucast (drop_bit 16 (a - of_nat n)) = (0 :: u16)"
proof -
  have "unat (of_nat n :: u32) = n" using assms by (simp add: unsigned_of_nat take_bit_nat_eq_self)
  then have "unat (a - of_nat n) = unat a - n" using assms(2) by (simp add: unat_sub word_le_nat_alt)
  then have "unat (drop_bit 16 (a - of_nat n)) = 0" using assms by (simp add: drop_bit_eq_div unat_div_distrib)
  then show ?thesis by (simp add: unat_eq_0)
qed

lemma buffer_data_inv:
  assumes "ihex_inv o' s E" and "ihex_ok o' s" and "record_size o' \<le> 255" and "in_reach o' (ih_addr s) 1"
  shows "\<exists>s'. buffer_data o' b s = Inr (s', ()) \<and> ihex_inv o' s' (E @ [(ih_addr s, b)]) \<and> ihex_ok o' s' \<and> ih_addr s' = ih_addr s + 1"
proof -
  let ?s = "s\<lparr>ih_buffer := ih_buffer s @ [b], ih_addr := ih_addr s + 1\<rparr>"
  have l: "length (ih_buffer s) < record_size o'" using assms(2) by (simp add: ihex_ok_def)
  have i: "ihex_inv o' ?s (E @ [(ih_addr s, b)])"
    using assms(1) by (auto simp: ihex_inv_def place_append place_Cons place_def [of _ _ _ "[]"])
  have a: "ihex_fmt o' = I32HEX \<or> (ext_addr s = 0 \<and> length (ih_buffer ?s) \<le> unat (ih_addr ?s) \<and> unat (ih_addr ?s) \<le> 65536)"
  proof (cases "ihex_fmt o' = I32HEX")
    case False
    then have r: "unat (ih_addr s) + 1 \<le> 65536" using assms(4) by (simp add: in_reach_def)
    then have "unat (ih_addr s + 1) = unat (ih_addr s) + 1" by (intro unat_next) simp
    then show ?thesis using False assms(2) r by (simp add: ihex_ok_def)
  qed simp
  show ?thesis
  proof (cases "length (ih_buffer ?s) = record_size o'")
    case True
    have "ihex_fmt o' = I32HEX \<or> ucast (drop_bit 16 (ih_addr ?s - of_nat (length (ih_buffer ?s)))) = ext_addr ?s"
      using a high_half_zero [of "length (ih_buffer ?s)" "ih_addr ?s"] by auto
    moreover have "length (ih_buffer ?s) \<le> 255" using True assms(3) by simp
    ultimately obtain s' where "write_data_record o' ?s = Inr (s', ())" "ihex_inv o' s' (E @ [(ih_addr s, b)])" "ih_buffer s' = []"
      "ih_addr s' = ih_addr ?s" "ihex_fmt o' = I32HEX \<or> ext_addr s' = ext_addr ?s"
      using flush_inv [OF i] by blast
    then show ?thesis
      using True a l by (auto simp: buffer_data_def bind_st_def get_def modify_def ihex_ok_def)
  next
    case False
    then show ?thesis
      using i a l by (auto simp: buffer_data_def bind_st_def get_def modify_def return_def ihex_ok_def)
  qed
qed

lemma buffer_all_inv:
  assumes "ihex_inv o' s E" and "ihex_ok o' s" and "record_size o' \<le> 255" and "in_reach o' (ih_addr s) (length bs)"
  shows "\<exists>s'. buffer_all o' bs s = Inr (s', ()) \<and> ihex_inv o' s' (E @ place True (ih_addr s) 0 bs) \<and> ihex_ok o' s'
    \<and> ih_addr s' = ih_addr s + of_nat (length bs)"
  using assms
proof (induction bs arbitrary: s E)
  case Nil
  then show ?case by (simp add: return_def place_def)
next
  case (Cons b bs)
  have r: "in_reach o' (ih_addr s) 1" using Cons.prems(4) by (auto simp: in_reach_def)
  obtain s1 where 1: "buffer_data o' b s = Inr (s1, ())" "ihex_inv o' s1 (E @ [(ih_addr s, b)])" "ihex_ok o' s1" "ih_addr s1 = ih_addr s + 1"
    using buffer_data_inv [OF Cons.prems(1-3) r] by blast
  have "in_reach o' (ih_addr s1) (length bs)"
  proof (cases "ihex_fmt o' = I32HEX")
    case False
    then have "unat (ih_addr s) + Suc (length bs) \<le> 65536" using Cons.prems(4) by (simp add: in_reach_def)
    moreover from this have "unat (ih_addr s + 1) = unat (ih_addr s) + 1" by (intro unat_next) simp
    ultimately show ?thesis by (simp add: in_reach_def 1)
  qed (simp add: in_reach_def)
  from Cons.IH [OF 1(2,3) Cons.prems(3) this] obtain s' where "buffer_all o' bs s1 = Inr (s', ())"
    "ihex_inv o' s' ((E @ [(ih_addr s, b)]) @ place True (ih_addr s1) 0 bs)" "ihex_ok o' s'" "ih_addr s' = ih_addr s1 + of_nat (length bs)"
    by blast
  then show ?case using 1 by (auto simp: bind_st_def place_Cons add.assoc)
qed

end
