(* ===== verification/Ihexread.thy ===== *)
theory Ihexread
  imports Ihex
begin

text \<open>
  What the Intel HEX output module writes, read back: every section is loaded at its address,
  with the bytes of its image.
\<close>

section \<open>Atoms and sections\<close>

lemma buffer_all_append: "buffer_all o' (xs @ ys) = bind_st (buffer_all o' xs) (\<lambda>_. buffer_all o' ys)"
  by (induction xs) (simp_all add: bind_return bind_assoc)

lemma ihex_atoms_image: "image x as pc = Inr bs \<Longrightarrow> ihex_atoms o' x as pc = buffer_all o' bs"
proof (induction as arbitrary: pc bs)
  case (Cons a as)
  obtain pad pc' where p: "fwpcalign a x pc = Inr (pad, pc')"
    using Cons.prems by (cases "fwpcalign a x pc") auto
  obtain data where d: "atom_bytes a = Inr data"
    using Cons.prems p by (cases "atom_bytes a") auto
  obtain rest where r: "image x as (pc' + of_nat (length data)) = Inr rest"
    using Cons.prems p d by (cases "image x as (pc' + of_nat (length data))") auto
  have "bs = pad @ data @ rest" using Cons.prems p d r by simp
  then show ?case by (simp add: p d from_stop_Inr bind_return buffer_all_append Cons.IH [OF r])
qed simp

lemma place_bytes_at: "place True a 0 bs = bytes_at a bs"
  by (induction bs arbitrary: a) (simp_all add: place_Cons place_def [of _ _ _ "[]"])

lemma ihex_section_inv:
  assumes "ihex_inv o' s E" and "ih_buffer s = []" and "ihex_fmt o' = I32HEX \<or> ext_addr s = 0"
    and "1 \<le> record_size o'" and "record_size o' \<le> 255"
    and "image x as (sec_org x) = Inr bs" and "in_reach o' (sec_org x) (length bs)"
  shows "\<exists>s'. ihex_section o' (x, as) s = Inr (s', ()) \<and> ihex_inv o' s' (E @ place True (sec_org x) 0 bs) \<and>
    ih_buffer s' = [] \<and> (ihex_fmt o' = I32HEX \<or> ext_addr s' = 0)"
proof -
  let ?s = "s\<lparr>ih_addr := sec_org x\<rparr>"
  have "ihex_inv o' ?s E" using assms(1,2) by (simp add: ihex_inv_def place_def)
  moreover have "ihex_ok o' ?s"
    using assms(2-4,7) by (auto simp: ihex_ok_def in_reach_def)
  moreover have "in_reach o' (ih_addr ?s) (length bs)" using assms(7) by simp
  ultimately obtain s1 where 1: "buffer_all o' bs ?s = Inr (s1, ())" "ihex_inv o' s1 (E @ place True (ih_addr ?s) 0 bs)" "ihex_ok o' s1"
    using buffer_all_inv [OF _ _ assms(5)] by blast
  have len: "length (ih_buffer s1) \<le> 255" using 1(3) assms(5) by (simp add: ihex_ok_def)
  show ?thesis
  proof (cases "ih_buffer s1 = []")
    case True
    have "write_data_record o' s1 = Inr (s1, ())" using True by (simp add: write_data_record_def action_defs)
    then show ?thesis
      using 1 True by (auto simp: ihex_section_def ihex_atoms_image [OF assms(6)] bind_st_def modify_def ihex_ok_def)
  next
    case False
    then have "ihex_fmt o' = I32HEX \<or> ucast (drop_bit 16 (ih_addr s1 - of_nat (length (ih_buffer s1)))) = ext_addr s1"
      using 1(3) high_half_zero [of "length (ih_buffer s1)" "ih_addr s1"] by (auto simp: ihex_ok_def)
    from flush_inv [OF 1(2) len this] show ?thesis
      using 1 by (auto simp: ihex_section_def ihex_atoms_image [OF assms(6)] bind_st_def modify_def ihex_ok_def)
  qed
qed

definition all_in_reach :: "ihex_opts \<Rightarrow> (u32 \<times> u8 list) list \<Rightarrow> bool" where
  "all_in_reach o' ms \<longleftrightarrow> list_all (\<lambda>(a, bs). in_reach o' a (length bs)) ms"

lemma ihex_sections_inv:
  assumes "ihex_inv o' s E" and "ih_buffer s = []" and "ihex_fmt o' = I32HEX \<or> ext_addr s = 0"
    and "1 \<le> record_size o'" and "record_size o' \<le> 255" and "images xas = Inr ms" and "all_in_reach o' ms"
  shows "\<exists>s'. ihex_sections o' xas s = Inr (s', ()) \<and> ihex_inv o' s' (E @ memory ms) \<and> ih_buffer s' = []"
  using assms
proof (induction xas arbitrary: s E ms)
  case Nil
  then show ?case by (simp add: return_def memory_def place_bytes_at)
next
  case (Cons xa xas)
  obtain x as where xa: "xa = (x, as)" by (cases xa)
  obtain bs where b: "image x as (sec_org x) = Inr bs"
    using Cons.prems(6) by (cases "image x as (sec_org x)") (auto simp: xa)
  obtain ms' where m: "images xas = Inr ms'"
    using Cons.prems(6) b by (cases "images xas") (auto simp: xa)
  have ms: "ms = (sec_org x, bs) # ms'" using Cons.prems(6) b m by (simp add: xa)
  have r: "in_reach o' (sec_org x) (length bs)" "all_in_reach o' ms'"
    using Cons.prems(7) by (simp_all add: ms all_in_reach_def)
  obtain s1 where 1: "ihex_section o' (x, as) s = Inr (s1, ())" "ihex_inv o' s1 (E @ place True (sec_org x) 0 bs)"
    "ih_buffer s1 = []" "ihex_fmt o' = I32HEX \<or> ext_addr s1 = 0"
    using ihex_section_inv [OF Cons.prems(1-5) b r(1)] by blast
  show ?case
    using Cons.IH [OF 1(2-4) Cons.prems(4,5) m r(2)] 1(1) by (auto simp: xa ms memory_def bind_st_def place_bytes_at)
qed

section \<open>The file\<close>

lemma eof_line: "0x3a # hex_bytes [0, 0, 0, 1, 0xff] @ new_line cr = ihex_line o' [0, 0, 0, 1, 0xff]"
  if "cr = crlf o'"
  using that by (simp add: ihex_line_def)

lemma read_lines:
  assumes "ihex_records rs (True, 0, []) = Some (lin, base, mem)"
  shows "read_ihex (concat (map (ihex_line o') rs)) = Some mem"
proof -
  let ?cs = "concat (map (ihex_line o') rs)"
  have "length rs \<le> length ?cs" by (induction rs) (simp_all add: ihex_line_def)
  moreover have "?cs = concat (map (\<lambda>(t, bs). [0x3a] @ hex_bytes bs @ new_line (crlf o')) (map (\<lambda>bs. ((), bs)) rs))"
    by (simp add: comp_def ihex_line_def [abs_def])
  moreover have "fromhex (hd (new_line (crlf o'))) = None" "new_line (crlf o') \<noteq> []"
    by (auto simp: new_line_def fromhex_def)
  ultimately have "read_recs ihex_head line_end (length ?cs) ?cs = Some (map (\<lambda>bs. ((), bs)) rs)"
    using read_recs_lines [where h = ihex_head and e = line_end and pre = "\<lambda>_. [0x3a]" and post = "new_line (crlf o')"
        and rs = "map (\<lambda>bs. ((), bs)) rs" and n = "length ?cs"]
    by (simp add: ihex_head_def line_end_new_line)
  then show ?thesis using assms by (simp add: read_ihex_def comp_def)
qed



text \<open>
  In the 16-bit format a section beyond 64 KB is read at another address: the segment is written
  as the upper half of the address times 16, and not as the address divided by 16.
\<close>

theorem segment_address_wrong:
  "bind_stop (write_ihex \<lparr>ihex_fmt = I16HEX, record_size = 32, crlf = False\<rparr> (data_prog [(0x12000, 0x12001, [new_data_atom \<lparr>db_size = 1, db_data = [7], db_relocs = []\<rparr> 1])]))
     (\<lambda>(f, _). Inr (read_ihex f)) = Inr (Some [(0x2100, 7)])"
  by code_simp

end
