(* ===== verification/Srec.thy ===== *)
theory Srec
  imports Image Hextext
begin

text \<open>
  The Motorola S-record output module (\<open>src/output_srec.c\<close>), and a reader of the format.
\<close>

section \<open>The writer\<close>

text \<open>
  The number of the format is the type of its data records. \<open>srec_pc\<close> is the address of the
  bytes in the buffer; \<open>start_sym\<close> is the name to look for.
\<close>

datatype srec_fmt = S19 | S28 | S37

fun srecfmt :: "srec_fmt \<Rightarrow> nat" where
  "srecfmt S19 = 1"
| "srecfmt S28 = 2"
| "srecfmt S37 = 3"

record srec =
  sr_file :: "u8 list"
  sr_data :: "u8 list"
  srec_pc :: u64
  sr_msgs :: "nat list"

definition check_range :: "nat \<Rightarrow> u64 \<Rightarrow> (srec, unit) step" where
  "check_range type a =
     (if 0 < type \<and> drop_bit ((type + 1) * 8) a \<noteq> 0 then modify (\<lambda>s. s\<lparr>sr_msgs := sr_msgs s @ [3011]\<rparr>) else return ())"

definition write_data_buffer :: "bool \<Rightarrow> nat \<Rightarrow> (srec, unit) step" where
  "write_data_buffer cr type = bind_st get (\<lambda>s.
     if sr_data s = [] \<and> type \<noteq> 0 then return ()
     else bind_st (check_range type (srec_pc s)) (\<lambda>_.
       if 3 < type then return ()
       else
         let pc = srec_pc s;
             count = of_nat (length (sr_data s)) + 2 + of_nat (if type = 0 then 1 else type) :: u8;
             addr = (if 2 < type then [ucast (drop_bit 24 pc)] else []) @ (if 1 < type then [ucast (drop_bit 16 pc)] else [])
               @ (if 0 < type then [ucast (drop_bit 8 pc), ucast pc] else [0, 0]);
             checksum = count + sum_list addr + sum_list (sr_data s)
         in modify (\<lambda>s. s\<lparr>sr_file := sr_file s @ 0x53 # (of_nat type + 0x30) # hex_byte count @ hex_bytes addr
               @ hex_bytes (sr_data s) @ hex_byte (checksum XOR 0xff) @ new_line cr,
             srec_pc := srec_pc s + of_nat (length (sr_data s)), sr_data := []\<rparr>)))"

definition write_termination_record :: "bool \<Rightarrow> srec_fmt \<Rightarrow> u64 \<Rightarrow> (srec, unit) step" where
  "write_termination_record cr fmt start_addr =
     (let n = (case fmt of S37 \<Rightarrow> 5 | S28 \<Rightarrow> 4 | S19 \<Rightarrow> 3);
          addr = (if 3 \<le> srecfmt fmt then [ucast (drop_bit 24 (start_addr AND 0xff000000))] else [])
            @ (if 2 \<le> srecfmt fmt then [ucast (drop_bit 16 (start_addr AND 0xff0000))] else [])
            @ [ucast (drop_bit 8 (start_addr AND 0xff00)), ucast (start_addr AND 0xff)];
          checksum = n + sum_list addr
      in bind_st (check_range (srecfmt fmt) start_addr) (\<lambda>_.
           modify (\<lambda>s. s\<lparr>sr_file := sr_file s @ 0x53 # (of_nat (10 - srecfmt fmt) + 0x30) # hex_byte n @ hex_bytes addr
             @ hex_byte (checksum XOR 0xff) @ new_line cr\<rparr>)))"

definition put_byte_in_buffer :: "bool \<Rightarrow> srec_fmt \<Rightarrow> u8 \<Rightarrow> (srec, unit) step" where
  "put_byte_in_buffer cr fmt b =
     bind_st (modify (\<lambda>s. s\<lparr>sr_data := sr_data s @ [b]\<rparr>)) (\<lambda>_. bind_st get (\<lambda>s.
       if 32 \<le> length (sr_data s) then write_data_buffer cr (srecfmt fmt) else return ()))"

fun put_bytes :: "bool \<Rightarrow> srec_fmt \<Rightarrow> u8 list \<Rightarrow> (srec, unit) step" where
  "put_bytes cr fmt [] = return ()"
| "put_bytes cr fmt (b # bs) = bind_st (put_byte_in_buffer cr fmt b) (\<lambda>_. put_bytes cr fmt bs)"

text \<open>\<open>addralign\<close> is \<open>fwpcalign\<close> for the buffer; \<open>pc\<close> counts the bytes.\<close>

fun srec_atoms :: "bool \<Rightarrow> srec_fmt \<Rightarrow> sect \<Rightarrow> atom list \<Rightarrow> u64 \<Rightarrow> (srec, unit) step" where
  "srec_atoms cr fmt x [] pc = return ()"
| "srec_atoms cr fmt x (a # as) pc =
     bind_st (from_stop (fwpcalign a x (ucast pc))) (\<lambda>(pad, _).
     bind_st (put_bytes cr fmt pad) (\<lambda>_.
     bind_st (from_stop (atom_bytes a)) (\<lambda>bs.
     bind_st (put_bytes cr fmt bs) (\<lambda>_. srec_atoms cr fmt x as (pc + of_nat (length pad) + of_nat (length bs))))))"

text \<open>Every section has a header with up to 32 characters of its name.\<close>

definition srec_section :: "bool \<Rightarrow> srec_fmt \<Rightarrow> sect \<times> atom list \<Rightarrow> (srec, unit) step" where
  "srec_section cr fmt xa =
     bind_st (modify (\<lambda>s. s\<lparr>sr_data := take 32 (map of_char (sec_name (fst xa)))\<rparr>)) (\<lambda>_.
     bind_st (write_data_buffer cr 0) (\<lambda>_.
     bind_st (modify (\<lambda>s. s\<lparr>srec_pc := ucast (sec_org (fst xa))\<rparr>)) (\<lambda>_.
     bind_st (srec_atoms cr fmt (fst xa) (snd xa) (scast (sec_org (fst xa)))) (\<lambda>_.
     write_data_buffer cr (srecfmt fmt)))))"

fun srec_sections :: "bool \<Rightarrow> srec_fmt \<Rightarrow> (sect \<times> atom list) list \<Rightarrow> (srec, unit) step" where
  "srec_sections cr fmt [] = return ()"
| "srec_sections cr fmt (xa # xas) = bind_st (srec_section cr fmt xa) (\<lambda>_. srec_sections cr fmt xas)"

text \<open>The symbols: messages for the undefined ones, and the start address.\<close>

fun srec_symbols :: "asm \<Rightarrow> symid list \<Rightarrow> string option \<Rightarrow> u64 \<Rightarrow> nat list \<times> u64" where
  "srec_symbols s [] start_sym start_addr = (if start_sym = None then [] else [3006], start_addr)"
| "srec_symbols s (y # ys) start_sym start_addr =
     (let found = start_sym = Some (sym_name (sym s y));
          r = srec_symbols s ys (if found then None else start_sym) (if found then scast (sym_pc (sym s y)) else start_addr)
      in ((if sym_type (sym s y) = IMPORT then [3006] else []) @ fst r, snd r))"

definition write_srec :: "bool \<Rightarrow> srec_fmt \<Rightarrow> string option \<Rightarrow> prog \<Rightarrow> stop + u8 list \<times> nat list" where
  "write_srec cr fmt start_sym p =
     (if order p = [] then Inr ([], [])
      else case srec_symbols (core p) (symlist p) start_sym 0 of (ms, start_addr) \<Rightarrow>
        bind_stop
          (bind_st (srec_sections cr fmt (section_data p)) (\<lambda>_. write_termination_record cr fmt start_addr)
            \<lparr>sr_file = [], sr_data = [], srec_pc = 0, sr_msgs = ms\<rparr>) (\<lambda>(s, _). Inr (sr_file s, sr_msgs s)))"

section \<open>The reader\<close>

definition be_value :: "u8 list \<Rightarrow> u32" where
  "be_value bs = foldl (\<lambda>v b. push_bit 8 v OR ucast b) 0 bs"

definition srec_head :: "u8 list \<Rightarrow> (u8 \<times> u8 list) option" where
  "srec_head cs = (case cs of c # t # cs \<Rightarrow> if c = 0x53 then Some (t, cs) else None | _ \<Rightarrow> None)"

text \<open>The memory, and the start address of the last record.\<close>

fun srec_record :: "u8 \<times> u8 list \<Rightarrow> (u32 \<times> u8) list \<times> u32 \<Rightarrow> ((u32 \<times> u8) list \<times> u32) option" where
  "srec_record (t, n # bs) (mem, start) =
     (let d = butlast bs; k = unat (t - 0x30) + 1
      in if length bs \<noteq> unat n \<or> sum_list (n # bs) \<noteq> 0xff then None
         else if t = 0x30 then Some (mem, start)
         else if 0x31 \<le> t \<and> t \<le> 0x33 then Some (mem @ bytes_at (be_value (take k d)) (drop k d), start)
         else if 0x37 \<le> t \<and> t \<le> 0x39 then Some (mem, be_value d)
         else None)"
| "srec_record (t, []) st = None"

fun srec_records :: "(u8 \<times> u8 list) list \<Rightarrow> (u32 \<times> u8) list \<times> u32 \<Rightarrow> ((u32 \<times> u8) list \<times> u32) option" where
  "srec_records [] st = Some st"
| "srec_records (r # rs) st = (case srec_record r st of None \<Rightarrow> None | Some st \<Rightarrow> srec_records rs st)"

definition read_srec :: "u8 list \<Rightarrow> ((u32 \<times> u8) list \<times> u32) option" where
  "read_srec cs =
     (case read_recs srec_head line_end (length cs) cs of
        None \<Rightarrow> None
      | Some rs \<Rightarrow> srec_records rs ([], 0))"

lemma srec_records_append:
  "srec_records (rs @ rs') st = (case srec_records rs st of None \<Rightarrow> None | Some st \<Rightarrow> srec_records rs' st)"
  by (induction rs arbitrary: st) (simp_all split: option.split)

declare srec_record.simps [simp del]

end
