(* ===== verification/Srecread.thy ===== *)
theory Srecread
  imports Srec
begin

text \<open>
  What the S-record output module writes, read back: every section is loaded at its address, with
  the bytes of its image.
\<close>

section \<open>Records\<close>

definition srec_line :: "bool \<Rightarrow> u8 \<times> u8 list \<Rightarrow> u8 list" where
  "srec_line cr r = 0x53 # fst r # hex_bytes (snd r) @ new_line cr"

definition checked :: "u8 list \<Rightarrow> u8 list" where
  "checked bs = bs @ [sum_list bs XOR 0xff]"

lemma xor_ff: "b XOR 0xff = NOT b" for b :: u8
  by (rule bit_word_eqI) (auto simp: bit_simps less_Suc_eq numeral_eq_Suc)

lemma checked_sum: "sum_list (checked bs) = 0xff"
  by (simp add: checked_def xor_ff not_eq_complement)

fun addr_bytes :: "srec_fmt \<Rightarrow> u64 \<Rightarrow> u8 list" where
  "addr_bytes S19 a = [ucast (drop_bit 8 a), ucast a]"
| "addr_bytes S28 a = [ucast (drop_bit 16 a), ucast (drop_bit 8 a), ucast a]"
| "addr_bytes S37 a = [ucast (drop_bit 24 a), ucast (drop_bit 16 a), ucast (drop_bit 8 a), ucast a]"

lemma addr_bytes_length: "length (addr_bytes fmt a) = srecfmt fmt + 1"
  by (cases fmt) simp_all

lemma drop_zero_bit: "drop_bit k a = 0 \<Longrightarrow> k \<le> n \<Longrightarrow> \<not> bit a n" for a :: "'a :: len word"
proof
  assume z: "drop_bit k a = 0" and n: "k \<le> n" and b: "bit a n"
  have "bit (drop_bit k a) (n - k)" using n b by (simp add: bit_drop_bit_eq)
  then show False using z by simp
qed

lemma be_value_addr: "drop_bit ((srecfmt fmt + 1) * 8) a = 0 \<Longrightarrow> be_value (addr_bytes fmt a) = ucast a"
proof (cases fmt)
  case S19
  assume "drop_bit ((srecfmt fmt + 1) * 8) a = 0"
  then have b: "bit a n \<Longrightarrow> n < 16" for n using drop_zero_bit [of 16 a n] by (auto simp: linorder_not_le [symmetric] S19)
  then show ?thesis
    by (intro bit_word_eqI) (auto simp: S19 be_value_def bit_simps dest: b)
next
  case S28
  assume "drop_bit ((srecfmt fmt + 1) * 8) a = 0"
  then have b: "bit a n \<Longrightarrow> n < 24" for n using drop_zero_bit [of 24 a n] by (auto simp: linorder_not_le [symmetric] S28)
  then have e: "bit (be_value (addr_bytes fmt a)) n \<longleftrightarrow> bit (ucast a :: u32) n" if "n < 32" for n
    using that by (cases "16 \<le> n") (auto simp: S28 be_value_def bit_simps dest: b)
  show ?thesis by (intro bit_word_eqI) (simp add: e)
next
  case S37
  have e: "bit (be_value (addr_bytes fmt a)) n \<longleftrightarrow> bit (ucast a :: u32) n" if "n < 32" for n
    using that by (cases "16 \<le> n"; cases "24 \<le> n") (auto simp: S37 be_value_def bit_simps)
  show ?thesis by (intro bit_word_eqI) (simp add: e)
qed

definition data_record :: "srec_fmt \<Rightarrow> u64 \<Rightarrow> u8 list \<Rightarrow> u8 \<times> u8 list" where
  "data_record fmt a bs = (of_nat (srecfmt fmt) + 0x30,
     checked (of_nat (length bs + 2 + srecfmt fmt) # addr_bytes fmt a @ bs))"

lemma data_record_written:
  assumes "sr_data s \<noteq> []" and "drop_bit ((srecfmt fmt + 1) * 8) (srec_pc s) = 0"
  shows "write_data_buffer cr (srecfmt fmt) s =
    Inr (s\<lparr>sr_file := sr_file s @ srec_line cr (data_record fmt (srec_pc s) (sr_data s)),
      srec_pc := srec_pc s + of_nat (length (sr_data s)), sr_data := []\<rparr>, ())"
  using assms
  by (cases fmt)
    (simp_all add: write_data_buffer_def action_defs check_range_def Let_def srec_line_def data_record_def checked_def hex_bytes_def
      ac_simps)

lemma srec_data_read:
  assumes "length bs \<le> 32" and "drop_bit ((srecfmt fmt + 1) * 8) a = 0"
  shows "srec_record (data_record fmt a bs) (mem, start) = Some (mem @ bytes_at (ucast a) bs, start)"
proof -
  let ?t = "of_nat (srecfmt fmt) + 0x30 :: u8"
  let ?n = "of_nat (length bs + 2 + srecfmt fmt) :: u8"
  let ?d = "addr_bytes fmt a @ bs"
  have f: "srecfmt fmt \<le> 3" by (cases fmt) simp_all
  have n: "unat ?n = length bs + 2 + srecfmt fmt"
    using assms(1) f by (simp only: unsigned_of_nat) (simp add: take_bit_nat_eq_self)
  have l: "length (addr_bytes fmt a) = srecfmt fmt + 1" by (rule addr_bytes_length)
  have k: "unat (?t - 0x30) + 1 = srecfmt fmt + 1" and t: "0x31 \<le> ?t" "?t \<le> 0x33" "?t \<noteq> 0x30" by (cases fmt; simp)+
  have c: "checked (?n # ?d) = ?n # ?d @ [sum_list (?n # ?d) XOR 0xff]" by (simp add: checked_def)
  have s: "sum_list (?n # ?d @ [sum_list (?n # ?d) XOR 0xff]) = 0xff" using checked_sum [of "?n # ?d"] by (simp only: c)
  have b: "butlast (?d @ [sum_list (?n # ?d) XOR 0xff]) = ?d" by (simp only: butlast_snoc)
  have len: "length (?d @ [sum_list (?n # ?d) XOR 0xff]) = unat ?n" unfolding n by (simp add: addr_bytes_length)
  have v: "be_value (take (srecfmt fmt + 1) ?d) = ucast a" "drop (srecfmt fmt + 1) ?d = bs"
    using l be_value_addr [OF assms(2)] by simp_all
  show ?thesis
    unfolding data_record_def c srec_record.simps Let_def b k s len v using t by simp
qed

lemma header_written:
  "write_data_buffer cr 0 s =
    Inr (s\<lparr>sr_file := sr_file s @ srec_line cr (0x30, checked (of_nat (length (sr_data s) + 3) # 0 # 0 # sr_data s)),
      srec_pc := srec_pc s + of_nat (length (sr_data s)), sr_data := []\<rparr>, ())"
  by (simp add: write_data_buffer_def action_defs check_range_def Let_def srec_line_def checked_def hex_bytes_def ac_simps)

lemma header_read:
  assumes "length bs \<le> 32"
  shows "srec_record (0x30, checked (of_nat (length bs + 3) # 0 # 0 # bs)) st = Some st"
proof -
  obtain mem start where st: "st = (mem, start)" by (cases st)
  let ?n = "of_nat (length bs + 3) :: u8"
  have n: "unat ?n = length bs + 3"
    using assms by (simp only: unsigned_of_nat) (simp add: take_bit_nat_eq_self)
  have c: "checked (?n # 0 # 0 # bs) = ?n # (0 # 0 # bs @ [sum_list (?n # 0 # 0 # bs) XOR 0xff])" by (simp add: checked_def)
  have s: "sum_list (?n # (0 # 0 # bs @ [sum_list (?n # 0 # 0 # bs) XOR 0xff])) = 0xff"
    using checked_sum [of "?n # 0 # 0 # bs"] by (simp only: c)
  have len: "length (0 # 0 # bs @ [sum_list (?n # 0 # 0 # bs) XOR 0xff]) = unat ?n" unfolding n by simp
  show ?thesis unfolding c st srec_record.simps Let_def s len by simp
qed

definition end_record :: "srec_fmt \<Rightarrow> u64 \<Rightarrow> u8 \<times> u8 list" where
  "end_record fmt a = (of_nat (10 - srecfmt fmt) + 0x30, checked (of_nat (srecfmt fmt + 2) # addr_bytes fmt a))"

lemma masked_bytes:
  "ucast (drop_bit 24 (a AND 0xff000000)) = (ucast (drop_bit 24 a) :: u8)"
  "ucast (drop_bit 16 (a AND 0xff0000)) = (ucast (drop_bit 16 a) :: u8)"
  "ucast (drop_bit 8 (a AND 0xff00)) = (ucast (drop_bit 8 a) :: u8)"
  "ucast (a AND 0xff) = (ucast a :: u8)" for a :: u64
proof -
  have m: "0xff000000 = push_bit 24 (mask 8 :: u64)" "0xff0000 = push_bit 16 (mask 8 :: u64)" "0xff00 = push_bit 8 (mask 8 :: u64)"
    "0xff = (mask 8 :: u64)" by (simp_all add: mask_eq_decr_exp push_bit_eq_mult)
  show "ucast (drop_bit 24 (a AND 0xff000000)) = (ucast (drop_bit 24 a) :: u8)" "ucast (drop_bit 16 (a AND 0xff0000)) = (ucast (drop_bit 16 a) :: u8)"
    "ucast (drop_bit 8 (a AND 0xff00)) = (ucast (drop_bit 8 a) :: u8)" "ucast (a AND 0xff) = (ucast a :: u8)"
    unfolding m by (rule bit_word_eqI; auto simp: bit_simps)+
qed

lemma end_record_written:
  assumes "drop_bit ((srecfmt fmt + 1) * 8) a = 0"
  shows "write_termination_record cr fmt a s = Inr (s\<lparr>sr_file := sr_file s @ srec_line cr (end_record fmt a)\<rparr>, ())"
  unfolding write_termination_record_def masked_bytes using assms
  by (cases fmt)
    (simp_all add: action_defs check_range_def Let_def srec_line_def end_record_def checked_def hex_bytes_def
      masked_bytes ac_simps)

lemma end_record_read:
  assumes "drop_bit ((srecfmt fmt + 1) * 8) a = 0"
  shows "srec_record (end_record fmt a) (mem, start) = Some (mem, ucast a)"
proof -
  let ?n = "of_nat (srecfmt fmt + 2) :: u8"
  let ?t = "of_nat (10 - srecfmt fmt) + 0x30 :: u8"
  let ?d = "addr_bytes fmt a"
  have n: "unat ?n = srecfmt fmt + 2" by (cases fmt) simp_all
  have t: "0x37 \<le> ?t" "?t \<le> 0x39" "?t \<noteq> 0x30" "\<not> ?t \<le> 0x33" by (cases fmt; simp)+
  have c: "checked (?n # ?d) = ?n # ?d @ [sum_list (?n # ?d) XOR 0xff]" by (simp add: checked_def)
  have s: "sum_list (?n # ?d @ [sum_list (?n # ?d) XOR 0xff]) = 0xff" using checked_sum [of "?n # ?d"] by (simp only: c)
  have b: "butlast (?d @ [sum_list (?n # ?d) XOR 0xff]) = ?d" by (simp only: butlast_snoc)
  have len: "length (?d @ [sum_list (?n # ?d) XOR 0xff]) = unat ?n" unfolding n by (simp add: addr_bytes_length)
  show ?thesis
    unfolding end_record_def c srec_record.simps Let_def b s len be_value_addr [OF assms] using t by simp
qed

section \<open>Sections\<close>

text \<open>
  The file is a list of records, and a reader has been given all the memory \<open>E\<close> but for the bytes
  in the buffer. The next address is within the range of the format.
\<close>

definition srec_inv :: "bool \<Rightarrow> srec \<Rightarrow> (u32 \<times> u8) list \<Rightarrow> bool" where
  "srec_inv cr s E \<longleftrightarrow> (\<exists>rs mem. sr_file s = concat (map (srec_line cr) rs) \<and> srec_records rs ([], 0) = Some (mem, 0) \<and>
     E = mem @ bytes_at (ucast (srec_pc s)) (sr_data s))"

definition fits :: "srec_fmt \<Rightarrow> nat \<Rightarrow> bool" where
  "fits fmt n \<longleftrightarrow> n \<le> 2 ^ ((srecfmt fmt + 1) * 8)"

definition srec_ok :: "srec_fmt \<Rightarrow> srec \<Rightarrow> nat \<Rightarrow> bool" where
  "srec_ok fmt s n \<longleftrightarrow> length (sr_data s) < 32 \<and> fits fmt (unat (srec_pc s) + length (sr_data s) + n)"

lemma fits_range:
  assumes "fits fmt (unat a + n)" and "0 < n"
  shows "drop_bit ((srecfmt fmt + 1) * 8) a = 0"
proof -
  have "unat a < 2 ^ ((srecfmt fmt + 1) * 8)" using assms unfolding fits_def by linarith
  then have "unat (drop_bit ((srecfmt fmt + 1) * 8) a) = 0" unfolding unat_drop_bit_eq by (simp only: drop_bit_eq_div div_less)
  then show ?thesis by (simp only: unat_eq_0)
qed

lemma ucast_add_32: "ucast (a + b) = (ucast a + ucast b :: u32)" for a b :: u64
proof transfer
  fix a b :: int
  have "take_bit 32 (take_bit 64 a + take_bit 64 b) = take_bit 32 (take_bit 32 (take_bit 64 a) + take_bit 32 (take_bit 64 b))"
    by (simp only: take_bit_add)
  also have "\<dots> = take_bit 32 (a + b)" by (simp add: take_bit_add)
  finally show "take_bit LENGTH(32) (take_bit LENGTH(64) (a + b)) = take_bit LENGTH(32) (take_bit LENGTH(64) a + take_bit LENGTH(64) b)"
    by simp
qed

lemma ucast_plus: "ucast (a + of_nat n) = (ucast a + of_nat n :: u32)" for a :: u64
proof -
  have "ucast (of_nat n :: u64) = (of_nat n :: u32)" by transfer simp
  then show ?thesis by (simp add: ucast_add_32)
qed

lemma fits_next:
  fixes a :: u64
  assumes "fits fmt (unat a + n)"
  shows "unat (a + of_nat n) = unat a + n"
proof -
  have "(2::nat) ^ ((srecfmt fmt + 1) * 8) \<le> 2 ^ 32" by (rule power_increasing) (cases fmt; simp)+
  then have "unat a + n \<le> 2 ^ 32" using assms unfolding fits_def by linarith
  moreover from this have "unat (of_nat n :: u64) = n" by (simp add: unsigned_of_nat take_bit_nat_eq_self)
  ultimately show ?thesis using unat_add_lem [of a "of_nat n"] by simp
qed

lemma srec_flush_inv:
  assumes "srec_inv cr s E" and "length (sr_data s) \<le> 32" and "fits fmt (unat (srec_pc s) + length (sr_data s) + n)"
  shows "\<exists>s'. write_data_buffer cr (srecfmt fmt) s = Inr (s', ()) \<and> srec_inv cr s' E \<and> srec_ok fmt s' n \<and> sr_data s' = []
    \<and> srec_pc s' = srec_pc s + of_nat (length (sr_data s)) \<and> sr_msgs s' = sr_msgs s"
proof (cases "sr_data s = []")
  case True
  have "srecfmt fmt \<noteq> 0" by (cases fmt) simp_all
  then have "write_data_buffer cr (srecfmt fmt) s = Inr (s, ())" using True by (simp add: write_data_buffer_def action_defs)
  then show ?thesis using True assms by (simp add: srec_ok_def)
next
  case False
  obtain rs mem where f: "sr_file s = concat (map (srec_line cr) rs)" and r: "srec_records rs ([], 0) = Some (mem, 0)"
    and E: "E = mem @ bytes_at (ucast (srec_pc s)) (sr_data s)"
    using assms(1) by (auto simp: srec_inv_def)
  have m: "fits fmt (unat (srec_pc s) + length (sr_data s))" using assms(3) by (simp add: fits_def)
  have d: "drop_bit ((srecfmt fmt + 1) * 8) (srec_pc s) = 0" using fits_range [OF m] False by simp
  let ?s = "s\<lparr>sr_file := sr_file s @ srec_line cr (data_record fmt (srec_pc s) (sr_data s)),
      srec_pc := srec_pc s + of_nat (length (sr_data s)), sr_data := []\<rparr>"
  have "srec_records (rs @ [data_record fmt (srec_pc s) (sr_data s)]) ([], 0) = Some (E, 0)"
    unfolding srec_records_append r E by (simp only: srec_records.simps srec_data_read [OF assms(2) d] option.case)
  then have "srec_inv cr ?s E"
    unfolding srec_inv_def
    by (intro exI [where x = "rs @ [data_record fmt (srec_pc s) (sr_data s)]"] exI [where x = E]) (simp add: f)
  moreover have "srec_ok fmt ?s n" using assms(3) by (simp add: srec_ok_def fits_next [OF m])
  moreover note data_record_written [OF False d, of cr]
  ultimately show ?thesis by simp
qed

lemma put_byte_inv:
  assumes "srec_inv cr s E" and "srec_ok fmt s (Suc n)"
  shows "\<exists>s'. put_byte_in_buffer cr fmt b s = Inr (s', ()) \<and> srec_inv cr s' (E @ [(ucast (srec_pc s) + of_nat (length (sr_data s)), b)])
    \<and> srec_ok fmt s' n \<and> ucast (srec_pc s') + of_nat (length (sr_data s')) = ucast (srec_pc s) + of_nat (length (sr_data s)) + (1 :: u32)
    \<and> sr_msgs s' = sr_msgs s"
proof -
  let ?s = "s\<lparr>sr_data := sr_data s @ [b]\<rparr>"
  let ?E = "E @ [(ucast (srec_pc s) + of_nat (length (sr_data s)), b)]"
  have i: "srec_inv cr ?s ?E" using assms(1) by (auto simp: srec_inv_def bytes_at_append)
  have l: "length (sr_data ?s) \<le> 32" "fits fmt (unat (srec_pc ?s) + length (sr_data ?s) + n)" using assms(2) by (simp_all add: srec_ok_def)
  show ?thesis
  proof (cases "32 \<le> length (sr_data ?s)")
    case True
    obtain s' where "write_data_buffer cr (srecfmt fmt) ?s = Inr (s', ())" "srec_inv cr s' ?E" "srec_ok fmt s' n" "sr_data s' = []"
      "srec_pc s' = srec_pc ?s + of_nat (length (sr_data ?s))" "sr_msgs s' = sr_msgs ?s"
      using srec_flush_inv [OF i l] by blast
    moreover from this(5) have p: "srec_pc s' = srec_pc s + of_nat (Suc (length (sr_data s)))" by simp
    have "ucast (srec_pc s') = (ucast (srec_pc s) + of_nat (length (sr_data s)) + 1 :: u32)"
      unfolding p ucast_plus by simp
    ultimately show ?thesis using True by (auto simp: put_byte_in_buffer_def action_defs)
  next
    case False
    then have "put_byte_in_buffer cr fmt b s = Inr (?s, ())" by (simp add: put_byte_in_buffer_def action_defs)
    moreover have "srec_ok fmt ?s n" using l False by (simp add: srec_ok_def)
    moreover have "ucast (srec_pc ?s) + of_nat (length (sr_data ?s)) = ucast (srec_pc s) + of_nat (length (sr_data s)) + (1 :: u32)"
      by (simp add: add.assoc add.commute)
    moreover have "sr_msgs ?s = sr_msgs s" by simp
    ultimately show ?thesis using i by blast
  qed
qed

lemma put_bytes_inv:
  assumes "srec_inv cr s E" and "srec_ok fmt s (length bs + n)"
  shows "\<exists>s'. put_bytes cr fmt bs s = Inr (s', ()) \<and> srec_inv cr s' (E @ bytes_at (ucast (srec_pc s) + of_nat (length (sr_data s))) bs)
    \<and> srec_ok fmt s' n \<and> sr_msgs s' = sr_msgs s"
  using assms
proof (induction bs arbitrary: s E)
  case Nil
  then show ?case by (simp add: return_def)
next
  case (Cons b bs)
  have "srec_ok fmt s (Suc (length bs + n))" using Cons.prems(2) by simp
  from put_byte_inv [OF Cons.prems(1) this, of b] obtain s1 where 1: "put_byte_in_buffer cr fmt b s = Inr (s1, ())"
    "srec_inv cr s1 (E @ [(ucast (srec_pc s) + of_nat (length (sr_data s)), b)])" "srec_ok fmt s1 (length bs + n)"
    "ucast (srec_pc s1) + of_nat (length (sr_data s1)) = ucast (srec_pc s) + of_nat (length (sr_data s)) + (1 :: u32)"
    "sr_msgs s1 = sr_msgs s" by blast
  show ?case using Cons.IH [OF 1(2,3)] 1(1,4,5) by (auto simp: bind_st_def)
qed

lemma put_bytes_append: "put_bytes cr fmt (xs @ ys) = bind_st (put_bytes cr fmt xs) (\<lambda>_. put_bytes cr fmt ys)"
  by (induction xs) (simp_all add: bind_return bind_assoc)

lemma srec_atoms_image: "image x as (ucast pc) = Inr bs \<Longrightarrow> srec_atoms cr fmt x as pc = put_bytes cr fmt bs"
proof (induction as arbitrary: pc bs)
  case (Cons a as)
  obtain pad pc' where p: "fwpcalign a x (ucast pc) = Inr (pad, pc')"
    using Cons.prems by (cases "fwpcalign a x (ucast pc)") auto
  have pc': "pc' = ucast pc + of_nat (length pad)" using p by (rule fwpcalign_address)
  obtain data where d: "atom_bytes a = Inr data"
    using Cons.prems p by (cases "atom_bytes a") auto
  have e: "pc' + of_nat (length data) = ucast (pc + of_nat (length pad) + of_nat (length data))"
    by (simp add: pc' ucast_plus)
  obtain rest where r: "image x as (pc' + of_nat (length data)) = Inr rest"
    using Cons.prems p d by (cases "image x as (pc' + of_nat (length data))") auto
  have "bs = pad @ data @ rest" using Cons.prems p d r by simp
  then show ?case
    using Cons.IH [OF r [unfolded e]] by (simp add: p d from_stop_Inr bind_return put_bytes_append)
qed simp

lemma srec_section_inv:
  assumes "srec_inv cr s E" and "sr_data s = []" and "image x as (sec_org x) = Inr bs" and "fits fmt (unat (sec_org x) + length bs)"
  shows "\<exists>s'. srec_section cr fmt (x, as) s = Inr (s', ()) \<and> srec_inv cr s' (E @ bytes_at (sec_org x) bs) \<and> sr_data s' = []
    \<and> sr_msgs s' = sr_msgs s"
proof -
  let ?name = "take 32 (map of_char (sec_name x)) :: u8 list"
  let ?r = "(0x30, checked (of_nat (length ?name + 3) # 0 # 0 # ?name)) :: u8 \<times> u8 list"
  let ?s = "s\<lparr>sr_file := sr_file s @ srec_line cr ?r, sr_data := [], srec_pc := ucast (sec_org x)\<rparr>"
  have u: "ucast (ucast (sec_org x) :: u64) = sec_org x" by (rule bit_word_eqI) (simp add: bit_simps)
  obtain rs where f: "sr_file s = concat (map (srec_line cr) rs)" and r: "srec_records rs ([], 0) = Some (E, 0)"
    using assms(1,2) by (auto simp: srec_inv_def)
  have "length ?name \<le> 32" by simp
  then have "srec_records (rs @ [?r]) ([], 0) = Some (E, 0)"
    unfolding srec_records_append r by (simp only: srec_records.simps header_read option.case)
  then have "srec_inv cr ?s E"
    unfolding srec_inv_def by (intro exI [where x = "rs @ [?r]"] exI [where x = E]) (simp add: f assms(2))
  moreover have "unat (ucast (sec_org x) :: u64) = unat (sec_org x)"
    using unsigned_less [of "sec_org x", where 'a = nat] by (simp add: unsigned_ucast_eq take_bit_nat_eq_self)
  then have "srec_ok fmt ?s (length bs + 0)" using assms(2,4) by (simp only: srec_ok_def) simp
  ultimately obtain s1 where 1: "put_bytes cr fmt bs ?s = Inr (s1, ())" "srec_inv cr s1 (E @ bytes_at (sec_org x) bs)"
    "srec_ok fmt s1 0" "sr_msgs s1 = sr_msgs s"
    using put_bytes_inv [of cr ?s E fmt bs 0] assms(2) u by auto
  have l: "length (sr_data s1) \<le> 32" "fits fmt (unat (srec_pc s1) + length (sr_data s1) + 0)" using 1(3) by (simp_all add: srec_ok_def)
  obtain s2 where 2: "write_data_buffer cr (srecfmt fmt) s1 = Inr (s2, ())" "srec_inv cr s2 (E @ bytes_at (sec_org x) bs)"
    "sr_data s2 = []" "sr_msgs s2 = sr_msgs s1" using srec_flush_inv [OF 1(2) l] by blast
  have "ucast (scast (sec_org x) :: u64) = sec_org x" by (rule bit_word_eqI) (simp add: bit_simps)
  then have "image x as (ucast (scast (sec_org x) :: u64)) = Inr bs" using assms(3) by simp
  then show ?thesis
    using 1 2 assms(2) by (simp add: srec_section_def srec_atoms_image bind_st_def modify_def header_written)
qed

definition all_fit :: "srec_fmt \<Rightarrow> (u32 \<times> u8 list) list \<Rightarrow> bool" where
  "all_fit fmt ms \<longleftrightarrow> list_all (\<lambda>(a, bs). fits fmt (unat a + length bs)) ms"

lemma srec_sections_inv:
  assumes "srec_inv cr s E" and "sr_data s = []" and "images xas = Inr ms" and "all_fit fmt ms"
  shows "\<exists>s'. srec_sections cr fmt xas s = Inr (s', ()) \<and> srec_inv cr s' (E @ memory ms) \<and> sr_data s' = [] \<and> sr_msgs s' = sr_msgs s"
  using assms
proof (induction xas arbitrary: s E ms)
  case Nil
  then show ?case by (simp add: return_def memory_def)
next
  case (Cons xa xas)
  obtain x as where xa: "xa = (x, as)" by (cases xa)
  obtain bs where b: "image x as (sec_org x) = Inr bs"
    using Cons.prems(3) by (cases "image x as (sec_org x)") (auto simp: xa)
  obtain ms' where m: "images xas = Inr ms'"
    using Cons.prems(3) b by (cases "images xas") (auto simp: xa)
  have ms: "ms = (sec_org x, bs) # ms'" using Cons.prems(3) b m by (simp add: xa)
  have r: "fits fmt (unat (sec_org x) + length bs)" "all_fit fmt ms'"
    using Cons.prems(4) by (simp_all add: ms all_fit_def)
  obtain s1 where 1: "srec_section cr fmt (x, as) s = Inr (s1, ())" "srec_inv cr s1 (E @ bytes_at (sec_org x) bs)"
    "sr_data s1 = []" "sr_msgs s1 = sr_msgs s"
    using srec_section_inv [OF Cons.prems(1,2) b r(1)] by blast
  show ?case
    using Cons.IH [OF 1(2,3) m r(2)] 1(1,4) by (auto simp: xa ms memory_def bind_st_def)
qed

section \<open>The file\<close>

lemma srec_lines_read:
  assumes "srec_records rs ([], 0) = Some st"
  shows "read_srec (concat (map (srec_line cr) rs)) = Some st"
proof -
  let ?cs = "concat (map (srec_line cr) rs)"
  have "length rs \<le> length ?cs" by (induction rs) (simp_all add: srec_line_def)
  moreover have "?cs = concat (map (\<lambda>(t, bs). [0x53, t] @ hex_bytes bs @ new_line cr) rs)"
    by (simp add: srec_line_def [abs_def] case_prod_beta')
  moreover have "fromhex (hd (new_line cr)) = None" "new_line cr \<noteq> []"
    by (auto simp: new_line_def fromhex_def)
  ultimately have "read_recs srec_head line_end (length ?cs) ?cs = Some rs"
    using read_recs_lines [where h = srec_head and e = line_end and pre = "\<lambda>t. [0x53, t]" and post = "new_line cr"
        and rs = rs and n = "length ?cs"]
    by (simp add: srec_head_def line_end_new_line)
  then show ?thesis using assms by (simp add: read_srec_def)
qed

text \<open>
  C19. When the sections have an image and lie within the addresses of the format, the S-record
  file that is written can be read back, and then every section is at its address with all of its
  bytes, and the start address is the one of the given symbol. There are no messages but for the
  symbols.
\<close>

theorem srec_roundtrip:
  assumes "order p \<noteq> []" and "images (section_data p) = Inr ms" and "all_fit fmt ms"
    and "srec_symbols (core p) (symlist p) start_sym 0 = (sms, start)" and "drop_bit ((srecfmt fmt + 1) * 8) start = 0"
  shows "\<exists>f. write_srec cr fmt start_sym p = Inr (f, sms) \<and> read_srec f = Some (memory ms, ucast start)"
proof -
  let ?s = "\<lparr>sr_file = [], sr_data = [], srec_pc = 0, sr_msgs = sms\<rparr>"
  have "srec_inv cr ?s []" by (auto simp: srec_inv_def intro: exI [where x = "[]"])
  then obtain s where 1: "srec_sections cr fmt (section_data p) ?s = Inr (s, ())" "srec_inv cr s (memory ms)" "sr_data s = []"
    "sr_msgs s = sms" using srec_sections_inv [of cr ?s "[]" "section_data p" ms fmt] assms(2,3) by auto
  then obtain rs where r: "sr_file s = concat (map (srec_line cr) rs)" "srec_records rs ([], 0) = Some (memory ms, 0)"
    by (auto simp: srec_inv_def)
  have "srec_records (rs @ [end_record fmt start]) ([], 0) = Some (memory ms, ucast start)"
    unfolding srec_records_append r(2) by (simp only: srec_records.simps end_record_read [OF assms(5)] option.case)
  from srec_lines_read [OF this, of cr] have "read_srec (sr_file s @ srec_line cr (end_record fmt start)) = Some (memory ms, ucast start)"
    by (simp add: r(1))
  then show ?thesis
    using 1 assms(1,4) by (simp add: write_srec_def bind_st_def end_record_written [OF assms(5)])
qed

lemma srec_roundtrip_witness:
  "\<exists>f. write_srec True S28 None data_sections = Inr (f, [])
     \<and> read_srec f = Some ([(0x1000, 1), (0x1001, 2), (0x1002, 3), (0x2000, 4)], 0)"
proof -
  have i: "images (section_data data_sections) = Inr [(0x1000, [1, 2, 3]), (0x2000, [4])]" by code_simp
  have y: "srec_symbols (core data_sections) (symlist data_sections) None 0 = ([], 0)" by code_simp
  have m: "memory [(0x1000, [1, 2, 3]), (0x2000, [4])] = [(0x1000, 1), (0x1001, 2), (0x1002, 3), (0x2000, 4)]"
    by (simp add: memory_def)
  show ?thesis
    using srec_roundtrip [OF _ i _ y, of S28 True]
    by (simp add: m data_sections_def data_prog_def all_fit_def fits_def)
qed

end
