(* ===== verification/Binout.thy ===== *)
theory Binout
  imports Srecread
begin

text \<open>
  The binary output module (\<open>src/output_bin.c\<close>), which writes the sections in the order of their
  addresses. The RW18 format belongs to one syntax module and is left out.
\<close>

section \<open>Options\<close>

datatype binfmt = BINFMT_RAW | BINFMT_CBMPRG | BINFMT_ATARICOM | BINFMT_APPLEBIN | BINFMT_DRAGONBIN | BINFMT_COCOML
  | BINFMT_ORICMC | BINFMT_ORICMCX | BINFMT_FOENIXPGX | BINFMT_FOENIXPGZ

record bin_opts =
  binfmt :: binfmt
  exec_symname :: "string option"
  coalesce :: bool
  joinorg :: "taddr option"
  addrbits :: nat
  outname :: string

section \<open>Symbols and sections\<close>

text \<open>The errors for undefined symbols, and the address of the start symbol.\<close>

fun exec_symbols :: "asm \<Rightarrow> symid list \<Rightarrow> string option \<Rightarrow> taddr \<Rightarrow> nat list \<times> taddr" where
  "exec_symbols s [] name a = (if name = None then [] else [6], a)"
| "exec_symbols s (y # ys) name a =
     (let found = name = Some (sym_name (sym s y));
          r = exec_symbols s ys (if found then None else name) (if found then sym_pc (sym s y) else a)
      in ((if sym_type (sym s y) = IMPORT then [6] else []) @ fst r, snd r))"

definition output_errs :: "nat list \<Rightarrow> (prog, unit) step" where
  "output_errs ns = modify (\<lambda>p. p\<lparr>core := fold output_err ns (core p)\<rparr>)"

text \<open>
  The allocated sections that are not empty, by ascending addresses. \<open>qsort\<close> may return sections
  at the same address in any order; the check for overlaps has refused those.
\<close>

definition seclist :: "prog \<Rightarrow> secid list" where
  "seclist p = sort_key (\<lambda>c. sec_org (psec p c))
     (filter (\<lambda>c. \<not> sec_has (psec p c) UNALLOCATED \<and> sec_pc (psec p c) \<noteq> sec_org (psec p c)) (order p))"

section \<open>Contents of a section\<close>

fun section_atoms :: "secid \<Rightarrow> atom list \<Rightarrow> u64 \<Rightarrow> (prog, (atom list \<times> u8 list) \<times> u64) step" where
  "section_atoms c [] pc = return (([], []), pc)"
| "section_atoms c (a # as) pc = bind_st get (\<lambda>p.
     bind_st (from_stop (fwpcalign a (psec p c) (ucast pc))) (\<lambda>(pad, npc).
     bind_st (from_stop (atom_bytes a)) (\<lambda>bs.
     bind_st (lift (atom_size (cpu p) a c npc)) (\<lambda>(a, sz).
     bind_st (section_atoms c as (scast npc + of_nat sz)) (\<lambda>((as, rest), pc).
     return ((a # as, pad @ bs @ rest), pc))))))"

definition section_contents :: "secid \<Rightarrow> (prog, u8 list \<times> u64) step" where
  "section_contents c = bind_st get (\<lambda>p.
     bind_st (section_atoms c (atoms p c) (scast (sec_org (psec p c)))) (\<lambda>((as, bs), pc).
     bind_st (put_atoms c as) (\<lambda>_. return (bs, pc))))"

section \<open>The binary formats\<close>

definition toupper :: "char \<Rightarrow> char" where
  "toupper ch = (let n = of_char ch :: nat in if 97 \<le> n \<and> n \<le> 122 then char_of (n - 32) else ch)"

text \<open>The name on the tape: without the extension, and not more than 15 characters.\<close>

fun tape_name :: "string \<Rightarrow> nat \<Rightarrow> u8 list" where
  "tape_name [] n = []"
| "tape_name (ch # cs) n =
     (if map toupper (ch # cs) = ''.TAP'' \<or> 15 \<le> n then [] else of_char (toupper ch) # tape_name cs (n + 1))"

text \<open>
  The header, and the offset of the word in it that is written at the end (\<open>hdroffs\<close>). There is
  no header for a processor that the format does not know.
\<close>

definition bin_header :: "bin_opts \<Rightarrow> cpuconf \<Rightarrow> taddr \<Rightarrow> taddr \<Rightarrow> (u8 list \<times> nat) option" where
  "bin_header o' cf org exec =
     (case binfmt o' of
        BINFMT_APPLEBIN \<Rightarrow> Some (fw16 (ucast org) False @ fw16 0 False, 2)
      | BINFMT_ATARICOM \<Rightarrow> Some (fw16 0xffff False, 0)
      | BINFMT_CBMPRG \<Rightarrow> Some (fw16 (ucast org) False, 0)
      | BINFMT_DRAGONBIN \<Rightarrow>
          Some (fw16 0x5502 True @ fw16 (ucast org) True @ fw16 0 True @ fw16 (ucast (if exec \<noteq> 0 then exec else org)) True @ fw8 0xaa, 4)
      | BINFMT_FOENIXPGX \<Rightarrow>
          if cpu_is cf (WDC65816 OR M65C02) then
            Some (map of_char ''PGX'' @ [if cpu_is cf WDC65816 then 1 else 3] @ fw32 org False, 0)
          else None
      | BINFMT_FOENIXPGZ \<Rightarrow> Some (fw8 (of_char (if addrbits o' < 32 then CHR ''Z'' else CHR ''z'')), 0)
      | BINFMT_RAW \<Rightarrow> Some ([], 0)
      | BINFMT_COCOML \<Rightarrow> Some ([], 0)
      | _ \<Rightarrow>
          Some (fw32 0x16161616 True @ fw8 0x24 @ fw16 0 True @ fw8 0x80 @ fw8 (if binfmt o' = BINFMT_ORICMCX then 0xc7 else 0)
            @ fw16 0 True @ fw16 (ucast org) True @ fw8 0 @ tape_name (outname o') 0 @ fw8 0, 9))"

text \<open>The header of a section, or the gap in front of it.\<close>

definition bin_section_header :: "bin_opts \<Rightarrow> bool \<Rightarrow> sect \<Rightarrow> u64 \<Rightarrow> stop + u8 list" where
  "bin_section_header o' first x pc =
     (case binfmt o' of
        BINFMT_ATARICOM \<Rightarrow> Inr (fw16 (ucast (sec_org x)) False @ fw16 (ucast (sec_pc x - 1)) False)
      | BINFMT_COCOML \<Rightarrow> Inr (fw8 0 @ fw16 (ucast (sec_pc x - sec_org x)) True @ fw16 (ucast (sec_org x)) True)
      | BINFMT_FOENIXPGZ \<Rightarrow>
          Inr (if addrbits o' < 32 then fw24 (sec_org x) False @ fw24 (sec_pc x - sec_org x) False
               else fw32 (sec_org x) False @ fw32 (sec_pc x - sec_org x) False)
      | _ \<Rightarrow>
          if \<not> coalesce o' \<and> \<not> first \<and> pc < scast (sec_org x) then
            fwpattern (ucast (scast (sec_org x) - pc)) (sec_pad x) (sec_padbytes x)
          else Inr [])"

text \<open>Atoms behind the end of the initialized part are taken off the section.\<close>

fun bin_sections :: "bin_opts \<Rightarrow> (secid \<times> nat) list \<Rightarrow> bool \<Rightarrow> secid list \<Rightarrow> u64 \<Rightarrow> (prog, u8 list \<times> u64) step" where
  "bin_sections o' ends first [] pc = return ([], pc)"
| "bin_sections o' ends first (c # cs) pc = bind_st get (\<lambda>p.
     bind_st (case map_of ends c of None \<Rightarrow> fail Undefined | Some n \<Rightarrow> put_atoms c (take n (atoms p c))) (\<lambda>_.
     bind_st (from_stop (bin_section_header o' first (psec p c) pc)) (\<lambda>h.
     bind_st (section_contents c) (\<lambda>(bs, pc).
     bind_st (bin_sections o' ends False cs pc) (\<lambda>(rest, pc). return (h @ bs @ rest, pc))))))"

definition patch :: "nat \<Rightarrow> u8 list \<Rightarrow> u8 list \<Rightarrow> u8 list" where
  "patch k bs f = take k f @ bs @ drop (k + length bs) f"

text \<open>The end of the file: a word of the header, or a trailer.\<close>

definition bin_finish :: "bin_opts \<Rightarrow> nat \<Rightarrow> taddr \<Rightarrow> taddr \<Rightarrow> u64 \<Rightarrow> u8 list \<Rightarrow> u8 list" where
  "bin_finish o' hdroffs org exec pc f =
     (let start = if exec \<noteq> 0 then exec else org
      in case binfmt o' of
        BINFMT_APPLEBIN \<Rightarrow> patch hdroffs (fw16 (ucast (pc - scast org)) False) f
      | BINFMT_DRAGONBIN \<Rightarrow> patch hdroffs (fw16 (ucast (pc - scast org)) True) f
      | BINFMT_COCOML \<Rightarrow> f @ fw8 0xff @ fw16 0 True @ fw16 (ucast start) True
      | BINFMT_FOENIXPGZ \<Rightarrow>
          f @ (if addrbits o' < 32 then fw24 start False @ fw24 0 False else fw32 start False @ fw32 0 False)
      | BINFMT_ORICMC \<Rightarrow> patch hdroffs (fw16 (ucast (pc - 1)) True) f
      | BINFMT_ORICMCX \<Rightarrow> patch hdroffs (fw16 (ucast (pc - 1)) True) f
      | _ \<Rightarrow> f)"

text \<open>
  Without a section that has contents the code reads the first entry of an array that has never
  been set.
\<close>

definition write_bin :: "bin_opts \<Rightarrow> (secid \<times> nat) list \<Rightarrow> (prog, u8 list) step" where
  "write_bin o' ends = bind_st get (\<lambda>p.
     if order p = [] then return []
     else
       bind_st (case joinorg o' of None \<Rightarrow> return () | Some a \<Rightarrow> join_sections a) (\<lambda>_. bind_st get (\<lambda>p.
       let (es, exec) = exec_symbols (core p) (symlist p) (exec_symname o') 0
       in bind_st (output_errs es) (\<lambda>_.
          bind_st (from_stop (chk_sec_overlap (core p) (order p))) (\<lambda>_.
          case seclist p of
            [] \<Rightarrow> fail Undefined
          | c # cs \<Rightarrow>
              (case bin_header o' (cpu p) (sec_org (psec p c)) exec of
                 None \<Rightarrow> bind_st (modify (\<lambda>p. p\<lparr>core := cpu_err 1 (core p)\<rparr>)) (\<lambda>_. return [])
               | Some (h, hdroffs) \<Rightarrow>
                   bind_st (bin_sections o' ends True (c # cs) 0) (\<lambda>(bs, pc).
                   return (bin_finish o' hdroffs (sec_org (psec p c)) exec pc (h @ bs)))))))))"

section \<open>Sections in a file\<close>

text \<open>
  The contents of a section are fixed when evaluating the sizes of its atoms once more gives the
  number of bytes they have, and changes nothing.
\<close>

fun sized :: "cpuconf \<Rightarrow> asm \<Rightarrow> secid \<Rightarrow> atom list \<Rightarrow> taddr \<Rightarrow> bool" where
  "sized cf s c [] pc = True"
| "sized cf s c (a # as) pc =
     (case (fwpcalign a (sec s c) pc, atom_bytes a) of
        (Inr (_, npc), Inr bs) \<Rightarrow> atom_size cf a c npc s = Inr (s, a, length bs) \<and> sized cf s c as (npc + of_nat (length bs))
      | _ \<Rightarrow> False)"

lemma unat_add_small:
  fixes a :: "'a :: len word"
  assumes "unat a + n < 2 ^ 31" and "32 \<le> LENGTH('a)"
  shows "unat (a + of_nat n) = unat a + n"
proof -
  have "(2::nat) ^ 31 < 2 ^ LENGTH('a)" using assms(2) by (intro power_strict_increasing) simp_all
  then have l: "unat a + n < 2 ^ LENGTH('a)" using assms(1) by linarith
  then have "unat (of_nat n :: 'a word) = n" by (simp add: unsigned_of_nat take_bit_nat_eq_self)
  then show ?thesis using unat_add_lem [of a "of_nat n"] l by simp
qed

lemma scast_small: "unat a < 2 ^ 31 \<Longrightarrow> scast (a :: u32) = (ucast a :: u64)"
proof -
  assume "unat a < 2 ^ 31"
  then have "unat (drop_bit 31 a) = 0" by (simp only: unat_drop_bit_eq) (simp add: drop_bit_eq_div)
  then have z: "drop_bit 31 a = 0" by (simp add: unat_eq_0)
  have b: "n < 31" if "bit a n" for n
  proof (rule ccontr)
    assume "\<not> n < 31"
    then have "bit (drop_bit 31 a) (n - 31)" using that by (simp add: bit_drop_bit_eq)
    then show False using z by simp
  qed
  then have "\<not> bit a 31" by blast
  then show ?thesis
    by (intro bit_word_eqI) (auto simp: bit_simps min_def dest: b)
qed

lemma unat_ucast_32_64: "unat (ucast (a :: u32) :: u64) = unat a"
  using unsigned_less [of a, where 'a = nat] by (simp add: unsigned_ucast_eq take_bit_nat_eq_self)

lemma unat_ucast_64_32: "unat (a :: u64) < 2 ^ 31 \<Longrightarrow> unat (ucast a :: u32) = unat a"
  by (simp add: unsigned_ucast_eq take_bit_nat_eq_self)

lemma scast_next:
  fixes pc :: u64
  assumes "unat pc + n < 2 ^ 31"
  shows "scast (ucast pc + of_nat n :: u32) = pc + of_nat n"
proof -
  have u: "unat (ucast pc :: u32) = unat pc" using assms by (intro unat_ucast_64_32) simp
  have "unat (ucast pc + of_nat n :: u32) = unat pc + n" using unat_add_small [of "ucast pc :: u32" n] assms u by simp
  then have "unat (scast (ucast pc + of_nat n :: u32) :: u64) = unat pc + n"
    using assms by (simp only: scast_small unat_ucast_32_64)
  also have "\<dots> = unat (pc + of_nat n)" using unat_add_small [of pc n] assms by simp
  finally show ?thesis by (simp only: word_unat_eq_iff)
qed

lemma section_atoms_image:
  assumes "sized (cpu p) (core p) c as (ucast pc)" and "image (psec p c) as (ucast pc) = Inr bs" and "unat pc + length bs < 2 ^ 31"
  shows "section_atoms c as pc p = Inr (p, (as, bs), pc + of_nat (length bs))"
  using assms
proof (induction as arbitrary: pc bs)
  case Nil
  then show ?case by (simp add: return_def)
next
  case (Cons a as)
  obtain pad npc where p: "fwpcalign a (psec p c) (ucast pc) = Inr (pad, npc)"
    using Cons.prems(2) by (cases "fwpcalign a (psec p c) (ucast pc)") auto
  obtain data where d: "atom_bytes a = Inr data"
    using Cons.prems(2) p by (cases "atom_bytes a") auto
  obtain rest where r: "image (psec p c) as (npc + of_nat (length data)) = Inr rest"
    using Cons.prems(2) p d by (cases "image (psec p c) as (npc + of_nat (length data))") auto
  have bs: "bs = pad @ data @ rest" using Cons.prems(2) p d r by simp
  have npc: "npc = ucast pc + of_nat (length pad)" using p by (rule fwpcalign_address)
  have s: "atom_size (cpu p) a c npc (core p) = Inr (core p, a, length data)"
    "sized (cpu p) (core p) c as (npc + of_nat (length data))" using Cons.prems(1) p d by auto
  let ?pc = "pc + of_nat (length pad) + of_nat (length data)"
  have l: "unat pc + length pad < 2 ^ 31" "unat (pc + of_nat (length pad)) + length data < 2 ^ 31" "unat ?pc + length rest < 2 ^ 31"
    using Cons.prems(3) unat_add_small [of pc "length pad"] unat_add_small [of "pc + of_nat (length pad)" "length data"]
    by (simp_all add: bs)
  have e: "scast npc + of_nat (length data) = ?pc" using scast_next [OF l(1)] by (simp add: npc)
  have u: "ucast ?pc = npc + of_nat (length data)" by (simp add: npc ucast_plus)
  have "section_atoms c as ?pc p = Inr (p, (as, rest), ?pc + of_nat (length rest))"
    using Cons.IH [OF _ _ l(3)] s(2) r by (simp add: u)
  then show ?case
    by (simp add: action_defs p d from_stop_Inr lift_def s(1) e bs add.assoc del: of_nat_add)
      (simp add: add.assoc)
qed

lemma section_contents_image:
  assumes "sized (cpu p) (core p) c (atoms p c) (sec_org (psec p c))" and "image (psec p c) (atoms p c) (sec_org (psec p c)) = Inr bs"
    and "unat (sec_org (psec p c)) + length bs < 2 ^ 31"
  shows "section_contents c p = Inr (p, bs, ucast (sec_org (psec p c)) + of_nat (length bs))"
proof -
  have c: "ucast (ucast (sec_org (psec p c)) :: u64) = sec_org (psec p c)" by (rule bit_word_eqI) (simp add: bit_simps)
  have s: "scast (sec_org (psec p c)) = (ucast (sec_org (psec p c)) :: u64)" using assms(3) by (intro scast_small) simp
  have "section_atoms c (atoms p c) (ucast (sec_org (psec p c))) p
      = Inr (p, (atoms p c, bs), ucast (sec_org (psec p c)) + of_nat (length bs))"
    using assms by (intro section_atoms_image) (simp_all add: c unat_ucast_32_64)
  then show ?thesis by (simp add: section_contents_def action_defs s put_atoms_def)
qed

text \<open>The written atoms of a section have the contents \<open>bs\<close>, below the address \<open>2 ^ 31\<close>.\<close>

definition written_atoms :: "(secid \<times> nat) list \<Rightarrow> prog \<Rightarrow> secid \<Rightarrow> atom list" where
  "written_atoms ends p c = (case map_of ends c of None \<Rightarrow> [] | Some n \<Rightarrow> take n (atoms p c))"

definition section_holds :: "(secid \<times> nat) list \<Rightarrow> prog \<Rightarrow> secid \<Rightarrow> u8 list \<Rightarrow> bool" where
  "section_holds ends p c bs \<longleftrightarrow>
     (let x = psec p c; as = written_atoms ends p c
      in map_of ends c \<noteq> None \<and> sized (cpu p) (core p) c as (sec_org x) \<and> image x as (sec_org x) = Inr bs
        \<and> unat (sec_org x) + length bs < 2 ^ 31 \<and> 0 < sec_padbytes x \<and> sec_padbytes x \<le> int (length (sec_pad x)))"

definition begins :: "prog \<Rightarrow> secid \<Rightarrow> nat" where
  "begins p c = unat (sec_org (psec p c))"

text \<open>Sections that begin where the ones before have ended, or later.\<close>

definition apart :: "prog \<Rightarrow> (secid \<Rightarrow> u8 list) \<Rightarrow> secid list \<Rightarrow> bool" where
  "apart p mem cs \<longleftrightarrow> sorted_wrt (\<lambda>c d. begins p c + length (mem c) \<le> begins p d) cs"

lemma section_holds_same:
  "core p' = core p \<Longrightarrow> cpu p' = cpu p \<Longrightarrow> atoms p' c = atoms p c \<Longrightarrow> section_holds ends p' c bs = section_holds ends p c bs"
  by (cases "map_of ends c") (simp_all add: section_holds_def written_atoms_def Let_def)

lemma not_sless_small: "unat n < 2 ^ 31 \<Longrightarrow> \<not> n <s (0 :: u32)"
proof -
  assume n: "unat n < 2 ^ 31"
  have "int (unat n) < int (2 ^ 31)" using n by (simp only: of_nat_less_iff)
  then have "uint n < 2 ^ 31" by simp
  moreover have "- (2 ^ 31) \<le> uint n" by (rule order_trans [OF _ uint_ge_0]) simp
  ultimately have "sint n = uint n" by (simp add: sint_uint signed_take_bit_int_eq_self)
  then show ?thesis by (simp add: word_sless_alt)
qed

lemma gap_written:
  assumes "unat pc \<le> begins p c" and "begins p c < 2 ^ 31" and "0 < sec_padbytes (psec p c)"
    and "sec_padbytes (psec p c) \<le> int (length (sec_pad (psec p c)))"
    and that: "binfmt o' = BINFMT_RAW" "\<not> coalesce o'"
  shows "\<exists>h. bin_section_header o' False (psec p c) pc = Inr h \<and> length h = begins p c - unat pc"
proof -
  let ?org = "sec_org (psec p c)"
  have s: "scast ?org = (ucast ?org :: u64)" using assms(2) by (intro scast_small) (simp add: begins_def)
  have o: "unat (ucast ?org :: u64) = begins p c" by (simp only: unat_ucast_32_64 begins_def)
  show ?thesis
  proof (cases "pc < ucast ?org")
    case False
    then have "unat pc = begins p c" using assms(1) o by (simp add: word_less_nat_alt)
    then show ?thesis using that False by (simp add: bin_section_header_def s)
  next
    case True
    let ?n = "ucast (ucast ?org - pc) :: taddr"
    have d: "unat (ucast ?org - pc) = begins p c - unat pc" using True o by (simp add: unat_sub word_less_nat_alt word_le_nat_alt)
    then have l: "unat (ucast ?org - pc) < 2 ^ 31" using assms(2) by simp
    have n: "unat ?n = begins p c - unat pc" unfolding unat_ucast_64_32 [OF l] d ..
    have "\<not> ?n <s 0" using n assms(2) by (intro not_sless_small) simp
    then obtain h where "fwpattern ?n (sec_pad (psec p c)) (sec_padbytes (psec p c)) = Inr h"
      using assms(3,4) by (simp add: fwpattern_def fw_zeros_result fw_patterns_result)
    then show ?thesis
      using that True fwpattern_length [of ?n] n by (auto simp: bin_section_header_def s)
  qed
qed

lemma raw_sections:
  assumes "binfmt o' = BINFMT_RAW" and "\<not> coalesce o'"
    and "distinct cs" and "\<forall>d \<in> set cs. section_holds ends p d (mem d)" and "apart p mem cs"
    and "\<forall>d \<in> set cs. unat pc \<le> begins p d"
  shows "\<exists>p' f pc'. bin_sections o' ends False cs pc p = Inr (p', f, pc') \<and>
    (\<forall>d \<in> set cs. take (length (mem d)) (drop (begins p d - unat pc) f) = mem d)"
  using assms(3-6)
proof (induction cs arbitrary: p pc)
  case Nil
  then show ?case by (simp add: return_def)
next
  case (Cons c cs)
  let ?as = "written_atoms ends p c"
  let ?p = "p\<lparr>atoms := (atoms p)(c := ?as)\<rparr>"
  obtain n where n: "map_of ends c = Some n" "?as = take n (atoms p c)"
    using Cons.prems(2) by (auto simp: section_holds_def Let_def written_atoms_def)
  have h: "sized (cpu p) (core p) c ?as (sec_org (psec p c))" "image (psec p c) ?as (sec_org (psec p c)) = Inr (mem c)"
    "unat (sec_org (psec p c)) + length (mem c) < 2 ^ 31" "0 < sec_padbytes (psec p c)"
    "sec_padbytes (psec p c) \<le> int (length (sec_pad (psec p c)))"
    using Cons.prems(2) by (simp_all add: section_holds_def Let_def)
  have "begins p c < 2 ^ 31" using h(3) by (simp add: begins_def)
  then obtain gap where g: "bin_section_header o' False (psec p c) pc = Inr gap" "length gap = begins p c - unat pc"
    using gap_written [OF _ _ h(4,5) assms(1,2), of pc] Cons.prems(4) by auto
  let ?pc = "ucast (sec_org (psec p c)) + of_nat (length (mem c)) :: u64"
  have contents: "section_contents c ?p = Inr (?p, mem c, ?pc)"
    using section_contents_image [of ?p c "mem c"] h(1-3) by simp
  have pc: "unat ?pc = begins p c + length (mem c)"
    using unat_add_small [of "ucast (sec_org (psec p c)) :: u64" "length (mem c)"] h(3) by (simp add: unat_ucast_32_64 begins_def)
  have b: "begins ?p d = begins p d" for d by (simp add: begins_def)
  have "section_holds ends ?p d (mem d)" if "d \<in> set cs" for d
    proof -
    have "d \<noteq> c" "section_holds ends p d (mem d)" using that Cons.prems(1,2) by auto
    then show ?thesis using section_holds_same [of ?p p d ends "mem d"] by simp
  qed
  moreover have "apart ?p mem cs" using Cons.prems(3) by (simp add: apart_def b)
  moreover have after: "unat ?pc \<le> begins p d" if "d \<in> set cs" for d using that Cons.prems(3) by (simp add: apart_def pc)
  ultimately obtain p' f pc' where r: "bin_sections o' ends False cs ?pc ?p = Inr (p', f, pc')"
    "\<forall>d \<in> set cs. take (length (mem d)) (drop (begins p d - unat ?pc) f) = mem d"
    using Cons.IH [of ?p ?pc] Cons.prems(1) b by auto
  have "bin_sections o' ends False (c # cs) pc p = Inr (p', gap @ mem c @ f, pc')"
    by (simp add: action_defs n(1) put_atoms_def g(1) from_stop_Inr)
      (simp add: action_defs n(2) [symmetric] contents r(1))
  moreover have "take (length (mem d)) (drop (begins p d - unat pc) (gap @ mem c @ f)) = mem d" if "d \<in> set (c # cs)" for d
  proof (cases "d = c")
    case True
    then show ?thesis using g(2) by simp
  next
    case False
    then have d: "d \<in> set cs" using that by simp
    have "unat pc \<le> begins p c" using Cons.prems(4) by simp
    then have "begins p d - unat pc - length gap - length (mem c) = begins p d - unat ?pc" "length gap + length (mem c) \<le> begins p d - unat pc"
      using after [OF d] by (simp_all add: g(2) pc)
    then show ?thesis using r(2) d by simp
  qed
  ultimately show ?case by blast
qed


text \<open>Two sections; between them a gap of two bytes.\<close>

definition gap_prog :: prog where
  "gap_prog = data_prog
     [(0x1000, 0x1003, [new_data_atom \<lparr>db_size = 3, db_data = [1, 2, 3], db_relocs = []\<rparr> 1]),
      (0x1005, 0x1006, [new_data_atom \<lparr>db_size = 1, db_data = [4], db_relocs = []\<rparr> 1])]"

definition raw_opts :: bin_opts where
  "raw_opts = \<lparr>binfmt = BINFMT_RAW, exec_symname = None, coalesce = False, joinorg = None, addrbits = 16, outname = ''a.out''\<rparr>"

lemma gap_prog_secs:
  "sec_org (psec gap_prog 0) = 0x1000" "sec_org (psec gap_prog (Suc 0)) = 0x1005"
  "seclist gap_prog = [0, Suc 0]" "chk_sec_overlap (core gap_prog) (order gap_prog) = Inr 2"
  "exec_symbols (core gap_prog) (symlist gap_prog) None 0 = ([], 0)"
proof -
  have f: "filter (\<lambda>c. \<not> sec_has (psec gap_prog c) UNALLOCATED \<and> sec_pc (psec gap_prog c) \<noteq> sec_org (psec gap_prog c)) (order gap_prog) = [0, Suc 0]"
    by code_simp
  show k: "sec_org (psec gap_prog 0) = 0x1000" "sec_org (psec gap_prog (Suc 0)) = 0x1005" by code_simp+
  show "seclist gap_prog = [0, Suc 0]" unfolding seclist_def f by (simp add: k)
  show "chk_sec_overlap (core gap_prog) (order gap_prog) = Inr 2"
    "exec_symbols (core gap_prog) (symlist gap_prog) None 0 = ([], 0)" by code_simp+
qed

lemma gap_prog_image:
  "sized (cpu gap_prog) (core gap_prog) 0 (atoms gap_prog 0) (sec_org (psec gap_prog 0))"
  "sized (cpu gap_prog) (core gap_prog) (Suc 0) (atoms gap_prog (Suc 0)) (sec_org (psec gap_prog (Suc 0)))"
  "image (psec gap_prog 0) (atoms gap_prog 0) (sec_org (psec gap_prog 0)) = Inr [1, 2, 3]"
  "image (psec gap_prog (Suc 0)) (atoms gap_prog (Suc 0)) (sec_org (psec gap_prog (Suc 0))) = Inr [4]"
  by code_simp+


end
