(* ===== verification/Cmdout.thy ===== *)
theory Cmdout
  imports Binout
begin

text \<open>
  The TRS-DOS /CMD output module (\<open>src/output_cmd.c\<close>), and a reader of the format.
\<close>

section \<open>The /CMD format\<close>

fun cmd_sections :: "secid list \<Rightarrow> (prog, u8 list) step" where
  "cmd_sections [] = return []"
| "cmd_sections (c # cs) = bind_st get (\<lambda>p.
     let x = psec p c
     in bind_st (section_contents c) (\<lambda>(bs, _).
        bind_st (cmd_sections cs) (\<lambda>rest.
        return (fw8 1 @ fw16 (ucast (sec_pc x - sec_org x + 5)) False @ fw16 (ucast (sec_org x)) False @ bs @ rest))))"

definition write_cmd :: "string option \<Rightarrow> (prog, u8 list) step" where
  "write_cmd name = bind_st get (\<lambda>p.
     if order p = [] then return []
     else
       let (es, exec) = exec_symbols (core p) (symlist p) name 0
       in bind_st (output_errs es) (\<lambda>_.
          bind_st (from_stop (chk_sec_overlap (core p) (order p))) (\<lambda>_.
          case seclist p of
            [] \<Rightarrow> return []
          | c # cs \<Rightarrow>
              bind_st (cmd_sections (c # cs)) (\<lambda>bs.
              return (bs @ fw8 2 @ fw16 2 False @ fw16 (ucast (if exec \<noteq> 0 then exec else sec_org (psec p c))) False)))))"

section \<open>Reading a /CMD file\<close>

text \<open>The memory of the load blocks, and the address of the transfer block.\<close>

fun read_cmd :: "nat \<Rightarrow> u8 list \<Rightarrow> ((u32 \<times> u8) list \<times> u16) option" where
  "read_cmd (Suc n) (t # l # h # al # ah # cs) =
     (let len = unat l + 256 * unat h; a = ucast al OR push_bit 8 (ucast ah) :: u16
      in if t = 1 \<and> 5 \<le> len \<and> len - 5 \<le> length cs then
           map_option (apfst ((@) (bytes_at (ucast a) (take (len - 5) cs)))) (read_cmd n (drop (len - 5) cs))
         else if t = 2 \<and> len = 2 \<and> cs = [] then Some ([], a)
         else None)"
| "read_cmd n cs = None"

lemma block_word: "ucast (ucast v :: u8) OR push_bit 8 (ucast (ucast (drop_bit 8 v) :: u8)) = (v :: u16)"
  by (rule bit_word_eqI) (auto simp: bit_simps)

lemma le_value: "unat (ucast v :: u8) + 256 * unat (ucast (drop_bit 8 v) :: u8) = unat (v :: u16)"
proof -
  have "unat (ucast v :: u8) = unat v mod 256" by (simp add: unsigned_ucast_eq take_bit_eq_mod)
  moreover have "unat v < 256 * 256" using unsigned_less [of v, where 'a = nat] by simp
  then have "unat v div 256 < 256" by (rule less_mult_imp_div_less)
  then have "unat (ucast (drop_bit 8 v) :: u8) = unat v div 256"
    by (simp add: unsigned_ucast_eq take_bit_eq_mod drop_bit_eq_div unat_div_distrib)
  ultimately show ?thesis by (simp add: mod_mult_div_eq)
qed

lemma load_block_read:
  assumes "length bs + 5 < 65536" and "unat a < 65536"
  shows "read_cmd (Suc n) (fw8 1 @ fw16 (ucast (of_nat (length bs) + 5 :: taddr)) False @ fw16 (ucast (a :: taddr)) False @ bs @ rest)
    = map_option (apfst ((@) (bytes_at a bs))) (read_cmd n rest)"
proof -
  let ?v = "ucast (of_nat (length bs) + 5 :: taddr) :: u16"
  have "(of_nat (length bs) + 5 :: taddr) = of_nat (length bs + 5)" by simp
  moreover have "ucast (of_nat k :: taddr) = (of_nat k :: u16)" for k by transfer simp
  ultimately have "?v = of_nat (length bs + 5)" by (simp only:)
  then have len: "unat (ucast ?v :: u8) + 256 * unat (ucast (drop_bit 8 ?v) :: u8) = length bs + 5"
    using assms(1) by (simp only: le_value) (simp add: unsigned_of_nat take_bit_nat_eq_self del: of_nat_add)
  have "take_bit 16 a = a"
    using assms(2) by (simp add: word_unat_eq_iff unsigned_take_bit_eq take_bit_nat_eq_self)
  moreover have "ucast (ucast a :: u16) = take_bit 16 a" by (rule bit_word_eqI) (auto simp: bit_simps)
  ultimately have a: "ucast (ucast a :: u16) = a" by simp
  show ?thesis by (simp add: fw8_def fw16_def Let_def block_word a len)
qed

text \<open>A section whose block can be read: all of it is in 16 bits, and its size is the one of its contents.\<close>

definition block_holds :: "prog \<Rightarrow> secid \<Rightarrow> u8 list \<Rightarrow> bool" where
  "block_holds p c bs \<longleftrightarrow>
     (let x = psec p c
      in sized (cpu p) (core p) c (atoms p c) (sec_org x) \<and> image x (atoms p c) (sec_org x) = Inr bs
        \<and> unat (sec_org x) < 65536 \<and> length bs + 5 < 65536 \<and> sec_pc x - sec_org x = of_nat (length bs))"

lemma cmd_sections_read:
  assumes "\<forall>c \<in> set cs. block_holds p c (mem c)"
  shows "\<exists>f. cmd_sections cs p = Inr (p, f) \<and> (\<forall>n rest. read_cmd (length cs + n) (f @ rest)
    = map_option (apfst ((@) (memory (map (\<lambda>c. (sec_org (psec p c), mem c)) cs)))) (read_cmd n rest))"
  using assms
proof (induction cs)
  case Nil
  have "map_option (apfst (\<lambda>a. a)) r = r" for r :: "((u32 \<times> u8) list \<times> u16) option" by (cases r) (auto simp: apfst_def map_prod_def)
  then show ?case by (simp add: return_def memory_def)
next
  case (Cons c cs)
  let ?x = "psec p c"
  have h: "sized (cpu p) (core p) c (atoms p c) (sec_org ?x)" "image ?x (atoms p c) (sec_org ?x) = Inr (mem c)"
    "unat (sec_org ?x) < 65536" "length (mem c) + 5 < 65536" "sec_pc ?x - sec_org ?x = of_nat (length (mem c))"
    using Cons.prems by (simp_all add: block_holds_def Let_def)
  have contents: "section_contents c p = Inr (p, mem c, ucast (sec_org ?x) + of_nat (length (mem c)))"
    using section_contents_image [OF h(1,2)] h(3,4) by simp
  obtain f where f: "cmd_sections cs p = Inr (p, f)" and r: "\<And>n rest. read_cmd (length cs + n) (f @ rest)
    = map_option (apfst ((@) (memory (map (\<lambda>c. (sec_org (psec p c), mem c)) cs)))) (read_cmd n rest)"
    using Cons by auto
  let ?b = "fw8 1 @ fw16 (ucast (of_nat (length (mem c)) + 5 :: taddr)) False @ fw16 (ucast (sec_org ?x)) False @ mem c"
  have "cmd_sections (c # cs) p = Inr (p, ?b @ f)"
    by (simp add: action_defs contents f h(5) Let_def)
  moreover have "read_cmd (length (c # cs) + n) ((?b @ f) @ rest)
    = map_option (apfst ((@) (memory (map (\<lambda>c. (sec_org (psec p c), mem c)) (c # cs))))) (read_cmd n rest)" for n rest
    using load_block_read [OF h(4,3), of "length cs + n" "f @ rest"]
    by (simp add: r memory_def option.map_comp comp_def apfst_def map_prod_def case_prod_beta')
  ultimately show ?case by blast
qed



text \<open>
  The length of a block is the one of the initialized part, but the atoms behind it are written
  as well: such a file cannot be read.
\<close>

definition tail_prog :: prog where
  "tail_prog = data_prog
     [(0x1000, 0x1001, [new_data_atom \<lparr>db_size = 1, db_data = [7], db_relocs = []\<rparr> 1,
       new_atom (SPACE ((new_sblock 0 (NUM 2) 1 None)\<lparr>sb_space := 2, sb_flags := SPC_UNINITIALIZED\<rparr>)) 1])]"

theorem cmd_uninitialized_tail:
  "bind_stop (write_cmd None tail_prog) (\<lambda>(_, f). Inr (f, read_cmd 9 f)) =
    Inr ([1, 6, 0, 0, 0x10, 7, 0, 0, 2, 2, 0, 0, 0x10], None)"
proof -
  have f: "filter (\<lambda>c. \<not> sec_has (psec tail_prog c) UNALLOCATED \<and> sec_pc (psec tail_prog c) \<noteq> sec_org (psec tail_prog c)) (order tail_prog) = [0]"
    by code_simp
  have l: "seclist tail_prog = [0]" unfolding seclist_def f by simp
  have c: "bind_stop (cmd_sections [0] tail_prog) (\<lambda>(_, bs). Inr bs) = Inr [1, 6, 0, 0, 0x10, 7, 0, 0]" by code_simp
  have r: "read_cmd 9 [1, 6, 0, 0, 0x10, 7, 0, 0, 2, 2, 0, 0, 0x10] = None" by code_simp
  have o: "order tail_prog = [0]" "chk_sec_overlap (core tail_prog) [0] = Inr 1"
    "exec_symbols (core tail_prog) (symlist tail_prog) None 0 = ([], 0)" "sec_org (psec tail_prog 0) = 0x1000" by code_simp+
  obtain p' where "cmd_sections [0] tail_prog = Inr (p', [1, 6, 0, 0, 0x10, 7, 0, 0])"
    using c by (cases "cmd_sections [0] tail_prog") auto
  moreover have t: "fw8 2 = [2]" "fw16 2 False = [2, 0]" "fw16 0x1000 False = [0, 0x10]" by code_simp+
  ultimately show ?thesis
    using r by (simp add: write_cmd_def action_defs o l output_errs_def from_stop_Inr Let_def t del: cmd_sections.simps)
qed

end
