(* ===== verification/Spec2Isabelle.thy ===== *)
theory Spec2Isabelle
  imports Errors Mnemotab Cond Exprreloc Exprround Exprends Frontsafe Nodelist Cpubranch Cpuselect Ihexread Srecread Cmdout
begin

text \<open>
  Verification of the vasm portable macro assembler (\<open>src/\<close>), in the configuration with the 6502
  back end: \<open>taddr\<close> has 32 bits, a byte has eight, the expression parser works on integers only
  (\<open>FLOAT_PARSER\<close> off), and what a syntax module decides is taken from \<open>src/syntax/oldstyle\<close>.

  The program. The front end reads lines from a stack of source texts, expands macros, and looks
  at conditions, labels, directives and instructions. It appends atoms (labels, instructions, data
  definitions, space, and so on) to sections, and enters symbols into a table. \<open>resolve\<close> then
  repeats passes over the sections until no label moves. \<open>assemble\<close> evaluates everything once more
  at the final addresses and turns instructions and definitions into data with relocations.
  \<open>fix_labels\<close> and \<open>undef_syms\<close> settle the symbols, and an output module writes the sections. All
  of these call \<open>eval_expr\<close> and \<open>find_base\<close> on expression trees, and all report through \<open>error.c\<close>.

  Conventions. A C function is a function of the same name. State is passed explicitly: \<open>step\<close>
  is a state transformer that may stop, and \<open>stop\<close> says how: an internal error of the code,
  undefined behaviour of C that the code runs into, a fatal message, or a loop that does not end
  (\<open>Runaway\<close>). Pointers to symbols and sections are indices into stores that only grow. A message
  is recorded by its number; the tables of \<open>error.c\<close> say which of them are errors.

  Foundations.
  \<^item> \<open>Prelude\<close>, \<open>Bytes\<close>: the C integer types, shifts, bytes of words.
  \<^item> \<open>Hugeint\<close>, \<open>Hugediv\<close>, \<open>Hugemem\<close>: the 128-bit integers of \<open>hugeint.c\<close>. Addition, subtraction,
    multiplication and division are related to arithmetic modulo \<open>2 ^ 128\<close>, with the cases where
    the code deviates from it.
  \<^item> \<open>Memval\<close>: reading and writing values and bit fields (\<open>supp.c\<close>); \<open>Nodelist\<close>: its doubly linked
    lists on a heap of cells.
  \<^item> \<open>Errors\<close>: the tables of messages and the reporting (\<open>error.c\<close>), as a step relation.
  \<^item> \<open>Symtab\<close>: hash tables (\<open>symtab.c\<close>), which implement finite maps; \<open>Mnemotab\<close>: the table of
    mnemonics built from them.
  \<^item> \<open>Cond\<close>: conditional assembly (\<open>cond.c\<close>), which implements a stack of conditions.

  Expressions.
  \<^item> \<open>Asmstate\<close>: expressions, symbols, sections and the state they are evaluated in.
  \<^item> \<open>Expr\<close>: \<open>eval_expr\<close>, \<open>find_base\<close>, \<open>simplify_expr\<close> (\<open>expr.c\<close>). The recursion goes through the
    expressions of symbols and is bounded by fuel: the number of symbols bounds the depth, since
    the code marks a symbol while it is evaluated. \<open>Exprframe\<close> shows that the fuel of the wrappers
    is enough, and what an evaluation leaves as it is.
  \<^item> \<open>Evalview\<close>: what a value depends on; \<open>Exprreloc\<close>: an expression that is called constant has
    the same value wherever the sections are placed, and one with a base moves with it.
  \<^item> \<open>Reloc\<close>: relocations of a data block (\<open>reloc.c\<close>).
  \<^item> \<open>Exprlex\<close>, \<open>Exprparse\<close>: the parser of expressions with the words of the oldstyle syntax. Each
    level of operators is a function of the next one, and a fuel bounds the nesting of parentheses.
    \<open>Exprround\<close>: what is printed is read back; \<open>Exprends\<close>: the length of the text is enough fuel.

  The 6502 back end (\<open>cpus/6502\<close>).
  \<^item> \<open>Opcodes6502\<close>: the table of mnemonics; \<open>Cpu6502\<close>: optimization, size and encoding.
  \<^item> \<open>Cpusize\<close>: the announced size is the number of bytes written; \<open>Cpubranch\<close>: the bytes of a
    branch reach its destination; \<open>Cpuselect\<close>: selection of a processor.
  \<^item> \<open>Operands\<close>: the parser of operands and the search for the mnemonic that they match (\<open>new_inst\<close>
    in \<open>atom.c\<close>); what it returns is an instruction that the encoder accepts.

  The front end.
  \<^item> \<open>Texts\<close>: strings, names, operands and the label field of a line (\<open>parse.c\<close>,
    \<open>syntax/oldstyle/syntax.c\<close>). A position in a text is the text behind it.
  \<^item> \<open>Frontend\<close>: the state \<open>front\<close>, which contains the program, the stack of sources and the
    files (\<open>source.c\<close>), macros and repetitions, and the reading of a line with the arguments of a
    macro in it (\<open>read_next_line\<close> in \<open>parse.c\<close>). A line is copied in at most as many rounds as
    the text has characters, and the number of times a source ends is bounded by the repetitions
    that are left, so these bounds are no restriction.
  \<^item> \<open>Directives\<close>, \<open>Statements\<close>: every directive of the oldstyle syntax and of the 6502, structures,
    the tables of directives, labels and assignments, and \<open>parse\<close>, which handles line after line;
    the number of lines, which a macro may make very large, is a parameter of it.
  \<^item> \<open>Linetext\<close>: what strings, operand fields, the arguments of a macro and skipped lines mean, and
    small source texts on which the front end is evaluated.
  \<^item> \<open>Building\<close>: what the steps of the front end do to the program. \<open>prog_ok\<close> says that
    the table of symbols agrees with the list, that the linked sections are distinct and exist, and
    that the atoms are ones the later phases accept; \<open>guarded_frame\<close> is the interface by which what
    the basic steps do to a well-formed program becomes what the front end does. \<open>Frontsafe\<close>: parsing keeps the
    program well formed whatever the source says, and an object file comes from a source text that
    was read without an error.

  The assembler.
  \<^item> \<open>Atoms\<close> (\<open>atom.c\<close>), \<open>Sections\<close> and \<open>Symbols\<close> (\<open>vasm.c\<close>, \<open>symbol.c\<close>): the program \<open>prog\<close>
    and the operations that build it.
  \<^item> \<open>Resolve\<close>: the passes and the worklist; \<open>Layout\<close>, \<open>Worklist\<close>: after the resolver every label
    stands at its address in the layout of the atoms. The passes over a section are bounded by
    \<open>maxpasses\<close> as in the code; the rounds of the worklist, which the code does not bound, are a
    parameter, and running out of them is \<open>Runaway\<close>.
  \<^item> \<open>Assemble\<close>: the final pass; \<open>Finish\<close>: the rest of \<open>main\<close> and the phases in their order.
  \<^item> \<open>Stepframe\<close>: the interfaces that invariants of the operations are proved with: a relation that
    holds across the basic steps holds across every operation. They are interpreted for the atoms
    of other sections, for messages, and for the fields a phase leaves alone.
  \<^item> \<open>Report\<close>, \<open>Phases\<close>: an extension of that interface by the assignments to the state of the
    evaluation, \<open>core_frame\<close>, interpreted for the messages: messages are never lost, so an object file is only written for a program
    that went through all phases without an error.

  Output.
  \<^item> \<open>Output\<close>: padding, bytes of atoms and the check for overlaps (\<open>supp.c\<close>); \<open>Image\<close>: the memory
    image of the sections, which is the specification of every output format; \<open>Hextext\<close>:
    hexadecimal text.
  \<^item> \<open>Ihex\<close>, \<open>Ihexread\<close>; \<open>Srec\<close>, \<open>Srecread\<close>; \<open>Cmdout\<close>: the Intel HEX, S-record and TRS-DOS /CMD formats,
    each with a reader; what is written is read back to the image. \<open>Binout\<close>: the binary formats.

  Not modelled. The syntax modules other than oldstyle and the processors other than the 6502: each
  is a front end or a table of its own behind the same interface, and what only they use of the
  common code (repetitions over values, default values and qualifiers of macro arguments) is left
  out with them. The object file formats with symbol
  tables (ELF, a.out, COFF and so on), listings and DWARF, which only read what is modelled here.
  The command line and the functions of the host (\<open>osdep.c\<close>), whose failures are not modelled
  either. Text printed to the terminal, except by \<open>PRINTTEXT\<close> and \<open>PRINTEXPR\<close> atoms. The memory
  allocator: memory of the host is unbounded.
\<close>

section \<open>128-bit integers\<close>

text \<open>
  C40. \<open>hadd\<close> and \<open>hsub\<close> compute the sum and the difference modulo \<open>2 ^ 128\<close>, except when
  the second operand is negative and its low half is not zero: then the result is off by
  \<open>2 ^ 64\<close>, because the carry out of the low half is taken with the wrong sense.
\<close>

theorem hadd_hsub_value:
  "hval (hadd a b) = hval a + hval b - (if HUGESIGN b \<and> lo b \<noteq> 0 then 2 ^ 64 else 0)
   \<and> hval (hsub a b) = hval a - hval b + (if HUGESIGN b \<and> lo b \<noteq> 0 then 2 ^ 64 else 0)"
  by (simp only: hval_hadd hval_hsub simp_thms)

text \<open>
  C39. Signed division truncates towards zero, and the modulus has the magnitude of the
  remainder and the sign of the product of the operands, for every dividend and every divisor
  that fits into one 32-bit digit.
\<close>

theorem hdiv_hmod_one_digit:
  assumes "sint (hval b) \<noteq> 0" and "\<bar>sint (hval b)\<bar> < 2 ^ 32"
  shows "\<exists>q r. hdiv a b = Inr q \<and> hmod a b = Inr r
    \<and> hval q = word_of_int (sint (hval a) sdiv sint (hval b))
    \<and> hval r = word_of_int (if (sint (hval a) < 0) = (sint (hval b) < 0)
                  then \<bar>sint (hval a)\<bar> mod \<bar>sint (hval b)\<bar>
                  else - (\<bar>sint (hval a)\<bar> mod \<bar>sint (hval b)\<bar>))"
  by (rule hdiv_hmod_small [OF assms]) blast

lemma hdiv_hmod_one_digit_witness:
  "\<exists>q r. hdiv (huge_from_int (- 7)) (huge_from_int 2) = Inr q \<and> hmod (huge_from_int (- 7)) (huge_from_int 2) = Inr r
    \<and> hval q = word_of_int (- 3) \<and> hval r = word_of_int (- 1)"
proof -
  have v: "sint (hval (huge_from_int (- 7))) = - 7" "sint (hval (huge_from_int 2)) = 2"
    by (simp_all add: hval_huge_from_int)
  show ?thesis
    using hdiv_hmod_one_digit [of "huge_from_int 2" "huge_from_int (- 7)"] unfolding v
    by (simp add: signed_divide_int_def)
qed

end
